(* ===== verification/Prelude.thy ===== *)
theory Prelude
  imports Main "HOL-Library.Word" "HOL-Library.Monad_Syntax" "HOL-Library.Signed_Division"
begin

unbundle bit_operations_syntax

text \<open>
  Shared ground of the development: the C types of the i686 target (\<^verbatim>\<open>src/sys/include/types.h\<close>;
  \<^verbatim>\<open>int\<close>, \<^verbatim>\<open>long\<close>, \<^verbatim>\<open>size_t\<close> and pointers are 32 bits wide), the reading of a C
  function that may not return normally as an \<open>option\<close>, the kernel's \<^verbatim>\<open>assert\<close>, and the
  lemmas on words and on option computations that the component theories share.

  A computation whose result is \<^term>\<open>None\<close> does not return to its caller: an \<^verbatim>\<open>assert\<close>
  failed (the kernel's macro then spins in \<^verbatim>\<open>while(1)\<close>), a loop does not end, or the C
  dereferences a null or unmapped pointer.  Error codes that the C returns are ordinary values.
\<close>

named_theorems list_laws \<open>laws of the queue.h macros over the list contents they represent\<close>
named_theorems pm_simps \<open>equations of the physical memory component\<close>
named_theorems vm_simps \<open>equations of the paging component\<close>

section \<open>C types of the target\<close>

type_synonym u8 = "8 word"
type_synonym u16 = "16 word"
type_synonym u32 = "32 word"

text \<open>\<^verbatim>\<open>physaddr_t\<close>, \<^verbatim>\<open>virtaddr_t\<close> and \<^verbatim>\<open>size_t\<close> are all 32 bits wide.\<close>

type_synonym physaddr_t = u32
type_synonym virtaddr_t = u32
type_synonym c_size_t = u32

section \<open>Computations that may not return\<close>

text \<open>
  \<^verbatim>\<open>assert(x)\<close> of \<^verbatim>\<open>src/sys/include/assert.h\<close>: in the kernel build a failed assertion
  spins forever.
\<close>

definition c_assert :: "bool \<Rightarrow> unit option" where
  "c_assert b = (if b then Some () else None)"

lemma c_assert_True [simp]: "c_assert True = Some ()"
  by (simp add: c_assert_def)

lemma c_assert_eq_Some [simp]: "c_assert b = Some u \<longleftrightarrow> b"
  by (simp add: c_assert_def)

lemma c_assert_bind [simp]: "Option.bind (c_assert b) f = (if b then f () else None)"
  by (simp add: c_assert_def)

text \<open>
  The C remainder of two signed 32-bit values truncates towards zero, so it takes the sign of the
  dividend.
\<close>

definition c_srem :: "u32 \<Rightarrow> u32 \<Rightarrow> u32" where
  "c_srem a b = word_of_int (sint a smod sint b)"

text \<open>A division of C rounds to zero; a division by zero has no result.\<close>

definition c_div :: "int \<Rightarrow> int \<Rightarrow> int option" where
  "c_div a b = (if b = 0 then None else Some (a sdiv b))"

text \<open>The result of an arithmetic operation on \<^verbatim>\<open>int\<close> that may overflow.\<close>

definition c_int :: "int \<Rightarrow> int option" where
  "c_int x = (if - (2 ^ 31) \<le> x \<and> x < 2 ^ 31 then Some x else None)"

section \<open>Words\<close>

lemma unat_dec:
  fixes w :: "'a::len word"
  assumes "w \<noteq> 0"
  shows "unat (w - 1) = unat w - 1"
  using assms by (simp add: unat_minus_one)

lemma unat_inc:
  fixes w :: "'a::len word"
  assumes "unat w + 1 < 2 ^ LENGTH('a)"
  shows "unat (w + 1) = unat w + 1"
  using assms unat_word_ariths(1)[of w 1] by simp

lemma word_pos_iff [simp]:
  fixes w :: "'a::len word"
  shows "w \<le> 0 \<longleftrightarrow> w = 0"
  by simp

lemma unat_pos_iff:
  fixes w :: "'a::len word"
  shows "0 < unat w \<longleftrightarrow> w \<noteq> 0"
  by (simp add: unat_gt_0)

lemma of_nat_2p_32: "of_nat 4294967296 = (0::u32)"
  by (simp add: word_eq_iff_unsigned)

lemma page_multiple_mod: "(x * 4096 :: u32) mod 4096 = 0"
proof -
  have "take_bit 12 (push_bit 12 x) = 0" by (simp add: take_bit_push_bit)
  then show ?thesis by (simp add: take_bit_eq_mod push_bit_eq_mult)
qed

end
