(* ===== verification/Queue.thy ===== *)
theory Queue
  imports Prelude
begin

text \<open>
  The list macros of \<^verbatim>\<open>src/sys/include/queue.h\<close> that the kernel uses, on an explicit store
  of link fields: \<^verbatim>\<open>LIST\<close> (doubly linked, the back link is the address of the cell that
  points at the element) and \<^verbatim>\<open>SLIST\<close> (singly linked).  Heads and elements are named by
  arbitrary types, so one store holds all the lists that share an element type and aliasing
  between them is visible.  The theory shows what the macros do to the lists the store
  represents and packages it as the interface \<open>linked_lists\<close>.
\<close>

section \<open>The store of link fields\<close>

text \<open>
  \<^verbatim>\<open>LIST_HEAD\<close> is a cell \<^verbatim>\<open>lh_first\<close>; \<^verbatim>\<open>LIST_ENTRY\<close> is \<^verbatim>\<open>le_next\<close> and
  \<^verbatim>\<open>le_prev\<close>, where \<^verbatim>\<open>le_prev\<close> is the address of the previous \<^verbatim>\<open>next\<close> cell.
\<close>

datatype ('h, 'n) link = Head_cell 'h | Next_cell 'n

record ('h, 'n) list_store =
  lh_first :: "'h \<Rightarrow> 'n option"
  le_next :: "'n \<Rightarrow> 'n option"
  le_prev :: "'n \<Rightarrow> ('h, 'n) link option"

fun cell_read :: "('h, 'n) list_store \<Rightarrow> ('h, 'n) link \<Rightarrow> 'n option" where
  "cell_read q (Head_cell h) = lh_first q h"
| "cell_read q (Next_cell e) = le_next q e"

fun cell_write :: "('h, 'n) link \<Rightarrow> 'n option \<Rightarrow> ('h, 'n) list_store \<Rightarrow> ('h, 'n) list_store" where
  "cell_write (Head_cell h) v q = q\<lparr>lh_first := (lh_first q)(h := v)\<rparr>"
| "cell_write (Next_cell e) v q = q\<lparr>le_next := (le_next q)(e := v)\<rparr>"

section \<open>The LIST macros\<close>

definition LIST_EMPTY :: "'h \<Rightarrow> ('h, 'n) list_store \<Rightarrow> bool" where
  "LIST_EMPTY h q \<longleftrightarrow> lh_first q h = None"

definition LIST_FIRST :: "'h \<Rightarrow> ('h, 'n) list_store \<Rightarrow> 'n option" where
  "LIST_FIRST h q = lh_first q h"

definition LIST_NEXT :: "'n \<Rightarrow> ('h, 'n) list_store \<Rightarrow> 'n option" where
  "LIST_NEXT e q = le_next q e"

definition LIST_INIT :: "'h \<Rightarrow> ('h, 'n) list_store \<Rightarrow> ('h, 'n) list_store" where
  "LIST_INIT h q = q\<lparr>lh_first := (lh_first q)(h := None)\<rparr>"

definition LIST_INSERT_HEAD ::
  "'h \<Rightarrow> 'n \<Rightarrow> ('h, 'n) list_store \<Rightarrow> ('h, 'n) list_store" where
  "LIST_INSERT_HEAD h e q =
     (let q1 = q\<lparr>le_next := (le_next q)(e := LIST_FIRST h q)\<rparr>;
          q2 = (case LIST_FIRST h q1 of
                  None \<Rightarrow> q1
                | Some f \<Rightarrow> q1\<lparr>le_prev := (le_prev q1)(f := Some (Next_cell e))\<rparr>);
          q3 = q2\<lparr>lh_first := (lh_first q2)(h := Some e)\<rparr>
      in q3\<lparr>le_prev := (le_prev q3)(e := Some (Head_cell h))\<rparr>)"

text \<open>\<^verbatim>\<open>LIST_REMOVE\<close> writes through \<^verbatim>\<open>le_prev\<close>; an element that was never linked has a
  null \<^verbatim>\<open>le_prev\<close>.  The removed element keeps its old links.\<close>

definition LIST_REMOVE :: "'n \<Rightarrow> ('h, 'n) list_store \<Rightarrow> ('h, 'n) list_store option" where
  "LIST_REMOVE e q =
     (let q1 = (case LIST_NEXT e q of
                  None \<Rightarrow> q
                | Some n \<Rightarrow> q\<lparr>le_prev := (le_prev q)(n := le_prev q e)\<rparr>)
      in case le_prev q1 e of
           None \<Rightarrow> None
         | Some l \<Rightarrow> Some (cell_write l (LIST_NEXT e q1) q1))"

section \<open>The lists a store represents\<close>

primrec chain :: "('h, 'n) list_store \<Rightarrow> ('h, 'n) link \<Rightarrow> 'n list \<Rightarrow> bool" where
  "chain q l [] \<longleftrightarrow> cell_read q l = None"
| "chain q l (x # xs) \<longleftrightarrow>
     cell_read q l = Some x \<and> le_prev q x = Some l \<and> chain q (Next_cell x) xs"

definition linked :: "('h, 'n) list_store \<Rightarrow> ('h \<Rightarrow> 'n list) \<Rightarrow> bool" where
  "linked q H \<longleftrightarrow> (\<forall>h. chain q (Head_cell h) (H h))"

definition members :: "('h \<Rightarrow> 'n list) \<Rightarrow> 'n set" where
  "members H = (\<Union>h. set (H h))"

lemma members_iff: "x \<in> members H \<longleftrightarrow> (\<exists>h. x \<in> set (H h))"
  by (auto simp: members_def)

lemma members_upd: "members (H(h := ys)) = set ys \<union> (\<Union>h'\<in>- {h}. set (H h'))"
  by (auto simp: members_def split: if_splits)

lemma members_split: "members H = set (H h) \<union> (\<Union>h'\<in>- {h}. set (H h'))"
  using members_upd[of H h "H h"] by simp

lemma members_push: "members (H(h := x # H h)) = insert x (members H)"
  by (simp add: members_upd members_split[of H h])

lemma members_pop: "H h = x # xs \<Longrightarrow> members H = insert x (members (H(h := xs)))"
  by (simp add: members_upd members_split[of H h])

lemma linked_chain: "linked q H \<Longrightarrow> chain q (Head_cell h) (H h)"
  by (simp add: linked_def)

lemma chain_unique: "chain q l xs \<Longrightarrow> chain q l ys \<Longrightarrow> xs = ys"
proof (induction xs arbitrary: l ys)
  case Nil
  then show ?case by (cases ys) auto
next
  case (Cons x xs)
  then show ?case by (cases ys) auto
qed

lemma linked_unique: "linked q H \<Longrightarrow> linked q H' \<Longrightarrow> H = H'"
  by (intro ext) (metis linked_chain chain_unique)

text \<open>The back links name the predecessor, so a position in a list is determined by the element.\<close>

lemma chain_prev:
  "chain q l xs \<Longrightarrow> i < length xs \<Longrightarrow>
     le_prev q (xs ! i) = Some (if i = 0 then l else Next_cell (xs ! (i - 1)))"
proof (induction xs arbitrary: l i)
  case Nil
  then show ?case by simp
next
  case (Cons x xs)
  show ?case
  proof (cases i)
    case 0
    with Cons.prems show ?thesis by simp
  next
    case (Suc j)
    with Cons.prems Cons.IH[of "Next_cell x" j] show ?thesis
      by (cases j) auto
  qed
qed

lemma chain_position:
  assumes "chain q (Head_cell h) xs" and "chain q (Head_cell h') ys"
  shows "i < length xs \<Longrightarrow> j < length ys \<Longrightarrow> xs ! i = ys ! j \<Longrightarrow> i = j \<and> h = h'"
proof (induction i arbitrary: j)
  case 0
  with chain_prev[OF assms(1), of 0] chain_prev[OF assms(2), of j] show ?case
    by (cases j) auto
next
  case (Suc i)
  from chain_prev[OF assms(1) Suc.prems(1)] chain_prev[OF assms(2) Suc.prems(2)] Suc.prems(3)
  obtain k where "j = Suc k" and "xs ! i = ys ! k"
    by (cases j) auto
  with Suc.prems Suc.IH[of k] show ?case by simp
qed

lemma linked_distinct: "linked q H \<Longrightarrow> distinct (H h)"
  unfolding distinct_conv_nth by (metis linked_chain chain_position)

lemma linked_same_head:
  assumes "linked q H" and "x \<in> set (H h)" and "x \<in> set (H h')"
  shows "h = h'"
  using assms by (metis in_set_conv_nth linked_chain chain_position)

lemma linked_disjoint: "linked q H \<Longrightarrow> h \<noteq> h' \<Longrightarrow> set (H h) \<inter> set (H h') = {}"
  using linked_same_head[of q H] by blast

lemma chain_cong:
  assumes "cell_read q' l = cell_read q l"
    and "\<And>x. x \<in> set xs \<Longrightarrow> le_next q' x = le_next q x \<and> le_prev q' x = le_prev q x"
  shows "chain q' l xs = chain q l xs"
  using assms by (induction xs arbitrary: l) auto


section \<open>What the LIST macros do to the lists\<close>

lemma LIST_FIRST_linked [list_laws]:
  "linked q H \<Longrightarrow> LIST_FIRST h q = (case H h of [] \<Rightarrow> None | x # _ \<Rightarrow> Some x)"
  using linked_chain[of q H h] by (cases "H h") (auto simp: LIST_FIRST_def)

lemma LIST_EMPTY_linked [list_laws]: "linked q H \<Longrightarrow> LIST_EMPTY h q \<longleftrightarrow> H h = []"
  using linked_chain[of q H h] by (cases "H h") (auto simp: LIST_EMPTY_def)

lemma LIST_INIT_linked [list_laws]:
  assumes "linked q H"
  shows "linked (LIST_INIT h q) (H(h := []))"
  unfolding linked_def
proof
  fix h'
  show "chain (LIST_INIT h q) (Head_cell h') ((H(h := [])) h')"
  proof (cases "h' = h")
    case True
    then show ?thesis by (simp add: LIST_INIT_def)
  next
    case False
    then have "chain (LIST_INIT h q) (Head_cell h') (H h') = chain q (Head_cell h') (H h')"
      by (intro chain_cong) (auto simp: LIST_INIT_def)
    with False linked_chain[OF assms] show ?thesis by simp
  qed
qed

lemma LIST_INSERT_HEAD_fields:
  "lh_first (LIST_INSERT_HEAD h e q) = (lh_first q)(h := Some e)"
  "le_next (LIST_INSERT_HEAD h e q) = (le_next q)(e := lh_first q h)"
  "le_prev (LIST_INSERT_HEAD h e q) y =
     (if y = e then Some (Head_cell h)
      else if lh_first q h = Some y then Some (Next_cell e) else le_prev q y)"
  by (auto simp: LIST_INSERT_HEAD_def LIST_FIRST_def Let_def split: option.splits)

lemma LIST_INSERT_HEAD_chain:
  assumes c: "chain q (Head_cell h) xs" and d: "distinct xs" and e: "e \<notin> set xs"
  shows "chain (LIST_INSERT_HEAD h e q) (Head_cell h) (e # xs)"
proof (cases xs)
  case Nil
  with c show ?thesis by (simp add: LIST_INSERT_HEAD_fields)
next
  case (Cons f fs)
  with d e have "e \<noteq> f" "e \<notin> set fs" "f \<notin> set fs" by auto
  moreover have "chain (LIST_INSERT_HEAD h e q) (Next_cell f) fs = chain q (Next_cell f) fs"
    by (rule chain_cong) (use c Cons calculation in \<open>auto simp: LIST_INSERT_HEAD_fields\<close>)
  ultimately show ?thesis
    using c Cons by (simp add: LIST_INSERT_HEAD_fields)
qed

lemma LIST_INSERT_HEAD_linked [list_laws]:
  assumes q: "linked q H" and e: "e \<notin> members H"
  shows "linked (LIST_INSERT_HEAD h e q) (H(h := e # H h))"
  unfolding linked_def
proof
  fix h'
  have fresh: "e \<notin> set (H h'')" for h'' using e by (auto simp: members_iff)
  show "chain (LIST_INSERT_HEAD h e q) (Head_cell h') ((H(h := e # H h)) h')"
  proof (cases "h' = h")
    case True
    then show ?thesis
      using LIST_INSERT_HEAD_chain[OF linked_chain[OF q] linked_distinct[OF q] fresh, of h] by simp
  next
    case False
    have "lh_first q h \<noteq> Some y" if "y \<in> set (H h')" for y
      using that False LIST_FIRST_linked[OF q, of h] linked_disjoint[OF q False]
      by (auto simp: LIST_FIRST_def split: list.splits)
    then have "chain (LIST_INSERT_HEAD h e q) (Head_cell h') (H h') = chain q (Head_cell h') (H h')"
      using False fresh by (intro chain_cong) (auto simp: LIST_INSERT_HEAD_fields)
    with False linked_chain[OF q] show ?thesis by simp
  qed
qed

text \<open>Removal: the cell that points at the element is the last cell before it.\<close>

definition lastlink :: "('h, 'n) link \<Rightarrow> 'n list \<Rightarrow> ('h, 'n) link" where
  "lastlink l as = (if as = [] then l else Next_cell (last as))"

lemma chain_middle:
  "chain q l (as @ x # bs) \<Longrightarrow>
     cell_read q (lastlink l as) = Some x \<and> le_prev q x = Some (lastlink l as) \<and>
     le_next q x = (case bs of [] \<Rightarrow> None | b # _ \<Rightarrow> Some b)"
proof (induction as arbitrary: l)
  case Nil
  then show ?case by (cases bs) (auto simp: lastlink_def)
next
  case (Cons a as)
  then show ?case by (auto simp: lastlink_def)
qed

lemma chain_unlink:
  assumes "chain q l (as @ x # bs)" and "distinct (as @ x # bs)"
    and "l \<notin> Next_cell ` set (as @ x # bs)"
    and "cell_read q' (lastlink l as) = le_next q x"
    and "\<And>c. c \<noteq> lastlink l as \<Longrightarrow> cell_read q' c = cell_read q c"
    and "\<And>y. y \<notin> set (take 1 bs) \<Longrightarrow> le_prev q' y = le_prev q y"
    and "\<And>b. b \<in> set (take 1 bs) \<Longrightarrow> le_prev q' b = Some (lastlink l as)"
  shows "chain q' l (as @ bs)"
  using assms
proof (induction as arbitrary: l)
  case Nil
  show ?case
  proof (cases bs)
    case Nil
    with Nil.prems show ?thesis by (simp add: lastlink_def)
  next
    case (Cons b bs')
    have nxt: "le_next q' y = le_next q y" if "y \<in> set bs" for y
      using that Nil.prems(3) Nil.prems(5)[of "Next_cell y"] by (auto simp: lastlink_def)
    have prv: "le_prev q' y = le_prev q y" if "y \<in> set bs'" for y
    proof -
      from that Nil.prems(2) Cons have "y \<noteq> b" by auto
      then show ?thesis using Nil.prems(6)[of y] Cons by simp
    qed
    have "chain q' (Next_cell b) bs' = chain q (Next_cell b) bs'"
      by (rule chain_cong) (use Cons nxt prv in auto)
    with Nil.prems Cons show ?thesis by (simp add: lastlink_def)
  qed
next
  case (Cons a as)
  have ll: "lastlink l (a # as) = lastlink (Next_cell a) as" by (simp add: lastlink_def)
  have "l \<noteq> lastlink (Next_cell a) as"
    using Cons.prems(3) by (auto simp: lastlink_def)
  with Cons.prems(1,5) ll have rd: "cell_read q' l = Some a" by simp
  have pv: "le_prev q' a = Some l"
    using Cons.prems(1,2) Cons.prems(6)[of a] by (auto dest: in_set_takeD)
  have "chain q' (Next_cell a) (as @ bs)"
    by (rule Cons.IH) (use Cons.prems ll in auto)
  with rd pv show ?case by simp
qed

lemma LIST_REMOVE_linked [list_laws]:
  assumes q: "linked q H" and h: "H h = as @ x # bs"
  shows "\<exists>q'. LIST_REMOVE x q = Some q' \<and> linked q' (H(h := as @ bs))"
proof -
  let ?l = "lastlink (Head_cell h) as"
  have c: "chain q (Head_cell h) (as @ x # bs)" using linked_chain[OF q, of h] h by simp
  have d: "distinct (as @ x # bs)" using linked_distinct[OF q, of h] h by simp
  note mid = chain_middle[OF c]
  define q1 where "q1 = (case bs of [] \<Rightarrow> q | b # _ \<Rightarrow> q\<lparr>le_prev := (le_prev q)(b := Some ?l)\<rparr>)"
  define q' where "q' = cell_write ?l (le_next q x) q1"
  have q1: "lh_first q1 = lh_first q" "le_next q1 = le_next q" "le_prev q1 x = le_prev q x"
    using d by (auto simp: q1_def split: list.splits)
  have rm: "LIST_REMOVE x q = Some q'"
    using mid q1 by (cases bs) (auto simp: LIST_REMOVE_def LIST_NEXT_def q'_def q1_def)
  have rd: "cell_read q' k = (if k = ?l then le_next q x else cell_read q k)" for k
    by (cases k; cases ?l) (auto simp: q'_def q1)
  have pv: "le_prev q' y = (if y \<in> set (take 1 bs) then Some ?l else le_prev q y)" for y
    by (cases ?l; cases bs) (auto simp: q'_def q1_def)
  have own: "chain q' (Head_cell h) (as @ bs)"
    by (rule chain_unlink[OF c d]) (auto simp: rd pv)
  have other: "chain q' (Head_cell h') (H h')" if "h' \<noteq> h" for h'
  proof -
    have sep: "y \<notin> set (as @ x # bs)" if "y \<in> set (H h')" for y
      using that linked_disjoint[OF q \<open>h' \<noteq> h\<close>] h by auto
    have hd: "?l \<noteq> Head_cell h'" using \<open>h' \<noteq> h\<close> by (auto simp: lastlink_def)
    have nx: "?l \<noteq> Next_cell y" if "y \<in> set (H h')" for y
      using sep[OF that] by (auto simp: lastlink_def split: if_splits)
    have "chain q' (Head_cell h') (H h') = chain q (Head_cell h') (H h')"
    proof (rule chain_cong)
      show "cell_read q' (Head_cell h') = cell_read q (Head_cell h')" using rd hd by metis
      fix y assume y: "y \<in> set (H h')"
      have "le_next q' y = le_next q y" using rd[of "Next_cell y"] nx[OF y] by auto
      moreover have "le_prev q' y = le_prev q y" using pv[of y] sep[OF y] by (auto dest: in_set_takeD)
      ultimately show "le_next q' y = le_next q y \<and> le_prev q' y = le_prev q y" ..
    qed
    then show ?thesis using linked_chain[OF q] by simp
  qed
  have "linked q' (H(h := as @ bs))"
    unfolding linked_def using own other by auto
  with rm show ?thesis by blast
qed

text \<open>
  \<^verbatim>\<open>LIST_FOREACH\<close> with a body that returns at the first element satisfying a test: the loop
  follows the next links, so on a cyclic list it may not end.
\<close>

partial_function (option) LIST_FOREACH_find ::
  "('n \<Rightarrow> bool) \<Rightarrow> 'n option \<Rightarrow> ('h, 'n) list_store \<Rightarrow> 'n option option" where
  "LIST_FOREACH_find P v q =
     (case v of
        None \<Rightarrow> Some None
      | Some e \<Rightarrow> if P e then Some (Some e) else LIST_FOREACH_find P (LIST_NEXT e q) q)"

lemma LIST_FOREACH_find_chain:
  "chain q l xs \<Longrightarrow> LIST_FOREACH_find P (cell_read q l) q = Some (List.find P xs)"
proof (induction xs arbitrary: l)
  case Nil
  then show ?case by (subst LIST_FOREACH_find.simps) simp
next
  case (Cons x xs)
  then have rest: "LIST_FOREACH_find P (le_next q x) q = Some (List.find P xs)"
    using Cons.IH[of "Next_cell x"] by simp
  with Cons.prems show ?case by (subst LIST_FOREACH_find.simps) (simp add: LIST_NEXT_def)
qed

lemma LIST_FOREACH_find_linked [list_laws]:
  "linked q H \<Longrightarrow> LIST_FOREACH_find P (LIST_FIRST h q) q = Some (List.find P (H h))"
  using LIST_FOREACH_find_chain[OF linked_chain, of q H P h] by (simp add: LIST_FIRST_def)

text \<open>\<^verbatim>\<open>LIST_REMOVE(LIST_FIRST(head))\<close>, the way the kernel takes an element off a list.\<close>

definition LIST_pop :: "'h \<Rightarrow> ('h, 'n) list_store \<Rightarrow> ('h, 'n) list_store option" where
  "LIST_pop h q = Option.bind (LIST_FIRST h q) (\<lambda>e. LIST_REMOVE e q)"

lemma LIST_pop_linked:
  assumes "linked q H" and "H h = x # xs"
  shows "\<exists>q'. LIST_pop h q = Some q' \<and> linked q' (H(h := xs))"
  using LIST_REMOVE_linked[of q H h "[]" x xs] LIST_FIRST_linked[of q H h] assms
  by (simp add: LIST_pop_def)

section \<open>The SLIST macros\<close>

record ('h, 'n) slist_store =
  slh_first :: "'h \<Rightarrow> 'n option"
  sle_next :: "'n \<Rightarrow> 'n option"

definition SLIST_EMPTY :: "'h \<Rightarrow> ('h, 'n) slist_store \<Rightarrow> bool" where
  "SLIST_EMPTY h q \<longleftrightarrow> slh_first q h = None"

definition SLIST_FIRST :: "'h \<Rightarrow> ('h, 'n) slist_store \<Rightarrow> 'n option" where
  "SLIST_FIRST h q = slh_first q h"

definition SLIST_NEXT :: "'n \<Rightarrow> ('h, 'n) slist_store \<Rightarrow> 'n option" where
  "SLIST_NEXT e q = sle_next q e"

definition SLIST_INIT :: "'h \<Rightarrow> ('h, 'n) slist_store \<Rightarrow> ('h, 'n) slist_store" where
  "SLIST_INIT h q = q\<lparr>slh_first := (slh_first q)(h := None)\<rparr>"

definition SLIST_INSERT_HEAD ::
  "'h \<Rightarrow> 'n \<Rightarrow> ('h, 'n) slist_store \<Rightarrow> ('h, 'n) slist_store" where
  "SLIST_INSERT_HEAD h e q =
     (let q1 = q\<lparr>sle_next := (sle_next q)(e := SLIST_FIRST h q)\<rparr>
      in q1\<lparr>slh_first := (slh_first q1)(h := Some e)\<rparr>)"

text \<open>On an empty list \<^verbatim>\<open>SLIST_REMOVE_HEAD\<close> dereferences a null first pointer.\<close>

definition SLIST_REMOVE_HEAD :: "'h \<Rightarrow> ('h, 'n) slist_store \<Rightarrow> ('h, 'n) slist_store option" where
  "SLIST_REMOVE_HEAD h q =
     (case SLIST_FIRST h q of
        None \<Rightarrow> None
      | Some f \<Rightarrow> Some (q\<lparr>slh_first := (slh_first q)(h := SLIST_NEXT f q)\<rparr>))"

primrec schain :: "('n \<Rightarrow> 'n option) \<Rightarrow> 'n option \<Rightarrow> 'n list \<Rightarrow> bool" where
  "schain nx p [] \<longleftrightarrow> p = None"
| "schain nx p (x # xs) \<longleftrightarrow> p = Some x \<and> schain nx (nx x) xs"

text \<open>There are no back links, so that no element is in two lists is part of the relation.\<close>

definition slinked :: "('h, 'n) slist_store \<Rightarrow> ('h \<Rightarrow> 'n list) \<Rightarrow> bool" where
  "slinked q H \<longleftrightarrow>
     (\<forall>h. schain (sle_next q) (slh_first q h) (H h)) \<and> (\<forall>h. distinct (H h)) \<and>
     (\<forall>h h' x. x \<in> set (H h) \<longrightarrow> x \<in> set (H h') \<longrightarrow> h = h')"

lemma schain_update [simp]: "e \<notin> set xs \<Longrightarrow> schain (nx(e := v)) p xs = schain nx p xs"
  by (induction xs arbitrary: p) auto

lemma slinkedD:
  assumes "slinked q H"
  shows "schain (sle_next q) (slh_first q h) (H h)" and "distinct (H h)"
    and "x \<in> set (H h) \<Longrightarrow> x \<in> set (H h') \<Longrightarrow> h = h'"
  using assms by (auto simp: slinked_def)

lemma SLIST_FIRST_slinked [list_laws]:
  "slinked q H \<Longrightarrow> SLIST_FIRST h q = (case H h of [] \<Rightarrow> None | x # _ \<Rightarrow> Some x)"
  using slinkedD(1)[of q H h] by (cases "H h") (auto simp: SLIST_FIRST_def)

lemma SLIST_EMPTY_slinked [list_laws]: "slinked q H \<Longrightarrow> SLIST_EMPTY h q \<longleftrightarrow> H h = []"
  using slinkedD(1)[of q H h] by (cases "H h") (auto simp: SLIST_EMPTY_def)

lemma SLIST_INIT_slinked [list_laws]: "slinked q H \<Longrightarrow> slinked (SLIST_INIT h q) (H(h := []))"
  by (auto simp: slinked_def SLIST_INIT_def)

lemma SLIST_INSERT_HEAD_slinked [list_laws]:
  assumes "slinked q H" and "e \<notin> members H"
  shows "slinked (SLIST_INSERT_HEAD h e q) (H(h := e # H h))"
  using assms by (auto simp: slinked_def SLIST_INSERT_HEAD_def SLIST_FIRST_def members_iff)

lemma SLIST_REMOVE_HEAD_slinked [list_laws]:
  assumes "slinked q H" and "H h = x # xs"
  shows "\<exists>q'. SLIST_REMOVE_HEAD h q = Some q' \<and> slinked q' (H(h := xs))"
proof -
  let ?q' = "q\<lparr>slh_first := (slh_first q)(h := sle_next q x)\<rparr>"
  have "SLIST_REMOVE_HEAD h q = Some ?q'"
    using SLIST_FIRST_slinked[OF assms(1), of h] assms(2)
    by (simp add: SLIST_REMOVE_HEAD_def SLIST_NEXT_def)
  moreover have "schain (sle_next q) (sle_next q x) xs" "distinct xs"
    using slinkedD(1,2)[OF assms(1), of h] assms(2) by auto
  then have "slinked ?q' (H(h := xs))"
    using slinkedD[OF assms(1)] assms(2) unfolding slinked_def by (auto split: if_splits)
  ultimately show ?thesis by blast
qed

section \<open>The interface of a store of linked lists\<close>

text \<open>
  What a client of the macros relies on.  \<open>rep q H\<close> says that the store \<open>q\<close> holds exactly
  the lists \<open>H\<close>; no element is in two places.
\<close>

locale linked_lists =
  fixes insert_head :: "'h \<Rightarrow> 'n \<Rightarrow> 's \<Rightarrow> 's"
    and pop :: "'h \<Rightarrow> 's \<Rightarrow> 's option"
    and first :: "'h \<Rightarrow> 's \<Rightarrow> 'n option"
    and is_empty :: "'h \<Rightarrow> 's \<Rightarrow> bool"
    and init :: "'h \<Rightarrow> 's \<Rightarrow> 's"
    and rep :: "'s \<Rightarrow> ('h \<Rightarrow> 'n list) \<Rightarrow> bool"
  assumes first_rep: "rep q H \<Longrightarrow> first h q = (case H h of [] \<Rightarrow> None | x # _ \<Rightarrow> Some x)"
    and is_empty_rep: "rep q H \<Longrightarrow> is_empty h q \<longleftrightarrow> H h = []"
    and init_rep: "rep q H \<Longrightarrow> rep (init h q) (H(h := []))"
    and insert_rep: "rep q H \<Longrightarrow> e \<notin> members H \<Longrightarrow> rep (insert_head h e q) (H(h := e # H h))"
    and pop_rep: "rep q H \<Longrightarrow> H h = x # xs \<Longrightarrow> \<exists>q'. pop h q = Some q' \<and> rep q' (H(h := xs))"
    and rep_distinct: "rep q H \<Longrightarrow> distinct (H h)"
    and rep_disjoint: "rep q H \<Longrightarrow> x \<in> set (H h) \<Longrightarrow> x \<in> set (H h') \<Longrightarrow> h = h'"
begin

lemma popped_fresh:
  assumes "rep q H" and "H h = x # xs"
  shows "x \<notin> members (H(h := xs))"
  using rep_distinct[OF assms(1), of h] rep_disjoint[OF assms(1), of x h] assms(2)
  by (auto simp: members_iff split: if_splits)

lemma members_popped:
  assumes "rep q H" and "H h = x # xs"
  shows "members (H(h := xs)) = members H - {x}"
  using popped_fresh[OF assms] members_pop[of H h x xs, OF assms(2)] by auto

lemma insert_first: "rep q H \<Longrightarrow> e \<notin> members H \<Longrightarrow> first h (insert_head h e q) = Some e"
  using first_rep[OF insert_rep] by simp

lemma insert_pop:
  assumes "rep q H" and "e \<notin> members H"
  shows "\<exists>q'. pop h (insert_head h e q) = Some q' \<and> rep q' H"
  using pop_rep[OF insert_rep[OF assms, of h], of h e "H h"] by simp

text \<open>Moving the first element of one list to the front of another.\<close>

lemma move_head:
  assumes "rep q H" and "H h = x # xs" and "h' \<noteq> h"
  shows "\<exists>q'. pop h q = Some q' \<and> rep (insert_head h' x q') (H(h := xs, h' := x # H h'))"
proof -
  obtain q' where q': "pop h q = Some q'" "rep q' (H(h := xs))"
    using pop_rep[OF assms(1,2)] by blast
  from insert_rep[OF q'(2) popped_fresh[OF assms(1,2)], of h'] assms(3)
  have "rep (insert_head h' x q') (H(h := xs, h' := x # H h'))" by simp
  with q'(1) show ?thesis by blast
qed

end

interpretation dl: linked_lists LIST_INSERT_HEAD LIST_pop LIST_FIRST LIST_EMPTY LIST_INIT linked
proof
  show "linked q H \<Longrightarrow> x \<in> set (H h) \<Longrightarrow> x \<in> set (H h') \<Longrightarrow> h = h'"
    for q :: "('a, 'b) list_store" and H x h h' by (rule linked_same_head)
qed (rule list_laws LIST_pop_linked linked_distinct; assumption)+

interpretation sl: linked_lists
  SLIST_INSERT_HEAD SLIST_REMOVE_HEAD SLIST_FIRST SLIST_EMPTY SLIST_INIT slinked
proof
  show "slinked q H \<Longrightarrow> distinct (H h)" for q :: "('a, 'b) slist_store" and H h
    by (rule slinkedD(2))
  show "slinked q H \<Longrightarrow> x \<in> set (H h) \<Longrightarrow> x \<in> set (H h') \<Longrightarrow> h = h'"
    for q :: "('a, 'b) slist_store" and H x h h' by (rule slinkedD(3))
qed (rule list_laws; assumption)+

end
