(* ===== verification/Physmem.thy ===== *)
theory Physmem
  imports Queue
begin

text \<open>
  The physical page allocator: \<^verbatim>\<open>src/sys/include/physical_memory.h\<close>,
  \<^verbatim>\<open>src/sys/common/physmem.c\<close> and the page table part of
  \<^verbatim>\<open>src/sys/i686/i686_physmem.c\<close>.  A \<^verbatim>\<open>struct physmem\<close> is an object at an address;
  \<^verbatim>\<open>struct i686physmem\<close> and \<^verbatim>\<open>struct feeder_physmem\<close> extend it, which the field
  \<open>pm_sub\<close> records.  Function pointers are names of the functions they point at, and a call
  through the vtable is a case distinction on the name.  All free lists are lists of entries of
  one page table, so they share one store of links.
\<close>

section \<open>Data\<close>

datatype physmem_error_t =
    PHYSMEM_SUCCESS
  | PHYSMEM_ERR_MEMUSED
  | PHYSMEM_ERR_INITCOND
  | PHYSMEM_ERR_OOM
  | PHYSMEM_ERR_DOUBLEFREE

record physmem_stats =
  kernel_pages :: u32
  stat_free_pages :: u32

type_synonym page_ptr = u32
type_synonym physmem_ptr = u32

text \<open>\<^verbatim>\<open>struct physmem_page\<close>: two link pointers and the union of one pointer.\<close>

definition sizeof_physmem_page :: u32 where
  "sizeof_physmem_page = 12"

datatype phys_to_page_fn = I686_physmem_phys_to_page | Feeder_physmem_phys_to_page
datatype page_to_phys_fn = I686_physmem_page_to_phys | Feeder_physmem_page_to_phys
datatype page_alloc_fn = Common_physmem_page_alloc | Feeder_physmem_page_alloc
datatype page_free_fn = Common_physmem_page_free | Feeder_physmem_page_free
datatype stats_get_fn = Common_physmem_stats_get | Feeder_physmem_stats_get
datatype page_size_fn = Common_physmem_page_size | I686_physmem_page_size

record physmem_vfuncs =
  vf_phys_to_page :: phys_to_page_fn
  vf_page_to_phys :: page_to_phys_fn
  vf_page_alloc :: page_alloc_fn
  vf_page_free :: page_free_fn
  vf_stats_get :: stats_get_fn
  vf_page_size :: page_size_fn

record i686physmem =
  start_address :: virtaddr_t
  last_address :: virtaddr_t

record feeder_physmem =
  source :: physmem_ptr
  pages_to_keep :: u32
  min_free_source_pages :: u32

datatype physmem_sub = Plain_physmem | I686_sub i686physmem | Feeder_sub feeder_physmem

record physmem =
  pm_parent :: u32
  pm_name :: string
  pm_v :: physmem_vfuncs
  total_pages :: u32
  free_pages :: u32
  pm_sub :: physmem_sub

text \<open>The two list heads of a \<^verbatim>\<open>struct physmem\<close>.\<close>

datatype physmem_head = Freelist physmem_ptr | Bootlist physmem_ptr

record pm_state =
  pm_pages :: "(physmem_head, page_ptr) list_store"
  pm_obj :: "physmem_ptr \<Rightarrow> physmem"

definition upd_obj :: "physmem_ptr \<Rightarrow> (physmem \<Rightarrow> physmem) \<Rightarrow> pm_state \<Rightarrow> pm_state" where
  "upd_obj p f s = s\<lparr>pm_obj := (pm_obj s)(p := f (pm_obj s p))\<rparr>"

text \<open>The casts \<^verbatim>\<open>(struct i686physmem *)p\<close> and \<^verbatim>\<open>(struct feeder_physmem *)p\<close>: a cast of
  an object that is not of that kind has no meaning.\<close>

definition as_i686 :: "pm_state \<Rightarrow> physmem_ptr \<Rightarrow> i686physmem option" where
  "as_i686 s p = (case pm_sub (pm_obj s p) of I686_sub i \<Rightarrow> Some i | _ \<Rightarrow> None)"

definition as_feeder :: "pm_state \<Rightarrow> physmem_ptr \<Rightarrow> feeder_physmem option" where
  "as_feeder s p = (case pm_sub (pm_obj s p) of Feeder_sub f \<Rightarrow> Some f | _ \<Rightarrow> None)"

section \<open>Operations\<close>

subsection \<open>Page size and page numbering\<close>

definition common_physmem_page_size :: "physmem_ptr \<Rightarrow> u32 option" where
  "common_physmem_page_size p = do { c_assert False; Some 0 }"

definition i686_physmem_page_size :: "physmem_ptr \<Rightarrow> u32 option" where
  "i686_physmem_page_size p = Some 4096"

definition physmem_page_size :: "pm_state \<Rightarrow> physmem_ptr \<Rightarrow> u32 option" where
  "physmem_page_size s p =
     (case vf_page_size (pm_v (pm_obj s p)) of
        Common_physmem_page_size \<Rightarrow> common_physmem_page_size p
      | I686_physmem_page_size \<Rightarrow> i686_physmem_page_size p)"

definition i686_physmem_phys_to_page ::
  "pm_state \<Rightarrow> physmem_ptr \<Rightarrow> physaddr_t \<Rightarrow> page_ptr option" where
  "i686_physmem_phys_to_page s p addr = do {
     i \<leftarrow> as_i686 s p;
     psize \<leftarrow> physmem_page_size s p;
     let index = addr div psize;
     Some (start_address i + index * sizeof_physmem_page)
   }"

definition i686_physmem_page_to_phys ::
  "pm_state \<Rightarrow> physmem_ptr \<Rightarrow> page_ptr \<Rightarrow> physaddr_t option" where
  "i686_physmem_page_to_phys s p page = do {
     i \<leftarrow> as_i686 s p;
     psize \<leftarrow> physmem_page_size s p;
     let index = (page - start_address i) div sizeof_physmem_page;
     Some (index * psize)
   }"

text \<open>The feeder's functions call the same vtable entry of the source; the argument \<open>call\<close> is
  that call.\<close>

definition feeder_physmem_phys_to_page ::
  "(physmem_ptr \<Rightarrow> page_ptr option) \<Rightarrow> pm_state \<Rightarrow> physmem_ptr \<Rightarrow> page_ptr option" where
  "feeder_physmem_phys_to_page call s p = do { f \<leftarrow> as_feeder s p; call (source f) }"

definition feeder_physmem_page_to_phys ::
  "(physmem_ptr \<Rightarrow> physaddr_t option) \<Rightarrow> pm_state \<Rightarrow> physmem_ptr \<Rightarrow> physaddr_t option" where
  "feeder_physmem_page_to_phys call s p = do { f \<leftarrow> as_feeder s p; call (source f) }"

lemma feeder_phys_to_page_mono [partial_function_mono]:
  assumes "\<And>q. mono_option (\<lambda>call. F call q)"
  shows "mono_option (\<lambda>call. feeder_physmem_phys_to_page (\<lambda>q. F call q) s p)"
  unfolding feeder_physmem_phys_to_page_def by (intro bind_mono option.const_mono assms)

lemma feeder_page_to_phys_mono [partial_function_mono]:
  assumes "\<And>q. mono_option (\<lambda>call. F call q)"
  shows "mono_option (\<lambda>call. feeder_physmem_page_to_phys (\<lambda>q. F call q) s p)"
  unfolding feeder_physmem_page_to_phys_def by (intro bind_mono option.const_mono assms)

partial_function (option) physmem_phys_to_page ::
  "pm_state \<Rightarrow> physmem_ptr \<Rightarrow> physaddr_t \<Rightarrow> page_ptr option" where
  "physmem_phys_to_page s p addr =
     (case vf_phys_to_page (pm_v (pm_obj s p)) of
        I686_physmem_phys_to_page \<Rightarrow> i686_physmem_phys_to_page s p addr
      | Feeder_physmem_phys_to_page \<Rightarrow>
          feeder_physmem_phys_to_page (\<lambda>q. physmem_phys_to_page s q addr) s p)"

partial_function (option) physmem_page_to_phys ::
  "pm_state \<Rightarrow> physmem_ptr \<Rightarrow> page_ptr \<Rightarrow> physaddr_t option" where
  "physmem_page_to_phys s p page =
     (case vf_page_to_phys (pm_v (pm_obj s p)) of
        I686_physmem_page_to_phys \<Rightarrow> i686_physmem_page_to_phys s p page
      | Feeder_physmem_page_to_phys \<Rightarrow>
          feeder_physmem_page_to_phys (\<lambda>q. physmem_page_to_phys s q page) s p)"

subsection \<open>The common allocator\<close>

text \<open>The result of an allocation: the error code and what was written to \<^verbatim>\<open>*address\<close>, if
  anything.\<close>

type_synonym alloc_result = "(physmem_error_t \<times> physaddr_t option) \<times> pm_state"

definition common_physmem_page_alloc ::
  "physmem_ptr \<Rightarrow> u8 \<Rightarrow> pm_state \<Rightarrow> alloc_result option" where
  "common_physmem_page_alloc p node s =
     (if free_pages (pm_obj s p) \<le> 0 then Some ((PHYSMEM_ERR_OOM, None), s)
      else do {
        let s1 = upd_obj p (free_pages_update (\<lambda>n. n - 1)) s;
        c_assert (\<not> LIST_EMPTY (Freelist p) (pm_pages s1));
        newpage \<leftarrow> LIST_FIRST (Freelist p) (pm_pages s1);
        q \<leftarrow> LIST_REMOVE newpage (pm_pages s1);
        let s2 = s1\<lparr>pm_pages := q\<rparr>;
        address \<leftarrow> physmem_page_to_phys s2 p newpage;
        Some ((PHYSMEM_SUCCESS, Some address), s2)
      })"

definition common_physmem_page_free ::
  "physmem_ptr \<Rightarrow> physaddr_t \<Rightarrow> pm_state \<Rightarrow> (physmem_error_t \<times> pm_state) option" where
  "common_physmem_page_free p address s = do {
     page \<leftarrow> physmem_phys_to_page s p address;
     let s1 = s\<lparr>pm_pages := LIST_INSERT_HEAD (Freelist p) page (pm_pages s)\<rparr>;
     let s2 = upd_obj p (free_pages_update (\<lambda>n. n + 1)) s1;
     Some (PHYSMEM_SUCCESS, s2)
   }"

definition common_physmem_stats_get :: "pm_state \<Rightarrow> physmem_ptr \<Rightarrow> physmem_stats" where
  "common_physmem_stats_get s p =
     \<lparr>kernel_pages = total_pages (pm_obj s p), stat_free_pages = free_pages (pm_obj s p)\<rparr>"

subsection \<open>The feeder\<close>

text \<open>
  \<open>call g q\<close> is the call of the function \<open>g\<close> on the object \<open>q\<close>.  In the transfer loop
  \<^verbatim>\<open>newaddr\<close> keeps its value from the last iteration when an allocation writes none; it is
  not initialised before the loop.
\<close>

type_synonym alloc_call = "page_alloc_fn \<Rightarrow> physmem_ptr \<Rightarrow> pm_state \<Rightarrow> alloc_result option"

primrec feeder_transfer ::
  "alloc_call \<Rightarrow> physmem_ptr \<Rightarrow> nat \<Rightarrow> physaddr_t option \<Rightarrow> pm_state \<Rightarrow> pm_state option" where
  "feeder_transfer call p 0 newaddr s = Some s"
| "feeder_transfer call p (Suc xfer_pages) newaddr s = do {
     f \<leftarrow> as_feeder s p;
     if free_pages (pm_obj s (source f)) \<le> min_free_source_pages f then Some s
     else do {
       ((err, out), s1) \<leftarrow> call (vf_page_alloc (pm_v (pm_obj s (source f)))) (source f) s;
       newaddr' \<leftarrow> (case out of None \<Rightarrow> newaddr | Some a \<Rightarrow> Some a);
       newpage \<leftarrow> physmem_phys_to_page s1 (source f) newaddr';
       let s2 = s1\<lparr>pm_pages := LIST_INSERT_HEAD (Freelist p) newpage (pm_pages s1)\<rparr>;
       let s3 = upd_obj p (\<lambda>o'. o'\<lparr>free_pages := free_pages o' + 1,
                                  total_pages := total_pages o' + 1\<rparr>) s2;
       feeder_transfer call p xfer_pages (Some newaddr') s3
     }
   }"

definition feeder_physmem_page_alloc ::
  "alloc_call \<Rightarrow> physmem_ptr \<Rightarrow> u8 \<Rightarrow> pm_state \<Rightarrow> alloc_result option" where
  "feeder_physmem_page_alloc call p node s = do {
     f \<leftarrow> as_feeder s p;
     s1 \<leftarrow> (if free_pages (pm_obj s p) < pages_to_keep f + 1
            then let xfer_pages = pages_to_keep f - free_pages (pm_obj s p) + 1
                 in feeder_transfer call p (unat xfer_pages) None s
            else Some s);
     if free_pages (pm_obj s1 p) > 0
     then call (vf_page_alloc (pm_v (pm_obj s1 (source f)))) p s1
     else call (vf_page_alloc (pm_v (pm_obj s1 (source f)))) (source f) s1
   }"

lemma feeder_transfer_mono:
  assumes "\<And>g q t. mono_option (\<lambda>call. F call g q t)"
  shows "mono_option (\<lambda>call. feeder_transfer (F call) p n newaddr s)"
proof (induction n arbitrary: newaddr s)
  case 0
  show ?case by (simp add: option.const_mono)
next
  case (Suc n)
  show ?case
    unfolding feeder_transfer.simps case_prod_beta Let_def
    by (intro bind_mono option.const_mono assms if_mono Suc.IH)
qed

lemma feeder_page_alloc_mono [partial_function_mono]:
  assumes "\<And>g q t. mono_option (\<lambda>call. F call g q t)"
  shows "mono_option (\<lambda>call. feeder_physmem_page_alloc (\<lambda>g q t. F call g q t) p node s)"
  unfolding feeder_physmem_page_alloc_def Let_def
  by (intro bind_mono option.const_mono assms if_mono feeder_transfer_mono)

text \<open>A call through a pointer to an allocation function, and \<^verbatim>\<open>physmem_page_alloc\<close>.\<close>

partial_function (option) call_page_alloc ::
  "u8 \<Rightarrow> page_alloc_fn \<Rightarrow> physmem_ptr \<Rightarrow> pm_state \<Rightarrow> alloc_result option" where
  "call_page_alloc node g p s =
     (case g of
        Common_physmem_page_alloc \<Rightarrow> common_physmem_page_alloc p node s
      | Feeder_physmem_page_alloc \<Rightarrow>
          feeder_physmem_page_alloc (\<lambda>g' q t. call_page_alloc node g' q t) p node s)"

definition physmem_page_alloc :: "physmem_ptr \<Rightarrow> u8 \<Rightarrow> pm_state \<Rightarrow> alloc_result option" where
  "physmem_page_alloc p n s = call_page_alloc n (vf_page_alloc (pm_v (pm_obj s p))) p s"

type_synonym free_call =
  "page_free_fn \<Rightarrow> physmem_ptr \<Rightarrow> pm_state \<Rightarrow> (physmem_error_t \<times> pm_state) option"

definition feeder_physmem_page_free ::
  "free_call \<Rightarrow> physmem_ptr \<Rightarrow> physaddr_t \<Rightarrow> pm_state \<Rightarrow> (physmem_error_t \<times> pm_state) option" where
  "feeder_physmem_page_free call p addr s = do {
     f \<leftarrow> as_feeder s p;
     (err, s1) \<leftarrow>
       (if free_pages (pm_obj s (source f)) < min_free_source_pages f
        then call (vf_page_free (pm_v (pm_obj s (source f)))) (source f) s
        else call (vf_page_free (pm_v (pm_obj s (source f)))) p s);
     Some (PHYSMEM_SUCCESS, s1)
   }"

lemma feeder_page_free_mono [partial_function_mono]:
  assumes "\<And>g q t. mono_option (\<lambda>call. F call g q t)"
  shows "mono_option (\<lambda>call. feeder_physmem_page_free (\<lambda>g q t. F call g q t) p addr s)"
  unfolding feeder_physmem_page_free_def case_prod_beta
  by (intro bind_mono option.const_mono assms if_mono)

partial_function (option) call_page_free ::
  "physaddr_t \<Rightarrow> page_free_fn \<Rightarrow> physmem_ptr \<Rightarrow> pm_state \<Rightarrow> (physmem_error_t \<times> pm_state) option" where
  "call_page_free addr g p s =
     (case g of
        Common_physmem_page_free \<Rightarrow> common_physmem_page_free p addr s
      | Feeder_physmem_page_free \<Rightarrow>
          feeder_physmem_page_free (\<lambda>g' q t. call_page_free addr g' q t) p addr s)"

definition physmem_page_free ::
  "physmem_ptr \<Rightarrow> physaddr_t \<Rightarrow> pm_state \<Rightarrow> (physmem_error_t \<times> pm_state) option" where
  "physmem_page_free p addr s = call_page_free addr (vf_page_free (pm_v (pm_obj s p))) p s"

definition feeder_physmem_stats_get :: "pm_state \<Rightarrow> physmem_ptr \<Rightarrow> physmem_stats" where
  "feeder_physmem_stats_get s p =
     \<lparr>kernel_pages = total_pages (pm_obj s p), stat_free_pages = free_pages (pm_obj s p)\<rparr>"

definition physmem_stats_get :: "pm_state \<Rightarrow> physmem_ptr \<Rightarrow> physmem_stats" where
  "physmem_stats_get s p =
     (case vf_stats_get (pm_v (pm_obj s p)) of
        Common_physmem_stats_get \<Rightarrow> common_physmem_stats_get s p
      | Feeder_physmem_stats_get \<Rightarrow> feeder_physmem_stats_get s p)"

definition feeder_physmem_create ::
  "physmem_ptr \<Rightarrow> physmem_ptr \<Rightarrow> u32 \<Rightarrow> u32 \<Rightarrow> pm_state \<Rightarrow> pm_state" where
  "feeder_physmem_create dest src kept_pages min_source_pages s =
     (let o' = \<lparr>pm_parent = pm_parent (pm_obj s src), pm_name = ''feeder'',
                pm_v = \<lparr>vf_phys_to_page = Feeder_physmem_phys_to_page,
                        vf_page_to_phys = Feeder_physmem_page_to_phys,
                        vf_page_alloc = Feeder_physmem_page_alloc,
                        vf_page_free = Feeder_physmem_page_free,
                        vf_stats_get = Feeder_physmem_stats_get,
                        vf_page_size = vf_page_size (pm_v (pm_obj s src))\<rparr>,
                total_pages = 0, free_pages = 0,
                pm_sub = Feeder_sub \<lparr>source = src, pages_to_keep = kept_pages,
                                     min_free_source_pages = min_source_pages\<rparr>\<rparr>
      in s\<lparr>pm_obj := (pm_obj s)(dest := o'),
           pm_pages := LIST_INIT (Freelist dest) (pm_pages s)\<rparr>)"

text \<open>The vtable of the static object \<^verbatim>\<open>i686_physmem\<close>.\<close>

definition i686_physmem_v :: physmem_vfuncs where
  "i686_physmem_v =
     \<lparr>vf_phys_to_page = I686_physmem_phys_to_page,
      vf_page_to_phys = I686_physmem_page_to_phys,
      vf_page_alloc = Common_physmem_page_alloc,
      vf_page_free = Common_physmem_page_free,
      vf_stats_get = Common_physmem_stats_get,
      vf_page_size = I686_physmem_page_size\<rparr>"

section \<open>Page numbering\<close>

definition page_of :: "virtaddr_t \<Rightarrow> physaddr_t \<Rightarrow> page_ptr" where
  "page_of start a = start + (a div 4096) * 12"

definition addr_of :: "virtaddr_t \<Rightarrow> page_ptr \<Rightarrow> physaddr_t" where
  "addr_of start page = ((page - start) div 12) * 4096"

lemma frame_index_bound: "unat (a div 4096 :: u32) < 2 ^ 20"
proof -
  have "unat a < 2 ^ 32" using unsigned_less[of a] by simp
  then show ?thesis by (simp add: unat_div_distrib)
qed

lemma frame_index_scale:
  assumes "unat c \<le> 4096"
  shows "unat ((a div 4096) * c :: u32) = unat (a div 4096) * unat c"
proof -
  have "unat (a div 4096) * unat c \<le> (2 ^ 20 - 1) * 4096"
    using frame_index_bound[of a] assms by (intro mult_le_mono) auto
  then show ?thesis by (simp add: unat_word_ariths(2) del: unat_div_distrib)
qed

lemma frame_index_div:
  assumes "c \<noteq> 0" and "unat c \<le> 4096"
  shows "((a div 4096) * c) div c = (a div 4096 :: u32)"
proof -
  have "unat (((a div 4096) * c) div c) = unat (a div 4096) * unat c div unat c"
    by (simp only: unat_div_distrib[of "(a div 4096) * c" c] frame_index_scale[OF assms(2)])
  also have "\<dots> = unat (a div 4096)" using assms(1) by (simp add: unat_eq_0)
  finally show ?thesis by (simp only: word_unat_eq_iff)
qed

lemma addr_of_page_of [simp]: "addr_of start (page_of start a) = (a div 4096) * 4096"
  using frame_index_div[of 12 a] by (simp add: addr_of_def page_of_def)

lemma page_of_addr_of: "page \<in> range (page_of start) \<Longrightarrow> page_of start (addr_of start page) = page"
  using frame_index_div[of 4096] by auto (simp add: page_of_def)

lemma addr_of_inj: "inj_on (addr_of start) (range (page_of start))"
  by (rule inj_on_inverseI[where g = "page_of start"]) (rule page_of_addr_of)

lemma page_of_aligned: "a mod 4096 = 0 \<Longrightarrow> addr_of start (page_of start a) = a"
  using word_mod_div_equality[of a 4096] by simp

lemma card_page_table: "card (range (page_of start)) \<le> 2 ^ 20"
proof -
  have "range (page_of start) \<subseteq> (\<lambda>n. start + of_nat n * 12) ` {..<2 ^ 20}"
  proof
    fix p assume "p \<in> range (page_of start)"
    then obtain a where "p = start + (a div 4096) * 12" by (auto simp: page_of_def)
    then have "p = start + of_nat (unat (a div 4096)) * 12" by simp
    with frame_index_bound[of a] show "p \<in> (\<lambda>n. start + of_nat n * 12) ` {..<2 ^ 20}" by blast
  qed
  then have "card (range (page_of start)) \<le> card ((\<lambda>n. start + of_nat n * 12 :: u32) ` {..<2 ^ 20})"
    by (intro card_mono) auto
  also have "\<dots> \<le> 2 ^ 20" using card_image_le[of "{..<2 ^ 20::nat}"] by simp
  finally show ?thesis .
qed

lemma page_table_list_length:
  assumes "distinct xs" and "set xs \<subseteq> range (page_of start)"
  shows "length xs \<le> 2 ^ 20"
proof -
  have "card (set xs) \<le> card (range (page_of start))" by (intro card_mono) (use assms in auto)
  with card_page_table[of start] distinct_card[OF assms(1)] show ?thesis by simp
qed

section \<open>Configurations and the allocator invariant\<close>

definition feeder_physmem_v :: physmem_vfuncs where
  "feeder_physmem_v =
     \<lparr>vf_phys_to_page = Feeder_physmem_phys_to_page,
      vf_page_to_phys = Feeder_physmem_page_to_phys,
      vf_page_alloc = Feeder_physmem_page_alloc,
      vf_page_free = Feeder_physmem_page_free,
      vf_stats_get = Feeder_physmem_stats_get,
      vf_page_size = I686_physmem_page_size\<rparr>"

definition i686_conf :: "pm_state \<Rightarrow> physmem_ptr \<Rightarrow> virtaddr_t \<Rightarrow> bool" where
  "i686_conf s src start \<longleftrightarrow>
     pm_v (pm_obj s src) = i686_physmem_v \<and>
     map_option start_address (as_i686 s src) = Some start"

definition feeder_conf :: "pm_state \<Rightarrow> physmem_ptr \<Rightarrow> physmem_ptr \<Rightarrow> u32 \<Rightarrow> u32 \<Rightarrow> bool" where
  "feeder_conf s src fd keep minf \<longleftrightarrow>
     fd \<noteq> src \<and> pm_v (pm_obj s fd) = feeder_physmem_v \<and>
     as_feeder s fd =
       Some \<lparr>source = src, pages_to_keep = keep, min_free_source_pages = minf\<rparr>"

text \<open>\<open>p\<close> is the i686 allocator \<open>src\<close> itself or a feeder on it.\<close>

definition serves :: "pm_state \<Rightarrow> physmem_ptr \<Rightarrow> virtaddr_t \<Rightarrow> physmem_ptr \<Rightarrow> bool" where
  "serves s src start p \<longleftrightarrow>
     i686_conf s src start \<and> (p = src \<or> (\<exists>keep minf. feeder_conf s src p keep minf))"

text \<open>
  The invariant: the store holds the lists \<open>H\<close>, their elements are entries of the page table,
  and the counter of each allocator in \<open>P\<close> is the length of its free list, less a constant
  \<open>k p\<close> of pages that the counter does not know of.  The boot code leaves such a difference
  (see \<^verbatim>\<open>i686_prune_memory\<close>); elsewhere it is 0.
\<close>

definition pm_inv ::
  "(physmem_ptr \<Rightarrow> nat) \<Rightarrow> physmem_ptr set \<Rightarrow> virtaddr_t \<Rightarrow> pm_state \<Rightarrow>
   (physmem_head \<Rightarrow> page_ptr list) \<Rightarrow> bool" where
  "pm_inv k P start s H \<longleftrightarrow>
     linked (pm_pages s) H \<and> members H \<subseteq> range (page_of start) \<and>
     (\<forall>p\<in>P. length (H (Freelist p)) = unat (free_pages (pm_obj s p)) + k p)"

definition same_conf :: "pm_state \<Rightarrow> pm_state \<Rightarrow> bool" where
  "same_conf s s' \<longleftrightarrow>
     (\<forall>p. pm_v (pm_obj s' p) = pm_v (pm_obj s p) \<and> pm_sub (pm_obj s' p) = pm_sub (pm_obj s p))"

lemma same_conf_refl [simp]: "same_conf s s"
  by (simp add: same_conf_def)

lemma same_conf_trans: "same_conf s t \<Longrightarrow> same_conf t u \<Longrightarrow> same_conf s u"
  by (simp add: same_conf_def)

lemma same_conf_casts:
  "same_conf s s' \<Longrightarrow> as_i686 s' p = as_i686 s p" "same_conf s s' \<Longrightarrow> as_feeder s' p = as_feeder s p"
  by (simp_all add: same_conf_def as_i686_def as_feeder_def)

lemma same_conf_conf:
  assumes "same_conf s s'"
  shows "i686_conf s' src start = i686_conf s src start"
    and "feeder_conf s' src fd keep minf = feeder_conf s src fd keep minf"
    and "serves s' src start p = serves s src start p"
  using assms by (simp_all add: i686_conf_def feeder_conf_def serves_def as_i686_def as_feeder_def same_conf_def)

lemma i686_conf_page_size:
  "i686_conf s src start \<Longrightarrow> physmem_page_size s src = Some 4096"
  by (simp add: i686_conf_def physmem_page_size_def i686_physmem_v_def i686_physmem_page_size_def)

lemma feeder_conf_page_size:
  "feeder_conf s src fd keep minf \<Longrightarrow> physmem_page_size s fd = Some 4096"
  by (simp add: feeder_conf_def physmem_page_size_def feeder_physmem_v_def i686_physmem_page_size_def)

lemma serves_page_size: "serves s src start p \<Longrightarrow> physmem_page_size s p = Some 4096"
  by (auto simp: serves_def i686_conf_page_size feeder_conf_page_size)

lemma i686_page_to_phys:
  "i686_conf s src start \<Longrightarrow> physmem_page_to_phys s src page = Some (addr_of start page)"
  using i686_conf_page_size[of s src start]
  by (subst physmem_page_to_phys.simps)
     (auto simp: i686_conf_def i686_physmem_v_def i686_physmem_page_to_phys_def addr_of_def
        sizeof_physmem_page_def)

lemma i686_phys_to_page:
  "i686_conf s src start \<Longrightarrow> physmem_phys_to_page s src a = Some (page_of start a)"
  using i686_conf_page_size[of s src start]
  by (subst physmem_phys_to_page.simps)
     (auto simp: i686_conf_def i686_physmem_v_def i686_physmem_phys_to_page_def page_of_def
        sizeof_physmem_page_def)

lemma serves_cases:
  assumes "serves s src start p"
  obtains (i686) "p = src" "i686_conf s src start"
    | (feeder) keep minf where "i686_conf s src start" "feeder_conf s src p keep minf"
  using assms by (auto simp: serves_def)

lemma serves_page_to_phys [pm_simps]:
  assumes "serves s src start p"
  shows "physmem_page_to_phys s p page = Some (addr_of start page)"
  using assms
proof (cases rule: serves_cases)
  case (feeder keep minf)
  then show ?thesis
    by (subst physmem_page_to_phys.simps)
       (simp add: feeder_conf_def feeder_physmem_v_def feeder_physmem_page_to_phys_def
          i686_page_to_phys)
qed (simp_all add: i686_page_to_phys)

lemma serves_phys_to_page [pm_simps]:
  assumes "serves s src start p"
  shows "physmem_phys_to_page s p a = Some (page_of start a)"
  using assms
proof (cases rule: serves_cases)
  case (feeder keep minf)
  then show ?thesis
    by (subst physmem_phys_to_page.simps)
       (simp add: feeder_conf_def feeder_physmem_v_def feeder_physmem_phys_to_page_def
          i686_phys_to_page)
qed (simp_all add: i686_phys_to_page)

section \<open>The common allocator\<close>

lemma pm_invD:
  assumes "pm_inv k P start s H"
  shows "linked (pm_pages s) H" and "members H \<subseteq> range (page_of start)"
    and "p \<in> P \<Longrightarrow> length (H (Freelist p)) = unat (free_pages (pm_obj s p)) + k p"
  using assms by (auto simp: pm_inv_def)

lemma pm_inv_on_table:
  assumes "pm_inv k P start s H" and "x \<in> set (H h)"
  shows "x \<in> range (page_of start)"
  using assms members_iff[of x H] unfolding pm_inv_def by blast

lemma pm_inv_length:
  assumes "pm_inv k P start s H"
  shows "length (H h) \<le> 2 ^ 20"
proof (rule page_table_list_length)
  show "distinct (H h)" using pm_invD(1)[OF assms] by (rule linked_distinct)
  show "set (H h) \<subseteq> range (page_of start)" using pm_inv_on_table[OF assms] by blast
qed

lemma members_upd_subset: "set xs \<subseteq> insert x (set (H h)) \<Longrightarrow> members (H(h := xs)) \<subseteq> insert x (members H)"
  by (auto simp: members_iff split: if_splits)

lemma same_conf_upd_obj:
  assumes "\<And>o'. pm_v (f o') = pm_v o'" and "\<And>o'. pm_sub (f o') = pm_sub o'"
  shows "same_conf s (upd_obj p f s)"
  using assms by (simp add: same_conf_def upd_obj_def)

lemma same_conf_pages [simp]: "same_conf s (t\<lparr>pm_pages := q\<rparr>) = same_conf s t"
  by (simp add: same_conf_def)

lemma common_alloc_oom:
  "free_pages (pm_obj s p) = 0 \<Longrightarrow>
     common_physmem_page_alloc p node s = Some ((PHYSMEM_ERR_OOM, None), s)"
  by (simp add: common_physmem_page_alloc_def)

lemma common_alloc_ok:
  assumes inv: "pm_inv k P start s H" and p: "p \<in> P" and sv: "serves s src start p"
    and pos: "free_pages (pm_obj s p) \<noteq> 0"
  obtains page rest q where
    "H (Freelist p) = page # rest"
    "common_physmem_page_alloc p node s =
       Some ((PHYSMEM_SUCCESS, Some (addr_of start page)),
             (upd_obj p (free_pages_update (\<lambda>n. n - 1)) s)\<lparr>pm_pages := q\<rparr>)"
    "linked q (H(Freelist p := rest))"
proof -
  have "0 < unat (free_pages (pm_obj s p))" using pos by (simp add: unat_gt_0)
  with pm_invD(3)[OF inv p] obtain page rest where H: "H (Freelist p) = page # rest"
    by (cases "H (Freelist p)") auto
  let ?s1 = "upd_obj p (free_pages_update (\<lambda>n. n - 1)) s"
  have pages: "pm_pages ?s1 = pm_pages s" by (simp add: upd_obj_def)
  note lk = pm_invD(1)[OF inv]
  obtain q where q: "LIST_REMOVE page (pm_pages s) = Some q" "linked q (H(Freelist p := rest))"
    using LIST_REMOVE_linked[OF lk, of "Freelist p" "[]" page rest] H by auto
  have "same_conf s (?s1\<lparr>pm_pages := q\<rparr>)" by (simp add: same_conf_upd_obj)
  then have "serves (?s1\<lparr>pm_pages := q\<rparr>) src start p" using sv by (simp add: same_conf_conf)
  then have "common_physmem_page_alloc p node s =
      Some ((PHYSMEM_SUCCESS, Some (addr_of start page)), ?s1\<lparr>pm_pages := q\<rparr>)"
    using pos H q(1) LIST_FIRST_linked[OF lk, of "Freelist p"] LIST_EMPTY_linked[OF lk, of "Freelist p"]
    by (simp add: common_physmem_page_alloc_def pages serves_page_to_phys)
  with H q(2) that show thesis by blast
qed

lemma pm_inv_after_alloc:
  assumes inv: "pm_inv k P start s H" and pos: "free_pages (pm_obj s p) \<noteq> 0"
    and H: "H (Freelist p) = page # rest" and q: "linked q (H(Freelist p := rest))"
  shows "pm_inv k P start
    ((upd_obj p (free_pages_update (\<lambda>n. n - 1)) s)\<lparr>pm_pages := q\<rparr>) (H(Freelist p := rest))"
  unfolding pm_inv_def
proof (intro conjI ballI)
  show "members (H(Freelist p := rest)) \<subseteq> range (page_of start)"
    using pm_inv_on_table[OF inv, of _ "Freelist p"] pm_inv_on_table[OF inv] H
    by (auto simp: members_def split: if_splits simp del: rangeI)
  fix p' assume p': "p' \<in> P"
  show "length ((H(Freelist p := rest)) (Freelist p')) =
    unat (free_pages (pm_obj ((upd_obj p (free_pages_update (\<lambda>n. n - 1)) s)\<lparr>pm_pages := q\<rparr>) p')) + k p'"
    using pm_invD(3)[OF inv p'] H unat_dec[OF pos] pos
    by (cases "p' = p") (auto simp: upd_obj_def unat_gt_0[symmetric] simp del: unat_gt_0)
qed (simp add: q)

lemma common_free_ok:
  assumes sv: "serves s src start p"
  shows "common_physmem_page_free p a s =
    Some (PHYSMEM_SUCCESS, upd_obj p (free_pages_update (\<lambda>n. n + 1))
      (s\<lparr>pm_pages := LIST_INSERT_HEAD (Freelist p) (page_of start a) (pm_pages s)\<rparr>))"
  using sv by (simp add: common_physmem_page_free_def serves_phys_to_page)

lemma pm_inv_after_insert:
  assumes inv: "pm_inv k P start s H" and new: "page \<notin> members H"
    and tab: "page \<in> range (page_of start)"
    and f: "\<And>o'. free_pages (f o') = free_pages o' + 1"
  shows "pm_inv k P start
    (upd_obj p f (s\<lparr>pm_pages := LIST_INSERT_HEAD (Freelist p) page (pm_pages s)\<rparr>))
    (H(Freelist p := page # H (Freelist p)))"
  unfolding pm_inv_def
proof (intro conjI ballI)
  show "linked (pm_pages (upd_obj p f (s\<lparr>pm_pages := LIST_INSERT_HEAD (Freelist p) page (pm_pages s)\<rparr>)))
     (H(Freelist p := page # H (Freelist p)))"
    using LIST_INSERT_HEAD_linked[OF pm_invD(1)[OF inv] new] by (simp add: upd_obj_def)
  show "members (H(Freelist p := page # H (Freelist p))) \<subseteq> range (page_of start)"
    using pm_inv_on_table[OF inv] tab by (auto simp: members_def split: if_splits)
  fix p' assume p': "p' \<in> P"
  have "unat (free_pages (pm_obj s p')) + 1 < 2 ^ LENGTH(32)"
    using pm_invD(3)[OF inv p'] pm_inv_length[OF inv, of "Freelist p'"] by simp
  from unat_inc[OF this] pm_invD(3)[OF inv p']
  show "length ((H(Freelist p := page # H (Freelist p))) (Freelist p')) =
    unat (free_pages (pm_obj (upd_obj p f
      (s\<lparr>pm_pages := LIST_INSERT_HEAD (Freelist p) page (pm_pages s)\<rparr>)) p')) + k p'"
    by (cases "p' = p") (simp_all add: upd_obj_def f)
qed
end
