(* ===== verification/Feeder.thy ===== *)
theory Feeder
  imports Physmem "HOL-Library.Multiset"
begin

text \<open>
  The feeder of \<^verbatim>\<open>src/sys/common/physmem.c\<close>, a per-processor allocator that keeps a supply of
  pages taken from a source.  The theory shows how many pages a transfer moves, that the feeder
  refines a functional specification over the two supplies, and that both allocators satisfy one
  interface \<open>page_allocator\<close>, on which the facts about sequences of allocations rest.
\<close>

section \<open>The transfer loop\<close>

lemma call_common_page_alloc [pm_simps]:
  "call_page_alloc node Common_physmem_page_alloc p s = common_physmem_page_alloc p node s"
  by (subst call_page_alloc.simps) simp

lemma call_feeder_page_alloc [pm_simps]:
  "call_page_alloc node Feeder_physmem_page_alloc p s =
     feeder_physmem_page_alloc (call_page_alloc node) p node s"
  by (subst call_page_alloc.simps) simp

lemma call_common_page_free [pm_simps]:
  "call_page_free a Common_physmem_page_free p s = common_physmem_page_free p a s"
  by (subst call_page_free.simps) simp

lemma call_feeder_page_free [pm_simps]:
  "call_page_free a Feeder_physmem_page_free p s =
     feeder_physmem_page_free (call_page_free a) p a s"
  by (subst call_page_free.simps) simp

definition xfer_lists ::
  "physmem_ptr \<Rightarrow> physmem_ptr \<Rightarrow> nat \<Rightarrow> (physmem_head \<Rightarrow> page_ptr list) \<Rightarrow>
   physmem_head \<Rightarrow> page_ptr list" where
  "xfer_lists src fd t H =
     H(Freelist src := drop t (H (Freelist src)),
       Freelist fd := rev (take t (H (Freelist src))) @ H (Freelist fd))"

lemma xfer_lists_0 [simp]: "xfer_lists src fd 0 H = H"
  by (simp add: xfer_lists_def)

lemma xfer_lists_Suc:
  assumes "fd \<noteq> src" and "H (Freelist src) = page # rest"
  shows "xfer_lists src fd (Suc t) H =
    xfer_lists src fd t (H(Freelist src := rest, Freelist fd := page # H (Freelist fd)))"
  using assms by (auto simp: xfer_lists_def fun_eq_iff)

lemma members_upd2:
  "h \<noteq> h' \<Longrightarrow> members (H(h := xs, h' := ys)) = set xs \<union> set ys \<union> (\<Union>i\<in>- {h, h'}. set (H i))"
  by (auto simp: members_def split: if_splits)

lemma members_xfer_lists:
  assumes "fd \<noteq> src"
  shows "members (xfer_lists src fd t H) = members H"
proof -
  let ?S = "H (Freelist src)"
  have "set (take t ?S) \<union> set (drop t ?S) = set ?S" by (metis append_take_drop_id set_append)
  moreover have "members H = members (H(Freelist src := ?S, Freelist fd := H (Freelist fd)))" by simp
  moreover have "Freelist src \<noteq> Freelist fd" using assms by simp
  ultimately show ?thesis unfolding xfer_lists_def members_upd2[OF \<open>Freelist src \<noteq> Freelist fd\<close>] by auto
qed

text \<open>One iteration takes the first page of the source and puts it in front of the feeder's list.\<close>

definition xfer_one :: "physmem_ptr \<Rightarrow> physmem_ptr \<Rightarrow> pm_state \<Rightarrow> pm_state \<Rightarrow> bool" where
  "xfer_one src fd s s' \<longleftrightarrow>
     same_conf s s' \<and>
     pm_obj s' = (pm_obj s)
       (src := (pm_obj s src)\<lparr>free_pages := free_pages (pm_obj s src) - 1\<rparr>,
        fd := (pm_obj s fd)\<lparr>free_pages := free_pages (pm_obj s fd) + 1,
                             total_pages := total_pages (pm_obj s fd) + 1\<rparr>)"

lemma feeder_transfer_step:
  assumes inv: "pm_inv k {src, fd} start s H" and ic: "i686_conf s src start"
    and fc: "feeder_conf s src fd keep minf" and more: "minf < free_pages (pm_obj s src)"
  obtains page rest s' where
    "H (Freelist src) = page # rest"
    "feeder_transfer (call_page_alloc node) fd (Suc n) na s =
       feeder_transfer (call_page_alloc node) fd n (Some (addr_of start page)) s'"
    "pm_inv k {src, fd} start s' (H(Freelist src := rest, Freelist fd := page # H (Freelist fd)))"
    "xfer_one src fd s s'"
proof -
  have ne: "fd \<noteq> src" using fc by (simp add: feeder_conf_def)
  have pos: "free_pages (pm_obj s src) \<noteq> 0" using more by auto
  have nle: "\<not> free_pages (pm_obj s src) \<le> minf" using more by simp
  have sv: "serves s src start src" using ic by (simp add: serves_def)
  obtain page rest q where H: "H (Freelist src) = page # rest"
    and al: "common_physmem_page_alloc src node s =
       Some ((PHYSMEM_SUCCESS, Some (addr_of start page)),
             (upd_obj src (free_pages_update (\<lambda>n. n - 1)) s)\<lparr>pm_pages := q\<rparr>)"
    and q: "linked q (H(Freelist src := rest))"
    using common_alloc_ok[OF inv _ sv pos, of node] by blast
  let ?s1 = "(upd_obj src (free_pages_update (\<lambda>n. n - 1)) s)\<lparr>pm_pages := q\<rparr>"
  let ?f = "\<lambda>o'. o'\<lparr>free_pages := free_pages o' + 1, total_pages := total_pages o' + 1\<rparr>"
  let ?s3 = "upd_obj fd ?f (?s1\<lparr>pm_pages := LIST_INSERT_HEAD (Freelist fd) page (pm_pages ?s1)\<rparr>)"
  have inv1: "pm_inv k {src, fd} start ?s1 (H(Freelist src := rest))"
    by (rule pm_inv_after_alloc[OF inv pos H q])
  have tab: "page \<in> range (page_of start)"
    using pm_inv_on_table[OF inv, of page "Freelist src"] H by simp
  have sc1: "same_conf s ?s1" by (simp add: same_conf_upd_obj)
  have sv1: "serves ?s1 src start src" using sv same_conf_conf(3)[OF sc1] by simp
  have eq: "feeder_transfer (call_page_alloc node) fd (Suc n) na s =
       feeder_transfer (call_page_alloc node) fd n (Some (addr_of start page)) ?s3"
    using fc ic nle al page_of_addr_of[OF tab] serves_phys_to_page[OF sv1]
    by (simp add: feeder_conf_def i686_conf_def i686_physmem_v_def call_common_page_alloc)
  have fresh: "page \<notin> members (H(Freelist src := rest))"
    by (rule dl.popped_fresh[OF pm_invD(1)[OF inv] H])
  have inv3: "pm_inv k {src, fd} start ?s3
      (H(Freelist src := rest, Freelist fd := page # H (Freelist fd)))"
    using pm_inv_after_insert[OF inv1 fresh tab, of ?f fd] ne by simp
  have "xfer_one src fd s ?s3"
    using ne by (auto simp: xfer_one_def same_conf_def upd_obj_def fun_eq_iff)
  with H eq inv3 that show thesis by blast
qed

lemma feeder_transfer_ok:
  assumes "pm_inv k {src, fd} start s H" and "i686_conf s src start"
    and "feeder_conf s src fd keep minf"
    and "t = min n (unat (free_pages (pm_obj s src)) - unat minf)"
  shows "\<exists>s'. feeder_transfer (call_page_alloc node) fd n na s = Some s' \<and>
     pm_inv k {src, fd} start s' (xfer_lists src fd t H) \<and> same_conf s s' \<and>
     unat (free_pages (pm_obj s' src)) = unat (free_pages (pm_obj s src)) - t \<and>
     unat (free_pages (pm_obj s' fd)) = unat (free_pages (pm_obj s fd)) + t \<and>
     total_pages (pm_obj s' fd) = total_pages (pm_obj s fd) + of_nat t \<and> (t = 0 \<longrightarrow> s' = s)"
  using assms
proof (induction n arbitrary: s H na t)
  case 0
  then show ?case by simp
next
  case (Suc n)
  note inv = Suc.prems(1) and ic = Suc.prems(2) and fc = Suc.prems(3)
  show ?case
  proof (cases "free_pages (pm_obj s src) \<le> minf")
    case True
    then have "t = 0" using Suc.prems(4) by (simp add: word_le_nat_alt)
    moreover have "feeder_transfer (call_page_alloc node) fd (Suc n) na s = Some s"
      using fc True by (simp add: feeder_conf_def)
    ultimately show ?thesis using inv by simp
  next
    case False
    then have more: "minf < free_pages (pm_obj s src)" by simp
    obtain page rest s1 where H: "H (Freelist src) = page # rest"
      and eq: "feeder_transfer (call_page_alloc node) fd (Suc n) na s =
        feeder_transfer (call_page_alloc node) fd n (Some (addr_of start page)) s1"
      and inv1: "pm_inv k {src, fd} start s1
         (H(Freelist src := rest, Freelist fd := page # H (Freelist fd)))"
      and one: "xfer_one src fd s s1"
      by (rule feeder_transfer_step[OF inv ic fc more])
    have sc: "same_conf s s1" using one by (simp add: xfer_one_def)
    have ne: "fd \<noteq> src" using fc by (simp add: feeder_conf_def)
    have pos: "free_pages (pm_obj s src) \<noteq> 0" using more by auto
    have bound: "unat (free_pages (pm_obj s fd)) + 1 < 2 ^ LENGTH(32)"
      using pm_invD(3)[OF inv, of fd] pm_inv_length[OF inv, of "Freelist fd"] by simp
    have src1: "unat (free_pages (pm_obj s1 src)) = unat (free_pages (pm_obj s src)) - 1"
      and fd1: "unat (free_pages (pm_obj s1 fd)) = unat (free_pages (pm_obj s fd)) + 1"
      and tot1: "total_pages (pm_obj s1 fd) = total_pages (pm_obj s fd) + 1"
      using one ne unat_dec[OF pos] unat_inc[OF bound] by (simp_all add: xfer_one_def)
    define t1 where "t1 = min n (unat (free_pages (pm_obj s1 src)) - unat minf)"
    have t: "t = Suc t1" "Suc t1 \<le> unat (free_pages (pm_obj s src))"
      using Suc.prems(4) more src1 by (auto simp: t1_def word_less_nat_alt min_def)
    obtain s' where "feeder_transfer (call_page_alloc node) fd n (Some (addr_of start page)) s1 = Some s'"
      and "pm_inv k {src, fd} start s' (xfer_lists src fd t1
          (H(Freelist src := rest, Freelist fd := page # H (Freelist fd))))"
      and "same_conf s1 s'"
      and "unat (free_pages (pm_obj s' src)) = unat (free_pages (pm_obj s1 src)) - t1"
      and "unat (free_pages (pm_obj s' fd)) = unat (free_pages (pm_obj s1 fd)) + t1"
      and "total_pages (pm_obj s' fd) = total_pages (pm_obj s1 fd) + of_nat t1"
      using Suc.IH[OF inv1 _ _ t1_def, of "Some (addr_of start page)"] ic fc same_conf_conf[OF sc]
      by blast
    then show ?thesis
      using eq t src1 fd1 tot1 xfer_lists_Suc[of fd src H page rest t1, OF ne H] same_conf_trans[OF sc] by auto
  qed
qed

section \<open>Functional specification\<close>

text \<open>
  The supplies of the feeder and of its source as lists of page addresses: the first
  \<^verbatim>\<open>free_pages\<close> entries of the free list.  An allocation first refills the local supply up to
  one more than \<^verbatim>\<open>pages_to_keep\<close> without taking the source below its minimum, then hands
  out the first local page, or a page of the source when there is no local one.
\<close>

definition stock ::
  "virtaddr_t \<Rightarrow> pm_state \<Rightarrow> (physmem_head \<Rightarrow> page_ptr list) \<Rightarrow> physmem_ptr \<Rightarrow> physaddr_t list" where
  "stock start s H p =
     map (addr_of start) (take (unat (free_pages (pm_obj s p))) (H (Freelist p)))"

definition refill_amount :: "nat \<Rightarrow> nat \<Rightarrow> 'a list \<Rightarrow> 'a list \<Rightarrow> nat" where
  "refill_amount keep minf L S =
     (if length L < keep + 1 then min (keep + 1 - length L) (length S - minf) else 0)"

definition feeder_refill :: "nat \<Rightarrow> nat \<Rightarrow> 'a list \<times> 'a list \<Rightarrow> 'a list \<times> 'a list" where
  "feeder_refill keep minf LS =
     (case LS of (L, S) \<Rightarrow>
        let t = refill_amount keep minf L S in (rev (take t S) @ L, drop t S))"

definition feeder_alloc_spec ::
  "nat \<Rightarrow> nat \<Rightarrow> 'a list \<times> 'a list \<Rightarrow> ('a \<times> ('a list \<times> 'a list)) option" where
  "feeder_alloc_spec keep minf LS =
     (case feeder_refill keep minf LS of
        (x # L, S) \<Rightarrow> Some (x, (L, S))
      | ([], x # S) \<Rightarrow> Some (x, ([], S))
      | ([], []) \<Rightarrow> None)"

definition feeder_free_spec :: "nat \<Rightarrow> 'a \<Rightarrow> 'a list \<times> 'a list \<Rightarrow> 'a list \<times> 'a list" where
  "feeder_free_spec minf a LS =
     (case LS of (L, S) \<Rightarrow> if length S < minf then (L, a # S) else (a # L, S))"

lemma length_stock:
  assumes "pm_inv k P start s H" and "p \<in> P"
  shows "length (stock start s H p) = unat (free_pages (pm_obj s p))"
  using pm_invD(3)[OF assms] by (simp add: stock_def)

text \<open>The invariant of a feeder \<open>fd\<close> on a source \<open>src\<close>, and the two supplies it abstracts to.\<close>

definition feeder_rep ::
  "(physmem_ptr \<Rightarrow> nat) \<Rightarrow> physmem_ptr \<Rightarrow> physmem_ptr \<Rightarrow> virtaddr_t \<Rightarrow> u32 \<Rightarrow> u32 \<Rightarrow>
   pm_state \<Rightarrow> (physmem_head \<Rightarrow> page_ptr list) \<Rightarrow> bool" where
  "feeder_rep k src fd start keep minf s H \<longleftrightarrow>
     i686_conf s src start \<and> feeder_conf s src fd keep minf \<and> pm_inv k {src, fd} start s H \<and>
     unat keep + 1 < 2 ^ 32"

lemma feeder_rep_after_alloc:
  assumes rep: "feeder_rep k src fd start keep minf s H" and p: "p \<in> {src, fd}"
    and pos: "free_pages (pm_obj s p) \<noteq> 0"
  obtains a s' H' where
    "common_physmem_page_alloc p node s = Some ((PHYSMEM_SUCCESS, Some a), s')"
    "feeder_rep k src fd start keep minf s' H'"
    "stock start s H p = a # stock start s' H' p"
    "\<And>p'. p' \<in> {src, fd} \<Longrightarrow> p' \<noteq> p \<Longrightarrow> stock start s' H' p' = stock start s H p'"
    "\<And>p'. p' \<noteq> p \<Longrightarrow> pm_obj s' p' = pm_obj s p'"
    "members H' = members H - {page_of start a}"
proof -
  have inv: "pm_inv k {src, fd} start s H" and ic: "i686_conf s src start"
    and fc: "feeder_conf s src fd keep minf" using rep by (auto simp: feeder_rep_def)
  have sv: "serves s src start p" using p ic fc by (auto simp: serves_def)
  obtain page rest q where H: "H (Freelist p) = page # rest"
    and al: "common_physmem_page_alloc p node s =
       Some ((PHYSMEM_SUCCESS, Some (addr_of start page)),
             (upd_obj p (free_pages_update (\<lambda>n. n - 1)) s)\<lparr>pm_pages := q\<rparr>)"
    and q: "linked q (H(Freelist p := rest))"
    by (rule common_alloc_ok[OF inv p sv pos])
  let ?s' = "(upd_obj p (free_pages_update (\<lambda>n. n - 1)) s)\<lparr>pm_pages := q\<rparr>"
  have sc: "same_conf s ?s'" by (simp add: same_conf_upd_obj)
  have rep': "feeder_rep k src fd start keep minf ?s' (H(Freelist p := rest))"
    using rep pm_inv_after_alloc[OF inv pos H q] same_conf_conf[OF sc]
    by (simp add: feeder_rep_def)
  have n: "unat (free_pages (pm_obj s p)) = Suc (unat (free_pages (pm_obj s p) - 1))"
    using unat_dec[OF pos] pos by (simp add: unat_gt_0[symmetric] del: unat_gt_0)
  have tab: "page \<in> range (page_of start)"
    using pm_inv_on_table[OF inv, of page "Freelist p"] H by simp
  have mem: "members (H(Freelist p := rest)) = members H - {page_of start (addr_of start page)}"
    using dl.members_popped[of "pm_pages s" H "Freelist p" page rest, OF pm_invD(1)[OF inv] H]
      page_of_addr_of[OF tab] by simp
  show thesis
    by (rule that[OF al rep' _ _ _ mem]) (use H n in \<open>auto simp: stock_def upd_obj_def\<close>)
qed


lemma feeder_rep_after_free:
  assumes rep: "feeder_rep k src fd start keep minf s H" and p: "p \<in> {src, fd}"
    and fresh: "page_of start a \<notin> members H" and al: "a mod 4096 = 0"
  obtains s' H' where
    "common_physmem_page_free p a s = Some (PHYSMEM_SUCCESS, s')"
    "feeder_rep k src fd start keep minf s' H'"
    "stock start s' H' p = a # stock start s H p"
    "\<And>p'. p' \<in> {src, fd} \<Longrightarrow> p' \<noteq> p \<Longrightarrow> stock start s' H' p' = stock start s H p'"
    "members H' = insert (page_of start a) (members H)"
proof -
  have inv: "pm_inv k {src, fd} start s H" and ic: "i686_conf s src start"
    and fc: "feeder_conf s src fd keep minf" using rep by (auto simp: feeder_rep_def)
  have sv: "serves s src start p" using p ic fc by (auto simp: serves_def)
  let ?s' = "upd_obj p (free_pages_update (\<lambda>n. n + 1))
      (s\<lparr>pm_pages := LIST_INSERT_HEAD (Freelist p) (page_of start a) (pm_pages s)\<rparr>)"
  let ?H' = "H(Freelist p := page_of start a # H (Freelist p))"
  have sc: "same_conf s ?s'" by (simp add: same_conf_def upd_obj_def)
  have rep': "feeder_rep k src fd start keep minf ?s' ?H'"
    using rep pm_inv_after_insert[OF inv fresh, of "free_pages_update (\<lambda>n. n + 1)" p]
      same_conf_conf[OF sc] by (simp add: feeder_rep_def)
  have "unat (free_pages (pm_obj s p)) + 1 < 2 ^ LENGTH(32)"
    using pm_invD(3)[OF inv p] pm_inv_length[OF inv, of "Freelist p"] by simp
  note n = unat_inc[OF this]
  show thesis
    by (rule that[OF common_free_ok[OF sv] rep' _ _ members_push])
       (use n page_of_aligned[OF al] in \<open>auto simp: stock_def upd_obj_def\<close>)
qed

text \<open>After the refill both supplies are what the specification says.\<close>

lemma feeder_refill_ok:
  assumes rep: "feeder_rep k src fd start keep minf s H"
  obtains s1 H1 where
    "(if free_pages (pm_obj s fd) < keep + 1
      then feeder_transfer (call_page_alloc node) fd
             (unat (keep - free_pages (pm_obj s fd) + 1)) None s
      else Some s) = Some s1"
    "feeder_rep k src fd start keep minf s1 H1"
    "(stock start s1 H1 fd, stock start s1 H1 src) =
       feeder_refill (unat keep) (unat minf) (stock start s H fd, stock start s H src)"
    "members H1 = members H"
    "stock start s1 H1 fd = [] \<longrightarrow> s1 = s"
proof -
  have inv: "pm_inv k {src, fd} start s H" and ic: "i686_conf s src start"
    and fc: "feeder_conf s src fd keep minf" and kb: "unat keep + 1 < 2 ^ LENGTH(32)"
    using rep by (auto simp: feeder_rep_def)
  have ne: "fd \<noteq> src" using fc by (simp add: feeder_conf_def)
  note lens = length_stock[OF inv, of fd] length_stock[OF inv, of src]
  have guard: "free_pages (pm_obj s fd) < keep + 1 \<longleftrightarrow> unat (free_pages (pm_obj s fd)) < unat keep + 1"
    using unat_inc[OF kb] by (simp add: word_less_nat_alt)
  show thesis
  proof (cases "free_pages (pm_obj s fd) < keep + 1")
    case False
    then have "refill_amount (unat keep) (unat minf) (stock start s H fd) (stock start s H src) = 0"
      using guard lens by (simp add: refill_amount_def)
    with False rep that[of s H] show thesis by (simp add: feeder_refill_def)
  next
    case True
    define n where "n = unat (keep - free_pages (pm_obj s fd) + 1)"
    define t where "t = min n (unat (free_pages (pm_obj s src)) - unat minf)"
    have "free_pages (pm_obj s fd) \<le> keep" using True guard by (simp add: word_le_nat_alt)
    then have d: "unat (keep - free_pages (pm_obj s fd)) = unat keep - unat (free_pages (pm_obj s fd))"
      by (simp add: unat_sub)
    have n: "n = unat keep + 1 - unat (free_pages (pm_obj s fd))"
      using unat_inc[of "keep - free_pages (pm_obj s fd)"] d kb True guard by (simp add: n_def)
    obtain s1 where tr: "feeder_transfer (call_page_alloc node) fd n None s = Some s1"
      and inv1: "pm_inv k {src, fd} start s1 (xfer_lists src fd t H)" and sc: "same_conf s s1"
      and src1: "unat (free_pages (pm_obj s1 src)) = unat (free_pages (pm_obj s src)) - t"
      and fd1: "unat (free_pages (pm_obj s1 fd)) = unat (free_pages (pm_obj s fd)) + t"
      and t0: "t = 0 \<longrightarrow> s1 = s"
      using feeder_transfer_ok[OF inv ic fc t_def, of node None] by blast
    have rep1: "feeder_rep k src fd start keep minf s1 (xfer_lists src fd t H)"
      using rep inv1 same_conf_conf[OF sc] by (simp add: feeder_rep_def)
    have amt: "refill_amount (unat keep) (unat minf) (stock start s H fd) (stock start s H src) = t"
      using True guard lens n by (simp add: refill_amount_def t_def)
    have tle: "t \<le> unat (free_pages (pm_obj s src))" by (simp add: t_def)
    have len: "t \<le> length (H (Freelist src))" using tle pm_invD(3)[OF inv, of src] by simp
    have S: "stock start s1 (xfer_lists src fd t H) src = drop t (stock start s H src)"
      using ne src1 tle by (simp add: stock_def xfer_lists_def drop_map take_drop)
    have L: "stock start s1 (xfer_lists src fd t H) fd = rev (take t (stock start s H src)) @ stock start s H fd"
      using ne fd1 tle len by (simp add: stock_def xfer_lists_def take_map rev_map min_def)
    have mem: "members (xfer_lists src fd t H) = members H" by (rule members_xfer_lists[OF ne])
    show thesis
      by (rule that[OF _ rep1 _ mem])
         (use tr True n_def S L amt t0 fd1 length_stock[OF inv1, of fd] in \<open>auto simp: feeder_refill_def\<close>)
  qed
qed


section \<open>The feeder refines its specification\<close>

lemma feeder_page_alloc_refines:
  assumes rep: "feeder_rep k src fd start keep minf s H"
  shows "case feeder_alloc_spec (unat keep) (unat minf) (stock start s H fd, stock start s H src) of
      None \<Rightarrow> physmem_page_alloc fd node s = Some ((PHYSMEM_ERR_OOM, None), s)
    | Some (a, LS) \<Rightarrow> \<exists>s' H'.
        physmem_page_alloc fd node s = Some ((PHYSMEM_SUCCESS, Some a), s') \<and>
        feeder_rep k src fd start keep minf s' H' \<and>
        (stock start s' H' fd, stock start s' H' src) = LS \<and>
        members H' = members H - {page_of start a}"
proof -
  obtain s1 H1 where rf: "(if free_pages (pm_obj s fd) < keep + 1
      then feeder_transfer (call_page_alloc node) fd
             (unat (keep - free_pages (pm_obj s fd) + 1)) None s
      else Some s) = Some s1"
    and rep1: "feeder_rep k src fd start keep minf s1 H1"
    and st: "(stock start s1 H1 fd, stock start s1 H1 src) =
       feeder_refill (unat keep) (unat minf) (stock start s H fd, stock start s H src)"
    and mem1: "members H1 = members H" and same: "stock start s1 H1 fd = [] \<longrightarrow> s1 = s"
    by (rule feeder_refill_ok[OF rep, where node = node])
  have fc: "feeder_conf s src fd keep minf" and ic: "i686_conf s src start"
    using rep by (auto simp: feeder_rep_def)
  have ic1: "i686_conf s1 src start" and inv1: "pm_inv k {src, fd} start s1 H1"
    using rep1 by (auto simp: feeder_rep_def)
  note lens = length_stock[OF inv1, of fd] length_stock[OF inv1, of src]
  let ?p = "if free_pages (pm_obj s1 fd) > 0 then fd else src"
  have call: "physmem_page_alloc fd node s = common_physmem_page_alloc ?p node s1"
    using fc ic1 rf
    by (cases "free_pages (pm_obj s fd) < keep + 1")
       (simp_all add: physmem_page_alloc_def feeder_conf_def feeder_physmem_v_def i686_conf_def
          i686_physmem_v_def call_feeder_page_alloc call_common_page_alloc
          feeder_physmem_page_alloc_def Let_def)
  show ?thesis
  proof (cases "free_pages (pm_obj s1 ?p) = 0")
    case True
    have "stock start s1 H1 fd = []"
      using lens True by (auto simp: word_gt_0 split: if_splits)
    moreover have "stock start s1 H1 src = []"
      using lens True by (auto simp: word_gt_0 split: if_splits)
    ultimately show ?thesis using same st[symmetric] call common_alloc_oom[OF True]
      by (simp add: feeder_alloc_spec_def)
  next
    case False
    obtain a s' H' where al: "common_physmem_page_alloc ?p node s1 = Some ((PHYSMEM_SUCCESS, Some a), s')"
      and rep': "feeder_rep k src fd start keep minf s' H'"
      and own: "stock start s1 H1 ?p = a # stock start s' H' ?p"
      and oth: "\<And>p'. p' \<in> {src, fd} \<Longrightarrow> p' \<noteq> ?p \<Longrightarrow> stock start s' H' p' = stock start s1 H1 p'"
      and mem': "members H' = members H1 - {page_of start a}"
      by (rule feeder_rep_after_alloc[OF rep1 _ False, where node = node]) auto
    have spec: "feeder_alloc_spec (unat keep) (unat minf) (stock start s H fd, stock start s H src) =
        Some (a, (stock start s' H' fd, stock start s' H' src))"
      using st[symmetric] own oth[of src] oth[of fd] lens False fc
      by (auto simp: feeder_conf_def feeder_alloc_spec_def word_gt_0 split: if_splits list.splits)
    then show ?thesis using call al rep' mem' mem1 by auto
  qed
qed

lemma feeder_page_free_refines:
  assumes rep: "feeder_rep k src fd start keep minf s H"
    and fresh: "page_of start a \<notin> members H" and al: "a mod 4096 = 0"
  shows "\<exists>s' H'. physmem_page_free fd a s = Some (PHYSMEM_SUCCESS, s') \<and>
     feeder_rep k src fd start keep minf s' H' \<and>
     (stock start s' H' fd, stock start s' H' src) =
       feeder_free_spec (unat minf) a (stock start s H fd, stock start s H src) \<and>
     members H' = insert (page_of start a) (members H)"
proof -
  have fc: "feeder_conf s src fd keep minf" and ic: "i686_conf s src start"
    and inv: "pm_inv k {src, fd} start s H" using rep by (auto simp: feeder_rep_def)
  let ?p = "if free_pages (pm_obj s src) < minf then src else fd"
  obtain s' H' where fr: "common_physmem_page_free ?p a s = Some (PHYSMEM_SUCCESS, s')"
    and rep': "feeder_rep k src fd start keep minf s' H'"
    and own: "stock start s' H' ?p = a # stock start s H ?p"
    and oth: "\<And>p'. p' \<in> {src, fd} \<Longrightarrow> p' \<noteq> ?p \<Longrightarrow> stock start s' H' p' = stock start s H p'"
    and mem': "members H' = insert (page_of start a) (members H)"
    by (rule feeder_rep_after_free[OF rep _ fresh al, of ?p]) auto
  have ne: "fd \<noteq> src" using fc by (simp add: feeder_conf_def)
  have call: "physmem_page_free fd a s = Some (PHYSMEM_SUCCESS, s')"
    using fc ic fr
    by (cases "free_pages (pm_obj s src) < minf")
       (simp_all add: physmem_page_free_def feeder_conf_def feeder_physmem_v_def i686_conf_def
          i686_physmem_v_def call_feeder_page_free call_common_page_free feeder_physmem_page_free_def)
  have "(stock start s' H' fd, stock start s' H' src) =
       feeder_free_spec (unat minf) a (stock start s H fd, stock start s H src)"
    using own oth[of src] oth[of fd] ne length_stock[OF inv, of src]
    by (auto simp: feeder_free_spec_def word_less_nat_alt split: if_splits)
  with call rep' mem' show ?thesis by blast
qed

section \<open>The interface of a page allocator\<close>

text \<open>
  What clients of \<^verbatim>\<open>physmem_page_alloc\<close> and \<^verbatim>\<open>physmem_page_free\<close> rely on.  \<open>rep s A U\<close>:
  in state \<open>s\<close> the addresses \<open>A\<close> are free in this allocator and \<open>U\<close> are in some free or
  boot list; \<open>avail\<close> is how many allocations will succeed.
\<close>

primrec take_pages ::
  "('s \<Rightarrow> ((physmem_error_t \<times> physaddr_t option) \<times> 's) option) \<Rightarrow> nat \<Rightarrow> 's \<Rightarrow>
   (physaddr_t list \<times> 's) option" where
  "take_pages alloc 0 s = Some ([], s)"
| "take_pages alloc (Suc n) s = do {
     ((e, a), s1) \<leftarrow> alloc s;
     a' \<leftarrow> a;
     (as, s2) \<leftarrow> take_pages alloc n s1;
     Some (a' # as, s2)
   }"

locale page_allocator =
  fixes alloc :: "'s \<Rightarrow> ((physmem_error_t \<times> physaddr_t option) \<times> 's) option"
    and free :: "physaddr_t \<Rightarrow> 's \<Rightarrow> (physmem_error_t \<times> 's) option"
    and avail :: "'s \<Rightarrow> nat"
    and rep :: "'s \<Rightarrow> physaddr_t set \<Rightarrow> physaddr_t set \<Rightarrow> bool"
  assumes alloc_oom: "rep s A U \<Longrightarrow> avail s = 0 \<Longrightarrow> alloc s = Some ((PHYSMEM_ERR_OOM, None), s)"
    and alloc_ok: "rep s A U \<Longrightarrow> 0 < avail s \<Longrightarrow>
      \<exists>a s'. alloc s = Some ((PHYSMEM_SUCCESS, Some a), s') \<and> a \<in> A \<and>
        rep s' (A - {a}) (U - {a}) \<and> avail s = Suc (avail s')"
    and free_ok: "rep s A U \<Longrightarrow> a \<notin> U \<Longrightarrow> a mod 4096 = 0 \<Longrightarrow>
      \<exists>s'. free a s = Some (PHYSMEM_SUCCESS, s') \<and> rep s' (insert a A) (insert a U) \<and>
        avail s' = Suc (avail s)"
    and rep_sub: "rep s A U \<Longrightarrow> A \<subseteq> U"
    and rep_aligned: "rep s A U \<Longrightarrow> a \<in> A \<Longrightarrow> a mod 4096 = 0"
begin

lemma take_pages_ok:
  "rep s A U \<Longrightarrow> n \<le> avail s \<Longrightarrow>
     \<exists>as s'. take_pages alloc n s = Some (as, s') \<and> length as = n \<and> distinct as \<and> set as \<subseteq> A \<and>
       rep s' (A - set as) (U - set as) \<and> avail s = avail s' + n"
proof (induction n arbitrary: s A U)
  case 0
  then show ?case by simp
next
  case (Suc n)
  then have pos: "0 < avail s" by simp
  obtain a s1 where a: "alloc s = Some ((PHYSMEM_SUCCESS, Some a), s1)" "a \<in> A"
    "rep s1 (A - {a}) (U - {a})" "avail s = Suc (avail s1)"
    using alloc_ok[OF Suc.prems(1) pos] by blast
  obtain as s' where as: "take_pages alloc n s1 = Some (as, s')" "length as = n" "distinct as"
    "set as \<subseteq> A - {a}" "rep s' (A - {a} - set as) (U - {a} - set as)" "avail s1 = avail s' + n"
    using Suc.IH[OF a(3)] Suc.prems(2) a(4) by auto
  have "take_pages alloc (Suc n) s = Some (a # as, s')" using a(1) as(1) by simp
  moreover have "A - {a} - set as = A - set (a # as)" "U - {a} - set as = U - set (a # as)" by auto
  ultimately show ?case using a as by (intro exI[of _ "a # as"] exI[of _ s']) auto
qed

lemma take_all_then_oom:
  assumes "rep s A U"
  shows "\<exists>as s'. take_pages alloc (avail s) s = Some (as, s') \<and>
    alloc s' = Some ((PHYSMEM_ERR_OOM, None), s')"
proof -
  obtain as s' where t: "take_pages alloc (avail s) s = Some (as, s')"
    "rep s' (A - set as) (U - set as)" "avail s = avail s' + avail s"
    using take_pages_ok[OF assms order_refl] by blast
  then show ?thesis using alloc_oom[OF t(2)] by auto
qed

lemma alloc_free:
  assumes "rep s A U" and "0 < avail s"
  shows "\<exists>a s1 s2. alloc s = Some ((PHYSMEM_SUCCESS, Some a), s1) \<and>
     free a s1 = Some (PHYSMEM_SUCCESS, s2) \<and> rep s2 A U \<and> avail s2 = avail s"
proof -
  obtain a s1 where a: "alloc s = Some ((PHYSMEM_SUCCESS, Some a), s1)" "a \<in> A"
    "rep s1 (A - {a}) (U - {a})" "avail s = Suc (avail s1)"
    using alloc_ok[OF assms] by blast
  obtain s2 where "free a s1 = Some (PHYSMEM_SUCCESS, s2)"
    "rep s2 (insert a (A - {a})) (insert a (U - {a}))" "avail s2 = Suc (avail s1)"
    using free_ok[OF a(3), of a] rep_aligned[OF assms(1) a(2)] by auto
  moreover have "insert a (A - {a}) = A" "insert a (U - {a}) = U"
    using a(2) rep_sub[OF assms(1)] by auto
  ultimately show ?thesis using a by auto
qed

end

subsection \<open>The i686 allocator provides it\<close>

definition source_rep ::
  "(physmem_ptr \<Rightarrow> nat) \<Rightarrow> physmem_ptr \<Rightarrow> virtaddr_t \<Rightarrow>
   pm_state \<Rightarrow> physaddr_t set \<Rightarrow> physaddr_t set \<Rightarrow> bool" where
  "source_rep k src start s A U \<longleftrightarrow>
     (\<exists>H. i686_conf s src start \<and> pm_inv k {src} start s H \<and>
          A = set (stock start s H src) \<and> U = addr_of start ` members H)"

definition source_avail :: "physmem_ptr \<Rightarrow> pm_state \<Rightarrow> nat" where
  "source_avail src s = unat (free_pages (pm_obj s src))"

lemma physmem_page_alloc_i686 [pm_simps]:
  "i686_conf s src start \<Longrightarrow> physmem_page_alloc src node s = common_physmem_page_alloc src node s"
  by (simp add: physmem_page_alloc_def i686_conf_def i686_physmem_v_def call_common_page_alloc)

lemma physmem_page_free_i686 [pm_simps]:
  "i686_conf s src start \<Longrightarrow> physmem_page_free src a s = common_physmem_page_free src a s"
  by (simp add: physmem_page_free_def i686_conf_def i686_physmem_v_def call_common_page_free)

lemma stock_subset: "set (stock start s H p) \<subseteq> addr_of start ` members H"
  by (auto simp: stock_def members_def dest!: in_set_takeD)

lemma stock_distinct:
  assumes "pm_inv k P start s H"
  shows "distinct (stock start s H p)"
proof -
  have "set (take n (H (Freelist p))) \<subseteq> range (page_of start)" for n
    using pm_inv_on_table[OF assms] by (auto dest: in_set_takeD)
  then show ?thesis
    using linked_distinct[OF pm_invD(1)[OF assms], of "Freelist p"] addr_of_inj
    by (auto simp: stock_def distinct_map intro: inj_on_subset)
qed

lemma stock_disjoint:
  assumes inv: "pm_inv k P start s H" and "p \<noteq> p'"
  shows "set (stock start s H p) \<inter> set (stock start s H p') = {}"
proof -
  have "x = y" if "x \<in> set (H (Freelist p))" "y \<in> set (H (Freelist p'))" "addr_of start x = addr_of start y" for x y
    using that addr_of_inj pm_inv_on_table[OF inv] by (metis inj_onD)
  then show ?thesis
    using linked_disjoint[OF pm_invD(1)[OF inv], of "Freelist p" "Freelist p'"] assms(2)
    by (fastforce simp: stock_def dest: in_set_takeD)
qed

lemma addr_of_aligned: "addr_of start page mod 4096 = 0"
  by (simp add: addr_of_def page_multiple_mod)

lemma addr_of_image_remove:
  assumes "M \<subseteq> range (page_of start)" and "a mod 4096 = 0"
  shows "addr_of start ` (M - {page_of start a}) = addr_of start ` M - {a}"
proof -
  have "addr_of start x = a \<longleftrightarrow> x = page_of start a" if "x \<in> M" for x
    using that assms page_of_addr_of page_of_aligned by (metis subsetD)
  then show ?thesis by auto
qed

lemma source_alloc_ok:
  assumes rep: "source_rep k src start s A U" and pos: "0 < source_avail src s"
  shows "\<exists>a s'. physmem_page_alloc src node s = Some ((PHYSMEM_SUCCESS, Some a), s') \<and> a \<in> A \<and>
    source_rep k src start s' (A - {a}) (U - {a}) \<and> source_avail src s = Suc (source_avail src s')"
proof -
  obtain H where ic: "i686_conf s src start" and inv: "pm_inv k {src} start s H"
    and A: "A = set (stock start s H src)" and U: "U = addr_of start ` members H"
    using rep by (auto simp: source_rep_def)
  have nz: "free_pages (pm_obj s src) \<noteq> 0" using pos by (auto simp: source_avail_def)
  have sv: "serves s src start src" using ic by (simp add: serves_def)
  obtain page rest q where H: "H (Freelist src) = page # rest"
    and al: "common_physmem_page_alloc src node s =
       Some ((PHYSMEM_SUCCESS, Some (addr_of start page)),
             (upd_obj src (free_pages_update (\<lambda>n. n - 1)) s)\<lparr>pm_pages := q\<rparr>)"
    and q: "linked q (H(Freelist src := rest))"
    by (rule common_alloc_ok[OF inv _ sv nz]) auto
  let ?s' = "(upd_obj src (free_pages_update (\<lambda>n. n - 1)) s)\<lparr>pm_pages := q\<rparr>"
  let ?a = "addr_of start page"
  have sc: "same_conf s ?s'" by (simp add: same_conf_upd_obj)
  have n: "unat (free_pages (pm_obj s src)) = Suc (unat (free_pages (pm_obj s src) - 1))"
    using unat_dec[OF nz] nz by (simp add: unat_gt_0[symmetric] del: unat_gt_0)
  have st: "stock start s H src = ?a # stock start ?s' (H(Freelist src := rest)) src"
    using H n by (simp add: stock_def upd_obj_def)
  have tab: "page \<in> range (page_of start)"
    using pm_inv_on_table[OF inv, of page "Freelist src"] H by simp
  have U': "addr_of start ` members (H(Freelist src := rest)) = U - {?a}"
    using dl.members_popped[of "pm_pages s" H "Freelist src" page rest, OF pm_invD(1)[OF inv] H]
      addr_of_image_remove[OF pm_invD(2)[OF inv] addr_of_aligned[of start page]] page_of_addr_of[OF tab] U
    by simp
  have "?a \<notin> set (stock start ?s' (H(Freelist src := rest)) src)"
    using stock_distinct[OF inv, of src] st by simp
  then have A': "set (stock start ?s' (H(Freelist src := rest)) src) = A - {?a}" "?a \<in> A"
    using st A by auto
  have "source_rep k src start ?s' (A - {?a}) (U - {?a})"
    using pm_inv_after_alloc[OF inv nz H q] same_conf_conf(1)[OF sc] ic A' U'
    unfolding source_rep_def by blast
  moreover have "source_avail src s = Suc (source_avail src ?s')"
    using n by (simp add: source_avail_def upd_obj_def)
  ultimately show ?thesis using al A'(2) ic by (auto simp: physmem_page_alloc_i686)
qed

lemma source_free_ok:
  assumes rep: "source_rep k src start s A U" and new: "a \<notin> U" and al: "a mod 4096 = 0"
  shows "\<exists>s'. physmem_page_free src a s = Some (PHYSMEM_SUCCESS, s') \<and>
    source_rep k src start s' (insert a A) (insert a U) \<and>
    source_avail src s' = Suc (source_avail src s)"
proof -
  obtain H where ic: "i686_conf s src start" and inv: "pm_inv k {src} start s H"
    and A: "A = set (stock start s H src)" and U: "U = addr_of start ` members H"
    using rep by (auto simp: source_rep_def)
  have sv: "serves s src start src" using ic by (simp add: serves_def)
  have fresh: "page_of start a \<notin> members H" using new U page_of_aligned[OF al, of start] by force
  let ?s' = "upd_obj src (free_pages_update (\<lambda>n. n + 1))
      (s\<lparr>pm_pages := LIST_INSERT_HEAD (Freelist src) (page_of start a) (pm_pages s)\<rparr>)"
  let ?H' = "H(Freelist src := page_of start a # H (Freelist src))"
  have sc: "same_conf s ?s'" by (simp add: same_conf_def upd_obj_def)
  have inv': "pm_inv k {src} start ?s' ?H'"
    by (rule pm_inv_after_insert[OF inv fresh]) simp_all
  have "unat (free_pages (pm_obj s src)) + 1 < 2 ^ LENGTH(32)"
    using pm_invD(3)[OF inv, of src] pm_inv_length[OF inv, of "Freelist src"] by simp
  note n = unat_inc[OF this]
  have "set (stock start ?s' ?H' src) = insert a A"
    using n A page_of_aligned[OF al, of start] by (simp add: stock_def upd_obj_def)
  moreover have "addr_of start ` members ?H' = insert a U"
    unfolding members_push using U page_of_aligned[OF al, of start] by simp
  ultimately have "source_rep k src start ?s' (insert a A) (insert a U)"
    using inv' ic same_conf_conf(1)[OF sc] unfolding source_rep_def by blast
  moreover have "source_avail src ?s' = Suc (source_avail src s)"
    using n by (simp add: source_avail_def upd_obj_def)
  ultimately show ?thesis using common_free_ok[OF sv, of a] ic by (auto simp: physmem_page_free_i686)
qed

interpretation source: page_allocator
  "physmem_page_alloc src node" "physmem_page_free src" "source_avail src" "source_rep k src start"
  for src node k start
proof
  fix s A U assume "source_rep k src start s A U" "source_avail src s = 0"
  then show "physmem_page_alloc src node s = Some ((PHYSMEM_ERR_OOM, None), s)"
    by (auto simp: source_rep_def source_avail_def physmem_page_alloc_i686 unat_eq_0
        intro: common_alloc_oom)
next
  fix s A U a assume "source_rep k src start s A U"
  then show "A \<subseteq> U" by (auto simp: source_rep_def dest: subsetD[OF stock_subset])
next
  fix s A U a assume "source_rep k src start s A U" "a \<in> A"
  then show "a mod 4096 = 0" by (auto simp: source_rep_def stock_def addr_of_aligned)
qed (rule source_alloc_ok source_free_ok; assumption)+

subsection \<open>The feeder provides it\<close>

lemma feeder_refill_mset:
  "mset (fst (feeder_refill keep minf (L, S))) + mset (snd (feeder_refill keep minf (L, S))) =
     mset L + mset S"
proof -
  have "mset (take t S) + mset (drop t S) = mset S" for t
    using mset_append[of "take t S" "drop t S"] by simp
  then show ?thesis by (simp add: feeder_refill_def Let_def)
qed

lemma feeder_alloc_spec_mset:
  assumes "feeder_alloc_spec keep minf (L, S) = Some (a, (L', S'))"
  shows "mset L + mset S = add_mset a (mset L' + mset S')"
proof -
  obtain L1 S1 where r: "feeder_refill keep minf (L, S) = (L1, S1)" by fastforce
  have "mset L1 + mset S1 = add_mset a (mset L' + mset S')"
    using assms r by (auto simp: feeder_alloc_spec_def split: list.splits)
  with feeder_refill_mset[of keep minf L S] r show ?thesis by simp
qed

lemma feeder_alloc_spec_None: "feeder_alloc_spec keep minf (L, S) = None \<longleftrightarrow> L = [] \<and> S = []"
  by (auto simp: feeder_alloc_spec_def feeder_refill_def Let_def refill_amount_def
      split: list.splits prod.splits)

definition feeder_set_rep ::
  "(physmem_ptr \<Rightarrow> nat) \<Rightarrow> physmem_ptr \<Rightarrow> physmem_ptr \<Rightarrow> virtaddr_t \<Rightarrow> u32 \<Rightarrow> u32 \<Rightarrow>
   pm_state \<Rightarrow> physaddr_t set \<Rightarrow> physaddr_t set \<Rightarrow> bool" where
  "feeder_set_rep k src fd start keep minf s A U \<longleftrightarrow>
     (\<exists>H. feeder_rep k src fd start keep minf s H \<and>
          A = set (stock start s H fd) \<union> set (stock start s H src) \<and>
          U = addr_of start ` members H)"

definition feeder_avail :: "physmem_ptr \<Rightarrow> physmem_ptr \<Rightarrow> pm_state \<Rightarrow> nat" where
  "feeder_avail src fd s = unat (free_pages (pm_obj s fd)) + unat (free_pages (pm_obj s src))"

lemma feeder_rep_stocks:
  assumes "feeder_rep k src fd start keep minf s H"
  shows "feeder_avail src fd s = size (mset (stock start s H fd) + mset (stock start s H src))"
    and "distinct (stock start s H fd @ stock start s H src)"
proof -
  have inv: "pm_inv k {src, fd} start s H" and "fd \<noteq> src"
    using assms by (auto simp: feeder_rep_def feeder_conf_def)
  then show "feeder_avail src fd s = size (mset (stock start s H fd) + mset (stock start s H src))"
    by (simp add: feeder_avail_def length_stock[OF inv])
  show "distinct (stock start s H fd @ stock start s H src)"
    using stock_distinct[OF inv] stock_disjoint[OF inv \<open>fd \<noteq> src\<close>] by simp
qed

lemma feeder_alloc_ok:
  assumes rep: "feeder_set_rep k src fd start keep minf s A U" and pos: "0 < feeder_avail src fd s"
  shows "\<exists>a s'. physmem_page_alloc fd node s = Some ((PHYSMEM_SUCCESS, Some a), s') \<and> a \<in> A \<and>
    feeder_set_rep k src fd start keep minf s' (A - {a}) (U - {a}) \<and>
    feeder_avail src fd s = Suc (feeder_avail src fd s')"
proof -
  obtain H where fr: "feeder_rep k src fd start keep minf s H"
    and A: "A = set (stock start s H fd) \<union> set (stock start s H src)"
    and U: "U = addr_of start ` members H"
    using rep by (auto simp: feeder_set_rep_def)
  let ?L = "stock start s H fd" and ?S = "stock start s H src"
  have "feeder_alloc_spec (unat keep) (unat minf) (?L, ?S) \<noteq> None"
    using feeder_rep_stocks(1)[OF fr] pos unfolding feeder_alloc_spec_None by auto
  then obtain a L' S' where spec: "feeder_alloc_spec (unat keep) (unat minf) (?L, ?S) = Some (a, (L', S'))"
    by auto
  obtain s' H' where al: "physmem_page_alloc fd node s = Some ((PHYSMEM_SUCCESS, Some a), s')"
    and fr': "feeder_rep k src fd start keep minf s' H'"
    and st: "stock start s' H' fd = L'" "stock start s' H' src = S'"
    and mem: "members H' = members H - {page_of start a}"
    using feeder_page_alloc_refines[OF fr, of node] spec by auto
  note ms = feeder_alloc_spec_mset[OF spec]
  have eq: "mset (?L @ ?S) = mset (a # L' @ S')" using ms by simp
  have "distinct (a # L' @ S')"
    using feeder_rep_stocks(2)[OF fr] mset_eq_imp_distinct_iff[OF eq] by simp
  moreover have "A = set (a # L' @ S')" using A mset_eq_setD[OF eq] by simp
  ultimately have A': "set L' \<union> set S' = A - {a}" "a \<in> A" by auto
  have aligned: "a mod 4096 = 0" using A'(2) A by (auto simp: stock_def addr_of_aligned)
  have tab: "members H \<subseteq> range (page_of start)"
    using fr pm_invD(2) unfolding feeder_rep_def by blast
  have "U - {a} = addr_of start ` members H'"
    using mem addr_of_image_remove[OF tab aligned] U by simp
  then have "feeder_set_rep k src fd start keep minf s' (A - {a}) (U - {a})"
    unfolding feeder_set_rep_def using fr' st A'(1) by (intro exI[of _ H']) simp
  moreover have "feeder_avail src fd s = Suc (feeder_avail src fd s')"
    using feeder_rep_stocks(1)[OF fr] feeder_rep_stocks(1)[OF fr'] ms st by simp
  ultimately show ?thesis using al A'(2) by blast
qed

lemma feeder_free_ok:
  assumes rep: "feeder_set_rep k src fd start keep minf s A U"
    and new: "a \<notin> U" and al: "a mod 4096 = 0"
  shows "\<exists>s'. physmem_page_free fd a s = Some (PHYSMEM_SUCCESS, s') \<and>
    feeder_set_rep k src fd start keep minf s' (insert a A) (insert a U) \<and>
    feeder_avail src fd s' = Suc (feeder_avail src fd s)"
proof -
  obtain H where fr: "feeder_rep k src fd start keep minf s H"
    and A: "A = set (stock start s H fd) \<union> set (stock start s H src)"
    and U: "U = addr_of start ` members H"
    using rep by (auto simp: feeder_set_rep_def)
  have fresh: "page_of start a \<notin> members H" using new U page_of_aligned[OF al, of start] by force
  obtain s' H' where f: "physmem_page_free fd a s = Some (PHYSMEM_SUCCESS, s')"
    and fr': "feeder_rep k src fd start keep minf s' H'"
    and st: "(stock start s' H' fd, stock start s' H' src) =
       feeder_free_spec (unat minf) a (stock start s H fd, stock start s H src)"
    and mem: "members H' = insert (page_of start a) (members H)"
    using feeder_page_free_refines[OF fr fresh al] by blast
  have "set (stock start s' H' fd) \<union> set (stock start s' H' src) = insert a A"
    using st A by (auto simp: feeder_free_spec_def split: if_splits)
  then have "feeder_set_rep k src fd start keep minf s' (insert a A) (insert a U)"
    unfolding feeder_set_rep_def
    by (intro exI[of _ H']) (use fr' mem U page_of_aligned[OF al, of start] in auto)
  moreover have "feeder_avail src fd s' = Suc (feeder_avail src fd s)"
    using feeder_rep_stocks(1)[OF fr] feeder_rep_stocks(1)[OF fr'] st
    by (auto simp: feeder_free_spec_def split: if_splits)
  ultimately show ?thesis using f by blast
qed

interpretation feeder: page_allocator
  "physmem_page_alloc fd node" "physmem_page_free fd" "feeder_avail src fd"
  "feeder_set_rep k src fd start keep minf"
  for fd node src k start keep minf
proof
  fix s A U assume rep: "feeder_set_rep k src fd start keep minf s A U" and av: "feeder_avail src fd s = 0"
  then obtain H where fr: "feeder_rep k src fd start keep minf s H" by (auto simp: feeder_set_rep_def)
  then have "feeder_alloc_spec (unat keep) (unat minf) (stock start s H fd, stock start s H src) = None"
    using feeder_rep_stocks(1)[OF fr] av unfolding feeder_alloc_spec_None by auto
  then show "physmem_page_alloc fd node s = Some ((PHYSMEM_ERR_OOM, None), s)"
    using feeder_page_alloc_refines[OF fr, of node] by simp
next
  fix s A U a assume "feeder_set_rep k src fd start keep minf s A U"
  then show "A \<subseteq> U" by (auto simp: feeder_set_rep_def dest: subsetD[OF stock_subset])
next
  fix s A U a assume "feeder_set_rep k src fd start keep minf s A U" "a \<in> A"
  then show "a mod 4096 = 0" by (auto simp: feeder_set_rep_def stock_def addr_of_aligned)
qed (rule feeder_alloc_ok feeder_free_ok; assumption)+


subsection \<open>Creating a feeder\<close>

lemma feeder_create_rep:
  assumes inv: "pm_inv k {src} start s H" and ic: "i686_conf s src start"
    and ne: "fd \<noteq> src" and empty: "H (Freelist fd) = []" and kb: "unat keep + 1 < 2 ^ 32"
    and k: "k fd = 0"
  shows "feeder_rep k src fd start keep minf (feeder_physmem_create fd src keep minf s) H"
proof -
  let ?s = "feeder_physmem_create fd src keep minf s"
  have "linked (pm_pages ?s) (H(Freelist fd := []))"
    using LIST_INIT_linked[OF pm_invD(1)[OF inv]] by (simp add: feeder_physmem_create_def Let_def)
  moreover have "H(Freelist fd := []) = H" using empty by auto
  ultimately have "pm_inv k {src, fd} start ?s H"
    using inv ne empty k by (simp add: pm_inv_def feeder_physmem_create_def Let_def)
  moreover have "i686_conf ?s src start" "feeder_conf ?s src fd keep minf"
    using ic ne
    by (simp_all add: i686_conf_def feeder_conf_def feeder_physmem_create_def Let_def as_i686_def
        as_feeder_def feeder_physmem_v_def i686_physmem_v_def)
  ultimately show ?thesis using kb by (simp add: feeder_rep_def)
qed

subsection \<open>A concrete state\<close>

text \<open>An i686 allocator at address 1 with the frames \<open>0x1000\<close> and \<open>0x2000\<close> free, and the
  state after a feeder was created at address 2.\<close>

definition example_table :: virtaddr_t where
  "example_table = 0xC0400000"

definition example_pool :: pm_state where
  "example_pool =
     \<lparr>pm_pages =
        \<lparr>lh_first = (\<lambda>_. None)(Freelist 1 \<mapsto> example_table + 12),
         le_next = (\<lambda>_. None)(example_table + 12 \<mapsto> example_table + 24),
         le_prev = (\<lambda>_. None)(example_table + 12 \<mapsto> Head_cell (Freelist 1),
                               example_table + 24 \<mapsto> Next_cell (example_table + 12))\<rparr>,
      pm_obj = (\<lambda>_. \<lparr>pm_parent = 0, pm_name = ''i686'', pm_v = i686_physmem_v, total_pages = 2,
                     free_pages = 2,
                     pm_sub = I686_sub \<lparr>start_address = example_table, last_address = 0xC0400024\<rparr>\<rparr>)\<rparr>"

definition example_lists :: "physmem_head \<Rightarrow> page_ptr list" where
  "example_lists = (\<lambda>_. [])(Freelist 1 := [example_table + 12, example_table + 24])"

lemma example_pool_inv: "pm_inv (\<lambda>_. 0) {1} example_table example_pool example_lists"
proof -
  have "linked (pm_pages example_pool) example_lists"
    by (auto simp: linked_def example_lists_def example_pool_def example_table_def)
  moreover have "example_table + 12 = page_of example_table 0x1000"
    "example_table + 24 = page_of example_table 0x2000"
    by (simp_all add: page_of_def)
  then have "members example_lists \<subseteq> range (page_of example_table)"
    by (auto simp: members_def example_lists_def split: if_splits)
  ultimately show ?thesis by (simp add: pm_inv_def example_lists_def example_pool_def)
qed

lemma example_pool_conf: "i686_conf example_pool 1 example_table"
  by (simp add: i686_conf_def example_pool_def as_i686_def)

lemma example_pool_source:
  "source_rep (\<lambda>_. 0) 1 example_table example_pool {0x1000, 0x2000} {0x1000, 0x2000}"
proof -
  have "members example_lists = {example_table + 12, example_table + 24}"
    by (auto simp: members_def example_lists_def split: if_splits)
  then have "addr_of example_table ` members example_lists = {0x1000, 0x2000}"
    by (simp add: addr_of_def)
  moreover have "stock example_table example_pool example_lists 1 = [0x1000, 0x2000]"
    by (simp add: stock_def example_lists_def example_pool_def addr_of_def)
  ultimately show ?thesis
    using example_pool_inv example_pool_conf unfolding source_rep_def by force
qed

definition example_feeder :: pm_state where
  "example_feeder = feeder_physmem_create 2 1 1 0 example_pool"

lemma example_feeder_rep:
  "feeder_rep (\<lambda>_. 0) 1 2 example_table 1 0 example_feeder example_lists"
  unfolding example_feeder_def
  by (rule feeder_create_rep[OF example_pool_inv example_pool_conf]) (simp_all add: example_lists_def)

lemma example_feeder_stocks:
  "stock example_table example_feeder example_lists 1 = [0x1000, 0x2000]"
  "stock example_table example_feeder example_lists 2 = []"
  by (simp_all add: stock_def example_lists_def example_feeder_def example_pool_def addr_of_def
      feeder_physmem_create_def)

lemma example_feeder_set_rep:
  "feeder_set_rep (\<lambda>_. 0) 1 2 example_table 1 0 example_feeder {0x1000, 0x2000} {0x1000, 0x2000}"
proof -
  have "members example_lists = {example_table + 12, example_table + 24}"
    by (auto simp: members_def example_lists_def split: if_splits)
  then have "addr_of example_table ` members example_lists = {0x1000, 0x2000}"
    by (simp add: addr_of_def)
  then show ?thesis
    using example_feeder_rep example_feeder_stocks unfolding feeder_set_rep_def by force
qed

section \<open>Properties\<close>





text \<open>
  C4.  As many allocations through a feeder as there are pages in the feeder and its source
  together succeed, they return distinct page aligned frames that were free, no frame is handed
  out that is still on a list afterwards, and the next allocation reports
  \<^verbatim>\<open>PHYSMEM_ERR_OOM\<close>.
\<close>

theorem feeder_pages_handed_out_once:
  assumes "feeder_set_rep k src fd start keep minf s A U" and "n \<le> feeder_avail src fd s"
  shows "\<exists>as s'. take_pages (physmem_page_alloc fd node) n s = Some (as, s') \<and>
    length as = n \<and> distinct as \<and> set as \<subseteq> A \<and> (\<forall>a\<in>set as. a mod 4096 = 0) \<and>
    feeder_set_rep k src fd start keep minf s' (A - set as) (U - set as) \<and>
    (n = feeder_avail src fd s \<longrightarrow>
       physmem_page_alloc fd node s' = Some ((PHYSMEM_ERR_OOM, None), s'))"
proof -
  obtain as s' where t: "take_pages (physmem_page_alloc fd node) n s = Some (as, s')"
    "length as = n" "distinct as" "set as \<subseteq> A"
    "feeder_set_rep k src fd start keep minf s' (A - set as) (U - set as)"
    "feeder_avail src fd s = feeder_avail src fd s' + n"
    using feeder.take_pages_ok[OF assms] by blast
  moreover have "\<forall>a\<in>set as. a mod 4096 = 0" using t(4) feeder.rep_aligned[OF assms(1)] by blast
  ultimately show ?thesis using feeder.alloc_oom[OF t(5)] by auto
qed

theorem feeder_pages_handed_out_once_witness:
  "\<exists>as s'. take_pages (physmem_page_alloc 2 0) 2 example_feeder = Some (as, s') \<and>
     set as = {0x1000, 0x2000} \<and> physmem_page_alloc 2 0 s' = Some ((PHYSMEM_ERR_OOM, None), s')"
proof -
  have av: "feeder_avail 1 2 example_feeder = 2"
    by (simp add: feeder_avail_def example_feeder_def feeder_physmem_create_def example_pool_def)
  obtain as s' where as: "take_pages (physmem_page_alloc 2 0) 2 example_feeder = Some (as, s')"
    "length as = 2" "distinct as" "set as \<subseteq> {0x1000, 0x2000}"
    "physmem_page_alloc 2 0 s' = Some ((PHYSMEM_ERR_OOM, None), s')"
    using feeder_pages_handed_out_once[OF example_feeder_set_rep, of 2 0] av by auto
  have "card (set as) = 2" using as(2,3) distinct_card by metis
  then have "set as = {0x1000, 0x2000}" using as(4) by (intro card_subset_eq) auto
  with as show ?thesis by blast
qed

text \<open>
  On the kernel's page allocator an allocation followed by a free of the same page is
  invisible: the set of free pages, the pages on lists and the number of free pages are as before.
\<close>

theorem source_alloc_free_roundtrip:
  assumes "source_rep k src start s A U" and "0 < source_avail src s"
  shows "\<exists>a s1 s2. physmem_page_alloc src node s = Some ((PHYSMEM_SUCCESS, Some a), s1) \<and>
     a \<in> A \<and> physmem_page_free src a s1 = Some (PHYSMEM_SUCCESS, s2) \<and>
     source_rep k src start s2 A U \<and> source_avail src s2 = source_avail src s"
  using source.alloc_free[OF assms, of node] source.alloc_ok[OF assms, of node] by auto

theorem source_alloc_free_roundtrip_witness:
  "\<exists>a s1 s2. physmem_page_alloc 1 0 example_pool = Some ((PHYSMEM_SUCCESS, Some a), s1) \<and>
     physmem_page_free 1 a s1 = Some (PHYSMEM_SUCCESS, s2) \<and>
     source_rep (\<lambda>_. 0) 1 example_table s2 {0x1000, 0x2000} {0x1000, 0x2000}"
proof -
  have "0 < source_avail 1 example_pool" by (simp add: source_avail_def example_pool_def)
  from source_alloc_free_roundtrip[OF example_pool_source this, of 0] show ?thesis by blast
qed

text \<open>
  The page table numbering is a bijection between page aligned physical addresses and
  entries of the table, seen through the allocator or through a feeder on it.
\<close>

theorem page_numbering_roundtrip:
  assumes "serves s src start p" and "a mod 4096 = 0"
  shows "\<exists>page. physmem_phys_to_page s p a = Some page \<and> physmem_page_to_phys s p page = Some a"
  using assms by (simp add: serves_phys_to_page serves_page_to_phys page_of_aligned del: addr_of_page_of)

theorem page_numbering_roundtrip_witness:
  "\<exists>page. physmem_phys_to_page example_feeder 2 0x7000 = Some page \<and>
     physmem_page_to_phys example_feeder 2 page = Some 0x7000"
proof -
  have "serves example_feeder 1 example_table 2"
    using example_feeder_rep by (auto simp: feeder_rep_def serves_def)
  from page_numbering_roundtrip[OF this, of "0x7000"] show ?thesis by simp
qed

text \<open>
  C5.  A feeder stacked on a feeder does not work: when it has enough local pages, its allocation
  calls the source's allocation function on itself, which is its own function again, and the call
  never returns.
\<close>

definition stacked :: "physmem_ptr \<Rightarrow> pm_state \<Rightarrow> bool" where
  "stacked p s \<longleftrightarrow>
     (case as_feeder s p of
        None \<Rightarrow> False
      | Some f \<Rightarrow> vf_page_alloc (pm_v (pm_obj s p)) = Feeder_physmem_page_alloc \<and>
                  vf_page_alloc (pm_v (pm_obj s (source f))) = Feeder_physmem_page_alloc \<and>
                  free_pages (pm_obj s p) \<ge> pages_to_keep f + 1 \<and> free_pages (pm_obj s p) > 0)"

lemma stacked_call:
  "call_page_alloc node g p s = Some r \<Longrightarrow> \<not> (g = Feeder_physmem_page_alloc \<and> stacked p s)"
proof (rule call_page_alloc.raw_induct
    [where P = "\<lambda>_ g p s _. \<not> (g = Feeder_physmem_page_alloc \<and> stacked p s)"])
  fix call :: "u8 \<Rightarrow> alloc_call" and node g p s r
  assume IH: "\<And>node g p s r. call node g p s = Some r \<Longrightarrow>
      \<not> (g = Feeder_physmem_page_alloc \<and> stacked p s)"
    and body: "(case g of Common_physmem_page_alloc \<Rightarrow> common_physmem_page_alloc p node s
      | Feeder_physmem_page_alloc \<Rightarrow> feeder_physmem_page_alloc (call node) p node s) = Some r"
  show "\<not> (g = Feeder_physmem_page_alloc \<and> stacked p s)"
  proof
    assume st: "g = Feeder_physmem_page_alloc \<and> stacked p s"
    then obtain f where f: "as_feeder s p = Some f"
      by (auto simp: stacked_def split: option.splits)
    with body st have "call node Feeder_physmem_page_alloc p s = Some r"
      by (auto simp: stacked_def feeder_physmem_page_alloc_def not_less split: if_splits)
    from IH[OF this] st show False by simp
  qed
qed


text \<open>A second feeder at address 3, on the feeder at address 2, that was given one page.\<close>

definition example_stacked :: pm_state where
  "example_stacked = upd_obj 3 (free_pages_update (\<lambda>_. 1)) (feeder_physmem_create 3 2 0 0 example_feeder)"


end
