(* ===== verification/Cmem.thy ===== *)
theory Cmem
  imports Prelude
begin

text \<open>
  Byte memory as the C functions see it, the block functions of \<^verbatim>\<open>src/sys/lib/strfuncs.c\<close>
  and the arithmetic helpers of \<^verbatim>\<open>src/sys/include/math.h\<close>.  A function that accesses memory
  takes the byte accesses as arguments: \<open>ld a s\<close> reads the byte at address \<open>a\<close> and
  \<open>st a v s\<close> writes it, and both are \<^term>\<open>None\<close> when the address is not mapped.  The
  interface \<open>addressed_memory\<close> says what two such functions must satisfy; it is met by a flat
  memory here and by the kernel's paged memory in the theory of paging.
\<close>

type_synonym 's load8 = "virtaddr_t \<Rightarrow> 's \<Rightarrow> u8 option"
type_synonym 's store8 = "virtaddr_t \<Rightarrow> u8 \<Rightarrow> 's \<Rightarrow> 's option"

section \<open>Helpers of math.h\<close>

definition maxl :: "u32 \<Rightarrow> u32 \<Rightarrow> u32" where
  "maxl a b = (if sint a > sint b then a else b)"

definition minl :: "u32 \<Rightarrow> u32 \<Rightarrow> u32" where
  "minl a b = (if sint a < sint b then a else b)"

definition bittestl :: "u32 \<Rightarrow> u32 \<Rightarrow> bool" where
  "bittestl field msk = (field AND msk = msk)"

definition bitsetl :: "u32 \<Rightarrow> u32 \<Rightarrow> u32" where
  "bitsetl field msk = field OR msk"

definition bitclearl :: "u32 \<Rightarrow> u32 \<Rightarrow> u32" where
  "bitclearl field msk = field AND NOT msk"

section \<open>Block functions\<close>

text \<open>\<^verbatim>\<open>while (len--) *d++ = (char)c;\<close>\<close>

primrec memset_loop :: "'s store8 \<Rightarrow> nat \<Rightarrow> virtaddr_t \<Rightarrow> u8 \<Rightarrow> 's \<Rightarrow> 's option" where
  "memset_loop st 0 d c s = Some s"
| "memset_loop st (Suc len) d c s = do { s1 \<leftarrow> st d c s; memset_loop st len (d + 1) c s1 }"

definition memset :: "'s store8 \<Rightarrow> virtaddr_t \<Rightarrow> u32 \<Rightarrow> c_size_t \<Rightarrow> 's \<Rightarrow> (virtaddr_t \<times> 's) option" where
  "memset st dst c len s = do {
     s1 \<leftarrow> memset_loop st (unat len) dst (ucast c) s;
     Some (dst, s1)
   }"

text \<open>\<^verbatim>\<open>while (siz--) *d++ = *s++;\<close>\<close>

primrec memcpy_loop ::
  "'s load8 \<Rightarrow> 's store8 \<Rightarrow> nat \<Rightarrow> virtaddr_t \<Rightarrow> virtaddr_t \<Rightarrow> 's \<Rightarrow> 's option" where
  "memcpy_loop ld st 0 d src s = Some s"
| "memcpy_loop ld st (Suc siz) d src s = do {
     c \<leftarrow> ld src s;
     s1 \<leftarrow> st d c s;
     memcpy_loop ld st siz (d + 1) (src + 1) s1
   }"

definition memcpy ::
  "'s load8 \<Rightarrow> 's store8 \<Rightarrow> virtaddr_t \<Rightarrow> virtaddr_t \<Rightarrow> c_size_t \<Rightarrow> 's \<Rightarrow> (virtaddr_t \<times> 's) option" where
  "memcpy ld st dst src siz s = do {
     s1 \<leftarrow> memcpy_loop ld st (unat siz) dst src s;
     Some (dst, s1)
   }"

section \<open>The interface of an addressed memory\<close>

text \<open>
  \<open>loc s a\<close> is the cell that address \<open>a\<close> denotes, if any (two addresses may denote the same
  cell), \<open>get\<close> and \<open>put\<close> access a cell, and \<open>rest\<close> is the part of the state that is not
  memory.
\<close>

locale addressed_memory =
  fixes ld :: "'s load8" and st :: "'s store8"
    and loc :: "'s \<Rightarrow> virtaddr_t \<Rightarrow> 'l option"
    and get :: "'s \<Rightarrow> 'l \<Rightarrow> u8" and put :: "'l \<Rightarrow> u8 \<Rightarrow> 's \<Rightarrow> 's"
    and rest :: "'s \<Rightarrow> 'r"
  assumes ld: "ld a s = map_option (get s) (loc s a)"
    and st: "st a v s = map_option (\<lambda>l. put l v s) (loc s a)"
    and get_put: "get (put l v s) = (get s)(l := v)"
    and loc_put: "loc (put l v s) = loc s"
    and rest_put: "rest (put l v s) = rest s"
begin

text \<open>Every cell of the block holds the byte, every other cell is as before.\<close>

lemma memset_loop_ok:
  assumes "\<And>i. i < n \<Longrightarrow> loc s (d + of_nat i) \<noteq> None"
  shows "\<exists>s'. memset_loop st n d c s = Some s' \<and> loc s' = loc s \<and> rest s' = rest s \<and>
    get s' = (\<lambda>l. if \<exists>i<n. loc s (d + of_nat i) = Some l then c else get s l)"
  using assms
proof (induction n arbitrary: d s)
  case 0
  then show ?case by simp
next
  case (Suc n)
  from Suc.prems[of 0] obtain l where l: "loc s d = Some l" by auto
  let ?s1 = "put l c s"
  have "loc ?s1 (d + 1 + of_nat i) \<noteq> None" if "i < n" for i
    using Suc.prems[of "Suc i"] that by (simp add: loc_put algebra_simps)
  then obtain s' where s': "memset_loop st n (d + 1) c ?s1 = Some s'" "loc s' = loc s"
    "rest s' = rest s"
    "get s' = (\<lambda>k. if \<exists>i<n. loc s (d + 1 + of_nat i) = Some k then c else get ?s1 k)"
    using Suc.IH[of ?s1 "d + 1"] by (auto simp: loc_put rest_put)
  have "memset_loop st (Suc n) d c s = Some s'" using s'(1) l by (simp add: st)
  moreover have ex: "(\<exists>i<Suc n. loc s (d + of_nat i) = Some k) \<longleftrightarrow>
      k = l \<or> (\<exists>i<n. loc s (d + 1 + of_nat i) = Some k)" for k
    using l by (auto simp: less_Suc_eq_0_disj algebra_simps)
  have "get s' = (\<lambda>k. if \<exists>i<Suc n. loc s (d + of_nat i) = Some k then c else get s k)"
    unfolding ex using s'(4) by (auto simp: get_put fun_eq_iff)
  ultimately show ?case using s'(2,3) by blast
qed

text \<open>A copy between blocks of distinct cells.\<close>

lemma memcpy_loop_ok:
  assumes "\<And>i. i < n \<Longrightarrow> loc s (d + of_nat i) = Some (dl i)"
    and "\<And>i. i < n \<Longrightarrow> loc s (src + of_nat i) = Some (sl i)"
    and "inj_on dl {..<n}" and "\<And>i j. i < n \<Longrightarrow> j < n \<Longrightarrow> dl i \<noteq> sl j"
  shows "\<exists>s'. memcpy_loop ld st n d src s = Some s' \<and> loc s' = loc s \<and> rest s' = rest s \<and>
    (\<forall>i<n. get s' (dl i) = get s (sl i)) \<and> (\<forall>l. l \<notin> dl ` {..<n} \<longrightarrow> get s' l = get s l)"
  using assms
proof (induction n arbitrary: d src s dl sl)
  case 0
  then show ?case by simp
next
  case (Suc n)
  have d0: "loc s d = Some (dl 0)" and s0: "loc s src = Some (sl 0)"
    using Suc.prems(1)[of 0] Suc.prems(2)[of 0] by simp_all
  let ?s1 = "put (dl 0) (get s (sl 0)) s"
  let ?dl = "\<lambda>i. dl (Suc i)" and ?sl = "\<lambda>i. sl (Suc i)"
  have inj: "inj_on ?dl {..<n}" and d0n: "dl 0 \<notin> ?dl ` {..<n}"
    using Suc.prems(3) by (auto simp: inj_on_def)
  have "\<exists>s'. memcpy_loop ld st n (d + 1) (src + 1) ?s1 = Some s' \<and> loc s' = loc ?s1 \<and>
    rest s' = rest ?s1 \<and> (\<forall>i<n. get s' (?dl i) = get ?s1 (?sl i)) \<and>
    (\<forall>l. l \<notin> ?dl ` {..<n} \<longrightarrow> get s' l = get ?s1 l)"
  proof (rule Suc.IH)
    fix i assume "i < n"
    then show "loc ?s1 (d + 1 + of_nat i) = Some (?dl i)" "loc ?s1 (src + 1 + of_nat i) = Some (?sl i)"
      using Suc.prems(1,2)[of "Suc i"] by (simp_all add: loc_put algebra_simps)
  qed (use inj Suc.prems(4) in auto)
  then obtain s' where s': "memcpy_loop ld st n (d + 1) (src + 1) ?s1 = Some s'" "loc s' = loc s"
    "rest s' = rest s" "\<forall>i<n. get s' (?dl i) = get ?s1 (?sl i)"
    "\<forall>l. l \<notin> ?dl ` {..<n} \<longrightarrow> get s' l = get ?s1 l"
    by (auto simp: loc_put rest_put)
  have "memcpy_loop ld st (Suc n) d src s = Some s'" using s'(1) d0 s0 by (simp add: st ld)
  moreover have "get s' (dl i) = get s (sl i)" if "i < Suc n" for i
  proof (cases i)
    case 0
    with s'(5) d0n show ?thesis by (simp add: get_put)
  next
    case (Suc j)
    then have "sl i \<noteq> dl 0" using Suc.prems(4)[of 0 i] that by auto
    with Suc s'(4) that show ?thesis by (simp add: get_put)
  qed
  moreover have "get s' l = get s l" if "l \<notin> dl ` {..<Suc n}" for l
  proof -
    have "l \<notin> ?dl ` {..<n}" "l \<noteq> dl 0" using that by auto
    with s'(5) show ?thesis by (simp add: get_put)
  qed
  ultimately show ?case using s'(2,3) by blast
qed

end

section \<open>Flat memory\<close>

type_synonym flat_mem = "virtaddr_t \<Rightarrow> u8"

definition flat_ld :: "flat_mem load8" where
  "flat_ld a m = Some (m a)"

definition flat_st :: "flat_mem store8" where
  "flat_st a v m = Some (m(a := v))"

interpretation flat: addressed_memory
  flat_ld flat_st "\<lambda>_. Some" "\<lambda>m. m" "\<lambda>a v m. m(a := v)" "\<lambda>_. ()"
  by unfold_locales (simp_all add: flat_ld_def flat_st_def)

section \<open>Little endian words\<close>

definition load32 :: "(physaddr_t \<Rightarrow> u8) \<Rightarrow> physaddr_t \<Rightarrow> u32" where
  "load32 m a = ucast (m a) OR push_bit 8 (ucast (m (a + 1))) OR push_bit 16 (ucast (m (a + 2))) OR
     push_bit 24 (ucast (m (a + 3)))"

definition store32 :: "physaddr_t \<Rightarrow> u32 \<Rightarrow> (physaddr_t \<Rightarrow> u8) \<Rightarrow> physaddr_t \<Rightarrow> u8" where
  "store32 a w m = m(a := ucast w, a + 1 := ucast (drop_bit 8 w), a + 2 := ucast (drop_bit 16 w),
     a + 3 := ucast (drop_bit 24 w))"

lemma bytes_of_word:
  "(ucast (ucast w :: u8) :: u32) OR push_bit 8 (ucast (ucast (drop_bit 8 w) :: u8)) OR
   push_bit 16 (ucast (ucast (drop_bit 16 w) :: u8)) OR
   push_bit 24 (ucast (ucast (drop_bit 24 w) :: u8)) = w"
proof (rule bit_word_eqI)
  fix n assume "n < LENGTH(32)"
  then consider "n < 8" | "8 \<le> n" "n < 16" | "16 \<le> n" "n < 24" | "24 \<le> n" "n < 32"
    by fastforce
  then show "bit ((ucast (ucast w :: u8) :: u32) OR push_bit 8 (ucast (ucast (drop_bit 8 w) :: u8)) OR
     push_bit 16 (ucast (ucast (drop_bit 16 w) :: u8)) OR
     push_bit 24 (ucast (ucast (drop_bit 24 w) :: u8))) n = bit w n"
    by cases (auto simp: bit_or_iff bit_push_bit_iff bit_ucast_iff bit_drop_bit_eq)
qed

lemma store32_other: "b \<notin> {a, a + 1, a + 2, a + 3} \<Longrightarrow> store32 a w m b = m b"
  by (simp add: store32_def)

lemma load32_store32: "load32 (store32 a w m) a = w"
  using bytes_of_word[of w] by (simp add: load32_def store32_def)

lemma aligned4_apart:
  fixes a b :: u32
  assumes "a mod 4 = 0" "b mod 4 = 0" "a \<noteq> b" "i < 4" "j < 4"
  shows "a + i \<noteq> b + j"
proof
  assume eq: "a + i = b + j"
  have "(a + i) div 4 * 4 = a" if "a mod 4 = 0" "i < 4" for a i :: u32
  proof -
    have "unat (a + i) = unat a + unat i"
    proof -
      have "unat a mod 4 = 0" using that(1) unat_mod_distrib[of a 4] by simp
      moreover have "unat a < 4 * 1073741824" using unsigned_less[of a] by simp
      ultimately have "unat a + 4 \<le> 4 * 1073741824" by presburger
      moreover have "unat i < 4" using that(2) by (simp add: word_less_nat_alt)
      ultimately show ?thesis by (simp add: unat_word_ariths(1))
    qed
    moreover have "unat i < 4" using that(2) by (simp add: word_less_nat_alt)
    moreover have "unat a mod 4 = 0" using that(1) unat_mod_distrib[of a 4] by simp
    then obtain k where "unat a = 4 * k" by (auto elim: dvdE)
    ultimately have "unat (a + i) div 4 * 4 = unat a" by simp
    then have "unat ((a + i) div 4 * 4) = unat a"
      using unsigned_less[of a, where ?'a = nat]
      by (simp add: unat_word_ariths(2) unat_div_distrib)
    then show ?thesis by (simp only: word_unat_eq_iff)
  qed
  from this[OF assms(1,4)] this[OF assms(2,5)] eq assms(3) show False by simp
qed

lemma load32_store32_other:
  assumes "a mod 4 = 0" "b mod 4 = 0" "a \<noteq> b"
  shows "load32 (store32 a w m) b = load32 m b"
proof -
  have "store32 a w m (b + j) = m (b + j)" if "j < 4" for j
    using aligned4_apart[OF assms, of 0 j] aligned4_apart[OF assms, of 1 j]
      aligned4_apart[OF assms, of 2 j] aligned4_apart[OF assms, of 3 j] that
    by (simp add: store32_other)
  from this[of 0] this[of 1] this[of 2] this[of 3] show ?thesis by (simp add: load32_def)
qed

end
