(* ===== verification/Paging.thy ===== *)
theory Paging
  imports Physmem Cmem
begin

text \<open>
  Kernel and user page tables: \<^verbatim>\<open>src/sys/i686/i686_virtmem.c\<close>, its header, and the interface
  \<^verbatim>\<open>src/sys/include/virtual_memory.h\<close>.  The kernel's own page tables \<^verbatim>\<open>kernel_pts\<close> are the
  array \<open>kernel_flatpt\<close>; page directories and page tables of address spaces are bytes of
  physical memory, which the kernel reaches through windows it maps in its own tables.  Every
  access to memory by a kernel virtual address is translated by \<open>kernel_flatpt\<close>, and an access
  through an entry that is not present has no result.  The vtable of \<^verbatim>\<open>struct virtmem\<close> has
  one implementation, so its calls are direct.  \<^verbatim>\<open>invlpg\<close> and the debug output have no
  effect on the modelled state.
\<close>

section \<open>Page table entries\<close>

datatype virtmem_error_t = VIRTMEM_SUCCESS | VIRTMEM_NOTPRESENT | VIRTMEM_OOM

definition VIRTMEM_PAGE_READABLE :: u32 where "VIRTMEM_PAGE_READABLE = 1"
definition VIRTMEM_PAGE_WRITABLE :: u32 where "VIRTMEM_PAGE_WRITABLE = 2"
definition VIRTMEM_PAGE_EXECUTABLE :: u32 where "VIRTMEM_PAGE_EXECUTABLE = 4"

definition I686_PAGE_PRESENT :: u32 where "I686_PAGE_PRESENT = 1"
definition I686_PAGE_WRITABLE :: u32 where "I686_PAGE_WRITABLE = 2"
definition I686_PAGE_WRITETHROUGH :: u32 where "I686_PAGE_WRITETHROUGH = 4"
definition I686_PAGE_CACHEDISABLE :: u32 where "I686_PAGE_CACHEDISABLE = 8"
definition I686_PAGE_GLOBAL :: u32 where "I686_PAGE_GLOBAL = 16"
definition I686_PAGE_USER :: u32 where "I686_PAGE_USER = 32"

lemmas page_flag_defs =
  VIRTMEM_PAGE_READABLE_def VIRTMEM_PAGE_WRITABLE_def VIRTMEM_PAGE_EXECUTABLE_def
  I686_PAGE_PRESENT_def I686_PAGE_WRITABLE_def I686_PAGE_WRITETHROUGH_def
  I686_PAGE_CACHEDISABLE_def I686_PAGE_GLOBAL_def I686_PAGE_USER_def

text \<open>The packed bit fields of \<^verbatim>\<open>struct i686_pte\<close> and \<^verbatim>\<open>struct i686_pde\<close>.\<close>

record i686_pte =
  pt_present :: bool
  pt_writable :: bool
  pt_user :: bool
  pt_write_through :: bool
  pt_cache_disable :: bool
  pt_accessed :: bool
  pt_dirty :: bool
  pt_zero :: bool
  pt_global :: bool
  pt_avail :: "3 word"
  pt_phys_addr :: "20 word"

record i686_pde =
  pd_present :: bool
  pd_writable :: bool
  pd_user :: bool
  pd_write_through :: bool
  pd_cache_disable :: bool
  pd_accessed :: bool
  pd_zero :: bool
  pd_size :: bool
  pd_global :: bool
  pd_avail :: "3 word"
  pd_phys_addr :: "20 word"

definition pte_to_word :: "i686_pte \<Rightarrow> u32" where
  "pte_to_word p =
     of_bool (pt_present p) OR push_bit 1 (of_bool (pt_writable p)) OR
     push_bit 2 (of_bool (pt_user p)) OR push_bit 3 (of_bool (pt_write_through p)) OR
     push_bit 4 (of_bool (pt_cache_disable p)) OR push_bit 5 (of_bool (pt_accessed p)) OR
     push_bit 6 (of_bool (pt_dirty p)) OR push_bit 7 (of_bool (pt_zero p)) OR
     push_bit 8 (of_bool (pt_global p)) OR push_bit 9 (ucast (pt_avail p)) OR
     push_bit 12 (ucast (pt_phys_addr p))"

definition word_to_pte :: "u32 \<Rightarrow> i686_pte" where
  "word_to_pte w =
     \<lparr>pt_present = bit w 0, pt_writable = bit w 1, pt_user = bit w 2, pt_write_through = bit w 3,
      pt_cache_disable = bit w 4, pt_accessed = bit w 5, pt_dirty = bit w 6, pt_zero = bit w 7,
      pt_global = bit w 8, pt_avail = ucast (drop_bit 9 w), pt_phys_addr = ucast (drop_bit 12 w)\<rparr>"

definition pde_to_word :: "i686_pde \<Rightarrow> u32" where
  "pde_to_word p =
     of_bool (pd_present p) OR push_bit 1 (of_bool (pd_writable p)) OR
     push_bit 2 (of_bool (pd_user p)) OR push_bit 3 (of_bool (pd_write_through p)) OR
     push_bit 4 (of_bool (pd_cache_disable p)) OR push_bit 5 (of_bool (pd_accessed p)) OR
     push_bit 6 (of_bool (pd_zero p)) OR push_bit 7 (of_bool (pd_size p)) OR
     push_bit 8 (of_bool (pd_global p)) OR push_bit 9 (ucast (pd_avail p)) OR
     push_bit 12 (ucast (pd_phys_addr p))"

definition word_to_pde :: "u32 \<Rightarrow> i686_pde" where
  "word_to_pde w =
     \<lparr>pd_present = bit w 0, pd_writable = bit w 1, pd_user = bit w 2, pd_write_through = bit w 3,
      pd_cache_disable = bit w 4, pd_accessed = bit w 5, pd_zero = bit w 6, pd_size = bit w 7,
      pd_global = bit w 8, pd_avail = ucast (drop_bit 9 w), pd_phys_addr = ucast (drop_bit 12 w)\<rparr>"

text \<open>\<^verbatim>\<open>addr >> 12\<close> stored in a 20 bit field, and \<^verbatim>\<open>phys_addr << 12\<close>.\<close>

definition frame_of :: "physaddr_t \<Rightarrow> 20 word" where
  "frame_of a = ucast (drop_bit 12 a)"

definition frame_addr :: "20 word \<Rightarrow> physaddr_t" where
  "frame_addr f = push_bit 12 (ucast f)"

definition i686_set_pte :: "i686_pte \<Rightarrow> physaddr_t \<Rightarrow> u32 \<Rightarrow> i686_pte" where
  "i686_set_pte p addr flags = p
     \<lparr>pt_phys_addr := frame_of addr,
      pt_present := bittestl flags I686_PAGE_PRESENT,
      pt_writable := bittestl flags I686_PAGE_WRITABLE,
      pt_write_through := bittestl flags I686_PAGE_WRITETHROUGH,
      pt_cache_disable := bittestl flags I686_PAGE_CACHEDISABLE,
      pt_user := bittestl flags I686_PAGE_USER,
      pt_accessed := False,
      pt_dirty := False,
      pt_zero := False,
      pt_global := bittestl flags I686_PAGE_GLOBAL,
      pt_avail := 0\<rparr>"

definition i686_set_pde :: "i686_pde \<Rightarrow> physaddr_t \<Rightarrow> u32 \<Rightarrow> i686_pde" where
  "i686_set_pde p addr flags = p
     \<lparr>pd_phys_addr := frame_of addr,
      pd_present := bittestl flags I686_PAGE_PRESENT,
      pd_writable := bittestl flags I686_PAGE_WRITABLE,
      pd_write_through := bittestl flags I686_PAGE_WRITETHROUGH,
      pd_cache_disable := bittestl flags I686_PAGE_CACHEDISABLE,
      pd_user := bittestl flags I686_PAGE_USER,
      pd_accessed := False,
      pd_size := False,
      pd_zero := False,
      pd_global := bittestl flags I686_PAGE_GLOBAL,
      pd_avail := 0\<rparr>"

section \<open>State\<close>

text \<open>
  \<open>localmem\<close> is \<^verbatim>\<open>cpu()->localmem\<close> (there is one processor); the addresses of the static
  objects \<^verbatim>\<open>kernel_pts\<close> and \<^verbatim>\<open>kernel_pd\<close> and of \<^verbatim>\<open>ebss\<close> are chosen by the linker.
\<close>

record vm_state =
  vm_pm :: pm_state
  localmem :: physmem_ptr
  kernel_flatpt :: "nat \<Rightarrow> i686_pte"
  kernel_pd :: "nat \<Rightarrow> i686_pde"
  identitymap_limit :: virtaddr_t
  cr3 :: physaddr_t
  pmem :: "physaddr_t \<Rightarrow> u8"
  sym_kernel_pts :: virtaddr_t
  sym_kernel_pd :: virtaddr_t
  sym_ebss :: virtaddr_t

definition highstart :: virtaddr_t where "highstart = 0xC0000000"
definition n_kernel_pde :: u32 where "n_kernel_pde = 256"
definition n_start_pde :: u32 where "n_start_pde = 768"
definition pg_size :: u32 where "pg_size = 4096"

text \<open>\<^verbatim>\<open>kernel_flatpt[i]\<close>: the array has \<open>256 * 1024\<close> entries.\<close>

definition flatpt_read :: "nat \<Rightarrow> vm_state \<Rightarrow> i686_pte option" where
  "flatpt_read i s = (if i < 262144 then Some (kernel_flatpt s i) else None)"

definition flatpt_write :: "nat \<Rightarrow> i686_pte \<Rightarrow> vm_state \<Rightarrow> vm_state option" where
  "flatpt_write i p s =
     (if i < 262144 then Some (s\<lparr>kernel_flatpt := (kernel_flatpt s)(i := p)\<rparr>) else None)"

text \<open>Translation of a kernel virtual address by the processor.\<close>

definition kvirt_loc :: "vm_state \<Rightarrow> virtaddr_t \<Rightarrow> physaddr_t option" where
  "kvirt_loc s a =
     (if a < highstart then None
      else let p = kernel_flatpt s (unat ((a - highstart) div 4096))
           in if pt_present p then Some (frame_addr (pt_phys_addr p) + a mod 4096) else None)"

definition vm_ld :: "vm_state load8" where
  "vm_ld a s = map_option (pmem s) (kvirt_loc s a)"

definition vm_st :: "vm_state store8" where
  "vm_st a v s = map_option (\<lambda>l. s\<lparr>pmem := (pmem s)(l := v)\<rparr>) (kvirt_loc s a)"

definition vm_ld32 :: "virtaddr_t \<Rightarrow> vm_state \<Rightarrow> u32 option" where
  "vm_ld32 a s = map_option (load32 (pmem s)) (kvirt_loc s a)"

definition vm_st32 :: "virtaddr_t \<Rightarrow> u32 \<Rightarrow> vm_state \<Rightarrow> vm_state option" where
  "vm_st32 a w s = map_option (\<lambda>l. s\<lparr>pmem := store32 l w (pmem s)\<rparr>) (kvirt_loc s a)"

text \<open>Updates of bit fields of an entry that a kernel pointer points at.\<close>

definition pte_modify :: "virtaddr_t \<Rightarrow> (i686_pte \<Rightarrow> i686_pte) \<Rightarrow> vm_state \<Rightarrow> vm_state option" where
  "pte_modify a f s = do { w \<leftarrow> vm_ld32 a s; vm_st32 a (pte_to_word (f (word_to_pte w))) s }"

definition pde_modify :: "virtaddr_t \<Rightarrow> (i686_pde \<Rightarrow> i686_pde) \<Rightarrow> vm_state \<Rightarrow> vm_state option" where
  "pde_modify a f s = do { w \<leftarrow> vm_ld32 a s; vm_st32 a (pde_to_word (f (word_to_pde w))) s }"

text \<open>Calls on \<^verbatim>\<open>cpu()->localmem\<close>.\<close>

definition local_page_size :: "vm_state \<Rightarrow> u32 option" where
  "local_page_size s = physmem_page_size (vm_pm s) (localmem s)"

definition local_page_alloc ::
  "vm_state \<Rightarrow> ((physmem_error_t \<times> physaddr_t option) \<times> vm_state) option" where
  "local_page_alloc s = do {
     (r, pm) \<leftarrow> physmem_page_alloc (localmem s) 0 (vm_pm s);
     Some (r, s\<lparr>vm_pm := pm\<rparr>)
   }"

definition local_page_free :: "physaddr_t \<Rightarrow> vm_state \<Rightarrow> (physmem_error_t \<times> vm_state) option" where
  "local_page_free a s = do {
     (r, pm) \<leftarrow> physmem_page_free (localmem s) a (vm_pm s);
     Some (r, s\<lparr>vm_pm := pm\<rparr>)
   }"

section \<open>Kernel address space\<close>

text \<open>The loop of \<^verbatim>\<open>i686_brk\<close>; page numbers are below \<open>2 ^ 20\<close>, so the signed comparison of
  the C is the unsigned one.\<close>

partial_function (option) i686_brk_loop :: "u32 \<Rightarrow> u32 \<Rightarrow> vm_state \<Rightarrow> vm_state option" where
  "i686_brk_loop curpage new_limit_page s =
     (if curpage \<le> new_limit_page then do {
        let phys_addr = pg_size * curpage - highstart;
        let phys_page = phys_addr div pg_size;
        p \<leftarrow> flatpt_read (unat phys_page) s;
        s1 \<leftarrow> flatpt_write (unat phys_page)
               (i686_set_pte p phys_addr (I686_PAGE_PRESENT OR I686_PAGE_WRITABLE)) s;
        i686_brk_loop (curpage + 1) new_limit_page s1
      } else Some s)"

definition i686_brk :: "virtaddr_t \<Rightarrow> vm_state \<Rightarrow> (virtaddr_t \<times> vm_state) option" where
  "i686_brk newend s =
     (let oldlimit = identitymap_limit s;
          old_limit_page = (identitymap_limit s + (pg_size - 1)) div pg_size;
          new_limit_page = (newend + (pg_size - 1)) div pg_size
      in if newend < identitymap_limit s then Some (oldlimit, s)
         else do {
           s1 \<leftarrow> i686_brk_loop (old_limit_page + 1) new_limit_page s;
           Some (oldlimit, s1\<lparr>identitymap_limit := newend\<rparr>)
         })"

definition virtmem_brk :: "virtaddr_t \<Rightarrow> vm_state \<Rightarrow> (virtaddr_t \<times> vm_state) option" where
  "virtmem_brk = i686_brk"

text \<open>\<open>modify i f\<close> is the update of \<^verbatim>\<open>pd[i]\<close>: the directory is the static \<^verbatim>\<open>kernel_pd\<close> at
  boot and a directory in a window otherwise.\<close>

type_synonym pd_modify = "u32 \<Rightarrow> (i686_pde \<Rightarrow> i686_pde) \<Rightarrow> vm_state \<Rightarrow> vm_state option"

primrec set_kernel_pdes_loop :: "pd_modify \<Rightarrow> nat \<Rightarrow> u32 \<Rightarrow> vm_state \<Rightarrow> vm_state option" where
  "set_kernel_pdes_loop modify 0 cur_pde s = Some s"
| "set_kernel_pdes_loop modify (Suc n) cur_pde s = do {
     s1 \<leftarrow> modify cur_pde
             (\<lambda>p. i686_set_pde p (sym_kernel_pts s + (cur_pde - n_start_pde) * 4096 - highstart)
                    (I686_PAGE_PRESENT OR I686_PAGE_WRITABLE)) s;
     set_kernel_pdes_loop modify n (cur_pde + 1) s1
   }"

definition i686_set_kernel_pdes :: "pd_modify \<Rightarrow> vm_state \<Rightarrow> vm_state option" where
  "i686_set_kernel_pdes modify s = set_kernel_pdes_loop modify (unat n_kernel_pde) n_start_pde s"

definition static_pd_modify :: pd_modify where
  "static_pd_modify i f s =
     Some (s\<lparr>kernel_pd := (kernel_pd s)(unat i := f (kernel_pd s (unat i)))\<rparr>)"

definition window_pd_modify :: "virtaddr_t \<Rightarrow> pd_modify" where
  "window_pd_modify pd i f s = pde_modify (pd + 4 * i) f s"

text \<open>\<^verbatim>\<open>i686_get_context\<close> stores \<^verbatim>\<open>cr3\<close> in its own parameter, so the caller's variable
  is not written: the result has no output.\<close>

definition i686_get_context :: "vm_state \<Rightarrow> (virtmem_error_t \<times> physaddr_t option) \<times> vm_state" where
  "i686_get_context s = ((VIRTMEM_SUCCESS, None), s)"

definition virtmem_get_context :: "vm_state \<Rightarrow> (virtmem_error_t \<times> physaddr_t option) \<times> vm_state" where
  "virtmem_get_context = i686_get_context"

definition i686_set_context :: "physaddr_t \<Rightarrow> vm_state \<Rightarrow> virtmem_error_t \<times> vm_state" where
  "i686_set_context pd s = (VIRTMEM_SUCCESS, s\<lparr>cr3 := pd\<rparr>)"

definition virtmem_set_context :: "physaddr_t \<Rightarrow> vm_state \<Rightarrow> virtmem_error_t \<times> vm_state" where
  "virtmem_set_context = i686_set_context"

definition i686_virtmem_init :: "vm_state \<Rightarrow> vm_state option" where
  "i686_virtmem_init s = do {
     s1 \<leftarrow> i686_set_kernel_pdes static_pd_modify s;
     let s2 = s1\<lparr>identitymap_limit := highstart\<rparr>;
     (_, s3) \<leftarrow> i686_brk (sym_ebss s2) s2;
     let (_, s4) = i686_set_context (sym_kernel_pd s3 - highstart) s3;
     Some s4
   }"

text \<open>The scan of \<^verbatim>\<open>i686_kernel_alloc\<close> for an entry that is not present.\<close>

function kernel_alloc_scan :: "nat \<Rightarrow> vm_state \<Rightarrow> nat option" where
  "kernel_alloc_scan pgindex s =
     (if pgindex < 1024 * unat n_kernel_pde
      then if \<not> pt_present (kernel_flatpt s pgindex) then Some pgindex
           else kernel_alloc_scan (Suc pgindex) s
      else None)"
  by pat_completeness auto
termination by (relation "measure (\<lambda>(i, _). 1024 * unat n_kernel_pde - i)") auto

declare kernel_alloc_scan.simps [simp del]

definition i686_kernel_alloc ::
  "u32 \<Rightarrow> vm_state \<Rightarrow> ((virtmem_error_t \<times> virtaddr_t option) \<times> vm_state) option" where
  "i686_kernel_alloc n_pages s = do {
     c_assert (n_pages = 1);
     case kernel_alloc_scan 0 s of
       None \<Rightarrow> Some ((VIRTMEM_OOM, None), s)
     | Some pgindex \<Rightarrow> do {
         p \<leftarrow> flatpt_read pgindex s;
         s1 \<leftarrow> flatpt_write pgindex (p\<lparr>pt_present := True, pt_writable := True\<rparr>) s;
         Some ((VIRTMEM_SUCCESS, Some (of_nat pgindex * pg_size + highstart)), s1)
       }
   }"

definition virtmem_kernel_alloc ::
  "u32 \<Rightarrow> vm_state \<Rightarrow> ((virtmem_error_t \<times> virtaddr_t option) \<times> vm_state) option" where
  "virtmem_kernel_alloc = i686_kernel_alloc"

definition i686_kernel_free :: "virtaddr_t \<Rightarrow> vm_state \<Rightarrow> virtmem_error_t \<times> vm_state" where
  "i686_kernel_free addr s = (VIRTMEM_SUCCESS, s)"

definition virtmem_kernel_free :: "virtaddr_t \<Rightarrow> vm_state \<Rightarrow> virtmem_error_t \<times> vm_state" where
  "virtmem_kernel_free = i686_kernel_free"

text \<open>\<^verbatim>\<open>i686_virt_to_pte\<close> returns the index of the entry in \<^verbatim>\<open>kernel_flatpt\<close>.\<close>

definition i686_virt_to_pte :: "virtaddr_t \<Rightarrow> vm_state \<Rightarrow> nat option" where
  "i686_virt_to_pte addr s = do {
     psize \<leftarrow> local_page_size s;
     let pagenum = addr div psize;
     let n_pde = pagenum div 1024 - n_start_pde;
     c_assert (n_pde < n_kernel_pde);
     Some (unat (pagenum - n_start_pde * 1024))
   }"

definition i686_kernel_virt_to_phys ::
  "virtaddr_t \<Rightarrow> vm_state \<Rightarrow> (virtmem_error_t \<times> physaddr_t option) option" where
  "i686_kernel_virt_to_phys addr s = do {
     i \<leftarrow> i686_virt_to_pte addr s;
     pte \<leftarrow> flatpt_read i s;
     if \<not> pt_present pte then Some (VIRTMEM_NOTPRESENT, None)
     else Some (VIRTMEM_SUCCESS, Some (frame_addr (pt_phys_addr pte)))
   }"

definition virtmem_kernel_virt_to_phys ::
  "virtaddr_t \<Rightarrow> vm_state \<Rightarrow> (virtmem_error_t \<times> physaddr_t option) option" where
  "virtmem_kernel_virt_to_phys = i686_kernel_virt_to_phys"

definition i686_kernel_map_virt_to_phys ::
  "physaddr_t \<Rightarrow> virtaddr_t \<Rightarrow> vm_state \<Rightarrow> (virtmem_error_t \<times> vm_state) option" where
  "i686_kernel_map_virt_to_phys p addr s = do {
     i \<leftarrow> i686_virt_to_pte addr s;
     pte \<leftarrow> flatpt_read i s;
     c_assert (pt_present pte);
     if \<not> pt_present pte then Some (VIRTMEM_NOTPRESENT, s)
     else do {
       s1 \<leftarrow> flatpt_write i (i686_set_pte pte p (I686_PAGE_WRITABLE OR I686_PAGE_PRESENT)) s;
       Some (VIRTMEM_SUCCESS, s1)
     }
   }"

definition virtmem_kernel_map_virt_to_phys ::
  "physaddr_t \<Rightarrow> virtaddr_t \<Rightarrow> vm_state \<Rightarrow> (virtmem_error_t \<times> vm_state) option" where
  "virtmem_kernel_map_virt_to_phys = i686_kernel_map_virt_to_phys"

section \<open>User address spaces\<close>

text \<open>The result of \<^verbatim>\<open>i686_initialize_pde\<close> is true for 0 and false for -1.\<close>

definition i686_initialize_pde :: "virtaddr_t \<Rightarrow> vm_state \<Rightarrow> (bool \<times> vm_state) option" where
  "i686_initialize_pde pde s = do {
     ((perr, out), s1) \<leftarrow> local_page_alloc s;
     if perr \<noteq> PHYSMEM_SUCCESS then Some (False, s1)
     else do {
       pde_phys \<leftarrow> out;
       ((verr, va), s2) \<leftarrow> virtmem_kernel_alloc 1 s1;
       if verr \<noteq> VIRTMEM_SUCCESS then Some (False, s2)
       else do {
         vaddr \<leftarrow> va;
         (_, s3) \<leftarrow> virtmem_kernel_map_virt_to_phys pde_phys vaddr s2;
         psize \<leftarrow> local_page_size s3;
         (_, s4) \<leftarrow> memset vm_st vaddr 0 psize s3;
         let (_, s5) = virtmem_kernel_free vaddr s4;
         s6 \<leftarrow> pde_modify pde (\<lambda>p. i686_set_pde p pde_phys
                 (I686_PAGE_PRESENT OR I686_PAGE_WRITABLE OR I686_PAGE_USER)) s5;
         Some (True, s6)
       }
     }
   }"

record i686_pagewalk_context =
  pagestart :: u32
  pw_pt :: virtaddr_t
  pw_pd :: virtaddr_t

text \<open>\<^verbatim>\<open>i686_pagewalk_init\<close> fills the context, or returns -1 (\<^term>\<open>None\<close>) and leaves pointers
  of the context uninitialised.\<close>

definition i686_pagewalk_init ::
  "physaddr_t \<Rightarrow> vm_state \<Rightarrow> (i686_pagewalk_context option \<times> vm_state) option" where
  "i686_pagewalk_init physpd s = do {
     ((e1, a1), s1) \<leftarrow> virtmem_kernel_alloc 1 s;
     if e1 \<noteq> VIRTMEM_SUCCESS then Some (None, s1)
     else do {
       pt \<leftarrow> a1;
       ((e2, a2), s2) \<leftarrow> virtmem_kernel_alloc 1 s1;
       if e2 \<noteq> VIRTMEM_SUCCESS then (let (_, s3) = virtmem_kernel_free pt s2 in Some (None, s3))
       else do {
         pd \<leftarrow> a2;
         (_, s3) \<leftarrow> virtmem_kernel_map_virt_to_phys physpd pd s2;
         Some (Some \<lparr>pagestart = 0, pw_pt = pt, pw_pd = pd\<rparr>, s3)
       }
     }
   }"

definition i686_pagewalk_done :: "i686_pagewalk_context \<Rightarrow> vm_state \<Rightarrow> vm_state" where
  "i686_pagewalk_done ctx s =
     (let (_, s1) = virtmem_kernel_free (pw_pt ctx) s; (_, s2) = virtmem_kernel_free (pw_pd ctx) s1
      in s2)"

definition i686_pagewalk ::
  "i686_pagewalk_context \<Rightarrow> virtaddr_t \<Rightarrow> vm_state \<Rightarrow>
   (virtaddr_t \<times> i686_pagewalk_context \<times> vm_state) option" where
  "i686_pagewalk ctx addr s = do {
     pgsize \<leftarrow> local_page_size s;
     let ptsize = pgsize * 1024;
     let pdindex = addr div ptsize;
     let ptindex = (addr mod ptsize) div pgsize;
     w \<leftarrow> vm_ld32 (pw_pd ctx + 4 * pdindex) s;
     s1 \<leftarrow> (if \<not> pd_present (word_to_pde w)
            then do { (_, s') \<leftarrow> i686_initialize_pde (pw_pd ctx + 4 * pdindex) s; Some s' }
            else Some s);
     (ctx2, s2) \<leftarrow>
       (if pdindex * ptsize + ptindex \<noteq> pagestart ctx
        then do {
          w' \<leftarrow> vm_ld32 (pw_pd ctx + 4 * pdindex) s1;
          let ptaddr = ucast (pd_phys_addr (word_to_pde w')) * pgsize;
          (_, s') \<leftarrow> virtmem_kernel_map_virt_to_phys ptaddr (pw_pt ctx) s1;
          Some (ctx\<lparr>pagestart := pdindex * ptsize + ptindex\<rparr>, s')
        }
        else Some (ctx, s1));
     Some (pw_pt ctx2 + 4 * ptindex, ctx2, s2)
   }"

definition i686_setup_kernelspace :: "physaddr_t \<Rightarrow> vm_state \<Rightarrow> (virtmem_error_t \<times> vm_state) option" where
  "i686_setup_kernelspace pd s = do {
     (c, s1) \<leftarrow> i686_pagewalk_init pd s;
     pgw \<leftarrow> c;
     s2 \<leftarrow> i686_set_kernel_pdes (window_pd_modify (pw_pd pgw)) s1;
     Some (VIRTMEM_SUCCESS, i686_pagewalk_done pgw s2)
   }"

definition virtmem_user_setup_kernelspace ::
  "physaddr_t \<Rightarrow> vm_state \<Rightarrow> (virtmem_error_t \<times> vm_state) option" where
  "virtmem_user_setup_kernelspace = i686_setup_kernelspace"

definition i686_user_get_page ::
  "physaddr_t \<Rightarrow> virtaddr_t \<Rightarrow> vm_state \<Rightarrow> ((virtmem_error_t \<times> physaddr_t option) \<times> vm_state) option" where
  "i686_user_get_page c vaddr s = do {
     (r, s1) \<leftarrow> i686_pagewalk_init c s;
     case r of
       None \<Rightarrow> Some ((VIRTMEM_OOM, None), s1)
     | Some ctx \<Rightarrow> do {
         (l, ctx2, s2) \<leftarrow> i686_pagewalk ctx vaddr s1;
         w \<leftarrow> vm_ld32 l s2;
         pgsize \<leftarrow> local_page_size s2;
         let p = ucast (pt_phys_addr (word_to_pte w)) * pgsize;
         Some ((VIRTMEM_SUCCESS, Some p), i686_pagewalk_done ctx2 s2)
       }
   }"

definition virtmem_user_get_page ::
  "physaddr_t \<Rightarrow> virtaddr_t \<Rightarrow> vm_state \<Rightarrow> ((virtmem_error_t \<times> physaddr_t option) \<times> vm_state) option" where
  "virtmem_user_get_page = i686_user_get_page"

definition i686_user_map_page ::
  "physaddr_t \<Rightarrow> virtaddr_t \<Rightarrow> physaddr_t \<Rightarrow> vm_state \<Rightarrow> (virtmem_error_t \<times> vm_state) option" where
  "i686_user_map_page c vaddr p s = do {
     (r, s1) \<leftarrow> i686_pagewalk_init c s;
     case r of
       None \<Rightarrow> Some (VIRTMEM_OOM, s1)
     | Some ctx \<Rightarrow> do {
         (l, ctx2, s2) \<leftarrow> i686_pagewalk ctx vaddr s1;
         pgsize \<leftarrow> local_page_size s2;
         s3 \<leftarrow> pte_modify l (\<lambda>e. e\<lparr>pt_phys_addr := ucast (p div pgsize)\<rparr>) s2;
         Some (VIRTMEM_SUCCESS, i686_pagewalk_done ctx2 s3)
       }
   }"

definition virtmem_user_map_page ::
  "physaddr_t \<Rightarrow> virtaddr_t \<Rightarrow> physaddr_t \<Rightarrow> vm_state \<Rightarrow> (virtmem_error_t \<times> vm_state) option" where
  "virtmem_user_map_page = i686_user_map_page"

text \<open>\<^verbatim>\<open>i686_user_set_page_flags\<close> goes on with uninitialised pointers when
  \<^verbatim>\<open>i686_pagewalk_init\<close> fails.\<close>

definition i686_user_set_page_flags ::
  "physaddr_t \<Rightarrow> virtaddr_t \<Rightarrow> u32 \<Rightarrow> vm_state \<Rightarrow> (virtmem_error_t \<times> vm_state) option" where
  "i686_user_set_page_flags c vaddr flags s = do {
     (r, s1) \<leftarrow> i686_pagewalk_init c s;
     ctx \<leftarrow> r;
     (l, ctx2, s2) \<leftarrow> i686_pagewalk ctx vaddr s1;
     s3 \<leftarrow> pte_modify l (\<lambda>e. e\<lparr>pt_writable := bittestl flags VIRTMEM_PAGE_WRITABLE,
                                pt_user := bittestl flags VIRTMEM_PAGE_READABLE,
                                pt_present := True\<rparr>) s2;
     Some (VIRTMEM_SUCCESS, i686_pagewalk_done ctx2 s3)
   }"

definition virtmem_user_set_page_flags ::
  "physaddr_t \<Rightarrow> virtaddr_t \<Rightarrow> u32 \<Rightarrow> vm_state \<Rightarrow> (virtmem_error_t \<times> vm_state) option" where
  "virtmem_user_set_page_flags = i686_user_set_page_flags"

lemmas virtmem_dispatch [simp] =
  virtmem_brk_def virtmem_get_context_def virtmem_set_context_def virtmem_kernel_alloc_def
  virtmem_kernel_free_def virtmem_kernel_virt_to_phys_def virtmem_kernel_map_virt_to_phys_def
  virtmem_user_setup_kernelspace_def virtmem_user_get_page_def virtmem_user_map_page_def
  virtmem_user_set_page_flags_def

interpretation kvm: addressed_memory
  vm_ld vm_st kvirt_loc pmem "\<lambda>l v s. s\<lparr>pmem := (pmem s)(l := v)\<rparr>" "\<lambda>s. s\<lparr>pmem := \<lambda>_. 0\<rparr>"
  by unfold_locales (simp_all add: vm_ld_def vm_st_def kvirt_loc_def fun_eq_iff)

end
