(* ===== verification/Walk.thy ===== *)
theory Walk
  imports Paging Feeder
begin

text \<open>
  Correctness of the kernel address allocator and of the page walk: encodings of the entries, the
  kernel's windows, and the refinement of \<^verbatim>\<open>i686_user_map_page\<close>,
  \<^verbatim>\<open>i686_user_set_page_flags\<close> and \<^verbatim>\<open>i686_user_get_page\<close> to updates and reads of the map
  from user pages to entries that the processor walks.
\<close>

section \<open>Encodings\<close>

lemma bit_of_bool_word: "bit (of_bool b :: 'a::len word) n \<longleftrightarrow> b \<and> n = 0"
  by (auto simp: bit_of_bool_iff)

lemma push_of_bool_bit:
  "k < LENGTH('a) \<Longrightarrow> bit (push_bit k (of_bool b) :: 'a::len word) n \<longleftrightarrow> b \<and> n = k"
  by (auto simp: bit_push_bit_iff bit_of_bool_iff)

lemmas word_bits = bit_2_iff bit_or_iff bit_push_bit_iff bit_drop_bit_eq bit_ucast_iff bit_of_bool_word
  push_of_bool_bit

lemma avail_bit: "bit (v :: 3 word) n \<Longrightarrow> n < 3" and frame_bit: "bit (f :: 20 word) m \<Longrightarrow> m < 20"
  using bit_imp_le_length[of v n] bit_imp_le_length[of f m] by simp_all

lemma word_to_pte_to_word [vm_simps]: "word_to_pte (pte_to_word p) = p"
proof -
  have "ucast (drop_bit 9 (pte_to_word p)) = pt_avail p"
    by (rule bit_word_eqI) (auto simp: pte_to_word_def word_bits dest: frame_bit)
  moreover have "ucast (drop_bit 12 (pte_to_word p)) = pt_phys_addr p"
    by (rule bit_word_eqI) (auto simp: pte_to_word_def word_bits dest: avail_bit)
  ultimately show ?thesis
    by (simp add: word_to_pte_def) (simp add: pte_to_word_def word_bits)
qed

lemma word_to_pde_to_word [vm_simps]: "word_to_pde (pde_to_word p) = p"
proof -
  have "ucast (drop_bit 9 (pde_to_word p)) = pd_avail p"
    by (rule bit_word_eqI) (auto simp: pde_to_word_def word_bits dest: frame_bit)
  moreover have "ucast (drop_bit 12 (pde_to_word p)) = pd_phys_addr p"
    by (rule bit_word_eqI) (auto simp: pde_to_word_def word_bits dest: avail_bit)
  ultimately show ?thesis
    by (simp add: word_to_pde_def) (simp add: pde_to_word_def word_bits)
qed

lemma pte_to_word_to_pte: "pte_to_word (word_to_pte w) = w"
proof (rule bit_word_eqI)
  fix n assume "n < LENGTH(32)"
  then consider "n = 0 \<or> n = 1 \<or> n = 2 \<or> n = 3 \<or> n = 4 \<or> n = 5 \<or> n = 6 \<or> n = 7 \<or> n = 8"
    | "9 \<le> n" "n < 12" | "12 \<le> n" "n < 32" by (simp, linarith)
  then show "bit (pte_to_word (word_to_pte w)) n = bit w n"
  proof cases
    case 1
    then show ?thesis by (elim disjE) (simp_all add: pte_to_word_def word_to_pte_def word_bits)
  next
    case 2
    then have "n - 9 < 3" by arith
    with 2 show ?thesis by (simp add: pte_to_word_def word_to_pte_def word_bits)
  next
    case 3
    then have "n - 12 < 20" by arith
    with 3 show ?thesis by (auto simp: pte_to_word_def word_to_pte_def word_bits)
  qed
qed

lemma drop_bit_12: "drop_bit 12 (a :: u32) = a div 4096"
  using drop_bit_eq_div[of 12 a] by simp

lemma push_bit_12: "push_bit 12 (a :: u32) = a * 4096"
  using push_bit_eq_mult[of 12 a] by simp

lemma frame_of_div: "ucast (a div 4096) = frame_of a"
  by (simp add: frame_of_def drop_bit_12)

lemma frame_addr_mult: "ucast f * 4096 = frame_addr f"
  by (simp add: frame_addr_def push_bit_12)

lemma frame_of_frame_addr [simp]: "frame_of (frame_addr f) = f"
  by (rule bit_word_eqI) (simp add: frame_of_def frame_addr_def word_bits)

lemma frame_addr_frame_of: "frame_addr (frame_of a) = (a div 4096) * 4096"
proof -
  have "ucast (frame_of a) = a div 4096"
    unfolding frame_of_def drop_bit_12[symmetric]
    by (rule bit_word_eqI) (auto simp: word_bits dest: bit_imp_le_length)
  then show ?thesis by (simp add: frame_addr_mult[symmetric])
qed

lemma frame_addr_frame_of_aligned: "a mod 4096 = 0 \<Longrightarrow> frame_addr (frame_of a) = a"
  using word_mod_div_equality[of a 4096] by (simp add: frame_addr_frame_of)

lemma unat_frame_addr: "unat (frame_addr f) = unat f * 4096"
proof -
  have "unat f < 2 ^ 20" using unsigned_less[of f] by simp
  then show ?thesis
    by (simp add: frame_addr_mult[symmetric] unat_word_ariths(2) unsigned_ucast_eq take_bit_eq_mod)
qed

text \<open>Bytes of distinct frames are apart, and bytes of one frame are told apart by their offset.\<close>

lemma unat_frame_byte: "off < 4096 \<Longrightarrow> unat (frame_addr f + off) = unat f * 4096 + unat off"
proof -
  assume "off < 4096"
  moreover have "unat f < 2 ^ 20" using unsigned_less[of f] by simp
  ultimately show ?thesis by (simp add: unat_word_ariths(1) unat_frame_addr word_less_nat_alt)
qed

lemma frame_byte_parts:
  assumes "off < 4096"
  shows "frame_of (frame_addr f + off) = f" and "(frame_addr f + off) mod 4096 = off"
proof -
  have o: "unat off < 4096" using assms by (simp add: word_less_nat_alt)
  have "unat ((frame_addr f + off) mod 4096) = unat off"
    using o by (simp add: unat_mod_distrib unat_frame_byte[OF assms])
  then show "(frame_addr f + off) mod 4096 = off" by (simp only: word_unat_eq_iff)
  have "unat ((frame_addr f + off) div 4096) = unat f"
    using o by (simp add: unat_div_distrib unat_frame_byte[OF assms])
  then have "unat (frame_of (frame_addr f + off)) = unat f"
    using unsigned_less[of f, where ?'a = nat]
    by (simp add: frame_of_div[symmetric] unsigned_ucast_eq take_bit_eq_mod)
  then show "frame_of (frame_addr f + off) = f" by (simp only: word_unat_eq_iff)
qed

lemma frame_byte_inject:
  assumes "off < 4096" "off' < 4096"
  shows "frame_addr f + off = frame_addr g + off' \<longleftrightarrow> f = g \<and> off = off'"
  using frame_byte_parts[OF assms(1), of f] frame_byte_parts[OF assms(2), of g] by metis

lemma addr_split: "frame_addr (frame_of a) + a mod 4096 = a"
  by (simp add: frame_addr_frame_of word_mod_div_equality)

section \<open>Kernel windows\<close>

definition kaddr :: "nat \<Rightarrow> virtaddr_t" where
  "kaddr i = of_nat i * pg_size + highstart"

lemma unat_kaddr:
  assumes "i < 262144" "off < 4096"
  shows "unat (kaddr i + off) = 0xC0000000 + i * 4096 + unat off"
proof -
  have o: "unat off < 4096" using assms(2) by (simp add: word_less_nat_alt)
  have "unat (of_nat i :: u32) = i" using assms(1) by (simp add: unat_of_nat)
  then have "unat (of_nat i * 4096 :: u32) = i * 4096" using assms(1) by (simp add: unat_word_ariths(2))
  then show ?thesis using assms o
    by (simp add: kaddr_def pg_size_def highstart_def unat_word_ariths(1))
qed

lemma page_parts:
  fixes x :: nat
  assumes "x < 4096"
  shows "(k * 4096 + x) mod 4096 = x" and "(k * 4096 + x) div 4096 = k"
  using assms by simp_all

lemma kaddr_parts:
  assumes "i < 262144" "off < 4096"
  shows "\<not> kaddr i + off < highstart"
    and "(kaddr i + off) mod 4096 = off"
    and "(kaddr i + off) div 4096 = of_nat (786432 + i)"
    and "unat ((kaddr i + off - highstart) div 4096) = i"
proof -
  have o: "unat off < 4096" using assms(2) by (simp add: word_less_nat_alt)
  have u4: "unat (4096 :: u32) = 4096" by simp
  have u: "unat (kaddr i + off) = (786432 + i) * 4096 + unat off" using unat_kaddr[OF assms] by simp
  show ge: "\<not> kaddr i + off < highstart" using u by (simp add: word_less_nat_alt highstart_def)
  have "unat ((kaddr i + off) mod 4096) = unat off"
    by (simp only: unat_mod_distrib u u4 page_parts(1)[OF o])
  then show "(kaddr i + off) mod 4096 = off" by (simp only: word_unat_eq_iff)
  have "unat ((kaddr i + off) div 4096) = 786432 + i"
    by (simp only: unat_div_distrib u u4 page_parts(2)[OF o])
  moreover have "unat (of_nat (786432 + i) :: u32) = 786432 + i"
    using assms(1) by (simp add: unat_of_nat del: of_nat_add)
  ultimately show "(kaddr i + off) div 4096 = of_nat (786432 + i)" by (simp only: word_unat_eq_iff)
  have "unat (kaddr i + off - highstart) = i * 4096 + unat off"
    using ge u unat_sub[of highstart "kaddr i + off"] by (simp add: not_less highstart_def)
  then show "unat ((kaddr i + off - highstart) div 4096) = i"
    using o by (simp add: unat_div_distrib)
qed

lemma kaddr_inject:
  assumes "i < 262144" "j < 262144" "kaddr i = kaddr j"
  shows "i = j"
  using kaddr_parts(4)[OF assms(1), of 0] kaddr_parts(4)[OF assms(2), of 0] assms(3) by simp

lemma kvirt_loc_kaddr [vm_simps]:
  assumes "i < 262144" "off < 4096"
  shows "kvirt_loc s (kaddr i + off) =
    (if pt_present (kernel_flatpt s i) then Some (frame_addr (pt_phys_addr (kernel_flatpt s i)) + off)
     else None)"
  using kaddr_parts[OF assms] by (simp add: kvirt_loc_def Let_def)

lemma i686_virt_to_pte_kaddr [vm_simps]:
  assumes "i < 262144" "local_page_size s = Some 4096"
  shows "i686_virt_to_pte (kaddr i) s = Some i"
proof -
  have d: "kaddr i div 4096 = of_nat (786432 + i)" using kaddr_parts(3)[OF assms(1), of 0] by simp
  have u: "unat (of_nat (786432 + i) :: u32) = 786432 + i"
    using assms(1) by (simp add: unat_of_nat del: of_nat_add)
  have "unat (of_nat (786432 + i) div 1024 :: u32) = 768 + i div 1024"
    by (simp only: unat_div_distrib u) simp
  then have "(of_nat (786432 + i) div 1024 :: u32) \<ge> 768"
    and "unat (of_nat (786432 + i) div 1024 - 768 :: u32) = i div 1024"
    by (simp_all add: word_le_nat_alt unat_sub del: of_nat_add)
  then have "(of_nat (786432 + i) div 1024 - 768 :: u32) < 256"
    using assms(1) by (simp add: word_less_nat_alt del: of_nat_add)
  moreover have "unat (of_nat (786432 + i) - 786432 :: u32) = i"
  proof -
    have "(786432 :: u32) \<le> of_nat (786432 + i)" using u by (simp add: word_le_nat_alt del: of_nat_add)
    then show ?thesis by (simp add: unat_sub u del: of_nat_add)
  qed
  ultimately show ?thesis
    using assms(2) d
    by (simp add: i686_virt_to_pte_def n_start_pde_def n_kernel_pde_def del: of_nat_add)
qed

text \<open>Entry \<open>i\<close> is a window onto frame \<open>f\<close>.\<close>

definition window :: "vm_state \<Rightarrow> nat \<Rightarrow> 20 word \<Rightarrow> bool" where
  "window s i f \<longleftrightarrow> i < 262144 \<and> pt_present (kernel_flatpt s i) \<and> pt_phys_addr (kernel_flatpt s i) = f"

lemma window_loc: "window s i f \<Longrightarrow> off < 4096 \<Longrightarrow> kvirt_loc s (kaddr i + off) = Some (frame_addr f + off)"
  by (simp add: window_def kvirt_loc_kaddr)

definition kfree :: "vm_state \<Rightarrow> nat set" where
  "kfree s = {i. i < 262144 \<and> \<not> pt_present (kernel_flatpt s i)}"

lemma finite_kfree [simp]: "finite (kfree s)"
  by (simp add: kfree_def)

lemma kernel_alloc_scan_Some:
  "kernel_alloc_scan i s = Some j \<Longrightarrow>
     i \<le> j \<and> j \<in> kfree s \<and> (\<forall>k. i \<le> k \<longrightarrow> k < j \<longrightarrow> k \<notin> kfree s)"
proof (induction i s rule: kernel_alloc_scan.induct)
  case (1 i s)
  show ?case
  proof (cases "pt_present (kernel_flatpt s i)")
    case False
    with 1(2) have "j = i" "i < 262144"
      by (auto simp: kernel_alloc_scan.simps[of i s] n_kernel_pde_def split: if_splits)
    with False show ?thesis by (simp add: kfree_def)
  next
    case True
    with 1(2) have lt: "i < 1024 * unat n_kernel_pde" and rec: "kernel_alloc_scan (Suc i) s = Some j"
      by (auto simp: kernel_alloc_scan.simps[of i s] split: if_splits)
    from 1(1)[OF lt _ rec] True have "Suc i \<le> j" "j \<in> kfree s" "\<forall>k. Suc i \<le> k \<longrightarrow> k < j \<longrightarrow> k \<notin> kfree s"
      by simp_all
    moreover have "i \<notin> kfree s" using True by (simp add: kfree_def)
    ultimately show ?thesis by (metis Suc_leD not_less_eq_eq order_antisym)
  qed
qed

lemma kernel_alloc_scan_None:
  "kernel_alloc_scan i s = None \<Longrightarrow> i \<le> j \<Longrightarrow> j \<notin> kfree s"
proof (induction i s rule: kernel_alloc_scan.induct)
  case (1 i s)
  show ?case
  proof (cases "i < 1024 * unat n_kernel_pde")
    case False
    with 1(3) show ?thesis by (auto simp: kfree_def n_kernel_pde_def)
  next
    case True
    with 1(2) have p: "pt_present (kernel_flatpt s i)" and rec: "kernel_alloc_scan (Suc i) s = None"
      by (auto simp: kernel_alloc_scan.simps[of i s] split: if_splits)
    show ?thesis
    proof (cases "j = i")
      case True
      with p show ?thesis by (simp add: kfree_def)
    next
      case False
      with 1(1)[OF True _ rec] p 1(3) show ?thesis by simp
    qed
  qed
qed

definition kalloc_state :: "nat \<Rightarrow> vm_state \<Rightarrow> vm_state" where
  "kalloc_state i s = s\<lparr>kernel_flatpt := (kernel_flatpt s)
     (i := (kernel_flatpt s i)\<lparr>pt_present := True, pt_writable := True\<rparr>)\<rparr>"

lemma i686_kernel_alloc_ok:
  assumes "kfree s \<noteq> {}"
  obtains i where "i \<in> kfree s" "\<forall>j<i. j \<notin> kfree s"
    "i686_kernel_alloc 1 s = Some ((VIRTMEM_SUCCESS, Some (kaddr i)), kalloc_state i s)"
proof -
  obtain i where i: "kernel_alloc_scan 0 s = Some i"
    using assms kernel_alloc_scan_None[of 0 s] by (cases "kernel_alloc_scan 0 s") auto
  note sc = kernel_alloc_scan_Some[OF i]
  then have "i < 262144" by (simp add: kfree_def)
  with i have "i686_kernel_alloc 1 s = Some ((VIRTMEM_SUCCESS, Some (kaddr i)), kalloc_state i s)"
    by (simp add: i686_kernel_alloc_def flatpt_read_def flatpt_write_def kaddr_def kalloc_state_def)
  with sc that show thesis by auto
qed

lemma i686_kernel_alloc_oom:
  assumes "kfree s = {}"
  shows "i686_kernel_alloc 1 s = Some ((VIRTMEM_OOM, None), s)"
  using assms kernel_alloc_scan_Some[of 0 s]
  by (cases "kernel_alloc_scan 0 s") (auto simp: i686_kernel_alloc_def)

lemma kfree_kalloc: "kfree (kalloc_state i s) = kfree s - {i}"
  by (auto simp: kfree_def kalloc_state_def)

definition kmap_state :: "nat \<Rightarrow> 20 word \<Rightarrow> vm_state \<Rightarrow> vm_state" where
  "kmap_state i f s = s\<lparr>kernel_flatpt := (kernel_flatpt s)
     (i := \<lparr>pt_present = True, pt_writable = True, pt_user = False, pt_write_through = False,
            pt_cache_disable = False, pt_accessed = False, pt_dirty = False, pt_zero = False,
            pt_global = False, pt_avail = 0, pt_phys_addr = f\<rparr>)\<rparr>"

lemma set_pte_kernel:
  "i686_set_pte p a (I686_PAGE_WRITABLE OR I686_PAGE_PRESENT) =
     \<lparr>pt_present = True, pt_writable = True, pt_user = False, pt_write_through = False,
      pt_cache_disable = False, pt_accessed = False, pt_dirty = False, pt_zero = False,
      pt_global = False, pt_avail = 0, pt_phys_addr = frame_of a\<rparr>"
  by (simp add: i686_set_pte_def bittestl_def page_flag_defs)

lemma i686_kernel_map_ok:
  assumes "i < 262144" "pt_present (kernel_flatpt s i)" "local_page_size s = Some 4096"
  shows "i686_kernel_map_virt_to_phys p (kaddr i) s = Some (VIRTMEM_SUCCESS, kmap_state i (frame_of p) s)"
  using assms
  by (simp add: i686_kernel_map_virt_to_phys_def i686_virt_to_pte_kaddr flatpt_read_def
      flatpt_write_def set_pte_kernel kmap_state_def)

lemma kmap_window: "i < 262144 \<Longrightarrow> window (kmap_state i f s) i f"
  by (simp add: window_def kmap_state_def)

lemma kmap_window_other: "i \<noteq> j \<Longrightarrow> window (kmap_state i f s) j g = window s j g"
  by (simp add: window_def kmap_state_def)

lemma kfree_kmap: "kfree (kmap_state i f s) = kfree s - {i}"
  by (auto simp: kfree_def kmap_state_def)

lemma kalloc_rest [simp]:
  "vm_pm (kalloc_state i s) = vm_pm s" "localmem (kalloc_state i s) = localmem s"
  "pmem (kalloc_state i s) = pmem s" "local_page_size (kalloc_state i s) = local_page_size s"
  "sym_kernel_pts (kalloc_state i s) = sym_kernel_pts s"
  by (simp_all add: kalloc_state_def local_page_size_def)

lemma kmap_rest [simp]:
  "vm_pm (kmap_state i f s) = vm_pm s" "localmem (kmap_state i f s) = localmem s"
  "pmem (kmap_state i f s) = pmem s" "local_page_size (kmap_state i f s) = local_page_size s"
  "sym_kernel_pts (kmap_state i f s) = sym_kernel_pts s"
  by (simp_all add: kmap_state_def local_page_size_def)


section \<open>The map that the processor walks\<close>

definition pd_slot :: "physaddr_t \<Rightarrow> virtaddr_t \<Rightarrow> physaddr_t" where
  "pd_slot pd va = pd + 4 * (va div 4194304)"

definition pt_slot :: "20 word \<Rightarrow> virtaddr_t \<Rightarrow> physaddr_t" where
  "pt_slot f va = frame_addr f + 4 * (va mod 4194304 div 4096)"

definition user_pde :: "(physaddr_t \<Rightarrow> u8) \<Rightarrow> physaddr_t \<Rightarrow> virtaddr_t \<Rightarrow> i686_pde" where
  "user_pde m pd va = word_to_pde (load32 m (pd_slot pd va))"

text \<open>The entry for an address; without a page table it is as good as an entry of zeroes.\<close>

definition user_pte :: "(physaddr_t \<Rightarrow> u8) \<Rightarrow> physaddr_t \<Rightarrow> virtaddr_t \<Rightarrow> i686_pte" where
  "user_pte m pd va =
     (if pd_present (user_pde m pd va)
      then word_to_pte (load32 m (pt_slot (pd_phys_addr (user_pde m pd va)) va))
      else word_to_pte 0)"

lemma unat_pd_index: "unat (va div 4194304 :: u32) < 1024"
proof -
  have "unat va < 4294967296" using unsigned_less[of va] by simp
  then show ?thesis by (simp add: unat_div_distrib)
qed

lemma unat_pt_index: "unat (va mod 4194304 div 4096 :: u32) < 1024"
proof -
  have "unat (va mod 4194304) < 4194304" by (simp add: unat_mod_distrib)
  then have "unat (va mod 4194304) div 4096 < 1024" by simp
  then show ?thesis by (simp only: unat_div_distrib) simp
qed

lemma slot_offset:
  assumes "unat (k :: u32) < 1024"
  shows "4 * k < 4096" and "unat (4 * k) = 4 * unat k" and "j < 4 \<Longrightarrow> 4 * k + j < 4096"
proof -
  show u: "unat (4 * k) = 4 * unat k" using assms by (simp add: unat_word_ariths(2))
  then show "4 * k < 4096" using assms by (simp add: word_less_nat_alt)
  assume "j < 4"
  then have "unat j < 4" by (simp add: word_less_nat_alt)
  then have "unat (4 * k + j) = 4 * unat k + unat j" using assms u by (simp add: unat_word_ariths(1))
  then show "4 * k + j < 4096" using assms \<open>unat j < 4\<close> by (simp add: word_less_nat_alt)
qed

lemmas pd_offset = slot_offset[OF unat_pd_index] and pt_offset = slot_offset[OF unat_pt_index]

lemma pt_index_div: "va mod 4194304 div 4096 = (va div 4096) mod (1024 :: u32)"
proof -
  have "unat (va mod 4194304 div 4096) = unat ((va div 4096) mod 1024)"
    using div_mult2_eq[of "unat va" 4096 1024] mod_mult2_eq[of "unat va" 4096 1024]
    by (simp add: unat_div_distrib unat_mod_distrib)
  then show ?thesis by (simp only: word_unat_eq_iff)
qed

lemma pd_index_div: "va div 4194304 = (va div 4096) div (1024 :: u32)"
proof -
  have "unat (va div 4194304) = unat ((va div 4096) div 1024)"
    using div_mult2_eq[of "unat va" 4096 1024] by (simp add: unat_div_distrib)
  then show ?thesis by (simp only: word_unat_eq_iff)
qed

text \<open>The page is determined by the two indices.\<close>

lemma page_of_indices:
  assumes "va div 4194304 = va' div (4194304 :: u32)"
    and "va mod 4194304 div 4096 = va' mod 4194304 div (4096 :: u32)"
  shows "va div 4096 = va' div 4096"
  using assms word_mod_div_equality[of "va div 4096" 1024] word_mod_div_equality[of "va' div 4096" 1024]
  unfolding pt_index_div pd_index_div by metis

text \<open>\<^verbatim>\<open>pagestart\<close> as \<^verbatim>\<open>i686_pagewalk\<close> computes it is 0 for the first page only.\<close>

lemma pagewalk_key_zero:
  assumes "va div 4194304 * 4194304 + va mod 4194304 div 4096 = (0 :: u32)"
  shows "va div 4096 = 0"
proof -
  have "unat (va div 4194304 * 4194304) = unat (va div 4194304) * 4194304"
    using unat_pd_index[of va] by (simp add: unat_word_ariths(2))
  moreover have "unat (va div 4194304) * 4194304 + unat (va mod 4194304 div 4096) < 2 ^ LENGTH(32)"
    using unat_pd_index[of va] unat_pt_index[of va] by simp
  ultimately have "unat (va div 4194304) * 4194304 + unat (va mod 4194304 div 4096) = 0"
    using assms unat_word_ariths(1)[of "va div 4194304 * 4194304" "va mod 4194304 div 4096"] by simp
  then have "unat (va div 4194304) = 0" "unat (va mod 4194304 div 4096) = 0" by simp_all
  then have "va div 4194304 = 0 div 4194304" "va mod 4194304 div 4096 = 0 mod 4194304 div 4096"
    unfolding unat_eq_0 by simp_all
  from page_of_indices[OF this] show ?thesis by simp
qed


section \<open>The page walk\<close>

text \<open>Only the kernel's own tables differ.\<close>

definition only_flatpt :: "vm_state \<Rightarrow> vm_state \<Rightarrow> bool" where
  "only_flatpt s s' \<longleftrightarrow> s' = s\<lparr>kernel_flatpt := kernel_flatpt s'\<rparr>"

lemma only_flatptD:
  assumes "only_flatpt s s'"
  shows "vm_pm s' = vm_pm s" "localmem s' = localmem s" "pmem s' = pmem s"
    "local_page_size s' = local_page_size s" "sym_kernel_pts s' = sym_kernel_pts s" "cr3 s' = cr3 s"
proof -
  have "s' = s\<lparr>kernel_flatpt := kernel_flatpt s'\<rparr>" using assms by (simp add: only_flatpt_def)
  then obtain g where "s' = s\<lparr>kernel_flatpt := g\<rparr>" by blast
  then show "vm_pm s' = vm_pm s" "localmem s' = localmem s" "pmem s' = pmem s"
    "local_page_size s' = local_page_size s" "sym_kernel_pts s' = sym_kernel_pts s" "cr3 s' = cr3 s"
    by (simp_all add: local_page_size_def)
qed

lemma flatpt_states_cr3 [simp]: "cr3 (kalloc_state i s) = cr3 s" "cr3 (kmap_state i f s) = cr3 s"
  by (simp_all add: kalloc_state_def kmap_state_def)

text \<open>Entries of the kernel's tables that are in use are not disturbed.\<close>

definition keeps_mapped :: "vm_state \<Rightarrow> vm_state \<Rightarrow> bool" where
  "keeps_mapped s s' \<longleftrightarrow> (\<forall>k. pt_present (kernel_flatpt s k) \<longrightarrow> kernel_flatpt s' k = kernel_flatpt s k)"

definition pagewalk_ready :: "physaddr_t \<Rightarrow> nat \<Rightarrow> nat \<Rightarrow> vm_state \<Rightarrow> bool" where
  "pagewalk_ready pd i j s \<longleftrightarrow>
     i < 262144 \<and> i \<noteq> j \<and> pt_present (kernel_flatpt s i) \<and> window s j (frame_of pd)"

lemma i686_pagewalk_init_ok:
  assumes "2 \<le> card (kfree s)" and ps: "local_page_size s = Some 4096"
  obtains i j s' where
    "i686_pagewalk_init pd s = Some (Some \<lparr>pagestart = 0, pw_pt = kaddr i, pw_pd = kaddr j\<rparr>, s')"
    "pagewalk_ready pd i j s'" "only_flatpt s s'" "kfree s' = kfree s - {i, j}" "i \<in> kfree s" "j \<in> kfree s"
    "keeps_mapped s s'"
proof -
  have "kfree s \<noteq> {}" using assms(1) by auto
  then obtain i where i: "i \<in> kfree s"
    "i686_kernel_alloc 1 s = Some ((VIRTMEM_SUCCESS, Some (kaddr i)), kalloc_state i s)"
    by (rule i686_kernel_alloc_ok)
  let ?s1 = "kalloc_state i s"
  have "0 < card (kfree s - {i})" using i(1) assms(1) by simp
  then have "kfree s - {i} \<noteq> {}" by (metis card.empty less_irrefl)
  then have "kfree ?s1 \<noteq> {}" by (simp add: kfree_kalloc)
  then obtain j where j: "j \<in> kfree ?s1"
    "i686_kernel_alloc 1 ?s1 = Some ((VIRTMEM_SUCCESS, Some (kaddr j)), kalloc_state j ?s1)"
    by (rule i686_kernel_alloc_ok)
  let ?s2 = "kalloc_state j ?s1" and ?s3 = "kmap_state j (frame_of pd) (kalloc_state j (kalloc_state i s))"
  have lt: "i < 262144" "j < 262144" "i \<noteq> j" using i(1) j(1) by (auto simp: kfree_def kalloc_state_def)
  have "pt_present (kernel_flatpt ?s2 j)" by (simp add: kalloc_state_def)
  then have "i686_kernel_map_virt_to_phys pd (kaddr j) ?s2 = Some (VIRTMEM_SUCCESS, ?s3)"
    using lt ps by (intro i686_kernel_map_ok) simp_all
  then have "i686_pagewalk_init pd s = Some (Some \<lparr>pagestart = 0, pw_pt = kaddr i, pw_pd = kaddr j\<rparr>, ?s3)"
    using i(2) j(2) by (simp add: i686_pagewalk_init_def)
  moreover have "pagewalk_ready pd i j ?s3"
    using lt by (simp add: pagewalk_ready_def kmap_window) (simp add: kmap_state_def kalloc_state_def)
  moreover have "only_flatpt s ?s3"
    by (simp add: only_flatpt_def kmap_state_def kalloc_state_def)
  moreover have "kfree ?s3 = kfree s - {i, j}" by (auto simp: kfree_kmap kfree_kalloc)
  moreover have js: "j \<in> kfree s" using j(1) by (simp add: kfree_kalloc)
  moreover have "keeps_mapped s ?s3"
    using i(1) js by (auto simp: keeps_mapped_def kmap_state_def kalloc_state_def kfree_def)
  ultimately show thesis using that i(1) by blast
qed

lemma window_ld32:
  "window s j f \<Longrightarrow> unat k < 1024 \<Longrightarrow>
     vm_ld32 (kaddr j + 4 * k) s = Some (load32 (pmem s) (frame_addr f + 4 * k))"
  using slot_offset(1)[of k] by (simp add: vm_ld32_def window_loc)

lemma window_st32:
  "window s j f \<Longrightarrow> unat k < 1024 \<Longrightarrow>
     vm_st32 (kaddr j + 4 * k) w s = Some (s\<lparr>pmem := store32 (frame_addr f + 4 * k) w (pmem s)\<rparr>)"
  using slot_offset(1)[of k] by (simp add: vm_st32_def window_loc)

definition zero_frame :: "20 word \<Rightarrow> (physaddr_t \<Rightarrow> u8) \<Rightarrow> physaddr_t \<Rightarrow> u8" where
  "zero_frame f m = (\<lambda>a. if frame_of a = f then 0 else m a)"

lemma window_pmem [simp]: "window (s\<lparr>pmem := m\<rparr>) i f = window s i f"
  by (simp add: window_def)

lemma pmem_eqI: "s'\<lparr>pmem := z\<rparr> = s\<lparr>pmem := z\<rparr> \<Longrightarrow> s' = s\<lparr>pmem := pmem s'\<rparr>"
  by (cases s, cases s') simp

lemma memset_window:
  assumes "window s k f"
  shows "memset vm_st (kaddr k) 0 4096 s = Some (kaddr k, s\<lparr>pmem := zero_frame f (pmem s)\<rparr>)"
proof -
  have off: "(of_nat i :: u32) < 4096" if "i < 4096" for i :: nat
    using that by (simp add: word_less_nat_alt unat_of_nat)
  have loc: "kvirt_loc s (kaddr k + of_nat i) = Some (frame_addr f + of_nat i)" if "i < 4096" for i
    using window_loc[OF assms off[OF that]] .
  obtain s' where s': "memset_loop vm_st 4096 (kaddr k) 0 s = Some s'"
    "s'\<lparr>pmem := \<lambda>_. 0\<rparr> = s\<lparr>pmem := \<lambda>_. 0\<rparr>"
    "pmem s' = (\<lambda>l. if \<exists>i<4096. kvirt_loc s (kaddr k + of_nat i) = Some l then 0 else pmem s l)"
    using kvm.memset_loop_ok[of 4096 s "kaddr k" 0] loc by auto
  have "(\<exists>i<4096. kvirt_loc s (kaddr k + of_nat i) = Some l) \<longleftrightarrow> frame_of l = f" for l
  proof
    assume "\<exists>i<4096. kvirt_loc s (kaddr k + of_nat i) = Some l"
    then obtain i where "i < 4096" "frame_addr f + of_nat i = l" using loc by auto
    then show "frame_of l = f" using frame_byte_parts(1)[OF off] by auto
  next
    assume f: "frame_of l = f"
    let ?i = "unat (l mod 4096)"
    have i: "?i < 4096" by (simp add: unat_mod_distrib)
    have "frame_addr f + of_nat ?i = l" using addr_split[of l] f by simp
    with loc[OF i] i show "\<exists>i<4096. kvirt_loc s (kaddr k + of_nat i) = Some l" by metis
  qed
  then have "pmem s' = zero_frame f (pmem s)" using s'(3) by (simp add: zero_frame_def)
  then have "s' = s\<lparr>pmem := zero_frame f (pmem s)\<rparr>" using pmem_eqI[OF s'(2)] by simp
  then show ?thesis using s'(1) by (simp add: memset_def)
qed


text \<open>
  Where the walk for \<open>va\<close> in the directory \<open>pd\<close> ends: the frame \<open>f\<close> of the page table, the
  memory \<open>m\<close> and the page allocator \<open>pm\<close> after it.  A missing table is allocated, zeroed and
  entered in the directory.
\<close>

definition table_pde :: "20 word \<Rightarrow> i686_pde" where
  "table_pde f =
     \<lparr>pd_present = True, pd_writable = True, pd_user = True, pd_write_through = False,
      pd_cache_disable = False, pd_accessed = False, pd_zero = False, pd_size = False,
      pd_global = False, pd_avail = 0, pd_phys_addr = f\<rparr>"

lemma set_pde_user:
  "i686_set_pde p a (I686_PAGE_PRESENT OR I686_PAGE_WRITABLE OR I686_PAGE_USER) = table_pde (frame_of a)"
  by (simp add: i686_set_pde_def table_pde_def bittestl_def page_flag_defs)

definition walk_to ::
  "vm_state \<Rightarrow> physaddr_t \<Rightarrow> virtaddr_t \<Rightarrow> 20 word \<Rightarrow> (physaddr_t \<Rightarrow> u8) \<Rightarrow> pm_state \<Rightarrow> bool" where
  "walk_to s pd va f m pm \<longleftrightarrow>
     (if pd_present (user_pde (pmem s) pd va)
      then f = pd_phys_addr (user_pde (pmem s) pd va) \<and> m = pmem s \<and> pm = vm_pm s
      else \<exists>a. physmem_page_alloc (localmem s) 0 (vm_pm s) = Some ((PHYSMEM_SUCCESS, Some a), pm) \<and>
             physmem_page_size pm (localmem s) = Some 4096 \<and> f = frame_of a \<and>
             m = store32 (pd_slot pd va) (pde_to_word (table_pde f)) (zero_frame f (pmem s)))"

lemma walk_to_only_flatpt:
  assumes "only_flatpt s s'"
  shows "walk_to s' pd va f m pm = walk_to s pd va f m pm"
  using only_flatptD[OF assms] by (simp add: walk_to_def)

lemma i686_initialize_pde_ok:
  assumes al: "physmem_page_alloc (localmem s) 0 (vm_pm s) = Some ((PHYSMEM_SUCCESS, Some a), pm)"
    and ps: "physmem_page_size pm (localmem s) = Some 4096"
    and w: "window s j f" and k: "unat k < 1024" and free: "kfree s \<noteq> {}"
  obtains n s' where "n \<in> kfree s"
    "i686_initialize_pde (kaddr j + 4 * k) s = Some (True, s')"
    "vm_pm s' = pm" "localmem s' = localmem s" "sym_kernel_pts s' = sym_kernel_pts s" "cr3 s' = cr3 s"
    "pmem s' = store32 (frame_addr f + 4 * k) (pde_to_word (table_pde (frame_of a)))
                (zero_frame (frame_of a) (pmem s))"
    "kernel_flatpt s' = kernel_flatpt (kmap_state n (frame_of a) s)"
proof -
  let ?s1 = "s\<lparr>vm_pm := pm\<rparr>"
  have kf: "kfree ?s1 = kfree s" by (simp add: kfree_def)
  then obtain n where n: "n \<in> kfree s"
    "i686_kernel_alloc 1 ?s1 = Some ((VIRTMEM_SUCCESS, Some (kaddr n)), kalloc_state n ?s1)"
    using free i686_kernel_alloc_ok[of ?s1] by metis
  let ?s2 = "kalloc_state n ?s1"
  have lt: "n < 262144" using n(1) by (simp add: kfree_def)
  have ps1: "local_page_size ?s1 = Some 4096" using ps by (simp add: local_page_size_def)
  have "pt_present (kernel_flatpt ?s2 n)" by (simp add: kalloc_state_def)
  then have mp: "i686_kernel_map_virt_to_phys a (kaddr n) ?s2 =
      Some (VIRTMEM_SUCCESS, kmap_state n (frame_of a) ?s2)"
    using lt ps1 by (intro i686_kernel_map_ok) simp_all
  let ?s3 = "kmap_state n (frame_of a) ?s2"
  note ms = memset_window[OF kmap_window[OF lt], of "frame_of a" ?s2]
  let ?s4 = "?s3\<lparr>pmem := zero_frame (frame_of a) (pmem ?s3)\<rparr>"
  have "n \<noteq> j" using w n(1) by (auto simp: window_def kfree_def)
  then have w4: "window ?s4 j f"
    using w by (simp add: kmap_window_other) (simp add: window_def kalloc_state_def)
  have "i686_initialize_pde (kaddr j + 4 * k) s =
     Some (True, ?s4\<lparr>pmem := store32 (frame_addr f + 4 * k) (pde_to_word (table_pde (frame_of a))) (pmem ?s4)\<rparr>)"
    using al n(2) mp ms ps1 window_ld32[OF w4 k] window_st32[OF w4 k]
    by (simp add: i686_initialize_pde_def local_page_alloc_def i686_kernel_free_def pde_modify_def
        set_pde_user)
  with n(1) that show thesis
    by (simp add: kmap_state_def kalloc_state_def)
qed

lemma pd_slot_frame: "pd mod 4096 = 0 \<Longrightarrow> frame_addr (frame_of pd) + 4 * (va div 4194304) = pd_slot pd va"
  by (simp add: pd_slot_def frame_addr_frame_of_aligned)

lemma i686_pagewalk_ok:
  assumes r: "pagewalk_ready pd i j s" and pd: "pd mod 4096 = 0"
    and ps: "local_page_size s = Some 4096" and va: "va div 4096 \<noteq> 0"
    and t: "walk_to s pd va f m pm" and free: "kfree s \<noteq> {}"
  obtains n ctx s' where
    "i686_pagewalk \<lparr>pagestart = 0, pw_pt = kaddr i, pw_pd = kaddr j\<rparr> va s =
       Some (kaddr i + 4 * (va mod 4194304 div 4096), ctx, s')"
    "window s' i f" "pmem s' = m" "vm_pm s' = pm" "localmem s' = localmem s"
    "local_page_size s' = Some 4096" "sym_kernel_pts s' = sym_kernel_pts s" "cr3 s' = cr3 s"
    "kfree s - {n} \<subseteq> kfree s'" "kfree s' \<subseteq> kfree s" "window s' j (frame_of pd)"
    "\<forall>k. k \<noteq> i \<longrightarrow> pt_present (kernel_flatpt s k) \<longrightarrow> kernel_flatpt s' k = kernel_flatpt s k"
proof -
  let ?ctx = "\<lparr>pagestart = 0, pw_pt = kaddr i, pw_pd = kaddr j\<rparr>"
  have i: "i < 262144" "i \<noteq> j" "pt_present (kernel_flatpt s i)" and w: "window s j (frame_of pd)"
    using r by (auto simp: pagewalk_ready_def)
  have key: "va div 4194304 * 4194304 + va mod 4194304 div 4096 \<noteq> 0"
    using va pagewalk_key_zero by blast
  have ld: "vm_ld32 (kaddr j + 4 * (va div 4194304)) s = Some (load32 (pmem s) (pd_slot pd va))"
    using window_ld32[OF w unat_pd_index] by (simp add: pd_slot_frame[OF pd])
  let ?key = "va div 4194304 * 4194304 + va mod 4194304 div 4096"
  show thesis
  proof (cases "pd_present (user_pde (pmem s) pd va)")
    case True
    then have f: "f = pd_phys_addr (user_pde (pmem s) pd va)" "m = pmem s" "pm = vm_pm s"
      using t by (simp_all add: walk_to_def)
    have "i686_pagewalk ?ctx va s = Some (kaddr i + 4 * (va mod 4194304 div 4096),
        ?ctx\<lparr>pagestart := ?key\<rparr>, kmap_state i f s)"
      using ps ld True key f i686_kernel_map_ok[OF i(1,3) ps]
      by (simp add: i686_pagewalk_def Let_def user_pde_def frame_addr_mult)
    then show thesis
      using that[of _ "kmap_state i f s" i] f i ps w
      by (auto simp: kmap_window kmap_window_other kfree_kmap) (auto simp: kmap_state_def)
  next
    case False
    then obtain a where al: "physmem_page_alloc (localmem s) 0 (vm_pm s) = Some ((PHYSMEM_SUCCESS, Some a), pm)"
      and ps': "physmem_page_size pm (localmem s) = Some 4096" and f: "f = frame_of a"
      and m: "m = store32 (pd_slot pd va) (pde_to_word (table_pde f)) (zero_frame f (pmem s))"
      using t by (auto simp: walk_to_def)
    obtain n s1 where n: "n \<in> kfree s"
      "i686_initialize_pde (kaddr j + 4 * (va div 4194304)) s = Some (True, s1)"
      "vm_pm s1 = pm" "localmem s1 = localmem s" "sym_kernel_pts s1 = sym_kernel_pts s" "cr3 s1 = cr3 s"
      "pmem s1 = m" "kernel_flatpt s1 = kernel_flatpt (kmap_state n f s)"
      using i686_initialize_pde_ok[OF al ps' w unat_pd_index[of va] free]
      by (metis f m pd_slot_frame[OF pd])
    have nij: "n \<noteq> i" "n \<noteq> j" "n < 262144" using n(1) i w by (auto simp: kfree_def window_def)
    have w1: "window s1 j (frame_of pd)" and i1: "pt_present (kernel_flatpt s1 i)"
      and kf: "kfree s1 = kfree s - {n}"
      using n(8) nij w i by (auto simp: window_def kfree_def kmap_state_def)
    have ps1: "local_page_size s1 = Some 4096" using ps' n(3,4) by (simp add: local_page_size_def)
    have "vm_ld32 (kaddr j + 4 * (va div 4194304)) s1 = Some (pde_to_word (table_pde f))"
      using window_ld32[OF w1 unat_pd_index] n(7) m by (simp add: pd_slot_frame[OF pd] load32_store32)
    then have "i686_pagewalk ?ctx va s = Some (kaddr i + 4 * (va mod 4194304 div 4096),
        ?ctx\<lparr>pagestart := ?key\<rparr>, kmap_state i f s1)"
      using ps ps1 ld False key n(2) i686_kernel_map_ok[OF i(1) i1 ps1]
      by (simp add: i686_pagewalk_def Let_def user_pde_def frame_addr_mult word_to_pde_to_word table_pde_def)
    moreover have "kfree (kmap_state i f s1) = kfree s - {n}"
      using kf i by (simp add: kfree_kmap) (simp add: kfree_def)
    moreover have "\<forall>k. k \<noteq> i \<longrightarrow> pt_present (kernel_flatpt s k) \<longrightarrow>
        kernel_flatpt (kmap_state i f s1) k = kernel_flatpt s k"
      using n(1,8) by (auto simp: kmap_state_def kfree_def)
    ultimately show thesis
      by (intro that[of _ "kmap_state i f s1" n])
         (use n(3-7) i ps1 w1 in \<open>simp_all add: kmap_window kmap_window_other\<close>)
  qed
qed



section \<open>User page operations\<close>

definition vm_step :: "vm_state \<Rightarrow> pm_state \<Rightarrow> (physaddr_t \<Rightarrow> u8) \<Rightarrow> vm_state \<Rightarrow> bool" where
  "vm_step s pm m s' \<longleftrightarrow>
     vm_pm s' = pm \<and> pmem s' = m \<and> localmem s' = localmem s \<and> local_page_size s' = Some 4096 \<and>
     sym_kernel_pts s' = sym_kernel_pts s \<and> cr3 s' = cr3 s \<and> kfree s' \<subseteq> kfree s \<and>
     card (kfree s) \<le> card (kfree s') + 3 \<and> keeps_mapped s s'"

text \<open>What a walk needs: three free kernel pages, for the two windows and for a new table.\<close>

definition walk_ready :: "vm_state \<Rightarrow> physaddr_t \<Rightarrow> virtaddr_t \<Rightarrow> bool" where
  "walk_ready s pd va \<longleftrightarrow>
     pd mod 4096 = 0 \<and> va div 4096 \<noteq> 0 \<and> local_page_size s = Some 4096 \<and> 3 \<le> card (kfree s)"

lemma walk_setup:
  assumes ready: "walk_ready s pd va" and t: "walk_to s pd va f m pm"
  obtains ctx s1 ctx2 i s2 where
    "i686_pagewalk_init pd s = Some (Some ctx, s1)"
    "i686_pagewalk ctx va s1 = Some (kaddr i + 4 * (va mod 4194304 div 4096), ctx2, s2)"
    "window s2 i f" "vm_step s pm m s2"
proof -
  have pd: "pd mod 4096 = 0" and va: "va div 4096 \<noteq> 0" and ps: "local_page_size s = Some 4096"
    and free: "3 \<le> card (kfree s)" using ready by (simp_all add: walk_ready_def)
  have two: "2 \<le> card (kfree s)" using free by simp
  obtain i j s1 where init:
    "i686_pagewalk_init pd s = Some (Some \<lparr>pagestart = 0, pw_pt = kaddr i, pw_pd = kaddr j\<rparr>, s1)"
    "pagewalk_ready pd i j s1" "only_flatpt s s1" "kfree s1 = kfree s - {i, j}" "i \<in> kfree s" "j \<in> kfree s"
    "keeps_mapped s s1" by (rule i686_pagewalk_init_ok[OF two ps])
  note of = only_flatptD[OF init(3)]
  have ps1: "local_page_size s1 = Some 4096" using ps of by simp
  have t1: "walk_to s1 pd va f m pm" using t walk_to_only_flatpt[OF init(3)] by simp
  have "card {i, j} \<le> 2" by (simp add: card_insert_if)
  then have "card (kfree s) \<le> card (kfree s1) + 2"
    using init(4) diff_card_le_card_Diff[of "{i, j}" "kfree s"] by simp
  moreover from this free have "kfree s1 \<noteq> {}" by auto
  then obtain n ctx2 s2 where w:
    "i686_pagewalk \<lparr>pagestart = 0, pw_pt = kaddr i, pw_pd = kaddr j\<rparr> va s1 =
       Some (kaddr i + 4 * (va mod 4194304 div 4096), ctx2, s2)"
    "window s2 i f" "pmem s2 = m" "vm_pm s2 = pm" "localmem s2 = localmem s1"
    "local_page_size s2 = Some 4096" "sym_kernel_pts s2 = sym_kernel_pts s1" "cr3 s2 = cr3 s1"
    "kfree s1 - {n} \<subseteq> kfree s2" "kfree s2 \<subseteq> kfree s1"
    "\<forall>k. k \<noteq> i \<longrightarrow> pt_present (kernel_flatpt s1 k) \<longrightarrow> kernel_flatpt s2 k = kernel_flatpt s1 k"
    using i686_pagewalk_ok[OF init(2) pd ps1 va t1] by metis
  have "card (kfree s1) \<le> card (kfree s1 - {n}) + 1"
    using diff_card_le_card_Diff[of "{n}" "kfree s1"] by simp
  moreover have "card (kfree s1 - {n}) \<le> card (kfree s2)" using w(9) by (intro card_mono) simp
  ultimately have "card (kfree s) \<le> card (kfree s2) + 3" by linarith
  moreover have "keeps_mapped s s2"
    using init(5,7) w(11) unfolding keeps_mapped_def kfree_def by fastforce
  ultimately have "vm_step s pm m s2" using w(3-10) of init(4) by (auto simp: vm_step_def)
  with init(1) w(1,2) that show thesis by blast
qed

lemma pagewalk_done_id [simp]: "i686_pagewalk_done ctx s = s"
  by (simp add: i686_pagewalk_done_def i686_kernel_free_def)

lemma vm_step_pmem: "vm_step s pm m s' \<Longrightarrow> vm_step s pm m' (s'\<lparr>pmem := m'\<rparr>)"
  by (auto simp: vm_step_def local_page_size_def kfree_def keeps_mapped_def)

lemma window_pte_modify:
  assumes "window s i f"
  shows "pte_modify (kaddr i + 4 * (va mod 4194304 div 4096)) g s = Some (s\<lparr>pmem :=
    store32 (pt_slot f va) (pte_to_word (g (word_to_pte (load32 (pmem s) (pt_slot f va))))) (pmem s)\<rparr>)"
  using window_ld32[OF assms unat_pt_index] window_st32[OF assms unat_pt_index]
  by (simp add: pte_modify_def pt_slot_def)

lemma map_page_mem:
  assumes "walk_ready s pd va" and "walk_to s pd va f m pm"
  shows "\<exists>s'. i686_user_map_page pd va p s = Some (VIRTMEM_SUCCESS, s') \<and>
     vm_step s pm (store32 (pt_slot f va)
       (pte_to_word ((word_to_pte (load32 m (pt_slot f va)))\<lparr>pt_phys_addr := frame_of p\<rparr>)) m) s'"
proof -
  obtain ctx s1 ctx2 i s2 where w: "i686_pagewalk_init pd s = Some (Some ctx, s1)"
    "i686_pagewalk ctx va s1 = Some (kaddr i + 4 * (va mod 4194304 div 4096), ctx2, s2)"
    "window s2 i f" and st: "vm_step s pm m s2" using walk_setup[OF assms] .
  then have "pmem s2 = m" "local_page_size s2 = Some 4096" by (simp_all add: vm_step_def)
  then show ?thesis
    using w window_pte_modify[OF w(3)] vm_step_pmem[OF st]
    by (simp add: i686_user_map_page_def frame_of_div)
qed

lemma set_flags_mem:
  assumes "walk_ready s pd va" and "walk_to s pd va f m pm"
  shows "\<exists>s'. i686_user_set_page_flags pd va flags s = Some (VIRTMEM_SUCCESS, s') \<and>
     vm_step s pm (store32 (pt_slot f va)
       (pte_to_word ((word_to_pte (load32 m (pt_slot f va)))
         \<lparr>pt_writable := bittestl flags VIRTMEM_PAGE_WRITABLE,
          pt_user := bittestl flags VIRTMEM_PAGE_READABLE, pt_present := True\<rparr>)) m) s'"
proof -
  obtain ctx s1 ctx2 i s2 where w: "i686_pagewalk_init pd s = Some (Some ctx, s1)"
    "i686_pagewalk ctx va s1 = Some (kaddr i + 4 * (va mod 4194304 div 4096), ctx2, s2)"
    "window s2 i f" and st: "vm_step s pm m s2" using walk_setup[OF assms] .
  then have "pmem s2 = m" by (simp add: vm_step_def)
  then show ?thesis
    using w window_pte_modify[OF w(3)] vm_step_pmem[OF st]
    by (simp add: i686_user_set_page_flags_def)
qed

lemma get_page_mem:
  assumes "walk_ready s pd va" and "walk_to s pd va f m pm"
  shows "\<exists>s'. i686_user_get_page pd va s = Some ((VIRTMEM_SUCCESS,
        Some (frame_addr (pt_phys_addr (word_to_pte (load32 m (pt_slot f va)))))), s') \<and> vm_step s pm m s'"
proof -
  obtain ctx s1 ctx2 i s2 where w: "i686_pagewalk_init pd s = Some (Some ctx, s1)"
    "i686_pagewalk ctx va s1 = Some (kaddr i + 4 * (va mod 4194304 div 4096), ctx2, s2)"
    "window s2 i f" and st: "vm_step s pm m s2" using walk_setup[OF assms] .
  then have "pmem s2 = m" "local_page_size s2 = Some 4096" by (simp_all add: vm_step_def)
  then show ?thesis
    using w window_ld32[OF w(3) unat_pt_index] st
    by (simp add: i686_user_get_page_def frame_addr_mult pt_slot_def)
qed



section \<open>Refinement to the map of a directory\<close>

text \<open>
  The page tables of a directory are in frames of their own.
\<close>

definition tables :: "(physaddr_t \<Rightarrow> u8) \<Rightarrow> physaddr_t \<Rightarrow> 20 word set" where
  "tables m pd = {pd_phys_addr (user_pde m pd va) | va. pd_present (user_pde m pd va)}"

definition wf_pd :: "(physaddr_t \<Rightarrow> u8) \<Rightarrow> physaddr_t \<Rightarrow> bool" where
  "wf_pd m pd \<longleftrightarrow>
     pd mod 4096 = 0 \<and> frame_of pd \<notin> tables m pd \<and>
     (\<forall>va va'. pd_present (user_pde m pd va) \<longrightarrow> pd_present (user_pde m pd va') \<longrightarrow>
        pd_phys_addr (user_pde m pd va) = pd_phys_addr (user_pde m pd va') \<longrightarrow>
        va div 4194304 = va' div 4194304)"

lemma wf_pdD:
  assumes "wf_pd m pd"
  shows "pd mod 4096 = 0" and "frame_of pd \<notin> tables m pd"
    and "pd_present (user_pde m pd va) \<Longrightarrow> pd_present (user_pde m pd va') \<Longrightarrow>
      pd_phys_addr (user_pde m pd va) = pd_phys_addr (user_pde m pd va') \<Longrightarrow>
      va div 4194304 = va' div 4194304"
  using assms unfolding wf_pd_def by blast+

definition same_outside :: "20 word set \<Rightarrow> (physaddr_t \<Rightarrow> u8) \<Rightarrow> (physaddr_t \<Rightarrow> u8) \<Rightarrow> bool" where
  "same_outside F m m' \<longleftrightarrow> (\<forall>a. frame_of a \<notin> F \<longrightarrow> m' a = m a)"

lemma same_outside_trans: "same_outside F m m' \<Longrightarrow> same_outside F m' m'' \<Longrightarrow> same_outside F m m''"
  by (simp add: same_outside_def)

lemma same_outside_mono: "same_outside F m m' \<Longrightarrow> F \<subseteq> G \<Longrightarrow> same_outside G m m'"
  by (auto simp: same_outside_def)

lemma slot_bytes:
  assumes "unat (k :: u32) < 1024" "j < 4"
  shows "frame_of (frame_addr g + 4 * k + j) = g"
  using frame_byte_parts(1)[OF slot_offset(3)[OF assms], of g] by (simp add: add.assoc)

lemma load32_same_outside:
  assumes "same_outside F m m'" "g \<notin> F" "unat (k :: u32) < 1024"
  shows "load32 m' (frame_addr g + 4 * k) = load32 m (frame_addr g + 4 * k)"
proof -
  have "m' (frame_addr g + 4 * k + j) = m (frame_addr g + 4 * k + j)" if "j < 4" for j
    using assms slot_bytes[OF assms(3) that, of g] by (simp add: same_outside_def)
  from this[of 0] this[of 1] this[of 2] this[of 3] show ?thesis by (simp add: load32_def)
qed

lemma load32_pt_slot:
  "same_outside F m m' \<Longrightarrow> g \<notin> F \<Longrightarrow> load32 m' (pt_slot g va) = load32 m (pt_slot g va)"
  unfolding pt_slot_def by (rule load32_same_outside[OF _ _ unat_pt_index])

lemma store32_slot_outside:
  assumes "unat (k :: u32) < 1024"
  shows "same_outside {g} m (store32 (frame_addr g + 4 * k) w m)"
  using slot_bytes[OF assms, of 0 g] slot_bytes[OF assms, of 1 g] slot_bytes[OF assms, of 2 g]
    slot_bytes[OF assms, of 3 g]
  by (auto simp: same_outside_def store32_def)

lemma zero_frame_outside: "same_outside {f} m (zero_frame f m)"
  by (simp add: same_outside_def zero_frame_def)

lemma slot_aligned:
  assumes "unat (k :: u32) < 1024"
  shows "(frame_addr g + 4 * k) mod 4 = 0"
proof -
  have "unat (frame_addr g + 4 * k) = 4 * (unat g * 1024 + unat k)"
    using unat_frame_byte[OF slot_offset(1)[OF assms], of g] slot_offset(2)[OF assms] by simp
  then have "unat ((frame_addr g + 4 * k) mod 4) = 0" by (simp add: unat_mod_distrib)
  then show ?thesis by (simp only: unat_eq_0)
qed

lemma slot_inject:
  assumes "unat (k :: u32) < 1024" "unat (l :: u32) < 1024"
  shows "frame_addr g + 4 * k = frame_addr g + 4 * l \<longleftrightarrow> k = l"
proof
  assume "frame_addr g + 4 * k = frame_addr g + 4 * l"
  then have "4 * k = 4 * l" by simp
  then have "4 * unat k = 4 * unat l" using slot_offset(2)[OF assms(1)] slot_offset(2)[OF assms(2)] by metis
  then show "k = l" by (simp add: word_unat_eq_iff)
qed simp

lemma load32_store32_slot:
  assumes "unat (k :: u32) < 1024" "unat (l :: u32) < 1024"
  shows "load32 (store32 (frame_addr g + 4 * k) w m) (frame_addr g + 4 * l) =
    (if k = l then w else load32 m (frame_addr g + 4 * l))"
  using load32_store32_other[OF slot_aligned[OF assms(1), of g] slot_aligned[OF assms(2), of g]] slot_inject[OF assms, of g]
  by (auto simp: load32_store32)

lemma user_pde_outside:
  assumes "same_outside F m m'" "frame_of pd \<notin> F" "pd mod 4096 = 0"
  shows "user_pde m' pd va = user_pde m pd va"
  using load32_same_outside[OF assms(1,2) unat_pd_index[of va]]
  by (simp add: user_pde_def pd_slot_frame[OF assms(3)])

lemma user_pte_outside:
  assumes "same_outside F m m'" "frame_of pd \<notin> F" "pd mod 4096 = 0" "tables m pd \<inter> F = {}"
  shows "user_pte m' pd va = user_pte m pd va"
proof (cases "pd_present (user_pde m pd va)")
  case True
  then have "pd_phys_addr (user_pde m pd va) \<notin> F" using assms(4) by (auto simp: tables_def)
  from load32_same_outside[OF assms(1) this unat_pt_index[of va]] show ?thesis
    by (simp add: user_pte_def pt_slot_def user_pde_outside[OF assms(1-3)])
qed (simp add: user_pte_def user_pde_outside[OF assms(1-3)])

text \<open>Writing the entry of a page in its table.\<close>

lemma store_pte_refines:
  assumes wf: "wf_pd m pd" and p: "pd_present (user_pde m pd va)" and f: "f = pd_phys_addr (user_pde m pd va)"
  shows "user_pde (store32 (pt_slot f va) w m) pd = user_pde m pd"
    and "wf_pd (store32 (pt_slot f va) w m) pd"
    and "user_pte (store32 (pt_slot f va) w m) pd va' =
      (if va' div 4096 = va div 4096 then word_to_pte w else user_pte m pd va')"
proof -
  let ?m = "store32 (pt_slot f va) w m"
  have so: "same_outside {f} m ?m" unfolding pt_slot_def by (rule store32_slot_outside[OF unat_pt_index])
  have "f \<in> tables m pd" using p f by (auto simp: tables_def)
  then have ne: "frame_of pd \<notin> {f}" using wf_pdD(2)[OF wf] by auto
  have al: "pd mod 4096 = 0" using wf by (rule wf_pdD)
  show pde: "user_pde ?m pd = user_pde m pd" by (rule ext, rule user_pde_outside[OF so ne al])
  show "wf_pd ?m pd" using wf unfolding wf_pd_def tables_def pde .
  show "user_pte ?m pd va' = (if va' div 4096 = va div 4096 then word_to_pte w else user_pte m pd va')"
  proof (cases "va' div 4194304 = va div 4194304")
    case True
    then have e: "user_pde m pd va' = user_pde m pd va" by (simp add: user_pde_def pd_slot_def)
    have same: "va' mod 4194304 div 4096 = va mod 4194304 div 4096 \<longleftrightarrow> va' div 4096 = va div 4096"
      using page_of_indices[OF True] by (auto simp: pt_index_div)
    have L: "user_pte ?m pd va' = word_to_pte (load32 ?m (pt_slot f va'))"
      unfolding user_pte_def pde e using p f by simp
    have R: "user_pte m pd va' = word_to_pte (load32 m (pt_slot f va'))"
      unfolding user_pte_def e using p f by simp
    have "load32 ?m (pt_slot f va') = (if va' div 4096 = va div 4096 then w else load32 m (pt_slot f va'))"
      unfolding pt_slot_def load32_store32_slot[OF unat_pt_index[of va] unat_pt_index[of va']]
        same[symmetric] by auto
    then show ?thesis unfolding L R by simp
  next
    case False
    then have np: "va' div 4096 \<noteq> va div 4096" by (auto simp: pd_index_div)
    show ?thesis
    proof (cases "pd_present (user_pde m pd va')")
      case True
      then have "pd_phys_addr (user_pde m pd va') \<notin> {f}" using wf_pdD(3)[OF wf True p] f False by auto
      from load32_pt_slot[OF so this, of va'] np show ?thesis unfolding user_pte_def pde by simp
    qed (use np pde in \<open>simp add: user_pte_def\<close>)
  qed
qed

text \<open>Entering a new, zeroed table does not change the map.\<close>

lemma new_table_refines:
  assumes wf: "wf_pd m pd" and p: "\<not> pd_present (user_pde m pd va)"
    and fresh: "f \<notin> insert (frame_of pd) (tables m pd)"
    and m': "m' = store32 (pd_slot pd va) (pde_to_word (table_pde f)) (zero_frame f m)"
  shows "user_pde m' pd va' = (if va' div 4194304 = va div 4194304 then table_pde f else user_pde m pd va')"
    and "wf_pd m' pd" and "user_pte m' pd = user_pte m pd" and "same_outside {f, frame_of pd} m m'"
proof -
  have al: "pd mod 4096 = 0" using wf by (rule wf_pdD)
  let ?z = "zero_frame f m"
  have z: "user_pde ?z pd = user_pde m pd"
    by (rule ext, rule user_pde_outside[OF zero_frame_outside _ al]) (use fresh in auto)
  have so: "same_outside {frame_of pd} ?z m'"
    unfolding m' pd_slot_frame[OF al, symmetric] by (rule store32_slot_outside[OF unat_pd_index])
  show out: "same_outside {f, frame_of pd} m m'"
    by (rule same_outside_trans[OF same_outside_mono[OF zero_frame_outside] same_outside_mono[OF so]]) auto
  have e: "user_pde m' pd v = (if v div 4194304 = va div 4194304 then table_pde f else user_pde m pd v)" for v
    using load32_store32_slot[OF unat_pd_index[of va] unat_pd_index[of v], of "frame_of pd"
        "pde_to_word (table_pde f)" ?z] fun_cong[OF z, of v]
    unfolding m' user_pde_def pd_slot_frame[OF al] by (auto simp: word_to_pde_to_word)
  then show "user_pde m' pd va' = (if va' div 4194304 = va div 4194304 then table_pde f else user_pde m pd va')" .
  have other: "pd_phys_addr (user_pde m pd v) \<noteq> f" if "pd_present (user_pde m pd v)" for v
    using that fresh by (auto simp: tables_def)
  have same: "user_pde m pd v = user_pde m pd va" if "v div 4194304 = va div 4194304" for v
    using that by (simp add: user_pde_def pd_slot_def)
  have "tables m' pd \<subseteq> insert f (tables m pd)"
    by (auto simp: tables_def e table_pde_def split: if_splits)
  then have pdf: "frame_of pd \<notin> tables m' pd" using wf_pdD(2)[OF wf] fresh by auto
  have "v div 4194304 = v' div 4194304"
    if "pd_present (user_pde m' pd v)" "pd_present (user_pde m' pd v')"
      "pd_phys_addr (user_pde m' pd v) = pd_phys_addr (user_pde m' pd v')" for v v'
  proof (cases "v div 4194304 = va div 4194304 \<or> v' div 4194304 = va div 4194304")
    case True
    then show ?thesis using that other[of v] other[of v'] by (auto simp: e table_pde_def split: if_splits)
  next
    case False
    then show ?thesis using that wf_pdD(3)[OF wf, of v v'] by (simp add: e)
  qed
  then show "wf_pd m' pd" using al pdf unfolding wf_pd_def by blast
  show "user_pte m' pd = user_pte m pd"
  proof
    fix v
    show "user_pte m' pd v = user_pte m pd v"
    proof (cases "v div 4194304 = va div 4194304")
      case True
      have "load32 m' (pt_slot f v) = load32 ?z (pt_slot f v)"
        unfolding pt_slot_def by (rule load32_same_outside[OF so _ unat_pt_index]) (use fresh in auto)
      also have "\<dots> = 0"
        using slot_bytes[OF unat_pt_index[of v], of 0 f] slot_bytes[OF unat_pt_index[of v], of 1 f]
          slot_bytes[OF unat_pt_index[of v], of 2 f] slot_bytes[OF unat_pt_index[of v], of 3 f]
        by (simp add: pt_slot_def load32_def zero_frame_def)
      finally show ?thesis using p same[OF True] by (simp add: user_pte_def e True table_pde_def)
    next
      case False
      show ?thesis
      proof (cases "pd_present (user_pde m pd v)")
        case True
        then have "pd_phys_addr (user_pde m pd v) \<notin> {f, frame_of pd}"
          using wf_pdD(2)[OF wf] other by (auto simp: tables_def)
        from load32_same_outside[OF out this unat_pt_index[of v]] False show ?thesis
          by (simp add: user_pte_def e pt_slot_def)
      qed (use False in \<open>simp add: user_pte_def e\<close>)
    qed
  qed
qed



text \<open>
  The condition under which an operation on the page at \<open>va\<close> succeeds: the directory is well
  formed, the kernel has pages for the windows, and a missing page table can be allocated.
\<close>

definition can_walk :: "vm_state \<Rightarrow> physaddr_t \<Rightarrow> virtaddr_t \<Rightarrow> bool" where
  "can_walk s pd va \<longleftrightarrow>
     walk_ready s pd va \<and> wf_pd (pmem s) pd \<and>
     (pd_present (user_pde (pmem s) pd va) \<or>
      (\<exists>a pm. physmem_page_alloc (localmem s) 0 (vm_pm s) = Some ((PHYSMEM_SUCCESS, Some a), pm) \<and>
         physmem_page_size pm (localmem s) = Some 4096 \<and>
         frame_of a \<notin> insert (frame_of pd) (tables (pmem s) pd)))"

lemma can_walk_to:
  assumes "can_walk s pd va"
  obtains f m pm where "walk_ready s pd va" "walk_to s pd va f m pm" "wf_pd m pd"
    "pd_present (user_pde m pd va)" "f = pd_phys_addr (user_pde m pd va)"
    "user_pte m pd = user_pte (pmem s) pd" "same_outside {f, frame_of pd} (pmem s) m"
proof -
  have r: "walk_ready s pd va" and wf: "wf_pd (pmem s) pd" using assms by (auto simp: can_walk_def)
  show thesis
  proof (cases "pd_present (user_pde (pmem s) pd va)")
    case True
    with r wf show thesis
      by (intro that[of "pd_phys_addr (user_pde (pmem s) pd va)" "pmem s" "vm_pm s"])
         (simp_all add: walk_to_def same_outside_def)
  next
    case False
    then obtain a pm where al: "physmem_page_alloc (localmem s) 0 (vm_pm s) = Some ((PHYSMEM_SUCCESS, Some a), pm)"
      "physmem_page_size pm (localmem s) = Some 4096"
      and fresh: "frame_of a \<notin> insert (frame_of pd) (tables (pmem s) pd)"
      using assms unfolding can_walk_def by blast
    let ?m = "store32 (pd_slot pd va) (pde_to_word (table_pde (frame_of a))) (zero_frame (frame_of a) (pmem s))"
    note n = new_table_refines[OF wf False fresh refl]
    show thesis
      by (rule that[of "frame_of a" ?m pm])
         (use r al False n n(1)[of va] in \<open>simp_all add: walk_to_def table_pde_def\<close>)
  qed
qed

text \<open>The effect of an operation on the map of the directory.\<close>

definition updates_page ::
  "physaddr_t \<Rightarrow> virtaddr_t \<Rightarrow> (i686_pte \<Rightarrow> i686_pte) \<Rightarrow> vm_state \<Rightarrow> vm_state \<Rightarrow> bool" where
  "updates_page pd va g s s' \<longleftrightarrow>
     wf_pd (pmem s') pd \<and> pd_present (user_pde (pmem s') pd va) \<and>
     user_pte (pmem s') pd =
       (\<lambda>va'. if va' div 4096 = va div 4096 then g (user_pte (pmem s) pd va) else user_pte (pmem s) pd va') \<and>
     same_outside (insert (frame_of pd) (tables (pmem s') pd)) (pmem s) (pmem s') \<and>
     localmem s' = localmem s \<and> local_page_size s' = Some 4096 \<and> kfree s' \<subseteq> kfree s \<and>
     card (kfree s) \<le> card (kfree s') + 3 \<and> keeps_mapped s s'"

lemma updates_pageI:
  assumes w: "wf_pd m pd" "pd_present (user_pde m pd va)" "f = pd_phys_addr (user_pde m pd va)"
    and m: "user_pte m pd = user_pte (pmem s) pd" "same_outside {f, frame_of pd} (pmem s) m"
    and st: "vm_step s pm (store32 (pt_slot f va) (pte_to_word (g (word_to_pte (load32 m (pt_slot f va))))) m) s'"
  shows "updates_page pd va g s s'"
proof -
  let ?w = "pte_to_word (g (word_to_pte (load32 m (pt_slot f va))))"
  have s': "pmem s' = store32 (pt_slot f va) ?w m" using st by (simp add: vm_step_def)
  note r = store_pte_refines[OF w, of ?w, folded s']
  have "user_pte m pd va = word_to_pte (load32 m (pt_slot f va))" using w(2,3) by (simp add: user_pte_def)
  then have map: "user_pte (pmem s') pd =
      (\<lambda>va'. if va' div 4096 = va div 4096 then g (user_pte (pmem s) pd va) else user_pte (pmem s) pd va')"
    using r(3) m(1) by (simp add: fun_eq_iff word_to_pte_to_word)
  have "same_outside {f} m (pmem s')"
    unfolding s' pt_slot_def by (rule store32_slot_outside[OF unat_pt_index])
  then have "same_outside {f, frame_of pd} (pmem s) (pmem s')"
    using same_outside_trans[OF m(2) same_outside_mono] by blast
  moreover have "f \<in> tables (pmem s') pd" using w(2,3) r(1) by (auto simp: tables_def)
  ultimately have "same_outside (insert (frame_of pd) (tables (pmem s') pd)) (pmem s) (pmem s')"
    by (blast intro: same_outside_mono)
  with r map w(2) st show ?thesis by (simp add: updates_page_def vm_step_def)
qed

lemma map_page_updates:
  assumes "can_walk s pd va"
  shows "\<exists>s'. i686_user_map_page pd va p s = Some (VIRTMEM_SUCCESS, s') \<and>
    updates_page pd va (\<lambda>e. e\<lparr>pt_phys_addr := frame_of p\<rparr>) s s'"
proof -
  obtain f m pm where w: "walk_ready s pd va" "walk_to s pd va f m pm" "wf_pd m pd"
    "pd_present (user_pde m pd va)" "f = pd_phys_addr (user_pde m pd va)"
    "user_pte m pd = user_pte (pmem s) pd" "same_outside {f, frame_of pd} (pmem s) m"
    by (rule can_walk_to[OF assms])
  show ?thesis using map_page_mem[OF w(1,2), of p] updates_pageI[OF w(3-7)] by blast
qed

lemma set_flags_updates:
  assumes "can_walk s pd va"
  shows "\<exists>s'. i686_user_set_page_flags pd va flags s = Some (VIRTMEM_SUCCESS, s') \<and>
    updates_page pd va (\<lambda>e. e\<lparr>pt_writable := bittestl flags VIRTMEM_PAGE_WRITABLE,
      pt_user := bittestl flags VIRTMEM_PAGE_READABLE, pt_present := True\<rparr>) s s'"
proof -
  obtain f m pm where w: "walk_ready s pd va" "walk_to s pd va f m pm" "wf_pd m pd"
    "pd_present (user_pde m pd va)" "f = pd_phys_addr (user_pde m pd va)"
    "user_pte m pd = user_pte (pmem s) pd" "same_outside {f, frame_of pd} (pmem s) m"
    by (rule can_walk_to[OF assms])
  show ?thesis
    using set_flags_mem[OF w(1,2), of flags]
      updates_pageI[OF w(3-7), where g = "\<lambda>e. e\<lparr>pt_writable := bittestl flags VIRTMEM_PAGE_WRITABLE,
        pt_user := bittestl flags VIRTMEM_PAGE_READABLE, pt_present := True\<rparr>"]
    by blast
qed

lemma get_page_reads:
  assumes "can_walk s pd va"
  shows "\<exists>s'. i686_user_get_page pd va s =
      Some ((VIRTMEM_SUCCESS, Some (frame_addr (pt_phys_addr (user_pte (pmem s) pd va)))), s') \<and>
    updates_page pd va (\<lambda>e. e) s s'"
proof -
  obtain f m pm where w: "walk_ready s pd va" "walk_to s pd va f m pm" "wf_pd m pd"
    "pd_present (user_pde m pd va)" "f = pd_phys_addr (user_pde m pd va)"
    "user_pte m pd = user_pte (pmem s) pd" "same_outside {f, frame_of pd} (pmem s) m"
    by (rule can_walk_to[OF assms])
  have e: "user_pte (pmem s) pd va = word_to_pte (load32 m (pt_slot f va))"
    using w(4,5) unfolding w(6)[symmetric] by (simp add: user_pte_def)
  obtain s' where s': "i686_user_get_page pd va s =
      Some ((VIRTMEM_SUCCESS, Some (frame_addr (pt_phys_addr (user_pte (pmem s) pd va)))), s')"
    "vm_step s pm m s'" using get_page_mem[OF w(1,2)] unfolding e by blast
  have "f \<in> tables m pd" using w(4,5) by (auto simp: tables_def)
  then have so: "same_outside (insert (frame_of pd) (tables m pd)) (pmem s) m"
    by (auto intro: same_outside_mono[OF w(7)])
  have mp: "user_pte m pd = (\<lambda>va'. if va' div 4096 = va div 4096 then user_pte (pmem s) pd va
      else user_pte (pmem s) pd va')"
    unfolding w(6)
    by (rule ext) (auto simp: user_pte_def user_pde_def pd_slot_def pt_slot_def pt_index_div pd_index_div)
  have "pmem s' = m" using s'(2) by (simp add: vm_step_def)
  then have "updates_page pd va (\<lambda>e. e) s s'"
    using s'(2) w(3,4) so mp by (simp add: updates_page_def vm_step_def)
  with s'(1) show ?thesis by blast
qed

text \<open>After one operation on a page the next one finds its table present.\<close>

lemma updates_page_can_walk:
  assumes "updates_page pd va g s s'" "can_walk s pd va" "6 \<le> card (kfree s)"
  shows "can_walk s' pd va"
  using assms by (auto simp: updates_page_def can_walk_def walk_ready_def)


text \<open>
  When the page for a missing table cannot be allocated, \<^verbatim>\<open>i686_pagewalk\<close> does not look at the
  result of \<^verbatim>\<open>i686_initialize_pde\<close> and walks on through the absent entry.
\<close>

lemma i686_pagewalk_oom:
  assumes r: "pagewalk_ready pd i j s" and pd: "pd mod 4096 = 0"
    and ps: "local_page_size s = Some 4096" and va: "va div 4096 \<noteq> 0"
    and z: "load32 (pmem s) (pd_slot pd va) = 0"
    and al: "physmem_page_alloc (localmem s) 0 (vm_pm s) = Some ((PHYSMEM_ERR_OOM, None), vm_pm s)"
  shows "\<exists>ctx. i686_pagewalk \<lparr>pagestart = 0, pw_pt = kaddr i, pw_pd = kaddr j\<rparr> va s =
    Some (kaddr i + 4 * (va mod 4194304 div 4096), ctx, kmap_state i 0 s)"
proof -
  have i: "i < 262144" "pt_present (kernel_flatpt s i)" and w: "window s j (frame_of pd)"
    using r by (auto simp: pagewalk_ready_def)
  have key: "va div 4194304 * 4194304 + va mod 4194304 div 4096 \<noteq> 0"
    using va pagewalk_key_zero by blast
  have ld: "vm_ld32 (kaddr j + 4 * (va div 4194304)) s = Some 0"
    using window_ld32[OF w unat_pd_index] z by (simp add: pd_slot_frame[OF pd])
  have f0: "frame_of 0 = 0" by (simp add: frame_of_def)
  have "i686_initialize_pde (kaddr j + 4 * (va div 4194304)) s = Some (False, s)"
    using al by (simp add: i686_initialize_pde_def local_page_alloc_def)
  then show ?thesis
    using ps ld key i686_kernel_map_ok[OF i ps, of 0] f0
    by (simp add: i686_pagewalk_def Let_def word_to_pde_def)
qed

lemma map_page_oom:
  assumes r: "walk_ready s pd va" and z: "load32 (pmem s) (pd_slot pd va) = 0"
    and al: "physmem_page_alloc (localmem s) 0 (vm_pm s) = Some ((PHYSMEM_ERR_OOM, None), vm_pm s)"
  shows "\<exists>s'. i686_user_map_page pd va p s = Some (VIRTMEM_SUCCESS, s') \<and>
    pmem s' = store32 (pt_slot 0 va)
      (pte_to_word ((word_to_pte (load32 (pmem s) (pt_slot 0 va)))\<lparr>pt_phys_addr := frame_of p\<rparr>)) (pmem s)"
proof -
  have pd: "pd mod 4096 = 0" and va: "va div 4096 \<noteq> 0" and ps: "local_page_size s = Some 4096"
    and two: "2 \<le> card (kfree s)" using r by (auto simp: walk_ready_def)
  obtain i j s1 where init:
    "i686_pagewalk_init pd s = Some (Some \<lparr>pagestart = 0, pw_pt = kaddr i, pw_pd = kaddr j\<rparr>, s1)"
    "pagewalk_ready pd i j s1" "only_flatpt s s1"
    by (rule i686_pagewalk_init_ok[OF two ps])
  note of = only_flatptD[OF init(3)]
  obtain ctx where w: "i686_pagewalk \<lparr>pagestart = 0, pw_pt = kaddr i, pw_pd = kaddr j\<rparr> va s1 =
    Some (kaddr i + 4 * (va mod 4194304 div 4096), ctx, kmap_state i 0 s1)"
    using i686_pagewalk_oom[OF init(2) pd _ va] ps z al of by auto
  have "i < 262144" using init(2) by (simp add: pagewalk_ready_def)
  from window_pte_modify[OF kmap_window[OF this]] show ?thesis
    using init(1) w ps of by (simp add: i686_user_map_page_def frame_of_div)
qed

section \<open>A concrete state\<close>

text \<open>Zeroed memory, no kernel page in use and the two frames of the example allocator; the
  directory of an address space is at \<open>0x3000\<close>.\<close>

definition example_vm :: vm_state where
  "example_vm =
     \<lparr>vm_pm = example_pool, localmem = 1, kernel_flatpt = (\<lambda>_. word_to_pte 0),
      kernel_pd = (\<lambda>_. word_to_pde 0), identitymap_limit = highstart, cr3 = 0, pmem = (\<lambda>_. 0),
      sym_kernel_pts = 0xC0200000, sym_kernel_pd = 0xC0300000, sym_ebss = 0xC0380000\<rparr>"

lemma word_to_entry_0 [simp]:
  "\<not> pt_present (word_to_pte 0)" "\<not> pd_present (word_to_pde 0)"
  by (simp_all add: word_to_pte_def word_to_pde_def)

lemma load32_zero [simp]: "load32 (\<lambda>_. 0) a = 0"
  by (simp add: load32_def)

lemma example_vm_kfree: "kfree example_vm = {..<262144}"
  by (auto simp: kfree_def example_vm_def)

lemma example_pool_page_size: "physmem_page_size example_pool 1 = Some 4096"
  using i686_conf_page_size[OF example_pool_conf] .

lemma example_vm_pd: "wf_pd (pmem example_vm) 0x3000" "tables (pmem example_vm) 0x3000 = {}"
  "\<not> pd_present (user_pde (pmem example_vm) 0x3000 va)"
  by (simp_all add: wf_pd_def tables_def user_pde_def example_vm_def)

lemma example_vm_ready: "va div 4096 \<noteq> 0 \<Longrightarrow> walk_ready example_vm 0x3000 va"
  by (simp add: walk_ready_def example_vm_kfree)
     (simp add: local_page_size_def example_vm_def example_pool_page_size)

lemma example_pool_alloc:
  "\<exists>pm. physmem_page_alloc 1 0 example_pool = Some ((PHYSMEM_SUCCESS, Some 0x1000), pm) \<and>
     physmem_page_size pm 1 = Some 4096"
proof -
  have sv: "serves example_pool 1 example_table 1" using example_pool_conf by (simp add: serves_def)
  have "free_pages (pm_obj example_pool 1) \<noteq> 0" by (simp add: example_pool_def)
  then obtain page rest q where H: "example_lists (Freelist 1) = page # rest"
    and al: "common_physmem_page_alloc 1 0 example_pool =
       Some ((PHYSMEM_SUCCESS, Some (addr_of example_table page)),
             (upd_obj 1 (free_pages_update (\<lambda>n. n - 1)) example_pool)\<lparr>pm_pages := q\<rparr>)"
    using common_alloc_ok[OF example_pool_inv _ sv] by (metis singletonI)
  have "page = example_table + 12" using H by (simp add: example_lists_def)
  then have "addr_of example_table page = 0x1000" by (simp add: addr_of_def)
  moreover have "physmem_page_size ((upd_obj 1 (free_pages_update (\<lambda>n. n - 1)) example_pool)\<lparr>pm_pages := q\<rparr>) 1
      = Some 4096"
    using example_pool_page_size by (simp add: physmem_page_size_def upd_obj_def)
  ultimately show ?thesis using al physmem_page_alloc_i686[OF example_pool_conf, of 0] by simp
qed

lemma example_can_walk: "va div 4096 \<noteq> 0 \<Longrightarrow> can_walk example_vm 0x3000 va"
proof -
  assume "va div 4096 \<noteq> 0"
  moreover have "localmem example_vm = 1" "vm_pm example_vm = example_pool" by (simp_all add: example_vm_def)
  moreover have "frame_of 0x1000 \<notin> insert (frame_of 0x3000) (tables (pmem example_vm) 0x3000)"
    by (simp add: example_vm_pd(2) frame_of_def drop_bit_12)
  ultimately show ?thesis
    using example_vm_ready[of va] example_vm_pd(1) example_pool_alloc unfolding can_walk_def by auto
qed

section \<open>Properties\<close>

text \<open>
  C6.  \<^verbatim>\<open>i686_user_map_page\<close> returns, and refines an update of one page of the map from user
  pages to entries that the processor walks: the frame of the page's entry becomes the given frame,
  its other bits and all other pages are as before, a missing page table is created, the page
  tables stay in frames of their own, no other frame is written, and no kernel mapping in use is
  disturbed.
\<close>

theorem user_map_page_refines:
  assumes "can_walk s pd va"
  shows "\<exists>s'. virtmem_user_map_page pd va p s = Some (VIRTMEM_SUCCESS, s') \<and>
    wf_pd (pmem s') pd \<and>
    user_pte (pmem s') pd = (\<lambda>va'. if va' div 4096 = va div 4096
      then (user_pte (pmem s) pd va)\<lparr>pt_phys_addr := frame_of p\<rparr> else user_pte (pmem s) pd va') \<and>
    same_outside (insert (frame_of pd) (tables (pmem s') pd)) (pmem s) (pmem s') \<and>
    card (kfree s) \<le> card (kfree s') + 3 \<and> keeps_mapped s s'"
  using map_page_updates[OF assms, of p] by (auto simp: updates_page_def)

theorem user_map_page_refines_witness:
  "\<exists>s'. virtmem_user_map_page 0x3000 0x1000000 0x5000 example_vm = Some (VIRTMEM_SUCCESS, s') \<and>
     pt_phys_addr (user_pte (pmem s') 0x3000 0x1000000) = 5"
proof -
  have "frame_of 0x5000 = 5" by (simp add: frame_of_def drop_bit_12)
  then show ?thesis
    using user_map_page_refines[of example_vm "0x3000" "0x1000000" "0x5000", OF example_can_walk] by auto
qed

text \<open>
  C7.  A page that is mapped and given its flags is found again: \<^verbatim>\<open>i686_user_get_page\<close> returns
  the frame, and the entry the processor finds is present, readable by the user and writable as
  asked.  The kernel pages that the three walks take for their windows are not given back, which is
  why nine of them must be free.
\<close>

theorem user_page_roundtrip:
  assumes "can_walk s pd va" and "9 \<le> card (kfree s)" and "p mod 4096 = 0"
  shows "\<exists>s1 s2 s3. virtmem_user_map_page pd va p s = Some (VIRTMEM_SUCCESS, s1) \<and>
    virtmem_user_set_page_flags pd va flags s1 = Some (VIRTMEM_SUCCESS, s2) \<and>
    virtmem_user_get_page pd va s2 = Some ((VIRTMEM_SUCCESS, Some p), s3) \<and>
    pt_present (user_pte (pmem s3) pd va) \<and>
    pt_user (user_pte (pmem s3) pd va) = bittestl flags VIRTMEM_PAGE_READABLE \<and>
    pt_writable (user_pte (pmem s3) pd va) = bittestl flags VIRTMEM_PAGE_WRITABLE \<and>
    (\<forall>va'. va' div 4096 \<noteq> va div 4096 \<longrightarrow> user_pte (pmem s3) pd va' = user_pte (pmem s) pd va')"
proof -
  obtain s1 where s1: "i686_user_map_page pd va p s = Some (VIRTMEM_SUCCESS, s1)"
    "updates_page pd va (\<lambda>e. e\<lparr>pt_phys_addr := frame_of p\<rparr>) s s1"
    using map_page_updates[OF assms(1)] by blast
  have c1: "can_walk s1 pd va" using updates_page_can_walk[OF s1(2) assms(1)] assms(2) by simp
  obtain s2 where s2: "i686_user_set_page_flags pd va flags s1 = Some (VIRTMEM_SUCCESS, s2)"
    "updates_page pd va (\<lambda>e. e\<lparr>pt_writable := bittestl flags VIRTMEM_PAGE_WRITABLE,
      pt_user := bittestl flags VIRTMEM_PAGE_READABLE, pt_present := True\<rparr>) s1 s2"
    using set_flags_updates[OF c1] by blast
  have "6 \<le> card (kfree s1)" using s1(2) assms(2) by (simp add: updates_page_def)
  then have c2: "can_walk s2 pd va" using updates_page_can_walk[OF s2(2) c1] by simp
  obtain s3 where "i686_user_get_page pd va s2 =
      Some ((VIRTMEM_SUCCESS, Some (frame_addr (pt_phys_addr (user_pte (pmem s2) pd va)))), s3)"
    "updates_page pd va (\<lambda>e. e) s2 s3" using get_page_reads[OF c2] by blast
  with s1 s2 show ?thesis
    by (simp add: updates_page_def frame_addr_frame_of_aligned[OF assms(3)])
qed

theorem user_page_roundtrip_witness:
  "\<exists>s1 s2 s3. virtmem_user_map_page 0x3000 0x1000000 0x5000 example_vm = Some (VIRTMEM_SUCCESS, s1) \<and>
    virtmem_user_set_page_flags 0x3000 0x1000000 3 s1 = Some (VIRTMEM_SUCCESS, s2) \<and>
    virtmem_user_get_page 0x3000 0x1000000 s2 = Some ((VIRTMEM_SUCCESS, Some 0x5000), s3) \<and>
    pt_present (user_pte (pmem s3) 0x3000 0x1000000) \<and> pt_writable (user_pte (pmem s3) 0x3000 0x1000000)"
proof -
  have "9 \<le> card (kfree example_vm)" by (simp add: example_vm_kfree)
  moreover have "bittestl 3 VIRTMEM_PAGE_WRITABLE" by (simp add: bittestl_def page_flag_defs)
  ultimately show ?thesis
    using user_page_roundtrip[of example_vm "0x3000" "0x1000000" "0x5000" 3, OF example_can_walk] by auto
qed

text \<open>
  \<^verbatim>\<open>i686_kernel_alloc\<close> hands out the lowest kernel page whose entry is not present, marks it
  present, and changes nothing else; it reports \<^verbatim>\<open>VIRTMEM_OOM\<close> exactly when there is none.  The
  address is page aligned and above the kernel's start.
\<close>

theorem kernel_alloc_lowest_free:
  "case kernel_alloc_scan 0 s of
     None \<Rightarrow> kfree s = {} \<and> virtmem_kernel_alloc 1 s = Some ((VIRTMEM_OOM, None), s)
   | Some i \<Rightarrow> i \<in> kfree s \<and> (\<forall>j<i. j \<notin> kfree s) \<and>
       virtmem_kernel_alloc 1 s = Some ((VIRTMEM_SUCCESS, Some (kaddr i)), kalloc_state i s) \<and>
       kfree (kalloc_state i s) = kfree s - {i} \<and> kaddr i mod 4096 = 0 \<and> highstart \<le> kaddr i"
proof (cases "kernel_alloc_scan 0 s")
  case None
  then have "kfree s = {}" using kernel_alloc_scan_None[of 0 s] by auto
  with None show ?thesis using i686_kernel_alloc_oom[of s] by simp
next
  case (Some i)
  note sc = kernel_alloc_scan_Some[OF Some]
  then have "i < 262144" by (simp add: kfree_def)
  with sc Some show ?thesis
    using kaddr_parts(1,2)[of i 0]
    by (simp add: i686_kernel_alloc_def flatpt_read_def flatpt_write_def kaddr_def[symmetric] kfree_kalloc)
       (simp add: kalloc_state_def not_less)
qed

theorem kernel_alloc_lowest_free_witness:
  "virtmem_kernel_alloc 1 example_vm = Some ((VIRTMEM_SUCCESS, Some (kaddr 0)), kalloc_state 0 example_vm)"
proof (cases "kernel_alloc_scan 0 example_vm")
  case None
  then show ?thesis using kernel_alloc_lowest_free[of example_vm] by (simp add: example_vm_kfree lessThan_empty_iff)
next
  case (Some i)
  then have k: "\<forall>j<i. j \<notin> kfree example_vm"
    "virtmem_kernel_alloc 1 example_vm = Some ((VIRTMEM_SUCCESS, Some (kaddr i)), kalloc_state i example_vm)"
    using kernel_alloc_lowest_free[of example_vm] by simp_all
  have "i = 0" using spec[OF k(1), of 0] by (simp add: example_vm_kfree)
  then show ?thesis using k(2) by simp
qed

text \<open>
  \<^verbatim>\<open>i686_kernel_free\<close> reports success and releases nothing: the page it is given stays in
  use and will not be handed out again.
\<close>

theorem kernel_free_releases_nothing:
  assumes "virtmem_kernel_alloc 1 s = Some ((VIRTMEM_SUCCESS, Some a), s1)"
  shows "\<exists>s2. virtmem_kernel_free a s1 = (VIRTMEM_SUCCESS, s2) \<and>
    (\<exists>i. a = kaddr i \<and> i \<in> kfree s \<and> kfree s2 = kfree s - {i})"
proof -
  have "kfree s \<noteq> {}" using assms i686_kernel_alloc_oom[of s] by auto
  then obtain i where "i \<in> kfree s"
    "i686_kernel_alloc 1 s = Some ((VIRTMEM_SUCCESS, Some (kaddr i)), kalloc_state i s)"
    by (rule i686_kernel_alloc_ok)
  with assms show ?thesis by (auto simp: i686_kernel_free_def kfree_kalloc)
qed

theorem kernel_free_releases_nothing_witness:
  "\<exists>s1 s2. virtmem_kernel_alloc 1 example_vm = Some ((VIRTMEM_SUCCESS, Some 0xC0000000), s1) \<and>
     virtmem_kernel_free 0xC0000000 s1 = (VIRTMEM_SUCCESS, s2) \<and> card (kfree s2) < card (kfree example_vm)"
proof -
  have sc: "kernel_alloc_scan 0 example_vm = Some 0"
    by (subst kernel_alloc_scan.simps) (simp add: n_kernel_pde_def example_vm_def)
  have al: "virtmem_kernel_alloc 1 example_vm = Some ((VIRTMEM_SUCCESS, Some 0xC0000000), kalloc_state 0 example_vm)"
    using sc by (simp add: i686_kernel_alloc_def flatpt_read_def flatpt_write_def kalloc_state_def highstart_def)
  from kernel_free_releases_nothing[OF al] obtain s2 i where
    "virtmem_kernel_free 0xC0000000 (kalloc_state 0 example_vm) = (VIRTMEM_SUCCESS, s2)"
    "i \<in> kfree example_vm" "kfree s2 = kfree example_vm - {i}" by blast
  with al show ?thesis by (metis card_Diff1_less finite_kfree)
qed

text \<open>
  A kernel page that was allocated and mapped translates to the frame it was mapped to, in
  \<^verbatim>\<open>i686_kernel_virt_to_phys\<close> and in the processor's translation of every byte of the page.
\<close>

theorem kernel_map_translates:
  assumes "virtmem_kernel_alloc 1 s = Some ((VIRTMEM_SUCCESS, Some a), s1)"
    and "local_page_size s = Some 4096" and "p mod 4096 = 0"
  shows "\<exists>s2. virtmem_kernel_map_virt_to_phys p a s1 = Some (VIRTMEM_SUCCESS, s2) \<and>
    virtmem_kernel_virt_to_phys a s2 = Some (VIRTMEM_SUCCESS, Some p) \<and>
    (\<forall>off<4096. kvirt_loc s2 (a + off) = Some (p + off))"
proof -
  have "kfree s \<noteq> {}" using assms(1) i686_kernel_alloc_oom[of s] by auto
  then obtain i where i: "i \<in> kfree s"
    "i686_kernel_alloc 1 s = Some ((VIRTMEM_SUCCESS, Some (kaddr i)), kalloc_state i s)"
    by (rule i686_kernel_alloc_ok)
  have lt: "i < 262144" using i(1) by (simp add: kfree_def)
  have a: "a = kaddr i" "s1 = kalloc_state i s" using assms(1) i(2) by auto
  let ?s2 = "kmap_state i (frame_of p) s1"
  have "i686_kernel_map_virt_to_phys p a s1 = Some (VIRTMEM_SUCCESS, ?s2)"
    unfolding a(1) by (rule i686_kernel_map_ok) (use lt a assms(2) in \<open>simp_all add: kalloc_state_def local_page_size_def\<close>)
  moreover have "i686_virt_to_pte a ?s2 = Some i"
    unfolding a(1) by (rule i686_virt_to_pte_kaddr[OF lt]) (use a assms(2) in simp)
  then have "i686_kernel_virt_to_phys a ?s2 = Some (VIRTMEM_SUCCESS, Some p)"
    using lt frame_addr_frame_of_aligned[OF assms(3)]
    by (simp add: i686_kernel_virt_to_phys_def flatpt_read_def) (simp add: kmap_state_def)
  moreover have "\<forall>off<4096. kvirt_loc ?s2 (a + off) = Some (p + off)"
    using window_loc[OF kmap_window[OF lt]] frame_addr_frame_of_aligned[OF assms(3)] a by simp
  ultimately show ?thesis by auto
qed

theorem kernel_map_translates_witness:
  "\<exists>s1 s2. virtmem_kernel_alloc 1 example_vm = Some ((VIRTMEM_SUCCESS, Some 0xC0000000), s1) \<and>
     virtmem_kernel_map_virt_to_phys 0x7000 0xC0000000 s1 = Some (VIRTMEM_SUCCESS, s2) \<and>
     kvirt_loc s2 0xC0000123 = Some 0x7123"
proof -
  have sc: "kernel_alloc_scan 0 example_vm = Some 0"
    by (subst kernel_alloc_scan.simps) (simp add: n_kernel_pde_def example_vm_def)
  have al: "virtmem_kernel_alloc 1 example_vm = Some ((VIRTMEM_SUCCESS, Some 0xC0000000), kalloc_state 0 example_vm)"
    using sc by (simp add: i686_kernel_alloc_def flatpt_read_def flatpt_write_def kalloc_state_def highstart_def)
  have "local_page_size example_vm = Some 4096"
    by (simp add: local_page_size_def example_vm_def example_pool_page_size)
  from kernel_map_translates[OF al this, of "0x7000"] obtain s2 where
    s2: "virtmem_kernel_map_virt_to_phys 0x7000 0xC0000000 (kalloc_state 0 example_vm) = Some (VIRTMEM_SUCCESS, s2)"
    "\<forall>off<4096. kvirt_loc s2 (0xC0000000 + off) = Some (0x7000 + off)" by auto
  from spec[OF s2(2), of "0x123"] have "kvirt_loc s2 0xC0000123 = Some 0x7123" by simp
  with al s2(1) show ?thesis by blast
qed

text \<open>
  C8.  When no page is left for a missing page table, \<^verbatim>\<open>i686_user_map_page\<close> still reports success,
  and the entry is written in physical frame 0, which the absent directory entry names, instead of
  a page table of the address space.
\<close>

theorem user_map_page_oom_writes_frame_0:
  assumes "walk_ready s pd va" and "load32 (pmem s) (pd_slot pd va) = 0"
    and "physmem_page_alloc (localmem s) 0 (vm_pm s) = Some ((PHYSMEM_ERR_OOM, None), vm_pm s)"
  shows "\<exists>s'. virtmem_user_map_page pd va p s = Some (VIRTMEM_SUCCESS, s') \<and>
    pt_phys_addr (word_to_pte (load32 (pmem s') (4 * (va mod 4194304 div 4096)))) = frame_of p"
  using map_page_oom[OF assms, of p] by (auto simp: pt_slot_def frame_addr_def load32_store32 word_to_pte_to_word)

theorem user_map_page_oom_writes_frame_0_witness:
  "\<exists>s'. virtmem_user_map_page 0x3000 0x1001000 0x5000
      (example_vm\<lparr>vm_pm := upd_obj 1 (free_pages_update (\<lambda>_. 0)) example_pool\<rparr>) = Some (VIRTMEM_SUCCESS, s') \<and>
    pt_phys_addr (word_to_pte (load32 (pmem s') 4)) = 5"
proof -
  let ?s = "example_vm\<lparr>vm_pm := upd_obj 1 (free_pages_update (\<lambda>_. 0)) example_pool\<rparr>"
  let ?pm = "upd_obj 1 (free_pages_update (\<lambda>_. 0)) example_pool"
  have ic: "i686_conf ?pm 1 example_table"
    using example_pool_conf same_conf_conf(1)[OF same_conf_upd_obj] by simp
  have "walk_ready ?s 0x3000 0x1001000"
    using example_vm_ready[of "0x1001000"] i686_conf_page_size[OF ic]
    by (simp add: walk_ready_def local_page_size_def kfree_def) (simp add: example_vm_def)
  moreover have "load32 (pmem ?s) (pd_slot 0x3000 0x1001000) = 0" by (simp add: example_vm_def)
  moreover have "physmem_page_alloc (localmem ?s) 0 (vm_pm ?s) = Some ((PHYSMEM_ERR_OOM, None), vm_pm ?s)"
    using physmem_page_alloc_i686[OF ic] common_alloc_oom[of ?pm 1 0]
    by (simp add: example_vm_def upd_obj_def)
  ultimately obtain s' where "virtmem_user_map_page 0x3000 0x1001000 0x5000 ?s = Some (VIRTMEM_SUCCESS, s')"
    "pt_phys_addr (word_to_pte (load32 (pmem s') (4 * (0x1001000 mod 4194304 div 4096)))) = frame_of 0x5000"
    using user_map_page_oom_writes_frame_0 by blast
  then show ?thesis by (simp add: frame_of_def drop_bit_12)
qed


end
