(* ===== verification/Usercopy.thy ===== *)
theory Usercopy
  imports Walk
begin

text \<open>
  Copies between the kernel and a user address space that need not be the current one:
  \<^verbatim>\<open>src/sys/common/virtmem.c\<close>.  The copy maps one user page at a time in a kernel window.
\<close>

section \<open>Operations\<close>

definition copy_partial_page_from_user ::
  "virtaddr_t \<Rightarrow> virtaddr_t \<Rightarrow> virtaddr_t \<Rightarrow> c_size_t \<Rightarrow> vm_state \<Rightarrow> (u32 \<times> vm_state) option" where
  "copy_partial_page_from_user dst src mapping len s = do {
     pgsize \<leftarrow> local_page_size s;
     let copylen = minl len (pgsize - src mod pgsize);
     let mapping_start = src mod pgsize + mapping;
     (_, s1) \<leftarrow> memcpy vm_ld vm_st dst mapping_start copylen s;
     Some (copylen, s1)
   }"

definition copy_partial_page_to_user ::
  "virtaddr_t \<Rightarrow> virtaddr_t \<Rightarrow> virtaddr_t \<Rightarrow> c_size_t \<Rightarrow> vm_state \<Rightarrow> (u32 \<times> vm_state) option" where
  "copy_partial_page_to_user dst src mapping len s = do {
     pgsize \<leftarrow> local_page_size s;
     let copylen = minl len (pgsize - dst mod pgsize);
     let mapping_start = dst mod pgsize + mapping;
     (_, s1) \<leftarrow> memcpy vm_ld vm_st mapping_start src copylen s;
     Some (copylen, s1)
   }"

text \<open>
  The two loops.  \<^verbatim>\<open>mapping\<close> and \<^verbatim>\<open>src_phys\<close> are uninitialised when the calls that should
  set them fail, which the code does not check; \<^verbatim>\<open>src_phys\<close> then keeps the value of the
  previous iteration.
\<close>

partial_function (option) copy_from_user_loop ::
  "physaddr_t \<Rightarrow> virtaddr_t option \<Rightarrow> virtaddr_t \<Rightarrow> virtaddr_t \<Rightarrow> c_size_t \<Rightarrow> physaddr_t option \<Rightarrow>
   vm_state \<Rightarrow> vm_state option" where
  "copy_from_user_loop src_ctx mapping dst src len src_phys s =
     (if len > 0 then do {
        ((_, out), s1) \<leftarrow> virtmem_user_get_page src_ctx src s;
        let src_phys' = (case out of None \<Rightarrow> src_phys | Some p \<Rightarrow> Some p);
        p \<leftarrow> src_phys';
        w \<leftarrow> mapping;
        (_, s2) \<leftarrow> virtmem_kernel_map_virt_to_phys p w s1;
        (amt_copied, s3) \<leftarrow> copy_partial_page_from_user dst src w len s2;
        copy_from_user_loop src_ctx mapping (dst + amt_copied) (src + amt_copied) (len - amt_copied)
          src_phys' s3
      } else Some s)"

partial_function (option) copy_to_user_loop ::
  "physaddr_t \<Rightarrow> virtaddr_t option \<Rightarrow> virtaddr_t \<Rightarrow> virtaddr_t \<Rightarrow> c_size_t \<Rightarrow> physaddr_t option \<Rightarrow>
   vm_state \<Rightarrow> vm_state option" where
  "copy_to_user_loop dst_ctx mapping dst src len dst_phys s =
     (if len > 0 then do {
        ((_, out), s1) \<leftarrow> virtmem_user_get_page dst_ctx dst s;
        let dst_phys' = (case out of None \<Rightarrow> dst_phys | Some p \<Rightarrow> Some p);
        p \<leftarrow> dst_phys';
        w \<leftarrow> mapping;
        (_, s2) \<leftarrow> virtmem_kernel_map_virt_to_phys p w s1;
        (amt_copied, s3) \<leftarrow> copy_partial_page_to_user dst src w len s2;
        copy_to_user_loop dst_ctx mapping (dst + amt_copied) (src + amt_copied) (len - amt_copied)
          dst_phys' s3
      } else Some s)"

definition copy_alt_user_to_kernel ::
  "virtaddr_t \<Rightarrow> physaddr_t \<Rightarrow> virtaddr_t \<Rightarrow> c_size_t \<Rightarrow> vm_state \<Rightarrow> (virtmem_error_t \<times> vm_state) option" where
  "copy_alt_user_to_kernel dst src_ctx src len s = do {
     ((_, mapping), s1) \<leftarrow> virtmem_kernel_alloc 1 s;
     s2 \<leftarrow> copy_from_user_loop src_ctx mapping dst src len None s1;
     let s3 = (case mapping of None \<Rightarrow> s2 | Some w \<Rightarrow> snd (virtmem_kernel_free w s2));
     Some (VIRTMEM_SUCCESS, s3)
   }"

definition copy_alt_user_from_kernel ::
  "physaddr_t \<Rightarrow> virtaddr_t \<Rightarrow> virtaddr_t \<Rightarrow> c_size_t \<Rightarrow> vm_state \<Rightarrow> (virtmem_error_t \<times> vm_state) option" where
  "copy_alt_user_from_kernel dst_ctx dst src len s = do {
     ((_, mapping), s1) \<leftarrow> virtmem_kernel_alloc 1 s;
     s2 \<leftarrow> copy_to_user_loop dst_ctx mapping dst src len None s1;
     let s3 = (case mapping of None \<Rightarrow> s2 | Some w \<Rightarrow> snd (virtmem_kernel_free w s2));
     Some (VIRTMEM_SUCCESS, s3)
   }"

definition common_virtmem_copy_user_to_kernel ::
  "virtaddr_t \<Rightarrow> physaddr_t \<Rightarrow> virtaddr_t \<Rightarrow> c_size_t \<Rightarrow> vm_state \<Rightarrow> (virtmem_error_t \<times> vm_state) option" where
  "common_virtmem_copy_user_to_kernel dst src_ctx src len s =
     copy_alt_user_to_kernel dst src_ctx src len s"

definition common_virtmem_copy_kernel_to_user ::
  "physaddr_t \<Rightarrow> virtaddr_t \<Rightarrow> virtaddr_t \<Rightarrow> c_size_t \<Rightarrow> vm_state \<Rightarrow> (virtmem_error_t \<times> vm_state) option" where
  "common_virtmem_copy_kernel_to_user dst_ctx dst src len s =
     copy_alt_user_from_kernel dst_ctx dst src len s"

definition virtmem_copy_user_to_kernel ::
  "virtaddr_t \<Rightarrow> physaddr_t \<Rightarrow> virtaddr_t \<Rightarrow> c_size_t \<Rightarrow> vm_state \<Rightarrow> (virtmem_error_t \<times> vm_state) option" where
  "virtmem_copy_user_to_kernel = common_virtmem_copy_user_to_kernel"

definition virtmem_copy_kernel_to_user ::
  "physaddr_t \<Rightarrow> virtaddr_t \<Rightarrow> virtaddr_t \<Rightarrow> c_size_t \<Rightarrow> vm_state \<Rightarrow> (virtmem_error_t \<times> vm_state) option" where
  "virtmem_copy_kernel_to_user = common_virtmem_copy_kernel_to_user"

section \<open>Windows onto a user page\<close>

text \<open>The cell that a user address denotes in the address space of \<open>pd\<close>.\<close>

definition user_loc :: "(physaddr_t \<Rightarrow> u8) \<Rightarrow> physaddr_t \<Rightarrow> virtaddr_t \<Rightarrow> physaddr_t" where
  "user_loc m pd va = frame_addr (pt_phys_addr (user_pte m pd va)) + va mod 4096"

lemma keeps_mapped_trans: "keeps_mapped s t \<Longrightarrow> keeps_mapped t u \<Longrightarrow> keeps_mapped s u"
  unfolding keeps_mapped_def by metis

lemma keeps_mapped_loc:
  assumes "keeps_mapped s s'" "kvirt_loc s a = Some l"
  shows "kvirt_loc s' a = Some l"
  using assms by (auto simp: kvirt_loc_def Let_def keeps_mapped_def split: if_splits)

lemma kvirt_loc_pmem [simp]: "kvirt_loc (s\<lparr>pmem := m\<rparr>) = kvirt_loc s"
  by (rule ext) (simp add: kvirt_loc_def)

text \<open>Reading the entry of a page whose table exists changes only the kernel's tables.\<close>

lemma get_page_present:
  assumes "walk_ready s pd va" "pd_present (user_pde (pmem s) pd va)"
  obtains s' where "i686_user_get_page pd va s =
      Some ((VIRTMEM_SUCCESS, Some (frame_addr (pt_phys_addr (user_pte (pmem s) pd va)))), s')"
    "vm_step s (vm_pm s) (pmem s) s'"
proof -
  have "walk_to s pd va (pd_phys_addr (user_pde (pmem s) pd va)) (pmem s) (vm_pm s)"
    using assms(2) by (simp add: walk_to_def)
  from get_page_mem[OF assms(1) this] assms(2) that show thesis by (auto simp: user_pte_def)
qed

text \<open>One iteration up to the copy: the window \<open>w\<close> shows the user page.\<close>

lemma user_window:
  assumes r: "walk_ready s pd va" and p: "pd_present (user_pde (pmem s) pd va)"
    and w: "w < 262144" "pt_present (kernel_flatpt s w)"
  obtains s1 s2 where "i686_user_get_page pd va s =
      Some ((VIRTMEM_SUCCESS, Some (frame_addr (pt_phys_addr (user_pte (pmem s) pd va)))), s1)"
    "i686_kernel_map_virt_to_phys (frame_addr (pt_phys_addr (user_pte (pmem s) pd va))) (kaddr w) s1 =
      Some (VIRTMEM_SUCCESS, s2)"
    "window s2 w (pt_phys_addr (user_pte (pmem s) pd va))" "pmem s2 = pmem s" "vm_pm s2 = vm_pm s"
    "localmem s2 = localmem s" "local_page_size s2 = Some 4096" "card (kfree s) \<le> card (kfree s2) + 3"
    "\<forall>k. k \<noteq> w \<longrightarrow> pt_present (kernel_flatpt s k) \<longrightarrow> kernel_flatpt s2 k = kernel_flatpt s k"
proof -
  let ?f = "pt_phys_addr (user_pte (pmem s) pd va)"
  obtain s1 where s1: "i686_user_get_page pd va s = Some ((VIRTMEM_SUCCESS, Some (frame_addr ?f)), s1)"
    "vm_step s (vm_pm s) (pmem s) s1" by (rule get_page_present[OF r p])
  have pw: "pt_present (kernel_flatpt s1 w)" using s1(2) w(2) by (simp add: vm_step_def keeps_mapped_def)
  have mp: "i686_kernel_map_virt_to_phys (frame_addr ?f) (kaddr w) s1 =
      Some (VIRTMEM_SUCCESS, kmap_state w ?f s1)"
    using i686_kernel_map_ok[OF w(1) pw, of "frame_addr ?f"] s1(2) by (simp add: vm_step_def)
  have "kfree (kmap_state w ?f s1) = kfree s1" using pw by (auto simp: kfree_def kmap_state_def)
  moreover have "\<forall>k. k \<noteq> w \<longrightarrow> pt_present (kernel_flatpt s k) \<longrightarrow>
      kernel_flatpt (kmap_state w ?f s1) k = kernel_flatpt s k"
    using s1(2) by (simp add: vm_step_def keeps_mapped_def kmap_state_def)
  ultimately show thesis
    using that[OF s1(1) mp kmap_window[OF w(1)]] s1(2) by (simp add: vm_step_def)
qed

section \<open>How much one iteration copies\<close>

definition chunk :: "virtaddr_t \<Rightarrow> nat \<Rightarrow> nat" where
  "chunk a n = min n (4096 - unat (a mod 4096))"

definition iterations :: "virtaddr_t \<Rightarrow> nat \<Rightarrow> nat" where
  "iterations a n = (if n = 0 then 0 else (unat (a mod 4096) + n + 4095) div 4096)"

lemma page_offset_lt: "unat (a mod 4096 :: u32) < 4096"
  by (simp add: unat_mod_distrib)

lemma chunk_pos: "0 < n \<Longrightarrow> 0 < chunk a n" and chunk_le: "chunk a n \<le> n"
  and chunk_page: "i < chunk a n \<Longrightarrow> unat (a mod 4096) + i < 4096"
  using page_offset_lt[of a] by (auto simp: chunk_def)

lemma sint_small:
  assumes "unat (w :: u32) < 2 ^ 31"
  shows "sint w = int (unat w)"
proof -
  have u: "uint w = int (unat w)" by simp
  have "int (unat w) < int (2 ^ 31)" using assms by (simp only: of_nat_less_iff)
  then have "uint w < 2 ^ 31" by simp
  moreover have "- (2 ^ 31) \<le> uint w" by (rule order_trans[OF _ uint_ge_0]) simp
  ultimately have "signed_take_bit 31 (uint w) = uint w" by (intro signed_take_bit_int_eq_self)
  then show ?thesis by (simp add: sint_uint)
qed

lemma minl_chunk:
  assumes "unat len < 2 ^ 31"
  shows "minl len (4096 - a mod 4096) = of_nat (chunk a (unat len))"
proof -
  have o: "unat (a mod 4096) < 4096" by (rule page_offset_lt)
  have le: "a mod 4096 \<le> 4096" using o by (simp add: word_le_nat_alt)
  have u: "unat (4096 - a mod 4096) = 4096 - unat (a mod 4096)" using le by (simp add: unat_sub)
  then have s: "unat (4096 - a mod 4096) < 2 ^ 31" by simp
  have lt: "sint len < sint (4096 - a mod 4096) \<longleftrightarrow> unat len < 4096 - unat (a mod 4096)"
    by (simp only: sint_small[OF assms] sint_small[OF s] of_nat_less_iff u)
  have "4096 - a mod 4096 = of_nat (4096 - unat (a mod 4096))" by (simp flip: u)
  then show ?thesis unfolding minl_def lt by (auto simp: chunk_def min_def)
qed

lemma frame_byte_div: "off < 4096 \<Longrightarrow> (frame_addr f + off) div 4096 = ucast f"
proof -
  assume o: "off < 4096"
  then have "unat off < 4096" by (simp add: word_less_nat_alt)
  then have "unat ((frame_addr f + off) div 4096) = unat f"
    by (simp only: unat_div_distrib unat_frame_byte[OF o]) simp
  then have "unat ((frame_addr f + off) div 4096) = unat (ucast f :: u32)"
    using unsigned_less[of f, where ?'a = nat] by (simp add: unsigned_ucast_eq take_bit_eq_mod)
  then show ?thesis by (simp only: word_unat_eq_iff)
qed

text \<open>The bytes of one chunk are on one page.\<close>

lemma chunk_byte:
  assumes "i < chunk a n"
  shows "a mod 4096 + of_nat i < 4096" and "(a + of_nat i) mod 4096 = a mod 4096 + of_nat i"
    and "(a + of_nat i) div 4096 = a div 4096"
proof -
  have o: "unat (a mod 4096) + i < 4096" by (rule chunk_page[OF assms])
  then have "unat (a mod 4096 + of_nat i) = unat (a mod 4096) + i"
    by (simp add: unat_word_ariths(1) unat_of_nat)
  with o show lt: "a mod 4096 + of_nat i < 4096" by (simp add: word_less_nat_alt)
  have a: "a + of_nat i = frame_addr (frame_of a) + (a mod 4096 + of_nat i)"
    using addr_split[of a] by (simp add: algebra_simps)
  show "(a + of_nat i) mod 4096 = a mod 4096 + of_nat i"
    unfolding a by (rule frame_byte_parts(2)[OF lt])
  have "a mod 4096 < 4096" using page_offset_lt[of a] by (simp add: word_less_nat_alt)
  then have "a div 4096 = ucast (frame_of a)" using frame_byte_div[of "a mod 4096" "frame_of a"] addr_split[of a] by simp
  then show "(a + of_nat i) div 4096 = a div 4096" unfolding a using frame_byte_div[OF lt] by simp
qed

lemma iterations_step:
  assumes "0 < n"
  shows "iterations a n = Suc (iterations (a + of_nat (chunk a n)) (n - chunk a n))"
proof (cases "n \<le> 4096 - unat (a mod 4096)")
  case True
  then have "chunk a n = n" by (simp add: chunk_def)
  moreover have "(unat (a mod 4096) + n + 4095) div 4096 = 1"
    using True assms page_offset_lt[of a] by (intro div_nat_eqI) auto
  ultimately show ?thesis using assms by (simp add: iterations_def)
next
  case False
  let ?o = "unat (a mod 4096)"
  have c: "chunk a n = 4096 - ?o" using False by (simp add: chunk_def)
  have o: "?o < 4096" by (rule page_offset_lt)
  have "of_nat (4096 - ?o) = 4096 - a mod (4096 :: u32)"
    using o by (simp add: of_nat_diff)
  then have e: "a mod 4096 + of_nat (4096 - ?o) = 4096" by simp
  have "a + of_nat (4096 - ?o) = (a div 4096) * 4096 + (a mod 4096 + of_nat (4096 - ?o))"
    by (simp only: add.assoc[symmetric] word_mod_div_equality)
  then have "a + of_nat (4096 - ?o) = (a div 4096) * 4096 + 4096" unfolding e .
  moreover have "((x :: u32) * 4096 + 4096) mod 4096 = 0" for x
    using page_multiple_mod[of "x + 1"] by (simp add: algebra_simps)
  ultimately have z: "(a + of_nat (chunk a n)) mod 4096 = 0" by (simp add: c)
  have "?o + n + 4095 = (n - chunk a n + 4095) + 4096" using False o c by simp
  then have "(?o + n + 4095) div 4096 = Suc ((n - chunk a n + 4095) div 4096)"
    by (metis div_add_self2 Suc_eq_plus1 zero_neq_numeral)
  with assms False z c o show ?thesis by (simp add: iterations_def)
qed

lemma user_pte_same_page:
  assumes "va div 4096 = va' div 4096"
  shows "user_pde m pd va = user_pde m pd va'" and "user_pte m pd va = user_pte m pd va'"
proof -
  show "user_pde m pd va = user_pde m pd va'" using assms by (simp add: user_pde_def pd_slot_def pd_index_div)
  then show "user_pte m pd va = user_pte m pd va'"
    using assms by (simp add: user_pte_def pt_slot_def pt_index_div)
qed

lemma user_loc_chunk:
  assumes "i < chunk a n"
  shows "user_loc m pd (a + of_nat i) = frame_addr (pt_phys_addr (user_pte m pd a)) + (a mod 4096 + of_nat i)"
  using chunk_byte[OF assms] user_pte_same_page(2)[OF chunk_byte(3)[OF assms]] by (simp add: user_loc_def)


section \<open>The copies\<close>

lemma pt_present_loc:
  "kvirt_loc s a = Some l \<Longrightarrow> pt_present (kernel_flatpt s (unat ((a - highstart) div 4096)))"
  by (auto simp: kvirt_loc_def Let_def split: if_splits)

lemma loc_other_window:
  assumes "\<forall>k. k \<noteq> w \<longrightarrow> pt_present (kernel_flatpt s k) \<longrightarrow> kernel_flatpt s' k = kernel_flatpt s k"
    and "kvirt_loc s a = Some l" and "unat ((a - highstart) div 4096) \<noteq> w"
  shows "kvirt_loc s' a = Some l"
  using assms pt_present_loc[OF assms(2)] by (auto simp: kvirt_loc_def Let_def split: if_splits)

text \<open>
  The situation of a copy of \<open>n\<close> bytes between the user addresses from \<open>ua\<close> on and the kernel
  addresses from \<open>ka\<close> on, through the window \<open>w\<close>: the user pages have tables, the kernel
  addresses denote the cells \<open>kl\<close> and do not go through the window, and the kernel has pages for
  the windows of the walks.
\<close>

definition copy_ready ::
  "physaddr_t \<Rightarrow> nat \<Rightarrow> virtaddr_t \<Rightarrow> virtaddr_t \<Rightarrow> nat \<Rightarrow> (nat \<Rightarrow> physaddr_t) \<Rightarrow> vm_state \<Rightarrow> bool" where
  "copy_ready pd w ua ka n kl s \<longleftrightarrow>
     wf_pd (pmem s) pd \<and> local_page_size s = Some 4096 \<and> w < 262144 \<and> pt_present (kernel_flatpt s w) \<and>
     n < 2 ^ 31 \<and> 3 * iterations ua n \<le> card (kfree s) \<and>
     (\<forall>i<n. (ua + of_nat i) div 4096 \<noteq> 0 \<and> pd_present (user_pde (pmem s) pd (ua + of_nat i))) \<and>
     (\<forall>i<n. kvirt_loc s (ka + of_nat i) = Some (kl i) \<and>
        unat ((ka + of_nat i - highstart) div 4096) \<noteq> w)"

lemma copy_readyD:
  assumes "copy_ready pd w ua ka n kl s"
  shows "wf_pd (pmem s) pd" "local_page_size s = Some 4096" "w < 262144" "pt_present (kernel_flatpt s w)"
    "n < 2 ^ 31" "3 * iterations ua n \<le> card (kfree s)"
    "i < n \<Longrightarrow> (ua + of_nat i) div 4096 \<noteq> 0" "i < n \<Longrightarrow> pd_present (user_pde (pmem s) pd (ua + of_nat i))"
    "i < n \<Longrightarrow> kvirt_loc s (ka + of_nat i) = Some (kl i)"
    "i < n \<Longrightarrow> unat ((ka + of_nat i - highstart) div 4096) \<noteq> w"
  using assms by (auto simp: copy_ready_def)

text \<open>What a copy leaves alone: the page allocator and the kernel mappings other than the window;
  \<open>k\<close> walks use up at most three kernel pages each.\<close>

definition copy_frame :: "nat \<Rightarrow> nat \<Rightarrow> vm_state \<Rightarrow> vm_state \<Rightarrow> bool" where
  "copy_frame w k s s' \<longleftrightarrow>
     vm_pm s' = vm_pm s \<and> localmem s' = localmem s \<and> card (kfree s) \<le> card (kfree s') + 3 * k \<and>
     (\<forall>k. k \<noteq> w \<longrightarrow> pt_present (kernel_flatpt s k) \<longrightarrow> kernel_flatpt s' k = kernel_flatpt s k)"

lemma copy_frame_refl [simp]: "copy_frame w 0 s s"
  by (simp add: copy_frame_def)

lemma copy_frame_pmem [simp]: "copy_frame w k (s\<lparr>pmem := m\<rparr>) s' = copy_frame w k s s'"
  by (simp add: copy_frame_def kfree_def)

lemma copy_frame_trans: "copy_frame w j s t \<Longrightarrow> copy_frame w k t u \<Longrightarrow> copy_frame w (j + k) s u"
  by (simp add: copy_frame_def)

text \<open>One iteration up to the copy, and what is left to do after a copy that does not touch the
  page tables.\<close>

lemma copy_iteration:
  assumes r: "copy_ready pd w ua ka n kl s" and n: "0 < n" and c: "c = chunk ua n"
  obtains s1 s2 where "i686_user_get_page pd ua s =
      Some ((VIRTMEM_SUCCESS, Some (frame_addr (pt_phys_addr (user_pte (pmem s) pd ua)))), s1)"
    "i686_kernel_map_virt_to_phys (frame_addr (pt_phys_addr (user_pte (pmem s) pd ua))) (kaddr w) s1 =
      Some (VIRTMEM_SUCCESS, s2)"
    "pmem s2 = pmem s" "copy_frame w 1 s s2" "local_page_size s2 = Some 4096"
    "\<forall>i<c. kvirt_loc s2 (ua mod 4096 + kaddr w + of_nat i) = Some (user_loc (pmem s) pd (ua + of_nat i))"
    "\<forall>i<n. kvirt_loc s2 (ka + of_nat i) = Some (kl i)"
    "\<forall>m. (\<forall>va. user_pde m pd va = user_pde (pmem s) pd va) \<longrightarrow> wf_pd m pd \<longrightarrow>
       copy_ready pd w (ua + of_nat c) (ka + of_nat c) (n - c) (\<lambda>i. kl (c + i)) (s2\<lparr>pmem := m\<rparr>)"
proof -
  note d = copy_readyD[OF r]
  have it: "iterations ua n = Suc (iterations (ua + of_nat c) (n - c))"
    unfolding c by (rule iterations_step[OF n])
  have ready: "walk_ready s pd ua"
    using wf_pdD(1)[OF d(1)] d(2,6) d(7)[OF n] it by (simp add: walk_ready_def)
  have p: "pd_present (user_pde (pmem s) pd ua)" using d(8)[OF n] by simp
  let ?f = "pt_phys_addr (user_pte (pmem s) pd ua)"
  obtain s1 s2 where u: "i686_user_get_page pd ua s = Some ((VIRTMEM_SUCCESS, Some (frame_addr ?f)), s1)"
    "i686_kernel_map_virt_to_phys (frame_addr ?f) (kaddr w) s1 = Some (VIRTMEM_SUCCESS, s2)"
    and w2: "window s2 w ?f" and s2: "pmem s2 = pmem s" "vm_pm s2 = vm_pm s"
    "localmem s2 = localmem s" "local_page_size s2 = Some 4096" "card (kfree s) \<le> card (kfree s2) + 3"
    and keep: "\<forall>k. k \<noteq> w \<longrightarrow> pt_present (kernel_flatpt s k) \<longrightarrow> kernel_flatpt s2 k = kernel_flatpt s k"
    by (rule user_window[OF ready p d(3,4)])
  have "kvirt_loc s2 (ua mod 4096 + kaddr w + of_nat i) = Some (user_loc (pmem s) pd (ua + of_nat i))"
    if "i < c" for i
    using window_loc[OF w2 chunk_byte(1)[of i ua n]] user_loc_chunk[of i ua n] that c
    by (simp add: algebra_simps)
  moreover have kloc: "kvirt_loc s2 (ka + of_nat i) = Some (kl i)" if "i < n" for i
    by (rule loc_other_window[OF keep d(9)[OF that] d(10)[OF that]])
  moreover have "copy_ready pd w (ua + of_nat c) (ka + of_nat c) (n - c) (\<lambda>i. kl (c + i)) (s2\<lparr>pmem := m\<rparr>)"
    if pde: "\<forall>va. user_pde m pd va = user_pde (pmem s) pd va" and wf: "wf_pd m pd" for m
  proof -
    have "3 * iterations (ua + of_nat c) (n - c) \<le> card (kfree (s2\<lparr>pmem := m\<rparr>))"
      using d(6) it s2(5) by (simp add: kfree_def)
    moreover have "(ua + of_nat c + of_nat i) div 4096 \<noteq> 0 \<and> pd_present (user_pde m pd (ua + of_nat c + of_nat i))"
      if "i < n - c" for i
      using d(7)[of "c + i"] d(8)[of "c + i"] that pde by (simp add: add.assoc)
    moreover have "kvirt_loc (s2\<lparr>pmem := m\<rparr>) (ka + of_nat c + of_nat i) = Some (kl (c + i)) \<and>
        unat ((ka + of_nat c + of_nat i - highstart) div 4096) \<noteq> w" if "i < n - c" for i
      using kloc[of "c + i"] d(10)[of "c + i"] that by (simp add: add.assoc)
    ultimately show ?thesis
      using wf d(3,5) w2 s2(4) unfolding copy_ready_def
      by (simp add: window_def local_page_size_def)
  qed
  moreover have "copy_frame w 1 s s2" using s2 keep by (simp add: copy_frame_def)
  ultimately show thesis using that[OF u s2(1) _ s2(4)] by blast
qed

text \<open>A block of \<open>n\<close> cells \<open>dl\<close> receives the contents of the cells \<open>sl\<close>, nothing else
  changes; and how two such copies add up.\<close>

definition copied ::
  "nat \<Rightarrow> (nat \<Rightarrow> 'l) \<Rightarrow> (nat \<Rightarrow> 'l) \<Rightarrow> ('l \<Rightarrow> u8) \<Rightarrow> ('l \<Rightarrow> u8) \<Rightarrow> bool" where
  "copied n dl sl m m' \<longleftrightarrow> (\<forall>i<n. m' (dl i) = m (sl i)) \<and> (\<forall>l. l \<notin> dl ` {..<n} \<longrightarrow> m' l = m l)"

definition apart :: "nat \<Rightarrow> (nat \<Rightarrow> 'l) \<Rightarrow> (nat \<Rightarrow> 'l) \<Rightarrow> bool" where
  "apart n dl sl \<longleftrightarrow> inj_on dl {..<n} \<and> (\<forall>i<n. \<forall>j<n. dl i \<noteq> sl j)"

lemma apart_prefix: "apart n dl sl \<Longrightarrow> c \<le> n \<Longrightarrow> apart c dl sl"
  by (auto simp: apart_def inj_on_def)

lemma apart_suffix: "apart n dl sl \<Longrightarrow> apart (n - c) (\<lambda>i. dl (c + i)) (\<lambda>i. sl (c + i))"
  by (auto simp: apart_def intro!: inj_onI dest: inj_onD)

lemma suffix_image: "(\<lambda>i. f (c + i)) ` {..<n - c} \<subseteq> f ` {..<(n :: nat)}"
  by auto

lemma copied_trans:
  assumes ap: "apart n dl sl" and c: "c \<le> n" and a: "copied c dl sl m m1"
    and b: "copied (n - c) (\<lambda>i. dl (c + i)) (\<lambda>i. sl (c + i)) m1 m2"
  shows "copied n dl sl m m2"
  unfolding copied_def
proof (intro conjI allI impI)
  fix l assume l: "l \<notin> dl ` {..<n}"
  then have "l \<notin> (\<lambda>i. dl (c + i)) ` {..<n - c}" "l \<notin> dl ` {..<c}" using c by auto
  then show "m2 l = m l" using a b by (simp add: copied_def)
next
  fix i assume i: "i < n"
  show "m2 (dl i) = m (sl i)"
  proof (cases "i < c")
    case True
    then have "dl i \<notin> (\<lambda>i. dl (c + i)) ` {..<n - c}"
      using ap i by (auto simp: apart_def dest: inj_onD)
    with a b True show ?thesis by (simp add: copied_def iterations_def)
  next
    case False
    then obtain j where j: "i = c + j" using le_Suc_ex not_less by blast
    have "sl i \<notin> dl ` {..<c}" 
      using ap i c unfolding apart_def by (metis imageE lessThan_iff order_less_le_trans)
    with a b j i show ?thesis by (auto simp: copied_def)
  qed
qed

lemma memcpy_kvm:
  assumes "\<forall>i<c. kvirt_loc s (d + of_nat i) = Some (dl i)" "\<forall>i<c. kvirt_loc s (src + of_nat i) = Some (sl i)"
    and "apart c dl sl" and "c < 2 ^ 32"
  obtains m where "memcpy vm_ld vm_st d src (of_nat c) s = Some (d, s\<lparr>pmem := m\<rparr>)"
    "copied c dl sl (pmem s) m"
proof -
  have u: "unat (of_nat c :: u32) = c" using assms(4) by (simp add: unat_of_nat)
  obtain s' where s': "memcpy_loop vm_ld vm_st c d src s = Some s'"
    "s'\<lparr>pmem := \<lambda>_. 0\<rparr> = s\<lparr>pmem := \<lambda>_. 0\<rparr>" "copied c dl sl (pmem s) (pmem s')"
    using kvm.memcpy_loop_ok[of c s d dl src sl] assms(1-3) unfolding copied_def apart_def by blast
  have "s' = s\<lparr>pmem := pmem s'\<rparr>" by (rule pmem_eqI[OF s'(2)])
  with s'(1) have "memcpy vm_ld vm_st d src (of_nat c) s = Some (d, s\<lparr>pmem := pmem s'\<rparr>)"
    by (simp add: memcpy_def u)
  with s'(3) that show thesis by blast
qed

text \<open>A copy that writes outside the directory and its tables leaves the map as it is.\<close>

lemma writes_keep_map:
  assumes wf: "wf_pd m pd" and out: "copied c dl sl m m'" and c: "c \<le> n"
    and sep: "frame_of ` dl ` {..<n} \<inter> insert (frame_of pd) (tables m pd) = {}"
  shows "user_pde m' pd va = user_pde m pd va" "user_pte m' pd va = user_pte m pd va" "wf_pd m' pd"
    "tables m' pd = tables m pd"
proof -
  let ?W = "dl ` {..<c}"
  have so: "same_outside (frame_of ` ?W) m m'" using out by (auto simp: same_outside_def copied_def)
  have "frame_of ` ?W \<subseteq> frame_of ` dl ` {..<n}" using c by auto
  then have pd: "frame_of pd \<notin> frame_of ` ?W" and tb: "tables m pd \<inter> frame_of ` ?W = {}" using sep by blast+
  have e: "user_pde m' pd v = user_pde m pd v" for v by (rule user_pde_outside[OF so pd wf_pdD(1)[OF wf]])
  show "user_pde m' pd va = user_pde m pd va" by (rule e)
  show "user_pte m' pd va = user_pte m pd va" by (rule user_pte_outside[OF so pd wf_pdD(1)[OF wf] tb])
  show "tables m' pd = tables m pd" by (simp add: tables_def e)
  show "wf_pd m' pd" using wf unfolding wf_pd_def tables_def e .
qed


lemma chunk_words:
  assumes "n < 2 ^ 31" "0 < n"
  shows "(of_nat n :: u32) > 0" and "minl (of_nat n) (4096 - a mod 4096) = of_nat (chunk a n)"
    and "of_nat n - of_nat (chunk a n) = (of_nat (n - chunk a n) :: u32)"
proof -
  have u: "unat (of_nat n :: u32) = n" using assms(1) by (simp add: unat_of_nat)
  show "(of_nat n :: u32) > 0" using u assms(2) by (simp add: word_less_nat_alt)
  show "minl (of_nat n) (4096 - a mod 4096) = of_nat (chunk a n)"
    using minl_chunk[of "of_nat n" a] assms(1) u by simp
  show "of_nat n - of_nat (chunk a n) = (of_nat (n - chunk a n) :: u32)"
    using chunk_le[of a n] by (simp add: of_nat_diff)
qed

lemma copy_from_user_loop_ok:
  assumes "copy_ready pd w ua ka n kl s" and "apart n kl (\<lambda>i. user_loc (pmem s) pd (ua + of_nat i))"
    and "frame_of ` kl ` {..<n} \<inter> insert (frame_of pd) (tables (pmem s) pd) = {}"
  shows "\<exists>s'. copy_from_user_loop pd (Some (kaddr w)) ka ua (of_nat n) ph s = Some s' \<and>
    copied n kl (\<lambda>i. user_loc (pmem s) pd (ua + of_nat i)) (pmem s) (pmem s') \<and>
    copy_frame w (iterations ua n) s s'"
  using assms
proof (induction n arbitrary: ua ka kl s ph rule: less_induct)
  case (less n)
  note d = copy_readyD[OF less.prems(1)]
  show ?case
  proof (cases "n = 0")
    case True
    then show ?thesis by (subst copy_from_user_loop.simps) (simp add: copied_def iterations_def)
  next
    case False
    then have n: "0 < n" by simp
    define c where "c = chunk ua n"
    have c: "0 < c" "c \<le> n" "c < 2 ^ 32"
      using chunk_pos[OF n, of ua] chunk_le[of ua n] d(5) by (simp_all add: c_def)
    let ?L = "\<lambda>i. user_loc (pmem s) pd (ua + of_nat i)"
    let ?p = "frame_addr (pt_phys_addr (user_pte (pmem s) pd ua))"
    obtain s1 s2 where it: "i686_user_get_page pd ua s = Some ((VIRTMEM_SUCCESS, Some ?p), s1)"
      "i686_kernel_map_virt_to_phys ?p (kaddr w) s1 = Some (VIRTMEM_SUCCESS, s2)"
      and s2: "pmem s2 = pmem s" "copy_frame w 1 s s2" "local_page_size s2 = Some 4096"
      and ul: "\<forall>i<c. kvirt_loc s2 (ua mod 4096 + kaddr w + of_nat i) = Some (?L i)"
      and kl: "\<forall>i<n. kvirt_loc s2 (ka + of_nat i) = Some (kl i)"
      and nxt: "\<forall>m. (\<forall>va. user_pde m pd va = user_pde (pmem s) pd va) \<longrightarrow> wf_pd m pd \<longrightarrow>
        copy_ready pd w (ua + of_nat c) (ka + of_nat c) (n - c) (\<lambda>i. kl (c + i)) (s2\<lparr>pmem := m\<rparr>)"
      by (rule copy_iteration[OF less.prems(1) n c_def])
    obtain m where m: "memcpy vm_ld vm_st ka (ua mod 4096 + kaddr w) (of_nat c) s2 = Some (ka, s2\<lparr>pmem := m\<rparr>)"
      "copied c kl ?L (pmem s) m"
      using memcpy_kvm[of c s2 ka kl "ua mod 4096 + kaddr w" ?L] kl ul c(2,3) apart_prefix[OF less.prems(2) c(2)] s2(1) by auto
    note keep = writes_keep_map[OF d(1) m(2) c(2) less.prems(3)]
    have L': "user_loc m pd (ua + of_nat c + of_nat i) = user_loc (pmem s) pd (ua + of_nat (c + i))" for i
      by (simp add: user_loc_def keep(2) add.assoc)
    let ?s3 = "s2\<lparr>pmem := m\<rparr>"
    have r3: "copy_ready pd w (ua + of_nat c) (ka + of_nat c) (n - c) (\<lambda>i. kl (c + i)) ?s3"
      using nxt keep by blast
    have sub: "(\<lambda>i. kl (c + i)) ` {..<n - c} \<subseteq> kl ` {..<n}" by (rule suffix_image)
    have f3: "frame_of ` (\<lambda>i. kl (c + i)) ` {..<n - c} \<inter> insert (frame_of pd) (tables m pd) = {}"
      unfolding keep(4) using image_mono[OF sub, of frame_of] less.prems(3) by blast
    have "\<exists>s'. copy_from_user_loop pd (Some (kaddr w)) (ka + of_nat c) (ua + of_nat c) (of_nat (n - c)) (Some ?p) ?s3 = Some s' \<and>
      copied (n - c) (\<lambda>i. kl (c + i)) (\<lambda>i. user_loc (pmem s) pd (ua + of_nat (c + i))) m (pmem s') \<and> copy_frame w (iterations (ua + of_nat c) (n - c)) s2 s'"
      using less.IH[of "n - c" "ua + of_nat c" "ka + of_nat c" "\<lambda>i. kl (c + i)" ?s3 "Some ?p"]
        c n r3 apart_suffix[OF less.prems(2), of c] f3 by (simp add: L')
    then obtain s' where s': "copy_from_user_loop pd (Some (kaddr w)) (ka + of_nat c) (ua + of_nat c) (of_nat (n - c)) (Some ?p) ?s3 = Some s'"
      "copied (n - c) (\<lambda>i. kl (c + i)) (\<lambda>i. user_loc (pmem s) pd (ua + of_nat (c + i))) m (pmem s')" "copy_frame w (iterations (ua + of_nat c) (n - c)) s2 s'" by blast
    have "copy_from_user_loop pd (Some (kaddr w)) ka ua (of_nat n) ph s = Some s'"
      using chunk_words(1)[OF d(5) n] chunk_words(2,3)[OF d(5) n, of ua] it s2(3) m(1) s'(1)
      by (subst copy_from_user_loop.simps) (simp add: copy_partial_page_from_user_def c_def)
    moreover have "copy_frame w (iterations ua n) s s'"
      using copy_frame_trans[OF s2(2) s'(3)] iterations_step[OF n, of ua] by (simp add: c_def)
    ultimately show ?thesis using copied_trans[OF less.prems(2) c(2) m(2) s'(2)] by blast
  qed
qed

lemma copy_to_user_loop_ok:
  assumes "copy_ready pd w ua ka n kl s" and "apart n (\<lambda>i. user_loc (pmem s) pd (ua + of_nat i)) kl"
    and "frame_of ` (\<lambda>i. user_loc (pmem s) pd (ua + of_nat i)) ` {..<n} \<inter> insert (frame_of pd) (tables (pmem s) pd) = {}"
  shows "\<exists>s'. copy_to_user_loop pd (Some (kaddr w)) ua ka (of_nat n) ph s = Some s' \<and>
    copied n (\<lambda>i. user_loc (pmem s) pd (ua + of_nat i)) kl (pmem s) (pmem s') \<and>
    copy_frame w (iterations ua n) s s'"
  using assms
proof (induction n arbitrary: ua ka kl s ph rule: less_induct)
  case (less n)
  note d = copy_readyD[OF less.prems(1)]
  show ?case
  proof (cases "n = 0")
    case True
    then show ?thesis by (subst copy_to_user_loop.simps) (simp add: copied_def iterations_def)
  next
    case False
    then have n: "0 < n" by simp
    define c where "c = chunk ua n"
    have c: "0 < c" "c \<le> n" "c < 2 ^ 32"
      using chunk_pos[OF n, of ua] chunk_le[of ua n] d(5) by (simp_all add: c_def)
    let ?L = "\<lambda>i. user_loc (pmem s) pd (ua + of_nat i)"
    let ?p = "frame_addr (pt_phys_addr (user_pte (pmem s) pd ua))"
    obtain s1 s2 where it: "i686_user_get_page pd ua s = Some ((VIRTMEM_SUCCESS, Some ?p), s1)"
      "i686_kernel_map_virt_to_phys ?p (kaddr w) s1 = Some (VIRTMEM_SUCCESS, s2)"
      and s2: "pmem s2 = pmem s" "copy_frame w 1 s s2" "local_page_size s2 = Some 4096"
      and ul: "\<forall>i<c. kvirt_loc s2 (ua mod 4096 + kaddr w + of_nat i) = Some (?L i)"
      and kl: "\<forall>i<n. kvirt_loc s2 (ka + of_nat i) = Some (kl i)"
      and nxt: "\<forall>m. (\<forall>va. user_pde m pd va = user_pde (pmem s) pd va) \<longrightarrow> wf_pd m pd \<longrightarrow>
        copy_ready pd w (ua + of_nat c) (ka + of_nat c) (n - c) (\<lambda>i. kl (c + i)) (s2\<lparr>pmem := m\<rparr>)"
      by (rule copy_iteration[OF less.prems(1) n c_def])
    obtain m where m: "memcpy vm_ld vm_st (ua mod 4096 + kaddr w) ka (of_nat c) s2 = Some (ua mod 4096 + kaddr w, s2\<lparr>pmem := m\<rparr>)"
      "copied c ?L kl (pmem s) m"
      using memcpy_kvm[of c s2 "ua mod 4096 + kaddr w" ?L ka kl] kl ul c(2,3) apart_prefix[OF less.prems(2) c(2)] s2(1) by auto
    note keep = writes_keep_map[OF d(1) m(2) c(2) less.prems(3)]
    have L': "user_loc m pd (ua + of_nat c + of_nat i) = user_loc (pmem s) pd (ua + of_nat (c + i))" for i
      by (simp add: user_loc_def keep(2) add.assoc)
    let ?s3 = "s2\<lparr>pmem := m\<rparr>"
    have r3: "copy_ready pd w (ua + of_nat c) (ka + of_nat c) (n - c) (\<lambda>i. kl (c + i)) ?s3"
      using nxt keep by blast
    have sub: "(\<lambda>i. user_loc (pmem s) pd (ua + of_nat (c + i))) ` {..<n - c} \<subseteq> (\<lambda>i. user_loc (pmem s) pd (ua + of_nat i)) ` {..<n}" by (rule suffix_image)
    have f3: "frame_of ` (\<lambda>i. user_loc (pmem s) pd (ua + of_nat (c + i))) ` {..<n - c} \<inter> insert (frame_of pd) (tables m pd) = {}"
      unfolding keep(4) using image_mono[OF sub, of frame_of] less.prems(3) by blast
    have "\<exists>s'. copy_to_user_loop pd (Some (kaddr w)) (ua + of_nat c) (ka + of_nat c) (of_nat (n - c)) (Some ?p) ?s3 = Some s' \<and>
      copied (n - c) (\<lambda>i. user_loc (pmem s) pd (ua + of_nat (c + i))) (\<lambda>i. kl (c + i)) m (pmem s') \<and> copy_frame w (iterations (ua + of_nat c) (n - c)) s2 s'"
      using less.IH[of "n - c" "ua + of_nat c" "ka + of_nat c" "\<lambda>i. kl (c + i)" ?s3 "Some ?p"]
        c n r3 apart_suffix[OF less.prems(2), of c] f3 by (simp add: L')
    then obtain s' where s': "copy_to_user_loop pd (Some (kaddr w)) (ua + of_nat c) (ka + of_nat c) (of_nat (n - c)) (Some ?p) ?s3 = Some s'"
      "copied (n - c) (\<lambda>i. user_loc (pmem s) pd (ua + of_nat (c + i))) (\<lambda>i. kl (c + i)) m (pmem s')" "copy_frame w (iterations (ua + of_nat c) (n - c)) s2 s'" by blast
    have "copy_to_user_loop pd (Some (kaddr w)) ua ka (of_nat n) ph s = Some s'"
      using chunk_words(1)[OF d(5) n] chunk_words(2,3)[OF d(5) n, of ua] it s2(3) m(1) s'(1)
      by (subst copy_to_user_loop.simps) (simp add: copy_partial_page_to_user_def c_def)
    moreover have "copy_frame w (iterations ua n) s s'"
      using copy_frame_trans[OF s2(2) s'(3)] iterations_step[OF n, of ua] by (simp add: c_def)
    ultimately show ?thesis using copied_trans[OF less.prems(2) c(2) m(2) s'(2)] by blast
  qed
qed


section \<open>Whole copies\<close>

text \<open>The state before a copy; one kernel page more is needed for the window of the copy.\<close>

definition copy_sane ::
  "physaddr_t \<Rightarrow> virtaddr_t \<Rightarrow> virtaddr_t \<Rightarrow> nat \<Rightarrow> (nat \<Rightarrow> physaddr_t) \<Rightarrow> vm_state \<Rightarrow> bool" where
  "copy_sane pd ua ka n kl s \<longleftrightarrow>
     wf_pd (pmem s) pd \<and> local_page_size s = Some 4096 \<and> n < 2 ^ 31 \<and>
     3 * iterations ua n < card (kfree s) \<and>
     (\<forall>i<n. (ua + of_nat i) div 4096 \<noteq> 0 \<and> pd_present (user_pde (pmem s) pd (ua + of_nat i))) \<and>
     (\<forall>i<n. kvirt_loc s (ka + of_nat i) = Some (kl i))"

definition user_cells :: "vm_state \<Rightarrow> physaddr_t \<Rightarrow> virtaddr_t \<Rightarrow> nat \<Rightarrow> physaddr_t" where
  "user_cells s pd ua i = user_loc (pmem s) pd (ua + of_nat i)"

definition off_tables :: "vm_state \<Rightarrow> physaddr_t \<Rightarrow> nat \<Rightarrow> (nat \<Rightarrow> physaddr_t) \<Rightarrow> bool" where
  "off_tables s pd n cells \<longleftrightarrow> frame_of ` cells ` {..<n} \<inter> insert (frame_of pd) (tables (pmem s) pd) = {}"

lemma copy_start:
  assumes "copy_sane pd ua ka n kl s"
  obtains w where "w \<in> kfree s"
    "i686_kernel_alloc 1 s = Some ((VIRTMEM_SUCCESS, Some (kaddr w)), kalloc_state w s)"
    "copy_ready pd w ua ka n kl (kalloc_state w s)"
proof -
  have "kfree s \<noteq> {}" using assms by (auto simp: copy_sane_def)
  then obtain w where w: "w \<in> kfree s"
    "i686_kernel_alloc 1 s = Some ((VIRTMEM_SUCCESS, Some (kaddr w)), kalloc_state w s)"
    by (rule i686_kernel_alloc_ok)
  have lt: "w < 262144" and np: "\<not> pt_present (kernel_flatpt s w)" using w(1) by (auto simp: kfree_def)
  have pw: "pt_present (kernel_flatpt (kalloc_state w s) w)" by (simp add: kalloc_state_def)
  have "keeps_mapped s (kalloc_state w s)" using np by (auto simp: keeps_mapped_def kalloc_state_def)
  then have loc: "kvirt_loc (kalloc_state w s) a = Some l \<and> unat ((a - highstart) div 4096) \<noteq> w"
    if "kvirt_loc s a = Some l" for a l
    using keeps_mapped_loc[OF _ that] pt_present_loc[OF that] np by metis
  have "card (kfree (kalloc_state w s)) = card (kfree s) - 1" using w(1) by (simp add: kfree_kalloc)
  then have "copy_ready pd w ua ka n kl (kalloc_state w s)"
    using assms lt loc pw unfolding copy_sane_def copy_ready_def by auto
  with w that show thesis by blast
qed

lemma copy_frame_whole:
  assumes "w \<in> kfree s" "copy_frame w k (kalloc_state w s) s'"
  shows "keeps_mapped s s'" "card (kfree s) \<le> card (kfree s') + 3 * k + 1" "vm_pm s' = vm_pm s"
    "localmem s' = localmem s"
proof -
  have "card (kfree s) = Suc (card (kfree (kalloc_state w s)))"
    using assms(1) card_Suc_Diff1[of "kfree s" w] by (simp add: kfree_kalloc)
  then show "card (kfree s) \<le> card (kfree s') + 3 * k + 1" using assms(2) by (simp add: copy_frame_def)
  show "keeps_mapped s s'" "vm_pm s' = vm_pm s" "localmem s' = localmem s"
    using assms by (auto simp: copy_frame_def keeps_mapped_def kfree_def kalloc_state_def split: if_splits)
qed

lemma copy_to_user_whole:
  assumes sane: "copy_sane pd ua ka n kl s" and "apart n (user_cells s pd ua) kl"
    and "off_tables s pd n (user_cells s pd ua)"
  shows "\<exists>s'. virtmem_copy_kernel_to_user pd ua ka (of_nat n) s = Some (VIRTMEM_SUCCESS, s') \<and>
    copied n (user_cells s pd ua) kl (pmem s) (pmem s') \<and> keeps_mapped s s' \<and>
    card (kfree s) \<le> card (kfree s') + 3 * iterations ua n + 1 \<and> vm_pm s' = vm_pm s \<and>
    localmem s' = localmem s"
proof -
  obtain w where w: "w \<in> kfree s"
    "i686_kernel_alloc 1 s = Some ((VIRTMEM_SUCCESS, Some (kaddr w)), kalloc_state w s)"
    and r: "copy_ready pd w ua ka n kl (kalloc_state w s)" by (rule copy_start[OF sane])
  obtain s' where "copy_to_user_loop pd (Some (kaddr w)) ua ka (of_nat n) None (kalloc_state w s) = Some s'"
    "copied n (user_cells s pd ua) kl (pmem s) (pmem s')" "copy_frame w (iterations ua n) (kalloc_state w s) s'"
    using copy_to_user_loop_ok[OF r, of None] assms(2,3)
    by (auto simp: user_cells_def[abs_def] off_tables_def)
  with w(2) copy_frame_whole[OF w(1)] show ?thesis
    by (simp add: virtmem_copy_kernel_to_user_def common_virtmem_copy_kernel_to_user_def
        copy_alt_user_from_kernel_def i686_kernel_free_def)
qed

lemma copy_from_user_whole:
  assumes sane: "copy_sane pd ua ka n kl s" and "apart n kl (user_cells s pd ua)"
    and "off_tables s pd n kl"
  shows "\<exists>s'. virtmem_copy_user_to_kernel ka pd ua (of_nat n) s = Some (VIRTMEM_SUCCESS, s') \<and>
    copied n kl (user_cells s pd ua) (pmem s) (pmem s') \<and> keeps_mapped s s' \<and>
    card (kfree s) \<le> card (kfree s') + 3 * iterations ua n + 1 \<and> vm_pm s' = vm_pm s \<and>
    localmem s' = localmem s"
proof -
  obtain w where w: "w \<in> kfree s"
    "i686_kernel_alloc 1 s = Some ((VIRTMEM_SUCCESS, Some (kaddr w)), kalloc_state w s)"
    and r: "copy_ready pd w ua ka n kl (kalloc_state w s)" by (rule copy_start[OF sane])
  obtain s' where "copy_from_user_loop pd (Some (kaddr w)) ka ua (of_nat n) None (kalloc_state w s) = Some s'"
    "copied n kl (user_cells s pd ua) (pmem s) (pmem s')" "copy_frame w (iterations ua n) (kalloc_state w s) s'"
    using copy_from_user_loop_ok[OF r, of None] assms(2,3)
    by (auto simp: user_cells_def[abs_def] off_tables_def)
  with w(2) copy_frame_whole[OF w(1)] show ?thesis
    by (simp add: virtmem_copy_user_to_kernel_def common_virtmem_copy_user_to_kernel_def
        copy_alt_user_to_kernel_def i686_kernel_free_def)
qed


section \<open>A concrete state\<close>

text \<open>An address space with directory at \<open>0x3000\<close>, whose page \<open>0x1000000\<close> has its table in
  frame 4 and is mapped to frame 5, and two kernel pages mapped to the frames 6 and 7.\<close>

definition example_pte :: i686_pte where
  "example_pte = (word_to_pte 0)\<lparr>pt_present := True, pt_writable := True, pt_user := True, pt_phys_addr := 5\<rparr>"

definition example_user_mem :: "physaddr_t \<Rightarrow> u8" where
  "example_user_mem = store32 (pt_slot 4 0x1000000) (pte_to_word example_pte)
     (store32 (pd_slot 0x3000 0x1000000) (pde_to_word (table_pde 4)) (\<lambda>_. 0))"

definition example_user_vm :: vm_state where
  "example_user_vm = example_vm\<lparr>pmem := example_user_mem,
     kernel_flatpt := (\<lambda>_. word_to_pte 0)
       (0 := (word_to_pte 0)\<lparr>pt_present := True, pt_phys_addr := 6\<rparr>,
        1 := (word_to_pte 0)\<lparr>pt_present := True, pt_phys_addr := 7\<rparr>)\<rparr>"

lemma table_pde_fields: "pd_present (table_pde f)" "pd_phys_addr (table_pde f) = f"
  by (simp_all add: table_pde_def)

lemma example_user_mem_map:
  "wf_pd example_user_mem 0x3000" "tables example_user_mem 0x3000 = {4}"
  "va div 4096 = 0x1000 \<Longrightarrow> pd_present (user_pde example_user_mem 0x3000 va)"
  "va div 4096 = 0x1000 \<Longrightarrow> user_pte example_user_mem 0x3000 va = example_pte"
proof -
  let ?zm = "\<lambda>_. 0 :: u8"
  let ?m = "store32 (pd_slot 0x3000 0x1000000) (pde_to_word (table_pde 4)) ?zm"
  have z: "zero_frame 4 ?zm = ?zm" by (simp add: zero_frame_def)
  have wf0: "wf_pd ?zm 0x3000" and p0: "\<not> pd_present (user_pde ?zm 0x3000 va)" for va
    using example_vm_pd by (simp_all add: example_vm_def)
  have fr: "(4 :: 20 word) \<notin> insert (frame_of 0x3000) (tables ?zm 0x3000)"
    using p0 by (simp add: tables_def frame_of_def drop_bit_12)
  have m: "?m = store32 (pd_slot 0x3000 0x1000000) (pde_to_word (table_pde 4)) (zero_frame 4 ?zm)"
    by (simp only: z)
  note n = new_table_refines[OF wf0 p0[of "0x1000000"] fr m]
  have pde: "user_pde ?m 0x3000 va = (if va div 4194304 = 4 then table_pde 4 else user_pde ?zm 0x3000 va)" for va
    using n(1)[of va] by simp
  have f: "4 = pd_phys_addr (user_pde ?m 0x3000 0x1000000)" and p: "pd_present (user_pde ?m 0x3000 0x1000000)"
    by (simp_all add: pde table_pde_fields)
  note r = store_pte_refines[OF n(2) p f, of "pte_to_word example_pte", folded example_user_mem_def]
  show "wf_pd example_user_mem 0x3000" by (rule r(2))
  have "tables example_user_mem 0x3000 = {pd_phys_addr (user_pde ?m 0x3000 va) |va. pd_present (user_pde ?m 0x3000 va)}"
    by (simp add: tables_def r(1))
  also have "\<dots> = {4}"
    using p0 by (auto simp: pde table_pde_fields split: if_splits intro!: exI[of _ "0x1000000"])
  finally show "tables example_user_mem 0x3000 = {4}" .
  assume va: "va div 4096 = 0x1000"
  show "pd_present (user_pde example_user_mem 0x3000 va)"
    unfolding r(1) by (simp add: pde pd_index_div va table_pde_fields)
  show "user_pte example_user_mem 0x3000 va = example_pte"
    using r(3)[of va] va by (simp add: word_to_pte_to_word)
qed

lemma from_2: "{i. i < n \<and> i \<noteq> 0 \<and> i \<noteq> 1} = {2..<(n :: nat)}"
  by auto

lemma example_user_vm_kfree: "kfree example_user_vm = {2..<262144}"
proof -
  have "kfree example_user_vm = {i. i < 262144 \<and> i \<noteq> 0 \<and> i \<noteq> 1}"
    by (auto simp: kfree_def example_user_vm_def example_vm_def)
  then show ?thesis unfolding from_2 .
qed

lemma less_2_cases: "i < (2 :: nat) \<Longrightarrow> i = 0 \<or> i = 1"
  by linarith

lemma example_kernel_loc:
  assumes "off < 4096"
  shows "kvirt_loc example_user_vm (0xC0000000 + off) = Some (0x6000 + off)"
    and "kvirt_loc example_user_vm (0xC0001000 + off) = Some (0x7000 + off)"
  using kvirt_loc_kaddr[OF _ assms, of 0 example_user_vm] kvirt_loc_kaddr[OF _ assms, of 1 example_user_vm]
  by (simp_all add: kaddr_def pg_size_def highstart_def example_user_vm_def frame_addr_def)

lemma example_user_cells: "i < 2 \<Longrightarrow> user_cells example_user_vm 0x3000 0x1000ff0 i = 0x5ff0 + of_nat i"
  using example_user_mem_map(4)[of "0x1000ff0 + of_nat i"]
  by (auto dest!: less_2_cases simp: user_cells_def user_loc_def example_user_vm_def example_pte_def frame_addr_def)

lemma example_copy_sane:
  "copy_sane 0x3000 0x1000ff0 0xC0000000 2 (\<lambda>i. 0x6000 + of_nat i) example_user_vm"
proof -
  have "local_page_size example_user_vm = Some 4096"
    by (simp add: local_page_size_def example_user_vm_def example_vm_def example_pool_page_size)
  moreover have "pmem example_user_vm = example_user_mem" by (simp add: example_user_vm_def)
  moreover have "(0x1000ff0 + of_nat i) div 4096 \<noteq> (0 :: u32) \<and>
      pd_present (user_pde example_user_mem 0x3000 (0x1000ff0 + of_nat i))" if "i < 2" for i
    using less_2_cases[OF that] example_user_mem_map(3)[of "0x1000ff0 + of_nat i"] by auto
  moreover have "kvirt_loc example_user_vm (0xC0000000 + of_nat i) = Some (0x6000 + of_nat i)" if "i < 2" for i
    using less_2_cases[OF that] example_kernel_loc(1)[of "of_nat i"] by auto
  ultimately show ?thesis
    using example_user_mem_map(1)
    by (simp add: copy_sane_def example_user_vm_kfree iterations_def)
qed

lemma example_apart:
  "apart 2 (user_cells example_user_vm 0x3000 0x1000ff0) (\<lambda>i. 0x6000 + of_nat i)"
  "apart 2 (\<lambda>i. 0x7000 + of_nat i) (user_cells example_user_vm 0x3000 0x1000ff0)"
  "off_tables example_user_vm 0x3000 2 (user_cells example_user_vm 0x3000 0x1000ff0)"
  "off_tables example_user_vm 0x3000 2 (\<lambda>i. 0x7000 + of_nat i)"
proof -
  have two: "{..<2 :: nat} = {0, 1}" by auto
  have "pmem example_user_vm = example_user_mem" by (simp add: example_user_vm_def)
  note simps = this two apart_def off_tables_def example_user_cells example_user_mem_map(2) frame_of_def drop_bit_12
  show "apart 2 (user_cells example_user_vm 0x3000 0x1000ff0) (\<lambda>i. 0x6000 + of_nat i)"
    by (auto simp: simps dest!: less_2_cases)
  show "apart 2 (\<lambda>i. 0x7000 + of_nat i) (user_cells example_user_vm 0x3000 0x1000ff0)"
    by (auto simp: simps dest!: less_2_cases)
  show "off_tables example_user_vm 0x3000 2 (user_cells example_user_vm 0x3000 0x1000ff0)"
    "off_tables example_user_vm 0x3000 2 (\<lambda>i. 0x7000 + of_nat i)"
    by (auto simp: simps)
qed

section \<open>Properties\<close>

text \<open>
  C9.  \<^verbatim>\<open>virtmem_copy_kernel_to_user\<close> returns and copies exactly the given bytes: each user
  cell of the range holds the byte of the kernel buffer, no other cell of memory changes, kernel
  mappings in use and the page allocator are left alone, and each page of the range costs at most
  three kernel pages, and the window one more.
\<close>

theorem copy_kernel_to_user_copies:
  assumes "copy_sane pd ua ka n kl s" and "apart n (user_cells s pd ua) kl"
    and "off_tables s pd n (user_cells s pd ua)"
  shows "\<exists>s'. virtmem_copy_kernel_to_user pd ua ka (of_nat n) s = Some (VIRTMEM_SUCCESS, s') \<and>
    (\<forall>i<n. pmem s' (user_cells s pd ua i) = pmem s (kl i)) \<and>
    (\<forall>l. l \<notin> user_cells s pd ua ` {..<n} \<longrightarrow> pmem s' l = pmem s l) \<and> keeps_mapped s s' \<and>
    card (kfree s) \<le> card (kfree s') + 3 * iterations ua n + 1 \<and> vm_pm s' = vm_pm s"
  using copy_to_user_whole[OF assms] by (auto simp: copied_def)

theorem copy_kernel_to_user_copies_witness:
  "\<exists>s'. virtmem_copy_kernel_to_user 0x3000 0x1000ff0 0xC0000000 2 example_user_vm =
      Some (VIRTMEM_SUCCESS, s') \<and>
    pmem s' 0x5ff0 = pmem example_user_vm 0x6000 \<and> pmem s' 0x5ff1 = pmem example_user_vm 0x6001"
proof -
  obtain s' where "virtmem_copy_kernel_to_user 0x3000 0x1000ff0 0xC0000000 (of_nat 2) example_user_vm =
      Some (VIRTMEM_SUCCESS, s')"
    "\<forall>i<2. pmem s' (user_cells example_user_vm 0x3000 0x1000ff0 i) = pmem example_user_vm (0x6000 + of_nat i)"
    using copy_kernel_to_user_copies[OF example_copy_sane example_apart(1,3)] by blast
  moreover from this(2)[rule_format, of 0] this(2)[rule_format, of 1]
  have "pmem s' 0x5ff0 = pmem example_user_vm 0x6000" "pmem s' 0x5ff1 = pmem example_user_vm 0x6001"
    by (simp_all add: example_user_cells)
  ultimately show ?thesis by auto
qed

text \<open>
  C10.  Bytes copied to a user address space and back to another kernel buffer are the same.
\<close>

theorem user_copy_roundtrip:
  assumes sane: "copy_sane pd ua ka n kl s" and kb: "\<forall>i<n. kvirt_loc s (kb + of_nat i) = Some (bl i)"
    and "apart n (user_cells s pd ua) kl" and ap: "apart n bl (user_cells s pd ua)"
    and off: "off_tables s pd n (user_cells s pd ua)" and offb: "off_tables s pd n bl"
    and free: "6 * iterations ua n + 2 \<le> card (kfree s)"
  shows "\<exists>s1 s2. virtmem_copy_kernel_to_user pd ua ka (of_nat n) s = Some (VIRTMEM_SUCCESS, s1) \<and>
    virtmem_copy_user_to_kernel kb pd ua (of_nat n) s1 = Some (VIRTMEM_SUCCESS, s2) \<and>
    (\<forall>i<n. pmem s2 (bl i) = pmem s (kl i))"
proof -
  obtain s1 where s1: "virtmem_copy_kernel_to_user pd ua ka (of_nat n) s = Some (VIRTMEM_SUCCESS, s1)"
    "copied n (user_cells s pd ua) kl (pmem s) (pmem s1)" "keeps_mapped s s1"
    "card (kfree s) \<le> card (kfree s1) + 3 * iterations ua n + 1" "vm_pm s1 = vm_pm s" "localmem s1 = localmem s"
    using copy_to_user_whole[OF sane assms(3) off] by blast
  have wf: "wf_pd (pmem s) pd" using sane by (simp add: copy_sane_def)
  note keep = writes_keep_map[OF wf s1(2) order_refl off[unfolded off_tables_def]]
  have cells: "user_cells s1 pd ua = user_cells s pd ua"
    by (rule ext) (simp add: user_cells_def user_loc_def keep(2))
  have "copy_sane pd ua kb n bl s1"
    using sane kb keeps_mapped_loc[OF s1(3)] keep free s1(4-6)
    by (auto simp: copy_sane_def local_page_size_def)
  then obtain s2 where "virtmem_copy_user_to_kernel kb pd ua (of_nat n) s1 = Some (VIRTMEM_SUCCESS, s2)"
    "copied n bl (user_cells s pd ua) (pmem s1) (pmem s2)"
    using copy_from_user_whole[of pd ua kb n bl s1] ap offb unfolding cells off_tables_def keep(4) by blast
  with s1(1,2) show ?thesis by (auto simp: copied_def)
qed

theorem user_copy_roundtrip_witness:
  "\<exists>s1 s2. virtmem_copy_kernel_to_user 0x3000 0x1000ff0 0xC0000000 2 example_user_vm = Some (VIRTMEM_SUCCESS, s1) \<and>
    virtmem_copy_user_to_kernel 0xC0001000 0x3000 0x1000ff0 2 s1 = Some (VIRTMEM_SUCCESS, s2) \<and>
    pmem s2 0x7001 = pmem example_user_vm 0x6001"
proof -
  have kb: "\<forall>i<2. kvirt_loc example_user_vm (0xC0001000 + of_nat i) = Some (0x7000 + of_nat i)"
    using example_kernel_loc(2)[of 0] example_kernel_loc(2)[of 1] by (auto dest!: less_2_cases)
  have free: "6 * iterations 0x1000ff0 2 + 2 \<le> card (kfree example_user_vm)"
    by (simp add: example_user_vm_kfree iterations_def)
  obtain s1 s2 where "virtmem_copy_kernel_to_user 0x3000 0x1000ff0 0xC0000000 (of_nat 2) example_user_vm =
      Some (VIRTMEM_SUCCESS, s1)"
    "virtmem_copy_user_to_kernel 0xC0001000 0x3000 0x1000ff0 (of_nat 2) s1 = Some (VIRTMEM_SUCCESS, s2)"
    "\<forall>i<2. pmem s2 (0x7000 + of_nat i) = pmem example_user_vm (0x6000 + of_nat i)"
    using user_copy_roundtrip[OF example_copy_sane kb example_apart free] by blast
  moreover from this(3)[rule_format, of 1] have "pmem s2 0x7001 = pmem example_user_vm 0x6001" by simp
  ultimately show ?thesis by auto
qed

end
