(* ===== verification/Slab.thy ===== *)
theory Slab
  imports Usercopy
begin

text \<open>
  The slab allocator: \<^verbatim>\<open>src/sys/common/slab.c\<close>, \<^verbatim>\<open>src/sys/include/slab.h\<close> and
  \<^verbatim>\<open>src/sys/i686/i686_slab.c\<close>.  A slab is one kernel page: a header, the array of pointers to
  its free objects, and the objects at its end.  Headers and free lists are records here, the
  objects are bytes of kernel memory; that they do not overlap in the page is shown below.
  Constructors and destructors are called through function pointers, modelled by names and a
  parameter \<open>run\<close> that performs the call; what they work on is the component \<open>km_ext\<close> of the
  state.
\<close>

section \<open>Data\<close>

datatype kmem_error_t = KMEM_SUCCESS | KMEM_ERR_USED | KMEM_ERR_INVALID | KMEM_ERR_OOM

definition MAX_SLAB_NAME_LEN :: nat where "MAX_SLAB_NAME_LEN = 32"
definition MIN_CACHE_SIZE :: u32 where "MIN_CACHE_SIZE = 1"
definition NUM_CACHES :: nat where "NUM_CACHES = 8"

text \<open>\<^verbatim>\<open>first_free\<close> points into \<^verbatim>\<open>freelist\<close>; here it is the index of the entry.\<close>

record kmem_slab =
  num_total :: u32
  n_pages :: u32
  first_free :: nat
  freelist :: "nat \<Rightarrow> virtaddr_t"

definition sizeof_kmem_slab :: u32 where "sizeof_kmem_slab = 16"
definition sizeof_ptr :: u32 where "sizeof_ptr = 4"
definition sizeof_kmem_cache :: u32 where "sizeof_kmem_cache = 68"

text \<open>The functions that the kernel passes as constructors and destructors.\<close>

datatype kmem_cache_fn =
    I686_address_space_ctor
  | I686_address_space_dtor
  | I686_memory_region_ctor
  | I686_init_thread_vfuncs

type_synonym slab_ptr = virtaddr_t
type_synonym cache_ptr = u32

record kmem_cache =
  kc_name :: string
  objsize :: u32
  used :: u32
  kc_cpu :: u32
  kc_ctor :: "kmem_cache_fn option"
  kc_dtor :: "kmem_cache_fn option"

datatype slab_head = Slabs_full cache_ptr | Slabs_partial cache_ptr | Slabs_empty cache_ptr

record 'x kmem_state =
  km_vm :: vm_state
  km_links :: "(slab_head, slab_ptr) slist_store"
  km_slab :: "slab_ptr \<Rightarrow> kmem_slab"
  km_cache :: "cache_ptr \<Rightarrow> kmem_cache"
  next_free_cache :: u32
  sym_caches :: cache_ptr
  km_ext :: 'x

type_synonym 'x kmem_run = "kmem_cache_fn \<Rightarrow> virtaddr_t \<Rightarrow> 'x kmem_state \<Rightarrow> 'x kmem_state option"

definition upd_slab :: "slab_ptr \<Rightarrow> (kmem_slab \<Rightarrow> kmem_slab) \<Rightarrow> 'x kmem_state \<Rightarrow> 'x kmem_state" where
  "upd_slab p f s = s\<lparr>km_slab := (km_slab s)(p := f (km_slab s p))\<rparr>"

definition upd_cache :: "cache_ptr \<Rightarrow> (kmem_cache \<Rightarrow> kmem_cache) \<Rightarrow> 'x kmem_state \<Rightarrow> 'x kmem_state" where
  "upd_cache c f s = s\<lparr>km_cache := (km_cache s)(c := f (km_cache s c))\<rparr>"

section \<open>Operations\<close>

text \<open>The loop that fills \<^verbatim>\<open>s->freelist\<close> from entry \<open>i\<close> on, and the null after it.\<close>

primrec fill_freelist ::
  "nat \<Rightarrow> nat \<Rightarrow> virtaddr_t \<Rightarrow> u32 \<Rightarrow> (nat \<Rightarrow> virtaddr_t) \<Rightarrow> nat \<Rightarrow> virtaddr_t" where
  "fill_freelist 0 i cur_obj osize fl = fl(i := 0)"
| "fill_freelist (Suc n) i cur_obj osize fl =
     fill_freelist n (Suc i) (cur_obj + osize) osize (fl(i := cur_obj))"

definition kmem_initialize_slab :: "cache_ptr \<Rightarrow> slab_ptr \<Rightarrow> 'x kmem_state \<Rightarrow> 'x kmem_state option" where
  "kmem_initialize_slab cache p s = do {
     c_assert (cache \<noteq> 0);
     c_assert (p \<noteq> 0);
     c_assert (kc_cpu (km_cache s cache) \<noteq> 0);
     c_assert (n_pages (km_slab s p) \<noteq> 0);
     c_assert (objsize (km_cache s cache) \<noteq> 0);
     psize \<leftarrow> local_page_size (km_vm s);
     let osize = objsize (km_cache s cache);
     let sz = n_pages (km_slab s p) * psize;
     let n_elements = (sz - sizeof_kmem_slab - sizeof_ptr) div (osize + sizeof_ptr);
     let s1 = upd_slab p (\<lambda>b. b\<lparr>num_total := n_elements\<rparr>) s;
     c_assert (sint n_elements > 0);
     let s2 = upd_slab p (\<lambda>b. b\<lparr>freelist :=
                fill_freelist (unat n_elements) 0 (p + sz - osize * n_elements) osize (freelist b)\<rparr>) s1;
     Some (upd_slab p (\<lambda>b. b\<lparr>first_free := 0\<rparr>) s2)
   }"

text \<open>The slab to allocate from; the result \<^term>\<open>None\<close> inside is the return of a null pointer
  when there is no memory for a new slab.\<close>

definition cache_get_slab ::
  "cache_ptr \<Rightarrow> 'x kmem_state \<Rightarrow> (slab_ptr option \<times> 'x kmem_state) option" where
  "cache_get_slab cache s =
     (if \<not> SLIST_EMPTY (Slabs_partial cache) (km_links s) then do {
        p \<leftarrow> SLIST_FIRST (Slabs_partial cache) (km_links s);
        Some (Some p, s)
      }
      else if \<not> SLIST_EMPTY (Slabs_empty cache) (km_links s) then do {
        p \<leftarrow> SLIST_FIRST (Slabs_empty cache) (km_links s);
        q \<leftarrow> SLIST_REMOVE_HEAD (Slabs_empty cache) (km_links s);
        Some (Some p, s\<lparr>km_links := SLIST_INSERT_HEAD (Slabs_partial cache) p q\<rparr>)
      }
      else do {
        ((verr, va), vm1) \<leftarrow> virtmem_kernel_alloc 1 (km_vm s);
        if verr \<noteq> VIRTMEM_SUCCESS then Some (None, s\<lparr>km_vm := vm1\<rparr>)
        else do {
          vaddr \<leftarrow> va;
          ((perr, pa), vm2) \<leftarrow> local_page_alloc vm1;
          if perr \<noteq> PHYSMEM_SUCCESS then Some (None, s\<lparr>km_vm := vm2\<rparr>)
          else do {
            paddr \<leftarrow> pa;
            (_, vm3) \<leftarrow> virtmem_kernel_map_virt_to_phys paddr vaddr vm2;
            let s1 = upd_slab vaddr (\<lambda>b. b\<lparr>n_pages := 1\<rparr>) (s\<lparr>km_vm := vm3\<rparr>);
            s2 \<leftarrow> kmem_initialize_slab cache vaddr s1;
            Some (Some vaddr,
                  s2\<lparr>km_links := SLIST_INSERT_HEAD (Slabs_partial cache) vaddr (km_links s2)\<rparr>)
          }
        }
      })"

definition common_kmem_cache_alloc ::
  "'x kmem_run \<Rightarrow> cache_ptr \<Rightarrow> 'x kmem_state \<Rightarrow> (virtaddr_t \<times> 'x kmem_state) option" where
  "common_kmem_cache_alloc run cache s = do {
     c_assert (cache \<noteq> 0);
     c_assert (kc_cpu (km_cache s cache) \<noteq> 0);
     (sl, s1) \<leftarrow> cache_get_slab cache s;
     case sl of
       None \<Rightarrow> Some (0, s1)
     | Some p \<Rightarrow> do {
         let obj = freelist (km_slab s1 p) (first_free (km_slab s1 p));
         c_assert (obj \<noteq> 0);
         let s2 = upd_slab p (first_free_update Suc) s1;
         s3 \<leftarrow> (if freelist (km_slab s2 p) (first_free (km_slab s2 p)) = 0
                then do {
                  q \<leftarrow> SLIST_REMOVE_HEAD (Slabs_partial cache) (km_links s2);
                  Some (s2\<lparr>km_links := SLIST_INSERT_HEAD (Slabs_full cache) p q\<rparr>)
                }
                else Some s2);
         (_, vm4) \<leftarrow> memset vm_st obj 0 (objsize (km_cache s3 cache)) (km_vm s3);
         let s4 = s3\<lparr>km_vm := vm4\<rparr>;
         s5 \<leftarrow> (case kc_ctor (km_cache s4 cache) of None \<Rightarrow> Some s4 | Some f \<Rightarrow> run f obj s4);
         Some (obj, upd_cache cache (used_update (\<lambda>u. u + 1)) s5)
       }
   }"

text \<open>The object goes to the first slab that has objects in use, which need not be the slab it
  came from.  Below \<^verbatim>\<open>freelist[0]\<close> is the header of the slab: a decrement from there has no
  result.\<close>

definition common_kmem_cache_free ::
  "'x kmem_run \<Rightarrow> cache_ptr \<Rightarrow> virtaddr_t \<Rightarrow> 'x kmem_state \<Rightarrow> 'x kmem_state option" where
  "common_kmem_cache_free run cache obj s = do {
     c_assert (cache \<noteq> 0);
     c_assert (obj \<noteq> 0);
     (p, s1) \<leftarrow>
       (if \<not> SLIST_EMPTY (Slabs_partial cache) (km_links s) then do {
          p \<leftarrow> SLIST_FIRST (Slabs_partial cache) (km_links s);
          Some (p, s)
        }
        else if \<not> SLIST_EMPTY (Slabs_full cache) (km_links s) then do {
          p \<leftarrow> SLIST_FIRST (Slabs_full cache) (km_links s);
          q \<leftarrow> SLIST_REMOVE_HEAD (Slabs_full cache) (km_links s);
          Some (p, s\<lparr>km_links := SLIST_INSERT_HEAD (Slabs_partial cache) p q\<rparr>)
        }
        else do { c_assert False; None });
     s2 \<leftarrow> (case kc_dtor (km_cache s1 cache) of None \<Rightarrow> Some s1 | Some f \<Rightarrow> run f obj s1);
     c_assert (first_free (km_slab s2 p) \<noteq> 0);
     let s3 = upd_slab p (first_free_update (\<lambda>i. i - 1)) s2;
     let s4 = upd_slab p (\<lambda>b. b\<lparr>freelist := (freelist b)(first_free b := obj)\<rparr>) s3;
     let s5 = upd_cache cache (used_update (\<lambda>u. u - 1)) s4;
     if first_free (km_slab s5 p) = 0
     then do {
       q \<leftarrow> SLIST_REMOVE_HEAD (Slabs_partial cache) (km_links s5);
       Some (s5\<lparr>km_links := SLIST_INSERT_HEAD (Slabs_empty cache) p q\<rparr>)
     }
     else Some s5
   }"

definition common_kmem_cache_reap :: "cache_ptr \<Rightarrow> 'x kmem_state \<Rightarrow> 'x kmem_state" where
  "common_kmem_cache_reap cache s = s"

text \<open>\<^verbatim>\<open>strlcpy\<close> keeps what fits in the name with its terminating zero.\<close>

definition common_kmem_cache_init ::
  "cache_ptr \<Rightarrow> u32 \<Rightarrow> string \<Rightarrow> c_size_t \<Rightarrow> kmem_cache_fn option \<Rightarrow> kmem_cache_fn option \<Rightarrow>
   'x kmem_state \<Rightarrow> kmem_error_t \<times> 'x kmem_state" where
  "common_kmem_cache_init k c name sz ctor dtor s =
     (let s1 = upd_cache k (\<lambda>b. b\<lparr>kc_ctor := ctor, kc_dtor := dtor,
                 kc_name := take (MAX_SLAB_NAME_LEN - 1) name\<rparr>) s
      in if sz < MIN_CACHE_SIZE then (KMEM_ERR_INVALID, s1)
         else let s2 = upd_cache k (\<lambda>b. b\<lparr>objsize := sz, used := 0, kc_cpu := c\<rparr>) s1;
                  q = SLIST_INIT (Slabs_partial k) (SLIST_INIT (Slabs_full k)
                        (SLIST_INIT (Slabs_empty k) (km_links s2)))
              in (KMEM_SUCCESS, s2\<lparr>km_links := q\<rparr>))"

definition i686_kmem_init :: "'x kmem_state \<Rightarrow> 'x kmem_state" where
  "i686_kmem_init s = s\<lparr>next_free_cache := 0\<rparr>"

text \<open>\<^verbatim>\<open>&caches[next_free_cache++]\<close>, without a bound.\<close>

definition i686_kmem_cache_alloc :: "'x kmem_state \<Rightarrow> cache_ptr \<times> 'x kmem_state" where
  "i686_kmem_cache_alloc s =
     (sym_caches s + next_free_cache s * sizeof_kmem_cache,
      s\<lparr>next_free_cache := next_free_cache s + 1\<rparr>)"

text \<open>The interface of \<^verbatim>\<open>slab.h\<close>; both vtables have one implementation.\<close>

definition kmem_cache_alloc ::
  "'x kmem_run \<Rightarrow> cache_ptr \<Rightarrow> 'x kmem_state \<Rightarrow> (virtaddr_t \<times> 'x kmem_state) option" where
  "kmem_cache_alloc = common_kmem_cache_alloc"

definition kmem_cache_free ::
  "'x kmem_run \<Rightarrow> cache_ptr \<Rightarrow> virtaddr_t \<Rightarrow> 'x kmem_state \<Rightarrow> 'x kmem_state option" where
  "kmem_cache_free = common_kmem_cache_free"

definition kmem_cache_reap :: "cache_ptr \<Rightarrow> 'x kmem_state \<Rightarrow> 'x kmem_state" where
  "kmem_cache_reap = common_kmem_cache_reap"

definition kmem_init :: "'x kmem_state \<Rightarrow> 'x kmem_state" where
  "kmem_init = i686_kmem_init"

definition kmem_alloc :: "'x kmem_state \<Rightarrow> cache_ptr \<times> 'x kmem_state" where
  "kmem_alloc = i686_kmem_cache_alloc"

definition kmem_cache_init ::
  "cache_ptr \<Rightarrow> u32 \<Rightarrow> string \<Rightarrow> c_size_t \<Rightarrow> kmem_cache_fn option \<Rightarrow> kmem_cache_fn option \<Rightarrow>
   'x kmem_state \<Rightarrow> kmem_error_t \<times> 'x kmem_state" where
  "kmem_cache_init = common_kmem_cache_init"


lemmas kmem_dispatch [simp] =
  kmem_cache_alloc_def kmem_cache_free_def kmem_cache_reap_def kmem_init_def kmem_alloc_def
  kmem_cache_init_def

section \<open>Layout of a slab\<close>

definition slab_elems :: "nat \<Rightarrow> nat" where
  "slab_elems osize = 4076 div (osize + 4)"

text \<open>The object that is \<open>j\<close>th from the end of kernel page \<open>k\<close>.\<close>

definition slot :: "u32 \<Rightarrow> nat \<Rightarrow> nat \<Rightarrow> virtaddr_t" where
  "slot osize k j = kaddr k + of_nat (4096 - j * unat osize)"

lemma slab_elems_pos: "osize \<le> 4072 \<Longrightarrow> 0 < slab_elems osize"
  by (simp add: slab_elems_def div_greater_zero_iff)

lemma slab_layout_bound:
  assumes "0 < osize"
  shows "16 + 4 * (slab_elems osize + 1) + osize * slab_elems osize \<le> 4096"
proof -
  have "slab_elems osize * (osize + 4) \<le> 4076" unfolding slab_elems_def by (rule div_times_less_eq_dividend)
  then show ?thesis by (simp add: algebra_simps)
qed

lemma slot_offset_bound:
  assumes "0 < osize" "j \<le> slab_elems osize" "1 \<le> j"
  shows "4096 - j * osize + osize \<le> 4096" and "j * osize < 4096"
proof -
  have "osize * slab_elems osize \<le> 4076" using slab_layout_bound[OF assms(1)] by simp
  then have "j * osize \<le> 4076" using assms(2) by (metis le_trans mult.commute mult_le_mono1)
  moreover have "osize \<le> j * osize" using assms(3) by simp
  ultimately show "4096 - j * osize + osize \<le> 4096" "j * osize < 4096" by linarith+
qed

lemma n_elements_value:
  assumes "unat osize \<le> 4072"
  shows "unat ((1 * 4096 - sizeof_kmem_slab - sizeof_ptr) div (osize + sizeof_ptr)) = slab_elems (unat osize)"
proof -
  have "unat (osize + 4) = unat osize + 4" using assms by (simp add: unat_word_ariths(1))
  then show ?thesis
    by (simp add: sizeof_kmem_slab_def sizeof_ptr_def slab_elems_def unat_div_distrib)
qed

lemma fill_freelist_nth:
  "fill_freelist n i cur osize fl j =
     (if i \<le> j \<and> j < i + n then cur + of_nat (j - i) * osize else if j = i + n then 0 else fl j)"
proof (induction n arbitrary: i cur fl)
  case 0
  then show ?case by auto
next
  case (Suc n)
  show ?case
  proof (cases "Suc i \<le> j")
    case True
    then have "of_nat (j - i) = (1 :: u32) + of_nat (j - Suc i)" by (metis Suc_diff_Suc Suc_le_lessD of_nat_Suc)
    then have "cur + of_nat (j - i) * osize = cur + osize + of_nat (j - Suc i) * osize"
      by (simp only: distrib_right mult_1 add.assoc)
    with True show ?thesis unfolding fill_freelist.simps Suc.IH by (simp only: if_True) auto
  next
    case False
    then show ?thesis unfolding fill_freelist.simps Suc.IH by auto
  qed
qed

text \<open>A fresh slab: the header and the free list of the objects of its page, then a null.\<close>

definition new_slab :: "u32 \<Rightarrow> nat \<Rightarrow> kmem_slab \<Rightarrow> bool" where
  "new_slab osize k b \<longleftrightarrow>
     unat (num_total b) = slab_elems (unat osize) \<and> first_free b = 0 \<and>
     freelist b (slab_elems (unat osize)) = 0 \<and>
     (\<forall>i < slab_elems (unat osize). freelist b i = slot osize k (slab_elems (unat osize) - i))"

lemma kmem_initialize_slab_ok:
  assumes "cache \<noteq> 0" and "kc_cpu (km_cache s cache) \<noteq> 0" and "objsize (km_cache s cache) = osize"
    and "osize \<noteq> 0" and "unat osize \<le> 4072" and "local_page_size (km_vm s) = Some 4096"
    and "n_pages (km_slab s (kaddr k)) = 1" and "k < 262144"
  shows "\<exists>b. kmem_initialize_slab cache (kaddr k) s = Some (s\<lparr>km_slab := (km_slab s)(kaddr k := b)\<rparr>) \<and>
    new_slab osize k b"
proof -
  let ?n = "(1 * 4096 - sizeof_kmem_slab - sizeof_ptr) div (osize + sizeof_ptr)"
  let ?N = "slab_elems (unat osize)"
  have n: "unat ?n = ?N" by (rule n_elements_value[OF assms(5)])
  have pos: "0 < ?N" by (rule slab_elems_pos[OF assms(5)])
  have "?N \<le> 4076" by (simp add: slab_elems_def)
  then have "sint ?n = int (unat ?n)" using n by (intro sint_small) simp
  then have si: "sint ?n > 0" using pos n by (simp only: of_nat_0_less_iff)
  have "unat (kaddr k) \<noteq> 0" using unat_kaddr[OF assms(8), of 0] by simp
  then have nz: "kaddr k \<noteq> 0" by (metis unsigned_0)
  let ?base = "kaddr k + 1 * 4096 - osize * ?n"
  let ?b = "(km_slab s (kaddr k))\<lparr>num_total := ?n,
    freelist := fill_freelist ?N 0 ?base osize (freelist (km_slab s (kaddr k))), first_free := 0\<rparr>"
  have init: "kmem_initialize_slab cache (kaddr k) s = Some (s\<lparr>km_slab := (km_slab s)(kaddr k := ?b)\<rparr>)"
    using assms nz si n by (simp add: kmem_initialize_slab_def Let_def upd_slab_def)
  have "?base + of_nat i * osize = slot osize k (?N - i)" if "i < ?N" for i
  proof -
    have "(?N - i) * unat osize < 4096"
      using slot_offset_bound(2)[of "unat osize" "?N - i"] assms(4) that by (simp add: unat_gt_0)
    then have "of_nat (4096 - (?N - i) * unat osize) = (4096 :: u32) - of_nat (?N - i) * osize"
      by (simp add: of_nat_diff)
    moreover have "?n = of_nat ?N" by (simp add: n[symmetric])
    ultimately show ?thesis using that by (simp add: slot_def of_nat_diff algebra_simps)
  qed
  then have "new_slab osize k ?b" using n by (simp add: new_slab_def fill_freelist_nth)
  with init show ?thesis by blast
qed

section \<open>The cache invariant\<close>

text \<open>
  The page allocator behind \<^verbatim>\<open>cpu()->localmem\<close> is the kernel's or a feeder on it, in a state
  that satisfies its invariant.
\<close>

definition pm_ready :: "vm_state \<Rightarrow> bool" where
  "pm_ready vm \<longleftrightarrow>
     (\<exists>k start A U. source_rep k (localmem vm) start (vm_pm vm) A U) \<or>
     (\<exists>k src start keep minf A U. feeder_set_rep k src (localmem vm) start keep minf (vm_pm vm) A U)"

lemma pm_ready_page_size: "pm_ready vm \<Longrightarrow> local_page_size vm = Some 4096"
  by (auto simp: pm_ready_def source_rep_def feeder_set_rep_def feeder_rep_def local_page_size_def
      i686_conf_page_size feeder_conf_page_size)

lemma pm_ready_alloc:
  assumes "pm_ready vm"
  obtains (ok) a pm where "local_page_alloc vm = Some ((PHYSMEM_SUCCESS, Some a), vm\<lparr>vm_pm := pm\<rparr>)"
      "pm_ready (vm\<lparr>vm_pm := pm\<rparr>)"
    | (oom) "local_page_alloc vm = Some ((PHYSMEM_ERR_OOM, None), vm)"
proof -
  from assms consider (src) k start A U where "source_rep k (localmem vm) start (vm_pm vm) A U"
    | (fd) k src start keep minf A U where
        "feeder_set_rep k src (localmem vm) start keep minf (vm_pm vm) A U"
    by (auto simp: pm_ready_def)
  then show thesis
  proof cases
    case src
    show thesis
    proof (cases "source_avail (localmem vm) (vm_pm vm) = 0")
      case True
      then show thesis using oom source.alloc_oom[OF src True, of 0] by (simp add: local_page_alloc_def)
    next
      case False
      then obtain a pm where a: "physmem_page_alloc (localmem vm) 0 (vm_pm vm) = Some ((PHYSMEM_SUCCESS, Some a), pm)"
        "source_rep k (localmem vm) start pm (A - {a}) (U - {a})"
        using source.alloc_ok[OF src, of 0] by auto
      show thesis
        by (rule ok[of a pm]) (use a in \<open>auto simp: local_page_alloc_def pm_ready_def\<close>)
    qed
  next
    case fd
    show thesis
    proof (cases "feeder_avail src (localmem vm) (vm_pm vm) = 0")
      case True
      then show thesis using oom feeder.alloc_oom[OF fd True, of 0] by (simp add: local_page_alloc_def)
    next
      case False
      then obtain a pm where a: "physmem_page_alloc (localmem vm) 0 (vm_pm vm) = Some ((PHYSMEM_SUCCESS, Some a), pm)"
        "feeder_set_rep k src (localmem vm) start keep minf pm (A - {a}) (U - {a})"
        using feeder.alloc_ok[OF fd, of 0] by auto
      show thesis
        by (rule ok[of a pm]) (use a in \<open>auto simp: local_page_alloc_def pm_ready_def\<close>)
    qed
  qed
qed

text \<open>The free objects of a slab, the slabs of a cache, and objects in kernel pages that are in
  use.\<close>

definition slab_objs :: "kmem_slab \<Rightarrow> virtaddr_t list" where
  "slab_objs b = map (freelist b) [first_free b..<unat (num_total b)]"

definition cache_slabs :: "cache_ptr \<Rightarrow> (slab_head \<Rightarrow> slab_ptr list) \<Rightarrow> slab_ptr set" where
  "cache_slabs c H = set (H (Slabs_full c)) \<union> set (H (Slabs_partial c)) \<union> set (H (Slabs_empty c))"

definition in_page :: "vm_state \<Rightarrow> nat \<Rightarrow> bool" where
  "in_page vm k \<longleftrightarrow> k < 262144 \<and> pt_present (kernel_flatpt vm k)"

definition obj_ok :: "u32 \<Rightarrow> vm_state \<Rightarrow> virtaddr_t \<Rightarrow> bool" where
  "obj_ok osize vm ob \<longleftrightarrow>
     (\<exists>k j. in_page vm k \<and> 1 \<le> j \<and> j \<le> slab_elems (unat osize) \<and> ob = slot osize k j)"

definition cache_conf :: "cache_ptr \<Rightarrow> 'x kmem_state \<Rightarrow> bool" where
  "cache_conf c s \<longleftrightarrow>
     c \<noteq> 0 \<and> kc_cpu (km_cache s c) \<noteq> 0 \<and> objsize (km_cache s c) \<noteq> 0 \<and>
     unat (objsize (km_cache s c)) \<le> 4072 \<and> pm_ready (km_vm s)"

text \<open>Full slabs have no free object, empty slabs none in use, partial slabs both; \<open>z\<close> is a
  slab on the partial list that is about to be used and need not have both.\<close>

definition cache_lists ::
  "slab_ptr option \<Rightarrow> cache_ptr \<Rightarrow> 'x kmem_state \<Rightarrow> (slab_head \<Rightarrow> slab_ptr list) \<Rightarrow> bool" where
  "cache_lists z c s H \<longleftrightarrow>
     (\<forall>p\<in>set (H (Slabs_full c)). first_free (km_slab s p) = unat (num_total (km_slab s p))) \<and>
     (\<forall>p\<in>set (H (Slabs_partial c)). z \<noteq> Some p \<longrightarrow>
        0 < first_free (km_slab s p) \<and> first_free (km_slab s p) < unat (num_total (km_slab s p))) \<and>
     (\<forall>p\<in>set (H (Slabs_empty c)). first_free (km_slab s p) = 0) \<and>
     (\<forall>p\<in>cache_slabs c H. 0 < unat (num_total (km_slab s p)) \<and>
        first_free (km_slab s p) \<le> unat (num_total (km_slab s p)) \<and>
        freelist (km_slab s p) (unat (num_total (km_slab s p))) = 0)"

definition cache_stock ::
  "cache_ptr \<Rightarrow> 'x kmem_state \<Rightarrow> (slab_head \<Rightarrow> slab_ptr list) \<Rightarrow> virtaddr_t set \<Rightarrow> virtaddr_t set \<Rightarrow> bool" where
  "cache_stock c s H F I \<longleftrightarrow>
     finite F \<and> finite I \<and> F \<inter> I = {} \<and>
     (\<Sum>p\<in>cache_slabs c H. mset (slab_objs (km_slab s p))) = mset_set F \<and>
     (\<Sum>p\<in>cache_slabs c H. first_free (km_slab s p)) = card I \<and>
     used (km_cache s c) = of_nat (card I) \<and>
     (\<forall>ob\<in>F \<union> I. obj_ok (objsize (km_cache s c)) (km_vm s) ob)"

definition cache_rep ::
  "slab_ptr option \<Rightarrow> cache_ptr \<Rightarrow> 'x kmem_state \<Rightarrow> (slab_head \<Rightarrow> slab_ptr list) \<Rightarrow>
   virtaddr_t set \<Rightarrow> virtaddr_t set \<Rightarrow> bool" where
  "cache_rep z c s H F I \<longleftrightarrow>
     slinked (km_links s) H \<and> cache_conf c s \<and> cache_lists z c s H \<and> cache_stock c s H F I \<and>
     (\<forall>p\<in>members H. \<exists>k. p = kaddr k \<and> in_page (km_vm s) k)"

lemma slot_parts:
  assumes "k < 262144" "1 \<le> j" "j \<le> slab_elems (unat osize)" "osize \<noteq> 0" "i < unat osize"
  shows "slot osize k j + of_nat i = kaddr k + of_nat (4096 - j * unat osize + i)"
    and "(of_nat (4096 - j * unat osize + i) :: u32) < 4096"
    and "unat (slot osize k j) = 0xC0000000 + k * 4096 + (4096 - j * unat osize)"
proof -
  have pos: "0 < unat osize" using assms(4) by (simp add: unat_gt_0)
  note b = slot_offset_bound[OF pos assms(3,2)]
  show "slot osize k j + of_nat i = kaddr k + of_nat (4096 - j * unat osize + i)"
    by (simp add: slot_def algebra_simps)
  have lt: "4096 - j * unat osize + i < 4096" using b(1) assms(5) by linarith
  then show "(of_nat (4096 - j * unat osize + i) :: u32) < 4096"
    by (simp add: word_less_nat_alt unat_of_nat del: of_nat_add)
  have "4096 - j * unat osize < 4096" using lt by simp
  then have "(of_nat (4096 - j * unat osize) :: u32) < 4096"
    "unat (of_nat (4096 - j * unat osize) :: u32) = 4096 - j * unat osize"
    by (simp_all add: word_less_nat_alt unat_of_nat)
  then show "unat (slot osize k j) = 0xC0000000 + k * 4096 + (4096 - j * unat osize)"
    unfolding slot_def using unat_kaddr[OF assms(1)] by simp
qed

lemma slot_nonzero:
  assumes "obj_ok osize vm ob" "osize \<noteq> 0"
  shows "ob \<noteq> 0"
proof -
  obtain k j where "k < 262144" "1 \<le> j" "j \<le> slab_elems (unat osize)" "ob = slot osize k j"
    using assms(1) by (auto simp: obj_ok_def in_page_def)
  then have "unat ob \<noteq> 0" using slot_parts(3)[of k j osize 0] assms(2) by (simp add: unat_gt_0)
  then show ?thesis by auto
qed

lemma obj_mapped:
  assumes "obj_ok osize vm ob" "osize \<noteq> 0" "i < unat osize"
  shows "kvirt_loc vm (ob + of_nat i) \<noteq> None"
proof -
  obtain k j where k: "in_page vm k" "1 \<le> j" "j \<le> slab_elems (unat osize)" "ob = slot osize k j"
    using assms(1) by (auto simp: obj_ok_def)
  then have lt: "k < 262144" by (simp add: in_page_def)
  note sp = slot_parts(1,2)[OF lt k(2,3) assms(2,3)]
  have "kvirt_loc vm (ob + of_nat i) = kvirt_loc vm (kaddr k + of_nat (4096 - j * unat osize + i))"
    by (simp only: k(4) sp(1))
  also have "\<dots> \<noteq> None" unfolding kvirt_loc_kaddr[OF lt sp(2)] using k(1) by (simp add: in_page_def)
  finally show ?thesis .
qed

lemma memset_obj:
  assumes "obj_ok osize vm ob" "osize \<noteq> 0"
  obtains m where "memset vm_st ob 0 osize vm = Some (ob, vm\<lparr>pmem := m\<rparr>)"
    "\<And>i. i < unat osize \<Longrightarrow> vm_ld (ob + of_nat i) (vm\<lparr>pmem := m\<rparr>) = Some 0"
proof -
  obtain vm' where vm': "memset_loop vm_st (unat osize) ob 0 vm = Some vm'" "kvirt_loc vm' = kvirt_loc vm"
    "vm'\<lparr>pmem := \<lambda>_. 0\<rparr> = vm\<lparr>pmem := \<lambda>_. 0\<rparr>"
    "pmem vm' = (\<lambda>l. if \<exists>i<unat osize. kvirt_loc vm (ob + of_nat i) = Some l then 0 else pmem vm l)"
    using kvm.memset_loop_ok[of "unat osize" vm ob 0] obj_mapped[OF assms] by blast
  note eq = pmem_eqI[OF vm'(3)]
  have "memset vm_st ob 0 osize vm = Some (ob, vm\<lparr>pmem := pmem vm'\<rparr>)" using vm'(1) eq by (simp add: memset_def)
  moreover have "vm_ld (ob + of_nat i) (vm\<lparr>pmem := pmem vm'\<rparr>) = Some 0" if i: "i < unat osize" for i
  proof -
    obtain l where l: "kvirt_loc vm (ob + of_nat i) = Some l" using obj_mapped[OF assms i] by blast
    then have "pmem vm' l = 0" using vm'(4) i by auto
    then have "vm_ld (ob + of_nat i) vm' = Some 0" using l vm'(2) by (simp add: kvm.ld)
    then show ?thesis using eq by simp
  qed
  ultimately show thesis by (rule that)
qed

lemma object_slot_inject:
  assumes "k < 262144" "1 \<le> j" "j \<le> slab_elems (unat osize)"
    and "k' < 262144" "1 \<le> j'" "j' \<le> slab_elems (unat osize)" and "osize \<noteq> 0"
    and "slot osize k j = slot osize k' j'"
  shows "k = k' \<and> j = j'"
proof -
  have pos: "0 < unat osize" using assms(7) by (simp add: unat_gt_0)
  have b: "j * unat osize < 4096" "j' * unat osize < 4096" "0 < j * unat osize" "0 < j' * unat osize"
    using slot_offset_bound(2)[OF pos assms(3,2)] slot_offset_bound(2)[OF pos assms(6,5)] assms(2,5) pos by simp_all
  let ?x = "4096 - j * unat osize" and ?y = "4096 - j' * unat osize"
  have "k * 4096 + ?x = k' * 4096 + ?y"
    using slot_parts(3)[OF assms(1-3,7), of 0] slot_parts(3)[OF assms(4-6,7), of 0] assms(8) pos by simp
  moreover have "?x < 4096" "?y < 4096" using b by simp_all
  ultimately have "k = k'" "?x = ?y" using page_parts[of ?x k] page_parts[of ?y k'] by metis+
  then have "k = k'" "j * unat osize = j' * unat osize" using b by linarith+
  then show ?thesis using pos by simp
qed

lemma sum_fun_upd:
  fixes h :: "'b \<Rightarrow> 'c :: comm_monoid_add"
  assumes "finite P" "p \<in> P"
  shows "(\<Sum>q\<in>P. h ((g(p := v)) q)) = h v + (\<Sum>q\<in>P - {p}. h (g q))"
proof -
  have "(\<Sum>q\<in>P - {p}. h ((g(p := v)) q)) = (\<Sum>q\<in>P - {p}. h (g q))" by (rule sum.cong) auto
  then show ?thesis using sum.remove[OF assms, of "\<lambda>q. h ((g(p := v)) q)"] by simp
qed

lemma finite_cache_slabs [simp]: "finite (cache_slabs c H)"
  by (simp add: cache_slabs_def)

lemma slab_objs_take:
  assumes "first_free b < unat (num_total b)"
  shows "slab_objs b = freelist b (first_free b) # slab_objs (first_free_update Suc b)"
  using assms by (simp add: slab_objs_def upt_conv_Cons)

lemma slab_objs_put:
  assumes "0 < first_free b" "first_free b \<le> unat (num_total b)"
  shows "slab_objs (b\<lparr>first_free := first_free b - 1, freelist := (freelist b)(first_free b - 1 := ob)\<rparr>) =
    ob # slab_objs b"
proof -
  obtain n where n: "first_free b = Suc n" using assms(1) by (cases "first_free b") auto
  have "map ((freelist b)(n := ob)) [Suc n..<unat (num_total b)] = map (freelist b) [Suc n..<unat (num_total b)]"
    by (rule map_cong) auto
  then show ?thesis using assms(2) n by (simp add: slab_objs_def upt_conv_Cons)
qed

lemma stock_take:
  assumes st: "cache_stock c s H F I" and p: "p \<in> cache_slabs c H"
    and ff: "first_free (km_slab s p) < unat (num_total (km_slab s p))"
    and ob: "ob = freelist (km_slab s p) (first_free (km_slab s p))"
    and s': "km_slab s' = (km_slab s)(p := first_free_update Suc (km_slab s p))"
      "objsize (km_cache s' c) = objsize (km_cache s c)" "used (km_cache s' c) = used (km_cache s c) + 1"
      "kernel_flatpt (km_vm s') = kernel_flatpt (km_vm s)"
    and H': "cache_slabs c H' = cache_slabs c H"
  shows "ob \<in> F" and "cache_stock c s' H' (F - {ob}) (insert ob I)"
proof -
  let ?P = "cache_slabs c H" and ?b = "first_free_update Suc (km_slab s p)"
  have fin: "finite F" "finite I" "F \<inter> I = {}" using st by (auto simp: cache_stock_def)
  have "mset_set F = mset (slab_objs (km_slab s p)) + (\<Sum>q\<in>?P - {p}. mset (slab_objs (km_slab s q)))"
    using st sum.remove[OF finite_cache_slabs p, of "\<lambda>q. mset (slab_objs (km_slab s q))"]
    by (simp add: cache_stock_def)
  then have F: "mset_set F = add_mset ob (\<Sum>q\<in>?P. mset (slab_objs (km_slab s' q)))"
    unfolding s'(1) sum_fun_upd[OF finite_cache_slabs p, of "\<lambda>b. mset (slab_objs b)"]
    by (simp add: slab_objs_take[OF ff] ob)
  then have "ob \<in># mset_set F" by simp
  then show obF: "ob \<in> F" using fin(1) by simp
  have "(\<Sum>q\<in>?P. mset (slab_objs (km_slab s' q))) = mset_set (F - {ob})"
    using F mset_set.remove[OF fin(1) obF] by simp
  moreover have "(\<Sum>q\<in>?P. first_free (km_slab s' q)) = Suc (\<Sum>q\<in>?P. first_free (km_slab s q))"
    unfolding s'(1) sum_fun_upd[OF finite_cache_slabs p, of first_free]
    using sum.remove[OF finite_cache_slabs p, of "\<lambda>q. first_free (km_slab s q)"] by simp
  moreover have "ob \<notin> I" using obF fin(3) by auto
  ultimately show "cache_stock c s' H' (F - {ob}) (insert ob I)"
    using st obF fin s' H' by (auto simp: cache_stock_def obj_ok_def in_page_def)
qed

lemma stock_put:
  assumes st: "cache_stock c s H F I" and p: "p \<in> cache_slabs c H" and ob: "ob \<in> I"
    and ff: "0 < first_free (km_slab s p)" "first_free (km_slab s p) \<le> unat (num_total (km_slab s p))"
    and s': "km_slab s' = (km_slab s)(p := (km_slab s p)\<lparr>first_free := first_free (km_slab s p) - 1,
        freelist := (freelist (km_slab s p))(first_free (km_slab s p) - 1 := ob)\<rparr>)"
      "objsize (km_cache s' c) = objsize (km_cache s c)" "used (km_cache s' c) = used (km_cache s c) - 1"
      "kernel_flatpt (km_vm s') = kernel_flatpt (km_vm s)"
    and H': "cache_slabs c H' = cache_slabs c H"
  shows "cache_stock c s' H' (insert ob F) (I - {ob})"
proof -
  let ?P = "cache_slabs c H"
  have fin: "finite F" "finite I" "F \<inter> I = {}" using st by (auto simp: cache_stock_def)
  then have obF: "ob \<notin> F" using ob by auto
  have "(\<Sum>q\<in>?P. mset (slab_objs (km_slab s' q))) = add_mset ob (\<Sum>q\<in>?P. mset (slab_objs (km_slab s q)))"
    unfolding s'(1) sum_fun_upd[OF finite_cache_slabs p, of "\<lambda>b. mset (slab_objs b)"]
    using sum.remove[OF finite_cache_slabs p, of "\<lambda>q. mset (slab_objs (km_slab s q))"]
    by (simp add: slab_objs_put[OF ff, simplified])
  moreover have "Suc (\<Sum>q\<in>?P. first_free (km_slab s' q)) = (\<Sum>q\<in>?P. first_free (km_slab s q))"
    unfolding s'(1) sum_fun_upd[OF finite_cache_slabs p, of first_free]
    using sum.remove[OF finite_cache_slabs p, of "\<lambda>q. first_free (km_slab s q)"] ff(1) by simp
  moreover obtain n where n: "card I = Suc n" using ob fin(2) by (metis card_Suc_Diff1)
  moreover have "card (I - {ob}) = n" using n ob fin(2) by simp
  ultimately show ?thesis
    using st ob obF fin s' H' by (auto simp: cache_stock_def obj_ok_def in_page_def)
qed

text \<open>Moving a slab between the lists of its cache.\<close>

lemma cache_slabs_move:
  assumes "H h = p # xs" "h \<noteq> h'"
    and "h \<in> {Slabs_full c, Slabs_partial c, Slabs_empty c}" "h' \<in> {Slabs_full c, Slabs_partial c, Slabs_empty c}"
  shows "cache_slabs c (H(h := xs, h' := p # H h')) = cache_slabs c H"
    and "members (H(h := xs, h' := p # H h')) = members H"
proof -
  show "cache_slabs c (H(h := xs, h' := p # H h')) = cache_slabs c H"
    using assms by (auto simp: cache_slabs_def)
  show "members (H(h := xs, h' := p # H h')) = members H"
    using assms(1,2) members_push[of "H(h := xs)" h' p] members_pop[of H h p xs, OF assms(1)] by simp
qed

lemma cache_rep_slab_once:
  assumes "slinked q H" "H (Slabs_partial c) = p # xs"
  shows "p \<notin> set xs" "p \<notin> set (H (Slabs_full c))" "p \<notin> set (H (Slabs_empty c))" "p \<in> cache_slabs c H"
  using sl.rep_distinct[OF assms(1), of "Slabs_partial c"] sl.rep_disjoint[OF assms(1), of p "Slabs_partial c"] assms(2)
  by (auto simp: cache_slabs_def)


lemma cache_repD:
  assumes "cache_rep z c s H F I"
  shows "slinked (km_links s) H" "cache_conf c s" "cache_lists z c s H" "cache_stock c s H F I"
    "\<And>p. p \<in> members H \<Longrightarrow> \<exists>k. p = kaddr k \<and> in_page (km_vm s) k"
  using assms by (auto simp: cache_rep_def)

lemma pm_ready_cong:
  "vm_pm vm' = vm_pm vm \<Longrightarrow> localmem vm' = localmem vm \<Longrightarrow> pm_ready vm' = pm_ready vm"
  by (simp add: pm_ready_def)

lemma next_free_zero:
  assumes "cache_lists z c s H" "cache_stock c s H F I" "p \<in> cache_slabs c H"
    and "first_free (km_slab s p) < unat (num_total (km_slab s p))" and "objsize (km_cache s c) \<noteq> 0"
  shows "freelist (km_slab s p) (Suc (first_free (km_slab s p))) = 0 \<longleftrightarrow>
    Suc (first_free (km_slab s p)) = unat (num_total (km_slab s p))"
proof
  assume "Suc (first_free (km_slab s p)) = unat (num_total (km_slab s p))"
  then show "freelist (km_slab s p) (Suc (first_free (km_slab s p))) = 0"
    using assms(1,3) by (simp add: cache_lists_def)
next
  assume z: "freelist (km_slab s p) (Suc (first_free (km_slab s p))) = 0"
  show "Suc (first_free (km_slab s p)) = unat (num_total (km_slab s p))"
  proof (rule ccontr)
    assume "Suc (first_free (km_slab s p)) \<noteq> unat (num_total (km_slab s p))"
    then have "0 \<in> set (slab_objs (km_slab s p))" using z assms(4) by (force simp: slab_objs_def)
    then have "0 \<in># (\<Sum>q\<in>cache_slabs c H. mset (slab_objs (km_slab s q)))"
      using sum.remove[OF finite_cache_slabs assms(3), of "\<lambda>q. mset (slab_objs (km_slab s q))"] by simp
    then have "0 \<in> F" using assms(2) by (simp add: cache_stock_def)
    then have "obj_ok (objsize (km_cache s c)) (km_vm s) 0" using assms(2) by (simp add: cache_stock_def)
    then show False using slot_nonzero[OF _ assms(5)] by blast
  qed
qed

text \<open>Taking the first free object of the first partial slab.\<close>

lemma take_object:
  fixes s :: "'x kmem_state"
  assumes rep: "cache_rep z c s H F I" and part: "H (Slabs_partial c) = p # xs" and z: "z = None \<or> z = Some p"
    and ff: "first_free (km_slab s p) < unat (num_total (km_slab s p))"
  defines "ob \<equiv> freelist (km_slab s p) (first_free (km_slab s p))"
  obtains L H' where
    "ob \<in> F"
    "(if freelist (km_slab s p) (Suc (first_free (km_slab s p))) = 0
      then do { q \<leftarrow> SLIST_REMOVE_HEAD (Slabs_partial c) (km_links s);
                Some (SLIST_INSERT_HEAD (Slabs_full c) p q) }
      else Some (km_links s)) = Some L"
    "\<And>s' :: 'x kmem_state. km_links s' = L \<Longrightarrow> km_slab s' = (km_slab s)(p := first_free_update Suc (km_slab s p)) \<Longrightarrow>
       km_cache s' c = used_update (\<lambda>u. u + 1) (km_cache s c) \<Longrightarrow>
       kernel_flatpt (km_vm s') = kernel_flatpt (km_vm s) \<Longrightarrow> vm_pm (km_vm s') = vm_pm (km_vm s) \<Longrightarrow>
       localmem (km_vm s') = localmem (km_vm s) \<Longrightarrow>
       cache_rep None c s' H' (F - {ob}) (insert ob I)"
proof -
  note d = cache_repD[OF rep] and once = cache_rep_slab_once[OF cache_repD(1)[OF rep] part]
  let ?b = "km_slab s p"
  have os: "objsize (km_cache s c) \<noteq> 0" using d(2) by (simp add: cache_conf_def)
  note nz = next_free_zero[OF d(3,4) once(4) ff os]
  have obF: "ob \<in> F" using stock_take(1)[OF d(4) once(4) ff ob_def[THEN meta_eq_to_obj_eq],
        of "s\<lparr>km_slab := (km_slab s)(p := first_free_update Suc ?b),
              km_cache := (km_cache s)(c := used_update (\<lambda>u. u + 1) (km_cache s c))\<rparr>" H] by simp
  have conf: "cache_conf c s'" if "km_cache s' c = used_update (\<lambda>u. u + 1) (km_cache s c)"
    "vm_pm (km_vm s') = vm_pm (km_vm s)" "localmem (km_vm s') = localmem (km_vm s)" for s' :: "'x kmem_state"
    using d(2) that pm_ready_cong[OF that(2,3)] by (simp add: cache_conf_def)
  show thesis
  proof (cases "Suc (first_free ?b) = unat (num_total ?b)")
    case True
    obtain q where q: "SLIST_REMOVE_HEAD (Slabs_partial c) (km_links s) = Some q"
      "slinked (SLIST_INSERT_HEAD (Slabs_full c) p q)
         (H(Slabs_partial c := xs, Slabs_full c := p # H (Slabs_full c)))" (is "slinked _ ?H")
      using sl.move_head[OF d(1) part, of "Slabs_full c"] by auto
    have same: "cache_slabs c ?H = cache_slabs c H" "members ?H = members H"
      using cache_slabs_move[of H "Slabs_partial c" p xs "Slabs_full c" c] part by simp_all
    show thesis
    proof (rule that[OF obF, of "SLIST_INSERT_HEAD (Slabs_full c) p q" ?H])
      show "(if freelist ?b (Suc (first_free ?b)) = 0
         then do { q \<leftarrow> SLIST_REMOVE_HEAD (Slabs_partial c) (km_links s); Some (SLIST_INSERT_HEAD (Slabs_full c) p q) }
         else Some (km_links s)) = Some (SLIST_INSERT_HEAD (Slabs_full c) p q)"
        using nz True q(1) by simp
    next
      fix s' :: "'x kmem_state"
      assume s': "km_links s' = SLIST_INSERT_HEAD (Slabs_full c) p q"
        "km_slab s' = (km_slab s)(p := first_free_update Suc ?b)"
        "km_cache s' c = used_update (\<lambda>u. u + 1) (km_cache s c)"
        "kernel_flatpt (km_vm s') = kernel_flatpt (km_vm s)" "vm_pm (km_vm s') = vm_pm (km_vm s)"
        "localmem (km_vm s') = localmem (km_vm s)"
      have "cache_stock c s' ?H (F - {ob}) (insert ob I)"
        by (rule stock_take(2)[OF d(4) once(4) ff ob_def[THEN meta_eq_to_obj_eq]]) (use s' same in simp_all)
      moreover have "cache_lists None c s' ?H"
        using d(3) part z True once s'(2) same(1) unfolding cache_lists_def by auto
      ultimately show "cache_rep None c s' ?H (F - {ob}) (insert ob I)"
        using q(2) s' conf d(5) same by (simp add: cache_rep_def in_page_def)
    qed
  next
    case False
    show thesis
    proof (rule that[OF obF, of "km_links s" H])
      show "(if freelist ?b (Suc (first_free ?b)) = 0
         then do { q \<leftarrow> SLIST_REMOVE_HEAD (Slabs_partial c) (km_links s); Some (SLIST_INSERT_HEAD (Slabs_full c) p q) }
         else Some (km_links s)) = Some (km_links s)"
        using nz False by simp
    next
      fix s' :: "'x kmem_state"
      assume s': "km_links s' = km_links s"
        "km_slab s' = (km_slab s)(p := first_free_update Suc ?b)"
        "km_cache s' c = used_update (\<lambda>u. u + 1) (km_cache s c)"
        "kernel_flatpt (km_vm s') = kernel_flatpt (km_vm s)" "vm_pm (km_vm s') = vm_pm (km_vm s)"
        "localmem (km_vm s') = localmem (km_vm s)"
      have "cache_stock c s' H (F - {ob}) (insert ob I)"
        by (rule stock_take(2)[OF d(4) once(4) ff ob_def[THEN meta_eq_to_obj_eq]]) (use s' in simp_all)
      moreover have "cache_lists None c s' H"
        using d(3) part z False ff once s'(2) unfolding cache_lists_def by auto
      ultimately show "cache_rep None c s' H (F - {ob}) (insert ob I)"
        using d(1,5) s' conf by (simp add: cache_rep_def in_page_def)
    qed
  qed
qed

text \<open>What a constructor or destructor may do: it leaves the cache alone and unmaps no kernel
  page.\<close>

definition callback_frame :: "'x kmem_state \<Rightarrow> 'x kmem_state \<Rightarrow> bool" where
  "callback_frame s s' \<longleftrightarrow>
     km_links s' = km_links s \<and> km_slab s' = km_slab s \<and> km_cache s' = km_cache s \<and> pm_ready (km_vm s') \<and>
     (\<forall>k. pt_present (kernel_flatpt (km_vm s) k) \<longrightarrow> pt_present (kernel_flatpt (km_vm s') k))"

lemma cache_rep_frame:
  assumes "cache_rep z c s H F I" "callback_frame s s'"
  shows "cache_rep z c s' H F I"
proof -
  have ip: "in_page (km_vm s) k \<Longrightarrow> in_page (km_vm s') k" for k
    using assms(2) by (simp add: in_page_def callback_frame_def)
  then have "obj_ok os (km_vm s) ob \<Longrightarrow> obj_ok os (km_vm s') ob" for os ob by (auto simp: obj_ok_def)
  then have "cache_stock c s' H F I"
    using cache_repD(4)[OF assms(1)] assms(2) by (simp add: cache_stock_def callback_frame_def)
  moreover have "cache_conf c s'"
    using cache_repD(2)[OF assms(1)] assms(2) by (simp add: cache_conf_def callback_frame_def)
  moreover have "cache_lists z c s' H"
    using cache_repD(3)[OF assms(1)] assms(2) by (simp add: cache_lists_def callback_frame_def)
  ultimately show ?thesis
    using cache_repD(1,5)[OF assms(1)] ip assms(2) by (auto simp: cache_rep_def callback_frame_def)
qed

lemma cache_rep_vm:
  assumes "cache_rep z c s H F I" "pm_ready vm"
    and "\<And>k. pt_present (kernel_flatpt (km_vm s) k) \<Longrightarrow> pt_present (kernel_flatpt vm k)"
  shows "cache_rep z c (s\<lparr>km_vm := vm\<rparr>) H F I"
  using assms(2,3) by (intro cache_rep_frame[OF assms(1)]) (simp add: callback_frame_def)

lemma new_slab_objs:
  assumes "new_slab osize k b" "k < 262144" "osize \<noteq> 0"
  shows "distinct (slab_objs b)"
    and "set (slab_objs b) = slot osize k ` {1..slab_elems (unat osize)}"
proof -
  let ?N = "slab_elems (unat osize)"
  have so: "slab_objs b = map (\<lambda>i. slot osize k (?N - i)) [0..<?N]"
    using assms(1) by (simp add: slab_objs_def new_slab_def)
  have "inj_on (\<lambda>i. slot osize k (?N - i)) {0..<?N}"
  proof (rule inj_onI)
    fix x y assume xy: "x \<in> {0..<?N}" "y \<in> {0..<?N}" "slot osize k (?N - x) = slot osize k (?N - y)"
    then have "?N - x = ?N - y"
      using object_slot_inject[of k "?N - x" osize k "?N - y"] assms(2,3) by auto
    then show "x = y" using xy by auto
  qed
  then show "distinct (slab_objs b)" by (simp add: so distinct_map)
  have "(\<lambda>i. ?N - i) ` {0..<?N} = {1..?N}"
  proof
    show "{1..?N} \<subseteq> (\<lambda>i. ?N - i) ` {0..<?N}"
    proof
      fix j assume "j \<in> {1..?N}"
      then have "j = ?N - (?N - j)" "?N - j \<in> {0..<?N}" by auto
      then show "j \<in> (\<lambda>i. ?N - i) ` {0..<?N}" by blast
    qed
  qed auto
  then show "set (slab_objs b) = slot osize k ` {1..?N}" by (simp add: so image_image[symmetric])
qed

lemma no_free_objects:
  assumes "cache_rep None c s H F I" "H (Slabs_partial c) = []" "H (Slabs_empty c) = []"
  shows "F = {}"
proof -
  have "slab_objs (km_slab s p) = []" if "p \<in> cache_slabs c H" for p
    using that assms(2,3) cache_repD(3)[OF assms(1)] by (simp add: cache_slabs_def cache_lists_def slab_objs_def)
  then have "(\<Sum>p\<in>cache_slabs c H. mset (slab_objs (km_slab s p))) = {#}" by simp
  then show ?thesis using cache_repD(4)[OF assms(1)] by (simp add: cache_stock_def mset_set_empty_iff)
qed

lemma sum_fresh:
  fixes h :: "'b \<Rightarrow> 'c :: comm_monoid_add"
  shows "k \<notin> P \<Longrightarrow> (\<Sum>p\<in>P. h (if p = k then b else g p)) = (\<Sum>p\<in>P. h (g p))"
  by (rule sum.cong) auto

text \<open>A slab from a fresh page enters the cache.\<close>

lemma add_slab:
  assumes rep: "cache_rep None c s H {} I" and k: "k < 262144" "kaddr k \<notin> members H"
    and nk: "\<not> pt_present (kernel_flatpt vm0 k)"
    and I: "\<forall>ob\<in>I. obj_ok (objsize (km_cache s c)) vm0 ob"
    and pk: "pt_present (kernel_flatpt (km_vm s) k)"
    and b: "new_slab (objsize (km_cache s c)) k b"
  shows "cache_rep (Some (kaddr k)) c
    (s\<lparr>km_slab := (km_slab s)(kaddr k := b), km_links := SLIST_INSERT_HEAD (Slabs_partial c) (kaddr k) (km_links s)\<rparr>)
    (H(Slabs_partial c := kaddr k # H (Slabs_partial c))) (set (slab_objs b)) I"
    (is "cache_rep _ c ?s ?H _ I")
proof -
  note d = cache_repD[OF rep]
  have os: "objsize (km_cache s c) \<noteq> 0" "unat (objsize (km_cache s c)) \<le> 4072"
    using d(2) by (simp_all add: cache_conf_def)
  let ?N = "slab_elems (unat (objsize (km_cache s c)))"
  have N: "0 < ?N" by (rule slab_elems_pos[OF os(2)])
  note nb = new_slab_objs[OF b k(1) os(1)]
  have new: "kaddr k \<notin> cache_slabs c H" using k(2) by (auto simp: cache_slabs_def members_iff)
  have cs: "cache_slabs c ?H = insert (kaddr k) (cache_slabs c H)" by (auto simp: cache_slabs_def)
  note same = sum_fresh[OF new, of first_free] sum_fresh[OF new, of "\<lambda>b. mset (slab_objs b)"]
  have disj: "set (slab_objs b) \<inter> I = {}"
  proof (rule ccontr)
    assume "set (slab_objs b) \<inter> I \<noteq> {}"
    then obtain ob where ob: "ob \<in> set (slab_objs b)" "ob \<in> I" by blast
    from ob(1) obtain j where j: "ob = slot (objsize (km_cache s c)) k j" "j \<in> {1..?N}" unfolding nb(2) by blast
    obtain k' j' where k': "in_page vm0 k'" "1 \<le> j'" "j' \<le> ?N" "ob = slot (objsize (km_cache s c)) k' j'"
      using I ob(2) by (auto simp: obj_ok_def)
    then have "k = k'" using object_slot_inject[of k j _ k' j'] j k(1) os(1) by (auto simp: in_page_def)
    then show False using k'(1) nk by (simp add: in_page_def)
  qed
  have ok: "\<forall>ob\<in>set (slab_objs b). obj_ok (objsize (km_cache s c)) (km_vm s) ob"
  proof
    fix ob assume "ob \<in> set (slab_objs b)"
    then obtain j where "ob = slot (objsize (km_cache s c)) k j" "1 \<le> j" "j \<le> ?N" unfolding nb(2) by auto
    moreover have "in_page (km_vm s) k" using k(1) pk by (simp add: in_page_def)
    ultimately show "obj_ok (objsize (km_cache s c)) (km_vm s) ob" unfolding obj_ok_def by blast
  qed
  have st: "cache_stock c ?s ?H (set (slab_objs b)) I"
    using d(4) disj ok nb(1) b new
    by (auto simp: cache_stock_def cs same mset_set_set new_slab_def)
  have li: "cache_lists (Some (kaddr k)) c ?s ?H"
    using d(3) N b new unfolding cache_lists_def cs
    by (auto simp: new_slab_def cache_slabs_def)
  have "slinked (km_links ?s) ?H" using sl.insert_rep[OF d(1) k(2), of "Slabs_partial c"] by simp
  moreover have "\<forall>p\<in>members ?H. \<exists>k. p = kaddr k \<and> in_page (km_vm ?s) k"
    using d(5) k(1) pk by (auto simp: members_push in_page_def)
  moreover have "cache_conf c ?s" using d(2) by (simp add: cache_conf_def)
  ultimately show ?thesis using st li unfolding cache_rep_def by blast
qed


lemma local_page_alloc_kalloc:
  assumes "local_page_alloc (kalloc_state i vm) = Some (r, kalloc_state i vm)"
  shows "local_page_alloc vm = Some (r, vm)"
proof -
  obtain pm where pm: "physmem_page_alloc (localmem vm) 0 (vm_pm vm) = Some (r, pm)"
    "(kalloc_state i vm)\<lparr>vm_pm := pm\<rparr> = kalloc_state i vm"
    using assms by (auto simp: local_page_alloc_def kalloc_state_def bind_eq_Some_conv)
  from pm(2) have "vm_pm ((kalloc_state i vm)\<lparr>vm_pm := pm\<rparr>) = vm_pm (kalloc_state i vm)" by simp
  then have "pm = vm_pm vm" by (simp add: kalloc_state_def)
  then show ?thesis using pm(1) by (simp add: local_page_alloc_def)
qed

text \<open>The three ways to a slab, and the two ways to run out of memory.\<close>

lemma cache_get_slab_cases:
  assumes rep: "cache_rep None c s H F I"
  obtains (oom) s' where "cache_get_slab c s = Some (None, s')" "cache_rep None c s' H F I" "F = {}" "km_cache s' = km_cache s"
      "kfree (km_vm s) = {} \<or> local_page_alloc (km_vm s) = Some ((PHYSMEM_ERR_OOM, None), km_vm s)"
    | (slab) p xs s' z H' F' where "cache_get_slab c s = Some (Some p, s')" "cache_rep z c s' H' F' I"
      "H' (Slabs_partial c) = p # xs" "z = None \<or> z = Some p" "F \<subseteq> F'" "F \<noteq> {} \<longrightarrow> F' = F"
      "km_cache s' = km_cache s" "first_free (km_slab s' p) < unat (num_total (km_slab s' p))"
      "km_ext s' = km_ext s" "card (kfree (km_vm s)) \<le> Suc (card (kfree (km_vm s')))"
proof -
  note d = cache_repD[OF rep]
  have conf: "c \<noteq> 0" "kc_cpu (km_cache s c) \<noteq> 0" "objsize (km_cache s c) \<noteq> 0"
    "unat (objsize (km_cache s c)) \<le> 4072" "pm_ready (km_vm s)" using d(2) by (simp_all add: cache_conf_def)
  note se = SLIST_EMPTY_slinked[OF d(1)] SLIST_FIRST_slinked[OF d(1)]
  consider (part) p xs where "H (Slabs_partial c) = p # xs"
    | (empty) p xs where "H (Slabs_partial c) = []" "H (Slabs_empty c) = p # xs"
    | (none) "H (Slabs_partial c) = []" "H (Slabs_empty c) = []"
    by (meson neq_Nil_conv)
  then show thesis
  proof cases
    case part
    show thesis by (rule slab[of p s None H F xs]) (use part rep d(3) in \<open>simp_all add: cache_get_slab_def se cache_lists_def\<close>)
  next
    case empty
    let ?H = "H(Slabs_empty c := xs, Slabs_partial c := p # H (Slabs_partial c))"
    obtain q where q: "SLIST_REMOVE_HEAD (Slabs_empty c) (km_links s) = Some q"
      "slinked (SLIST_INSERT_HEAD (Slabs_partial c) p q) ?H"
      using sl.move_head[OF d(1) empty(2), of "Slabs_partial c"] by auto
    have same: "cache_slabs c ?H = cache_slabs c H" "members ?H = members H"
      using cache_slabs_move[of H "Slabs_empty c" p xs "Slabs_partial c" c] empty by simp_all
    let ?s = "s\<lparr>km_links := SLIST_INSERT_HEAD (Slabs_partial c) p q\<rparr>"
    have "cache_lists (Some p) c ?s ?H"
      using d(3) empty unfolding cache_lists_def same(1) by (auto simp: cache_slabs_def)
    then have "cache_rep (Some p) c ?s ?H F I"
      using d q(2) by (simp add: cache_rep_def same cache_stock_def cache_conf_def)
    then show thesis
      by (intro slab[of p ?s "Some p" ?H F "[]"])
        (use empty q(1) d(3) in \<open>simp_all add: cache_get_slab_def se cache_lists_def cache_slabs_def\<close>)
  next
    case none
    have F: "F = {}" by (rule no_free_objects[OF rep none])
    show thesis
    proof (cases "kfree (km_vm s) = {}")
      case True
      show thesis
        by (rule oom[of s]) (use none rep F True i686_kernel_alloc_oom[OF True] in \<open>simp_all add: cache_get_slab_def se\<close>)
    next
      case False
      obtain i where i: "i \<in> kfree (km_vm s)"
        "i686_kernel_alloc 1 (km_vm s) = Some ((VIRTMEM_SUCCESS, Some (kaddr i)), kalloc_state i (km_vm s))"
        by (rule i686_kernel_alloc_ok[OF False])
      let ?vm1 = "kalloc_state i (km_vm s)"
      have lt: "i < 262144" and np: "\<not> pt_present (kernel_flatpt (km_vm s) i)" using i(1) by (auto simp: kfree_def)
      have r1: "pm_ready ?vm1" using conf(5) pm_ready_cong[of ?vm1 "km_vm s"] by (simp add: kalloc_state_def)
      from r1 show thesis
      proof (cases rule: pm_ready_alloc)
        case oom': oom
        have "cache_rep None c (s\<lparr>km_vm := ?vm1\<rparr>) H F I"
          by (rule cache_rep_vm[OF rep r1]) (simp add: kalloc_state_def)
        moreover have "local_page_alloc (km_vm s) = Some ((PHYSMEM_ERR_OOM, None), km_vm s)"
          by (rule local_page_alloc_kalloc[OF oom'])
        ultimately show thesis
          by (intro oom[of "s\<lparr>km_vm := ?vm1\<rparr>"])
            (use none i(2) oom' F in \<open>auto simp: cache_get_slab_def se\<close>)
      next
        case (ok a pm)
        let ?vm2 = "?vm1\<lparr>vm_pm := pm\<rparr>"
        let ?vm3 = "kmap_state i (frame_of a) ?vm2"
        have map: "i686_kernel_map_virt_to_phys a (kaddr i) ?vm2 = Some (VIRTMEM_SUCCESS, ?vm3)"
          by (rule i686_kernel_map_ok[OF lt])
            (simp add: kalloc_state_def, rule pm_ready_page_size[OF ok(2)])
        have r3: "pm_ready ?vm3" using ok(2) pm_ready_cong[of ?vm3 ?vm2] by (simp add: kmap_state_def)
        let ?s1 = "upd_slab (kaddr i) (\<lambda>b. b\<lparr>n_pages := 1\<rparr>) (s\<lparr>km_vm := ?vm3\<rparr>)"
        obtain b where b: "kmem_initialize_slab c (kaddr i) ?s1 = Some (?s1\<lparr>km_slab := (km_slab ?s1)(kaddr i := b)\<rparr>)"
          "new_slab (objsize (km_cache s c)) i b"
          using kmem_initialize_slab_ok[of c ?s1 "objsize (km_cache s c)" i] conf lt pm_ready_page_size[OF r3]
          by (auto simp: upd_slab_def)
        have r: "cache_rep None c (s\<lparr>km_vm := ?vm3\<rparr>) H {} I"
          using cache_rep_vm[OF rep r3] F by (simp add: kalloc_state_def kmap_state_def)
        have fresh: "kaddr i \<notin> members H"
        proof
          assume "kaddr i \<in> members H"
          then obtain k where "kaddr i = kaddr k" "in_page (km_vm s) k" using d(5) by blast
          then show False using kaddr_inject[OF lt] np by (auto simp: in_page_def)
        qed
        let ?s2 = "(s\<lparr>km_vm := ?vm3\<rparr>)\<lparr>km_slab := (km_slab s)(kaddr i := b),
          km_links := SLIST_INSERT_HEAD (Slabs_partial c) (kaddr i) (km_links s)\<rparr>"
        have rep': "cache_rep (Some (kaddr i)) c ?s2 (H(Slabs_partial c := kaddr i # H (Slabs_partial c)))
          (set (slab_objs b)) I"
          using add_slab[OF r lt fresh np, of b] d(4) b(2) by (simp add: kmap_state_def cache_stock_def)
        have get: "cache_get_slab c s = Some (Some (kaddr i), ?s2)"
          using none i(2) ok(1) map b(1) by (simp add: cache_get_slab_def se upd_slab_def)
        have "kfree ?vm3 = kfree (km_vm s) - {i}" by (auto simp: kfree_kmap) (auto simp: kfree_def kalloc_state_def)
        then have "card (kfree (km_vm s)) \<le> Suc (card (kfree ?vm3))" using card_Suc_Diff1[OF finite_kfree i(1)] by simp
        then show thesis
          by (intro slab[OF get rep']) (use none F b(2) slab_elems_pos[OF conf(4)] in \<open>simp_all add: new_slab_def\<close>)
      qed
    qed
  qed
qed

lemma alloc_cases:
  fixes s :: "'x kmem_state"
  assumes rep: "cache_rep None c s H F I"
  obtains (oom) s' where "common_kmem_cache_alloc run c s = Some (0, s')" "cache_rep None c s' H F I" "F = {}" "km_cache s' = km_cache s"
      "kfree (km_vm s) = {} \<or> local_page_alloc (km_vm s) = Some ((PHYSMEM_ERR_OOM, None), km_vm s)"
    | (ok) ob s4 H' F' where
      "common_kmem_cache_alloc run c s = do {
         s5 \<leftarrow> (case kc_ctor (km_cache s c) of None \<Rightarrow> Some s4 | Some f \<Rightarrow> run f ob s4);
         Some (ob, upd_cache c (used_update (\<lambda>u. u + 1)) s5) }"
      "ob \<in> F'" "F \<subseteq> F'" "F' \<inter> I = {}" "F \<noteq> {} \<longrightarrow> F' = F" "ob \<noteq> 0" "km_cache s4 = km_cache s"
      "pm_ready (km_vm s4)"
      "\<And>i. i < unat (objsize (km_cache s c)) \<Longrightarrow> vm_ld (ob + of_nat i) (km_vm s4) = Some 0"
      "\<And>s5. callback_frame s4 s5 \<Longrightarrow>
         cache_rep None c (upd_cache c (used_update (\<lambda>u. u + 1)) s5) H' (F' - {ob}) (insert ob I)"
      "km_ext s4 = km_ext s" "card (kfree (km_vm s)) \<le> Suc (card (kfree (km_vm s4)))"
  using rep
proof (cases rule: cache_get_slab_cases)
  case (oom s')
  have "c \<noteq> 0" "kc_cpu (km_cache s c) \<noteq> 0" using cache_repD(2)[OF rep] by (simp_all add: cache_conf_def)
  then have "common_kmem_cache_alloc run c s = Some (0, s')"
    using oom(1) by (simp add: common_kmem_cache_alloc_def)
  then show thesis using oom(2-5) by (rule that(1))
next
  case (slab p xs s1 z H1 F1)
  have cf: "c \<noteq> 0" "kc_cpu (km_cache s c) \<noteq> 0" "objsize (km_cache s c) \<noteq> 0" "pm_ready (km_vm s1)"
    using cache_repD(2)[OF rep] cache_repD(2)[OF slab(2)] by (simp_all add: cache_conf_def)
  let ?b = "km_slab s1 p"
  let ?ob = "freelist ?b (first_free ?b)"
  obtain L H' where t: "?ob \<in> F1"
    "(if freelist ?b (Suc (first_free ?b)) = 0
      then do { q \<leftarrow> SLIST_REMOVE_HEAD (Slabs_partial c) (km_links s1); Some (SLIST_INSERT_HEAD (Slabs_full c) p q) }
      else Some (km_links s1)) = Some L"
    and rep': "\<And>s' :: 'x kmem_state. km_links s' = L \<Longrightarrow> km_slab s' = (km_slab s1)(p := first_free_update Suc ?b) \<Longrightarrow>
       km_cache s' c = used_update (\<lambda>u. u + 1) (km_cache s1 c) \<Longrightarrow>
       kernel_flatpt (km_vm s') = kernel_flatpt (km_vm s1) \<Longrightarrow> vm_pm (km_vm s') = vm_pm (km_vm s1) \<Longrightarrow>
       localmem (km_vm s') = localmem (km_vm s1) \<Longrightarrow>
       cache_rep None c s' H' (F1 - {?ob}) (insert ?ob I)"
    by (rule take_object[OF slab(2-4,8)]) blast
  have okob: "obj_ok (objsize (km_cache s c)) (km_vm s1) ?ob" and di: "F1 \<inter> I = {}"
    using t(1) cache_repD(4)[OF slab(2)] slab(7) by (simp_all add: cache_stock_def)
  obtain m where m: "memset vm_st ?ob 0 (objsize (km_cache s c)) (km_vm s1) = Some (?ob, (km_vm s1)\<lparr>pmem := m\<rparr>)"
    "\<And>i. i < unat (objsize (km_cache s c)) \<Longrightarrow> vm_ld (?ob + of_nat i) ((km_vm s1)\<lparr>pmem := m\<rparr>) = Some 0"
    using memset_obj[OF okob cf(3)] by blast
  let ?s2 = "upd_slab p (first_free_update Suc) s1"
  let ?s4 = "?s2\<lparr>km_links := L, km_vm := (km_vm s1)\<lparr>pmem := m\<rparr>\<rparr>"
  have nz: "?ob \<noteq> 0" by (rule slot_nonzero[OF okob cf(3)])
  have eq: "common_kmem_cache_alloc run c s = do {
         s5 \<leftarrow> (case kc_ctor (km_cache s c) of None \<Rightarrow> Some ?s4 | Some f \<Rightarrow> run f ?ob ?s4);
         Some (?ob, upd_cache c (used_update (\<lambda>u. u + 1)) s5) }"
  proof (cases "freelist ?b (Suc (first_free ?b)) = 0")
    case True
    then obtain q where "SLIST_REMOVE_HEAD (Slabs_partial c) (km_links s1) = Some q"
      "L = SLIST_INSERT_HEAD (Slabs_full c) p q" using t(2) by (auto simp: bind_eq_Some_conv)
    then show ?thesis using True cf(1,2) slab(1,7) nz m(1)
      by (simp add: common_kmem_cache_alloc_def upd_slab_def Let_def cong: option.case_cong)
  next
    case False
    then have "L = km_links s1" using t(2) by simp
    then show ?thesis using False cf(1,2) slab(1,7) nz m(1)
      by (simp add: common_kmem_cache_alloc_def upd_slab_def Let_def cong: option.case_cong)
  qed
  have r: "cache_rep None c (upd_cache c (used_update (\<lambda>u. u + 1)) s5) H' (F1 - {?ob}) (insert ?ob I)"
    if "callback_frame ?s4 s5" for s5
  proof (rule cache_rep_frame)
    show "cache_rep None c (upd_cache c (used_update (\<lambda>u. u + 1)) ?s4) H' (F1 - {?ob}) (insert ?ob I)"
      by (rule rep') (simp_all add: upd_cache_def upd_slab_def)
    show "callback_frame (upd_cache c (used_update (\<lambda>u. u + 1)) ?s4) (upd_cache c (used_update (\<lambda>u. u + 1)) s5)"
      using that by (simp add: callback_frame_def upd_cache_def)
  qed
  show thesis
    by (rule that(2)[OF eq t(1) slab(5) di _ nz _ _ _ r])
      (use slab(6,7,9,10) m(2) cf(4) pm_ready_cong[of "(km_vm s1)\<lparr>pmem := m\<rparr>" "km_vm s1"]
       in \<open>auto simp: upd_slab_def kfree_def\<close>)
qed

text \<open>Putting an object into the first slab of the partial list.\<close>

definition put_slab :: "virtaddr_t \<Rightarrow> kmem_slab \<Rightarrow> kmem_slab" where
  "put_slab ob b = b\<lparr>first_free := first_free b - 1, freelist := (freelist b)(first_free b - 1 := ob)\<rparr>"

lemma put_object:
  fixes s :: "'x kmem_state"
  assumes rep: "cache_rep z c s H F I" and part: "H (Slabs_partial c) = p # xs" and z: "z = None \<or> z = Some p"
    and ff: "0 < first_free (km_slab s p)" and ob: "ob \<in> I"
  defines "s3 \<equiv> upd_cache c (used_update (\<lambda>u. u - 1)) (upd_slab p (put_slab ob) s)"
  shows "\<exists>s' H'. (if first_free (km_slab s3 p) = 0
      then do { q \<leftarrow> SLIST_REMOVE_HEAD (Slabs_partial c) (km_links s3);
                Some (s3\<lparr>km_links := SLIST_INSERT_HEAD (Slabs_empty c) p q\<rparr>) }
      else Some s3) = Some s' \<and> cache_rep None c s' H' (insert ob F) (I - {ob}) \<and> km_vm s' = km_vm s \<and>
      km_cache s' = (km_cache s)(c := used_update (\<lambda>u. u - 1) (km_cache s c))"
proof -
  note d = cache_repD[OF rep] and once = cache_rep_slab_once[OF cache_repD(1)[OF rep] part]
  let ?b = "km_slab s p"
  have le: "first_free ?b \<le> unat (num_total ?b)" "0 < unat (num_total ?b)"
    "freelist ?b (unat (num_total ?b)) = 0" using d(3) once(4) by (auto simp: cache_lists_def)
  have s3: "km_slab s3 = (km_slab s)(p := put_slab ob ?b)" "km_links s3 = km_links s" "km_vm s3 = km_vm s"
    "km_cache s3 c = used_update (\<lambda>u. u - 1) (km_cache s c)"
    "km_cache s3 = (km_cache s)(c := used_update (\<lambda>u. u - 1) (km_cache s c))"
    by (simp_all add: s3_def upd_cache_def upd_slab_def)
  have conf: "cache_conf c s3" using d(2) s3 by (simp add: cache_conf_def)
  show ?thesis
  proof (cases "first_free ?b = 1")
    case True
    obtain q where q: "SLIST_REMOVE_HEAD (Slabs_partial c) (km_links s) = Some q"
      "slinked (SLIST_INSERT_HEAD (Slabs_empty c) p q)
         (H(Slabs_partial c := xs, Slabs_empty c := p # H (Slabs_empty c)))" (is "slinked ?L ?H")
      using sl.move_head[OF d(1) part, of "Slabs_empty c"] by auto
    have same: "cache_slabs c ?H = cache_slabs c H" "members ?H = members H"
      using cache_slabs_move[of H "Slabs_partial c" p xs "Slabs_empty c" c] part by simp_all
    let ?s = "s3\<lparr>km_links := ?L\<rparr>"
    have "cache_stock c ?s ?H (insert ob F) (I - {ob})"
      by (rule stock_put[OF d(4) once(4) ob ff le(1)]) (use s3 same in \<open>simp_all add: put_slab_def\<close>)
    moreover have "cache_lists None c ?s ?H"
      using d(3) part z True once s3(1) le unfolding cache_lists_def same(1) by (auto simp: put_slab_def)
    ultimately have r: "cache_rep None c ?s ?H (insert ob F) (I - {ob})"
      using q(2) s3 conf d(5) same by (simp add: cache_rep_def cache_conf_def)
    have "first_free (km_slab s3 p) = 0" using True by (simp add: s3(1) put_slab_def)
    then have "(if first_free (km_slab s3 p) = 0
      then do { q \<leftarrow> SLIST_REMOVE_HEAD (Slabs_partial c) (km_links s3);
                Some (s3\<lparr>km_links := SLIST_INSERT_HEAD (Slabs_empty c) p q\<rparr>) }
      else Some s3) = Some ?s" using q(1) s3(2) by simp
    moreover have "km_vm ?s = km_vm s" "km_cache ?s = (km_cache s)(c := used_update (\<lambda>u. u - 1) (km_cache s c))"
      by (simp_all add: s3_def upd_cache_def upd_slab_def)
    ultimately show ?thesis using r by (intro exI[of _ ?s] exI[of _ ?H] conjI)
  next
    case False
    have "cache_stock c s3 H (insert ob F) (I - {ob})"
      by (rule stock_put[OF d(4) once(4) ob ff le(1)]) (use s3 in \<open>simp_all add: put_slab_def\<close>)
    moreover have "cache_lists None c s3 H"
    proof -
      have pb: "0 < first_free (put_slab ob ?b)" "first_free (put_slab ob ?b) < unat (num_total (put_slab ob ?b))"
        "num_total (put_slab ob ?b) = num_total ?b" "freelist (put_slab ob ?b) (unat (num_total ?b)) = 0"
        using False ff le by (auto simp: put_slab_def)
      then show ?thesis using d(3) part z once le(2) unfolding cache_lists_def s3(1) by auto
    qed
    ultimately have r: "cache_rep None c s3 H (insert ob F) (I - {ob})"
      using d(1,5) s3 conf by (simp add: cache_rep_def)
    have "first_free (km_slab s3 p) \<noteq> 0" using False ff by (simp add: s3(1) put_slab_def)
    then show ?thesis using r s3(3,5) by (simp only: if_False) blast
  qed
qed

lemma objects_in_use:
  assumes "cache_rep None c s H F I" "ob \<in> I"
  shows "H (Slabs_partial c) \<noteq> [] \<or> H (Slabs_full c) \<noteq> []"
proof (rule ccontr)
  assume n: "\<not> ?thesis"
  have "first_free (km_slab s p) = 0" if "p \<in> cache_slabs c H" for p
    using that n cache_repD(3)[OF assms(1)] by (simp add: cache_slabs_def cache_lists_def)
  then have "(\<Sum>p\<in>cache_slabs c H. first_free (km_slab s p)) = 0" by simp
  then show False using cache_repD(4)[OF assms(1)] assms(2) by (auto simp: cache_stock_def)
qed

lemma free_ok:
  fixes s :: "'x kmem_state"
  assumes rep: "cache_rep None c s H F I" and ob: "ob \<in> I"
  obtains s1 where
    "km_vm s1 = km_vm s" "km_slab s1 = km_slab s" "km_cache s1 = km_cache s" "km_ext s1 = km_ext s"
    "\<And>s2. (case kc_dtor (km_cache s c) of None \<Rightarrow> Some s1 | Some f \<Rightarrow> run f ob s1) = Some s2 \<Longrightarrow>
       callback_frame s1 s2 \<Longrightarrow>
       \<exists>s' H'. common_kmem_cache_free run c ob s = Some s' \<and>
         cache_rep None c s' H' (insert ob F) (I - {ob}) \<and> km_vm s' = km_vm s2 \<and>
         km_cache s' = (km_cache s2)(c := used_update (\<lambda>u. u - 1) (km_cache s2 c))"
proof -
  note d = cache_repD[OF rep]
  have cf: "c \<noteq> 0" "objsize (km_cache s c) \<noteq> 0" "pm_ready (km_vm s)" using d(2) by (simp_all add: cache_conf_def)
  have nz: "ob \<noteq> 0" using ob d(4) slot_nonzero[OF _ cf(2), of "km_vm s" ob] by (simp add: cache_stock_def)
  note se = SLIST_EMPTY_slinked[OF d(1)] SLIST_FIRST_slinked[OF d(1)]
  note finish = that
  have main: thesis if s1: "km_vm s1 = km_vm s" "km_slab s1 = km_slab s" "km_cache s1 = km_cache s" "km_ext s1 = km_ext s"
    and r1: "cache_rep z c s1 H1 F I" "H1 (Slabs_partial c) = p # xs" "z = None \<or> z = Some p" "0 < first_free (km_slab s p)"
    and eq: "common_kmem_cache_free run c ob s = do {
       s2 \<leftarrow> (case kc_dtor (km_cache s c) of None \<Rightarrow> Some s1 | Some f \<Rightarrow> run f ob s1);
       c_assert (first_free (km_slab s2 p) \<noteq> 0);
       let s3 = upd_cache c (used_update (\<lambda>u. u - 1)) (upd_slab p (put_slab ob) s2);
       if first_free (km_slab s3 p) = 0
       then do { q \<leftarrow> SLIST_REMOVE_HEAD (Slabs_partial c) (km_links s3);
                 Some (s3\<lparr>km_links := SLIST_INSERT_HEAD (Slabs_empty c) p q\<rparr>) }
       else Some s3 }" for s1 z H1 p xs
  proof (rule finish[OF s1])
    fix s2 assume s2: "(case kc_dtor (km_cache s c) of None \<Rightarrow> Some s1 | Some f \<Rightarrow> run f ob s1) = Some s2"
      "callback_frame s1 s2"
    have r2: "cache_rep z c s2 H1 F I" by (rule cache_rep_frame[OF r1(1) s2(2)])
    have ff: "0 < first_free (km_slab s2 p)" using r1(4) s1(2) s2(2) by (simp add: callback_frame_def)
    from put_object[OF r2 r1(2,3) ff ob]
    show "\<exists>s' H'. common_kmem_cache_free run c ob s = Some s' \<and>
         cache_rep None c s' H' (insert ob F) (I - {ob}) \<and> km_vm s' = km_vm s2 \<and>
         km_cache s' = (km_cache s2)(c := used_update (\<lambda>u. u - 1) (km_cache s2 c))"
      unfolding eq s2(1) using ff by (simp add: Let_def)
  qed
  have upd: "upd_slab p (\<lambda>b. b\<lparr>freelist := (freelist b)(first_free b := ob)\<rparr>)
      (upd_slab p (first_free_update (\<lambda>i. i - 1)) s2) = upd_slab p (put_slab ob) s2" for p and s2 :: "'x kmem_state"
    by (cases "km_slab s2 p") (simp add: upd_slab_def put_slab_def)
  show thesis
  proof (cases "H (Slabs_partial c)")
    case (Cons p xs)
    have "0 < first_free (km_slab s p)" using d(3) Cons by (simp add: cache_lists_def)
    then show thesis
      by (intro main[of s None H p xs])
        (use rep Cons in \<open>simp_all add: common_kmem_cache_free_def se cf nz upd[unfolded One_nat_def] Let_def cong: if_cong\<close>)
  next
    case Nil
    then obtain p xs where f: "H (Slabs_full c) = p # xs" using objects_in_use[OF rep ob] by (meson neq_Nil_conv)
    let ?H = "H(Slabs_full c := xs, Slabs_partial c := p # H (Slabs_partial c))"
    obtain q where q: "SLIST_REMOVE_HEAD (Slabs_full c) (km_links s) = Some q"
      "slinked (SLIST_INSERT_HEAD (Slabs_partial c) p q) ?H"
      using sl.move_head[OF d(1) f, of "Slabs_partial c"] by auto
    have same: "cache_slabs c ?H = cache_slabs c H" "members ?H = members H"
      using cache_slabs_move[of H "Slabs_full c" p xs "Slabs_partial c" c] f by simp_all
    let ?s = "s\<lparr>km_links := SLIST_INSERT_HEAD (Slabs_partial c) p q\<rparr>"
    have "cache_lists (Some p) c ?s ?H"
      using d(3) f Nil unfolding cache_lists_def same(1) by (auto simp: cache_slabs_def)
    then have "cache_rep (Some p) c ?s ?H F I"
      using d q(2) by (simp add: cache_rep_def same cache_stock_def cache_conf_def)
    moreover have "0 < first_free (km_slab s p)" using d(3) f by (simp add: cache_lists_def cache_slabs_def)
    ultimately show thesis
      by (intro main[of ?s "Some p" ?H p "[]"])
        (use Nil f q(1) in \<open>simp_all add: common_kmem_cache_free_def se cf nz upd[unfolded One_nat_def] Let_def cong: if_cong\<close>)
  qed
qed

section \<open>The interface of an object cache\<close>

text \<open>
  \<open>rep s F I\<close>: the objects \<open>F\<close> are free in the cache and the objects \<open>I\<close> are in use.
  An allocation returns a free object, first filling up the stock of free objects if there is
  none, or the null pointer; a free gives back any object that is in use.
\<close>

primrec alloc_many :: "('s \<Rightarrow> (virtaddr_t \<times> 's) option) \<Rightarrow> nat \<Rightarrow> 's \<Rightarrow> (virtaddr_t list \<times> 's) option" where
  "alloc_many alloc 0 s = Some ([], s)"
| "alloc_many alloc (Suc n) s = do {
     (ob, s1) \<leftarrow> alloc s;
     (obs, s2) \<leftarrow> alloc_many alloc n s1;
     Some (ob # obs, s2)
   }"

primrec free_many :: "(virtaddr_t \<Rightarrow> 's \<Rightarrow> 's option) \<Rightarrow> virtaddr_t list \<Rightarrow> 's \<Rightarrow> 's option" where
  "free_many free [] s = Some s"
| "free_many free (ob # obs) s = do { s1 \<leftarrow> free ob s; free_many free obs s1 }"

locale object_cache =
  fixes alloc :: "'s \<Rightarrow> (virtaddr_t \<times> 's) option"
    and free :: "virtaddr_t \<Rightarrow> 's \<Rightarrow> 's option"
    and rep :: "'s \<Rightarrow> virtaddr_t set \<Rightarrow> virtaddr_t set \<Rightarrow> bool"
  assumes alloc_laws: "rep s F I \<Longrightarrow>
      (\<exists>s'. alloc s = Some (0, s') \<and> F = {} \<and> rep s' F I) \<or>
      (\<exists>ob s' F'. alloc s = Some (ob, s') \<and> ob \<in> F' \<and> F \<subseteq> F' \<and> F' \<inter> I = {} \<and> (F \<noteq> {} \<longrightarrow> F' = F) \<and>
         rep s' (F' - {ob}) (insert ob I))"
    and free_laws: "rep s F I \<Longrightarrow> ob \<in> I \<Longrightarrow> \<exists>s'. free ob s = Some s' \<and> rep s' (insert ob F) (I - {ob})"
    and rep_disjoint: "rep s F I \<Longrightarrow> F \<inter> I = {}"
    and rep_not_null: "rep s F I \<Longrightarrow> 0 \<notin> F \<union> I"
begin

lemma alloc_free_roundtrip:
  assumes "rep s F I" and "F \<noteq> {}"
  obtains ob s1 s2 where "alloc s = Some (ob, s1)" "ob \<in> F" "rep s1 (F - {ob}) (insert ob I)"
    "free ob s1 = Some s2" "rep s2 F I"
proof -
  obtain ob s1 where a: "alloc s = Some (ob, s1)" "ob \<in> F" "rep s1 (F - {ob}) (insert ob I)"
    using alloc_laws[OF assms(1)] assms(2) by auto
  obtain s2 where s2: "free ob s1 = Some s2" "rep s2 (insert ob (F - {ob})) (insert ob I - {ob})"
    using free_laws[OF a(3)] by blast
  have "insert ob (F - {ob}) = F" "insert ob I - {ob} = I" using a(2) rep_disjoint[OF assms(1)] by auto
  then show thesis using that a s2 by simp
qed

lemma alloc_many_distinct:
  assumes "rep s F I"
  shows "\<exists>obs s' F' J. alloc_many alloc n s = Some (obs, s') \<and> length obs = n \<and>
    distinct (filter (\<lambda>ob. ob \<noteq> 0) obs) \<and> set (filter (\<lambda>ob. ob \<noteq> 0) obs) = J \<and> J \<inter> I = {} \<and>
    rep s' F' (I \<union> J)"
  using assms
proof (induction n arbitrary: s F I)
  case 0
  then show ?case by (intro exI[of _ "[]"] exI[of _ s] exI[of _ F] exI[of _ "{}"]) simp
next
  case (Suc n)
  obtain ob s1 F1 I1 where a: "alloc s = Some (ob, s1)" "rep s1 F1 I1"
    "ob = 0 \<and> I1 = I \<or> ob \<noteq> 0 \<and> ob \<notin> I \<and> I1 = insert ob I"
    using alloc_laws[OF Suc.prems]
  proof
    assume "\<exists>s'. alloc s = Some (0, s') \<and> F = {} \<and> rep s' F I"
    then show thesis using that by blast
  next
    assume "\<exists>ob s' F'. alloc s = Some (ob, s') \<and> ob \<in> F' \<and> F \<subseteq> F' \<and> F' \<inter> I = {} \<and> (F \<noteq> {} \<longrightarrow> F' = F) \<and>
      rep s' (F' - {ob}) (insert ob I)"
    then obtain ob s' F' where o: "alloc s = Some (ob, s')" "ob \<in> F'" "F' \<inter> I = {}" "rep s' (F' - {ob}) (insert ob I)"
      by blast
    then show thesis using that[OF o(1,4)] rep_not_null[OF o(4)] by auto
  qed
  obtain obs s2 F2 J where m: "alloc_many alloc n s1 = Some (obs, s2)" "length obs = n"
    "distinct (filter (\<lambda>ob. ob \<noteq> 0) obs)" "set (filter (\<lambda>ob. ob \<noteq> 0) obs) = J" "J \<inter> I1 = {}" "rep s2 F2 (I1 \<union> J)"
    using Suc.IH[OF a(2)] by blast
  let ?J = "if ob = 0 then J else insert ob J"
  have "distinct (filter (\<lambda>ob. ob \<noteq> 0) (ob # obs))" "set (filter (\<lambda>ob. ob \<noteq> 0) (ob # obs)) = ?J" "?J \<inter> I = {}"
    "I \<union> ?J = I1 \<union> J" using m(3-5) a(3) by auto
  then show ?case using a(1) m(1,2,6)
    by (intro exI[of _ "ob # obs"] exI[of _ s2] exI[of _ F2] exI[of _ ?J]) simp
qed

lemma free_many_ok:
  assumes "rep s F I" "distinct obs" "set obs \<subseteq> I"
  shows "\<exists>s'. free_many free obs s = Some s' \<and> rep s' (F \<union> set obs) (I - set obs)"
  using assms
proof (induction obs arbitrary: s F I)
  case Nil
  then show ?case by simp
next
  case (Cons ob obs)
  obtain s1 where s1: "free ob s = Some s1" "rep s1 (insert ob F) (I - {ob})"
    using free_laws[OF Cons.prems(1)] Cons.prems(3) by auto
  have "set obs \<subseteq> I - {ob}" using Cons.prems(2,3) by auto
  then obtain s2 where s2: "free_many free obs s1 = Some s2" "rep s2 (insert ob F \<union> set obs) (I - {ob} - set obs)"
    using Cons.IH[OF s1(2)] Cons.prems(2) by auto
  have "insert ob F \<union> set obs = F \<union> set (ob # obs)" "I - {ob} - set obs = I - set (ob # obs)" by auto
  then show ?case using s1(1) s2 by simp
qed

end

text \<open>A cache whose constructor and destructor keep to \<^const>\<open>callback_frame\<close>.\<close>

definition callback_ok :: "'x kmem_run \<Rightarrow> kmem_cache_fn option \<Rightarrow> bool" where
  "callback_ok run fo \<longleftrightarrow> (\<forall>f ob s. fo = Some f \<longrightarrow> pm_ready (km_vm s) \<longrightarrow>
     (\<exists>s'. run f ob s = Some s' \<and> callback_frame s s'))"

definition cache_ok ::
  "'x kmem_run \<Rightarrow> cache_ptr \<Rightarrow> 'x kmem_state \<Rightarrow> virtaddr_t set \<Rightarrow> virtaddr_t set \<Rightarrow> bool" where
  "cache_ok run c s F I \<longleftrightarrow> callback_ok run (kc_ctor (km_cache s c)) \<and> callback_ok run (kc_dtor (km_cache s c)) \<and>
     (\<exists>H. cache_rep None c s H F I)"

lemma callback_run:
  assumes "callback_ok run fo" "pm_ready (km_vm s)"
  obtains s' where "(case fo of None \<Rightarrow> Some s | Some f \<Rightarrow> run f ob s) = Some s'" "callback_frame s s'"
proof (cases fo)
  case None
  then show thesis using that[of s] assms(2) by (simp add: callback_frame_def)
next
  case (Some f)
  then obtain s' where "run f ob s = Some s'" "callback_frame s s'" using assms by (auto simp: callback_ok_def)
  then show thesis using that[of s'] Some by simp
qed

lemma cache_ok_alloc:
  assumes ok: "cache_ok run c s F I"
  shows "(\<exists>s'. kmem_cache_alloc run c s = Some (0, s') \<and> F = {} \<and> cache_ok run c s' F I) \<or>
      (\<exists>ob s' F'. kmem_cache_alloc run c s = Some (ob, s') \<and> ob \<in> F' \<and> F \<subseteq> F' \<and> F' \<inter> I = {} \<and> (F \<noteq> {} \<longrightarrow> F' = F) \<and>
         cache_ok run c s' (F' - {ob}) (insert ob I))"
proof -
  obtain H where H: "cache_rep None c s H F I" using ok by (auto simp: cache_ok_def)
  note cb = ok[unfolded cache_ok_def]
  from H show ?thesis
  proof (cases rule: alloc_cases[where run = run])
    case (oom s')
    then have "cache_ok run c s' F I" using cb by (auto simp: cache_ok_def)
    then show ?thesis using oom(1,3) by auto
  next
    case (ok ob s4 H' F')
    obtain s5 where s5: "(case kc_ctor (km_cache s c) of None \<Rightarrow> Some s4 | Some f \<Rightarrow> run f ob s4) = Some s5"
      "callback_frame s4 s5" using callback_run[OF _ ok(8), of run "kc_ctor (km_cache s c)" ob] cb by blast
    let ?s = "upd_cache c (used_update (\<lambda>u. u + 1)) s5"
    have "km_cache s5 = km_cache s" using s5(2) ok(7) by (simp add: callback_frame_def)
    then have "cache_ok run c ?s (F' - {ob}) (insert ob I)"
      using cb ok(10)[OF s5(2)] by (auto simp: cache_ok_def upd_cache_def)
    moreover have "kmem_cache_alloc run c s = Some (ob, ?s)" using ok(1) s5(1) by simp
    ultimately show ?thesis using ok(2-5) by blast
  qed
qed

lemma cache_ok_free:
  assumes ok: "cache_ok run c s F I" and ob: "ob \<in> I"
  shows "\<exists>s'. kmem_cache_free run c ob s = Some s' \<and> cache_ok run c s' (insert ob F) (I - {ob})"
proof -
  obtain H where H: "cache_rep None c s H F I" using ok by (auto simp: cache_ok_def)
  note cb = ok[unfolded cache_ok_def]
  show ?thesis
  proof (rule free_ok[OF H ob, of run], goal_cases)
    case (1 s1)
    have pr: "pm_ready (km_vm s1)" using cache_repD(2)[OF H] 1(1) by (simp add: cache_conf_def)
    obtain s2 where s2: "(case kc_dtor (km_cache s c) of None \<Rightarrow> Some s1 | Some f \<Rightarrow> run f ob s1) = Some s2"
      "callback_frame s1 s2" using callback_run[OF _ pr, of run "kc_dtor (km_cache s c)" ob] cb by blast
    have "km_cache s2 = km_cache s" using s2(2) 1(3) by (simp add: callback_frame_def)
    then show ?thesis using 1(5)[OF s2] cb by (auto simp: cache_ok_def)
  qed
qed

interpretation kc: object_cache "kmem_cache_alloc run c" "kmem_cache_free run c" "cache_ok run c" for run c
proof
  fix s F I assume r: "cache_ok run c s F I"
  then obtain H where H: "cache_rep None c s H F I" by (auto simp: cache_ok_def)
  show "F \<inter> I = {}" using cache_repD(4)[OF H] by (simp add: cache_stock_def)
  show "0 \<notin> F \<union> I" using cache_repD(2,4)[OF H] slot_nonzero[of "objsize (km_cache s c)" "km_vm s" 0]
    by (auto simp: cache_conf_def cache_stock_def)
qed (fact cache_ok_alloc cache_ok_free)+

lemma cache_init_rep:
  assumes "kmem_cache_init k c name sz ctor dtor s = (KMEM_SUCCESS, s')"
    and "k \<noteq> 0" "c \<noteq> 0" "unat sz \<le> 4072" "pm_ready (km_vm s)" "slinked (km_links s) H"
    and "\<forall>p\<in>members H. \<exists>i. p = kaddr i \<and> in_page (km_vm s) i"
  shows "cache_rep None k s' (H(Slabs_empty k := [], Slabs_full k := [], Slabs_partial k := [])) {} {}"
proof -
  let ?H = "H(Slabs_empty k := [], Slabs_full k := [], Slabs_partial k := [])"
  have sz: "sz \<noteq> 0" using assms(1) by (auto simp: common_kmem_cache_init_def Let_def MIN_CACHE_SIZE_def split: if_splits)
  have s': "km_links s' = SLIST_INIT (Slabs_partial k) (SLIST_INIT (Slabs_full k) (SLIST_INIT (Slabs_empty k) (km_links s)))"
    "objsize (km_cache s' k) = sz" "used (km_cache s' k) = 0" "kc_cpu (km_cache s' k) = c" "km_vm s' = km_vm s"
    using assms(1) by (auto simp: common_kmem_cache_init_def Let_def upd_cache_def split: if_splits)
  have "slinked (km_links s') ?H" unfolding s' by (intro sl.init_rep assms(6))
  moreover have "members ?H \<subseteq> members H" by (auto simp: members_iff split: if_splits)
  moreover have "cache_slabs k ?H = {}" by (simp add: cache_slabs_def)
  then have "cache_lists None k s' ?H" "cache_stock k s' ?H {} {}"
    using s'(3) by (simp_all add: cache_lists_def cache_stock_def cache_slabs_def)
  moreover have "cache_conf k s'" using assms(2-5) s' sz by (simp add: cache_conf_def)
  ultimately show ?thesis using assms(7) s'(5) unfolding cache_rep_def by auto
qed

definition example_kmem :: "unit kmem_state" where
  "example_kmem = \<lparr>km_vm = example_vm,
     km_links = \<lparr>slh_first = (\<lambda>_. None), sle_next = (\<lambda>_. None)\<rparr>,
     km_slab = (\<lambda>_. \<lparr>num_total = 0, n_pages = 0, first_free = 0, freelist = (\<lambda>_. 0)\<rparr>),
     km_cache = (\<lambda>_. \<lparr>kc_name = [], objsize = 0, used = 0, kc_cpu = 0, kc_ctor = None, kc_dtor = None\<rparr>),
     next_free_cache = 0, sym_caches = 0xC0010000, km_ext = ()\<rparr>"

definition no_callbacks :: "'x kmem_run" where
  "no_callbacks = (\<lambda>_ _ s. Some s)"

definition example_cache :: "unit kmem_state" where
  "example_cache = snd (kmem_cache_init 0xC0010000 0xC0020000 ''thread'' 100 None None example_kmem)"

lemma example_vm_pm_ready: "pm_ready example_vm"
  using example_pool_source by (auto simp: pm_ready_def example_vm_def)

lemma example_kmem_linked: "slinked (km_links example_kmem) (\<lambda>_. [])"
  by (simp add: slinked_def example_kmem_def)

text \<open>
  C11. \<^verbatim>\<open>kmem_cache_init\<close> with an object that fits a slab of one page sets up a cache with no
  object in use and none in stock, whatever the memory of the cache held before and whatever
  slabs other caches have; a size of zero is refused.
\<close>

theorem kmem_cache_init_establishes:
  assumes "k \<noteq> 0" "c \<noteq> 0" "unat sz \<le> 4072" "pm_ready (km_vm s)" "slinked (km_links s) H"
    and "\<forall>p\<in>members H. \<exists>i. p = kaddr i \<and> in_page (km_vm s) i"
    and "callback_ok run ctor" "callback_ok run dtor"
  shows "if sz = 0 then fst (kmem_cache_init k c name sz ctor dtor s) = KMEM_ERR_INVALID
    else \<exists>s'. kmem_cache_init k c name sz ctor dtor s = (KMEM_SUCCESS, s') \<and> cache_ok run k s' {} {}"
proof (cases "sz = 0")
  case True
  then show ?thesis by (simp add: common_kmem_cache_init_def Let_def MIN_CACHE_SIZE_def)
next
  case False
  then have "\<not> sz < MIN_CACHE_SIZE" by (simp add: MIN_CACHE_SIZE_def)
  then obtain s' where s': "kmem_cache_init k c name sz ctor dtor s = (KMEM_SUCCESS, s')"
    "kc_ctor (km_cache s' k) = ctor" "kc_dtor (km_cache s' k) = dtor"
    by (simp add: common_kmem_cache_init_def Let_def upd_cache_def)
  then show ?thesis
    using False cache_init_rep[OF s'(1) assms(1-6)] assms(7,8) by (auto simp: cache_ok_def)
qed

theorem kmem_cache_init_establishes_witness:
  "\<exists>s'. kmem_cache_init 0xC0010000 0xC0020000 ''thread'' 100 None None example_kmem = (KMEM_SUCCESS, s') \<and>
     cache_ok no_callbacks 0xC0010000 s' {} {}"
  using kmem_cache_init_establishes[of "0xC0010000" "0xC0020000" 100 example_kmem "\<lambda>_. []" no_callbacks None None "''thread''"]
    example_kmem_linked example_vm_pm_ready
  by (simp add: members_def callback_ok_def) (simp add: example_kmem_def)

lemma example_cache_ok: "cache_ok no_callbacks 0xC0010000 example_cache {} {}"
proof -
  have "kmem_cache_init 0xC0010000 0xC0020000 ''thread'' 100 None None example_kmem = (KMEM_SUCCESS, example_cache)"
    by (simp add: example_cache_def common_kmem_cache_init_def Let_def MIN_CACHE_SIZE_def)
  from cache_init_rep[OF this _ _ _ _ example_kmem_linked] example_vm_pm_ready
  have "cache_rep None 0xC0010000 example_cache (\<lambda>_. []) {} {}" by (simp add: members_def example_kmem_def fun_upd_idem)
  moreover have "kc_ctor (km_cache example_cache 0xC0010000) = None" "kc_dtor (km_cache example_cache 0xC0010000) = None"
    by (simp_all add: example_cache_def common_kmem_cache_init_def Let_def upd_cache_def MIN_CACHE_SIZE_def)
  ultimately show ?thesis by (auto simp: cache_ok_def callback_ok_def)
qed

lemma example_cache_fields:
  "kc_ctor (km_cache example_cache 0xC0010000) = None" "objsize (km_cache example_cache 0xC0010000) = 100"
  "km_vm example_cache = example_vm"
  by (simp_all add: example_cache_def common_kmem_cache_init_def Let_def upd_cache_def MIN_CACHE_SIZE_def example_kmem_def)

lemma example_vm_has_memory:
  "local_page_alloc example_vm \<noteq> Some ((PHYSMEM_ERR_OOM, None), example_vm)" "kfree example_vm \<noteq> {}"
proof -
  obtain pm where "physmem_page_alloc 1 0 example_pool = Some ((PHYSMEM_SUCCESS, Some 0x1000), pm)"
    using example_pool_alloc by blast
  then show "local_page_alloc example_vm \<noteq> Some ((PHYSMEM_ERR_OOM, None), example_vm)"
    by (simp add: local_page_alloc_def example_vm_def)
  show "kfree example_vm \<noteq> {}" by (simp add: example_vm_kfree lessThan_empty_iff)
qed

lemma example_cache_stocked: "\<exists>ob (s1 :: unit kmem_state) F1. cache_ok no_callbacks 0xC0010000 s1 F1 {ob}"
proof -
  obtain H where "cache_rep None 0xC0010000 example_cache H {} {}" using example_cache_ok by (auto simp: cache_ok_def)
  then show ?thesis
  proof (cases rule: alloc_cases[where run = no_callbacks])
    case (oom s')
    then show ?thesis using example_vm_has_memory by (simp add: example_cache_fields)
  next
    case (ok ob s4 H' F')
    then have "callback_frame s4 s4" by (simp add: callback_frame_def)
    from ok(10)[OF this] have "cache_ok no_callbacks 0xC0010000
        (upd_cache 0xC0010000 (used_update (\<lambda>u. u + 1)) s4) (F' - {ob}) {ob}"
      using ok(7) example_cache_ok by (auto simp: cache_ok_def upd_cache_def)
    then show ?thesis by blast
  qed
qed

text \<open>
  C12. Any number of allocations from a cache returns: each gives a null pointer or an object, the
  objects are distinct and none of them was in use before; freeing them all, in any order,
  returns too and leaves exactly the objects in use that were in use before.
\<close>

theorem kmem_objects_handed_out_once:
  assumes "cache_ok run c s F I"
  shows "\<exists>obs s1 F1. alloc_many (kmem_cache_alloc run c) n s = Some (obs, s1) \<and> length obs = n \<and>
    distinct (filter (\<lambda>ob. ob \<noteq> 0) obs) \<and> set (filter (\<lambda>ob. ob \<noteq> 0) obs) \<inter> I = {} \<and>
    cache_ok run c s1 F1 (I \<union> set (filter (\<lambda>ob. ob \<noteq> 0) obs)) \<and>
    (\<forall>obs'. mset obs' = mset (filter (\<lambda>ob. ob \<noteq> 0) obs) \<longrightarrow>
       (\<exists>s2 F2. free_many (kmem_cache_free run c) obs' s1 = Some s2 \<and> cache_ok run c s2 F2 I))"
proof -
  obtain obs s1 F1 where a: "alloc_many (kmem_cache_alloc run c) n s = Some (obs, s1)" "length obs = n"
    "distinct (filter (\<lambda>ob. ob \<noteq> 0) obs)" "set (filter (\<lambda>ob. ob \<noteq> 0) obs) \<inter> I = {}"
    "cache_ok run c s1 F1 (I \<union> set (filter (\<lambda>ob. ob \<noteq> 0) obs))"
    using kc.alloc_many_distinct[OF assms, of n] by blast
  have "\<exists>s2 F2. free_many (kmem_cache_free run c) obs' s1 = Some s2 \<and> cache_ok run c s2 F2 I"
    if m: "mset obs' = mset (filter (\<lambda>ob. ob \<noteq> 0) obs)" for obs'
  proof -
    have o: "distinct obs'" "set obs' = set (filter (\<lambda>ob. ob \<noteq> 0) obs)"
      using a(3) m mset_eq_imp_distinct_iff mset_eq_setD by blast+
    then have "I \<union> set (filter (\<lambda>ob. ob \<noteq> 0) obs) - set obs' = I" using a(4) by auto
    then show ?thesis using kc.free_many_ok[OF a(5) o(1)] o(2) by auto
  qed
  then show ?thesis using a by blast
qed

theorem kmem_objects_handed_out_once_witness:
  "\<exists>obs s1. alloc_many (kmem_cache_alloc no_callbacks 0xC0010000) 100 example_cache = Some (obs, s1) \<and>
     length obs = 100 \<and> distinct (filter (\<lambda>ob. ob \<noteq> 0) obs)"
  using kmem_objects_handed_out_once[OF example_cache_ok, of 100] by blast

text \<open>
  From a cache with a free object an allocation takes one of its free objects, and freeing
  that object puts the cache back to the free objects and the objects in use of before.
\<close>

theorem kmem_alloc_free_roundtrip:
  assumes "cache_ok run c s F I" and "F \<noteq> {}"
  shows "\<exists>ob s1 s2. kmem_cache_alloc run c s = Some (ob, s1) \<and> ob \<in> F \<and>
    cache_ok run c s1 (F - {ob}) (insert ob I) \<and>
    kmem_cache_free run c ob s1 = Some s2 \<and> cache_ok run c s2 F I"
  by (rule kc.alloc_free_roundtrip[OF assms]) blast

theorem kmem_alloc_free_roundtrip_witness:
  "\<exists>(s :: unit kmem_state) F ob s1 s2. kmem_cache_alloc no_callbacks 0xC0010000 s = Some (ob, s1) \<and> ob \<in> F \<and>
     kmem_cache_free no_callbacks 0xC0010000 ob s1 = Some s2 \<and> cache_ok no_callbacks 0xC0010000 s2 F {}"
proof -
  obtain ob F1 and s1 :: "unit kmem_state" where "cache_ok no_callbacks 0xC0010000 s1 F1 {ob}"
    using example_cache_stocked by blast
  then obtain s2 :: "unit kmem_state" where "cache_ok no_callbacks 0xC0010000 s2 (insert ob F1) {}"
    using cache_ok_free[of no_callbacks "0xC0010000" s1 F1 "{ob}" ob] by auto
  from kmem_alloc_free_roundtrip[OF this] show ?thesis by blast
qed



text \<open>
  C14. \<^verbatim>\<open>kmem_initialize_slab\<close> on a fresh page, for every object size that fits, returns and
  lists as many objects as fit: the objects lie in the page, after the header and the free
  list with its terminating null, and no two of them overlap.
\<close>

theorem slab_objects_fit:
  assumes "cache \<noteq> 0" "kc_cpu (km_cache s cache) \<noteq> 0" "objsize (km_cache s cache) = osize"
    and "osize \<noteq> 0" "unat osize \<le> 4072" "local_page_size (km_vm s) = Some 4096"
    and "n_pages (km_slab s (kaddr k)) = 1" "k < 262144"
  shows "\<exists>b. kmem_initialize_slab cache (kaddr k) s = Some (s\<lparr>km_slab := (km_slab s)(kaddr k := b)\<rparr>) \<and>
    0 < num_total b \<and> first_free b = 0 \<and> freelist b (unat (num_total b)) = 0 \<and>
    (\<forall>i < unat (num_total b).
       unat (kaddr k) + unat sizeof_kmem_slab + 4 * (unat (num_total b) + 1) \<le> unat (freelist b i) \<and>
       unat (freelist b i) + unat osize \<le> unat (kaddr k) + 4096 \<and>
       (\<forall>j < i. unat (freelist b j) + unat osize \<le> unat (freelist b i)))"
proof -
  obtain b where b: "kmem_initialize_slab cache (kaddr k) s = Some (s\<lparr>km_slab := (km_slab s)(kaddr k := b)\<rparr>)"
    "new_slab osize k b" using kmem_initialize_slab_ok[OF assms] by blast
  let ?N = "slab_elems (unat osize)" and ?o = "unat osize"
  have N: "unat (num_total b) = ?N" "0 < ?N" using b(2) slab_elems_pos[OF assms(5)] by (simp_all add: new_slab_def)
  have o: "0 < ?o" using assms(4) by (simp add: unat_gt_0)
  have fl: "unat (freelist b i) = 0xC0000000 + k * 4096 + (4096 - (?N - i) * ?o)" if "i < ?N" for i
    using slot_parts(3)[OF assms(8) _ _ assms(4), of "?N - i" 0] that b(2) o by (simp add: new_slab_def)
  have kk: "unat (kaddr k) = 0xC0000000 + k * 4096" using unat_kaddr[OF assms(8), of 0] by simp
  note bound = slab_layout_bound[OF o]
  have "unat (kaddr k) + unat sizeof_kmem_slab + 4 * (?N + 1) \<le> unat (freelist b i) \<and>
       unat (freelist b i) + ?o \<le> unat (kaddr k) + 4096 \<and>
       (\<forall>j < i. unat (freelist b j) + ?o \<le> unat (freelist b i))" if i: "i < ?N" for i
  proof (intro conjI allI impI)
    have "(?N - i) * ?o \<le> ?o * ?N" by (simp add: mult.commute)
    then have key: "16 + 4 * (?N + 1) + (?N - i) * ?o \<le> 4096" using bound by linarith
    show "unat (kaddr k) + unat sizeof_kmem_slab + 4 * (?N + 1) \<le> unat (freelist b i)"
      using key by (simp add: fl[OF i] kk sizeof_kmem_slab_def del: diff_mult_distrib2)
    show "unat (freelist b i) + ?o \<le> unat (kaddr k) + 4096"
      using slot_offset_bound(1)[OF o, of "?N - i"] i by (simp add: fl[OF i] kk)
    fix j assume j: "j < i"
    have "(?N - j) * ?o = (?N - i) * ?o + (i - j) * ?o" using i j by (simp add: distrib_right[symmetric])
    moreover have "?o \<le> (i - j) * ?o" using j by (cases "i - j") auto
    moreover have "(?N - j) * ?o \<le> 4096" using slot_offset_bound(2)[OF o, of "?N - j"] i j by linarith
    ultimately have "4096 - (?N - j) * ?o + ?o \<le> 4096 - (?N - i) * ?o" by linarith
    then show "unat (freelist b j) + ?o \<le> unat (freelist b i)"
      unfolding fl[OF i] fl[OF less_trans[OF j i]] by linarith
  qed
  moreover have "0 < num_total b" using N by (metis unat_gt_0 word_gt_0)
  ultimately show ?thesis using b N(1) by (intro exI[of _ b]) (simp add: new_slab_def)
qed

theorem slab_objects_fit_witness:
  "\<exists>b. kmem_initialize_slab 0xC0010000 (kaddr 5)
         (upd_slab (kaddr 5) (\<lambda>b. b\<lparr>n_pages := 1\<rparr>) example_cache) =
       Some ((upd_slab (kaddr 5) (\<lambda>b. b\<lparr>n_pages := 1\<rparr>) example_cache)
         \<lparr>km_slab := (km_slab (upd_slab (kaddr 5) (\<lambda>b. b\<lparr>n_pages := 1\<rparr>) example_cache))(kaddr 5 := b)\<rparr>) \<and>
     0 < num_total b"
proof -
  let ?s = "upd_slab (kaddr 5) (\<lambda>b. b\<lparr>n_pages := 1\<rparr>) example_cache"
  have s: "kc_cpu (km_cache ?s 0xC0010000) \<noteq> 0" "objsize (km_cache ?s 0xC0010000) = 100" "km_vm ?s = example_vm"
    "n_pages (km_slab ?s (kaddr 5)) = 1"
    by (simp_all add: example_cache_def common_kmem_cache_init_def Let_def upd_cache_def upd_slab_def MIN_CACHE_SIZE_def example_kmem_def)
  have "local_page_size (km_vm ?s) = Some 4096" using pm_ready_page_size[OF example_vm_pm_ready] by (simp add: s)
  from slab_objects_fit[of "0xC0010000" ?s 100 5, OF _ s(1,2) _ _ this s(4)] show ?thesis by auto
qed

text \<open>
  The eighth cache that \<^verbatim>\<open>kmem_alloc\<close> hands out after \<^verbatim>\<open>kmem_init\<close> is the last one of
  the array \<^verbatim>\<open>caches\<close>: a ninth call returns a pointer to the first byte behind the array.
\<close>

theorem kmem_alloc_leaves_array:
  "fst (kmem_alloc (((\<lambda>s. snd (kmem_alloc s)) ^^ NUM_CACHES) (kmem_init s))) =
     sym_caches s + of_nat NUM_CACHES * sizeof_kmem_cache"
proof -
  have "((\<lambda>s. snd (kmem_alloc s)) ^^ n) (kmem_init s) = s\<lparr>next_free_cache := of_nat n\<rparr>" for n
    by (induction n) (simp_all add: i686_kmem_init_def i686_kmem_cache_alloc_def add.commute)
  then show ?thesis by (simp add: i686_kmem_cache_alloc_def)
qed

end
