(* ===== verification/Address_Space.thy ===== *)
theory Address_Space
  imports Slab
begin

text \<open>
  Address spaces and memory regions: \<^verbatim>\<open>src/sys/common/address_space.c\<close>,
  \<^verbatim>\<open>src/sys/include/address_space.h\<close> and \<^verbatim>\<open>src/sys/i686/i686_address_space.c\<close>, as built for
  i686, where \<^verbatim>\<open>NO_W_X\<close> takes the check of writable and executable regions out.

  The objects live in slab caches.  They are records of the component \<open>km_ext\<close> of the kernel
  memory, by address; a record type that other components extend.  The lists of the regions of
  the address spaces are a store of link cells.  An object comes zeroed from its cache, so its
  constructor starts from the record of zeroes.
\<close>

section \<open>Data\<close>

datatype address_space_err_t = AS_SUCCESS | AS_NOTFOUND | AS_INVALID | AS_OOM | AS_USED

type_synonym mr_ptr = virtaddr_t
type_synonym as_ptr = virtaddr_t

text \<open>There is one table of functions for each of the two objects; zeroed memory has none.\<close>

datatype memory_region_vfuncs = I686_mr_vfuncs
datatype address_space_vfuncs = I686_as_vfuncs

record memory_region =
  mr_start :: virtaddr_t
  mr_length :: c_size_t
  mr_v :: "memory_region_vfuncs option"
  mr_writable :: bool
  mr_executable :: bool
  mr_copy_on_write :: bool

record address_space =
  as_v :: "address_space_vfuncs option"
  as_pd :: physaddr_t

definition sizeof_memory_region :: c_size_t where "sizeof_memory_region = 40"
definition sizeof_address_space :: c_size_t where "sizeof_address_space = 28"

definition zero_region :: memory_region where
  "zero_region = \<lparr>mr_start = 0, mr_length = 0, mr_v = None, mr_writable = False,
     mr_executable = False, mr_copy_on_write = False\<rparr>"

definition zero_space :: address_space where
  "zero_space = \<lparr>as_v = None, as_pd = 0\<rparr>"

record as_data =
  as_cache :: cache_ptr
  mr_cache :: cache_ptr
  as_obj :: "as_ptr \<Rightarrow> address_space"
  mr_obj :: "mr_ptr \<Rightarrow> memory_region"
  as_regions :: "(as_ptr, mr_ptr) list_store"

type_synonym 'y as_state = "'y as_data_scheme kmem_state"

definition upd_ext :: "('x \<Rightarrow> 'x) \<Rightarrow> 'x kmem_state \<Rightarrow> 'x kmem_state" where
  "upd_ext f s = s\<lparr>km_ext := f (km_ext s)\<rparr>"

definition upd_mr :: "mr_ptr \<Rightarrow> (memory_region \<Rightarrow> memory_region) \<Rightarrow> 'y as_state \<Rightarrow> 'y as_state" where
  "upd_mr p f = upd_ext (\<lambda>x. x\<lparr>mr_obj := (mr_obj x)(p := f (mr_obj x p))\<rparr>)"

definition upd_as :: "as_ptr \<Rightarrow> (address_space \<Rightarrow> address_space) \<Rightarrow> 'y as_state \<Rightarrow> 'y as_state" where
  "upd_as p f = upd_ext (\<lambda>x. x\<lparr>as_obj := (as_obj x)(p := f (as_obj x p))\<rparr>)"

section \<open>Regions\<close>

text \<open>The comparisons return -1, 1 or 0.\<close>

definition memory_region_compare_to_location :: "memory_region \<Rightarrow> virtaddr_t \<Rightarrow> int" where
  "memory_region_compare_to_location mr addr =
     (if addr < mr_start mr then -1
      else if mr_start mr + mr_length mr \<le> addr then 1
      else 0)"

definition memory_region_compare_to_region :: "memory_region \<Rightarrow> memory_region \<Rightarrow> int" where
  "memory_region_compare_to_region mr other =
     (if mr_start other + mr_length other \<le> mr_start mr then -1
      else if mr_start mr + mr_length mr \<le> mr_start other then 1
      else 0)"

definition memory_region_available_in_address_space :: "as_ptr \<Rightarrow> mr_ptr \<Rightarrow> 'y as_state \<Rightarrow> bool option" where
  "memory_region_available_in_address_space a mr s = do {
     m \<leftarrow> LIST_FOREACH_find
            (\<lambda>m. memory_region_compare_to_region (mr_obj (km_ext s) mr) (mr_obj (km_ext s) m) = 0)
            (LIST_FIRST a (as_regions (km_ext s))) (as_regions (km_ext s));
     Some (m = None)
   }"

definition common_memory_region_set_location ::
  "mr_ptr \<Rightarrow> virtaddr_t \<Rightarrow> c_size_t \<Rightarrow> 'y as_state \<Rightarrow> address_space_err_t \<times> 'y as_state" where
  "common_memory_region_set_location mr start len s =
     (if mr = 0 then (AS_INVALID, s)
      else (AS_SUCCESS, upd_mr mr (\<lambda>r. r\<lparr>mr_start := start, mr_length := len\<rparr>) s))"

text \<open>The flags are one-bit fields: they keep the lowest bit of the argument.\<close>

definition common_memory_region_set_flags ::
  "mr_ptr \<Rightarrow> u32 \<Rightarrow> u32 \<Rightarrow> 'y as_state \<Rightarrow> address_space_err_t \<times> 'y as_state" where
  "common_memory_region_set_flags mr writable executable s =
     (if mr = 0 then (AS_INVALID, s)
      else (AS_SUCCESS, upd_mr mr (\<lambda>r. r\<lparr>mr_writable := bit writable 0, mr_executable := bit executable 0\<rparr>) s))"

text \<open>Not implemented: these stop at an assertion.\<close>

definition common_memory_region_clone ::
  "as_ptr \<Rightarrow> mr_ptr \<Rightarrow> mr_ptr \<Rightarrow> u32 \<Rightarrow> 'y as_state \<Rightarrow> (address_space_err_t \<times> 'y as_state) option" where
  "common_memory_region_clone a dst src cow s = do { c_assert False; Some (AS_SUCCESS, s) }"

definition common_memory_region_cow_fault :: "mr_ptr \<Rightarrow> u32 \<Rightarrow> 'y as_state \<Rightarrow> 'y as_state option" where
  "common_memory_region_cow_fault mr location s = do { c_assert False; Some s }"

definition common_memory_region_fault :: "mr_ptr \<Rightarrow> u32 \<Rightarrow> 'y as_state \<Rightarrow> 'y as_state option" where
  "common_memory_region_fault mr location s = do { c_assert False; Some s }"

definition common_address_space_destroy ::
  "as_ptr \<Rightarrow> 'y as_state \<Rightarrow> (address_space_err_t \<times> 'y as_state) option" where
  "common_address_space_destroy a s = do { c_assert False; Some (AS_SUCCESS, s) }"

section \<open>Mapping\<close>

text \<open>The loops run \<^verbatim>\<open>n_pages\<close> times.\<close>

primrec map_exact_loop ::
  "nat \<Rightarrow> physaddr_t \<Rightarrow> virtaddr_t \<Rightarrow> physaddr_t \<Rightarrow> u32 \<Rightarrow> u32 \<Rightarrow> vm_state \<Rightarrow> vm_state option" where
  "map_exact_loop 0 pd cur p pgsize flags vm = Some vm"
| "map_exact_loop (Suc n) pd cur p pgsize flags vm = do {
     (_, vm1) \<leftarrow> virtmem_user_map_page pd cur p vm;
     (_, vm2) \<leftarrow> virtmem_user_set_page_flags pd cur flags vm1;
     map_exact_loop n pd (cur + pgsize) (p + pgsize) pgsize flags vm2
   }"

definition memory_region_map_exact ::
  "physaddr_t \<Rightarrow> virtaddr_t \<Rightarrow> physaddr_t \<Rightarrow> c_size_t \<Rightarrow> u32 \<Rightarrow> vm_state \<Rightarrow>
   (address_space_err_t \<times> vm_state) option" where
  "memory_region_map_exact pd vstart pstart npages flags vm = do {
     pgsize \<leftarrow> local_page_size vm;
     vm1 \<leftarrow> map_exact_loop (unat npages) pd vstart pstart pgsize flags vm;
     Some (AS_SUCCESS, vm1)
   }"

text \<open>\<^verbatim>\<open>p\<close> is not initialised: a walk that fails in the first round leaves it without a value, a
  later one leaves the value of the round before.\<close>

primrec map_allocate_loop ::
  "nat \<Rightarrow> physaddr_t \<Rightarrow> virtaddr_t \<Rightarrow> u32 \<Rightarrow> u32 \<Rightarrow> physaddr_t option \<Rightarrow> vm_state \<Rightarrow>
   (address_space_err_t \<times> vm_state) option" where
  "map_allocate_loop 0 pd cur pgsize flags p0 vm = Some (AS_SUCCESS, vm)"
| "map_allocate_loop (Suc n) pd cur pgsize flags p0 vm = do {
     ((_, out), vm1) \<leftarrow> virtmem_user_get_page pd cur vm;
     p \<leftarrow> (case out of Some q \<Rightarrow> Some q | None \<Rightarrow> p0);
     if p = 0 then do {
       ((perr, pa), vm2) \<leftarrow> local_page_alloc vm1;
       if perr \<noteq> PHYSMEM_SUCCESS then Some (AS_OOM, vm2)
       else do {
         q \<leftarrow> pa;
         (_, vm3) \<leftarrow> virtmem_user_map_page pd cur q vm2;
         (_, vm4) \<leftarrow> virtmem_user_set_page_flags pd cur flags vm3;
         map_allocate_loop n pd (cur + pgsize) pgsize flags (Some q) vm4
       }
     }
     else do {
       (_, vm2) \<leftarrow> virtmem_user_set_page_flags pd cur flags vm1;
       map_allocate_loop n pd (cur + pgsize) pgsize flags (Some p) vm2
     }
   }"

definition memory_region_map_allocate ::
  "physaddr_t \<Rightarrow> virtaddr_t \<Rightarrow> c_size_t \<Rightarrow> u32 \<Rightarrow> vm_state \<Rightarrow> (address_space_err_t \<times> vm_state) option" where
  "memory_region_map_allocate pd vstart npages flags vm = do {
     pgsize \<leftarrow> local_page_size vm;
     map_allocate_loop (unat npages) pd vstart pgsize flags None vm
   }"

definition region_page_flags :: "memory_region \<Rightarrow> u32" where
  "region_page_flags mr =
     VIRTMEM_PAGE_READABLE OR (if mr_writable mr then VIRTMEM_PAGE_WRITABLE else 0) OR
     (if mr_executable mr then VIRTMEM_PAGE_EXECUTABLE else 0)"

definition common_memory_region_map ::
  "as_ptr \<Rightarrow> mr_ptr \<Rightarrow> physaddr_t \<Rightarrow> 'y as_state \<Rightarrow> (address_space_err_t \<times> 'y as_state) option" where
  "common_memory_region_map a p paddr s = do {
     pgsize \<leftarrow> local_page_size (km_vm s);
     let mr = mr_obj (km_ext s) p;
     c_assert (mr_start mr mod pgsize = 0);
     c_assert (mr_length mr mod pgsize = 0);
     c_assert (paddr = 0 \<or> paddr mod pgsize = 0);
     let npages = mr_length mr div pgsize;
     let page_flags = region_page_flags mr;
     (r, vm) \<leftarrow>
       (if paddr = 0
        then memory_region_map_allocate (as_pd (as_obj (km_ext s) a)) (mr_start mr) npages page_flags (km_vm s)
        else memory_region_map_exact (as_pd (as_obj (km_ext s) a)) (mr_start mr) paddr npages page_flags (km_vm s));
     Some (r, s\<lparr>km_vm := vm\<rparr>)
   }"

section \<open>Address spaces\<close>

text \<open>The region is an out parameter: \<open>out\<close> says whether its pointer is given.\<close>

definition common_address_space_get_region ::
  "as_ptr \<Rightarrow> bool \<Rightarrow> virtaddr_t \<Rightarrow> 'y as_state \<Rightarrow> (address_space_err_t \<times> mr_ptr option) option" where
  "common_address_space_get_region a out loc s =
     (if \<not> out then Some (AS_INVALID, None)
      else if a = 0 then Some (AS_INVALID, Some 0)
      else do {
        i \<leftarrow> LIST_FOREACH_find (\<lambda>i. memory_region_compare_to_location (mr_obj (km_ext s) i) loc = 0)
               (LIST_FIRST a (as_regions (km_ext s))) (as_regions (km_ext s));
        case i of Some m \<Rightarrow> Some (AS_SUCCESS, Some m) | None \<Rightarrow> Some (AS_NOTFOUND, Some 0)
      })"

definition memory_region_set_location ::
  "mr_ptr \<Rightarrow> virtaddr_t \<Rightarrow> c_size_t \<Rightarrow> 'y as_state \<Rightarrow> (address_space_err_t \<times> 'y as_state) option" where
  "memory_region_set_location mr start len s = do {
     c_assert (mr \<noteq> 0);
     _ \<leftarrow> mr_v (mr_obj (km_ext s) mr);
     Some (common_memory_region_set_location mr start len s)
   }"

definition memory_region_set_flags ::
  "mr_ptr \<Rightarrow> u32 \<Rightarrow> u32 \<Rightarrow> 'y as_state \<Rightarrow> (address_space_err_t \<times> 'y as_state) option" where
  "memory_region_set_flags mr w e s = do {
     c_assert (mr \<noteq> 0);
     _ \<leftarrow> mr_v (mr_obj (km_ext s) mr);
     Some (common_memory_region_set_flags mr w e s)
   }"

text \<open>\<^verbatim>\<open>(long)start % pgsize\<close> is a signed remainder.\<close>

definition common_address_space_init_region ::
  "as_ptr \<Rightarrow> mr_ptr \<Rightarrow> virtaddr_t \<Rightarrow> c_size_t \<Rightarrow> 'y as_state \<Rightarrow> (address_space_err_t \<times> 'y as_state) option" where
  "common_address_space_init_region a mr start0 len0 s =
     (if start0 = 0 then Some (AS_INVALID, s)
      else do {
        pgsize \<leftarrow> local_page_size (km_vm s);
        let start = start0 - c_srem start0 pgsize;
        let len = (len0 + pgsize - 1) div pgsize * pgsize;
        (r, s1) \<leftarrow> memory_region_set_location mr start len s;
        if r \<noteq> AS_SUCCESS then Some (AS_INVALID, s1)
        else do {
          ok \<leftarrow> memory_region_available_in_address_space a mr s1;
          if \<not> ok then Some (AS_USED, s1)
          else do {
            let s2 = upd_ext (\<lambda>x. x\<lparr>as_regions := LIST_INSERT_HEAD a mr (as_regions x)\<rparr>) s1;
            Some (AS_SUCCESS, s2)
          }
        }
      })"

definition address_space_init_region ::
  "as_ptr \<Rightarrow> mr_ptr \<Rightarrow> virtaddr_t \<Rightarrow> c_size_t \<Rightarrow> 'y as_state \<Rightarrow> (address_space_err_t \<times> 'y as_state) option" where
  "address_space_init_region a mr start len s = do {
     c_assert (a \<noteq> 0);
     _ \<leftarrow> as_v (as_obj (km_ext s) a);
     common_address_space_init_region a mr start len s
   }"

definition memory_region_map ::
  "as_ptr \<Rightarrow> mr_ptr \<Rightarrow> physaddr_t \<Rightarrow> 'y as_state \<Rightarrow> (address_space_err_t \<times> 'y as_state) option" where
  "memory_region_map a mr p s = do {
     c_assert (a \<noteq> 0);
     _ \<leftarrow> as_v (as_obj (km_ext s) a);
     common_memory_region_map a mr p s
   }"

section \<open>Allocation\<close>

text \<open>The tests for a failed allocation look at the address of the out parameter, which is never
  null: they are not taken.\<close>

definition memory_region_alloc ::
  "'y as_data_scheme kmem_run \<Rightarrow> 'y as_state \<Rightarrow> ((address_space_err_t \<times> mr_ptr) \<times> 'y as_state) option" where
  "memory_region_alloc run s = do {
     (mr, s1) \<leftarrow> kmem_cache_alloc run (mr_cache (km_ext s)) s;
     Some ((AS_SUCCESS, mr), s1)
   }"

definition memory_region_free ::
  "'y as_data_scheme kmem_run \<Rightarrow> mr_ptr \<Rightarrow> 'y as_state \<Rightarrow> (address_space_err_t \<times> 'y as_state) option" where
  "memory_region_free run mr s = do {
     s1 \<leftarrow> kmem_cache_free run (mr_cache (km_ext s)) mr s;
     Some (AS_SUCCESS, s1)
   }"

definition address_space_free ::
  "'y as_data_scheme kmem_run \<Rightarrow> as_ptr \<Rightarrow> 'y as_state \<Rightarrow> (address_space_err_t \<times> 'y as_state) option" where
  "address_space_free run a s = do {
     s1 \<leftarrow> kmem_cache_free run (as_cache (km_ext s)) a s;
     Some (AS_SUCCESS, s1)
   }"

definition address_space_alloc ::
  "'y as_data_scheme kmem_run \<Rightarrow> 'y as_state \<Rightarrow> ((address_space_err_t \<times> as_ptr) \<times> 'y as_state) option" where
  "address_space_alloc run s = do {
     (a, s1) \<leftarrow> kmem_cache_alloc run (as_cache (km_ext s)) s;
     c_assert (a \<noteq> 0);
     let s2 = upd_ext (\<lambda>x. x\<lparr>as_regions := LIST_INIT a (as_regions x)\<rparr>) s1;
     (_, vm) \<leftarrow> virtmem_user_setup_kernelspace (as_pd (as_obj (km_ext s2) a)) (km_vm s2);
     Some ((AS_SUCCESS, a), s2\<lparr>km_vm := vm\<rparr>)
   }"

definition address_space_init ::
  "kmem_cache_fn option \<Rightarrow> kmem_cache_fn option \<Rightarrow> kmem_cache_fn option \<Rightarrow> kmem_cache_fn option \<Rightarrow>
   u32 \<Rightarrow> 'y as_state \<Rightarrow> 'y as_state" where
  "address_space_init as_ctor mr_ctor as_dtor mr_dtor bsp s =
     (let (ac, s1) = kmem_alloc s;
          s2 = upd_ext (\<lambda>x. x\<lparr>as_cache := ac\<rparr>) s1;
          (mc, s3) = kmem_alloc s2;
          s4 = upd_ext (\<lambda>x. x\<lparr>mr_cache := mc\<rparr>) s3;
          (_, s5) = kmem_cache_init ac bsp ''address_space'' sizeof_address_space as_ctor as_dtor s4;
          (_, s6) = kmem_cache_init mc bsp ''memory_region'' sizeof_memory_region mr_ctor mr_dtor s5
      in s6)"

section \<open>Constructors\<close>

text \<open>Without a page for the directory \<^verbatim>\<open>p\<close> has no value; without a kernel page the directory is
  not wiped.\<close>

definition i686_address_space_ctor :: "as_ptr \<Rightarrow> 'y as_state \<Rightarrow> 'y as_state option" where
  "i686_address_space_ctor a s = do {
     let s1 = upd_as a (\<lambda>_. zero_space\<lparr>as_v := Some I686_as_vfuncs\<rparr>) s;
     ((_, pa), vm1) \<leftarrow> local_page_alloc (km_vm s1);
     p \<leftarrow> pa;
     let s2 = upd_as a (\<lambda>b. b\<lparr>as_pd := p\<rparr>) (s1\<lparr>km_vm := vm1\<rparr>);
     ((verr, va), vm2) \<leftarrow> virtmem_kernel_alloc 1 (km_vm s2);
     if verr \<noteq> VIRTMEM_SUCCESS then Some (s2\<lparr>km_vm := vm2\<rparr>)
     else do {
       vaddr \<leftarrow> va;
       (_, vm3) \<leftarrow> virtmem_kernel_map_virt_to_phys p vaddr vm2;
       psize \<leftarrow> local_page_size vm3;
       (_, vm4) \<leftarrow> memset vm_st vaddr 0 psize vm3;
       let (_, vm5) = virtmem_kernel_free vaddr vm4;
       Some (s2\<lparr>km_vm := vm5\<rparr>)
     }
   }"

definition i686_address_space_dtor :: "as_ptr \<Rightarrow> 'y as_state \<Rightarrow> 'y as_state option" where
  "i686_address_space_dtor a s = do {
     (_, vm) \<leftarrow> local_page_free (as_pd (as_obj (km_ext s) a)) (km_vm s);
     Some (s\<lparr>km_vm := vm\<rparr>)
   }"

definition i686_memory_region_ctor :: "mr_ptr \<Rightarrow> 'y as_state \<Rightarrow> 'y as_state option" where
  "i686_memory_region_ctor mr s = Some (upd_mr mr (\<lambda>_. zero_region\<lparr>mr_v := Some I686_mr_vfuncs\<rparr>) s)"

definition i686_address_space_init :: "u32 \<Rightarrow> 'y as_state \<Rightarrow> 'y as_state" where
  "i686_address_space_init =
     address_space_init (Some I686_address_space_ctor) (Some I686_memory_region_ctor)
       (Some I686_address_space_dtor) None"

text \<open>The calls through the function pointers of the caches; the constructor of threads is in the
  scheduler.\<close>

fun as_run ::
  "(virtaddr_t \<Rightarrow> 'y as_state \<Rightarrow> 'y as_state option) \<Rightarrow> 'y as_data_scheme kmem_run" where
  "as_run thread_ctor I686_address_space_ctor = i686_address_space_ctor"
| "as_run thread_ctor I686_address_space_dtor = i686_address_space_dtor"
| "as_run thread_ctor I686_memory_region_ctor = i686_memory_region_ctor"
| "as_run thread_ctor I686_init_thread_vfuncs = thread_ctor"

section \<open>Regions as intervals\<close>

definition extent :: "memory_region \<Rightarrow> nat set" where
  "extent mr = {unat (mr_start mr) ..< unat (mr_start mr) + unat (mr_length mr)}"

definition good_region :: "memory_region \<Rightarrow> bool" where
  "good_region mr \<longleftrightarrow>
     unat (mr_start mr) mod 4096 = 0 \<and> unat (mr_length mr) mod 4096 = 0 \<and> 0 < unat (mr_length mr) \<and>
     unat (mr_start mr) + unat (mr_length mr) < 2 ^ 32"

lemma region_end:
  assumes "good_region mr"
  shows "unat (mr_start mr + mr_length mr) = unat (mr_start mr) + unat (mr_length mr)"
  using assms by (simp add: good_region_def unat_word_ariths(1))

lemma compare_to_location_extent:
  assumes "good_region mr"
  shows "memory_region_compare_to_location mr a = 0 \<longleftrightarrow> unat a \<in> extent mr"
  using region_end[OF assms]
  by (auto simp: memory_region_compare_to_location_def extent_def word_less_nat_alt word_le_nat_alt)

lemma compare_to_region_extent:
  assumes "good_region mr" "good_region other"
  shows "memory_region_compare_to_region mr other = 0 \<longleftrightarrow> extent mr \<inter> extent other \<noteq> {}"
proof -
  have pos: "0 < unat (mr_length mr)" "0 < unat (mr_length other)" using assms by (simp_all add: good_region_def)
  let ?a = "unat (mr_start mr)" and ?b = "unat (mr_start other)"
  have "extent mr \<inter> extent other \<noteq> {} \<longleftrightarrow>
      \<not> ?b + unat (mr_length other) \<le> ?a \<and> \<not> ?a + unat (mr_length mr) \<le> ?b"
  proof
    assume "\<not> ?b + unat (mr_length other) \<le> ?a \<and> \<not> ?a + unat (mr_length mr) \<le> ?b"
    then have "max ?a ?b \<in> extent mr \<inter> extent other" using pos by (auto simp: extent_def max_def)
    then show "extent mr \<inter> extent other \<noteq> {}" by blast
  qed (auto simp: extent_def)
  then show ?thesis
    using region_end[OF assms(1)] region_end[OF assms(2)]
    by (auto simp: memory_region_compare_to_region_def word_le_nat_alt)
qed

section \<open>The invariant of the address spaces\<close>

definition spaces_inv :: "'y as_state \<Rightarrow> (as_ptr \<Rightarrow> mr_ptr list) \<Rightarrow> bool" where
  "spaces_inv s H \<longleftrightarrow>
     linked (as_regions (km_ext s)) H \<and>
     (\<forall>a. \<forall>m\<in>set (H a). good_region (mr_obj (km_ext s) m)) \<and>
     (\<forall>a. \<forall>m\<in>set (H a). \<forall>m'\<in>set (H a). m \<noteq> m' \<longrightarrow>
        extent (mr_obj (km_ext s) m) \<inter> extent (mr_obj (km_ext s) m') = {})"

lemma spaces_invD:
  assumes "spaces_inv s H"
  shows "linked (as_regions (km_ext s)) H" and "m \<in> set (H a) \<Longrightarrow> good_region (mr_obj (km_ext s) m)"
    and "m \<in> set (H a) \<Longrightarrow> m' \<in> set (H a) \<Longrightarrow> m \<noteq> m' \<Longrightarrow>
      extent (mr_obj (km_ext s) m) \<inter> extent (mr_obj (km_ext s) m') = {}"
  using assms unfolding spaces_inv_def by blast+

text \<open>What a region becomes.\<close>

definition placed :: "virtaddr_t \<Rightarrow> c_size_t \<Rightarrow> memory_region \<Rightarrow> memory_region" where
  "placed start len r = r\<lparr>mr_start := start - c_srem start 4096, mr_length := (len + 4096 - 1) div 4096 * 4096\<rparr>"

lemma smod_nonneg: "0 \<le> (a :: int) \<Longrightarrow> 0 < b \<Longrightarrow> a smod b = a mod b"
  by (cases "a = 0") (simp_all add: signed_modulo_int_def signed_divide_int_def minus_div_mult_eq_mod)

lemma smod_neg: "(a :: int) < 0 \<Longrightarrow> 0 < b \<Longrightarrow> a smod b = - (- a mod b)"
  by (simp add: signed_modulo_int_def signed_divide_int_def minus_mult_div_eq_mod[symmetric] algebra_simps)

lemma c_srem_low:
  assumes "unat start < 2 ^ 31"
  shows "start - c_srem start 4096 = of_nat (unat start div 4096 * 4096)"
proof -
  have "sint start = int (unat start)" by (rule sint_small[OF assms])
  then have "sint start smod 4096 = int (unat start mod 4096)" by (simp add: smod_nonneg zmod_int)
  then have "c_srem start 4096 = of_nat (unat start mod 4096)"
    by (simp add: c_srem_def word_of_int_nat del: of_nat_mod)
  moreover have "of_nat (unat start div 4096 * 4096 + unat start mod 4096) = start"
    by (simp only: div_mult_mod_eq) simp
  then have "start = of_nat (unat start div 4096 * 4096) + of_nat (unat start mod 4096)"
    by (simp only: of_nat_add)
  ultimately show ?thesis by (metis add_diff_cancel_right')
qed

lemma placed_extent:
  assumes "unat start < 2 ^ 31" "0 < unat len" "unat len \<le> 2 ^ 31"
  shows "extent (placed start len r) =
      {unat start div 4096 * 4096 ..< unat start div 4096 * 4096 + (unat len + 4095) div 4096 * 4096}"
    and "unat start div 4096 * 4096 + (unat len + 4095) div 4096 * 4096 < 2 ^ 32 \<Longrightarrow> good_region (placed start len r)"
proof -
  have "unat start div 4096 * 4096 \<le> unat start" by simp
  then have st: "unat (mr_start (placed start len r)) = unat start div 4096 * 4096"
    using assms(1) unat_of_nat[where 'a = 32, of "unat start div 4096 * 4096"]
    by (simp add: placed_def c_srem_low[OF assms(1)] del: of_nat_mult)
  have "unat (len + 4096 - 1) = unat len + 4095" using assms(3) by (simp add: unat_word_ariths(1))
  then have d: "unat ((len + 4096 - 1) div 4096) = (unat len + 4095) div 4096" by (simp only: unat_div_distrib) simp
  moreover have "(unat len + 4095) div 4096 * 4096 < 2 ^ 32" using assms(3) by simp
  ultimately have ln: "unat (mr_length (placed start len r)) = (unat len + 4095) div 4096 * 4096"
    by (simp add: placed_def unat_word_ariths(2))
  show "extent (placed start len r) =
      {unat start div 4096 * 4096 ..< unat start div 4096 * 4096 + (unat len + 4095) div 4096 * 4096}"
    by (simp only: extent_def st ln)
  have "0 < (unat len + 4095) div 4096" using assms(2) by (simp add: div_greater_zero_iff)
  then show "unat start div 4096 * 4096 + (unat len + 4095) div 4096 * 4096 < 2 ^ 32 \<Longrightarrow> good_region (placed start len r)"
    unfolding good_region_def st ln by simp
qed

lemma available_extents:
  assumes inv: "spaces_inv s H" and mr: "good_region (mr_obj (km_ext s) mr)"
  shows "memory_region_available_in_address_space a mr s =
    Some (\<forall>m\<in>set (H a). extent (mr_obj (km_ext s) mr) \<inter> extent (mr_obj (km_ext s) m) = {})"
proof -
  let ?P = "\<lambda>m. memory_region_compare_to_region (mr_obj (km_ext s) mr) (mr_obj (km_ext s) m) = 0"
  have "(List.find ?P (H a) = None) \<longleftrightarrow> (\<forall>m\<in>set (H a). \<not> ?P m)" by (auto simp: find_None_iff)
  also have "\<dots> \<longleftrightarrow> (\<forall>m\<in>set (H a). extent (mr_obj (km_ext s) mr) \<inter> extent (mr_obj (km_ext s) m) = {})"
    using compare_to_region_extent[OF mr] spaces_invD(2)[OF inv] by blast
  finally show ?thesis
    using LIST_FOREACH_find_linked[OF spaces_invD(1)[OF inv], of ?P a]
    by (simp add: memory_region_available_in_address_space_def)
qed

text \<open>A region that is in no list may change.\<close>

lemma spaces_inv_upd_mr:
  assumes "spaces_inv s H" "mr \<notin> members H"
  shows "spaces_inv (upd_mr mr f s) H"
proof -
  have ne: "m \<in> set (H a) \<Longrightarrow> m \<noteq> mr" for m a using assms(2) by (auto simp: members_iff)
  then show ?thesis using assms(1) unfolding spaces_inv_def
    by (auto simp: upd_mr_def upd_ext_def)
qed

text \<open>The effect of \<^verbatim>\<open>init_region\<close> on a region that is in no list.\<close>

lemma init_region_steps:
  assumes inv: "spaces_inv s H" and new: "mr \<notin> members H" "mr \<noteq> 0" "mr_v (mr_obj (km_ext s) mr) \<noteq> None"
    and a: "a \<noteq> 0" "as_v (as_obj (km_ext s) a) \<noteq> None" and ps: "local_page_size (km_vm s) = Some 4096"
    and pos: "start \<noteq> 0" and good: "good_region (placed start len (mr_obj (km_ext s) mr))"
  defines "free \<equiv> \<forall>m\<in>set (H a). extent (placed start len (mr_obj (km_ext s) mr)) \<inter> extent (mr_obj (km_ext s) m) = {}"
    and "s1 \<equiv> upd_mr mr (placed start len) s"
  shows "address_space_init_region a mr start len s =
      Some (if free then (AS_SUCCESS, upd_ext (\<lambda>x. x\<lparr>as_regions := LIST_INSERT_HEAD a mr (as_regions x)\<rparr>) s1)
            else (AS_USED, s1))"
    and "free \<Longrightarrow> spaces_inv (upd_ext (\<lambda>x. x\<lparr>as_regions := LIST_INSERT_HEAD a mr (as_regions x)\<rparr>) s1)
      (H(a := mr # H a))"
    and "spaces_inv s1 H"
proof -
  have ne: "m \<in> set (H b) \<Longrightarrow> m \<noteq> mr" for m b using new(1) by (auto simp: members_iff)
  show inv1: "spaces_inv s1 H" unfolding s1_def by (rule spaces_inv_upd_mr[OF inv new(1)])
  have obj: "mr_obj (km_ext s1) = (mr_obj (km_ext s))(mr := placed start len (mr_obj (km_ext s) mr))"
    by (simp add: s1_def upd_mr_def upd_ext_def)
  have "memory_region_available_in_address_space a mr s1 =
      Some (\<forall>m\<in>set (H a). extent (mr_obj (km_ext s1) mr) \<inter> extent (mr_obj (km_ext s1) m) = {})"
    by (rule available_extents[OF inv1]) (simp add: obj good)
  also have "(\<forall>m\<in>set (H a). extent (mr_obj (km_ext s1) mr) \<inter> extent (mr_obj (km_ext s1) m) = {}) = free"
    using ne by (auto simp: obj free_def)
  finally have av: "memory_region_available_in_address_space a mr s1 = Some free" .
  have "common_memory_region_set_location mr (start - c_srem start 4096) ((len + 4096 - 1) div 4096 * 4096) s = (AS_SUCCESS, s1)"
    using new(2) by (simp add: common_memory_region_set_location_def s1_def placed_def[abs_def])
  then show "address_space_init_region a mr start len s =
      Some (if free then (AS_SUCCESS, upd_ext (\<lambda>x. x\<lparr>as_regions := LIST_INSERT_HEAD a mr (as_regions x)\<rparr>) s1)
            else (AS_USED, s1))"
    using av new(2,3) a ps pos
    by (auto simp: address_space_init_region_def common_address_space_init_region_def
        memory_region_set_location_def Let_def)
  assume fr: free
  have "linked (LIST_INSERT_HEAD a mr (as_regions (km_ext s1))) (H(a := mr # H a))"
    by (rule dl.insert_rep[OF spaces_invD(1)[OF inv1] new(1)])
  then show "spaces_inv (upd_ext (\<lambda>x. x\<lparr>as_regions := LIST_INSERT_HEAD a mr (as_regions x)\<rparr>) s1) (H(a := mr # H a))"
    using inv1 fr good ne unfolding spaces_inv_def free_def
    by (simp add: upd_ext_def obj Int_commute)
qed

lemma init_region_placed:
  assumes "address_space_init_region a mr start len s = Some (r, s')" "start \<noteq> 0"
    and "local_page_size (km_vm s) = Some 4096"
  shows "mr_obj (km_ext s') mr = placed start len (mr_obj (km_ext s) mr)"
  using assms
  by (auto simp: address_space_init_region_def common_address_space_init_region_def bind_eq_Some_conv
      memory_region_set_location_def common_memory_region_set_location_def Let_def upd_mr_def
      upd_ext_def placed_def split: if_splits prod.splits)

lemma sint_large:
  assumes "2 ^ 31 \<le> unat (w :: u32)"
  shows "sint w = int (unat w) - 2 ^ 32"
proof -
  let ?k = "uint w - 2 ^ 32"
  have "take_bit 32 ?k = take_bit 32 (uint w)" by (simp add: take_bit_eq_mod)
  then have "signed_take_bit 31 ?k = signed_take_bit 31 (uint w)"
    by (simp add: signed_take_bit_eq_iff_take_bit_eq)
  moreover have "signed_take_bit 31 ?k = ?k"
  proof (rule signed_take_bit_int_eq_self)
    have "int (2 ^ 31) \<le> int (unat w)" using assms by (simp only: of_nat_le_iff)
    then have "2 ^ 31 \<le> uint w" by simp
    then show "- (2 ^ 31) \<le> ?k" by simp
    have "uint w < 2 ^ 32" using unsigned_less[of w, where ?'a = int] by simp
    then show "?k < 2 ^ 31" by simp
  qed
  ultimately show ?thesis by (simp add: sint_uint)
qed

lemma placed_high:
  assumes "2 ^ 31 \<le> unat start" "unat start mod 4096 \<noteq> 0" "unat start < 2 ^ 32 - 4096"
  shows "unat (mr_start (placed start len r)) = (unat start div 4096 + 1) * 4096"
proof -
  let ?n = "unat start" and ?d = "4096 - unat start mod 4096"
  have si: "sint start = int ?n - 2 ^ 32" by (rule sint_large[OF assms(1)])
  have neg: "sint start < 0" using unsigned_less[of start, where ?'a = int] by (simp add: si)
  have "- sint start mod 4096 = (- int ?n) mod 4096"
    unfolding si using mod_add_self2[of "- int ?n" 4096] by (simp add: mod_diff_eq[symmetric] mod_minus_eq)
  also have "\<dots> = int ?d"
    unfolding zmod_zminus1_eq_if zmod_int[symmetric, of _ 4096, simplified] using assms(2) by (simp add: of_nat_diff)
  finally have "c_srem start 4096 = - of_nat ?d"
    by (simp add: c_srem_def smod_neg[OF neg])
  then have "mr_start (placed start len r) = of_nat (?n + ?d)" by (simp add: placed_def)
  moreover have nd: "?n + ?d = (?n div 4096 + 1) * 4096"
  proof -
    have "n = q * 4096 + m \<Longrightarrow> m < 4096 \<Longrightarrow> n + (4096 - m) = (q + 1) * 4096" for n m q :: nat by simp
    from this[of ?n "?n div 4096" "?n mod 4096"] show ?thesis by (metis div_mult_mod_eq mod_less_divisor zero_less_numeral)
  qed
  moreover have "?n + ?d < 2 ^ 32" using assms(2,3) by simp
  ultimately show ?thesis by (simp only: unat_of_nat) simp
qed

section \<open>Mapping a region to given frames\<close>

text \<open>With the page table in place, an operation on a page leaves the directory and the page
  allocator as they are.\<close>

definition same_tables :: "physaddr_t \<Rightarrow> vm_state \<Rightarrow> vm_state \<Rightarrow> bool" where
  "same_tables pd s s' \<longleftrightarrow> user_pde (pmem s') pd = user_pde (pmem s) pd \<and> vm_pm s' = vm_pm s"

lemma walk_present:
  assumes "can_walk s pd va" "pd_present (user_pde (pmem s) pd va)"
  obtains f where "walk_ready s pd va" "walk_to s pd va f (pmem s) (vm_pm s)" "wf_pd (pmem s) pd"
    "f = pd_phys_addr (user_pde (pmem s) pd va)"
  using assms by (auto simp: can_walk_def walk_to_def)

lemma present_step:
  assumes "can_walk s pd va" "pd_present (user_pde (pmem s) pd va)"
    and st: "vm_step s (vm_pm s) (store32 (pt_slot f va) w (pmem s)) s'" and f: "f = pd_phys_addr (user_pde (pmem s) pd va)"
  shows "same_tables pd s s'"
proof -
  have wf: "wf_pd (pmem s) pd" using assms(1) by (simp add: can_walk_def)
  have "pmem s' = store32 (pt_slot f va) w (pmem s)" "vm_pm s' = vm_pm s" using st by (simp_all add: vm_step_def)
  then show ?thesis using store_pte_refines(1)[OF wf assms(2) f, of w] by (simp add: same_tables_def)
qed


text \<open>One round of the loop: map the page and set its flags.\<close>

definition mapped_pte :: "physaddr_t \<Rightarrow> u32 \<Rightarrow> i686_pte \<Rightarrow> i686_pte" where
  "mapped_pte p flags e = e\<lparr>pt_phys_addr := frame_of p, pt_writable := bittestl flags VIRTMEM_PAGE_WRITABLE,
     pt_user := bittestl flags VIRTMEM_PAGE_READABLE, pt_present := True\<rparr>"

lemma same_page_unat: "va' div 4096 = va div (4096 :: u32) \<longleftrightarrow> unat va' div 4096 = unat va div 4096"
  by (simp only: word_unat_eq_iff unat_div_distrib) simp

lemma map_and_flag:
  assumes cw: "can_walk s pd va" and pr: "pd_present (user_pde (pmem s) pd va)" and k: "6 \<le> card (kfree s)"
  obtains s1 s2 where "virtmem_user_map_page pd va p s = Some (VIRTMEM_SUCCESS, s1)"
    "virtmem_user_set_page_flags pd va flags s1 = Some (VIRTMEM_SUCCESS, s2)" "same_tables pd s s2" "wf_pd (pmem s2) pd"
    "\<And>va'. user_pte (pmem s2) pd va' =
      (if unat va' div 4096 = unat va div 4096 then mapped_pte p flags (user_pte (pmem s) pd va') else user_pte (pmem s) pd va')"
    "local_page_size s2 = Some 4096" "card (kfree s) \<le> card (kfree s2) + 6" "keeps_mapped s s2" "localmem s2 = localmem s"
    "same_outside (insert (frame_of pd) (tables (pmem s) pd)) (pmem s) (pmem s2)"
proof -
  let ?g = "\<lambda>e. e\<lparr>pt_phys_addr := frame_of p\<rparr>"
  let ?h = "\<lambda>e. e\<lparr>pt_writable := bittestl flags VIRTMEM_PAGE_WRITABLE,
      pt_user := bittestl flags VIRTMEM_PAGE_READABLE, pt_present := True\<rparr>"
  obtain f where f: "walk_ready s pd va" "walk_to s pd va f (pmem s) (vm_pm s)" "wf_pd (pmem s) pd"
    "f = pd_phys_addr (user_pde (pmem s) pd va)" by (rule walk_present[OF cw pr])
  obtain s1 where s1: "i686_user_map_page pd va p s = Some (VIRTMEM_SUCCESS, s1)" "same_tables pd s s1"
    using map_page_mem[OF f(1,2), of p] present_step[OF cw pr _ f(4)] by blast
  have u1: "updates_page pd va ?g s s1" using map_page_updates[OF cw, of p] s1(1) by auto
  have c1: "can_walk s1 pd va" by (rule updates_page_can_walk[OF u1 cw k])
  have p1: "pd_present (user_pde (pmem s1) pd va)" using pr s1(2) by (simp add: same_tables_def)
  obtain f1 where f1: "walk_ready s1 pd va" "walk_to s1 pd va f1 (pmem s1) (vm_pm s1)" "wf_pd (pmem s1) pd"
    "f1 = pd_phys_addr (user_pde (pmem s1) pd va)" by (rule walk_present[OF c1 p1])
  obtain s2 where s2: "i686_user_set_page_flags pd va flags s1 = Some (VIRTMEM_SUCCESS, s2)" "same_tables pd s1 s2"
    using set_flags_mem[OF f1(1,2), of flags] present_step[OF c1 p1 _ f1(4)] by blast
  have u2: "updates_page pd va ?h s1 s2" using set_flags_updates[OF c1, of flags] s2(1) by auto
  have eq: "va' div 4096 = va div 4096 \<Longrightarrow> user_pte (pmem s) pd va' = user_pte (pmem s) pd va" for va'
    by (simp add: user_pte_def user_pde_def pd_slot_def pt_slot_def pt_index_div pd_index_div)
  show thesis
  proof (rule that[of s1 s2])
    show "user_pte (pmem s2) pd va' = (if unat va' div 4096 = unat va div 4096
        then mapped_pte p flags (user_pte (pmem s) pd va') else user_pte (pmem s) pd va')" for va'
      using u1 u2 eq[of va'] unfolding updates_page_def same_page_unat[symmetric]
      by (auto simp: mapped_pte_def)
    show "keeps_mapped s s2" using u1 u2 by (simp add: updates_page_def keeps_mapped_def)
    have "tables (pmem s1) pd = tables (pmem s) pd" "tables (pmem s2) pd = tables (pmem s) pd"
      using s1(2) s2(2) by (simp_all add: same_tables_def tables_def)
    then show "same_outside (insert (frame_of pd) (tables (pmem s) pd)) (pmem s) (pmem s2)"
      using u1 u2 unfolding updates_page_def by (metis same_outside_trans)
  qed (use s1 s2 u1 u2 in \<open>simp_all add: same_tables_def updates_page_def\<close>)
qed

text \<open>The whole loop.\<close>

definition region_ready :: "vm_state \<Rightarrow> physaddr_t \<Rightarrow> virtaddr_t \<Rightarrow> nat \<Rightarrow> bool" where
  "region_ready s pd va n \<longleftrightarrow>
     wf_pd (pmem s) pd \<and> local_page_size s = Some 4096 \<and> 6 * n \<le> card (kfree s) \<and>
     unat va mod 4096 = 0 \<and> 4096 \<le> unat va \<and> unat va + n * 4096 < 2 ^ 32 \<and>
     (\<forall>va'. unat va \<le> unat va' \<and> unat va' < unat va + n * 4096 \<longrightarrow> pd_present (user_pde (pmem s) pd va'))"

definition region_map :: "virtaddr_t \<Rightarrow> nat \<Rightarrow> physaddr_t \<Rightarrow> u32 \<Rightarrow> (virtaddr_t \<Rightarrow> i686_pte) \<Rightarrow> virtaddr_t \<Rightarrow> i686_pte" where
  "region_map va n p flags e va' =
     (if unat va \<le> unat va' \<and> unat va' < unat va + n * 4096
      then mapped_pte (p + of_nat (unat va' div 4096 - unat va div 4096) * 4096) flags (e va') else e va')"

lemma region_ready_step:
  assumes "region_ready s pd va (Suc n)"
  shows "can_walk s pd va" "pd_present (user_pde (pmem s) pd va)" "6 \<le> card (kfree s)"
    "unat (va + 4096) = unat va + 4096"
proof -
  show k: "6 \<le> card (kfree s)" "pd_present (user_pde (pmem s) pd va)" using assms by (simp_all add: region_ready_def)
  have "unat va div 4096 \<noteq> 0" using assms by (simp add: region_ready_def div_greater_zero_iff)
  then have "unat (va div 4096) \<noteq> 0" by (simp add: unat_div_distrib)
  then have "va div 4096 \<noteq> 0" by (metis unsigned_0)
  then show "can_walk s pd va" using assms k
    by (auto simp: can_walk_def walk_ready_def region_ready_def dest: wf_pdD(1))
  show "unat (va + 4096) = unat va + 4096"
    using assms by (simp add: region_ready_def unat_word_ariths(1))
qed

lemma region_map_step:
  assumes "unat va mod 4096 = 0" "unat (va + 4096) = unat va + 4096"
  shows "region_map va (Suc n) p flags e va' =
    region_map (va + 4096) n (p + 4096) flags
      (\<lambda>x. if unat x div 4096 = unat va div 4096 then mapped_pte p flags (e x) else e x) va'"
proof -
  let ?u = "unat va" and ?x = "unat va'"
  have d: "?u = ?u div 4096 * 4096" using assms(1) by (metis add_0_right div_mult_mod_eq)
  consider (below) "?x < ?u" | (first) "?u \<le> ?x" "?x < ?u + 4096" | (above) "?u + 4096 \<le> ?x" by linarith
  then show ?thesis
  proof cases
    case below
    then have "?x div 4096 \<noteq> ?u div 4096" using d by (metis div_mult_mod_eq leD le_add1)
    then show ?thesis using below by (simp add: region_map_def assms(2))
  next
    case first
    have "?x div 4096 = ?u div 4096"
    proof -
      have "?x = ?u div 4096 * 4096 + (?x - ?u)" "?x - ?u < 4096" using first d by linarith+
      then show ?thesis using page_parts(1)[of "?x - ?u" "?u div 4096"] by simp
    qed
    then show ?thesis using first by (simp add: region_map_def assms(2))
  next
    case above
    have m: "(?u + 4096) div 4096 = ?u div 4096 + 1" by simp
    have le: "?u div 4096 + 1 \<le> ?x div 4096" using div_le_mono[OF above, of 4096] by simp
    then have "?x div 4096 - ?u div 4096 = Suc (?x div 4096 - (?u + 4096) div 4096)" unfolding m by linarith
    then have "p + of_nat (?x div 4096 - ?u div 4096) * 4096 =
        p + 4096 + of_nat (?x div 4096 - (?u + 4096) div 4096) * 4096"
      by (simp only: of_nat_Suc distrib_right mult_1 add.assoc)
    then show ?thesis using above le
      by (simp only: region_map_def assms(2)) auto
  qed
qed

lemma map_exact_loop_ok:
  assumes "region_ready s pd va n"
  shows "\<exists>s'. map_exact_loop n pd va p 4096 flags s = Some s' \<and> same_tables pd s s' \<and> wf_pd (pmem s') pd \<and>
    user_pte (pmem s') pd = region_map va n p flags (user_pte (pmem s) pd) \<and>
    local_page_size s' = Some 4096 \<and> keeps_mapped s s' \<and> localmem s' = localmem s"
  using assms
proof (induction n arbitrary: va p s)
  case 0
  have "region_map va 0 p flags e = e" for e by (rule ext) (auto simp: region_map_def)
  with 0 show ?case by (simp add: same_tables_def region_ready_def keeps_mapped_def)
next
  case (Suc n)
  note st = region_ready_step[OF Suc.prems]
  obtain s1 s2 where s12: "virtmem_user_map_page pd va p s = Some (VIRTMEM_SUCCESS, s1)"
    "virtmem_user_set_page_flags pd va flags s1 = Some (VIRTMEM_SUCCESS, s2)"
    and s2: "same_tables pd s s2" "wf_pd (pmem s2) pd"
    "\<And>va'. user_pte (pmem s2) pd va' =
      (if unat va' div 4096 = unat va div 4096 then mapped_pte p flags (user_pte (pmem s) pd va') else user_pte (pmem s) pd va')"
    "local_page_size s2 = Some 4096" "card (kfree s) \<le> card (kfree s2) + 6" "keeps_mapped s s2" "localmem s2 = localmem s"
    by (rule map_and_flag[OF st(1-3), of p flags]) blast
  have "region_ready s2 pd (va + 4096) n"
    using Suc.prems s2(1,2,4,5) st(4) by (auto simp: region_ready_def same_tables_def)
  from Suc.IH[OF this, of "p + 4096"] obtain s' where s': "map_exact_loop n pd (va + 4096) (p + 4096) 4096 flags s2 = Some s'"
    "same_tables pd s2 s'" "wf_pd (pmem s') pd"
    "user_pte (pmem s') pd = region_map (va + 4096) n (p + 4096) flags (user_pte (pmem s2) pd)"
    "local_page_size s' = Some 4096" "keeps_mapped s2 s'" "localmem s' = localmem s2" by blast
  have "user_pte (pmem s2) pd = (\<lambda>x. if unat x div 4096 = unat va div 4096
      then mapped_pte p flags (user_pte (pmem s) pd x) else user_pte (pmem s) pd x)" using s2(3) by blast
  note pte = this
  have "unat va mod 4096 = 0" using Suc.prems by (simp only: region_ready_def)
  from region_map_step[OF this st(4), of n p flags "user_pte (pmem s) pd"]
  have "user_pte (pmem s') pd = region_map va (Suc n) p flags (user_pte (pmem s) pd)"
    unfolding s'(4) pte by (rule ext[OF sym])
  moreover have "same_tables pd s s'" "keeps_mapped s s'"
    using s2(1,6) s'(2,6) by (simp_all add: same_tables_def keeps_mapped_def)
  ultimately show ?case using s12 s' s2(7) by simp
qed

lemma find_SomeD: "List.find P xs = Some x \<Longrightarrow> x \<in> set xs \<and> P x"
  by (induction xs) (auto split: if_splits)

section \<open>A concrete state\<close>

definition example_as :: "as_data kmem_state" where
  "example_as = \<lparr>km_vm = example_user_vm,
     km_links = \<lparr>slh_first = (\<lambda>_. None), sle_next = (\<lambda>_. None)\<rparr>,
     km_slab = (\<lambda>_. \<lparr>num_total = 0, n_pages = 0, first_free = 0, freelist = (\<lambda>_. 0)\<rparr>),
     km_cache = (\<lambda>_. \<lparr>kc_name = [], objsize = 0, used = 0, kc_cpu = 0, kc_ctor = None, kc_dtor = None\<rparr>),
     next_free_cache = 0, sym_caches = 0xC0010000,
     km_ext = \<lparr>as_cache = 0, mr_cache = 0,
       as_obj = (\<lambda>_. \<lparr>as_v = Some I686_as_vfuncs, as_pd = 0x3000\<rparr>),
       mr_obj = (\<lambda>_. zero_region\<lparr>mr_v := Some I686_mr_vfuncs\<rparr>),
       as_regions = \<lparr>lh_first = (\<lambda>_. None), le_next = (\<lambda>_. None), le_prev = (\<lambda>_. None)\<rparr>\<rparr>\<rparr>"

lemma example_as_inv: "spaces_inv example_as (\<lambda>_. [])"
  by (simp add: spaces_inv_def example_as_def linked_def)

lemma example_as_page_size: "local_page_size (km_vm example_as) = Some 4096"
  by (simp add: example_as_def local_page_size_def example_user_vm_def example_vm_def example_pool_page_size)

lemma example_as_fields:
  "as_obj (km_ext example_as) a = \<lparr>as_v = Some I686_as_vfuncs, as_pd = 0x3000\<rparr>"
  "mr_obj (km_ext example_as) m = zero_region\<lparr>mr_v := Some I686_mr_vfuncs\<rparr>"
  "km_vm example_as = example_user_vm"
  by (simp_all add: example_as_def)

section \<open>Properties\<close>

text \<open>
  C15. \<^verbatim>\<open>address_space_init_region\<close> refines the insertion of an interval into a set of disjoint
  intervals: for a start in the lower half of the address space the region covers the pages from
  the one that holds the start, as many as the length needs, the region enters the list exactly
  when that interval meets none of the regions of the space (\<^verbatim>\<open>AS_USED\<close> otherwise), and in both
  cases the regions of every space stay page aligned and disjoint.
\<close>

theorem init_region_refines:
  assumes "spaces_inv s H" and "mr \<notin> members H" "mr \<noteq> 0" "mr_v (mr_obj (km_ext s) mr) \<noteq> None"
    and "a \<noteq> 0" "as_v (as_obj (km_ext s) a) \<noteq> None" "local_page_size (km_vm s) = Some 4096"
    and "start \<noteq> 0" "unat start < 2 ^ 31" "len \<noteq> 0" "unat len \<le> 2 ^ 31"
    and "unat start div 4096 * 4096 + (unat len + 4095) div 4096 * 4096 < 2 ^ 32"
  defines "E \<equiv> {unat start div 4096 * 4096 ..< unat start div 4096 * 4096 + (unat len + 4095) div 4096 * 4096}"
  shows "\<exists>s'. if \<forall>m\<in>set (H a). E \<inter> extent (mr_obj (km_ext s) m) = {}
    then address_space_init_region a mr start len s = Some (AS_SUCCESS, s') \<and>
      spaces_inv s' (H(a := mr # H a)) \<and> extent (mr_obj (km_ext s') mr) = E
    else address_space_init_region a mr start len s = Some (AS_USED, s') \<and> spaces_inv s' H"
proof -
  let ?r = "placed start len (mr_obj (km_ext s) mr)"
  have len: "0 < unat len" using assms(10) by (simp add: unat_gt_0)
  have E: "extent ?r = E" and good: "good_region ?r"
    using placed_extent[OF assms(9) len assms(11)] assms(12) by (simp_all add: E_def)
  note st = init_region_steps[OF assms(1-8) good]
  show ?thesis
  proof (cases "\<forall>m\<in>set (H a). E \<inter> extent (mr_obj (km_ext s) m) = {}")
    case True
    let ?s = "upd_ext (\<lambda>x. x\<lparr>as_regions := LIST_INSERT_HEAD a mr (as_regions x)\<rparr>) (upd_mr mr (placed start len) s)"
    have "extent (mr_obj (km_ext ?s) mr) = E" using E by (simp add: upd_ext_def upd_mr_def)
    then show ?thesis using True st(1,2) unfolding E by auto
  next
    case False
    then show ?thesis using st(1,3) unfolding E by auto
  qed
qed

theorem init_region_refines_witness:
  "\<exists>s'. address_space_init_region 0xC0100000 0xC0100100 0x1000123 100 example_as = Some (AS_SUCCESS, s') \<and>
     extent (mr_obj (km_ext s') 0xC0100100) = {0x1000000 ..< 0x1001000}"
  using init_region_refines[OF example_as_inv, of "0xC0100100" "0xC0100000" "0x1000123" 100] example_as_page_size
  by (auto simp: example_as_fields members_def)

text \<open>
  C16. \<^verbatim>\<open>common_address_space_get_region\<close> returns, and finds the region that holds an address: the
  result is the one region of the space whose interval has the address, and \<^verbatim>\<open>AS_NOTFOUND\<close> with
  a null region exactly when there is none.
\<close>

theorem get_region_finds:
  assumes "spaces_inv s H" "a \<noteq> 0"
  shows "if \<exists>m\<in>set (H a). unat loc \<in> extent (mr_obj (km_ext s) m)
    then \<exists>m. common_address_space_get_region a True loc s = Some (AS_SUCCESS, Some m) \<and> m \<in> set (H a) \<and>
      unat loc \<in> extent (mr_obj (km_ext s) m) \<and>
      (\<forall>m'\<in>set (H a). unat loc \<in> extent (mr_obj (km_ext s) m') \<longrightarrow> m' = m)
    else common_address_space_get_region a True loc s = Some (AS_NOTFOUND, Some 0)"
proof -
  let ?P = "\<lambda>i. memory_region_compare_to_location (mr_obj (km_ext s) i) loc = 0"
  have P: "?P m \<longleftrightarrow> unat loc \<in> extent (mr_obj (km_ext s) m)" if "m \<in> set (H a)" for m
    using compare_to_location_extent[OF spaces_invD(2)[OF assms(1) that]] .
  have f: "LIST_FOREACH_find ?P (LIST_FIRST a (as_regions (km_ext s))) (as_regions (km_ext s)) = Some (List.find ?P (H a))"
    by (rule LIST_FOREACH_find_linked[OF spaces_invD(1)[OF assms(1)]])
  show ?thesis
  proof (cases "List.find ?P (H a)")
    case None
    then have "\<not> (\<exists>m\<in>set (H a). unat loc \<in> extent (mr_obj (km_ext s) m))" using P by (auto simp: find_None_iff)
    then show ?thesis using None f assms(2) by (simp add: common_address_space_get_region_def)
  next
    case (Some m)
    then have m: "m \<in> set (H a)" "?P m" by (auto dest: find_SomeD)
    then have e: "unat loc \<in> extent (mr_obj (km_ext s) m)" using P by simp
    have uniq: "m' = m" if "m' \<in> set (H a)" "unat loc \<in> extent (mr_obj (km_ext s) m')" for m'
      using spaces_invD(3)[OF assms(1) that(1) m(1)] that(2) e by blast
    have get: "common_address_space_get_region a True loc s = Some (AS_SUCCESS, Some m)"
      using Some f assms(2) by (simp add: common_address_space_get_region_def)
    have ex: "\<exists>m\<in>set (H a). unat loc \<in> extent (mr_obj (km_ext s) m)" using e m(1) by blast
    show ?thesis unfolding if_P[OF ex] using get m(1) e uniq by blast
  qed
qed

theorem get_region_finds_witness:
  "common_address_space_get_region 0xC0100000 True 0x1000123 example_as = Some (AS_NOTFOUND, Some 0)"
  using get_region_finds[OF example_as_inv, of "0xC0100000" "0x1000123"] by simp

text \<open>
  In the upper half of the address space the start is rounded up, not down: the remainder of
  the negative \<^verbatim>\<open>(long)start\<close> is negative.  The region begins behind the address that was asked for
  and does not hold it.
\<close>

theorem init_region_rounds_up_high:
  assumes "address_space_init_region a mr start len s = Some (r, s')"
    and "local_page_size (km_vm s) = Some 4096"
    and "2 ^ 31 \<le> unat start" "unat start mod 4096 \<noteq> 0" "unat start < 2 ^ 32 - 4096"
  shows "unat (mr_start (mr_obj (km_ext s') mr)) = (unat start div 4096 + 1) * 4096 \<and>
    unat start < unat (mr_start (mr_obj (km_ext s') mr)) \<and> unat start \<notin> extent (mr_obj (km_ext s') mr)"
proof -
  have "start \<noteq> 0" using assms(4) by auto
  then have st: "unat (mr_start (mr_obj (km_ext s') mr)) = (unat start div 4096 + 1) * 4096"
    using init_region_placed[OF assms(1) _ assms(2)] placed_high[OF assms(3-5)] by simp
  moreover have "unat start < (unat start div 4096 + 1) * 4096"
    using div_less_iff_less_mult[of 4096 "unat start" "unat start div 4096 + 1"] by simp
  ultimately show ?thesis by (simp add: extent_def)
qed

theorem init_region_rounds_up_high_witness:
  "\<exists>s'. address_space_init_region 0xC0100000 0xC0100100 0x90000123 100 example_as = Some (AS_SUCCESS, s') \<and>
     unat (mr_start (mr_obj (km_ext s') 0xC0100100)) = 0x90001000"
proof -
  have "good_region (placed 0x90000123 100 (mr_obj (km_ext example_as) 0xC0100100))"
    using placed_high[of "0x90000123" 100 "mr_obj (km_ext example_as) 0xC0100100"]
    by (simp add: good_region_def) (simp add: placed_def)
  from init_region_steps(1)[OF example_as_inv _ _ _ _ _ example_as_page_size _ this, of "0xC0100000"]
  obtain s' where "address_space_init_region 0xC0100000 0xC0100100 0x90000123 100 example_as = Some (AS_SUCCESS, s')"
    by (auto simp: members_def example_as_fields)
  with init_region_rounds_up_high[OF this example_as_page_size] show ?thesis by auto
qed

text \<open>
  C18. \<^verbatim>\<open>memory_region_map\<close> with a physical address maps the whole region and nothing else: the page
  at offset \<open>i\<close> of the region goes to the page at offset \<open>i\<close> of the physical range, present, open to
  the user and writable as the region says; all other entries, the page tables and the kernel
  mappings in use stay.  The page tables of the region exist; each page uses up six kernel pages
  for windows, which are not given back.
\<close>

theorem memory_region_map_exact_maps:
  assumes "a \<noteq> 0" "as_v (as_obj (km_ext s) a) \<noteq> None" and "p \<noteq> 0" "p mod 4096 = 0"
    and "good_region (mr_obj (km_ext s) m)"
    and "region_ready (km_vm s) (as_pd (as_obj (km_ext s) a)) (mr_start (mr_obj (km_ext s) m))
      (unat (mr_length (mr_obj (km_ext s) m)) div 4096)"
  defines "pd \<equiv> as_pd (as_obj (km_ext s) a)" and "r \<equiv> mr_obj (km_ext s) m"
  shows "\<exists>s'. memory_region_map a m p s = Some (AS_SUCCESS, s') \<and> km_ext s' = km_ext s \<and>
    wf_pd (pmem (km_vm s')) pd \<and> same_tables pd (km_vm s) (km_vm s') \<and> keeps_mapped (km_vm s) (km_vm s') \<and>
    (\<forall>va. user_pte (pmem (km_vm s')) pd va =
       (if unat va \<in> extent r
        then (user_pte (pmem (km_vm s)) pd va)
          \<lparr>pt_phys_addr := frame_of (p + of_nat (unat va div 4096 - unat (mr_start r) div 4096) * 4096),
           pt_writable := mr_writable r, pt_user := True, pt_present := True\<rparr>
        else user_pte (pmem (km_vm s)) pd va))"
proof -
  let ?n = "unat (mr_length r) div 4096"
  have ps: "local_page_size (km_vm s) = Some 4096" using assms(6) by (simp add: region_ready_def)
  have g: "unat (mr_start r) mod 4096 = 0" "unat (mr_length r) mod 4096 = 0" using assms(5) by (simp_all add: good_region_def r_def)
  then have al: "mr_start r mod 4096 = 0" "mr_length r mod 4096 = 0"
    by (simp_all only: word_unat_eq_iff unat_mod_distrib) simp_all
  have n: "unat (mr_length r div 4096) = ?n" by (simp add: unat_div_distrib)
  have len: "?n * 4096 = unat (mr_length r)" using g(2) div_mult_mod_eq[of "unat (mr_length r)" 4096] by simp
  have fl: "bittestl (region_page_flags r) VIRTMEM_PAGE_WRITABLE = mr_writable r"
    "bittestl (region_page_flags r) VIRTMEM_PAGE_READABLE"
    by (simp_all add: bittestl_def region_page_flags_def page_flag_defs)
  obtain vm where vm: "map_exact_loop ?n pd (mr_start r) p 4096 (region_page_flags r) (km_vm s) = Some vm"
    "same_tables pd (km_vm s) vm" "wf_pd (pmem vm) pd"
    "user_pte (pmem vm) pd = region_map (mr_start r) ?n p (region_page_flags r) (user_pte (pmem (km_vm s)) pd)"
    "keeps_mapped (km_vm s) vm"
    using map_exact_loop_ok[OF assms(6)[folded pd_def r_def], of p "region_page_flags r"] by blast
  have "memory_region_map a m p s = Some (AS_SUCCESS, s\<lparr>km_vm := vm\<rparr>)"
    using assms(1-4) ps al vm(1) n
    by (auto simp: memory_region_map_def common_memory_region_map_def memory_region_map_exact_def Let_def r_def pd_def)
  moreover have "region_map (mr_start r) ?n p (region_page_flags r) e va = (if unat va \<in> extent r
      then (e va)\<lparr>pt_phys_addr := frame_of (p + of_nat (unat va div 4096 - unat (mr_start r) div 4096) * 4096),
           pt_writable := mr_writable r, pt_user := True, pt_present := True\<rparr> else e va)" for e va
    by (simp add: region_map_def mapped_pte_def extent_def len fl)
  ultimately show ?thesis using vm by auto
qed

lemma example_region_ready: "region_ready example_user_vm 0x3000 0x1000000 1"
proof -
  have "pd_present (user_pde example_user_mem 0x3000 va)"
    if "0x1000000 \<le> unat va" "unat va < 0x1001000" for va :: u32
  proof -
    have "unat (va div 4096) = unat (0x1000 :: u32)"
      using that by (simp add: unat_div_distrib div_nat_eqI)
    then have "va div 4096 = 0x1000" by (simp only: word_unat_eq_iff)
    then show ?thesis by (rule example_user_mem_map(3))
  qed
  moreover have "local_page_size example_user_vm = Some 4096"
    using example_as_page_size by (simp add: example_as_fields)
  moreover have "pmem example_user_vm = example_user_mem" by (simp add: example_user_vm_def)
  ultimately show ?thesis
    using example_user_mem_map(1) by (simp add: region_ready_def example_user_vm_kfree)
qed

definition example_placed :: "as_data kmem_state" where
  "example_placed = upd_mr 0xC0100100 (\<lambda>r. r\<lparr>mr_start := 0x1000000, mr_length := 4096, mr_writable := True\<rparr>) example_as"

theorem memory_region_map_exact_maps_witness:
  "\<exists>s'. memory_region_map 0xC0100000 0xC0100100 0x9000 example_placed = Some (AS_SUCCESS, s') \<and>
     pt_phys_addr (user_pte (pmem (km_vm s')) 0x3000 0x1000000) = 9 \<and>
     pt_writable (user_pte (pmem (km_vm s')) 0x3000 0x1000000)"
proof -
  have o: "as_obj (km_ext example_placed) 0xC0100000 = \<lparr>as_v = Some I686_as_vfuncs, as_pd = 0x3000\<rparr>"
    "mr_obj (km_ext example_placed) 0xC0100100 =
      zero_region\<lparr>mr_v := Some I686_mr_vfuncs, mr_start := 0x1000000, mr_length := 4096, mr_writable := True\<rparr>"
    "km_vm example_placed = example_user_vm"
    by (simp_all add: example_placed_def upd_mr_def upd_ext_def example_as_fields)
  have "frame_of 0x9000 = 9" by (simp add: frame_of_def drop_bit_12)
  then show ?thesis
    using memory_region_map_exact_maps[of "0xC0100000" example_placed "0x9000" "0xC0100100"] example_region_ready
    by (auto simp: o good_region_def extent_def)
qed

lemma memory_region_ctor_ok: "callback_ok (as_run tc) (Some I686_memory_region_ctor)"
  by (simp add: callback_ok_def i686_memory_region_ctor_def callback_frame_def upd_mr_def upd_ext_def)

text \<open>
  \<^verbatim>\<open>memory_region_alloc\<close> returns and reports \<^verbatim>\<open>AS_SUCCESS\<close>, whether or not there was memory: the
  test for a failed allocation looks at the wrong pointer, and the region is then null.  With
  memory the region is one that was not in use, zeroed but for its table of functions, and no
  other region changes.
\<close>

theorem memory_region_alloc_fresh:
  assumes "cache_ok (as_run tc) (mr_cache (km_ext s)) s F I"
    and "kc_ctor (km_cache s (mr_cache (km_ext s))) = Some I686_memory_region_ctor"
  shows "\<exists>mr s'. memory_region_alloc (as_run tc) s = Some ((AS_SUCCESS, mr), s') \<and>
    (if mr = 0 then F = {} \<and>
       (kfree (km_vm s) = {} \<or> local_page_alloc (km_vm s) = Some ((PHYSMEM_ERR_OOM, None), km_vm s))
     else mr \<notin> I \<and> mr_obj (km_ext s') = (mr_obj (km_ext s))(mr := zero_region\<lparr>mr_v := Some I686_mr_vfuncs\<rparr>))"
proof -
  obtain H where "cache_rep None (mr_cache (km_ext s)) s H F I" using assms(1) by (auto simp: cache_ok_def)
  then show ?thesis
  proof (cases rule: alloc_cases[where run = "as_run tc"])
    case (oom s')
    then show ?thesis by (auto simp: memory_region_alloc_def)
  next
    case (ok ob s4 H' F')
    let ?s = "upd_cache (mr_cache (km_ext s)) (used_update (\<lambda>u. u + 1))
      (upd_mr ob (\<lambda>_. zero_region\<lparr>mr_v := Some I686_mr_vfuncs\<rparr>) s4)"
    have "memory_region_alloc (as_run tc) s = Some ((AS_SUCCESS, ob), ?s)"
      using ok(1) assms(2) by (simp add: memory_region_alloc_def i686_memory_region_ctor_def)
    moreover have "mr_obj (km_ext ?s) = (mr_obj (km_ext s))(ob := zero_region\<lparr>mr_v := Some I686_mr_vfuncs\<rparr>)"
      using ok(11) by (simp add: upd_cache_def upd_mr_def upd_ext_def)
    ultimately show ?thesis using ok(2,4,6) by auto
  qed
qed

definition example_mr_cache :: "as_data kmem_state" where
  "example_mr_cache = upd_ext (\<lambda>x. x\<lparr>mr_cache := 0xC0010000\<rparr>)
     (snd (kmem_cache_init 0xC0010000 0xC0020000 ''memory_region'' sizeof_memory_region
        (Some I686_memory_region_ctor) None example_as))"

lemma example_mr_cache_ok:
  "cache_ok (as_run tc) 0xC0010000 example_mr_cache {} {}"
  "kc_ctor (km_cache example_mr_cache 0xC0010000) = Some I686_memory_region_ctor"
  "mr_cache (km_ext example_mr_cache) = 0xC0010000" "km_vm example_mr_cache = example_user_vm"
proof -
  let ?s = "snd (kmem_cache_init 0xC0010000 0xC0020000 ''memory_region'' sizeof_memory_region
        (Some I686_memory_region_ctor) None example_as)"
  have f: "kc_ctor (km_cache ?s 0xC0010000) = Some I686_memory_region_ctor" "kc_dtor (km_cache ?s 0xC0010000) = None"
    "km_vm ?s = example_user_vm"
    by (simp_all add: common_kmem_cache_init_def Let_def upd_cache_def MIN_CACHE_SIZE_def
        sizeof_memory_region_def example_as_fields)
  then show "kc_ctor (km_cache example_mr_cache 0xC0010000) = Some I686_memory_region_ctor"
    "mr_cache (km_ext example_mr_cache) = 0xC0010000" "km_vm example_mr_cache = example_user_vm"
    by (simp_all add: example_mr_cache_def upd_ext_def)
  have init: "kmem_cache_init 0xC0010000 0xC0020000 ''memory_region'' sizeof_memory_region
        (Some I686_memory_region_ctor) None example_as = (KMEM_SUCCESS, ?s)"
    by (simp add: common_kmem_cache_init_def Let_def MIN_CACHE_SIZE_def sizeof_memory_region_def)
  have pr: "pm_ready example_user_vm" using example_vm_pm_ready by (simp add: pm_ready_def example_user_vm_def)
  have "slinked (km_links example_as) (\<lambda>_. [])" by (simp add: slinked_def example_as_def)
  from cache_init_rep[OF init _ _ _ _ this] pr
  have r: "cache_rep None 0xC0010000 ?s (\<lambda>_. []) {} {}"
    by (simp add: members_def sizeof_memory_region_def example_as_fields fun_upd_idem)
  have "callback_frame ?s example_mr_cache" using pr f(3) by (simp add: callback_frame_def example_mr_cache_def upd_ext_def)
  then show "cache_ok (as_run tc) 0xC0010000 example_mr_cache {} {}"
    using cache_rep_frame[OF r] f(1,2) memory_region_ctor_ok
    by (auto simp: cache_ok_def callback_ok_def[of _ None] example_mr_cache_def upd_ext_def)
qed

theorem memory_region_alloc_fresh_witness:
  "\<exists>mr s'. memory_region_alloc (as_run (\<lambda>_ s. Some s)) example_mr_cache = Some ((AS_SUCCESS, mr), s') \<and> mr \<noteq> 0 \<and>
     mr_v (mr_obj (km_ext s') mr) = Some I686_mr_vfuncs"
proof -
  note c = example_mr_cache_ok
  have "kfree example_user_vm \<noteq> {}" by (simp add: example_user_vm_kfree)
  moreover have "local_page_alloc example_user_vm \<noteq> Some ((PHYSMEM_ERR_OOM, None), example_user_vm)"
    using example_vm_has_memory(1) by (auto simp: local_page_alloc_def example_user_vm_def example_vm_def bind_eq_Some_conv)
  ultimately show ?thesis
    using memory_region_alloc_fresh[of "\<lambda>_ s. Some s" example_mr_cache "{}" "{}"] c(1)
    unfolding c(2-4) by (fastforce split: if_splits)
qed

end
