(* ===== verification/Sched.thy ===== *)
theory Sched
  imports Address_Space
begin

text \<open>
  Threads and the scheduler: \<^verbatim>\<open>src/sys/common/thread.c\<close>, \<^verbatim>\<open>src/sys/common/scheduler.c\<close>, their
  headers, and the scheduler functions of \<^verbatim>\<open>src/sys/i686/i686_cpu.c\<close>.

  The record of kernel objects gets threads, schedulers and the list cells of the threads.  The
  processor that runs is the one boot processor.
\<close>

section \<open>Data\<close>

datatype thread_state = THREAD_INIT | THREAD_RUNNABLE | THREAD_SLEEPING | THREAD_BLOCKED | THREAD_STOPPED
datatype thread_err_t = THREAD_SUCCESS
datatype scheduler_err_t = SCHED_SUCCESS | SCHED_OOM | SCHED_INVALID | SCHED_NOTFOUND

type_synonym thread_id = u32
type_synonym thread_ptr = virtaddr_t
type_synonym sched_ptr = u32
type_synonym cpu_ptr = u32

record i686_context =
  c_gs :: u32
  c_fs :: u32
  c_es :: u32
  c_ds :: u32
  c_edi :: u32
  c_esi :: u32
  c_ebp :: u32
  c_esp :: u32
  c_ebx :: u32
  c_edx :: u32
  c_ecx :: u32
  c_eax :: u32
  c_int_no :: u32
  c_err_code :: u32
  c_eip :: u32
  c_cs :: u32
  c_eflags :: u32
  c_useresp :: u32
  c_ss :: u32

text \<open>There is one table of thread functions and one of scheduler functions.\<close>

datatype thread_vfuncs = I686_thread_vfuncs
datatype scheduler_vfuncs = I686_scheduler_vfuncs

record thread =
  t_v :: "thread_vfuncs option"
  t_space :: as_ptr
  t_cpu :: cpu_ptr
  t_state :: thread_state
  t_tid :: thread_id

record i686_thread = thread +
  t_ctx :: i686_context

record scheduler =
  s_v :: "scheduler_vfuncs option"
  s_current :: thread_ptr

definition sizeof_i686_thread :: c_size_t where "sizeof_i686_thread = 108"

definition zero_context :: i686_context where
  "zero_context = \<lparr>c_gs = 0, c_fs = 0, c_es = 0, c_ds = 0, c_edi = 0, c_esi = 0, c_ebp = 0, c_esp = 0,
     c_ebx = 0, c_edx = 0, c_ecx = 0, c_eax = 0, c_int_no = 0, c_err_code = 0, c_eip = 0, c_cs = 0,
     c_eflags = 0, c_useresp = 0, c_ss = 0\<rparr>"

definition zero_thread :: i686_thread where
  "zero_thread = \<lparr>t_v = None, t_space = 0, t_cpu = 0, t_state = THREAD_INIT, t_tid = 0, t_ctx = zero_context\<rparr>"

datatype sched_head = Runnable sched_ptr | Waiting sched_ptr

record sched_data = as_data +
  thread_obj :: "thread_ptr \<Rightarrow> i686_thread"
  sched_obj :: "sched_ptr \<Rightarrow> scheduler"
  thread_links :: "(sched_head, thread_ptr) list_store"
  thread_cache :: cache_ptr
  next_tid :: thread_id
  bsp :: cpu_ptr

type_synonym 'z sched_state = "'z sched_data_scheme kmem_state"

definition upd_thread :: "thread_ptr \<Rightarrow> (i686_thread \<Rightarrow> i686_thread) \<Rightarrow> 'z sched_state \<Rightarrow> 'z sched_state" where
  "upd_thread t f = upd_ext (\<lambda>x. x\<lparr>thread_obj := (thread_obj x)(t := f (thread_obj x t))\<rparr>)"

definition upd_sched :: "sched_ptr \<Rightarrow> (scheduler \<Rightarrow> scheduler) \<Rightarrow> 'z sched_state \<Rightarrow> 'z sched_state" where
  "upd_sched p f = upd_ext (\<lambda>x. x\<lparr>sched_obj := (sched_obj x)(p := f (sched_obj x p))\<rparr>)"

section \<open>Threads\<close>

definition common_thread_init ::
  "thread_ptr \<Rightarrow> as_ptr \<Rightarrow> 'z sched_state \<Rightarrow> thread_err_t \<times> 'z sched_state" where
  "common_thread_init t space s =
     (let s1 = upd_thread t (\<lambda>b. b\<lparr>t_cpu := bsp (km_ext s)\<rparr>) s;
          s2 = upd_thread t (\<lambda>b. b\<lparr>t_tid := next_tid (km_ext s1)\<rparr>) s1;
          s3 = upd_ext (\<lambda>x. x\<lparr>next_tid := next_tid x + 1\<rparr>) s2;
          s4 = upd_thread t (\<lambda>b. b\<lparr>t_state := THREAD_INIT\<rparr>) s3
      in (THREAD_SUCCESS, upd_thread t (\<lambda>b. b\<lparr>t_space := space\<rparr>) s4))"

text \<open>Not implemented: it stops at an assertion.\<close>

definition common_thread_clone ::
  "thread_ptr \<Rightarrow> thread_ptr \<Rightarrow> 'z sched_state \<Rightarrow> (thread_err_t \<times> 'z sched_state) option" where
  "common_thread_clone t src s = do { c_assert False; Some (THREAD_SUCCESS, s) }"

definition thread_init ::
  "thread_ptr \<Rightarrow> as_ptr \<Rightarrow> 'z sched_state \<Rightarrow> (thread_err_t \<times> 'z sched_state) option" where
  "thread_init t space s = do {
     c_assert (t \<noteq> 0);
     _ \<leftarrow> t_v (thread_obj (km_ext s) t);
     Some (common_thread_init t space s)
   }"

definition thread_clone ::
  "thread_ptr \<Rightarrow> thread_ptr \<Rightarrow> 'z sched_state \<Rightarrow> (thread_err_t \<times> 'z sched_state) option" where
  "thread_clone t src s = do {
     c_assert (t \<noteq> 0);
     _ \<leftarrow> t_v (thread_obj (km_ext s) t);
     common_thread_clone t src s
   }"

section \<open>The scheduler\<close>

definition common_scheduler_reschedule :: "sched_ptr \<Rightarrow> 'z sched_state \<Rightarrow> scheduler_err_t \<times> 'z sched_state" where
  "common_scheduler_reschedule p s =
     (SCHED_SUCCESS, upd_sched p (\<lambda>b. b\<lparr>s_current :=
        (case LIST_FIRST (Runnable p) (thread_links (km_ext s)) of None \<Rightarrow> 0 | Some t \<Rightarrow> t)\<rparr>) s)"

definition common_scheduler_get_current_thread :: "sched_ptr \<Rightarrow> 'z sched_state \<Rightarrow> scheduler_err_t \<times> thread_ptr" where
  "common_scheduler_get_current_thread p s = (SCHED_SUCCESS, s_current (sched_obj (km_ext s) p))"

text \<open>The out parameter is written only when a thread is found.\<close>

definition common_scheduler_thread_lookup_by_id ::
  "sched_ptr \<Rightarrow> thread_id \<Rightarrow> 'z sched_state \<Rightarrow> (scheduler_err_t \<times> thread_ptr option) option" where
  "common_scheduler_thread_lookup_by_id p tid s = do {
     let q = thread_links (km_ext s);
     r \<leftarrow> LIST_FOREACH_find (\<lambda>t. t_tid (thread_obj (km_ext s) t) = tid) (LIST_FIRST (Runnable p) q) q;
     case r of
       Some t \<Rightarrow> Some (SCHED_SUCCESS, Some t)
     | None \<Rightarrow> do {
         w \<leftarrow> LIST_FOREACH_find (\<lambda>t. t_tid (thread_obj (km_ext s) t) = tid) (LIST_FIRST (Waiting p) q) q;
         case w of Some t \<Rightarrow> Some (SCHED_SUCCESS, Some t) | None \<Rightarrow> Some (SCHED_NOTFOUND, None)
       }
   }"

definition insert_thread :: "sched_head \<Rightarrow> thread_ptr \<Rightarrow> 'z sched_state \<Rightarrow> 'z sched_state" where
  "insert_thread h t = upd_ext (\<lambda>x. x\<lparr>thread_links := LIST_INSERT_HEAD h t (thread_links x)\<rparr>)"

definition common_scheduler_thread_add ::
  "sched_ptr \<Rightarrow> thread_ptr \<Rightarrow> 'z sched_state \<Rightarrow> (scheduler_err_t \<times> 'z sched_state) option" where
  "common_scheduler_thread_add p t s = do {
     c_assert (t \<noteq> 0);
     c_assert (t_space (thread_obj (km_ext s) t) \<noteq> 0);
     case t_state (thread_obj (km_ext s) t) of
       THREAD_RUNNABLE \<Rightarrow> Some (SCHED_SUCCESS, insert_thread (Runnable p) t s)
     | THREAD_SLEEPING \<Rightarrow> Some (SCHED_SUCCESS, insert_thread (Waiting p) t s)
     | THREAD_BLOCKED \<Rightarrow> Some (SCHED_SUCCESS, insert_thread (Waiting p) t s)
     | THREAD_STOPPED \<Rightarrow> Some (SCHED_SUCCESS, insert_thread (Waiting p) t s)
     | THREAD_INIT \<Rightarrow> Some (SCHED_INVALID, s)
   }"

section \<open>The scheduler of i686\<close>

text \<open>
  \<^verbatim>\<open>i686_userspace_return\<close> pops a context into the registers and leaves for user space with
  \<^verbatim>\<open>iret\<close>: \<^verbatim>\<open>popa\<close> skips the stack pointer, and the interrupt number and the error code are
  skipped.
\<close>

record user_regs =
  u_gs :: u32
  u_fs :: u32
  u_es :: u32
  u_ds :: u32
  u_edi :: u32
  u_esi :: u32
  u_ebp :: u32
  u_ebx :: u32
  u_edx :: u32
  u_ecx :: u32
  u_eax :: u32
  u_eip :: u32
  u_cs :: u32
  u_eflags :: u32
  u_esp :: u32
  u_ss :: u32

definition i686_userspace_return :: "i686_context \<Rightarrow> user_regs" where
  "i686_userspace_return c =
     \<lparr>u_gs = c_gs c, u_fs = c_fs c, u_es = c_es c, u_ds = c_ds c, u_edi = c_edi c, u_esi = c_esi c,
      u_ebp = c_ebp c, u_ebx = c_ebx c, u_edx = c_edx c, u_ecx = c_ecx c, u_eax = c_eax c,
      u_eip = c_eip c, u_cs = c_cs c, u_eflags = c_eflags c, u_esp = c_useresp c, u_ss = c_ss c\<rparr>"

text \<open>The result is the state of the processor in user space; there is no return to the caller.\<close>

definition i686_scheduler_resume :: "sched_ptr \<Rightarrow> 'z sched_state \<Rightarrow> user_regs option" where
  "i686_scheduler_resume p s = do {
     let (_, t) = common_scheduler_get_current_thread p s;
     c_assert (t \<noteq> 0);
     Some (i686_userspace_return (t_ctx (thread_obj (km_ext s) t)))
   }"

definition i686_thread_alloc ::
  "'z sched_data_scheme kmem_run \<Rightarrow> sched_ptr \<Rightarrow> 'z sched_state \<Rightarrow>
   ((scheduler_err_t \<times> thread_ptr) \<times> 'z sched_state) option" where
  "i686_thread_alloc run p s = do {
     (new, s1) \<leftarrow> kmem_cache_alloc run (thread_cache (km_ext s)) s;
     c_assert (new \<noteq> 0);
     let s2 = upd_thread new (\<lambda>b. b\<lparr>t_ctx := zero_context\<lparr>c_gs := 0x23, c_fs := 0x23, c_es := 0x23,
                c_ds := 0x23, c_cs := 0x1B, c_eflags := 0, c_ss := 0x23, c_eip := 0x1000000\<rparr>\<rparr>) s1;
     Some ((SCHED_SUCCESS, new), s2)
   }"

definition i686_thread_destroy ::
  "sched_ptr \<Rightarrow> thread_ptr \<Rightarrow> 'z sched_state \<Rightarrow> (scheduler_err_t \<times> 'z sched_state) option" where
  "i686_thread_destroy p t s = do { c_assert False; Some (SCHED_SUCCESS, s) }"

text \<open>The constructor runs on a zeroed thread.\<close>

definition i686_init_thread_vfuncs :: "thread_ptr \<Rightarrow> 'z sched_state \<Rightarrow> 'z sched_state option" where
  "i686_init_thread_vfuncs t s = Some (upd_thread t (\<lambda>_. zero_thread\<lparr>t_v := Some I686_thread_vfuncs\<rparr>) s)"

definition i686_scheduler_init :: "sched_ptr \<Rightarrow> 'z sched_state \<Rightarrow> 'z sched_state" where
  "i686_scheduler_init p s =
     (let s1 = upd_sched p (\<lambda>b. b\<lparr>s_v := Some I686_scheduler_vfuncs\<rparr>) s;
          s2 = upd_ext (\<lambda>x. x\<lparr>thread_links := LIST_INIT (Waiting p) (LIST_INIT (Runnable p) (thread_links x))\<rparr>) s1;
          s3 = upd_sched p (\<lambda>b. b\<lparr>s_current := 0\<rparr>) s2;
          (tc, s4) = kmem_alloc s3;
          s5 = upd_ext (\<lambda>x. x\<lparr>thread_cache := tc\<rparr>) s4;
          (_, s6) = kmem_cache_init tc (bsp (km_ext s5)) ''thread'' sizeof_i686_thread
                      (Some I686_init_thread_vfuncs) None s5
      in s6)"

text \<open>All calls through the function pointers of the caches.\<close>

definition i686_run :: "'z sched_data_scheme kmem_run" where
  "i686_run = as_run i686_init_thread_vfuncs"

section \<open>The interface of \<^verbatim>\<open>scheduler.h\<close>\<close>

definition scheduler_reschedule :: "sched_ptr \<Rightarrow> 'z sched_state \<Rightarrow> (scheduler_err_t \<times> 'z sched_state) option" where
  "scheduler_reschedule p s = do {
     _ \<leftarrow> s_v (sched_obj (km_ext s) p);
     Some (common_scheduler_reschedule p s)
   }"

definition scheduler_resume :: "sched_ptr \<Rightarrow> 'z sched_state \<Rightarrow> user_regs option" where
  "scheduler_resume p s = do {
     _ \<leftarrow> s_v (sched_obj (km_ext s) p);
     i686_scheduler_resume p s
   }"

definition scheduler_get_current_thread :: "sched_ptr \<Rightarrow> 'z sched_state \<Rightarrow> (scheduler_err_t \<times> thread_ptr) option" where
  "scheduler_get_current_thread p s = do {
     _ \<leftarrow> s_v (sched_obj (km_ext s) p);
     Some (common_scheduler_get_current_thread p s)
   }"

definition scheduler_thread_alloc ::
  "'z sched_data_scheme kmem_run \<Rightarrow> sched_ptr \<Rightarrow> 'z sched_state \<Rightarrow>
   ((scheduler_err_t \<times> thread_ptr) \<times> 'z sched_state) option" where
  "scheduler_thread_alloc run p s = do {
     _ \<leftarrow> s_v (sched_obj (km_ext s) p);
     i686_thread_alloc run p s
   }"

definition scheduler_thread_add ::
  "sched_ptr \<Rightarrow> thread_ptr \<Rightarrow> 'z sched_state \<Rightarrow> (scheduler_err_t \<times> 'z sched_state) option" where
  "scheduler_thread_add p t s = do {
     _ \<leftarrow> s_v (sched_obj (km_ext s) p);
     common_scheduler_thread_add p t s
   }"

definition scheduler_thread_destroy ::
  "sched_ptr \<Rightarrow> thread_ptr \<Rightarrow> 'z sched_state \<Rightarrow> (scheduler_err_t \<times> 'z sched_state) option" where
  "scheduler_thread_destroy p t s = do {
     _ \<leftarrow> s_v (sched_obj (km_ext s) p);
     i686_thread_destroy p t s
   }"

definition scheduler_thread_lookup_by_id ::
  "sched_ptr \<Rightarrow> thread_id \<Rightarrow> 'z sched_state \<Rightarrow> (scheduler_err_t \<times> thread_ptr option) option" where
  "scheduler_thread_lookup_by_id p tid s = do {
     _ \<leftarrow> s_v (sched_obj (km_ext s) p);
     common_scheduler_thread_lookup_by_id p tid s
   }"

section \<open>Reachable states of a scheduler\<close>

lemma upd_thread_ext [simp]:
  "thread_obj (km_ext (upd_thread t f s)) = (thread_obj (km_ext s))(t := f (thread_obj (km_ext s) t))"
  "sched_obj (km_ext (upd_thread t f s)) = sched_obj (km_ext s)"
  "thread_links (km_ext (upd_thread t f s)) = thread_links (km_ext s)"
  "next_tid (km_ext (upd_thread t f s)) = next_tid (km_ext s)"
  "bsp (km_ext (upd_thread t f s)) = bsp (km_ext s)"
  by (simp_all add: upd_thread_def upd_ext_def)

lemma upd_sched_ext [simp]:
  "sched_obj (km_ext (upd_sched p f s)) = (sched_obj (km_ext s))(p := f (sched_obj (km_ext s) p))"
  "thread_obj (km_ext (upd_sched p f s)) = thread_obj (km_ext s)"
  "thread_links (km_ext (upd_sched p f s)) = thread_links (km_ext s)"
  by (simp_all add: upd_sched_def upd_ext_def)

lemma insert_thread_ext [simp]:
  "sched_obj (km_ext (insert_thread h t s)) = sched_obj (km_ext s)"
  "thread_obj (km_ext (insert_thread h t s)) = thread_obj (km_ext s)"
  "thread_links (km_ext (insert_thread h t s)) = LIST_INSERT_HEAD h t (thread_links (km_ext s))"
  by (simp_all add: insert_thread_def upd_ext_def)

text \<open>The thread after \<^verbatim>\<open>common_thread_init\<close>.\<close>

lemma common_thread_init_ext:
  "thread_obj (km_ext (snd (common_thread_init t space s))) = (thread_obj (km_ext s))
     (t := (thread_obj (km_ext s) t)\<lparr>t_cpu := bsp (km_ext s), t_tid := next_tid (km_ext s),
             t_state := THREAD_INIT, t_space := space\<rparr>)"
  "sched_obj (km_ext (snd (common_thread_init t space s))) = sched_obj (km_ext s)"
  "thread_links (km_ext (snd (common_thread_init t space s))) = thread_links (km_ext s)"
  "next_tid (km_ext (snd (common_thread_init t space s))) = next_tid (km_ext s) + 1"
  by (simp_all add: common_thread_init_def Let_def upd_thread_def upd_ext_def)

definition listed :: "'z sched_state \<Rightarrow> thread_ptr \<Rightarrow> bool" where
  "listed s t \<longleftrightarrow> (\<exists>H. linked (thread_links (km_ext s)) H \<and> t \<in> members H)"

text \<open>What the kernel does with a scheduler: it initialises and prepares threads that are in no
  list, adds them, and picks the next thread.\<close>

inductive sched_step :: "sched_ptr \<Rightarrow> 'z sched_state \<Rightarrow> 'z sched_state \<Rightarrow> bool" for p where
  Init: "\<not> listed s t \<Longrightarrow> thread_init t space s = Some (r, s') \<Longrightarrow> sched_step p s s'"
| Set_state: "\<not> listed s t \<Longrightarrow> sched_step p s (upd_thread t (\<lambda>b. b\<lparr>t_state := st\<rparr>) s)"
| Add: "\<not> listed s t \<Longrightarrow> scheduler_thread_add p t s = Some (r, s') \<Longrightarrow> sched_step p s s'"
| Reschedule: "scheduler_reschedule p s = Some (r, s') \<Longrightarrow> sched_step p s s'"

inductive sched_reaches :: "sched_ptr \<Rightarrow> 'z sched_state \<Rightarrow> 'z sched_state \<Rightarrow> bool" for p where
  Refl: "sched_reaches p s s"
| Step: "sched_reaches p s s' \<Longrightarrow> sched_step p s' s'' \<Longrightarrow> sched_reaches p s s''"

definition sched_lists :: "sched_ptr \<Rightarrow> 'z sched_state \<Rightarrow> (sched_head \<Rightarrow> thread_ptr list) \<Rightarrow> bool" where
  "sched_lists p s H \<longleftrightarrow>
     linked (thread_links (km_ext s)) H \<and>
     (\<forall>t\<in>set (H (Runnable p)). t_state (thread_obj (km_ext s) t) = THREAD_RUNNABLE) \<and>
     (\<forall>t\<in>set (H (Waiting p)). t_state (thread_obj (km_ext s) t) \<in> {THREAD_SLEEPING, THREAD_BLOCKED, THREAD_STOPPED}) \<and>
     (\<forall>t\<in>set (H (Runnable p)) \<union> set (H (Waiting p)). t \<noteq> 0 \<and> t_space (thread_obj (km_ext s) t) \<noteq> 0) \<and>
     (s_current (sched_obj (km_ext s) p) = 0 \<or> s_current (sched_obj (km_ext s) p) \<in> set (H (Runnable p)))"

definition sched_inv :: "sched_ptr \<Rightarrow> 'z sched_state \<Rightarrow> bool" where
  "sched_inv p s \<longleftrightarrow> (\<exists>H. sched_lists p s H)"

lemma sched_lists_unlisted:
  assumes "sched_lists p s H" "\<not> listed s t"
    and "thread_links (km_ext s') = thread_links (km_ext s)" "sched_obj (km_ext s') = sched_obj (km_ext s)"
    and "\<And>u. u \<noteq> t \<Longrightarrow> thread_obj (km_ext s') u = thread_obj (km_ext s) u"
  shows "sched_lists p s' H"
proof -
  have "u \<in> set (H h) \<Longrightarrow> u \<noteq> t" for u h
    using assms(1,2) by (auto simp: listed_def sched_lists_def members_iff)
  then have "u \<in> set (H h) \<Longrightarrow> thread_obj (km_ext s') u = thread_obj (km_ext s) u" for u h using assms(5) by blast
  then show ?thesis using assms(1,3,4) by (simp add: sched_lists_def ball_Un)
qed

lemma sched_lists_insert:
  assumes inv: "sched_lists p s H" and t: "\<not> listed s t" "t \<noteq> 0" "t_space (thread_obj (km_ext s) t) \<noteq> 0"
    and h: "h = Runnable p \<and> t_state (thread_obj (km_ext s) t) = THREAD_RUNNABLE \<or>
      h = Waiting p \<and> t_state (thread_obj (km_ext s) t) \<in> {THREAD_SLEEPING, THREAD_BLOCKED, THREAD_STOPPED}"
  shows "sched_lists p (insert_thread h t s) (H(h := t # H h))"
proof -
  have "linked (thread_links (km_ext s)) H" "t \<notin> members H"
    using inv t(1) by (auto simp: sched_lists_def listed_def)
  then have "linked (thread_links (km_ext (insert_thread h t s))) (H(h := t # H h))"
    using dl.insert_rep by simp
  then show ?thesis using inv t(2,3) h unfolding sched_lists_def by auto
qed

lemma add_steps:
  assumes "sched_lists p s H" "\<not> listed s t" "scheduler_thread_add p t s = Some (r, s')"
  shows "s' = s \<and> r = SCHED_INVALID \<and> t_state (thread_obj (km_ext s) t) = THREAD_INIT \<or>
    r = SCHED_SUCCESS \<and> (\<exists>h. s' = insert_thread h t s \<and> sched_lists p s' (H(h := t # H h)) \<and>
      (h = Runnable p \<and> t_state (thread_obj (km_ext s) t) = THREAD_RUNNABLE \<or>
       h = Waiting p \<and> t_state (thread_obj (km_ext s) t) \<in> {THREAD_SLEEPING, THREAD_BLOCKED, THREAD_STOPPED}))"
proof -
  have nz: "t \<noteq> 0" "t_space (thread_obj (km_ext s) t) \<noteq> 0"
    using assms(3) by (auto simp: scheduler_thread_add_def common_scheduler_thread_add_def bind_eq_Some_conv split: if_splits)
  note ins = sched_lists_insert[OF assms(1,2) nz]
  show ?thesis
    using assms(3) nz ins[of "Runnable p"] ins[of "Waiting p"]
    by (cases "t_state (thread_obj (km_ext s) t)")
      (auto simp: scheduler_thread_add_def common_scheduler_thread_add_def bind_eq_Some_conv)
qed

lemma reschedule_lists:
  assumes "sched_lists p s H" "scheduler_reschedule p s = Some (r, s')"
  shows "sched_lists p s' H" "s_current (sched_obj (km_ext s') p) = (case H (Runnable p) of [] \<Rightarrow> 0 | t # _ \<Rightarrow> t)"
    "r = SCHED_SUCCESS"
proof -
  have l: "linked (thread_links (km_ext s)) H" using assms(1) by (simp add: sched_lists_def)
  have s': "s' = upd_sched p (\<lambda>b. b\<lparr>s_current := (case H (Runnable p) of [] \<Rightarrow> 0 | t # _ \<Rightarrow> t)\<rparr>) s"
    "r = SCHED_SUCCESS"
    using assms(2) LIST_FIRST_linked[OF l, of "Runnable p"]
    by (auto simp: scheduler_reschedule_def common_scheduler_reschedule_def bind_eq_Some_conv split: list.splits)
  then show "s_current (sched_obj (km_ext s') p) = (case H (Runnable p) of [] \<Rightarrow> 0 | t # _ \<Rightarrow> t)" "r = SCHED_SUCCESS"
    by simp_all
  show "sched_lists p s' H" using assms(1) unfolding s'(1) sched_lists_def by (auto split: list.splits)
qed

lemma sched_step_inv:
  assumes "sched_step p s s'" "sched_inv p s"
  shows "sched_inv p s'"
proof -
  obtain H where H: "sched_lists p s H" using assms(2) by (auto simp: sched_inv_def)
  from assms(1) show ?thesis
  proof cases
    case (Init t space r)
    then have "s' = snd (common_thread_init t space s)" by (auto simp: thread_init_def bind_eq_Some_conv split: if_splits)
    then have "sched_lists p s' H"
      by (intro sched_lists_unlisted[OF H Init(1)]) (simp_all add: common_thread_init_ext)
    then show ?thesis by (auto simp: sched_inv_def)
  next
    case (Set_state t st)
    then have "sched_lists p s' H" by (intro sched_lists_unlisted[OF H Set_state(2)]) simp_all
    then show ?thesis by (auto simp: sched_inv_def)
  next
    case (Add t r)
    from add_steps[OF H this] show ?thesis using assms(2) unfolding sched_inv_def by blast
  next
    case (Reschedule r)
    then show ?thesis using reschedule_lists(1)[OF H] by (auto simp: sched_inv_def)
  qed
qed

lemma sched_reaches_inv: "sched_reaches p s s' \<Longrightarrow> sched_inv p s \<Longrightarrow> sched_inv p s'"
  by (induction rule: sched_reaches.induct) (auto intro: sched_step_inv)

text \<open>Threads initialised one after the other.\<close>

primrec init_all :: "thread_ptr list \<Rightarrow> as_ptr \<Rightarrow> 'z sched_state \<Rightarrow> 'z sched_state option" where
  "init_all [] space s = Some s"
| "init_all (t # ts) space s = do { (_, s1) \<leftarrow> thread_init t space s; init_all ts space s1 }"

lemma init_all_tids:
  assumes "distinct ts" "\<forall>t\<in>set ts. t \<noteq> 0 \<and> t_v (thread_obj (km_ext s) t) \<noteq> None"
  shows "\<exists>s'. init_all ts space s = Some s' \<and> next_tid (km_ext s') = next_tid (km_ext s) + of_nat (length ts) \<and>
    (\<forall>i<length ts. t_tid (thread_obj (km_ext s') (ts ! i)) = next_tid (km_ext s) + of_nat i) \<and>
    (\<forall>t. t \<notin> set ts \<longrightarrow> thread_obj (km_ext s') t = thread_obj (km_ext s) t)"
  using assms
proof (induction ts arbitrary: s)
  case Nil
  then show ?case by simp
next
  case (Cons t ts)
  let ?s1 = "snd (common_thread_init t space s)"
  have i: "thread_init t space s = Some (THREAD_SUCCESS, ?s1)"
    using Cons.prems(2) by (auto simp: thread_init_def common_thread_init_def Let_def)
  have "\<forall>u\<in>set ts. u \<noteq> 0 \<and> t_v (thread_obj (km_ext ?s1) u) \<noteq> None"
    using Cons.prems by (auto simp: common_thread_init_ext)
  then obtain s' where s': "init_all ts space ?s1 = Some s'"
    "next_tid (km_ext s') = next_tid (km_ext ?s1) + of_nat (length ts)"
    "\<forall>i<length ts. t_tid (thread_obj (km_ext s') (ts ! i)) = next_tid (km_ext ?s1) + of_nat i"
    "\<forall>u. u \<notin> set ts \<longrightarrow> thread_obj (km_ext s') u = thread_obj (km_ext ?s1) u"
    using Cons.IH[of ?s1] Cons.prems(1) by auto
  have "t_tid (thread_obj (km_ext s') ((t # ts) ! j)) = next_tid (km_ext s) + of_nat j" if "j < length (t # ts)" for j
    using that s'(3,4) Cons.prems(1) by (cases j) (auto simp: common_thread_init_ext)
  then show ?case using i s' by (auto simp: common_thread_init_ext)
qed

text \<open>Looking a thread up in lists of threads.\<close>

lemma find_SomeI: "x \<in> set xs \<Longrightarrow> P x \<Longrightarrow> List.find P xs \<noteq> None"
  by (auto simp: find_None_iff)

lemma lookup_lists:
  assumes "linked (thread_links (km_ext s)) H" "s_v (sched_obj (km_ext s) p) \<noteq> None"
  shows "scheduler_thread_lookup_by_id p tid s =
    (let P = \<lambda>t. t_tid (thread_obj (km_ext s) t) = tid in
     case List.find P (H (Runnable p)) of
       Some t \<Rightarrow> Some (SCHED_SUCCESS, Some t)
     | None \<Rightarrow> (case List.find P (H (Waiting p)) of
         Some t \<Rightarrow> Some (SCHED_SUCCESS, Some t) | None \<Rightarrow> Some (SCHED_NOTFOUND, None)))"
  using assms(2) LIST_FOREACH_find_linked[OF assms(1)]
  by (auto simp: scheduler_thread_lookup_by_id_def common_scheduler_thread_lookup_by_id_def Let_def
      cong: option.case_cong)

lemma scheduler_reset: "b\<lparr>s_v := v, s_current := c\<rparr> = \<lparr>s_v = v, s_current = c\<rparr>"
  by (cases b) simp

lemma kmem_cache_init_ext: "km_ext (snd (kmem_cache_init k c name sz ctor dtor s)) = km_ext s"
  by (simp add: common_kmem_cache_init_def Let_def upd_cache_def)

lemma kmem_alloc_ext: "km_ext (snd (kmem_alloc s)) = km_ext s"
  by (simp add: i686_kmem_cache_alloc_def)

lemma upd_ext_ext: "km_ext (upd_ext f s) = f (km_ext s)"
  by (simp add: upd_ext_def)

lemma i686_scheduler_init_ext:
  "sched_obj (km_ext (i686_scheduler_init p s)) = (sched_obj (km_ext s))(p := \<lparr>s_v = Some I686_scheduler_vfuncs, s_current = 0\<rparr>)"
  "thread_obj (km_ext (i686_scheduler_init p s)) = thread_obj (km_ext s)"
  "thread_links (km_ext (i686_scheduler_init p s)) = LIST_INIT (Waiting p) (LIST_INIT (Runnable p) (thread_links (km_ext s)))"
  "next_tid (km_ext (i686_scheduler_init p s)) = next_tid (km_ext s)"
  by (simp_all only: i686_scheduler_init_def Let_def split_def kmem_cache_init_ext upd_ext_ext kmem_alloc_ext upd_sched_def)
    (simp_all add: scheduler_reset)

lemma i686_scheduler_init_lists:
  assumes "linked (thread_links (km_ext s)) H"
  shows "sched_lists p (i686_scheduler_init p s) (H(Runnable p := [], Waiting p := []))"
  using dl.init_rep[OF dl.init_rep[OF assms, of "Runnable p"], of "Waiting p"]
  by (simp add: sched_lists_def i686_scheduler_init_ext)

section \<open>A concrete state\<close>

definition example_sched :: "sched_data kmem_state" where
  "example_sched = \<lparr>km_vm = example_user_vm,
     km_links = \<lparr>slh_first = (\<lambda>_. None), sle_next = (\<lambda>_. None)\<rparr>,
     km_slab = (\<lambda>_. \<lparr>num_total = 0, n_pages = 0, first_free = 0, freelist = (\<lambda>_. 0)\<rparr>),
     km_cache = (\<lambda>_. \<lparr>kc_name = [], objsize = 0, used = 0, kc_cpu = 0, kc_ctor = None, kc_dtor = None\<rparr>),
     next_free_cache = 0, sym_caches = 0xC0010000,
     km_ext = \<lparr>as_cache = 0, mr_cache = 0,
       as_obj = (\<lambda>_. \<lparr>as_v = Some I686_as_vfuncs, as_pd = 0x3000\<rparr>),
       mr_obj = (\<lambda>_. zero_region\<lparr>mr_v := Some I686_mr_vfuncs\<rparr>),
       as_regions = \<lparr>lh_first = (\<lambda>_. None), le_next = (\<lambda>_. None), le_prev = (\<lambda>_. None)\<rparr>,
       thread_obj = (\<lambda>_. zero_thread\<lparr>t_v := Some I686_thread_vfuncs\<rparr>),
       sched_obj = (\<lambda>_. \<lparr>s_v = None, s_current = 0\<rparr>),
       thread_links = \<lparr>lh_first = (\<lambda>_. None), le_next = (\<lambda>_. None), le_prev = (\<lambda>_. None)\<rparr>,
       thread_cache = 0xC0010000, next_tid = 1, bsp = 0xC0020000\<rparr>\<rparr>"

lemma example_sched_fields:
  "thread_obj (km_ext example_sched) t = zero_thread\<lparr>t_v := Some I686_thread_vfuncs\<rparr>"
  "linked (thread_links (km_ext example_sched)) (\<lambda>_. [])"
  "next_tid (km_ext example_sched) = 1"
  by (simp_all add: example_sched_def linked_def)

definition example_scheduler :: "sched_data kmem_state" where
  "example_scheduler = i686_scheduler_init 0xC0020100 example_sched"

lemma example_scheduler_lists: "sched_lists 0xC0020100 example_scheduler (\<lambda>_. [])"
  using i686_scheduler_init_lists[OF example_sched_fields(2), of "0xC0020100"]
  by (simp add: example_scheduler_def fun_upd_idem)

lemma example_scheduler_fields:
  "s_v (sched_obj (km_ext example_scheduler) 0xC0020100) = Some I686_scheduler_vfuncs"
  "thread_obj (km_ext example_scheduler) t = zero_thread\<lparr>t_v := Some I686_thread_vfuncs\<rparr>"
  "linked (thread_links (km_ext example_scheduler)) (\<lambda>_. [])"
  "next_tid (km_ext example_scheduler) = 1"
  using example_scheduler_lists
  by (simp_all add: example_scheduler_def i686_scheduler_init_ext example_sched_fields sched_lists_def)

text \<open>One thread, made runnable and added.\<close>

definition example_ready :: "sched_data kmem_state" where
  "example_ready = upd_thread 0xC0030000 (\<lambda>b. b\<lparr>t_state := THREAD_RUNNABLE\<rparr>)
     (snd (common_thread_init 0xC0030000 0xC0100000 example_scheduler))"

definition example_running :: "sched_data kmem_state" where
  "example_running = insert_thread (Runnable 0xC0020100) 0xC0030000 example_ready"

lemma none_listed: "linked (thread_links (km_ext s)) (\<lambda>_. []) \<Longrightarrow> \<not> listed s t"
  using linked_unique by (force simp: listed_def members_def)

lemma example_ready_fields:
  "thread_obj (km_ext example_ready) 0xC0030000 = zero_thread\<lparr>t_v := Some I686_thread_vfuncs,
     t_cpu := bsp (km_ext example_scheduler), t_tid := 1, t_state := THREAD_RUNNABLE, t_space := 0xC0100000\<rparr>"
  "s_v (sched_obj (km_ext example_ready) 0xC0020100) = Some I686_scheduler_vfuncs"
  "sched_lists 0xC0020100 example_ready (\<lambda>_. [])"
proof -
  show "thread_obj (km_ext example_ready) 0xC0030000 = zero_thread\<lparr>t_v := Some I686_thread_vfuncs,
     t_cpu := bsp (km_ext example_scheduler), t_tid := 1, t_state := THREAD_RUNNABLE, t_space := 0xC0100000\<rparr>"
   "s_v (sched_obj (km_ext example_ready) 0xC0020100) = Some I686_scheduler_vfuncs"
    by (simp_all add: example_ready_def common_thread_init_ext example_scheduler_fields)
  show "sched_lists 0xC0020100 example_ready (\<lambda>_. [])"
    using example_scheduler_lists
    by (simp add: example_ready_def sched_lists_def common_thread_init_ext)
qed

lemma example_ready_add:
  "scheduler_thread_add 0xC0020100 0xC0030000 example_ready = Some (SCHED_SUCCESS, example_running)"
  by (simp add: scheduler_thread_add_def common_scheduler_thread_add_def example_ready_fields example_running_def zero_thread_def)

lemma example_running_lists:
  "sched_lists 0xC0020100 example_running ((\<lambda>_. [])(Runnable 0xC0020100 := [0xC0030000]))"
  "s_v (sched_obj (km_ext example_running) 0xC0020100) = Some I686_scheduler_vfuncs"
proof -
  have "\<not> listed example_ready 0xC0030000"
    using example_ready_fields(3) by (intro none_listed) (simp add: sched_lists_def)
  from sched_lists_insert[OF example_ready_fields(3) this, of "Runnable 0xC0020100"]
  show "sched_lists 0xC0020100 example_running ((\<lambda>_. [])(Runnable 0xC0020100 := [0xC0030000]))"
    by (simp add: example_ready_fields(1) example_running_def zero_thread_def)
  show "s_v (sched_obj (km_ext example_running) 0xC0020100) = Some I686_scheduler_vfuncs"
    by (simp add: example_running_def example_ready_fields)
qed

lemma example_running_reached: "sched_reaches 0xC0020100 example_scheduler example_running"
proof -
  have nl: "\<not> listed example_scheduler 0xC0030000" "\<not> listed example_ready 0xC0030000"
    using example_scheduler_fields(3) example_ready_fields(3) by (intro none_listed; simp add: sched_lists_def)+
  let ?s1 = "snd (common_thread_init 0xC0030000 0xC0100000 example_scheduler)"
  have "thread_init 0xC0030000 0xC0100000 example_scheduler = Some (THREAD_SUCCESS, ?s1)"
    by (simp add: thread_init_def example_scheduler_fields common_thread_init_def Let_def)
  then have "sched_step 0xC0020100 example_scheduler ?s1" by (rule sched_step.Init[OF nl(1)])
  moreover have "\<not> listed ?s1 0xC0030000" using nl(1) by (simp add: listed_def common_thread_init_ext)
  then have "sched_step 0xC0020100 ?s1 example_ready" unfolding example_ready_def by (rule sched_step.Set_state)
  moreover have "sched_step 0xC0020100 example_ready example_running"
    by (rule sched_step.Add[OF nl(2) example_ready_add])
  ultimately show ?thesis by (blast intro: sched_reaches.intros)
qed

primrec reschedule_times :: "nat \<Rightarrow> sched_ptr \<Rightarrow> 'z sched_state \<Rightarrow> 'z sched_state option" where
  "reschedule_times 0 p s = Some s"
| "reschedule_times (Suc n) p s = do {
     s1 \<leftarrow> reschedule_times n p s;
     (_, s2) \<leftarrow> scheduler_reschedule p s1;
     Some s2
   }"

lemma reschedule_keeps_table:
  "scheduler_reschedule p s = Some (r, s') \<Longrightarrow> s_v (sched_obj (km_ext s') p) = s_v (sched_obj (km_ext s) p)"
  by (auto simp: scheduler_reschedule_def common_scheduler_reschedule_def bind_eq_Some_conv)

section \<open>Properties\<close>

text \<open>
  C19. In every state that a scheduler reaches from its initialisation, whatever the order of its steps: no thread is in two
  places, the runnable list holds runnable threads and the waiting list sleeping, blocked or stopped
  ones, all of them with an address space, and the current thread is none or a runnable one.  A
  resume therefore never enters a thread that may not run.
\<close>

theorem sched_reaches_keeps_inv:
  assumes "linked (thread_links (km_ext s)) H" "sched_reaches p (i686_scheduler_init p s) s'"
    and "scheduler_resume p s' = Some regs"
  shows "sched_inv p s' \<and> (\<exists>t. t = s_current (sched_obj (km_ext s') p) \<and>
    t_state (thread_obj (km_ext s') t) = THREAD_RUNNABLE \<and> t_space (thread_obj (km_ext s') t) \<noteq> 0 \<and>
    regs = i686_userspace_return (t_ctx (thread_obj (km_ext s') t)))"
proof -
  have "sched_inv p (i686_scheduler_init p s)"
    using i686_scheduler_init_lists[OF assms(1)] by (auto simp: sched_inv_def)
  then have inv: "sched_inv p s'" by (rule sched_reaches_inv[OF assms(2)])
  then obtain H where H: "sched_lists p s' H" by (auto simp: sched_inv_def)
  have "s_current (sched_obj (km_ext s') p) \<noteq> 0"
    "regs = i686_userspace_return (t_ctx (thread_obj (km_ext s') (s_current (sched_obj (km_ext s') p))))"
    using assms(3) by (auto simp: scheduler_resume_def i686_scheduler_resume_def
        common_scheduler_get_current_thread_def bind_eq_Some_conv split: if_splits)
  then show ?thesis using inv H by (auto simp: sched_lists_def)
qed

theorem sched_reaches_keeps_inv_witness:
  "\<exists>s' regs. sched_reaches 0xC0020100 example_scheduler s' \<and> sched_inv 0xC0020100 s' \<and>
     scheduler_resume 0xC0020100 s' = Some regs \<and>
     t_state (thread_obj (km_ext s') (s_current (sched_obj (km_ext s') 0xC0020100))) = THREAD_RUNNABLE"
proof -
  let ?p = "0xC0020100 :: sched_ptr"
  obtain s' where s': "scheduler_reschedule ?p example_running = Some (SCHED_SUCCESS, s')"
    by (simp add: scheduler_reschedule_def common_scheduler_reschedule_def example_running_lists)
  have reach: "sched_reaches ?p example_scheduler s'"
    by (rule sched_reaches.Step[OF example_running_reached sched_step.Reschedule[OF s']])
  have c: "s_current (sched_obj (km_ext s') ?p) = 0xC0030000" using reschedule_lists(2)[OF example_running_lists(1) s'] by simp
  have "s_v (sched_obj (km_ext s') ?p) \<noteq> None"
    using s' by (auto simp: scheduler_reschedule_def common_scheduler_reschedule_def example_running_lists)
  then obtain regs where "scheduler_resume ?p s' = Some regs"
    using c by (auto simp: scheduler_resume_def i686_scheduler_resume_def common_scheduler_get_current_thread_def)
  with sched_reaches_keeps_inv[OF example_sched_fields(2) reach[unfolded example_scheduler_def] this] reach
  show ?thesis by blast
qed

text \<open>
  \<^verbatim>\<open>scheduler_thread_add\<close> and \<^verbatim>\<open>scheduler_thread_lookup_by_id\<close>: a thread that can be added, and whose
  number no listed thread has, is found under its number afterwards, and every other thread that was
  found before is found still.
\<close>

theorem thread_add_lookup:
  assumes "sched_lists p s H" "s_v (sched_obj (km_ext s) p) \<noteq> None" "t \<notin> members H" "t \<noteq> 0"
    and "t_space (thread_obj (km_ext s) t) \<noteq> 0" "t_state (thread_obj (km_ext s) t) \<noteq> THREAD_INIT"
    and "\<forall>u\<in>set (H (Runnable p)) \<union> set (H (Waiting p)).
      t_tid (thread_obj (km_ext s) u) \<noteq> t_tid (thread_obj (km_ext s) t)"
  shows "\<exists>s'. scheduler_thread_add p t s = Some (SCHED_SUCCESS, s') \<and> sched_inv p s' \<and>
    scheduler_thread_lookup_by_id p (t_tid (thread_obj (km_ext s) t)) s' = Some (SCHED_SUCCESS, Some t) \<and>
    (\<forall>tid u. tid \<noteq> t_tid (thread_obj (km_ext s) t) \<longrightarrow>
       scheduler_thread_lookup_by_id p tid s = Some (SCHED_SUCCESS, Some u) \<longrightarrow>
       scheduler_thread_lookup_by_id p tid s' = Some (SCHED_SUCCESS, Some u))"
proof -
  have l: "linked (thread_links (km_ext s)) H" using assms(1) by (simp add: sched_lists_def)
  have nl: "\<not> listed s t" using assms(3) linked_unique[OF l] by (auto simp: listed_def)
  obtain r s' where add: "scheduler_thread_add p t s = Some (r, s')"
    using assms(2,4,5) by (cases "t_state (thread_obj (km_ext s) t)")
      (auto simp: scheduler_thread_add_def common_scheduler_thread_add_def)
  from add_steps[OF assms(1) nl add] assms(6) obtain h where
    h: "r = SCHED_SUCCESS" "s' = insert_thread h t s" "sched_lists p s' (H(h := t # H h))" "h = Runnable p \<or> h = Waiting p"
    by blast
  have l': "linked (thread_links (km_ext s')) (H(h := t # H h))" using h(3) by (simp add: sched_lists_def)
  have v': "s_v (sched_obj (km_ext s') p) \<noteq> None" using assms(2) h(2) by simp
  note look = lookup_lists[OF l' v', unfolded h(2), simplified, folded h(2)] lookup_lists[OF l assms(2)]
  have none: "List.find (\<lambda>u. t_tid (thread_obj (km_ext s) u) = t_tid (thread_obj (km_ext s) t)) (H (Runnable p)) = None"
    using assms(7) by (auto simp: find_None_iff)
  have "scheduler_thread_lookup_by_id p (t_tid (thread_obj (km_ext s) t)) s' = Some (SCHED_SUCCESS, Some t)"
    using h(4) none unfolding look by (auto simp: Let_def)
  moreover have "scheduler_thread_lookup_by_id p tid s' = scheduler_thread_lookup_by_id p tid s"
    if "tid \<noteq> t_tid (thread_obj (km_ext s) t)" for tid
    using h(4) unfolding look by (rule disjE) (simp_all add: Let_def that[symmetric] cong: option.case_cong)
  ultimately show ?thesis using add h(1,3) by (auto simp: sched_inv_def)
qed

theorem thread_add_lookup_witness:
  "\<exists>s'. scheduler_thread_add 0xC0020100 0xC0030000 example_ready = Some (SCHED_SUCCESS, s') \<and>
     scheduler_thread_lookup_by_id 0xC0020100 1 s' = Some (SCHED_SUCCESS, Some 0xC0030000)"
  using thread_add_lookup[OF example_ready_fields(3), of "0xC0030000"]
  by (auto simp: example_ready_fields(1,2) members_def zero_thread_def)

text \<open>
  Thread numbers: threads that are initialised one after the other get consecutive numbers from
  the counter, so that up to \<open>2 ^ 32\<close> of them have different numbers; the counter wraps around after
  that.
\<close>

theorem thread_ids_distinct:
  assumes "distinct ts" "\<forall>t\<in>set ts. t \<noteq> 0 \<and> t_v (thread_obj (km_ext s) t) \<noteq> None" "length ts \<le> 2 ^ 32"
  shows "\<exists>s'. init_all ts space s = Some s' \<and>
    inj_on (\<lambda>t. t_tid (thread_obj (km_ext s') t)) (set ts) \<and>
    (length ts = 2 ^ 32 \<longrightarrow> next_tid (km_ext s') = next_tid (km_ext s))"
proof -
  obtain s' where s': "init_all ts space s = Some s'" "next_tid (km_ext s') = next_tid (km_ext s) + of_nat (length ts)"
    "\<forall>i<length ts. t_tid (thread_obj (km_ext s') (ts ! i)) = next_tid (km_ext s) + of_nat i"
    using init_all_tids[OF assms(1,2), of space] by blast
  have "inj_on (\<lambda>t. t_tid (thread_obj (km_ext s') t)) (set ts)"
  proof (rule inj_onI)
    fix t u assume "t \<in> set ts" "u \<in> set ts" and eq: "t_tid (thread_obj (km_ext s') t) = t_tid (thread_obj (km_ext s') u)"
    then obtain i j where ij: "i < length ts" "t = ts ! i" "j < length ts" "u = ts ! j" by (auto simp: in_set_conv_nth)
    then have "(of_nat i :: u32) = of_nat j" using eq s'(3) by simp
    then have "unat (of_nat i :: u32) = unat (of_nat j :: u32)" by simp
    moreover have "i < 2 ^ 32" "j < 2 ^ 32" using ij(1,3) assms(3) by linarith+
    ultimately have "i = j" by (simp add: unat_of_nat)
    then show "t = u" using ij by simp
  qed
  moreover have "next_tid (km_ext s') = next_tid (km_ext s)" if "length ts = 2 ^ 32"
    using s'(2) that by (simp add: of_nat_2p_32)
  ultimately show ?thesis using s'(1) by blast
qed

theorem thread_ids_distinct_witness:
  "\<exists>s'. init_all [0xC0030000, 0xC0030100] 0xC0100000 example_scheduler = Some s' \<and>
     t_tid (thread_obj (km_ext s') 0xC0030000) \<noteq> t_tid (thread_obj (km_ext s') 0xC0030100)"
  using thread_ids_distinct[of "[0xC0030000, 0xC0030100]" example_scheduler "0xC0100000"]
  by (auto simp: example_scheduler_fields inj_on_def)



end
