(* ===== verification/Kernelspace.thy ===== *)
theory Kernelspace
  imports Walk
begin

text \<open>
  The kernel's part of the address spaces: what \<^verbatim>\<open>i686_virtmem_init\<close>, \<^verbatim>\<open>i686_brk\<close> and
  \<^verbatim>\<open>i686_setup_kernelspace\<close> of \<^verbatim>\<open>src/sys/i686/i686_virtmem.c\<close> establish.  The definitions are in
  \<open>Paging\<close>.
\<close>

section \<open>The shared page tables\<close>

text \<open>The directory entry for the table \<open>k\<close> of \<^verbatim>\<open>kernel_pts\<close>.\<close>

definition shared_pde :: "vm_state \<Rightarrow> u32 \<Rightarrow> i686_pde" where
  "shared_pde s k = i686_set_pde (word_to_pde 0) (sym_kernel_pts s + k * 4096 - highstart)
     (I686_PAGE_PRESENT OR I686_PAGE_WRITABLE)"

lemma i686_set_pde_any: "i686_set_pde p a fl = i686_set_pde q a fl"
  by (cases p; cases q) (simp add: i686_set_pde_def)

lemma set_shared_pde:
  "i686_set_pde p (sym_kernel_pts s + k * 4096 - highstart) (I686_PAGE_PRESENT OR I686_PAGE_WRITABLE) = shared_pde s k"
  unfolding shared_pde_def by (rule i686_set_pde_any)

lemma window_pd_modify_ok:
  assumes "window s j f" "unat i < 1024"
  shows "window_pd_modify (kaddr j) i g s = Some (s\<lparr>pmem :=
    store32 (frame_addr f + 4 * i) (pde_to_word (g (word_to_pde (load32 (pmem s) (frame_addr f + 4 * i))))) (pmem s)\<rparr>)"
  using window_ld32[OF assms] window_st32[OF assms] by (simp add: window_pd_modify_def pde_modify_def)

lemma set_kernel_pdes_window:
  assumes "window s j f" "unat c + n \<le> 1024" "768 \<le> unat c"
  shows "\<exists>m. set_kernel_pdes_loop (window_pd_modify (kaddr j)) n c s = Some (s\<lparr>pmem := m\<rparr>) \<and>
    same_outside {f} (pmem s) m \<and>
    (\<forall>k. unat k < 1024 \<longrightarrow> load32 m (frame_addr f + 4 * k) =
       (if unat c \<le> unat k \<and> unat k < unat c + n then pde_to_word (shared_pde s (k - 768))
        else load32 (pmem s) (frame_addr f + 4 * k)))"
  using assms
proof (induction n arbitrary: c s)
  case 0
  then show ?case by (auto intro!: exI[of _ "pmem s"] simp: same_outside_def)
next
  case (Suc n)
  have c: "unat c < 1024" using Suc.prems(2) by simp
  have c1: "unat (c + 1) = unat c + 1" using c by (simp add: unat_word_ariths(1))
  let ?m1 = "store32 (frame_addr f + 4 * c) (pde_to_word (shared_pde s (c - 768))) (pmem s)"
  let ?s1 = "s\<lparr>pmem := ?m1\<rparr>"
  have "window ?s1 j f" "unat (c + 1) + n \<le> 1024" "768 \<le> unat (c + 1)" using Suc.prems c1 by simp_all
  from Suc.IH[OF this] obtain m where
    m: "set_kernel_pdes_loop (window_pd_modify (kaddr j)) n (c + 1) ?s1 = Some (?s1\<lparr>pmem := m\<rparr>)"
    "same_outside {f} ?m1 m"
    "\<And>k. unat k < 1024 \<Longrightarrow> load32 m (frame_addr f + 4 * k) =
       (if unat (c + 1) \<le> unat k \<and> unat k < unat (c + 1) + n then pde_to_word (shared_pde ?s1 (k - 768))
        else load32 ?m1 (frame_addr f + 4 * k))"
    by auto
  have sh: "shared_pde ?s1 k = shared_pde s k" for k by (simp add: shared_pde_def)
  have step: "window_pd_modify (kaddr j) c (\<lambda>p. i686_set_pde p
      (sym_kernel_pts s + (c - n_start_pde) * 4096 - highstart) (I686_PAGE_PRESENT OR I686_PAGE_WRITABLE)) s = Some ?s1"
    by (simp only: window_pd_modify_ok[OF Suc.prems(1) c] n_start_pde_def set_shared_pde)
  have "set_kernel_pdes_loop (window_pd_modify (kaddr j)) (Suc n) c s = Some (s\<lparr>pmem := m\<rparr>)"
    using m(1) step by simp
  moreover have "same_outside {f} (pmem s) m"
    using store32_slot_outside[OF c] m(2) by (blast intro: same_outside_trans)
  moreover have "load32 m (frame_addr f + 4 * k) =
      (if unat c \<le> unat k \<and> unat k < unat c + Suc n then pde_to_word (shared_pde s (k - 768))
       else load32 (pmem s) (frame_addr f + 4 * k))" if "unat k < 1024" for k
  proof (cases "k = c")
    case True
    then show ?thesis using m(3)[OF that] load32_store32_slot[OF c that] by (simp add: c1)
  next
    case False
    then have "unat k \<noteq> unat c" by (simp add: word_unat_eq_iff)
    then have "unat (c + 1) \<le> unat k \<longleftrightarrow> unat c \<le> unat k" "unat (c + 1) + n = unat c + Suc n"
      by (auto simp: c1)
    then show ?thesis using m(3)[OF that] load32_store32_slot[OF c that] False sh by simp
  qed
  ultimately show ?case by blast
qed

section \<open>The identity mapping\<close>

definition identity_pte :: "nat \<Rightarrow> i686_pte" where
  "identity_pte k = i686_set_pte (word_to_pte 0) (of_nat k * 4096) (I686_PAGE_PRESENT OR I686_PAGE_WRITABLE)"

lemma i686_set_pte_any: "i686_set_pte p a fl = i686_set_pte q a fl"
  by (cases p; cases q) (simp add: i686_set_pte_def)

lemma brk_page:
  assumes "k < 262144"
  shows "pg_size * of_nat (786432 + k) - highstart = of_nat k * 4096"
    and "unat ((of_nat k * 4096 :: u32) div pg_size) = k"
proof -
  have "(of_nat (786432 + k) :: u32) = 786432 + of_nat k" by simp
  then show "pg_size * of_nat (786432 + k) - highstart = of_nat k * 4096"
    by (simp add: pg_size_def highstart_def algebra_simps)
  have "unat (of_nat k :: u32) = k" using assms by (simp add: unat_of_nat)
  then have "unat (of_nat k * 4096 :: u32) = k * 4096" using assms by (simp add: unat_word_ariths(2))
  then show "unat ((of_nat k * 4096 :: u32) div pg_size) = k" by (simp add: unat_div_distrib pg_size_def)
qed

lemma brk_loop_maps:
  assumes "n < 262144" "i \<le> Suc n"
  shows "i686_brk_loop (of_nat (786432 + i)) (of_nat (786432 + n)) s =
    Some (s\<lparr>kernel_flatpt := \<lambda>k. if i \<le> k \<and> k \<le> n then identity_pte k else kernel_flatpt s k\<rparr>)"
  using assms(2)
proof (induction "Suc n - i" arbitrary: i s)
  case 0
  then have i: "i = Suc n" by simp
  have "unat (of_nat (786432 + Suc n) :: u32) = 786432 + Suc n" "unat (of_nat (786432 + n) :: u32) = 786432 + n"
    using assms(1) by (simp_all add: unat_of_nat del: of_nat_add of_nat_Suc add_Suc_right)
  then have "\<not> (of_nat (786432 + i) :: u32) \<le> of_nat (786432 + n)"
    unfolding i word_le_nat_alt by (simp del: of_nat_add of_nat_Suc add_Suc_right)
  moreover have "(\<lambda>k. if Suc n \<le> k \<and> k \<le> n then identity_pte k else kernel_flatpt s k) = kernel_flatpt s"
    by (auto simp: fun_eq_iff)
  ultimately show ?case unfolding i by (subst i686_brk_loop.simps) (simp del: of_nat_add of_nat_Suc)
next
  case (Suc d)
  then have i: "i \<le> n" "i < 262144" "d = Suc n - Suc i" using assms(1) by simp_all
  let ?s1 = "s\<lparr>kernel_flatpt := (kernel_flatpt s)(i := identity_pte i)\<rparr>"
  have "unat (of_nat (786432 + i) :: u32) = 786432 + i" "unat (of_nat (786432 + n) :: u32) = 786432 + n"
    using assms(1) i by (simp_all add: unat_of_nat del: of_nat_add)
  then have le: "(of_nat (786432 + i) :: u32) \<le> of_nat (786432 + n)"
    unfolding word_le_nat_alt using i(1) by (simp del: of_nat_add)
  have nxt: "(of_nat (786432 + i) :: u32) + 1 = of_nat (786432 + Suc i)" by simp
  have id: "i686_set_pte (kernel_flatpt s i) (of_nat i * 4096) (I686_PAGE_PRESENT OR I686_PAGE_WRITABLE) = identity_pte i"
    unfolding identity_pte_def by (rule i686_set_pte_any)
  have "i686_brk_loop (of_nat (786432 + i)) (of_nat (786432 + n)) s =
      i686_brk_loop (of_nat (786432 + Suc i)) (of_nat (786432 + n)) ?s1"
    using le brk_page[OF i(2)] i(2) id
    by (subst i686_brk_loop.simps) (simp add: flatpt_read_def flatpt_write_def nxt del: of_nat_add of_nat_Suc)
  also have "\<dots> = Some (?s1\<lparr>kernel_flatpt := \<lambda>k. if Suc i \<le> k \<and> k \<le> n then identity_pte k else kernel_flatpt ?s1 k\<rparr>)"
    using Suc.hyps(1)[of "Suc i" ?s1] i by simp
  also have "\<dots> = Some (s\<lparr>kernel_flatpt := \<lambda>k. if i \<le> k \<and> k \<le> n then identity_pte k else kernel_flatpt s k\<rparr>)"
    using i(1) by (auto simp: fun_eq_iff intro!: arg_cong[of _ _ "\<lambda>f. s\<lparr>kernel_flatpt := f\<rparr>"])
  finally show ?case .
qed

lemma set_kernel_pdes_static:
  assumes "unat c + n \<le> 1024" "768 \<le> unat c"
  shows "set_kernel_pdes_loop static_pd_modify n c s = Some (s\<lparr>kernel_pd := \<lambda>k.
    if unat c \<le> k \<and> k < unat c + n then shared_pde s (of_nat k - 768) else kernel_pd s k\<rparr>)"
  using assms
proof (induction n arbitrary: c s)
  case 0
  have "(\<lambda>k. if unat c \<le> k \<and> k < unat c + 0 then shared_pde s (of_nat k - 768) else kernel_pd s k) = kernel_pd s"
    by (auto simp: fun_eq_iff)
  then show ?case by simp
next
  case (Suc n)
  have c1: "unat (c + 1) = unat c + 1" using Suc.prems by (simp add: unat_word_ariths(1))
  let ?s1 = "s\<lparr>kernel_pd := (kernel_pd s)(unat c := shared_pde s (c - 768))\<rparr>"
  have step: "static_pd_modify c (\<lambda>p. i686_set_pde p
      (sym_kernel_pts s + (c - n_start_pde) * 4096 - highstart) (I686_PAGE_PRESENT OR I686_PAGE_WRITABLE)) s = Some ?s1"
    by (simp only: static_pd_modify_def n_start_pde_def set_shared_pde)
  have "set_kernel_pdes_loop static_pd_modify (Suc n) c s = set_kernel_pdes_loop static_pd_modify n (c + 1) ?s1"
    using step by simp
  also have "\<dots> = Some (?s1\<lparr>kernel_pd := \<lambda>k.
      if unat (c + 1) \<le> k \<and> k < unat (c + 1) + n then shared_pde ?s1 (of_nat k - 768) else kernel_pd ?s1 k\<rparr>)"
    using Suc.IH[of "c + 1" ?s1] Suc.prems c1 by simp
  also have "\<dots> = Some (s\<lparr>kernel_pd := \<lambda>k.
      if unat c \<le> k \<and> k < unat c + Suc n then shared_pde s (of_nat k - 768) else kernel_pd s k\<rparr>)"
    by (auto simp: fun_eq_iff c1 shared_pde_def intro!: arg_cong[of _ _ "\<lambda>f. s\<lparr>kernel_pd := f\<rparr>"])
  finally show ?case .
qed

text \<open>The number of pages from the start of the kernel to a limit.\<close>

definition limit_pages :: "virtaddr_t \<Rightarrow> nat" where
  "limit_pages x = (unat x - 0xC0000000 + 4095) div 4096"

lemma limit_page:
  assumes "0xC0000000 \<le> unat x" "unat x \<le> 0xFFFFF000"
  shows "limit_pages x < 262144" "(x + 4095) div 4096 = of_nat (786432 + limit_pages x)"
proof -
  have u: "unat (x + 4095) = 786432 * 4096 + (unat x - 0xC0000000 + 4095)"
    using assms by (simp add: unat_word_ariths(1))
  have "unat x - 0xC0000000 + 4095 < 262144 * 4096" using assms by simp
  then show lt: "limit_pages x < 262144" unfolding limit_pages_def by (simp only: div_less_iff_less_mult)
  have "unat ((x + 4095) div 4096) = 786432 + limit_pages x"
    by (simp add: unat_div_distrib u limit_pages_def)
  moreover have "unat (of_nat (786432 + limit_pages x) :: u32) = 786432 + limit_pages x"
    using lt by (simp add: unat_of_nat del: of_nat_add)
  ultimately show "(x + 4095) div 4096 = of_nat (786432 + limit_pages x)" by (simp only: word_unat_eq_iff)
qed

text \<open>Raising the limit.\<close>

lemma i686_brk_ok:
  assumes "0xC0000000 \<le> unat (identitymap_limit s)" "identitymap_limit s \<le> newend" "unat newend \<le> 0xFFFFF000"
  shows "i686_brk newend s = Some (identitymap_limit s, s
    \<lparr>kernel_flatpt := \<lambda>k. if limit_pages (identitymap_limit s) < k \<and> k \<le> limit_pages newend then identity_pte k
       else kernel_flatpt s k, identitymap_limit := newend\<rparr>)"
proof -
  have le: "unat (identitymap_limit s) \<le> unat newend" using assms(2) by (simp add: word_le_nat_alt)
  then have "limit_pages (identitymap_limit s) \<le> limit_pages newend" by (simp add: limit_pages_def div_le_mono)
  then have i: "Suc (limit_pages (identitymap_limit s)) \<le> Suc (limit_pages newend)" by simp
  have n: "limit_pages newend < 262144" using limit_page(1)[of newend] assms(1,3) le by simp
  have p: "(identitymap_limit s + 4095) div 4096 + 1 = of_nat (786432 + Suc (limit_pages (identitymap_limit s)))"
    "(newend + 4095) div 4096 = of_nat (786432 + limit_pages newend)"
    using limit_page(2)[of "identitymap_limit s"] limit_page(2)[of newend] assms(1,3) le by simp_all
  have "\<not> newend < identitymap_limit s" using assms(2) by simp
  then show ?thesis
    using brk_loop_maps[OF n i, of s] unfolding i686_brk_def Let_def pg_size_def
    by (simp add: p Suc_le_eq del: of_nat_add of_nat_Suc cong: if_cong)
qed

lemma virtmem_init_steps:
  assumes "0xC0000000 \<le> unat (sym_ebss s)" "unat (sym_ebss s) \<le> 0xFFFFF000"
  shows "i686_virtmem_init s = Some (s
    \<lparr>kernel_pd := \<lambda>k. if 768 \<le> k \<and> k < 1024 then shared_pde s (of_nat k - 768) else kernel_pd s k,
     kernel_flatpt := \<lambda>k. if 1 \<le> k \<and> k \<le> limit_pages (sym_ebss s) then identity_pte k else kernel_flatpt s k,
     identitymap_limit := sym_ebss s, cr3 := sym_kernel_pd s - highstart\<rparr>)"
proof -
  let ?f = "\<lambda>k. if 768 \<le> k \<and> k < 1024 then shared_pde s (of_nat k - 768) else kernel_pd s k"
  let ?s1 = "s\<lparr>kernel_pd := ?f, identitymap_limit := 0xC0000000\<rparr>"
  have p: "i686_set_kernel_pdes static_pd_modify s = Some (s\<lparr>kernel_pd := ?f\<rparr>)"
    using set_kernel_pdes_static[of 768 256 s] by (simp add: i686_set_kernel_pdes_def n_kernel_pde_def n_start_pde_def)
  have "0xC0000000 \<le> sym_ebss s" using assms(1) by (simp add: word_le_nat_alt)
  then have b: "i686_brk (sym_ebss s) ?s1 = Some (0xC0000000, ?s1
      \<lparr>kernel_flatpt := \<lambda>k. if 1 \<le> k \<and> k \<le> limit_pages (sym_ebss s) then identity_pte k else kernel_flatpt s k,
       identitymap_limit := sym_ebss s\<rparr>)"
    using i686_brk_ok[of ?s1 "sym_ebss s"] assms(2) by (simp add: limit_pages_def[of "0xC0000000"] Suc_le_eq cong: if_cong)
  show ?thesis by (simp add: i686_virtmem_init_def p highstart_def b i686_set_context_def)
qed

lemma identity_pte_fields: "pt_present (identity_pte k)" "pt_phys_addr (identity_pte k) = frame_of (of_nat k * 4096)"
  by (simp_all add: identity_pte_def i686_set_pte_def bittestl_def page_flag_defs)

lemma identity_translates_from:
  assumes a: "0xC0000000 + m * 4096 \<le> unat a" "unat a < 0xC0000000 + (n + 1) * 4096"
    and f: "\<And>k. m \<le> k \<Longrightarrow> k \<le> n \<Longrightarrow> kernel_flatpt s k = identity_pte k"
  shows "kvirt_loc s a = Some (a - highstart)"
proof -
  have hi: "highstart \<le> a" using a(1) by (simp add: highstart_def word_le_nat_alt)
  have u: "unat (a - highstart) = unat a - 0xC0000000" using unat_sub[OF hi] by (simp add: highstart_def)
  let ?k = "unat ((a - highstart) div 4096)"
  have k: "?k = (unat a - 0xC0000000) div 4096" by (simp add: unat_div_distrib u)
  have "m \<le> ?k" unfolding k using a(1) by (simp add: less_eq_div_iff_mult_less_eq)
  moreover have "?k \<le> n" unfolding k using a(2) by (simp add: less_Suc_eq_le[symmetric] div_less_iff_less_mult)
  ultimately have e: "kernel_flatpt s ?k = identity_pte ?k" by (rule f)
  have w: "(of_nat ?k :: u32) = (a - highstart) div 4096" by simp
  have "unat (a mod 4096) = unat ((a - highstart) mod 4096)"
  proof -
    have "unat a = unat (a - highstart) + 786432 * 4096" using u a(1) by simp
    then have "unat a mod 4096 = unat (a - highstart) mod 4096" by (simp only: mod_mult_self1)
    then show ?thesis by (simp add: unat_mod_distrib)
  qed
  then have m: "a mod 4096 = (a - highstart) mod 4096" by (simp only: word_unat_eq_iff)
  have "frame_addr (frame_of ((a - highstart) div 4096 * 4096)) = (a - highstart) div 4096 * 4096"
    using frame_addr_frame_of[of "a - highstart"] frame_of_frame_addr by metis
  then have "frame_addr (frame_of (of_nat ?k * 4096)) + a mod 4096 = a - highstart"
    unfolding w m by (simp only: word_mod_div_equality)
  moreover have "\<not> a < highstart" using hi by simp
  ultimately show ?thesis
    unfolding kvirt_loc_def Let_def e identity_pte_fields(2) using identity_pte_fields(1) by simp
qed

lemma identity_translates:
  assumes "0xC0001000 \<le> unat a" "unat a < 0xC0000000 + (n + 1) * 4096"
    and "\<And>k. 1 \<le> k \<Longrightarrow> k \<le> n \<Longrightarrow> kernel_flatpt s k = identity_pte k"
  shows "kvirt_loc s a = Some (a - highstart)"
  by (rule identity_translates_from[where m = 1 and n = n]) (use assms in simp_all)

lemma example_vm_fields:
  "unat (sym_ebss example_vm) = 0xC0380000" "kernel_flatpt example_vm = (\<lambda>_. word_to_pte 0)"
  "local_page_size example_vm = Some 4096"
  by (simp_all add: example_vm_def local_page_size_def example_pool_page_size)

text \<open>The kernel's entries of a directory.\<close>

lemma setup_kernelspace_ok:
  assumes "2 \<le> card (kfree s)" "local_page_size s = Some 4096" "pd mod 4096 = 0"
  shows "\<exists>s'. virtmem_user_setup_kernelspace pd s = Some (VIRTMEM_SUCCESS, s') \<and>
    (\<forall>va. user_pde (pmem s') pd va =
       (if highstart \<le> va then shared_pde s (va div 4194304 - 768) else user_pde (pmem s) pd va)) \<and>
    same_outside {frame_of pd} (pmem s) (pmem s') \<and> keeps_mapped s s' \<and> card (kfree s') = card (kfree s) - 2 \<and>
    sym_kernel_pts s' = sym_kernel_pts s \<and> vm_pm s' = vm_pm s \<and> localmem s' = localmem s"
proof -
  obtain i j s1 where w: "i686_pagewalk_init pd s = Some (Some \<lparr>pagestart = 0, pw_pt = kaddr i, pw_pd = kaddr j\<rparr>, s1)"
    "pagewalk_ready pd i j s1" "only_flatpt s s1" "kfree s1 = kfree s - {i, j}" "i \<in> kfree s" "j \<in> kfree s"
    "keeps_mapped s s1"
    by (rule i686_pagewalk_init_ok[OF assms(1,2)])
  note same = only_flatptD[OF w(3)]
  have win: "window s1 j (frame_of pd)" "i \<noteq> j" using w(2) by (simp_all add: pagewalk_ready_def)
  have "unat (768 :: u32) + 256 \<le> 1024" "768 \<le> unat (768 :: u32)" by simp_all
  from set_kernel_pdes_window[OF win(1) this] obtain m where
    m: "set_kernel_pdes_loop (window_pd_modify (kaddr j)) 256 768 s1 = Some (s1\<lparr>pmem := m\<rparr>)"
    "same_outside {frame_of pd} (pmem s1) m"
    "\<And>k. unat k < 1024 \<Longrightarrow> load32 m (frame_addr (frame_of pd) + 4 * k) =
       (if 768 \<le> unat k \<and> unat k < 1024 then pde_to_word (shared_pde s1 (k - 768))
        else load32 (pmem s1) (frame_addr (frame_of pd) + 4 * k))"
    by auto
  have "virtmem_user_setup_kernelspace pd s = Some (VIRTMEM_SUCCESS, s1\<lparr>pmem := m\<rparr>)"
    using w(1) m(1) by (simp add: virtmem_user_setup_kernelspace_def i686_setup_kernelspace_def
        i686_set_kernel_pdes_def n_kernel_pde_def n_start_pde_def)
  moreover have "user_pde m pd va = (if highstart \<le> va then shared_pde s (va div 4194304 - 768) else user_pde (pmem s) pd va)" for va
  proof -
    have "768 \<le> unat (va div 4194304) \<longleftrightarrow> highstart \<le> va"
      by (simp add: highstart_def word_le_nat_alt unat_div_distrib less_eq_div_iff_mult_less_eq)
    then show ?thesis
      using m(3)[OF unat_pd_index[of va]] unat_pd_index[of va] same
      by (simp add: user_pde_def pd_slot_frame[OF assms(3), symmetric] word_to_pde_to_word shared_pde_def)
  qed
  moreover have "keeps_mapped s (s1\<lparr>pmem := m\<rparr>)" using w(7) by (simp add: keeps_mapped_def)
  moreover have "card (kfree (s1\<lparr>pmem := m\<rparr>)) = card (kfree s) - 2"
    using w(4-6) win(2) by (simp add: kfree_def[of "s1\<lparr>pmem := m\<rparr>"] kfree_def[of s1, symmetric] card_Diff_subset)
  ultimately show ?thesis using m(2) same by simp
qed

section \<open>Properties\<close>

text \<open>
  C21. \<^verbatim>\<open>i686_virtmem_init\<close>, for a kernel whose image ends below the last page: it returns, every
  address from the second page of the kernel space to the end of the image translates to itself less
  \<^verbatim>\<open>highstart\<close>, the 256 upper entries of the kernel's directory are the kernel's page tables, the
  others are as before, and the processor uses that directory.
\<close>

theorem virtmem_init_maps_kernel:
  assumes "0xC0000000 \<le> unat (sym_ebss s)" "unat (sym_ebss s) \<le> 0xFFFFF000"
  shows "\<exists>s'. i686_virtmem_init s = Some s' \<and> cr3 s' = sym_kernel_pd s - highstart \<and> identitymap_limit s' = sym_ebss s \<and>
    (\<forall>a. 0xC0001000 \<le> unat a \<longrightarrow> a < sym_ebss s \<longrightarrow> kvirt_loc s' a = Some (a - highstart)) \<and>
    (\<forall>k. kernel_pd s' k = (if 768 \<le> k \<and> k < 1024 then shared_pde s (of_nat k - 768) else kernel_pd s k))"
proof -
  let ?s' = "s
    \<lparr>kernel_pd := \<lambda>k. if 768 \<le> k \<and> k < 1024 then shared_pde s (of_nat k - 768) else kernel_pd s k,
     kernel_flatpt := \<lambda>k. if 1 \<le> k \<and> k \<le> limit_pages (sym_ebss s) then identity_pte k else kernel_flatpt s k,
     identitymap_limit := sym_ebss s, cr3 := sym_kernel_pd s - highstart\<rparr>"
  have "kvirt_loc ?s' a = Some (a - highstart)" if "0xC0001000 \<le> unat a" "a < sym_ebss s" for a
  proof (rule identity_translates[OF that(1)])
    have "unat (sym_ebss s) - 0xC0000000 + 4095 < (limit_pages (sym_ebss s) + 1) * 4096"
      unfolding limit_pages_def using div_less_iff_less_mult[of 4096 "unat (sym_ebss s) - 0xC0000000 + 4095"
          "(unat (sym_ebss s) - 0xC0000000 + 4095) div 4096 + 1"] by simp
    then show "unat a < 0xC0000000 + (limit_pages (sym_ebss s) + 1) * 4096"
      using that(2) assms(1) by (simp add: word_less_nat_alt)
  qed simp
  then show ?thesis using virtmem_init_steps[OF assms] by simp
qed

theorem virtmem_init_maps_kernel_witness:
  "\<exists>s'. i686_virtmem_init example_vm = Some s' \<and> kvirt_loc s' 0xC0100000 = Some 0x100000"
  using virtmem_init_maps_kernel[of example_vm] by (auto simp: example_vm_fields highstart_def word_less_nat_alt)

text \<open>
  The comment of \<^verbatim>\<open>i686_brk\<close> promises the space from the start of the kernel to the limit.  The
  loop begins one page later: after \<^verbatim>\<open>i686_virtmem_init\<close> on the zeroed tables of a new kernel the first
  page is not mapped, an access to it has no result, and \<^verbatim>\<open>i686_kernel_alloc\<close> hands it out as the first
  free page.
\<close>

theorem virtmem_init_skips_first_page:
  assumes "0xC0000000 \<le> unat (sym_ebss s)" "unat (sym_ebss s) \<le> 0xFFFFF000"
    and "kernel_flatpt s = (\<lambda>_. word_to_pte 0)"
  shows "\<exists>s' s''. i686_virtmem_init s = Some s' \<and> kvirt_loc s' highstart = None \<and>
    i686_kernel_alloc 1 s' = Some ((VIRTMEM_SUCCESS, Some highstart), s'')"
proof -
  obtain s' where s': "i686_virtmem_init s = Some s'" "\<not> pt_present (kernel_flatpt s' 0)"
    using virtmem_init_steps[OF assms(1,2)] assms(3) by simp
  have "kernel_alloc_scan 0 s' = Some 0" using s'(2) by (subst kernel_alloc_scan.simps) (simp add: n_kernel_pde_def)
  then have "\<exists>s''. i686_kernel_alloc 1 s' = Some ((VIRTMEM_SUCCESS, Some highstart), s'')"
    by (simp add: i686_kernel_alloc_def flatpt_read_def flatpt_write_def)
  moreover have "kvirt_loc s' highstart = None" using s'(2) by (simp add: kvirt_loc_def highstart_def)
  ultimately show ?thesis using s'(1) by blast
qed

theorem virtmem_init_skips_first_page_witness:
  "\<exists>s' s''. i686_virtmem_init example_vm = Some s' \<and> kvirt_loc s' 0xC0000000 = None \<and>
    i686_kernel_alloc 1 s' = Some ((VIRTMEM_SUCCESS, Some 0xC0000000), s'')"
  using virtmem_init_skips_first_page[of example_vm] by (simp add: example_vm_fields highstart_def)

text \<open>
  C22. \<^verbatim>\<open>i686_setup_kernelspace\<close> with two free kernel pages for the windows: it returns, the directory
  shares all the page tables of the kernel above \<^verbatim>\<open>highstart\<close>, its entries below are as before, no other
  frame of memory changes and no kernel page that is in use is disturbed.  So the kernel's space is
  the same in every address space.
\<close>

theorem setup_kernelspace_shares:
  assumes "2 \<le> card (kfree s)" "local_page_size s = Some 4096" "pd mod 4096 = 0"
  shows "\<exists>s'. virtmem_user_setup_kernelspace pd s = Some (VIRTMEM_SUCCESS, s') \<and>
    (\<forall>va. user_pde (pmem s') pd va =
       (if highstart \<le> va then shared_pde s (va div 4194304 - 768) else user_pde (pmem s) pd va)) \<and>
    same_outside {frame_of pd} (pmem s) (pmem s') \<and> keeps_mapped s s' \<and> card (kfree s') = card (kfree s) - 2"
  using setup_kernelspace_ok[OF assms] by blast

theorem setup_kernelspace_shares_witness:
  "\<exists>s'. virtmem_user_setup_kernelspace 0x3000 example_vm = Some (VIRTMEM_SUCCESS, s') \<and>
     user_pde (pmem s') 0x3000 0xC0000000 = shared_pde example_vm 0"
  using setup_kernelspace_shares[of example_vm "0x3000"]
  by (auto simp: example_vm_kfree example_vm_fields highstart_def)

end
