(* ===== verification/Strings.thy ===== *)
theory Strings
  imports Walk "HOL-Library.Sublist"
begin

text \<open>
  The string functions of \<^verbatim>\<open>src/sys/lib/strfuncs.c\<close>, \<^verbatim>\<open>src/sys/lib/strlcpy.c\<close> and
  \<^verbatim>\<open>src/sys/lib/strlcat.c\<close>, on the byte accesses of \<open>Cmem\<close>.  A loop that runs until it meets a NUL
  is a partial function: it has no result when it leaves the mapped memory or never meets one.
  \<^verbatim>\<open>char\<close> is signed on the target.
\<close>

section \<open>Strings\<close>

text \<open>\<^verbatim>\<open>while (*tmp++);\<close> the result is the final \<^verbatim>\<open>tmp\<close>.\<close>

partial_function (option) strlen_loop :: "'s load8 \<Rightarrow> virtaddr_t \<Rightarrow> 's \<Rightarrow> virtaddr_t option" where
  "strlen_loop ld tmp s = do {
     c \<leftarrow> ld tmp s;
     if c \<noteq> 0 then strlen_loop ld (tmp + 1) s else Some (tmp + 1)
   }"

definition strlen :: "'s load8 \<Rightarrow> virtaddr_t \<Rightarrow> 's \<Rightarrow> c_size_t option" where
  "strlen ld str s = do { tmp \<leftarrow> strlen_loop ld str s; Some (tmp - str - 1) }"

partial_function (option) strcpy_loop ::
  "'s load8 \<Rightarrow> 's store8 \<Rightarrow> virtaddr_t \<Rightarrow> virtaddr_t \<Rightarrow> 's \<Rightarrow> (virtaddr_t \<times> virtaddr_t \<times> 's) option" where
  "strcpy_loop ld st dst p s = do {
     c \<leftarrow> ld p s;
     if c \<noteq> 0 then do { s1 \<leftarrow> st dst c s; strcpy_loop ld st (dst + 1) (p + 1) s1 }
     else Some (dst, p, s)
   }"

definition strcpy :: "'s load8 \<Rightarrow> 's store8 \<Rightarrow> virtaddr_t \<Rightarrow> virtaddr_t \<Rightarrow> 's \<Rightarrow> (c_size_t \<times> 's) option" where
  "strcpy ld st dst src s = do {
     (d, p, s1) \<leftarrow> strcpy_loop ld st dst src s;
     s2 \<leftarrow> st d 0 s1;
     Some (p - src, s2)
   }"

text \<open>\<^verbatim>\<open>n\<close> counts down: the loop runs at most \<^verbatim>\<open>n\<close> times.\<close>

primrec strncmp_loop :: "'s load8 \<Rightarrow> nat \<Rightarrow> virtaddr_t \<Rightarrow> virtaddr_t \<Rightarrow> 's \<Rightarrow> int option" where
  "strncmp_loop ld 0 s1 s2 s = Some 0"
| "strncmp_loop ld (Suc n) s1 s2 s = do {
     a \<leftarrow> ld s1 s;
     b \<leftarrow> ld s2 s;
     if a = 0 then (if b = 0 then Some 0 else Some (-1))
     else if b = 0 then Some 1
     else if sint a > sint b then Some 1
     else if sint a < sint b then Some (-1)
     else strncmp_loop ld n (s1 + 1) (s2 + 1) s
   }"

definition strncmp :: "'s load8 \<Rightarrow> virtaddr_t \<Rightarrow> virtaddr_t \<Rightarrow> c_size_t \<Rightarrow> 's \<Rightarrow> int option" where
  "strncmp ld s1 s2 n s = strncmp_loop ld (unat n) s1 s2 s"

partial_function (option) strstr :: "'s load8 \<Rightarrow> virtaddr_t \<Rightarrow> virtaddr_t \<Rightarrow> 's \<Rightarrow> virtaddr_t option" where
  "strstr ld haystack needle s = do {
     c \<leftarrow> ld haystack s;
     if c \<noteq> 0 then do {
       n0 \<leftarrow> ld needle s;
       if c = n0 then do {
         len \<leftarrow> strlen ld needle s;
         r \<leftarrow> strncmp ld haystack needle len s;
         if r = 0 then Some haystack else strstr ld (haystack + 1) needle s
       }
       else strstr ld (haystack + 1) needle s
     }
     else Some 0
   }"

section \<open>Numbers\<close>

text \<open>The digits, the lowest first; the loop runs at least once.  The result is the final \<^verbatim>\<open>p\<close>.\<close>

definition digit_char :: "u32 \<Rightarrow> u8" where
  "digit_char remainder = (if sint remainder < 10 then ucast (remainder + 0x30) else ucast (remainder + 0x61 - 10))"

partial_function (option) itoa_digits ::
  "'s store8 \<Rightarrow> u32 \<Rightarrow> u32 \<Rightarrow> virtaddr_t \<Rightarrow> 's \<Rightarrow> (virtaddr_t \<times> 's) option" where
  "itoa_digits st divisor ud p s = do {
     let remainder = ud mod divisor;
     s1 \<leftarrow> st p (digit_char remainder) s;
     let ud1 = ud div divisor;
     if ud1 \<noteq> 0 then itoa_digits st divisor ud1 (p + 1) s1 else Some (p + 1, s1)
   }"

partial_function (option) itoa_reverse ::
  "'s load8 \<Rightarrow> 's store8 \<Rightarrow> virtaddr_t \<Rightarrow> virtaddr_t \<Rightarrow> 's \<Rightarrow> 's option" where
  "itoa_reverse ld st p1 p2 s =
     (if p1 < p2 then do {
        tmp \<leftarrow> ld p1 s;
        c \<leftarrow> ld p2 s;
        s1 \<leftarrow> st p1 c s;
        s2 \<leftarrow> st p2 tmp s1;
        itoa_reverse ld st (p1 + 1) (p2 - 1) s2
      } else Some s)"

text \<open>\<^verbatim>\<open>base\<close> is a character: \<^verbatim>\<open>'d'\<close> (0x64) or \<^verbatim>\<open>'x'\<close> (0x78); \<^verbatim>\<open>-d\<close> of the least integer is that
  integer.\<close>

definition itoa ::
  "'s load8 \<Rightarrow> 's store8 \<Rightarrow> virtaddr_t \<Rightarrow> u32 \<Rightarrow> u32 \<Rightarrow> 's \<Rightarrow> 's option" where
  "itoa ld st buf0 base d s = do {
     (p, buf, ud, divisor, s1) \<leftarrow>
       (if base = 0x64 \<and> sint d < 0 then do { s' \<leftarrow> st buf0 0x2d s; Some (buf0 + 1, buf0 + 1, - d, 10, s') }
        else if base = 0x78 then Some (buf0, buf0, d, 16, s)
        else Some (buf0, buf0, d, 10, s));
     (p', s2) \<leftarrow> itoa_digits st divisor ud p s1;
     s3 \<leftarrow> st p' 0 s2;
     itoa_reverse ld st buf (p' - 1) s3
   }"

section \<open>Bounded copies\<close>

text \<open>\<^verbatim>\<open>while (--n != 0)\<close>, entered with \<^verbatim>\<open>n > 0\<close>: \<open>k\<close> is \<^verbatim>\<open>n - 1\<close>, the number of rounds left.  The
  result is the final \<^verbatim>\<open>d\<close>, \<^verbatim>\<open>s\<close> and \<^verbatim>\<open>n\<close>.\<close>

primrec strlcpy_loop ::
  "'s load8 \<Rightarrow> 's store8 \<Rightarrow> nat \<Rightarrow> virtaddr_t \<Rightarrow> virtaddr_t \<Rightarrow> 's \<Rightarrow> (virtaddr_t \<times> virtaddr_t \<times> nat \<times> 's) option" where
  "strlcpy_loop ld st 0 d p s = Some (d, p, 0, s)"
| "strlcpy_loop ld st (Suc k) d p s = do {
     c \<leftarrow> ld p s;
     s1 \<leftarrow> st d c s;
     if c = 0 then Some (d + 1, p + 1, Suc k, s1) else strlcpy_loop ld st k (d + 1) (p + 1) s1
   }"

definition strlcpy ::
  "'s load8 \<Rightarrow> 's store8 \<Rightarrow> virtaddr_t \<Rightarrow> virtaddr_t \<Rightarrow> c_size_t \<Rightarrow> 's \<Rightarrow> (c_size_t \<times> 's) option" where
  "strlcpy ld st dst src siz s = do {
     (d, p, n, s1) \<leftarrow> (if siz \<noteq> 0 then strlcpy_loop ld st (unat siz - 1) dst src s else Some (dst, src, 0, s));
     if n = 0 then do {
       s2 \<leftarrow> (if siz \<noteq> 0 then st d 0 s1 else Some s1);
       p' \<leftarrow> strlen_loop ld p s2;
       Some (p' - src - 1, s2)
     }
     else Some (p - src - 1, s1)
   }"

text \<open>\<^verbatim>\<open>while (n-- != 0 && *d != 0) d++;\<close>\<close>

primrec strlcat_end :: "'s load8 \<Rightarrow> nat \<Rightarrow> virtaddr_t \<Rightarrow> 's \<Rightarrow> virtaddr_t option" where
  "strlcat_end ld 0 d s = Some d"
| "strlcat_end ld (Suc n) d s = do {
     c \<leftarrow> ld d s;
     if c \<noteq> 0 then strlcat_end ld n (d + 1) s else Some d
   }"

partial_function (option) strlcat_loop ::
  "'s load8 \<Rightarrow> 's store8 \<Rightarrow> u32 \<Rightarrow> virtaddr_t \<Rightarrow> virtaddr_t \<Rightarrow> 's \<Rightarrow> (virtaddr_t \<times> virtaddr_t \<times> 's) option" where
  "strlcat_loop ld st n d p s = do {
     c \<leftarrow> ld p s;
     if c \<noteq> 0 then
       if n \<noteq> 1 then do { s1 \<leftarrow> st d c s; strlcat_loop ld st (n - 1) (d + 1) (p + 1) s1 }
       else strlcat_loop ld st n d (p + 1) s
     else Some (d, p, s)
   }"

definition strlcat ::
  "'s load8 \<Rightarrow> 's store8 \<Rightarrow> virtaddr_t \<Rightarrow> virtaddr_t \<Rightarrow> c_size_t \<Rightarrow> 's \<Rightarrow> (c_size_t \<times> 's) option" where
  "strlcat ld st dst src siz s = do {
     d \<leftarrow> strlcat_end ld (unat siz) dst s;
     let dlen = d - dst;
     let n = siz - dlen;
     if n = 0 then do { l \<leftarrow> strlen ld src s; Some (dlen + l, s) }
     else do {
       (d', p, s1) \<leftarrow> strlcat_loop ld st n d src s;
       s2 \<leftarrow> st d' 0 s1;
       Some (dlen + (p - src), s2)
     }
   }"

section \<open>Formatted output\<close>

text \<open>
  The variable arguments are a list of words; a conversion without an argument has no result.
  \<open>buf\<close> is the local array of 20 bytes.  The result is the final \<^verbatim>\<open>out\<close>.
\<close>

definition snprintf_conv ::
  "'s load8 \<Rightarrow> 's store8 \<Rightarrow> virtaddr_t \<Rightarrow> virtaddr_t \<Rightarrow> u32 \<Rightarrow> virtaddr_t \<Rightarrow> u8 \<Rightarrow> u32 list \<Rightarrow> 's \<Rightarrow>
   (virtaddr_t \<times> u32 list \<times> 's) option" where
  "snprintf_conv ld st buf output maxlen out conv ap s =
     (if conv \<in> {0x64, 0x75, 0x78} then
        case ap of [] \<Rightarrow> None
        | arg # ap' \<Rightarrow> do {
            s1 \<leftarrow> itoa ld st buf (if conv = 0x78 then 0x78 else 0x64) arg s;
            (l, s2) \<leftarrow> strlcpy ld st out buf (maxlen - (out - output)) s1;
            Some (out + l, ap', s2)
          }
      else if conv = 0x73 then
        case ap of [] \<Rightarrow> None
        | arg # ap' \<Rightarrow> do {
            (l, s1) \<leftarrow> strlcpy ld st out arg (maxlen - (out - output)) s;
            Some (out + l, ap', s1)
          }
      else Some (out, ap, s))"

partial_function (option) snprintf_loop ::
  "'s load8 \<Rightarrow> 's store8 \<Rightarrow> virtaddr_t \<Rightarrow> virtaddr_t \<Rightarrow> u32 \<Rightarrow> virtaddr_t \<Rightarrow> virtaddr_t \<Rightarrow> u32 list \<Rightarrow> 's \<Rightarrow>
   (virtaddr_t \<times> 's) option" where
  "snprintf_loop ld st buf output maxlen format out ap s = do {
     c \<leftarrow> ld format s;
     if c \<noteq> 0 then do {
       (format', out', ap', s') \<leftarrow>
         (if c = 0x25 then do {
            conv \<leftarrow> ld (format + 1) s;
            (o1, a1, s1) \<leftarrow> snprintf_conv ld st buf output maxlen out conv ap s;
            Some (format + 2, o1, a1, s1)
          }
          else do { s1 \<leftarrow> st out c s; Some (format + 1, out + 1, ap, s1) });
       if output + maxlen \<le> out' then Some (out', s')
       else snprintf_loop ld st buf output maxlen format' out' ap' s'
     }
     else Some (out, s)
   }"

definition k_snprintf_vaarg ::
  "'s load8 \<Rightarrow> 's store8 \<Rightarrow> virtaddr_t \<Rightarrow> virtaddr_t \<Rightarrow> u32 \<Rightarrow> virtaddr_t \<Rightarrow> u32 list \<Rightarrow> 's \<Rightarrow> 's option" where
  "k_snprintf_vaarg ld st buf output maxlen format ap s = do {
     (out, s1) \<leftarrow> snprintf_loop ld st buf output maxlen format output ap s;
     s2 \<leftarrow> (if out < output + maxlen then st out 0 s1 else Some s1);
     st (output - 1) 0 s2
   }"

definition k_snprintf ::
  "'s load8 \<Rightarrow> 's store8 \<Rightarrow> virtaddr_t \<Rightarrow> virtaddr_t \<Rightarrow> u32 \<Rightarrow> virtaddr_t \<Rightarrow> u32 list \<Rightarrow> 's \<Rightarrow> 's option" where
  "k_snprintf = k_snprintf_vaarg"

section \<open>NUL-terminated strings\<close>

primrec cstr :: "'s load8 \<Rightarrow> 's \<Rightarrow> virtaddr_t \<Rightarrow> u8 list \<Rightarrow> bool" where
  "cstr ld s a [] \<longleftrightarrow> ld a s = Some 0"
| "cstr ld s a (b # bs) \<longleftrightarrow> ld a s = Some b \<and> b \<noteq> 0 \<and> cstr ld s (a + 1) bs"

lemma cstr_nth:
  "cstr ld s a bs \<longleftrightarrow> (\<forall>i<length bs. ld (a + of_nat i) s = Some (bs ! i) \<and> bs ! i \<noteq> 0) \<and>
     ld (a + of_nat (length bs)) s = Some 0"
proof (induction bs arbitrary: a)
  case (Cons b bs)
  then show ?case by (auto simp: less_Suc_eq_0_disj add.assoc)
qed simp

lemma cstr_length:
  assumes "cstr ld s a bs"
  shows "length bs < 2 ^ 32"
proof (rule ccontr)
  assume "\<not> length bs < 2 ^ 32"
  then obtain i where i: "length bs = i + 2 ^ 32" using less_eqE[of "2 ^ 32" "length bs"] by (auto simp: add.commute)
  then have "(of_nat (length bs) :: u32) = of_nat i" by (simp add: of_nat_2p_32)
  moreover have "i < length bs" using i by simp
  ultimately show False using assms unfolding cstr_nth by (metis option.inject)
qed

lemma cstr_drop:
  assumes "cstr ld s a bs" "i \<le> length bs"
  shows "cstr ld s (a + of_nat i) (drop i bs)"
  using assms by (auto simp: cstr_nth add.assoc simp flip: of_nat_add)

lemma strlen_loop_cstr: "cstr ld s a bs \<Longrightarrow> strlen_loop ld a s = Some (a + of_nat (length bs) + 1)"
proof (induction bs arbitrary: a)
  case Nil
  then show ?case by (subst strlen_loop.simps) simp
next
  case (Cons b bs)
  then show ?case by (subst strlen_loop.simps) (simp add: algebra_simps)
qed

lemma strlen_cstr: "cstr ld s a bs \<Longrightarrow> strlen ld a s = Some (of_nat (length bs))"
  by (simp add: strlen_def strlen_loop_cstr)

section \<open>Comparison\<close>

lemma strncmp_loop_zero:
  assumes "cstr ld s a xs" "cstr ld s b ys"
  shows "\<exists>r. strncmp_loop ld n a b s = Some r \<and> (r = 0 \<longleftrightarrow> take n xs = take n ys)"
  using assms
proof (induction n arbitrary: a b xs ys)
  case (Suc n)
  show ?case
  proof (cases xs; cases ys)
    fix x xs' y ys' assume xy: "xs = x # xs'" "ys = y # ys'"
    show ?thesis
    proof (cases "x = y")
      case True
      have "cstr ld s (a + 1) xs'" "cstr ld s (b + 1) ys'" using Suc.prems xy by simp_all
      from Suc.IH[OF this] show ?thesis using Suc.prems xy True by simp
    next
      case False
      then have "sint x \<noteq> sint y" using signed_word_eqI by blast
      then show ?thesis using Suc.prems xy False by auto
    qed
  qed (use Suc.prems in auto)
qed simp

text \<open>The least position where the needle occurs.\<close>

definition occurrence :: "u8 list \<Rightarrow> u8 list \<Rightarrow> nat option" where
  "occurrence needle hay = List.find (\<lambda>i. prefix needle (drop i hay)) [0..<length hay]"

lemma occurrence_Cons:
  "occurrence needle (c # hay) =
     (if prefix needle (c # hay) then Some 0 else map_option Suc (occurrence needle hay))"
proof -
  have "[0..<length (c # hay)] = 0 # map Suc [0..<length hay]"
    using map_Suc_upt[of 0 "length hay"] upt_conv_Cons[of 0 "Suc (length hay)"] by simp
  moreover have "List.find P (map Suc xs) = map_option Suc (List.find (\<lambda>i. P (Suc i)) xs)" for P xs
    by (induction xs) auto
  ultimately show ?thesis by (simp add: occurrence_def)
qed

lemma strncmp_prefix:
  assumes "cstr ld s h hay" "cstr ld s n needle"
  shows "\<exists>r. strncmp ld h n (of_nat (length needle)) s = Some r \<and> (r = 0 \<longleftrightarrow> prefix needle hay)"
proof -
  have u: "unat (of_nat (length needle) :: u32) = length needle"
    using cstr_length[OF assms(2)] by (simp add: unat_of_nat)
  have "take (length needle) hay = needle \<longleftrightarrow> prefix needle hay"
    by (metis append_take_drop_id prefixI prefix_def append_eq_conv_conj)
  then show ?thesis using strncmp_loop_zero[OF assms, of "length needle"] by (simp add: strncmp_def u)
qed

lemma strstr_occurrence:
  assumes "cstr ld s h hay" "cstr ld s n needle" "needle \<noteq> []"
  shows "strstr ld h n s = Some (case occurrence needle hay of None \<Rightarrow> 0 | Some i \<Rightarrow> h + of_nat i)"
  using assms(1)
proof (induction hay arbitrary: h)
  case Nil
  then show ?case by (subst strstr.simps) (simp add: occurrence_def)
next
  case (Cons c hay)
  have h: "ld h s = Some c" "c \<noteq> 0" "cstr ld s (h + 1) hay" using Cons.prems by simp_all
  obtain b bs where n: "needle = b # bs" by (cases needle) (use assms(3) in auto)
  then have nb: "ld n s = Some b" using assms(2) by simp
  obtain r where r: "strncmp ld h n (of_nat (length needle)) s = Some r" "r = 0 \<longleftrightarrow> prefix needle (c # hay)"
    using strncmp_prefix[OF Cons.prems assms(2)] by blast
  have IH: "strstr ld (h + 1) n s = Some (case occurrence needle hay of None \<Rightarrow> 0 | Some i \<Rightarrow> h + 1 + of_nat i)"
    by (rule Cons.IH[OF h(3)])
  have un: "strstr ld h n s = (if c = b then (if r = 0 then Some h else strstr ld (h + 1) n s) else strstr ld (h + 1) n s)"
    using h(1,2) nb r(1) strlen_cstr[OF assms(2)] by (subst strstr.simps) simp
  show ?case
  proof (cases "prefix needle (c # hay)")
    case True
    then have "c = b" "r = 0" using n r(2) by simp_all
    then show ?thesis using un True by (simp add: occurrence_Cons)
  next
    case False
    then have "strstr ld h n s = strstr ld (h + 1) n s" using un r(2) by simp
    then show ?thesis using IH False by (cases "occurrence needle hay") (simp_all add: occurrence_Cons add.assoc)
  qed
qed

section \<open>Buffers\<close>

text \<open>The buffer at address \<open>a\<close> consists of the distinct cells \<open>cs\<close>.\<close>

definition buffer :: "('s \<Rightarrow> virtaddr_t \<Rightarrow> 'l option) \<Rightarrow> 's \<Rightarrow> virtaddr_t \<Rightarrow> 'l list \<Rightarrow> bool" where
  "buffer loc s a cs \<longleftrightarrow>
     distinct cs \<and> unat a + length cs < 2 ^ 32 \<and> (\<forall>i<length cs. loc s (a + of_nat i) = Some (cs ! i))"

text \<open>The cells \<open>cs\<close> got the bytes \<open>xs\<close> and nothing else changed.\<close>

definition updated ::
  "('s \<Rightarrow> virtaddr_t \<Rightarrow> 'l option) \<Rightarrow> ('s \<Rightarrow> 'l \<Rightarrow> u8) \<Rightarrow> ('s \<Rightarrow> 'r) \<Rightarrow> 's \<Rightarrow> 's \<Rightarrow> 'l list \<Rightarrow> u8 list \<Rightarrow> bool" where
  "updated loc get rest s s' cs xs \<longleftrightarrow>
     loc s' = loc s \<and> rest s' = rest s \<and> map (get s') cs = xs \<and> (\<forall>l. l \<notin> set cs \<longrightarrow> get s' l = get s l)"

text \<open>\<open>ds\<close> written over \<open>xs\<close> from position \<open>j\<close>.\<close>

definition overwrite :: "nat \<Rightarrow> 'a list \<Rightarrow> 'a list \<Rightarrow> 'a list" where
  "overwrite j ds xs = take j xs @ ds @ drop (j + length ds) xs"

lemma overwrite_Nil [simp]: "overwrite j [] xs = xs"
  by (simp add: overwrite_def)

lemma overwrite_Cons: "j < length xs \<Longrightarrow> overwrite (Suc j) ds (xs[j := d]) = overwrite j (d # ds) xs"
  by (simp add: overwrite_def take_Suc_conv_app_nth)

lemma length_overwrite [simp]: "j + length ds \<le> length xs \<Longrightarrow> length (overwrite j ds xs) = length xs"
  by (simp add: overwrite_def)

lemma overwrite_snoc:
  "j + length ds < length xs \<Longrightarrow> (overwrite j ds xs)[j + length ds := d] = overwrite j (ds @ [d]) xs"
  by (simp add: overwrite_def list_update_append upd_conv_take_nth_drop drop_Suc[symmetric] Cons_nth_drop_Suc[symmetric] del: drop_Suc)

lemma nth_overwrite:
  "j + length ds \<le> length xs \<Longrightarrow> i < length xs \<Longrightarrow>
     overwrite j ds xs ! i = (if j \<le> i \<and> i < j + length ds then ds ! (i - j) else xs ! i)"
  by (auto simp: overwrite_def nth_append min_def)

context addressed_memory
begin

lemma buffer_ld: "buffer loc s a cs \<Longrightarrow> i < length cs \<Longrightarrow> ld (a + of_nat i) s = Some (map (get s) cs ! i)"
  by (simp add: buffer_def ld)

lemma buffer_st: "buffer loc s a cs \<Longrightarrow> i < length cs \<Longrightarrow> st (a + of_nat i) v s = Some (put (cs ! i) v s)"
  by (simp add: buffer_def st)

lemma updated_buffer: "updated loc get rest s s' cs xs \<Longrightarrow> buffer loc s' a ds = buffer loc s a ds"
  by (simp add: updated_def buffer_def)

lemma updated_refl: "updated loc get rest s s cs (map (get s) cs)"
  by (simp add: updated_def)

lemma updated_trans:
  "updated loc get rest s s1 cs xs \<Longrightarrow> updated loc get rest s1 s2 cs ys \<Longrightarrow> updated loc get rest s s2 cs ys"
  by (simp add: updated_def)

lemma updated_put:
  assumes "distinct cs" "i < length cs"
  shows "updated loc get rest s (put (cs ! i) v s) cs ((map (get s) cs)[i := v])"
proof -
  have "map (get (put (cs ! i) v s)) cs = (map (get s) cs)[i := v]"
    using assms by (intro nth_equalityI) (auto simp: get_put nth_list_update nth_eq_iff_index_eq)
  then show ?thesis using assms by (auto simp: updated_def loc_put rest_put get_put)
qed

text \<open>A write to the buffer.\<close>

lemma buffer_write:
  assumes "buffer loc s a cs" "i < length cs"
  obtains s' where "st (a + of_nat i) v s = Some s'" "updated loc get rest s s' cs ((map (get s) cs)[i := v])"
    "buffer loc s' a cs"
proof -
  have u: "updated loc get rest s (put (cs ! i) v s) cs ((map (get s) cs)[i := v])"
    using assms by (intro updated_put) (simp_all add: buffer_def)
  show thesis
    by (rule that[OF buffer_st[OF assms] u]) (simp only: updated_buffer[OF u] assms)
qed

text \<open>A string that does not meet the cells.\<close>

lemma cstr_updated:
  assumes "updated loc get rest s s' cs xs" "cstr ld s p bs"
    and "\<And>i l. i \<le> length bs \<Longrightarrow> loc s (p + of_nat i) = Some l \<Longrightarrow> l \<notin> set cs"
  shows "cstr ld s' p bs"
proof -
  have same: "ld (p + of_nat i) s' = ld (p + of_nat i) s" if "i \<le> length bs" for i
    using assms(1) assms(3)[OF that] by (cases "loc s (p + of_nat i)") (auto simp: ld updated_def)
  then show ?thesis using assms(2) by (simp add: cstr_nth)
qed

lemma cstr_buffer:
  assumes "buffer loc s a cs" "length bs < length cs" "take (Suc (length bs)) (map (get s) cs) = bs @ [0]" "0 \<notin> set bs"
  shows "cstr ld s a bs"
proof -
  have "map (get s) cs ! i = (bs @ [0]) ! i" if "i \<le> length bs" for i
    using that assms(3) by (metis le_imp_less_Suc nth_take)
  then have "ld (a + of_nat i) s = Some ((bs @ [0]) ! i)" if "i \<le> length bs" for i
    using buffer_ld[OF assms(1), of i] that assms(2) by simp
  moreover have "bs ! i \<noteq> 0" if "i < length bs" for i using assms(4) that nth_mem by metis
  ultimately show ?thesis by (auto simp: cstr_nth nth_append)
qed

end

section \<open>Digits\<close>

lemma quotient_less: "0 < n div b \<Longrightarrow> \<not> b < 2 \<Longrightarrow> n div b < (n :: nat)"
  by (cases "n = 0") (auto intro: div_less_dividend)

function ldigits :: "nat \<Rightarrow> nat \<Rightarrow> nat list" where
  "ldigits b n = n mod b # (if n div b = 0 \<or> b < 2 then [] else ldigits b (n div b))"
  by pat_completeness auto
termination by (relation "measure snd") (auto intro: quotient_less)

declare ldigits.simps [simp del]

lemma ldigits_ne [simp]: "ldigits b n \<noteq> []" "0 < length (ldigits b n)"
  by (subst ldigits.simps; simp)+

definition ldigits_value :: "nat \<Rightarrow> nat list \<Rightarrow> nat" where
  "ldigits_value b ds = foldr (\<lambda>d v. d + b * v) ds 0"

lemma ldigits_value: "2 \<le> b \<Longrightarrow> ldigits_value b (ldigits b n) = n"
proof (induction b n rule: ldigits.induct)
  case (1 b n)
  then show ?case
    by (subst ldigits.simps) (auto simp: ldigits_value_def div_eq_0_iff)
qed

lemma ldigits_less: "2 \<le> b \<Longrightarrow> d \<in> set (ldigits b n) \<Longrightarrow> d < b"
proof (induction b n rule: ldigits.induct)
  case (1 b n)
  then show ?case
    by (subst (asm) (2) ldigits.simps) (auto split: if_splits)
qed

lemma length_ldigits: "2 \<le> b \<Longrightarrow> n < b ^ k \<Longrightarrow> 0 < k \<Longrightarrow> length (ldigits b n) \<le> k"
proof (induction k arbitrary: n)
  case (Suc k)
  show ?case
  proof (cases "n div b = 0")
    case True
    then show ?thesis by (subst ldigits.simps) simp
  next
    case False
    have "n div b < b ^ k" using Suc.prems by (simp add: less_mult_imp_div_less mult.commute)
    moreover have "0 < k" using False Suc.prems by (cases k) auto
    ultimately have "length (ldigits b (n div b)) \<le> k" using Suc.IH Suc.prems(1) by blast
    then show ?thesis using False Suc.prems(1) by (subst ldigits.simps) simp
  qed
qed simp

definition nat_char :: "nat \<Rightarrow> u8" where
  "nat_char d = digit_char (of_nat d)"

text \<open>The value of a digit, and of the text of a number: the inverse of \<^verbatim>\<open>itoa\<close>.\<close>

definition char_digit :: "u8 \<Rightarrow> nat" where
  "char_digit c = (if unat c < 0x40 then unat c - 0x30 else unat c - 0x61 + 10)"

lemma char_digit_nat_char: "d < 16 \<Longrightarrow> char_digit (nat_char d) = d \<and> nat_char d \<noteq> 0 \<and> nat_char d \<noteq> 0x2d"
proof -
  have "\<forall>d\<in>{..<16}. char_digit (nat_char d) = d \<and> nat_char d \<noteq> 0 \<and> nat_char d \<noteq> 0x2d"
    by (simp add: lessThan_nat_numeral lessThan_Suc nat_char_def char_digit_def digit_char_def)
  then show "d < 16 \<Longrightarrow> char_digit (nat_char d) = d \<and> nat_char d \<noteq> 0 \<and> nat_char d \<noteq> 0x2d" by blast
qed

definition read_number :: "nat \<Rightarrow> u8 list \<Rightarrow> int" where
  "read_number b cs =
     (if cs \<noteq> [] \<and> hd cs = 0x2d then - int (ldigits_value b (map char_digit (rev (tl cs))))
      else int (ldigits_value b (map char_digit (rev cs))))"

definition number_text :: "nat \<Rightarrow> nat \<Rightarrow> u8 list" where
  "number_text b n = map nat_char (rev (ldigits b n))"

lemma read_number_text:
  assumes "2 \<le> b" "b \<le> 16"
  shows "read_number b (number_text b n) = int n" "read_number b (0x2d # number_text b n) = - int n"
    "0 \<notin> set (number_text b n)" "number_text b n \<noteq> []"
proof -
  have d: "char_digit (nat_char d) = d" "nat_char d \<noteq> 0" "nat_char d \<noteq> 0x2d" if "d \<in> set (ldigits b n)" for d
    using char_digit_nat_char[of d] ldigits_less[OF assms(1) that] assms(2) by simp_all
  then have m: "map char_digit (rev (number_text b n)) = ldigits b n"
    by (simp add: number_text_def rev_map map_idI)
  show ne: "number_text b n \<noteq> []" by (simp add: number_text_def)
  then have "hd (number_text b n) \<in> set (number_text b n)" by (rule list.set_sel(1))
  then have "hd (number_text b n) \<noteq> 0x2d" using d(3) by (auto simp: number_text_def simp del: list.set_sel)
  then show "read_number b (number_text b n) = int n" "read_number b (0x2d # number_text b n) = - int n"
    using m ldigits_value[OF assms(1)] by (simp_all add: read_number_def)
  show "0 \<notin> set (number_text b n)" using d(2) by (auto simp: number_text_def)
qed

context addressed_memory
begin

lemma itoa_digits_ok:
  assumes "buffer loc s a cs" "j + length (ldigits (unat b) (unat ud)) \<le> length cs" "2 \<le> unat b"
  shows "\<exists>s'. itoa_digits st b ud (a + of_nat j) s = Some (a + of_nat (j + length (ldigits (unat b) (unat ud))), s') \<and>
    updated loc get rest s s' cs (overwrite j (map nat_char (ldigits (unat b) (unat ud))) (map (get s) cs))"
  using assms
proof (induction "unat ud" arbitrary: ud j s rule: less_induct)
  case less
  let ?r = "unat ud mod unat b" and ?q = "unat ud div unat b"
  have q: "unat (ud div b) = ?q" and r: "digit_char (ud mod b) = nat_char ?r"
    by (simp_all add: unat_div_distrib nat_char_def flip: unat_mod_distrib)
  have ds: "ldigits (unat b) (unat ud) = ?r # (if ?q = 0 then [] else ldigits (unat b) ?q)"
    using less.prems(3) by (subst ldigits.simps) simp
  have j: "j < length cs" using less.prems(2) ds by simp
  obtain s1 where s1: "st (a + of_nat j) (nat_char ?r) s = Some s1"
    "updated loc get rest s s1 cs ((map (get s) cs)[j := nat_char ?r])" "buffer loc s1 a cs"
    by (rule buffer_write[OF less.prems(1) j])
  have un: "itoa_digits st b ud (a + of_nat j) s =
      (if ud div b \<noteq> 0 then itoa_digits st b (ud div b) (a + of_nat (Suc j)) s1 else Some (a + of_nat (Suc j), s1))"
    using s1(1) r by (subst itoa_digits.simps) (simp add: Let_def algebra_simps)
  show ?case
  proof (cases "?q = 0")
    case True
    then have "ud div b = 0" using q by (simp only: unat_eq_0[symmetric])
    then show ?thesis using un s1(2) True j overwrite_Cons[of j "map (get s) cs" "[]"] by (auto simp: ds)
  next
    case False
    then have nz: "ud div b \<noteq> 0" using q by (metis unat_0)
    have "unat (ud div b) < unat ud" unfolding q using False less.prems(3) by (simp add: div_eq_0_iff)
    moreover have "Suc j + length (ldigits (unat b) (unat (ud div b))) \<le> length cs"
      using less.prems(2) ds False q by simp
    ultimately obtain s' where s': "itoa_digits st b (ud div b) (a + of_nat (Suc j)) s1 =
        Some (a + of_nat (Suc j + length (ldigits (unat b) ?q)), s')"
      "updated loc get rest s1 s' cs (overwrite (Suc j) (map nat_char (ldigits (unat b) ?q)) (map (get s1) cs))"
      using less.hyps[of "ud div b" s1 "Suc j"] s1(3) less.prems(3) q by auto
    have "map (get s1) cs = (map (get s) cs)[j := nat_char ?r]" using s1(2) by (simp add: updated_def)
    then have "updated loc get rest s s' cs (overwrite j (map nat_char (ldigits (unat b) (unat ud))) (map (get s) cs))"
      using updated_trans[OF s1(2) s'(2)] j False by (simp add: overwrite_Cons ds)
    then show ?thesis using un nz s'(1) False by (simp add: ds)
  qed
qed

end

text \<open>The bytes from \<open>i\<close> to \<open>k\<close> in reverse order.\<close>

definition mirrored :: "nat \<Rightarrow> nat \<Rightarrow> 'a list \<Rightarrow> 'a list" where
  "mirrored i k xs = map (\<lambda>m. if i \<le> m \<and> m \<le> k then xs ! (i + k - m) else xs ! m) [0..<length xs]"

lemma mirrored_done: "k \<le> i \<Longrightarrow> mirrored i k xs = xs"
  by (intro nth_equalityI) (auto simp: mirrored_def intro!: arg_cong[of _ _ "(!) xs"])

lemma mirrored_swap:
  assumes "i < k" "k < length xs"
  shows "mirrored (Suc i) (k - 1) (xs[i := xs ! k, k := xs ! i]) = mirrored i k xs"
proof (rule nth_equalityI)
  fix m assume "m < length (mirrored (Suc i) (k - 1) (xs[i := xs ! k, k := xs ! i]))"
  then have m: "m < length xs" by (simp add: mirrored_def)
  consider "m = i" | "m = k" | "m < i" | "k < m" | "i < m" "m < k" by linarith
  then show "mirrored (Suc i) (k - 1) (xs[i := xs ! k, k := xs ! i]) ! m = mirrored i k xs ! m"
    using m assms by cases (auto simp: mirrored_def nth_list_update)
qed (simp add: mirrored_def)

lemma mirrored_overwrite:
  assumes "ds \<noteq> []" "j + length ds < length xs"
  shows "mirrored j (j + length ds - 1) (overwrite j (ds @ [0]) xs) = overwrite j (rev ds @ [0]) xs"
proof (rule nth_equalityI)
  let ?n = "length ds"
  fix m assume "m < length (mirrored j (j + ?n - 1) (overwrite j (ds @ [0]) xs))"
  then have m: "m < length xs" using assms by (simp add: mirrored_def)
  consider "m < j" | "j + ?n \<le> m" | k where "m = j + k" "k < ?n" by (metis le_Suc_ex nat_add_left_cancel_less not_le)
  then show "mirrored j (j + ?n - 1) (overwrite j (ds @ [0]) xs) ! m = overwrite j (rev ds @ [0]) xs ! m"
  proof cases
    case 2
    then have "\<not> m \<le> j + ?n - 1" using assms(1) by (cases ds) auto
    then show ?thesis using 2 m assms by (auto simp: mirrored_def nth_overwrite nth_append)
  next
    case 3
    have "mirrored j (j + ?n - 1) (overwrite j (ds @ [0]) xs) ! m = overwrite j (ds @ [0]) xs ! (j + (j + ?n - 1) - m)"
      using 3 m assms by (auto simp: mirrored_def)
    also have "j + (j + ?n - 1) - m = j + (?n - Suc k)" using 3 by simp
    also have "overwrite j (ds @ [0]) xs ! (j + (?n - Suc k)) = ds ! (?n - Suc k)"
      using 3(2) assms by (subst nth_overwrite) (auto simp: nth_append)
    also have "\<dots> = overwrite j (rev ds @ [0]) xs ! m"
      using 3 assms by (subst nth_overwrite) (auto simp: nth_append rev_nth)
    finally show ?thesis .
  qed (use m assms in \<open>auto simp: mirrored_def nth_overwrite nth_append\<close>)
qed (use assms in \<open>simp add: mirrored_def\<close>)

text \<open>What \<^verbatim>\<open>itoa\<close> prints.\<close>

definition itoa_text :: "u32 \<Rightarrow> u32 \<Rightarrow> u8 list" where
  "itoa_text base d =
     (if base = 0x64 \<and> sint d < 0 then 0x2d # number_text 10 (unat (- d))
      else number_text (if base = 0x64 then 10 else 16) (unat d))"

lemma itoa_text_length: "base = 0x64 \<or> base = 0x78 \<Longrightarrow> length (itoa_text base d) \<le> 11"
  using length_ldigits[of 10 "unat d" 10] length_ldigits[of 10 "unat (- d)" 10] length_ldigits[of 16 "unat d" 8]
    unsigned_less[of d, where ?'a = nat] unsigned_less[of "- d", where ?'a = nat]
  by (auto simp: itoa_text_def number_text_def)

lemma uint_of_int: "0 \<le> i \<Longrightarrow> i < 2 ^ 32 \<Longrightarrow> uint (word_of_int i :: u32) = i"
  by (simp add: uint_word_of_int)

lemma sint_nonneg: "0 \<le> sint (d :: u32) \<Longrightarrow> uint d = sint d"
  using uint_of_int[of "sint d"] sint_lt[of d] by simp

lemma sint_neg: "sint (d :: u32) < 0 \<Longrightarrow> int (unat (- d)) = - sint d"
  using uint_of_int[of "- sint d"] sint_ge[of d] by simp

lemma itoa_text_reads:
  assumes "base = 0x64 \<or> base = 0x78"
  shows "read_number (if base = 0x64 then 10 else 16) (itoa_text base d) = (if base = 0x64 then sint d else uint d)"
    "0 \<notin> set (itoa_text base d)"
proof -
  have "int (unat d) = sint d" if "\<not> sint d < 0" using that sint_nonneg[of d] by simp
  then show "read_number (if base = 0x64 then 10 else 16) (itoa_text base d) = (if base = 0x64 then sint d else uint d)"
    using assms read_number_text[of 10] read_number_text[of 16] sint_neg[of d]
    by (auto simp: itoa_text_def)
  show "0 \<notin> set (itoa_text base d)"
    using read_number_text(3)[of 10] read_number_text(3)[of 16] by (simp add: itoa_text_def)
qed

context addressed_memory
begin

lemma itoa_reverse_ok:
  assumes "buffer loc s a cs" "k < length cs" "i \<le> Suc k"
  shows "\<exists>s'. itoa_reverse ld st (a + of_nat i) (a + of_nat k) s = Some s' \<and>
    updated loc get rest s s' cs (mirrored i k (map (get s) cs))"
  using assms
proof (induction k arbitrary: i s rule: less_induct)
  case (less k)
  have lt: "(a + of_nat i < a + of_nat k) \<longleftrightarrow> i < k"
  proof -
    have "unat (a + of_nat m) = unat a + m" if "m \<le> length cs" for m
      using less.prems(1) that by (simp add: buffer_def unat_word_ariths(1) unat_of_nat)
    from this[of i] this[of k] show ?thesis using less.prems(2,3) by (simp add: word_less_nat_alt)
  qed
  show ?case
  proof (cases "i < k")
    case False
    then show ?thesis using lt updated_refl by (subst itoa_reverse.simps) (simp add: mirrored_done)
  next
    case True
    let ?xs = "map (get s) cs"
    have i: "i < length cs" using True less.prems(2) by simp
    obtain s1 where s1: "st (a + of_nat i) (?xs ! k) s = Some s1" "updated loc get rest s s1 cs (?xs[i := ?xs ! k])"
      "buffer loc s1 a cs" by (rule buffer_write[OF less.prems(1) i])
    obtain s2 where s2: "st (a + of_nat k) (?xs ! i) s1 = Some s2"
      "updated loc get rest s1 s2 cs ((map (get s1) cs)[k := ?xs ! i])" "buffer loc s2 a cs"
      by (rule buffer_write[OF s1(3) less.prems(2)])
    have u: "updated loc get rest s s2 cs (?xs[i := ?xs ! k, k := ?xs ! i])"
      using updated_trans[OF s1(2) s2(2)] s1(2) by (simp add: updated_def)
    have "(a + of_nat k) - 1 = a + of_nat (k - 1)" using True by (simp add: of_nat_diff)
    then have un: "itoa_reverse ld st (a + of_nat i) (a + of_nat k) s = itoa_reverse ld st (a + of_nat (Suc i)) (a + of_nat (k - 1)) s2"
      using lt True buffer_ld[OF less.prems(1) i] buffer_ld[OF less.prems(1,2)] s1(1) s2(1) less.prems(2) i
      by (subst itoa_reverse.simps) (simp add: algebra_simps)
    have k: "k - 1 < k" "k - 1 < length cs" "Suc i \<le> Suc (k - 1)" using True less.prems(2) by simp_all
    from less.IH[OF k(1) s2(3) k(2,3)]
    obtain s' where "itoa_reverse ld st (a + of_nat (Suc i)) (a + of_nat (k - 1)) s2 = Some s'"
      "updated loc get rest s2 s' cs (mirrored (Suc i) (k - 1) (map (get s2) cs))"
      by blast
    then show ?thesis
      using un updated_trans[OF u, of s' "mirrored (Suc i) (k - 1) (map (get s2) cs)"] u
        mirrored_swap[OF True, of ?xs] less.prems(2)
      by (auto simp: updated_def)
  qed
qed

text \<open>The digits, the NUL and the reversal, from position \<open>j\<close> of the buffer.\<close>

lemma itoa_number_ok:
  assumes b: "buffer loc s a cs" and len: "j + length (number_text (unat b) (unat ud)) < length cs" and "2 \<le> unat b"
  shows "\<exists>s'. do { (p', s2) \<leftarrow> itoa_digits st b ud (a + of_nat j) s; s3 \<leftarrow> st p' 0 s2;
      itoa_reverse ld st (a + of_nat j) (p' - 1) s3 } = Some s' \<and>
    updated loc get rest s s' cs (overwrite j (number_text (unat b) (unat ud) @ [0]) (map (get s) cs))"
proof -
  let ?xs = "map (get s) cs" and ?ds = "map nat_char (ldigits (unat b) (unat ud))"
  have t: "number_text (unat b) (unat ud) = rev ?ds" by (simp add: number_text_def rev_map)
  have l: "j + length ?ds < length cs" using len by (simp add: t)
  obtain s1 where s1: "itoa_digits st b ud (a + of_nat j) s = Some (a + of_nat (j + length ?ds), s1)"
    "updated loc get rest s s1 cs (overwrite j ?ds ?xs)"
    using itoa_digits_ok[OF b _ assms(3), of j ud] l by auto
  have b1: "buffer loc s1 a cs" using updated_buffer[OF s1(2)] b by simp
  obtain s2 where s2: "st (a + of_nat (j + length ?ds)) 0 s1 = Some s2"
    "updated loc get rest s1 s2 cs ((map (get s1) cs)[j + length ?ds := 0])" "buffer loc s2 a cs"
    by (rule buffer_write[OF b1 l])
  have m2: "map (get s2) cs = overwrite j (?ds @ [0]) ?xs"
    using s1(2) s2(2) l overwrite_snoc[of j ?ds ?xs 0] by (simp add: updated_def)
  have u2: "updated loc get rest s s2 cs (overwrite j (?ds @ [0]) ?xs)"
    using updated_trans[OF s1(2) s2(2)] s2(2) m2 by (simp add: updated_def)
  have "1 \<le> j + length ?ds" by (simp add: Suc_le_eq)
  then have p: "a + of_nat (j + length ?ds) - 1 = a + of_nat (j + length ?ds - 1)"
    by (simp only: of_nat_diff of_nat_1 add_diff_eq)
  have "j + length ?ds - 1 < length cs" "j \<le> Suc (j + length ?ds - 1)" using l by simp_all
  from itoa_reverse_ok[OF s2(3) this]
  obtain s' where s': "itoa_reverse ld st (a + of_nat j) (a + of_nat (j + length ?ds - 1)) s2 = Some s'"
    "updated loc get rest s2 s' cs (mirrored j (j + length ?ds - 1) (overwrite j (?ds @ [0]) ?xs))"
    unfolding m2 by blast
  have "mirrored j (j + length ?ds - 1) (overwrite j (?ds @ [0]) ?xs) = overwrite j (rev ?ds @ [0]) ?xs"
    using mirrored_overwrite[of ?ds j ?xs] l by simp
  then have "updated loc get rest s s' cs (overwrite j (rev ?ds @ [0]) ?xs)" using updated_trans[OF u2] s'(2) by simp
  then show ?thesis using s1(1) s2(1) s'(1) unfolding t p[symmetric] by auto
qed

lemma itoa_ok:
  assumes b: "buffer loc s a cs" and len: "length cs = 20" and base: "base = 0x64 \<or> base = 0x78"
  shows "\<exists>s'. itoa ld st a base d s = Some s' \<and>
    updated loc get rest s s' cs (overwrite 0 (itoa_text base d @ [0]) (map (get s) cs))"
proof -
  have l: "length (number_text 10 (unat x)) \<le> 10" "length (number_text 16 (unat x)) \<le> 8" for x :: u32
    using length_ldigits[of 10 "unat x" 10] length_ldigits[of 16 "unat x" 8] unsigned_less[of x, where ?'a = nat]
    by (simp_all add: number_text_def)
  show ?thesis
  proof (cases "base = 0x64 \<and> sint d < 0")
    case True
    have i: "0 < length cs" using len by simp
    obtain s1 where s1: "st (a + of_nat 0) 0x2d s = Some s1" "updated loc get rest s s1 cs ((map (get s) cs)[0 := 0x2d])"
      "buffer loc s1 a cs" by (rule buffer_write[OF b i])
    obtain s' where s': "do { (p', s2) \<leftarrow> itoa_digits st 10 (- d) (a + of_nat 1) s1; s3 \<leftarrow> st p' 0 s2;
        itoa_reverse ld st (a + of_nat 1) (p' - 1) s3 } = Some s'"
      "updated loc get rest s1 s' cs (overwrite 1 (number_text 10 (unat (- d)) @ [0]) (map (get s1) cs))"
      using itoa_number_ok[OF s1(3), of 1 10 "- d"] l(1)[of "- d"] len by auto
    have "overwrite 1 (number_text 10 (unat (- d)) @ [0]) (map (get s1) cs) = overwrite 0 (itoa_text base d @ [0]) (map (get s) cs)"
      using s1(2) True i overwrite_Cons[of 0 "map (get s) cs"] by (simp add: updated_def itoa_text_def)
    then have "updated loc get rest s s' cs (overwrite 0 (itoa_text base d @ [0]) (map (get s) cs))"
      using updated_trans[OF s1(2) s'(2)] by simp
    moreover have "itoa ld st a base d s = Some s'" using s1(1) s'(1) True by (simp add: itoa_def)
    ultimately show ?thesis by blast
  next
    case False
    let ?b = "if base = 0x64 then 10 else (16 :: u32)"
    have "0 + length (number_text (unat ?b) (unat d)) < length cs" "2 \<le> unat ?b" using l[of d] len by auto
    from itoa_number_ok[OF b this]
    obtain s' where s': "do { (p', s2) \<leftarrow> itoa_digits st ?b d (a + of_nat 0) s; s3 \<leftarrow> st p' 0 s2;
        itoa_reverse ld st (a + of_nat 0) (p' - 1) s3 } = Some s'"
      "updated loc get rest s s' cs (overwrite 0 (number_text (unat ?b) (unat d) @ [0]) (map (get s) cs))"
      by blast
    have "itoa ld st a base d s = Some s'" using s'(1) False base by (auto simp: itoa_def)
    then show ?thesis using s'(2) False by (auto simp: itoa_text_def)
  qed
qed

end

section \<open>Bounded copies\<close>

text \<open>A string outside a buffer.\<close>

definition apart :: "('s \<Rightarrow> virtaddr_t \<Rightarrow> 'l option) \<Rightarrow> 's \<Rightarrow> 'l list \<Rightarrow> virtaddr_t \<Rightarrow> nat \<Rightarrow> bool" where
  "apart loc s cs p n \<longleftrightarrow> (\<forall>i\<le>n. \<forall>l. loc s (p + of_nat i) = Some l \<longrightarrow> l \<notin> set cs)"

lemma apart_Suc: "apart loc s cs p (Suc n) \<Longrightarrow> apart loc s cs (p + 1) n"
  unfolding apart_def
proof (intro allI impI)
  fix i l
  assume a: "\<forall>i\<le>Suc n. \<forall>l. loc s (p + of_nat i) = Some l \<longrightarrow> l \<notin> set cs" and i: "i \<le> n" "loc s (p + 1 + of_nat i) = Some l"
  have "p + of_nat (Suc i) = p + 1 + of_nat i" by simp
  then show "l \<notin> set cs" using a[rule_format, of "Suc i" l] i by (simp add: add.assoc)
qed

context addressed_memory
begin

lemma apart_updated: "updated loc get rest s s' cs xs \<Longrightarrow> apart loc s' ds p n = apart loc s ds p n"
  by (simp add: apart_def updated_def)

lemma cstr_apart:
  "updated loc get rest s s' cs xs \<Longrightarrow> cstr ld s p bs \<Longrightarrow> apart loc s cs p (length bs) \<Longrightarrow> cstr ld s' p bs"
  by (rule cstr_updated) (auto simp: apart_def)

text \<open>One byte of a copy.\<close>

lemma copy_step:
  assumes "buffer loc s a cs" "j < length cs" "cstr ld s p (c # bs)" "apart loc s cs p (length (c # bs))"
  obtains s1 where "st (a + of_nat j) c s = Some s1" "updated loc get rest s s1 cs ((map (get s) cs)[j := c])"
    "buffer loc s1 a cs" "cstr ld s1 (p + 1) bs" "apart loc s1 cs (p + 1) (length bs)"
proof -
  obtain s1 where s1: "st (a + of_nat j) c s = Some s1" "updated loc get rest s s1 cs ((map (get s) cs)[j := c])"
    "buffer loc s1 a cs" by (rule buffer_write[OF assms(1,2)])
  have "cstr ld s1 p (c # bs)" by (rule cstr_apart[OF s1(2) assms(3,4)])
  moreover have "apart loc s1 cs (p + 1) (length bs)" using apart_Suc assms(4) apart_updated[OF s1(2)] by auto
  ultimately show thesis using that s1 by auto
qed

lemma updated_overwrite_Cons:
  assumes "updated loc get rest s s1 cs ((map (get s) cs)[j := c])" "j < length cs"
    and "updated loc get rest s1 s' cs (overwrite (Suc j) ds (map (get s1) cs))"
  shows "updated loc get rest s s' cs (overwrite j (c # ds) (map (get s) cs))"
proof -
  have "map (get s1) cs = (map (get s) cs)[j := c]" using assms(1) by (simp add: updated_def)
  then show ?thesis using updated_trans[OF assms(1,3)] assms(2) overwrite_Cons[of j "map (get s) cs" ds c] by simp
qed

lemma strlcpy_loop_ok:
  assumes "buffer loc s a cs" "j + k < length cs" "cstr ld s p bs" "apart loc s cs p (length bs)"
  shows "\<exists>n s'. strlcpy_loop ld st k (a + of_nat j) p s =
      Some (if length bs < k then (a + of_nat (j + Suc (length bs)), p + of_nat (length bs) + 1, Suc n, s')
            else (a + of_nat (j + k), p + of_nat k, 0, s')) \<and>
    updated loc get rest s s' cs (overwrite j (if length bs < k then bs @ [0] else take k bs) (map (get s) cs))"
  using assms
proof (induction k arbitrary: j p bs s)
  case 0
  then show ?case using updated_refl by auto
next
  case (Suc k)
  have j: "j < length cs" using Suc.prems(2) by simp
  show ?case
  proof (cases bs)
    case Nil
    obtain s1 where s1: "st (a + of_nat j) 0 s = Some s1" "updated loc get rest s s1 cs ((map (get s) cs)[j := 0])"
      by (rule buffer_write[OF Suc.prems(1) j])
    then show ?thesis
      using Suc.prems(3) Nil j overwrite_Cons[of j "map (get s) cs" "[]" 0]
      by (auto simp: algebra_simps)
  next
    case (Cons c bs')
    obtain s1 where s1: "st (a + of_nat j) c s = Some s1" "updated loc get rest s s1 cs ((map (get s) cs)[j := c])"
      "buffer loc s1 a cs" "cstr ld s1 (p + 1) bs'" "apart loc s1 cs (p + 1) (length bs')"
      using copy_step[OF Suc.prems(1) j, of p c bs'] Suc.prems(3,4) Cons by metis
    have "Suc j + k < length cs" using Suc.prems(2) by simp
    from Suc.IH[OF s1(3) this s1(4,5)] obtain n s' where
      s': "strlcpy_loop ld st k (a + of_nat (Suc j)) (p + 1) s1 =
        Some (if length bs' < k then (a + of_nat (Suc j + Suc (length bs')), p + 1 + of_nat (length bs') + 1, Suc n, s')
              else (a + of_nat (Suc j + k), p + 1 + of_nat k, 0, s'))"
      "updated loc get rest s1 s' cs (overwrite (Suc j) (if length bs' < k then bs' @ [0] else take k bs') (map (get s1) cs))"
      by blast
    have "strlcpy_loop ld st (Suc k) (a + of_nat j) p s = strlcpy_loop ld st k (a + of_nat (Suc j)) (p + 1) s1"
      using Suc.prems(3) Cons s1(1) by (simp add: algebra_simps)
    moreover have "updated loc get rest s s' cs
        (overwrite j (c # (if length bs' < k then bs' @ [0] else take k bs')) (map (get s) cs))"
      by (rule updated_overwrite_Cons[OF s1(2) j s'(2)])
    ultimately show ?thesis using s'(1) Cons by (auto simp: algebra_simps)
  qed
qed

lemma strlcpy_ok:
  assumes b: "buffer loc s a cs" "length cs = unat siz" "siz \<noteq> 0" and c: "cstr ld s p bs" "apart loc s cs p (length bs)"
  shows "\<exists>s'. strlcpy ld st a p siz s = Some (of_nat (length bs), s') \<and>
    updated loc get rest s s' cs (overwrite 0 (take (unat siz - 1) bs @ [0]) (map (get s) cs))"
proof -
  let ?k = "unat siz - 1" and ?xs = "map (get s) cs"
  have pos: "0 < unat siz" using b(3) by (simp add: unat_gt_0)
  have k: "0 + ?k < length cs" using b(2) pos by simp
  obtain n s1 where s1: "strlcpy_loop ld st ?k (a + of_nat 0) p s =
      Some (if length bs < ?k then (a + of_nat (0 + Suc (length bs)), p + of_nat (length bs) + 1, Suc n, s1)
            else (a + of_nat (0 + ?k), p + of_nat ?k, 0, s1))"
    "updated loc get rest s s1 cs (overwrite 0 (if length bs < ?k then bs @ [0] else take ?k bs) ?xs)"
    using strlcpy_loop_ok[OF b(1) k c] by blast
  show ?thesis
  proof (cases "length bs < ?k")
    case True
    then show ?thesis using s1 b(3) by (auto simp: strlcpy_def)
  next
    case False
    have b1: "buffer loc s1 a cs" using updated_buffer[OF s1(2)] b(1) by simp
    have k': "?k < length cs" using k by simp
    obtain s2 where s2: "st (a + of_nat ?k) 0 s1 = Some s2" "updated loc get rest s1 s2 cs ((map (get s1) cs)[?k := 0])"
      by (rule buffer_write[OF b1 k'])
    have m: "(map (get s1) cs)[?k := 0] = overwrite 0 (take ?k bs @ [0]) ?xs"
      using s1(2) False k overwrite_snoc[of 0 "take ?k bs" ?xs 0] by (simp add: updated_def)
    have u: "updated loc get rest s s2 cs (overwrite 0 (take ?k bs @ [0]) ?xs)"
      using updated_trans[OF s1(2) s2(2)] m by simp
    have "cstr ld s2 p bs" by (rule cstr_apart[OF u c])
    then have "cstr ld s2 (p + of_nat ?k) (drop ?k bs)" using cstr_drop False by (simp add: not_less)
    then have l: "strlen_loop ld (p + of_nat ?k) s2 = Some (p + of_nat ?k + of_nat (length bs - ?k) + 1)"
      using strlen_loop_cstr by fastforce
    have "(of_nat ?k :: u32) + of_nat (length bs - ?k) = of_nat (length bs)"
      using False by (simp only: of_nat_add[symmetric]) (simp add: not_less)
    then have "p + of_nat ?k + of_nat (length bs - ?k) + 1 - p - 1 = of_nat (length bs)"
      by (simp add: algebra_simps)
    then have "strlcpy ld st a p siz s = Some (of_nat (length bs), s2)"
      using s1(1) False b(3) s2(1) l by (simp add: strlcpy_def)
    then show ?thesis using u by blast
  qed
qed

end

context addressed_memory
begin

lemma strlcat_end_ok: "cstr ld s d xs \<Longrightarrow> length xs < n \<Longrightarrow> strlcat_end ld n d s = Some (d + of_nat (length xs))"
proof (induction xs arbitrary: n d)
  case Nil
  then show ?case by (cases n) simp_all
next
  case (Cons x xs)
  then show ?case by (cases n) (simp_all add: algebra_simps)
qed

lemma strlcat_loop_ok:
  assumes "buffer loc s a cs" "n \<noteq> 0" "j + unat n \<le> length cs" "cstr ld s p bs" "apart loc s cs p (length bs)"
  shows "\<exists>s'. strlcat_loop ld st n (a + of_nat j) p s =
      Some (a + of_nat (j + length (take (unat n - 1) bs)), p + of_nat (length bs), s') \<and>
    updated loc get rest s s' cs (overwrite j (take (unat n - 1) bs) (map (get s) cs))"
  using assms
proof (induction bs arbitrary: n j p s)
  case Nil
  then show ?case using updated_refl by (subst strlcat_loop.simps) simp
next
  case (Cons c bs)
  have pos: "0 < unat n" using Cons.prems(2) by (simp add: unat_gt_0)
  show ?case
  proof (cases "n = 1")
    case True
    have "cstr ld s (p + 1) bs" "apart loc s cs (p + 1) (length bs)" using Cons.prems(4,5) apart_Suc by auto
    from Cons.IH[OF Cons.prems(1-3) this] True
    obtain s' where "strlcat_loop ld st n (a + of_nat j) (p + 1) s = Some (a + of_nat j, p + 1 + of_nat (length bs), s')"
      "updated loc get rest s s' cs (map (get s) cs)" by auto
    then show ?thesis using Cons.prems(4) True by (subst strlcat_loop.simps) (auto simp: algebra_simps)
  next
    case False
    have j: "j < length cs" using Cons.prems(3) pos by simp
    obtain s1 where s1: "st (a + of_nat j) c s = Some s1" "updated loc get rest s s1 cs ((map (get s) cs)[j := c])"
      "buffer loc s1 a cs" "cstr ld s1 (p + 1) bs" "apart loc s1 cs (p + 1) (length bs)"
      by (rule copy_step[OF Cons.prems(1) j Cons.prems(4,5)])
    have u: "unat (n - 1) = unat n - 1" using unat_dec[OF Cons.prems(2)] .
    have n1: "n - 1 \<noteq> 0" using False by simp
    then have n2: "0 < unat (n - 1)" using unat_gt_0 by blast
    have "Suc j + unat (n - 1) \<le> length cs" using Cons.prems(3) pos u by simp
    from Cons.IH[OF s1(3) n1 this s1(4,5)] obtain s' where s':
      "strlcat_loop ld st (n - 1) (a + of_nat (Suc j)) (p + 1) s1 =
        Some (a + of_nat (Suc j + length (take (unat (n - 1) - 1) bs)), p + 1 + of_nat (length bs), s')"
      "updated loc get rest s1 s' cs (overwrite (Suc j) (take (unat (n - 1) - 1) bs) (map (get s1) cs))"
      by blast
    have t: "take (unat n - 1) (c # bs) = c # take (unat (n - 1) - 1) bs"
      using n2 u by (cases "unat n - 1") simp_all
    have "strlcat_loop ld st n (a + of_nat j) p s = strlcat_loop ld st (n - 1) (a + of_nat (Suc j)) (p + 1) s1"
      using Cons.prems(4) False s1(1) by (subst strlcat_loop.simps) (simp add: algebra_simps)
    then show ?thesis
      using s'(1) updated_overwrite_Cons[OF s1(2) j s'(2)] unfolding t by (auto simp: algebra_simps)
  qed
qed

text \<open>Appending \<open>ys\<close> to the string \<open>xs\<close> in a buffer.\<close>

lemma strlcat_ok:
  assumes b: "buffer loc s a cs" "length cs = unat siz" and x: "cstr ld s a xs" "length xs < unat siz"
    and c: "cstr ld s p bs" "apart loc s cs p (length bs)"
  shows "\<exists>s'. strlcat ld st a p siz s = Some (of_nat (length xs + length bs), s') \<and>
    updated loc get rest s s' cs
      (overwrite (length xs) (take (unat siz - 1 - length xs) bs @ [0]) (map (get s) cs))"
proof -
  let ?n = "siz - of_nat (length xs)" and ?t = "take (unat siz - 1 - length xs) bs"
  have xl: "unat (of_nat (length xs) :: u32) = length xs" using cstr_length[OF x(1)] by (simp add: unat_of_nat)
  have "of_nat (length xs) \<le> siz" using x(2) xl by (simp add: word_le_nat_alt)
  then have n: "unat ?n = unat siz - length xs" using unat_sub xl by metis
  then have n0: "?n \<noteq> 0" and nl: "length xs + unat ?n \<le> length cs" using x(2) b(2) by (auto simp: unat_eq_0[symmetric] simp del: unat_eq_0)
  have t: "take (unat ?n - 1) bs = ?t" using n by simp
  obtain s1 where s1: "strlcat_loop ld st ?n (a + of_nat (length xs)) p s =
      Some (a + of_nat (length xs + length ?t), p + of_nat (length bs), s1)"
    "updated loc get rest s s1 cs (overwrite (length xs) ?t (map (get s) cs))"
    using strlcat_loop_ok[OF b(1) n0 nl c] unfolding t by blast
  have b1: "buffer loc s1 a cs" using updated_buffer[OF s1(2)] b(1) by simp
  have l: "length xs + length ?t < length cs" using x(2) b(2) by auto
  obtain s2 where s2: "st (a + of_nat (length xs + length ?t)) 0 s1 = Some s2"
    "updated loc get rest s1 s2 cs ((map (get s1) cs)[length xs + length ?t := 0])"
    by (rule buffer_write[OF b1 l])
  have "(map (get s1) cs)[length xs + length ?t := 0] = overwrite (length xs) (?t @ [0]) (map (get s) cs)"
    using s1(2) l overwrite_snoc[of "length xs" ?t "map (get s) cs" 0] by (simp add: updated_def)
  then have "updated loc get rest s s2 cs (overwrite (length xs) (?t @ [0]) (map (get s) cs))"
    using updated_trans[OF s1(2) s2(2)] by simp
  moreover have "strlcat ld st a p siz s = Some (of_nat (length xs + length bs), s2)"
    using strlcat_end_ok[OF x] s1(1) s2(1) n0 by (simp add: strlcat_def Let_def)
  ultimately show ?thesis by blast
qed

lemma buffer_cstr:
  assumes b: "buffer loc s a cs" and u: "map (get s) cs = overwrite 0 (bs @ [0]) zs" and "length bs < length zs" "0 \<notin> set bs"
  shows "cstr ld s a bs"
proof -
  have "length cs = length zs" using arg_cong[OF u, of length] assms(3) by simp
  then show ?thesis using assms by (intro cstr_buffer[OF b]) (simp_all add: overwrite_def)
qed

end

context addressed_memory
begin

lemma strcpy_loop_ok:
  assumes "buffer loc s a cs" "j + length bs < length cs" "cstr ld s p bs" "apart loc s cs p (length bs)"
  shows "\<exists>s'. strcpy_loop ld st (a + of_nat j) p s = Some (a + of_nat (j + length bs), p + of_nat (length bs), s') \<and>
    updated loc get rest s s' cs (overwrite j bs (map (get s) cs))"
  using assms
proof (induction bs arbitrary: j p s)
  case Nil
  then show ?case using updated_refl by (subst strcpy_loop.simps) simp
next
  case (Cons c bs)
  have j: "j < length cs" using Cons.prems(2) by simp
  obtain s1 where s1: "st (a + of_nat j) c s = Some s1" "updated loc get rest s s1 cs ((map (get s) cs)[j := c])"
    "buffer loc s1 a cs" "cstr ld s1 (p + 1) bs" "apart loc s1 cs (p + 1) (length bs)"
    by (rule copy_step[OF Cons.prems(1) j Cons.prems(3,4)])
  have "Suc j + length bs < length cs" using Cons.prems(2) by simp
  from Cons.IH[OF s1(3) this s1(4,5)] obtain s' where s':
    "strcpy_loop ld st (a + of_nat (Suc j)) (p + 1) s1 = Some (a + of_nat (Suc j + length bs), p + 1 + of_nat (length bs), s')"
    "updated loc get rest s1 s' cs (overwrite (Suc j) bs (map (get s1) cs))" by blast
  have "strcpy_loop ld st (a + of_nat j) p s = strcpy_loop ld st (a + of_nat (Suc j)) (p + 1) s1"
    using Cons.prems(3) s1(1) by (subst strcpy_loop.simps) (simp add: algebra_simps)
  then show ?case using s'(1) updated_overwrite_Cons[OF s1(2) j s'(2)] by (auto simp: algebra_simps)
qed

text \<open>Finishing a string in a buffer with a NUL.\<close>

lemma terminate_ok:
  assumes "updated loc get rest s s1 cs (overwrite 0 bs (map (get s) cs))" "buffer loc s a cs" "length bs < length cs"
  shows "\<exists>s2. st (a + of_nat (length bs)) 0 s1 = Some s2 \<and>
    updated loc get rest s s2 cs (overwrite 0 (bs @ [0]) (map (get s) cs))"
proof -
  have b1: "buffer loc s1 a cs" using updated_buffer[OF assms(1)] assms(2) by simp
  obtain s2 where s2: "st (a + of_nat (length bs)) 0 s1 = Some s2"
    "updated loc get rest s1 s2 cs ((map (get s1) cs)[length bs := 0])" by (rule buffer_write[OF b1 assms(3)])
  have "(map (get s1) cs)[length bs := 0] = overwrite 0 (bs @ [0]) (map (get s) cs)"
    using assms(1,3) overwrite_snoc[of 0 bs "map (get s) cs" 0] by (simp add: updated_def)
  then show ?thesis using updated_trans[OF assms(1) s2(2)] s2(1) by auto
qed

lemma strcpy_ok:
  assumes "buffer loc s a cs" "length bs < length cs" "cstr ld s p bs" "apart loc s cs p (length bs)"
  shows "\<exists>s'. strcpy ld st a p s = Some (of_nat (length bs), s') \<and>
    updated loc get rest s s' cs (overwrite 0 (bs @ [0]) (map (get s) cs))"
proof -
  obtain s1 where s1: "strcpy_loop ld st a p s = Some (a + of_nat (length bs), p + of_nat (length bs), s1)"
    "updated loc get rest s s1 cs (overwrite 0 bs (map (get s) cs))"
    using strcpy_loop_ok[OF assms(1) _ assms(3,4), of 0] assms(2) by auto
  then show ?thesis using terminate_ok[OF s1(2) assms(1,2)] by (auto simp: strcpy_def)
qed

text \<open>A format without a conversion.\<close>

lemma snprintf_loop_plain:
  assumes "buffer loc s a cs" "length cs = unat maxlen" "j + length bs < length cs" "cstr ld s p bs" "0x25 \<notin> set bs"
    and "apart loc s cs p (length bs)"
  shows "\<exists>s'. snprintf_loop ld st buf a maxlen p (a + of_nat j) ap s = Some (a + of_nat (j + length bs), s') \<and>
    updated loc get rest s s' cs (overwrite j bs (map (get s) cs))"
  using assms
proof (induction bs arbitrary: j p s)
  case Nil
  then show ?case using updated_refl by (subst snprintf_loop.simps) simp
next
  case (Cons c bs)
  have j: "j < length cs" using Cons.prems(3) by simp
  obtain s1 where s1: "st (a + of_nat j) c s = Some s1" "updated loc get rest s s1 cs ((map (get s) cs)[j := c])"
    "buffer loc s1 a cs" "cstr ld s1 (p + 1) bs" "apart loc s1 cs (p + 1) (length bs)"
    by (rule copy_step[OF Cons.prems(1) j Cons.prems(4,6)])
  have j1: "Suc j + length bs < length cs" using Cons.prems(3) by simp
  have nc: "0x25 \<notin> set bs" using Cons.prems(5) by simp
  from Cons.IH[OF s1(3) Cons.prems(2) j1 s1(4) nc s1(5)] obtain s' where s':
    "snprintf_loop ld st buf a maxlen (p + 1) (a + of_nat (Suc j)) ap s1 = Some (a + of_nat (Suc j + length bs), s')"
    "updated loc get rest s1 s' cs (overwrite (Suc j) bs (map (get s1) cs))" by blast
  have "unat (a + of_nat (Suc j)) = unat a + Suc j" "unat (a + maxlen) = unat a + length cs"
    using Cons.prems(1,2) j1 by (simp_all add: buffer_def unat_word_ariths(1) unat_of_nat del: of_nat_Suc)
  then have "\<not> a + maxlen \<le> a + of_nat (Suc j)" using j1 unfolding word_le_nat_alt by simp
  then have "snprintf_loop ld st buf a maxlen p (a + of_nat j) ap s =
      snprintf_loop ld st buf a maxlen (p + 1) (a + of_nat (Suc j)) ap s1"
    using Cons.prems(4,5) s1(1) by (subst snprintf_loop.simps) (simp add: algebra_simps)
  then show ?case using s'(1) updated_overwrite_Cons[OF s1(2) j s'(2)] by simp
qed

lemma k_snprintf_plain:
  assumes b: "buffer loc s a cs" "length cs = unat maxlen" and c: "cstr ld s p bs" "0x25 \<notin> set bs" "apart loc s cs p (length bs)"
    and len: "length bs < length cs" and l0: "loc s (a - 1) = Some l0" "l0 \<notin> set cs"
  shows "\<exists>s'. k_snprintf_vaarg ld st buf a maxlen p ap s = Some s' \<and> get s' l0 = 0 \<and> loc s' = loc s \<and>
    map (get s') cs = overwrite 0 (bs @ [0]) (map (get s) cs) \<and>
    (\<forall>l. l \<noteq> l0 \<longrightarrow> l \<notin> set cs \<longrightarrow> get s' l = get s l)"
proof -
  obtain s1 where s1: "snprintf_loop ld st buf a maxlen p a ap s = Some (a + of_nat (length bs), s1)"
    "updated loc get rest s s1 cs (overwrite 0 bs (map (get s) cs))"
    using snprintf_loop_plain[OF b _ c(1,2,3), of 0 buf ap] len by auto
  obtain s2 where s2: "st (a + of_nat (length bs)) 0 s1 = Some s2"
    "updated loc get rest s s2 cs (overwrite 0 (bs @ [0]) (map (get s) cs))"
    using terminate_ok[OF s1(2) b(1) len] by blast
  have "unat (a + of_nat (length bs)) = unat a + length bs" "unat (a + maxlen) = unat a + length cs"
    using b len by (simp_all add: buffer_def unat_word_ariths(1) unat_of_nat)
  then have "a + of_nat (length bs) < a + maxlen" using len unfolding word_less_nat_alt by simp
  moreover have "st (a - 1) 0 s2 = Some (put l0 0 s2)" using s2(2) l0(1) by (simp add: st updated_def)
  ultimately have "k_snprintf_vaarg ld st buf a maxlen p ap s = Some (put l0 0 s2)"
    using s1(1) s2(1) by (simp add: k_snprintf_vaarg_def)
  moreover have "map (get (put l0 0 s2)) cs = map (get s2) cs" using l0(2) by (auto simp: get_put)
  then have "map (get (put l0 0 s2)) cs = overwrite 0 (bs @ [0]) (map (get s) cs)" using s2(2) by (simp only: updated_def)
  moreover have "get (put l0 0 s2) l0 = 0" "\<And>l. l \<noteq> l0 \<Longrightarrow> get (put l0 0 s2) l = get s2 l" by (simp_all add: get_put)
  ultimately show ?thesis using s2(2) by (simp add: loc_put updated_def)
qed

end

section \<open>Buffers in kernel windows\<close>

lemma window_buffer:
  assumes w: "window s k f" and n: "off + n < 4096"
  shows "buffer kvirt_loc s (kaddr k + of_nat off) (map (\<lambda>i. frame_addr f + of_nat (off + i)) [0..<n])"
proof -
  have u: "unat (of_nat (off + i) :: u32) = off + i" if "i \<le> n" for i using that n by (simp add: unat_of_nat del: of_nat_add)
  have lt: "(of_nat (off + i) :: u32) < 4096" if "i \<le> n" for i using u[OF that] that n by (simp add: word_less_nat_alt del: of_nat_add)
  have "kvirt_loc s (kaddr k + of_nat off + of_nat i) = Some (frame_addr f + of_nat (off + i))" if "i < n" for i
    using window_loc[OF w lt[of i]] that by (simp add: add.assoc)
  moreover have "distinct (map (\<lambda>i. frame_addr f + of_nat (off + i)) [0..<n])"
  proof -
    have "i = j" if "(of_nat (off + i) :: u32) = of_nat (off + j)" "i < n" "j < n" for i j
      using arg_cong[OF that(1), of unat] u[of i] u[of j] that(2,3) by simp
    then show ?thesis by (auto simp: distinct_map inj_on_def simp del: of_nat_add)
  qed
  moreover have "unat (kaddr k + of_nat off) + n < 2 ^ 32"
    using unat_kaddr[of k "of_nat off"] u[of 0] lt[of 0] w n by (simp add: window_def)
  ultimately show ?thesis by (simp add: buffer_def)
qed

lemma window_apart:
  assumes "window s k f" "window s m g" "f \<noteq> g" "off + n < 4096" "off' + n' < 4096"
  shows "apart kvirt_loc s (map (\<lambda>i. frame_addr f + of_nat (off + i)) [0..<n]) (kaddr m + of_nat off') n'"
  unfolding apart_def
proof (intro allI impI)
  have lt: "(of_nat x :: u32) < 4096" if "x < 4096" for x using that by (simp add: word_less_nat_alt unat_of_nat)
  fix i l assume "i \<le> n'" and "kvirt_loc s (kaddr m + of_nat off' + of_nat i) = Some l"
  then have "l = frame_addr g + of_nat (off' + i)" "frame_of l = g"
    using window_loc[OF assms(2) lt[of "off' + i"]] frame_byte_parts(1)[OF lt[of "off' + i"], of g] assms(5)
    by (simp_all add: add.assoc)
  moreover have "frame_of x = f" if "x \<in> set (map (\<lambda>i. frame_addr f + of_nat (off + i)) [0..<n])" for x
    using that frame_byte_parts(1)[OF lt, of _ f] assms(4) by (auto simp del: of_nat_add)
  ultimately show "l \<notin> set (map (\<lambda>i. frame_addr f + of_nat (off + i)) [0..<n])" using assms(3) by blast
qed

text \<open>Two windows; the first holds the strings \<open>abc\<close> and, 16 bytes on, \<open>bc\<close>.\<close>

definition example_strings :: vm_state where
  "example_strings = example_vm\<lparr>
     kernel_flatpt := (\<lambda>k. (word_to_pte 0)\<lparr>pt_present := k < 2, pt_phys_addr := 5 + of_nat k\<rparr>),
     pmem := (\<lambda>_. 0)(0x5000 := 0x61, 0x5001 := 0x62, 0x5002 := 0x63, 0x5010 := 0x62, 0x5011 := 0x63)\<rparr>"

lemma example_strings_windows: "window example_strings 0 5" "window example_strings 1 6"
  by (simp_all add: window_def example_strings_def)

lemma example_strings_cstr:
  "cstr vm_ld example_strings 0xC0000000 [0x61, 0x62, 0x63]" "cstr vm_ld example_strings 0xC0000010 [0x62, 0x63]"
  by (simp_all add: vm_ld_def kvirt_loc_def highstart_def example_strings_def frame_addr_def)

lemma kaddr_0_1: "kaddr 0 = 0xC0000000" "kaddr 1 = 0xC0001000"
  by (simp_all add: kaddr_def pg_size_def highstart_def)

lemmas example_string_buffer =
  window_buffer[OF example_strings_windows(2), where off = 16, unfolded kaddr_0_1, simplified of_nat_numeral add_numeral_left]

lemma strstr_empty: "cstr ld s h hay \<Longrightarrow> ld n s = Some 0 \<Longrightarrow> strstr ld h n s = Some 0"
proof (induction hay arbitrary: h)
  case Nil
  then show ?case by (subst strstr.simps) simp
next
  case (Cons c hay)
  then show ?case by (subst strstr.simps) simp
qed

lemma example_buffer:
  "buffer kvirt_loc example_strings 0xC0001010 (map (\<lambda>i. 0x6010 + of_nat i) [0..<20])"
  using example_string_buffer[of 20] by (simp add: frame_addr_def)

lemma example_strings_apart:
  "apart kvirt_loc example_strings (map (\<lambda>i. 0x6010 + of_nat i) [0..<20]) 0xC0000000 3"
  "apart kvirt_loc example_strings (map (\<lambda>i. 0x6010 + of_nat i) [0..<20]) 0xC0000010 2"
  using window_apart[OF example_strings_windows(2,1), of 16 20 0 3] window_apart[OF example_strings_windows(2,1), of 16 20 16 2]
  by (simp_all add: kaddr_0_1 frame_addr_def)

section \<open>Properties\<close>

text \<open>
  C23. \<^verbatim>\<open>strstr\<close> returns for strings in mapped kernel memory and finds the first occurrence of a needle,
  or a null pointer when there is none; for an empty needle it always returns a null pointer, where
  the C library returns the haystack.
\<close>

theorem strstr_finds_first:
  assumes "cstr vm_ld s h hay" "cstr vm_ld s n needle"
  shows "strstr vm_ld h n s = Some (if needle = [] then 0
    else case occurrence needle hay of None \<Rightarrow> 0 | Some i \<Rightarrow> h + of_nat i)"
  using strstr_occurrence[OF assms] strstr_empty[OF assms(1)] assms(2) by (cases needle) auto

theorem strstr_finds_first_witness:
  "strstr vm_ld 0xC0000000 0xC0000010 example_strings = Some 0xC0000001"
proof -
  have "occurrence [0x62, 0x63] [0x61, 0x62, 0x63] = Some 1" by (simp add: occurrence_Cons)
  then show ?thesis using strstr_finds_first[OF example_strings_cstr] by simp
qed

text \<open>
  C24. \<^verbatim>\<open>itoa\<close> into a mapped buffer of 20 bytes returns, and what it prints is a string of at most 11
  characters that reads back as the number: signed for \<^verbatim>\<open>'d'\<close>, the least integer included, and unsigned
  for \<^verbatim>\<open>'x'\<close>.  It writes to no other byte of memory.
\<close>

theorem itoa_reads_back:
  assumes "buffer kvirt_loc s a cs" "length cs = 20" "base = 0x64 \<or> base = 0x78"
  shows "\<exists>s' bs. itoa vm_ld vm_st a base d s = Some s' \<and> cstr vm_ld s' a bs \<and> length bs \<le> 11 \<and>
    read_number (if base = 0x64 then 10 else 16) bs = (if base = 0x64 then sint d else uint d) \<and>
    (\<forall>l. l \<notin> set cs \<longrightarrow> pmem s' l = pmem s l)"
proof -
  obtain s' where s': "itoa vm_ld vm_st a base d s = Some s'"
    "updated kvirt_loc pmem (\<lambda>s. s\<lparr>pmem := \<lambda>_. 0\<rparr>) s s' cs (overwrite 0 (itoa_text base d @ [0]) (map (pmem s) cs))"
    using kvm.itoa_ok[OF assms] by blast
  have "length (itoa_text base d) < length (map (pmem s) cs)"
    using itoa_text_length[OF assms(3), of d] assms(2) by simp
  moreover have "buffer kvirt_loc s' a cs" using kvm.updated_buffer[OF s'(2)] assms(1) by simp
  ultimately have "cstr vm_ld s' a (itoa_text base d)"
    using kvm.buffer_cstr itoa_text_reads(2)[OF assms(3), of d] s'(2) by (simp add: updated_def)
  then show ?thesis
    using s' itoa_text_reads(1)[OF assms(3), of d] itoa_text_length[OF assms(3), of d] by (auto simp: updated_def)
qed

theorem itoa_reads_back_witness:
  "\<exists>s' bs. itoa vm_ld vm_st 0xC0001010 0x64 0x80000000 example_strings = Some s' \<and> cstr vm_ld s' 0xC0001010 bs \<and>
     read_number 10 bs = - 2147483648"
  using itoa_reads_back[OF example_buffer, of "0x64" "0x80000000"] by auto

text \<open>
  C25. \<^verbatim>\<open>strlcpy\<close> and \<^verbatim>\<open>strlcat\<close> with a buffer of \<^verbatim>\<open>siz\<close> bytes and strings outside it: copying one string and
  appending another leaves their concatenation, cut to \<^verbatim>\<open>siz - 1\<close> bytes and with a NUL; the results are the
  lengths the strings would have without the cut (for \<^verbatim>\<open>strlcat\<close>: the length of what the buffer holds plus
  that of the source), and no byte outside the buffer is written.
\<close>

theorem strlcpy_strlcat_concat:
  assumes b: "buffer kvirt_loc s a cs" "length cs = unat siz" "siz \<noteq> 0"
    and x: "cstr vm_ld s p xs" "apart kvirt_loc s cs p (length xs)"
    and y: "cstr vm_ld s q ys" "apart kvirt_loc s cs q (length ys)"
  shows "\<exists>s1 s2. strlcpy vm_ld vm_st a p siz s = Some (of_nat (length xs), s1) \<and>
    strlcat vm_ld vm_st a q siz s1 = Some (of_nat (min (length xs) (unat siz - 1) + length ys), s2) \<and>
    cstr vm_ld s2 a (take (unat siz - 1) (xs @ ys)) \<and> (\<forall>l. l \<notin> set cs \<longrightarrow> pmem s2 l = pmem s l)"
proof -
  let ?k = "unat siz - 1" and ?R = "\<lambda>s. s\<lparr>pmem := \<lambda>_. 0\<rparr>"
  have pos: "0 < unat siz" using b(3) by (simp add: unat_gt_0)
  have nz: "0 \<notin> set xs" "0 \<notin> set ys" using x(1) y(1) by (auto simp: cstr_nth in_set_conv_nth)
  obtain s1 where s1: "strlcpy vm_ld vm_st a p siz s = Some (of_nat (length xs), s1)"
    "updated kvirt_loc pmem ?R s s1 cs (overwrite 0 (take ?k xs @ [0]) (map (pmem s) cs))"
    using kvm.strlcpy_ok[OF b x] by blast
  have m1: "map (pmem s1) cs = overwrite 0 (take ?k xs @ [0]) (map (pmem s) cs)" using s1(2) by (simp add: updated_def)
  have b1: "buffer kvirt_loc s1 a cs" using kvm.updated_buffer[OF s1(2)] b(1) by simp
  have lt: "length (take ?k xs) < unat siz" using pos by auto
  have "cstr vm_ld s1 a (take ?k xs)"
    using nz(1) lt b(2) by (intro kvm.buffer_cstr[OF b1 m1]) (auto dest: in_set_takeD)
  moreover have "cstr vm_ld s1 q ys" "apart kvirt_loc s1 cs q (length ys)"
    using kvm.cstr_apart[OF s1(2) y] kvm.apart_updated[OF s1(2)] y(2) by simp_all
  ultimately obtain s2 where s2: "strlcat vm_ld vm_st a q siz s1 = Some (of_nat (length (take ?k xs) + length ys), s2)"
    "updated kvirt_loc pmem ?R s1 s2 cs
      (overwrite (length (take ?k xs)) (take (?k - length (take ?k xs)) ys @ [0]) (map (pmem s1) cs))"
    using kvm.strlcat_ok[OF b1 b(2) _ lt] by blast
  have b2: "buffer kvirt_loc s2 a cs" using kvm.updated_buffer[OF s2(2)] b1 by simp
  have t: "take ?k (xs @ ys) = take ?k xs @ take (?k - length xs) ys" by simp
  have "overwrite (length (take ?k xs)) (take (?k - length (take ?k xs)) ys @ [0]) (map (pmem s1) cs) =
      overwrite 0 (take ?k (xs @ ys) @ [0]) (map (pmem s1) cs)"
    unfolding m1 t by (auto simp: overwrite_def min_def)
  then have m2: "map (pmem s2) cs = overwrite 0 (take ?k (xs @ ys) @ [0]) (map (pmem s1) cs)"
    using s2(2) by (simp add: updated_def)
  have "cstr vm_ld s2 a (take ?k (xs @ ys))"
  proof (rule kvm.buffer_cstr[OF b2 m2])
    show "length (take ?k (xs @ ys)) < length (map (pmem s1) cs)" using pos b(2) by auto
    show "0 \<notin> set (take ?k (xs @ ys))" using nz by (auto dest: in_set_takeD)
  qed
  moreover have "\<forall>l. l \<notin> set cs \<longrightarrow> pmem s2 l = pmem s l" using s1(2) s2(2) by (simp add: updated_def)
  ultimately show ?thesis using s1(1) s2(1) by auto
qed

theorem strlcpy_strlcat_concat_witness:
  "\<exists>s1 s2. strlcpy vm_ld vm_st 0xC0001010 0xC0000000 20 example_strings = Some (3, s1) \<and>
     strlcat vm_ld vm_st 0xC0001010 0xC0000010 20 s1 = Some (5, s2) \<and>
     cstr vm_ld s2 0xC0001010 [0x61, 0x62, 0x63, 0x62, 0x63]"
  using strlcpy_strlcat_concat[OF example_buffer, of 20, OF _ _ example_strings_cstr(1) _ example_strings_cstr(2)] example_strings_apart
  by (auto simp: numeral_2_eq_2[symmetric])

text \<open>
  \<^verbatim>\<open>k_snprintf_vaarg\<close> writes the byte before its buffer.  For a format without a conversion that fits
  into \<^verbatim>\<open>maxlen\<close> bytes it returns, the buffer gets the format and a NUL, and the byte at \<^verbatim>\<open>output - 1\<close>
  is overwritten with 0; all other bytes are as before.  (With a full buffer the NUL is missing: the last
  write is meant for the last byte of the buffer.)
\<close>

theorem snprintf_writes_before_buffer:
  assumes "buffer kvirt_loc s a cs" "length cs = unat maxlen" and "cstr vm_ld s p bs" "0x25 \<notin> set bs"
    and "apart kvirt_loc s cs p (length bs)" "length bs < length cs" and "kvirt_loc s (a - 1) = Some l0" "l0 \<notin> set cs"
  shows "\<exists>s'. k_snprintf_vaarg vm_ld vm_st buf a maxlen p ap s = Some s' \<and> cstr vm_ld s' a bs \<and> pmem s' l0 = 0 \<and>
    (\<forall>l. l \<noteq> l0 \<longrightarrow> l \<notin> set cs \<longrightarrow> pmem s' l = pmem s l)"
proof -
  obtain s' where s': "k_snprintf_vaarg vm_ld vm_st buf a maxlen p ap s = Some s'" "pmem s' l0 = 0" "kvirt_loc s' = kvirt_loc s"
    "map (pmem s') cs = overwrite 0 (bs @ [0]) (map (pmem s) cs)"
    "\<forall>l. l \<noteq> l0 \<longrightarrow> l \<notin> set cs \<longrightarrow> pmem s' l = pmem s l"
    using kvm.k_snprintf_plain[OF assms] by blast
  have "buffer kvirt_loc s' a cs" using assms(1) s'(3) by (simp add: buffer_def)
  moreover have "0 \<notin> set bs" using assms(3) by (auto simp: cstr_nth in_set_conv_nth)
  ultimately have "cstr vm_ld s' a bs" using kvm.buffer_cstr s'(4) assms(6) by (metis length_map)
  then show ?thesis using s' by blast
qed

theorem snprintf_writes_before_buffer_witness:
  "\<exists>s'. k_snprintf_vaarg vm_ld vm_st 0xC0002000 0xC0001010 20 0xC0000000 [] example_strings = Some s' \<and>
     cstr vm_ld s' 0xC0001010 [0x61, 0x62, 0x63] \<and> pmem s' 0x600F = 0"
proof -
  have l: "kvirt_loc example_strings (0xC0001010 - 1) = Some 0x600F"
    by (simp add: kvirt_loc_def highstart_def example_strings_def frame_addr_def)
  have "0x600F \<notin> set (map (\<lambda>i. 0x6010 + of_nat i :: u32) [0..<20])"
    by (simp add: upt_rec)
  then show ?thesis
    using snprintf_writes_before_buffer[OF example_buffer, of 20 "0xC0000000" "[0x61, 0x62, 0x63]" "0x600F" "0xC0002000" "[]"]
      example_strings_cstr(1) example_strings_apart(1) l by (auto simp: numeral_3_eq_3)
qed

end
