(* ===== verification/Cpu.thy ===== *)
theory Cpu
  imports Sched
begin

text \<open>
  The processor of i686: \<^verbatim>\<open>src/sys/i686/i686_cpu.c\<close> and \<^verbatim>\<open>src/sys/i686/i686_cpu.h\<close> without the
  scheduler functions, which are in \<open>Sched\<close>.  Descriptors, gates and the task state are records of
  their fields; \<open>gdt_bits\<close> and \<open>idt_bits\<close> are the layout of the packed structs, and the functions
  \<open>descriptor_\<close> and \<open>gate_\<close> read the quadwords as the processor does.
\<close>

section \<open>Descriptors\<close>

record i686_gdt_entry =
  g_limit_low :: u16
  g_base_low :: u16
  g_base_mid :: u8
  g_type :: "4 word"
  g_system :: bool
  g_dpl :: "2 word"
  g_present :: bool
  g_limit_high :: "4 word"
  g_avl :: bool
  g_reserved :: bool
  g_op_size :: bool
  g_granularity :: bool
  g_base_high :: u8

record i686_idt_entry =
  i_offset_low :: u16
  i_segment :: u16
  i_reserved :: "5 word"
  i_zeroes :: "3 word"
  i_type :: "5 word"
  i_dpl :: "2 word"
  i_present :: bool
  i_offset_high :: u16

type_synonym quadword = "64 word"

definition gdt_bits :: "i686_gdt_entry \<Rightarrow> quadword" where
  "gdt_bits g =
     ucast (g_limit_low g) OR push_bit 16 (ucast (g_base_low g)) OR push_bit 32 (ucast (g_base_mid g)) OR
     push_bit 40 (ucast (g_type g)) OR push_bit 44 (of_bool (g_system g)) OR push_bit 45 (ucast (g_dpl g)) OR
     push_bit 47 (of_bool (g_present g)) OR push_bit 48 (ucast (g_limit_high g)) OR
     push_bit 52 (of_bool (g_avl g)) OR push_bit 53 (of_bool (g_reserved g)) OR
     push_bit 54 (of_bool (g_op_size g)) OR push_bit 55 (of_bool (g_granularity g)) OR
     push_bit 56 (ucast (g_base_high g))"

definition idt_bits :: "i686_idt_entry \<Rightarrow> quadword" where
  "idt_bits i =
     ucast (i_offset_low i) OR push_bit 16 (ucast (i_segment i)) OR push_bit 32 (ucast (i_reserved i)) OR
     push_bit 37 (ucast (i_zeroes i)) OR push_bit 40 (ucast (i_type i)) OR push_bit 45 (ucast (i_dpl i)) OR
     push_bit 47 (of_bool (i_present i)) OR push_bit 48 (ucast (i_offset_high i))"

text \<open>Bits \<open>n\<close> to \<open>n + k - 1\<close> of a quadword.\<close>

definition field :: "nat \<Rightarrow> nat \<Rightarrow> quadword \<Rightarrow> u32" where
  "field n k w = ucast (take_bit k (drop_bit n w))"

text \<open>How the processor reads a segment descriptor and a gate.\<close>

definition descriptor_base :: "quadword \<Rightarrow> u32" where
  "descriptor_base w = field 16 24 w OR push_bit 24 (field 56 8 w)"

definition descriptor_limit :: "quadword \<Rightarrow> u32" where
  "descriptor_limit w =
     (let l = field 0 16 w OR push_bit 16 (field 48 4 w)
      in if bit w 55 then push_bit 12 l OR 0xFFF else l)"

definition descriptor_type :: "quadword \<Rightarrow> u32" where "descriptor_type w = field 40 5 w"
definition descriptor_dpl :: "quadword \<Rightarrow> u32" where "descriptor_dpl w = field 45 2 w"
definition descriptor_present :: "quadword \<Rightarrow> bool" where "descriptor_present w = bit w 47"

definition gate_offset :: "quadword \<Rightarrow> u32" where
  "gate_offset w = field 0 16 w OR push_bit 16 (field 48 16 w)"

definition gate_selector :: "quadword \<Rightarrow> u32" where "gate_selector w = field 16 16 w"

section \<open>Exceptions\<close>

datatype i686_exception =
  E_DE | E_DB | E_NMI | E_BP | E_OF | E_BR | E_UD | E_NM | E_DF | E_CO | E_TS | E_NP | E_SS | E_GP |
  E_PF | E_RS | E_MF | E_AC | E_MC | E_XM | E_VE

definition exceptions :: "i686_exception list" where
  "exceptions = [E_DE, E_DB, E_NMI, E_BP, E_OF, E_BR, E_UD, E_NM, E_DF, E_CO, E_TS, E_NP, E_SS, E_GP,
     E_PF, E_RS, E_MF, E_AC, E_MC, E_XM, E_VE]"

lemma exceptions_UNIV: "set exceptions = UNIV"
proof -
  have "e \<in> set exceptions" for e by (cases e) (simp_all add: exceptions_def)
  then show ?thesis by auto
qed

instantiation i686_exception :: enum
begin

definition enum_i686_exception :: "i686_exception list" where
  "enum_i686_exception = exceptions"

definition enum_all_i686_exception :: "(i686_exception \<Rightarrow> bool) \<Rightarrow> bool" where
  "enum_all_i686_exception P \<longleftrightarrow> list_all P exceptions"

definition enum_ex_i686_exception :: "(i686_exception \<Rightarrow> bool) \<Rightarrow> bool" where
  "enum_ex_i686_exception P \<longleftrightarrow> list_ex P exceptions"

instance
proof
  show "UNIV = set (enum_class.enum :: i686_exception list)"
    by (simp add: enum_i686_exception_def exceptions_UNIV)
  show "distinct (enum_class.enum :: i686_exception list)"
    by (simp add: enum_i686_exception_def exceptions_def)
qed (simp_all add: enum_all_i686_exception_def enum_ex_i686_exception_def list_all_iff list_ex_iff exceptions_UNIV)

end

fun exception_number :: "i686_exception \<Rightarrow> nat" where
  "exception_number E_DE = 0"
| "exception_number E_DB = 1"
| "exception_number E_NMI = 2"
| "exception_number E_BP = 3"
| "exception_number E_OF = 4"
| "exception_number E_BR = 5"
| "exception_number E_UD = 6"
| "exception_number E_NM = 7"
| "exception_number E_DF = 8"
| "exception_number E_CO = 9"
| "exception_number E_TS = 10"
| "exception_number E_NP = 11"
| "exception_number E_SS = 12"
| "exception_number E_GP = 13"
| "exception_number E_PF = 14"
| "exception_number E_RS = 15"
| "exception_number E_MF = 16"
| "exception_number E_AC = 17"
| "exception_number E_MC = 18"
| "exception_number E_XM = 19"
| "exception_number E_VE = 20"

section \<open>The processor\<close>

record i686_tss =
  tss_esp0 :: u32
  tss_ss0 :: u16

text \<open>
  The other fields of the task state are never written.  \<open>gdtr\<close>, \<open>idtr\<close> and \<open>tr\<close> are registers of
  the processor, the last three the addresses of parts of the struct.
\<close>

record i686_cpu =
  cpu_gdt :: "nat \<Rightarrow> i686_gdt_entry"
  cpu_idt :: "nat \<Rightarrow> i686_idt_entry"
  cpu_tss :: i686_tss
  cpu_gdtr :: "u16 \<times> u32"
  cpu_idtr :: "u16 \<times> u32"
  cpu_tr :: u16
  cpu_segments :: "u16 \<times> u16"
  sym_gdt :: u32
  sym_idt :: u32
  sym_tss :: u32
  sym_stack :: virtaddr_t

definition sizeof_gdt_entry :: nat where "sizeof_gdt_entry = 8"
definition sizeof_idt_entry :: nat where "sizeof_idt_entry = 8"
definition sizeof_tss :: u32 where "sizeof_tss = 104"
definition sizeof_stack :: c_size_t where "sizeof_stack = 4096"

text \<open>The code segment is loaded with 0x08, the data segments with 0x10.\<close>

definition i686_cpu_set_gdt :: "nat \<Rightarrow> i686_cpu \<Rightarrow> i686_cpu" where
  "i686_cpu_set_gdt len c = c\<lparr>cpu_gdtr := (of_nat (len * sizeof_gdt_entry), sym_gdt c), cpu_segments := (0x08, 0x10)\<rparr>"

definition i686_cpu_set_idt :: "nat \<Rightarrow> i686_cpu \<Rightarrow> i686_cpu" where
  "i686_cpu_set_idt len c = c\<lparr>cpu_idtr := (of_nat (len * sizeof_idt_entry), sym_idt c)\<rparr>"

definition i686_cpu_set_tss_stack :: "virtaddr_t \<Rightarrow> c_size_t \<Rightarrow> i686_cpu \<Rightarrow> i686_cpu option" where
  "i686_cpu_set_tss_stack stack sz c = do {
     c_assert (sym_tss c \<noteq> 0);
     c_assert (c_srem stack 4 = 0);
     c_assert (sz mod 4 = 0);
     Some (c\<lparr>cpu_tss := \<lparr>tss_esp0 = stack + sz - 4, tss_ss0 = 0x10\<rparr>\<rparr>)
   }"

text \<open>
  The assembly moves \<^verbatim>\<open>eax\<close> to the operand, not the operand to \<^verbatim>\<open>eax\<close>, and loads \<^verbatim>\<open>ax\<close>: what is loaded
  is what the compiler left in \<^verbatim>\<open>eax\<close>, given by the parameter \<open>eax\<close> as a function of the operand.
\<close>

definition i686_cpu_set_tr :: "(u32 \<Rightarrow> u32) \<Rightarrow> u32 \<Rightarrow> i686_cpu \<Rightarrow> i686_cpu" where
  "i686_cpu_set_tr eax index c = c\<lparr>cpu_tr := ucast (eax (push_bit 3 index))\<rparr>"

definition null_descriptor :: i686_gdt_entry where
  "null_descriptor =
     \<lparr>g_limit_low = 0, g_base_low = 0, g_base_mid = 0, g_type = 0, g_system = False, g_dpl = 0, g_present = False,
      g_limit_high = 0, g_avl = False, g_reserved = False, g_op_size = False, g_granularity = False, g_base_high = 0\<rparr>"

definition flat_descriptor :: "4 word \<Rightarrow> 2 word \<Rightarrow> i686_gdt_entry" where
  "flat_descriptor ty dpl =
     \<lparr>g_limit_low = 0xFFFF, g_base_low = 0, g_base_mid = 0, g_type = ty, g_system = True, g_dpl = dpl, g_present = True,
      g_limit_high = 0xF, g_avl = False, g_reserved = False, g_op_size = True, g_granularity = True, g_base_high = 0\<rparr>"

definition tss_descriptor :: "u32 \<Rightarrow> i686_gdt_entry" where
  "tss_descriptor tss =
     \<lparr>g_limit_low = ucast ((sizeof_tss - 1) AND 0xFFFF), g_base_low = ucast (tss AND 0xFFFF),
      g_base_mid = ucast (drop_bit 16 (tss AND 0xFFFFFF)), g_type = 9, g_system = False, g_dpl = 0, g_present = True,
      g_limit_high = ucast (drop_bit 16 (sizeof_tss - 1)), g_avl = False, g_reserved = False,
      g_op_size = True, g_granularity = False, g_base_high = ucast (drop_bit 24 tss)\<rparr>"

definition i686_setup_gdt :: "(u32 \<Rightarrow> u32) \<Rightarrow> i686_cpu \<Rightarrow> i686_cpu" where
  "i686_setup_gdt eax c =
     (let c1 = c\<lparr>cpu_gdt := (cpu_gdt c)(0 := null_descriptor, 1 := flat_descriptor 0xA 0, 2 := flat_descriptor 0x2 0,
                 3 := flat_descriptor 0xA 3, 4 := flat_descriptor 0x2 3, 5 := tss_descriptor (sym_tss c))\<rparr>
      in i686_cpu_set_tr eax 5 (i686_cpu_set_gdt 6 c1))"

definition i686_set_idt_entry :: "u32 \<Rightarrow> i686_idt_entry" where
  "i686_set_idt_entry entry =
     \<lparr>i_offset_low = ucast (entry AND 0xFFFF), i_segment = 0x8, i_reserved = 0, i_zeroes = 0, i_type = 0xE,
      i_dpl = 0, i_present = True, i_offset_high = ucast (drop_bit 16 entry)\<rparr>"

definition zero_idt_entry :: i686_idt_entry where
  "zero_idt_entry = \<lparr>i_offset_low = 0, i_segment = 0, i_reserved = 0, i_zeroes = 0, i_type = 0, i_dpl = 0,
     i_present = False, i_offset_high = 0\<rparr>"

text \<open>\<open>handler n\<close> is the address of \<^verbatim>\<open>i686_int_handler_n\<close>.\<close>

definition i686_setup_idt :: "(nat \<Rightarrow> u32) \<Rightarrow> i686_cpu \<Rightarrow> i686_cpu" where
  "i686_setup_idt handler c =
     (let c1 = c\<lparr>cpu_idt := \<lambda>n. if n < 256 then zero_idt_entry else cpu_idt c n\<rparr>;
          c2 = fold (\<lambda>e c. c\<lparr>cpu_idt := (cpu_idt c)(exception_number e := i686_set_idt_entry (handler (exception_number e)))\<rparr>)
                 exceptions c1
      in i686_cpu_set_idt 256 c2)"

section \<open>Interrupts\<close>

text \<open>
  The stack as a list, the top first.  The processor pushes the error code, if the exception has one,
  on top of \<^verbatim>\<open>eip\<close>, \<^verbatim>\<open>cs\<close> and \<^verbatim>\<open>eflags\<close> (and, from user space, \<^verbatim>\<open>esp\<close> and \<^verbatim>\<open>ss\<close>).
\<close>

definition I686_INT_HANDLER_WERR :: "nat \<Rightarrow> u32 list \<Rightarrow> u32 list" where
  "I686_INT_HANDLER_WERR n stack = of_nat n # stack"

definition I686_INT_HANDLER_NOERR :: "nat \<Rightarrow> u32 list \<Rightarrow> u32 list" where
  "I686_INT_HANDLER_NOERR n stack = of_nat n # 0 # stack"

text \<open>The stubs as they are declared.\<close>

definition i686_int_handler_n :: "nat \<Rightarrow> u32 list \<Rightarrow> u32 list" where
  "i686_int_handler_n n =
     (if n \<in> {8, 10, 11, 12, 13, 14, 17} then I686_INT_HANDLER_WERR n else I686_INT_HANDLER_NOERR n)"

text \<open>The general registers in the order of \<^verbatim>\<open>pusha\<close> and the segment registers, as they are pushed.
  \<open>esp\<close> is the stack pointer before \<^verbatim>\<open>pusha\<close>.\<close>

record cpu_regs =
  r_eax :: u32
  r_ecx :: u32
  r_edx :: u32
  r_ebx :: u32
  r_ebp :: u32
  r_esi :: u32
  r_edi :: u32
  r_ds :: u32
  r_es :: u32
  r_fs :: u32
  r_gs :: u32

definition i686_int_handler :: "u32 \<Rightarrow> cpu_regs \<Rightarrow> u32 list \<Rightarrow> u32 list" where
  "i686_int_handler esp r stack =
     (let s1 = [r_edi r, r_esi r, r_ebp r, esp, r_ebx r, r_edx r, r_ecx r, r_eax r] @ stack
      in r_gs r # r_fs r # r_es r # r_ds r # s1)"

text \<open>The context that \<^verbatim>\<open>i686_int_entry\<close> gets is the stack.\<close>

fun context_of_stack :: "u32 list \<Rightarrow> i686_context option" where
  "context_of_stack (gs # fs # es # ds # edi # esi # ebp # esp # ebx # edx # ecx # eax # n # err # eip # cs # eflags # useresp # ss # rest) =
     Some \<lparr>c_gs = gs, c_fs = fs, c_es = es, c_ds = ds, c_edi = edi, c_esi = esi, c_ebp = ebp, c_esp = esp, c_ebx = ebx,
       c_edx = edx, c_ecx = ecx, c_eax = eax, c_int_no = n, c_err_code = err, c_eip = eip, c_cs = cs, c_eflags = eflags,
       c_useresp = useresp, c_ss = ss\<rparr>"
| "context_of_stack _ = None"

record i686_pagefault_error =
  pf_present :: bool
  pf_write :: bool
  pf_usermode :: bool
  pf_reserved :: bool
  pf_io :: bool
  pf__reserved :: "27 word"

definition i686_pagefault_decode :: "u32 \<Rightarrow> i686_pagefault_error" where
  "i686_pagefault_decode code =
     \<lparr>pf_present = bit code 0, pf_write = bit code 1, pf_usermode = bit code 2, pf_reserved = bit code 3,
      pf_io = bit code 4, pf__reserved = ucast (drop_bit 5 code)\<rparr>"

section \<open>Start\<close>

text \<open>\<^verbatim>\<open>i686_cpu_init\<close>: \<open>feeder\<close> and \<open>sched\<close> are the addresses of the parts of the struct, \<open>phys\<close> the
  kernel's allocator.\<close>

definition i686_cpu_init ::
  "(u32 \<Rightarrow> u32) \<Rightarrow> (nat \<Rightarrow> u32) \<Rightarrow> physmem_ptr \<Rightarrow> physmem_ptr \<Rightarrow> sched_ptr \<Rightarrow> 'z sched_state \<times> i686_cpu \<Rightarrow>
   ('z sched_state \<times> i686_cpu) option" where
  "i686_cpu_init eax handler feeder phys sched = (\<lambda>(s, c). do {
     let vm = km_vm s;
     let vm1 = vm\<lparr>vm_pm := feeder_physmem_create feeder phys 1024 1024 (vm_pm vm), localmem := feeder\<rparr>;
     let c1 = i686_setup_gdt eax c;
     let c2 = i686_setup_idt handler c1;
     c3 \<leftarrow> i686_cpu_set_tss_stack (sym_stack c2) sizeof_stack c2;
     Some (i686_scheduler_init sched (s\<lparr>km_vm := vm1\<rparr>), c3)
   })"

definition i686_cpu_schedule :: "i686_cpu \<Rightarrow> i686_cpu" where
  "i686_cpu_schedule c = c"

section \<open>Reading the tables\<close>

lemma bit_field: "bit (field n k w) m \<longleftrightarrow> m < 32 \<and> m < k \<and> bit w (n + m)"
  by (auto simp: field_def bit_ucast_iff bit_take_bit_iff bit_drop_bit_eq add.commute)

lemmas layout_bits = bit_field bit_or_iff bit_and_iff bit_push_bit_iff bit_drop_bit_eq bit_ucast_iff bit_take_bit_iff

lemma of_bool_bit: "bit (of_bool b :: quadword) n \<longleftrightarrow> b \<and> n = 0"
  by (cases b) (simp_all add: bit_1_iff)

lemma and_low_bits:
  "ucast (x AND 0xFFFF :: u32) = (ucast x :: u16)"
  "ucast (drop_bit 16 (x AND 0xFFFFFF :: u32)) = (ucast (drop_bit 16 x) :: u8)"
  "ucast (y AND 0xFF :: u32) = (ucast y :: u8)"
proof -
  have "x AND 0xFF = take_bit 8 x" for x :: u32 by (simp add: take_bit_eq_mask mask_numeral)
  then show "ucast (y AND 0xFF :: u32) = (ucast y :: u8)"
    by (simp only:) (rule bit_word_eqI, simp add: bit_ucast_iff bit_take_bit_iff)
  have m: "x AND 0xFFFF = take_bit 16 x" "x AND 0xFFFFFF = take_bit 24 x" for x :: u32
    by (simp_all add: take_bit_eq_mask mask_numeral)
  show "ucast (x AND 0xFFFF :: u32) = (ucast x :: u16)"
    unfolding m by (rule bit_word_eqI) (simp add: bit_ucast_iff bit_take_bit_iff)
  show "ucast (drop_bit 16 (x AND 0xFFFFFF :: u32)) = (ucast (drop_bit 16 x) :: u8)"
    unfolding m by (rule bit_word_eqI) (auto simp: bit_ucast_iff bit_take_bit_iff bit_drop_bit_eq)
qed

lemma bit_constants:
  "bit (8 :: u16) m \<longleftrightarrow> m = 3" "bit (0xE :: 5 word) m \<longleftrightarrow> m = 1 \<or> m = 2 \<or> m = 3"
  "bit (9 :: 4 word) m \<longleftrightarrow> m = 0 \<or> m = 3"
proof -
  have "(8 :: u16) = push_bit 3 1" "(0xE :: 5 word) = push_bit 1 1 OR push_bit 2 1 OR push_bit 3 1"
    "(9 :: 4 word) = 1 OR push_bit 3 1" by (simp_all add: push_bit_eq_mult)
  then show "bit (8 :: u16) m \<longleftrightarrow> m = 3" "bit (0xE :: 5 word) m \<longleftrightarrow> m = 1 \<or> m = 2 \<or> m = 3"
    "bit (9 :: 4 word) m \<longleftrightarrow> m = 0 \<or> m = 3"
    by (auto simp only: bit_push_bit_iff bit_or_iff bit_1_iff possible_bit_word len_num1 len_bit0 len_bit1)
qed

lemma bit_high: "LENGTH('a) \<le> n \<Longrightarrow> \<not> bit (w :: 'a::len word) n"
  using bit_imp_le_length by (metis not_less)

lemma field_eqI:
  fixes x :: "'a::len word"
  assumes "\<And>m. m < k \<Longrightarrow> bit w (n + m) = bit x m" and "LENGTH('a) = k"
  shows "field n k w = ucast x"
proof (rule bit_word_eqI)
  fix m assume "m < LENGTH(32)"
  then show "bit (field n k w) m = bit (ucast x :: u32) m"
    using assms bit_high[where w = x and n = m] by (cases "m < k") (simp_all add: layout_bits)
qed

lemma idt_fields [simp]:
  "field 0 16 (idt_bits i) = ucast (i_offset_low i)" "field 16 16 (idt_bits i) = ucast (i_segment i)"
  "field 40 5 (idt_bits i) = ucast (i_type i)" "field 45 2 (idt_bits i) = ucast (i_dpl i)"
  "field 48 16 (idt_bits i) = ucast (i_offset_high i)" "descriptor_present (idt_bits i) = i_present i"
  by (rule field_eqI; simp add: idt_bits_def layout_bits of_bool_bit bit_high)+
    (simp add: descriptor_present_def idt_bits_def layout_bits of_bool_bit bit_high)

lemma gdt_fields [simp]:
  "field 0 16 (gdt_bits g) = ucast (g_limit_low g)" "field 48 4 (gdt_bits g) = ucast (g_limit_high g)"
  "field 45 2 (gdt_bits g) = ucast (g_dpl g)" "field 56 8 (gdt_bits g) = ucast (g_base_high g)"
  "descriptor_present (gdt_bits g) = g_present g" "bit (gdt_bits g) 55 = g_granularity g"
  by (rule field_eqI; simp add: gdt_bits_def layout_bits of_bool_bit bit_high)+
    (simp_all add: descriptor_present_def gdt_bits_def layout_bits of_bool_bit bit_high)

lemma field_join:
  fixes x :: "'a::len word" and y :: "'b::len word"
  assumes "field n k w = ucast x" "field (n + k) l w = ucast y" "k + l \<le> 32"
  shows "field n (k + l) w = ucast x OR push_bit k (ucast y)"
proof (rule bit_word_eqI)
  fix m assume m: "m < LENGTH(32)"
  have "bit (field n k w) m = bit (ucast x :: u32) m" "bit (field (n + k) l w) (m - k) = bit (ucast y :: u32) (m - k)"
    using assms(1,2) by simp_all
  then show "bit (field n (k + l) w) m = bit (ucast x OR push_bit k (ucast y) :: u32) m"
    using m assms(3) by (cases "m < k") (auto simp: layout_bits)
qed

lemma gdt_base_parts:
  "field 16 16 (gdt_bits g) = ucast (g_base_low g)" "field 32 8 (gdt_bits g) = ucast (g_base_mid g)"
  "field 40 4 (gdt_bits g) = ucast (g_type g)" "field 44 1 (gdt_bits g) = ucast (of_bool (g_system g) :: 1 word)"
  by (rule field_eqI; simp add: gdt_bits_def layout_bits of_bool_bit bit_high)+

lemma gdt_base [simp]:
  "field 16 24 (gdt_bits g) = ucast (g_base_low g) OR push_bit 16 (ucast (g_base_mid g))"
  "field 40 5 (gdt_bits g) = ucast (g_type g) OR push_bit 4 (ucast (of_bool (g_system g) :: 1 word))"
  using field_join[of 16 16 "gdt_bits g" "g_base_low g" 8 "g_base_mid g"]
    field_join[of 40 4 "gdt_bits g" "g_type g" 1 "of_bool (g_system g) :: 1 word"] gdt_base_parts[of g] by simp_all

lemma word_join:
  "ucast (ucast x :: u16) OR push_bit 16 (ucast (ucast (drop_bit 16 x) :: u16)) = (x :: u32)" (is "?a = x")
  "ucast (ucast x :: u16) OR push_bit 16 (ucast (ucast (drop_bit 16 x) :: u8)) OR
     push_bit 24 (ucast (ucast (drop_bit 24 x) :: u8)) = (x :: u32)" (is "?b = x")
proof -
  have "bit ?a n = bit x n" if "n < 32" for n using that by (cases "n < 16") (auto simp: layout_bits)
  moreover have "bit ?b n = bit x n" if "n < 32" for n
  proof (cases "n < 16")
    case False
    then show ?thesis using that by (cases "n < 24") (auto simp: layout_bits)
  qed (use that in \<open>simp add: layout_bits\<close>)
  ultimately
  show "?a = x" "?b = x" by (intro bit_word_eqI; simp)+
qed

lemma gate_parts:
  "gate_offset (idt_bits (i686_set_idt_entry h)) = h" "gate_selector (idt_bits (i686_set_idt_entry h)) = 8"
  "field 40 5 (idt_bits (i686_set_idt_entry h)) = 0xE" "field 45 2 (idt_bits (i686_set_idt_entry h)) = 0"
  "descriptor_present (idt_bits (i686_set_idt_entry h))"
  using word_join(1)[of h] by (simp_all add: gate_offset_def gate_selector_def i686_set_idt_entry_def and_low_bits)

lemma flat_parts:
  "descriptor_base (gdt_bits (flat_descriptor ty dpl)) = 0" "descriptor_limit (gdt_bits (flat_descriptor ty dpl)) = 0xFFFFFFFF"
  "descriptor_type (gdt_bits (flat_descriptor ty dpl)) = ucast ty OR 0x10" "descriptor_dpl (gdt_bits (flat_descriptor ty dpl)) = ucast dpl"
  "descriptor_present (gdt_bits (flat_descriptor ty dpl))"
  by (simp_all add: descriptor_base_def descriptor_limit_def descriptor_type_def descriptor_dpl_def flat_descriptor_def Let_def)

lemma tss_parts:
  "descriptor_base (gdt_bits (tss_descriptor t)) = t" "descriptor_limit (gdt_bits (tss_descriptor t)) = 103"
  "descriptor_type (gdt_bits (tss_descriptor t)) = 9" "descriptor_dpl (gdt_bits (tss_descriptor t)) = 0"
  "descriptor_present (gdt_bits (tss_descriptor t))"
  using word_join(2)[of t]
  by (simp_all add: descriptor_base_def descriptor_limit_def descriptor_type_def descriptor_dpl_def tss_descriptor_def
      and_low_bits Let_def sizeof_tss_def or.assoc)

lemma null_bits: "gdt_bits null_descriptor = 0"
  by (simp add: gdt_bits_def null_descriptor_def)

lemma setup_idt_entries:
  "cpu_idt (i686_setup_idt handler c) (exception_number e) = i686_set_idt_entry (handler (exception_number e))"
  "21 \<le> n \<Longrightarrow> n < 256 \<Longrightarrow> cpu_idt (i686_setup_idt handler c) n = zero_idt_entry"
  by (cases e; simp add: i686_setup_idt_def Let_def exceptions_def i686_cpu_set_idt_def)
    (simp add: i686_setup_idt_def Let_def exceptions_def i686_cpu_set_idt_def)

section \<open>Properties\<close>

text \<open>
  C30. \<^verbatim>\<open>i686_setup_gdt\<close>: as the processor reads the table, its first entry is null, the selectors that
  the kernel loads (0x08, 0x10) and those of new threads (0x1B, 0x23) are code and data segments over
  the whole of memory with the privilege of their selectors, and the sixth is a task state segment
  over exactly the processor's \<^verbatim>\<open>tss\<close>.  The limit given to the processor is 48, one more than the last byte
  of the table.
\<close>

theorem gdt_describes_segments:
  fixes c :: i686_cpu and eax :: "u32 \<Rightarrow> u32"
  defines "seg \<equiv> \<lambda>sel :: u32. gdt_bits (cpu_gdt (i686_setup_gdt eax c) (unat (drop_bit 3 sel)))"
  shows "seg 0 = 0 \<and>
    (\<forall>(sel, ty) \<in> {(0x08, 0x1A), (0x10, 0x12), (0x1B, 0x1A), (0x23, 0x12)}.
       descriptor_present (seg sel) \<and> descriptor_base (seg sel) = 0 \<and> descriptor_limit (seg sel) = 0xFFFFFFFF \<and>
       descriptor_type (seg sel) = ty \<and> descriptor_dpl (seg sel) = sel AND 3) \<and>
    descriptor_present (seg 0x28) \<and> descriptor_base (seg 0x28) = sym_tss c \<and>
    descriptor_limit (seg 0x28) = sizeof_tss - 1 \<and> descriptor_type (seg 0x28) = 9 \<and>
    cpu_gdtr (i686_setup_gdt eax c) = (48, sym_gdt c)"
proof -
  have s: "seg 0 = 0" "seg 0x08 = gdt_bits (flat_descriptor 0xA 0)" "seg 0x10 = gdt_bits (flat_descriptor 0x2 0)"
    "seg 0x1B = gdt_bits (flat_descriptor 0xA 3)" "seg 0x23 = gdt_bits (flat_descriptor 0x2 3)"
    "seg 0x28 = gdt_bits (tss_descriptor (sym_tss c))"
    by (simp_all add: seg_def i686_setup_gdt_def Let_def i686_cpu_set_tr_def i686_cpu_set_gdt_def null_bits)
  have "cpu_gdtr (i686_setup_gdt eax c) = (48, sym_gdt c)"
    by (simp add: i686_setup_gdt_def Let_def i686_cpu_set_tr_def i686_cpu_set_gdt_def sizeof_gdt_entry_def)
  then show ?thesis using flat_parts(5) tss_parts(5) by (simp add: s flat_parts(1-4) tss_parts(1-4) sizeof_tss_def)
qed

theorem gdt_describes_segments_witness:
  "\<exists>c. descriptor_base (gdt_bits (cpu_gdt (i686_setup_gdt id c) 5)) = 0xC0212345 \<and>
     descriptor_dpl (gdt_bits (cpu_gdt (i686_setup_gdt id c) 3)) = 3"
proof
  let ?c = "\<lparr>cpu_gdt = \<lambda>_. null_descriptor, cpu_idt = \<lambda>_. zero_idt_entry, cpu_tss = \<lparr>tss_esp0 = 0, tss_ss0 = 0\<rparr>,
    cpu_gdtr = (0, 0), cpu_idtr = (0, 0), cpu_tr = 0, cpu_segments = (0, 0), sym_gdt = 0xC0212000, sym_idt = 0xC0212100,
    sym_tss = 0xC0212345, sym_stack = 0xC0213000\<rparr>"
  show "descriptor_base (gdt_bits (cpu_gdt (i686_setup_gdt id ?c) 5)) = 0xC0212345 \<and>
     descriptor_dpl (gdt_bits (cpu_gdt (i686_setup_gdt id ?c) 3)) = 3"
    using gdt_describes_segments[of id ?c] by simp
qed

text \<open>The exceptions for which the processor pushes an error code, and the stack it leaves.\<close>

definition has_error_code :: "i686_exception \<Rightarrow> bool" where
  "has_error_code e \<longleftrightarrow> e \<in> {E_DF, E_TS, E_NP, E_SS, E_GP, E_PF, E_AC}"

definition exception_frame :: "i686_exception \<Rightarrow> u32 \<Rightarrow> u32 \<Rightarrow> u32 \<Rightarrow> u32 \<Rightarrow> u32 list \<Rightarrow> u32 list" where
  "exception_frame e err eip cs eflags rest = (if has_error_code e then [err] else []) @ eip # cs # eflags # rest"

lemma stub_frame:
  "i686_int_handler_n (exception_number e) (exception_frame e err eip cs eflags rest) =
     of_nat (exception_number e) # (if has_error_code e then err else 0) # eip # cs # eflags # rest"
  by (cases e) (simp_all add: i686_int_handler_n_def exception_frame_def has_error_code_def
      I686_INT_HANDLER_WERR_def I686_INT_HANDLER_NOERR_def)

text \<open>
  C31. Exceptions: after \<^verbatim>\<open>i686_setup_idt\<close> the gate of every exception is, as the processor reads it, a
  present 32 bit interrupt gate for the kernel's code segment and the handler of the exception, and
  the gates from 21 on are not present.  The stub of the handler and \<^verbatim>\<open>i686_int_handler\<close> turn the stack
  that the processor leaves into the context that \<^verbatim>\<open>i686_int_entry\<close> expects: number and error code (0
  when the processor pushes none) are in their places and the interrupted registers in theirs.
\<close>

theorem exceptions_reach_handlers:
  fixes c :: i686_cpu and e :: i686_exception and handler :: "nat \<Rightarrow> u32"
  defines "gate \<equiv> \<lambda>n. idt_bits (cpu_idt (i686_setup_idt handler c) n)"
  shows "gate_offset (gate (exception_number e)) = handler (exception_number e) \<and>
    gate_selector (gate (exception_number e)) = 0x08 \<and> field 40 5 (gate (exception_number e)) = 0xE \<and>
    descriptor_present (gate (exception_number e)) \<and> (\<forall>n\<in>{21..<256}. \<not> descriptor_present (gate n)) \<and>
    context_of_stack (i686_int_handler esp r (i686_int_handler_n (exception_number e)
      (exception_frame e err eip cs eflags (useresp # ss # rest)))) =
    Some \<lparr>c_gs = r_gs r, c_fs = r_fs r, c_es = r_es r, c_ds = r_ds r, c_edi = r_edi r, c_esi = r_esi r, c_ebp = r_ebp r,
      c_esp = esp, c_ebx = r_ebx r, c_edx = r_edx r, c_ecx = r_ecx r, c_eax = r_eax r,
      c_int_no = of_nat (exception_number e), c_err_code = (if has_error_code e then err else 0),
      c_eip = eip, c_cs = cs, c_eflags = eflags, c_useresp = useresp, c_ss = ss\<rparr>"
proof -
  have "\<not> descriptor_present (gate n)" if "n \<in> {21..<256}" for n
    using that setup_idt_entries(2)[of n handler c] by (simp add: gate_def zero_idt_entry_def)
  moreover have "context_of_stack (i686_int_handler esp r (i686_int_handler_n (exception_number e)
      (exception_frame e err eip cs eflags (useresp # ss # rest)))) =
    Some \<lparr>c_gs = r_gs r, c_fs = r_fs r, c_es = r_es r, c_ds = r_ds r, c_edi = r_edi r, c_esi = r_esi r, c_ebp = r_ebp r,
      c_esp = esp, c_ebx = r_ebx r, c_edx = r_edx r, c_ecx = r_ecx r, c_eax = r_eax r,
      c_int_no = of_nat (exception_number e), c_err_code = (if has_error_code e then err else 0),
      c_eip = eip, c_cs = cs, c_eflags = eflags, c_useresp = useresp, c_ss = ss\<rparr>"
    unfolding stub_frame by (simp add: i686_int_handler_def Let_def)
  ultimately show ?thesis using gate_parts by (simp add: gate_def setup_idt_entries(1) del: idt_fields)
qed

theorem exceptions_reach_handlers_witness:
  "\<exists>c. \<not> descriptor_present (idt_bits (cpu_idt (i686_setup_idt (\<lambda>n. 0xC0101000) c) 32)) \<and>
     gate_offset (idt_bits (cpu_idt (i686_setup_idt (\<lambda>n. 0xC0101000) c) 14)) = 0xC0101000"
proof
  let ?c = "undefined :: i686_cpu"
  show "\<not> descriptor_present (idt_bits (cpu_idt (i686_setup_idt (\<lambda>n. 0xC0101000) ?c) 32)) \<and>
     gate_offset (idt_bits (cpu_idt (i686_setup_idt (\<lambda>n. 0xC0101000) ?c) 14)) = 0xC0101000"
    using exceptions_reach_handlers[of "\<lambda>n. 0xC0101000" ?c E_PF] by (auto simp del: idt_fields)
qed

end
