(* ===== verification/Mutex.thy ===== *)
theory Mutex
  imports Prelude
begin

text \<open>
  Mutexes: \<^verbatim>\<open>src/sys/include/mutex.h\<close>, \<^verbatim>\<open>src/sys/common/mutex.c\<close> and \<^verbatim>\<open>src/sys/i686/i686_mutex.c\<close>.
  The exchange of \<^verbatim>\<open>i686_mutex_lock\<close> is atomic, and so is each assignment; between them other
  processors may take steps, which the relation \<open>mutex_step\<close> interleaves.
\<close>

section \<open>Operations\<close>

datatype mutex_status = MUTEX_UNLOCKED | MUTEX_LOCKED

fun status_value :: "mutex_status \<Rightarrow> u32" where
  "status_value MUTEX_UNLOCKED = 0"
| "status_value MUTEX_LOCKED = 1"

record mutex =
  lock :: u32
  blocker :: string

definition mutex_init :: "mutex \<Rightarrow> mutex" where
  "mutex_init m = m\<lparr>lock := 0, blocker := ''''\<rparr>"

definition mutex_blocker :: "mutex \<Rightarrow> string" where
  "mutex_blocker m = blocker m"

text \<open>\<^verbatim>\<open>xchg\<close>: the old value and the mutex with the new one.\<close>

definition xchg_lock :: "u32 \<Rightarrow> mutex \<Rightarrow> u32 \<times> mutex" where
  "xchg_lock v m = (lock m, m\<lparr>lock := v\<rparr>)"

definition lock_name :: "u32 \<Rightarrow> string \<Rightarrow> mutex \<Rightarrow> mutex" where
  "lock_name oldval name m = (if oldval = status_value MUTEX_UNLOCKED then m\<lparr>blocker := name\<rparr> else m)"

definition i686_mutex_lock :: "string \<Rightarrow> mutex \<Rightarrow> u32 \<times> mutex" where
  "i686_mutex_lock name m =
     (let (oldval, m1) = xchg_lock (status_value MUTEX_LOCKED) m in (oldval, lock_name oldval name m1))"

definition unlock_lock :: "mutex \<Rightarrow> mutex" where
  "unlock_lock m = m\<lparr>lock := 0\<rparr>"

definition unlock_name :: "mutex \<Rightarrow> mutex" where
  "unlock_name m = m\<lparr>blocker := ''''\<rparr>"

definition mutex_unlock :: "mutex \<Rightarrow> mutex" where
  "mutex_unlock m = unlock_name (unlock_lock m)"

section \<open>Interleaved processors\<close>

text \<open>Where a processor is: outside, behind the exchange that got the lock, inside, or between the
  two assignments of \<^verbatim>\<open>mutex_unlock\<close>.  A processor unlocks only what it has locked.\<close>

datatype place = Outside | Got | Inside | Leaving

type_synonym 'p mutex_system = "mutex \<times> ('p \<Rightarrow> place)"

inductive mutex_step :: "('p \<Rightarrow> string) \<Rightarrow> 'p mutex_system \<Rightarrow> 'p mutex_system \<Rightarrow> bool" for name where
  Lock_got: "w p = Outside \<Longrightarrow> xchg_lock 1 m = (0, m') \<Longrightarrow> mutex_step name (m, w) (m', w(p := Got))"
| Lock_failed: "w p = Outside \<Longrightarrow> xchg_lock 1 m = (v, m') \<Longrightarrow> v \<noteq> 0 \<Longrightarrow> mutex_step name (m, w) (m', w)"
| Lock_name: "w p = Got \<Longrightarrow> mutex_step name (m, w) (lock_name 0 (name p) m, w(p := Inside))"
| Unlock_lock: "w p = Inside \<Longrightarrow> mutex_step name (m, w) (unlock_lock m, w(p := Leaving))"
| Unlock_name: "w p = Leaving \<Longrightarrow> mutex_step name (m, w) (unlock_name m, w(p := Outside))"

inductive mutex_reaches :: "('p \<Rightarrow> string) \<Rightarrow> 'p mutex_system \<Rightarrow> 'p mutex_system \<Rightarrow> bool" for name where
  Start: "mutex_reaches name x x"
| Then: "mutex_reaches name x y \<Longrightarrow> mutex_step name y z \<Longrightarrow> mutex_reaches name x z"

inductive_cases mutex_stepE: "mutex_step name (m, w) (m', w')"

definition holders :: "('p \<Rightarrow> place) \<Rightarrow> 'p set" where
  "holders w = {p. w p = Got \<or> w p = Inside}"

definition mutex_inv :: "'p mutex_system \<Rightarrow> bool" where
  "mutex_inv = (\<lambda>(m, w). (lock m = 0 \<and> holders w = {}) \<or> (lock m = 1 \<and> (\<exists>p. holders w = {p})))"

lemma holders_upd:
  "holders (w(p := x)) = (if x = Got \<or> x = Inside then insert p (holders w) else holders w - {p})"
  by (auto simp: holders_def)

lemma holders_iff: "p \<in> holders w \<longleftrightarrow> w p = Got \<or> w p = Inside"
  by (simp add: holders_def)

lemma mutex_step_inv: "mutex_step name (m, w) (m', w') \<Longrightarrow> mutex_inv (m, w) \<Longrightarrow> mutex_inv (m', w')"
proof (erule mutex_stepE)
  fix p assume "m' = lock_name 0 (name p) m" "w' = w(p := Inside)" "w p = Got" "mutex_inv (m, w)"
  then show "mutex_inv (m', w')"
    using holders_iff[of p w] by (auto simp: mutex_inv_def lock_name_def holders_upd insert_absorb)
next
  fix p assume "m' = unlock_lock m" "w' = w(p := Leaving)" "w p = Inside" "mutex_inv (m, w)"
  then show "mutex_inv (m', w')"
    using holders_iff[of p w] by (auto simp: mutex_inv_def unlock_lock_def holders_upd)
next
  fix p assume "m' = unlock_name m" "w' = w(p := Outside)" "w p = Leaving" "mutex_inv (m, w)"
  then show "mutex_inv (m', w')"
    using holders_iff[of p w] by (auto simp: mutex_inv_def unlock_name_def holders_upd)
qed (auto simp: mutex_inv_def xchg_lock_def holders_upd)

lemma mutex_reaches_inv: "mutex_reaches name x y \<Longrightarrow> mutex_inv x \<Longrightarrow> mutex_inv y"
  proof (induction rule: mutex_reaches.induct)
  case (Then x y z)
  then show ?case using mutex_step_inv[of name "fst y" "snd y" "fst z" "snd z"] by simp
qed

lemma mutex_init_inv: "mutex_inv (mutex_init m, \<lambda>_. Outside)"
  by (simp add: mutex_inv_def mutex_init_def holders_def)

section \<open>Properties\<close>

text \<open>
  C32. Mutual exclusion: however the steps of any number of processors interleave, two processors
  never hold an initialised mutex at once, and the lock is taken exactly when one of them does, so
  that a processor that finds the lock taken is kept out by another one.
\<close>

theorem mutex_excludes:
  assumes "mutex_reaches name (mutex_init m0, \<lambda>_. Outside) (m, w)" "w p \<in> {Got, Inside}" "w q \<in> {Got, Inside}"
  shows "p = q \<and> fst (i686_mutex_lock s m) = status_value MUTEX_LOCKED"
proof -
  have "mutex_inv (m, w)" using mutex_reaches_inv[OF assms(1) mutex_init_inv] .
  moreover have "p \<in> holders w" "q \<in> holders w" using assms(2,3) by (auto simp: holders_def)
  ultimately show ?thesis by (auto simp: mutex_inv_def i686_mutex_lock_def xchg_lock_def)
qed

theorem mutex_excludes_witness:
  "\<exists>m (w :: nat \<Rightarrow> place). mutex_reaches (\<lambda>_. ''a'') (mutex_init \<lparr>lock = 7, blocker = ''x''\<rparr>, \<lambda>_. Outside) (m, w) \<and>
     w 0 = Inside \<and> fst (i686_mutex_lock ''b'' m) = 1"
proof -
  let ?i = "mutex_init \<lparr>lock = 7, blocker = ''x''\<rparr>" and ?n = "\<lambda>_ :: nat. ''a''"
  have 1: "mutex_step ?n (?i, \<lambda>_. Outside) (?i\<lparr>lock := 1\<rparr>, (\<lambda>_. Outside)(0 := Got))"
    by (rule Lock_got) (simp_all add: xchg_lock_def mutex_init_def)
  have 2: "mutex_step ?n (?i\<lparr>lock := 1\<rparr>, (\<lambda>_. Outside)(0 := Got))
      (lock_name 0 ''a'' (?i\<lparr>lock := 1\<rparr>), (\<lambda>_. Outside)(0 := Got, 0 := Inside))"
    by (rule Lock_name) simp
  have r: "mutex_reaches ?n (?i, \<lambda>_. Outside) (lock_name 0 ''a'' (?i\<lparr>lock := 1\<rparr>), (\<lambda>_. Outside)(0 := Got, 0 := Inside))"
    by (rule Then[OF Then[OF Start 1] 2])
  show ?thesis using r mutex_excludes[OF r, of 0 0 "''b''"] by (intro exI conjI) (rule r, simp_all)
qed

text \<open>
  The name of the holder is not reliable: \<^verbatim>\<open>mutex_unlock\<close> frees the lock before it clears the name,
  so it can clear the name that the next holder has just written.  A state is reachable in which a
  processor holds the mutex and \<^verbatim>\<open>mutex_blocker\<close> says that nobody does.
\<close>

theorem mutex_blocker_lost:
  assumes "p \<noteq> q"
  shows "\<exists>m w. mutex_reaches name (mutex_init m0, \<lambda>_. Outside) (m, w) \<and> w q = Inside \<and> lock m = 1 \<and> mutex_blocker m = ''''"
proof -
  let ?R = "mutex_reaches name (mutex_init m0, \<lambda>_. Outside)" and ?w = "\<lambda>_. Outside"
  let ?m1 = "(mutex_init m0)\<lparr>lock := 1\<rparr>"
  have "?R (?m1, ?w(p := Got))" by (rule Then[OF Start]) (rule Lock_got, simp_all add: xchg_lock_def mutex_init_def)
  from Then[OF this Lock_name[of "?w(p := Got)" p]] have "?R (lock_name 0 (name p) ?m1, ?w(p := Inside))" by simp
  from Then[OF this Unlock_lock[of "?w(p := Inside)" p]] have "?R (unlock_lock (lock_name 0 (name p) ?m1), ?w(p := Leaving))" by simp
  from Then[OF this Lock_got[of _ q _ "(unlock_lock (lock_name 0 (name p) ?m1))\<lparr>lock := 1\<rparr>"]] assms
  have "?R ((unlock_lock (lock_name 0 (name p) ?m1))\<lparr>lock := 1\<rparr>, ?w(p := Leaving, q := Got))"
    by (simp add: xchg_lock_def unlock_lock_def)
  from Then[OF this Lock_name[of _ q]]
  have "?R (lock_name 0 (name q) ((unlock_lock (lock_name 0 (name p) ?m1))\<lparr>lock := 1\<rparr>), ?w(p := Leaving, q := Inside))" by simp
  from Then[OF this Unlock_name[of _ p]] assms
  have r: "?R (unlock_name (lock_name 0 (name q) ((unlock_lock (lock_name 0 (name p) ?m1))\<lparr>lock := 1\<rparr>)), ?w(p := Leaving, q := Inside, p := Outside))"
    by simp
  show ?thesis
    by (rule exI, rule exI, rule conjI[OF r]) (use assms in \<open>simp add: unlock_name_def lock_name_def mutex_blocker_def\<close>)
qed

theorem mutex_blocker_lost_witness:
  "\<exists>m w. mutex_reaches (\<lambda>p. if p then ''a'' else ''b'') (mutex_init \<lparr>lock = 0, blocker = ''''\<rparr>, \<lambda>_. Outside) (m, w) \<and>
     w False = Inside \<and> lock m = 1 \<and> mutex_blocker m = ''''"
  using mutex_blocker_lost[of True False] by simp

end
