(* ===== verification/Boot.thy ===== *)
theory Boot
  imports Cpu Kernelspace Strings Usercopy Sched
begin

text \<open>
  Starting the kernel: the page tables that \<^verbatim>\<open>src/sys/i686/loader/loader.c\<close>
  sets up, the page table of physical memory that \<^verbatim>\<open>src/sys/i686/i686_physmem.c\<close> builds from the
  memory map of the boot loader, and the parts of \<^verbatim>\<open>i686_kmain\<close> in \<^verbatim>\<open>src/sys/i686/i686.c\<close> that parse
  the command line and start the first thread.  The structures of \<^verbatim>\<open>src/sys/include/multiboot.h\<close> are
  input from the boot loader.
\<close>

section \<open>The boot loader's information\<close>

record memory_map_t =
  mm_size :: u32
  mm_base_addr_low :: u32
  mm_base_addr_high :: u32
  mm_length_low :: u32
  mm_length_high :: u32
  mm_type :: u32

definition sizeof_memory_map :: u32 where "sizeof_memory_map = 24"

text \<open>\<open>mi_mmap\<close> is the content of the memory at \<open>mi_mmap_addr\<close>.\<close>

record multiboot_info_t =
  mi_flags :: u32
  mi_mem_lower :: u32
  mi_mem_upper :: u32
  mi_boot_device :: u32
  mi_cmdline :: u32
  mi_mods_count :: u32
  mi_mods_addr :: u32
  mi_mmap_length :: u32
  mi_mmap_addr :: u32
  mi_mmap :: "memory_map_t list"

section \<open>The loader\<close>

text \<open>\<^verbatim>\<open>i686_pte\<close> and \<^verbatim>\<open>i686_pde\<close> entries: the tables are those of the kernel, at their physical
  addresses.  \<^verbatim>\<open>enable_paging\<close> loads \<^verbatim>\<open>cr3\<close>.\<close>

definition zero_pte :: i686_pte where
  "zero_pte = \<lparr>pt_present = False, pt_writable = False, pt_user = False, pt_write_through = False,
     pt_cache_disable = False, pt_accessed = False, pt_dirty = False, pt_zero = False, pt_global = False,
     pt_avail = 0, pt_phys_addr = 0\<rparr>"

definition enable_paging :: "physaddr_t \<Rightarrow> vm_state \<Rightarrow> vm_state" where
  "enable_paging pd s = s\<lparr>cr3 := pd\<rparr>"

definition setup_tables :: "vm_state \<Rightarrow> vm_state" where
  "setup_tables s =
     (let kpts0 = sym_kernel_pts s - highstart;
          s1 = s\<lparr>kernel_flatpt := \<lambda>i. if i < 262144 then zero_pte else kernel_flatpt s i\<rparr>;
          map_table = (\<lambda>p. p\<lparr>pd_phys_addr := frame_of kpts0, pd_present := True, pd_writable := True\<rparr>);
          s2 = s1\<lparr>kernel_pd := (kernel_pd s1)(0 := map_table (kernel_pd s1 0))\<rparr>;
          s3 = s2\<lparr>kernel_pd := (kernel_pd s2)(768 := map_table (kernel_pd s2 768))\<rparr>;
          s4 = s3\<lparr>kernel_flatpt := \<lambda>i. if i < 1024
                 then (kernel_flatpt s3 i)\<lparr>pt_phys_addr := of_nat i, pt_present := True, pt_writable := True\<rparr>
                 else kernel_flatpt s3 i\<rparr>
      in enable_paging (sym_kernel_pd s - highstart) s4)"

section \<open>Physical memory\<close>

definition upd_pm :: "(pm_state \<Rightarrow> pm_state) \<Rightarrow> vm_state \<Rightarrow> vm_state" where
  "upd_pm f vm = vm\<lparr>vm_pm := f (vm_pm vm)\<rparr>"

definition upd_i686 :: "physmem_ptr \<Rightarrow> (i686physmem \<Rightarrow> i686physmem) \<Rightarrow> pm_state \<Rightarrow> pm_state option" where
  "upd_i686 p f pm = do { i \<leftarrow> as_i686 pm p; Some (upd_obj p (\<lambda>b. b\<lparr>pm_sub := I686_sub (f i)\<rparr>) pm) }"

text \<open>The loop over the pages of one usable area: \<open>n\<close> rounds from page \<open>cur\<close>; the result is
  \<^verbatim>\<open>free_pages\<close> and the state.\<close>

primrec insert_pages ::
  "physmem_ptr \<Rightarrow> virtaddr_t \<Rightarrow> u32 \<Rightarrow> nat \<Rightarrow> u32 \<Rightarrow> u32 \<Rightarrow> pm_state \<Rightarrow> u32 \<times> pm_state" where
  "insert_pages p table pagesize 0 cur free pm = (free, pm)"
| "insert_pages p table pagesize (Suc n) cur free pm =
     (let page = table + cur * sizeof_physmem_page
      in if cur * pagesize < 0x100000
         then insert_pages p table pagesize n (cur + 1) free
                (pm\<lparr>pm_pages := LIST_INSERT_HEAD (Bootlist p) page (pm_pages pm)\<rparr>)
         else insert_pages p table pagesize n (cur + 1) (free + 1)
                (pm\<lparr>pm_pages := LIST_INSERT_HEAD (Freelist p) page (pm_pages pm)\<rparr>))"

text \<open>The loop over the map; \<open>entry\<close> is its pointer.  An area above 4 GB stops the kernel.\<close>

primrec create_initial_loop ::
  "physmem_ptr \<Rightarrow> virtaddr_t \<Rightarrow> u32 \<Rightarrow> u32 \<Rightarrow> u32 \<Rightarrow> memory_map_t list \<Rightarrow> u32 \<Rightarrow> u32 \<Rightarrow> virtaddr_t \<Rightarrow> vm_state \<Rightarrow> vm_state option" where
  "create_initial_loop p table pagesize limit entry [] sum0 free position vm = (if entry < limit then None else Some vm)"
| "create_initial_loop p table pagesize limit entry (e # es) sum0 free position vm =
     (if entry < limit then do {
        c_assert (mm_base_addr_high e = 0 \<and> mm_length_high e = 0);
        let startpage = (mm_base_addr_low e + (pagesize - 1)) div pagesize;
        let lastpage0 = (mm_base_addr_low e + mm_length_low e + (pagesize - 1)) div pagesize;
        let lastpage = (if lastpage0 < startpage then startpage else lastpage0);
        (free1, position1, vm1) \<leftarrow>
          (if mm_type e = 1 then do {
             let pos = table + (lastpage + 1) * sizeof_physmem_page;
             (_, v1) \<leftarrow> virtmem_brk pos vm;
             let (f, pm) = insert_pages p table pagesize (unat lastpage - unat startpage + 1) startpage free (vm_pm v1);
             Some (f, pos, v1\<lparr>vm_pm := pm\<rparr>)
           }
           else Some (free, position, vm));
        let sum1 = sum0 + (lastpage - startpage + 1);
        let pm1 = upd_obj p (\<lambda>b. b\<lparr>free_pages := free1, total_pages := sum1\<rparr>) (vm_pm vm1);
        pm2 \<leftarrow> upd_i686 p (\<lambda>i. i\<lparr>last_address := position1\<rparr>) pm1;
        create_initial_loop p table pagesize limit (entry + sizeof_memory_map) es sum1 free1 position1 (vm1\<lparr>vm_pm := pm2\<rparr>)
      }
      else Some vm)"

definition i686_create_initial :: "physmem_ptr \<Rightarrow> multiboot_info_t \<Rightarrow> vm_state \<Rightarrow> vm_state option" where
  "i686_create_initial p info vm = do {
     (table, vm1) \<leftarrow> virtmem_brk 0 vm;
     pm2 \<leftarrow> upd_i686 p (\<lambda>i. i\<lparr>start_address := table\<rparr>) (vm_pm vm1);
     let vm2 = vm1\<lparr>vm_pm := pm2\<rparr>;
     pagesize \<leftarrow> physmem_page_size (vm_pm vm2) p;
     create_initial_loop p table pagesize (mi_mmap_addr info + mi_mmap_length info) (mi_mmap_addr info) (mi_mmap info) 0 0 0 vm2
   }"

primrec prune_loop :: "physmem_ptr \<Rightarrow> u32 \<Rightarrow> nat \<Rightarrow> u32 \<Rightarrow> u32 \<Rightarrow> pm_state \<Rightarrow> (u32 \<times> pm_state) option" where
  "prune_loop p pagesize 0 curpage forcemarked pm = Some (forcemarked, pm)"
| "prune_loop p pagesize (Suc n) curpage forcemarked pm = do {
     let physpage = curpage - highstart div pagesize;
     page \<leftarrow> physmem_phys_to_page pm p (physpage * pagesize);
     q \<leftarrow> LIST_REMOVE page (pm_pages pm);
     prune_loop p pagesize n (curpage + 1) (forcemarked + 1) (pm\<lparr>pm_pages := q\<rparr>)
   }"

definition i686_prune_memory :: "physmem_ptr \<Rightarrow> vm_state \<Rightarrow> (u32 \<times> vm_state) option" where
  "i686_prune_memory p vm = do {
     pagesize \<leftarrow> physmem_page_size (vm_pm vm) p;
     let start_kernel = highstart div pagesize;
     (brk, vm1) \<leftarrow> virtmem_brk 0 vm;
     let end_kernel = (brk + (pagesize - 1)) div pagesize;
     (forcemarked, pm) \<leftarrow> prune_loop p pagesize (unat end_kernel + 1 - unat start_kernel) start_kernel 0 (vm_pm vm1);
     Some (forcemarked, vm1\<lparr>vm_pm := upd_obj p (\<lambda>b. b\<lparr>free_pages := free_pages b - forcemarked\<rparr>) pm\<rparr>)
   }"

definition i686_physmem_alloc :: "physmem_ptr \<Rightarrow> u32 \<Rightarrow> multiboot_info_t \<Rightarrow> vm_state \<Rightarrow> (physmem_ptr \<times> vm_state) option" where
  "i686_physmem_alloc p k info vm = do {
     let vm1 = upd_pm (\<lambda>pm. pm\<lparr>pm_pages := LIST_INIT (Bootlist p) (LIST_INIT (Freelist p) (pm_pages pm))\<rparr>) vm;
     vm2 \<leftarrow> i686_create_initial p info vm1;
     (pruned, vm3) \<leftarrow> i686_prune_memory p vm2;
     Some (p, upd_pm (upd_obj p (\<lambda>b. b\<lparr>pm_parent := k\<rparr>)) vm3)
   }"

section \<open>The kernel's main function\<close>

text \<open>\<open>key\<close> is the address of the string \<^verbatim>\<open>use_serial\<close>.\<close>

definition parse_cmdline :: "'s load8 \<Rightarrow> virtaddr_t \<Rightarrow> virtaddr_t \<Rightarrow> 's \<Rightarrow> bool option" where
  "parse_cmdline ld key cmdline s = do { r \<leftarrow> strstr ld cmdline key s; Some (r \<noteq> 0) }"

text \<open>The end of \<^verbatim>\<open>i686_kmain\<close>: the first thread.  The result is the processor in user space.\<close>

definition start_thread ::
  "'z sched_data_scheme kmem_run \<Rightarrow> sched_ptr \<Rightarrow> as_ptr \<Rightarrow> 'z sched_state \<Rightarrow> (user_regs \<times> 'z sched_state) option" where
  "start_thread run sched a s = do {
     ((_, thr), s1) \<leftarrow> scheduler_thread_alloc run sched s;
     (_, s2) \<leftarrow> thread_init thr a s1;
     let s3 = upd_thread thr (\<lambda>b. b\<lparr>t_state := THREAD_RUNNABLE\<rparr>) s2;
     (_, s4) \<leftarrow> scheduler_thread_add sched thr s3;
     (_, s5) \<leftarrow> scheduler_reschedule sched s4;
     (_, vm1) \<leftarrow> virtmem_user_setup_kernelspace (as_pd (as_obj (km_ext s5) a)) (km_vm s5);
     let (_, vm2) = virtmem_set_context (as_pd (as_obj (km_ext s5) a)) vm1;
     let s6 = s5\<lparr>km_vm := vm2\<rparr>;
     regs \<leftarrow> scheduler_resume sched s6;
     Some (regs, s6)
   }"

section \<open>Building the page table\<close>

text \<open>The table entry of a page, and the numbers that the loops count.\<close>

definition table_page :: "virtaddr_t \<Rightarrow> nat \<Rightarrow> page_ptr" where
  "table_page table k = table + of_nat k * 12"

lemma table_page_inject:
  assumes "k < 2 ^ 20" "l < 2 ^ 20" "table_page table k = table_page table l"
  shows "k = l"
proof -
  have u: "unat (of_nat m * 12 :: u32) = m * 12" if "m < 2 ^ 20" for m
    using that by (simp add: unat_word_ariths(2) unat_of_nat)
  have "(of_nat k * 12 :: u32) = of_nat l * 12" using assms(3) by (simp add: table_page_def)
  then have "unat (of_nat k * 12 :: u32) = unat (of_nat l * 12 :: u32)" by simp
  then have "k * 12 = l * 12" unfolding u[OF assms(1)] u[OF assms(2)] .
  then show ?thesis by simp
qed

text \<open>The lists after the pages \<open>c\<close> to \<open>c + n - 1\<close> went to them: those below one megabyte to the
  boot list.\<close>

definition inserted_lists ::
  "physmem_ptr \<Rightarrow> virtaddr_t \<Rightarrow> nat \<Rightarrow> nat \<Rightarrow> (physmem_head \<Rightarrow> page_ptr list) \<Rightarrow> physmem_head \<Rightarrow> page_ptr list" where
  "inserted_lists p table c n H = H
     (Bootlist p := rev (map (table_page table) (filter (\<lambda>k. k < 256) [c..<c + n])) @ H (Bootlist p),
      Freelist p := rev (map (table_page table) (filter (\<lambda>k. \<not> k < 256) [c..<c + n])) @ H (Freelist p))"

lemma inserted_lists_0: "inserted_lists p table c 0 H = H"
  by (simp add: inserted_lists_def)

lemma inserted_lists_Suc:
  "inserted_lists p table c (Suc n) H = inserted_lists p table (Suc c) n
     (let h = (if c < 256 then Bootlist p else Freelist p) in H(h := table_page table c # H h))"
  unfolding inserted_lists_def
  by (rule ext) (simp add: upt_conv_Cons Let_def del: upt_Suc)

lemma insert_pages_ok:
  assumes "linked (pm_pages pm) H" "\<And>k. c \<le> k \<Longrightarrow> k < c + n \<Longrightarrow> table_page table k \<notin> members H" "c + n \<le> 2 ^ 20"
  shows "\<exists>pm'. insert_pages p table 4096 n (of_nat c) free pm =
      (free + of_nat (length (filter (\<lambda>k. \<not> k < 256) [c..<c + n])), pm') \<and>
    pm_obj pm' = pm_obj pm \<and> linked (pm_pages pm') (inserted_lists p table c n H)"
  using assms
proof (induction n arbitrary: c free pm H)
  case 0
  then show ?case by (simp add: inserted_lists_0)
next
  case (Suc n)
  let ?h = "if c < 256 then Bootlist p else Freelist p"
  let ?free = "if c < 256 then free else free + 1"
  let ?pm = "pm\<lparr>pm_pages := LIST_INSERT_HEAD ?h (table_page table c) (pm_pages pm)\<rparr>"
  let ?H = "H(?h := table_page table c # H ?h)"
  have c: "c < 2 ^ 20" using Suc.prems(3) by simp
  have "table_page table c \<notin> members H" using Suc.prems(2)[of c] by simp
  then have l: "linked (pm_pages ?pm) ?H" using dl.insert_rep[OF Suc.prems(1)] by simp
  have fresh: "table_page table k \<notin> members ?H" if "Suc c \<le> k" "k < Suc c + n" for k
    using Suc.prems(2)[of k] that table_page_inject[of k c table] c Suc.prems(3) by (auto simp: members_push)
  have "unat (of_nat c * 4096 :: u32) = c * 4096"
    using c by (simp add: unat_word_ariths(2) unat_of_nat)
  then have lt: "of_nat c * 4096 < (0x100000 :: u32) \<longleftrightarrow> c < 256" by (simp add: word_less_nat_alt)
  have un: "insert_pages p table 4096 (Suc n) (of_nat c) free pm = insert_pages p table 4096 n (of_nat (Suc c)) ?free ?pm"
    by (simp add: Let_def lt table_page_def sizeof_physmem_page_def add.commute)
  have "Suc c + n \<le> 2 ^ 20" using Suc.prems(3) by simp
  from Suc.IH[OF l fresh this] obtain pm' where pm':
    "insert_pages p table 4096 n (of_nat (Suc c)) ?free ?pm =
       (?free + of_nat (length (filter (\<lambda>k. \<not> k < 256) [Suc c..<Suc c + n])), pm')" "pm_obj pm' = pm_obj ?pm"
    "linked (pm_pages pm') (inserted_lists p table (Suc c) n ?H)"
    by blast
  have "linked (pm_pages pm') (inserted_lists p table c (Suc n) H)"
    using pm'(3) by (simp only: inserted_lists_Suc Let_def)
  moreover have "insert_pages p table 4096 (Suc n) (of_nat c) free pm =
      (free + of_nat (length (filter (\<lambda>k. \<not> k < 256) [c..<c + Suc n])), pm')"
    unfolding un pm'(1) by (simp add: upt_conv_Cons del: upt_Suc)
  moreover have "pm_obj pm' = pm_obj pm" using pm'(2) by simp
  ultimately show ?case by blast
qed

text \<open>The first and the last page that the code takes for an area.\<close>

definition first_page :: "memory_map_t \<Rightarrow> nat" where
  "first_page e = (unat (mm_base_addr_low e) + 4095) div 4096"

definition last_page :: "memory_map_t \<Rightarrow> nat" where
  "last_page e = (unat (mm_base_addr_low e) + unat (mm_length_low e) + 4095) div 4096"

lemma area_pages:
  assumes "unat (mm_base_addr_low e) + unat (mm_length_low e) + 4095 < 2 ^ 32"
  shows "(mm_base_addr_low e + 4095) div 4096 = of_nat (first_page e)"
    "(mm_base_addr_low e + mm_length_low e + 4095) div 4096 = of_nat (last_page e)"
    "first_page e \<le> last_page e" "last_page e < 2 ^ 20"
proof -
  let ?b = "unat (mm_base_addr_low e)" and ?l = "unat (mm_length_low e)"
  have u: "unat (mm_base_addr_low e + 4095) = ?b + 4095" "unat (mm_base_addr_low e + mm_length_low e + 4095) = ?b + ?l + 4095"
    using assms by (simp_all add: unat_word_ariths(1))
  show le: "first_page e \<le> last_page e" by (simp add: first_page_def last_page_def div_le_mono)
  have "?b + ?l + 4095 < 2 ^ 20 * 4096" using assms by simp
  then show lt: "last_page e < 2 ^ 20" unfolding last_page_def by (simp only: div_less_iff_less_mult)
  have "unat ((mm_base_addr_low e + 4095) div 4096) = first_page e"
    "unat ((mm_base_addr_low e + mm_length_low e + 4095) div 4096) = last_page e"
    by (simp_all add: unat_div_distrib u first_page_def last_page_def)
  moreover have "unat (of_nat (first_page e) :: u32) = first_page e" "unat (of_nat (last_page e) :: u32) = last_page e"
    using le lt by (simp_all add: unat_of_nat)
  ultimately show "(mm_base_addr_low e + 4095) div 4096 = of_nat (first_page e)"
    "(mm_base_addr_low e + mm_length_low e + 4095) div 4096 = of_nat (last_page e)"
    by (simp_all only: word_unat_eq_iff)
qed

lemma upd_i686_ok:
  assumes "pm_sub (pm_obj pm p) = I686_sub i"
  shows "upd_i686 p f pm = Some (upd_obj p (\<lambda>b. b\<lparr>pm_sub := I686_sub (f i)\<rparr>) pm)"
  using assms by (simp add: upd_i686_def as_i686_def)

lemma create_initial_one:
  assumes "mm_base_addr_high e = 0" "mm_length_high e = 0" "mm_type e = 1"
    and "(mm_base_addr_low e + 4095) div 4096 = F" "(mm_base_addr_low e + mm_length_low e + 4095) div 4096 = G" "\<not> G < F"
    and "entry < stop" "\<not> entry + 24 < stop" "table + (G + 1) * 12 = pos" "i686_brk pos vm = Some (r, v1)"
    and "insert_pages p table 4096 (unat G - unat F + 1) F 0 (vm_pm v1) = (f, pm)"
    and "upd_i686 p (\<lambda>i. i\<lparr>last_address := pos\<rparr>) (upd_obj p (\<lambda>b. b\<lparr>free_pages := f, total_pages := G - F + 1\<rparr>) pm) = Some pm2"
  shows "create_initial_loop p table 4096 stop entry [e] 0 0 0 vm = Some (v1\<lparr>vm_pm := pm2\<rparr>)"
  using assms by (simp add: Let_def virtmem_brk_def sizeof_physmem_page_def sizeof_memory_map_def del: insert_pages.simps)

text \<open>The page table for one usable area.\<close>

text \<open>What raising the limit and other numbers of the allocator do to the state.\<close>

definition raised_limit :: "virtaddr_t \<Rightarrow> pm_state \<Rightarrow> vm_state \<Rightarrow> vm_state" where
  "raised_limit brk pm vm = vm\<lparr>vm_pm := pm, identitymap_limit := brk,
     kernel_flatpt := \<lambda>k. if limit_pages (identitymap_limit vm) < k \<and> k \<le> limit_pages brk then identity_pte k else kernel_flatpt vm k\<rparr>"

lemma raised_limit_pm [simp]: "vm_pm (raised_limit brk pm vm) = pm" "(raised_limit brk pm vm)\<lparr>vm_pm := x\<rparr> = raised_limit brk x vm"
  by (simp_all add: raised_limit_def)

lemma create_initial_area:
  assumes lim: "0xC0000000 \<le> unat (identitymap_limit vm)"
    and fits: "unat (identitymap_limit vm) + (last_page e + 1) * 12 \<le> 0xFFFFF000"
    and sub: "pm_sub (pm_obj (vm_pm vm) p) = I686_sub i" "vf_page_size (pm_v (pm_obj (vm_pm vm) p)) = I686_physmem_page_size"
    and l: "linked (pm_pages (vm_pm vm)) (\<lambda>_. [])"
    and e: "mm_base_addr_high e = 0" "mm_length_high e = 0" "mm_type e = 1" "unat (mm_base_addr_low e) + unat (mm_length_low e) + 4095 < 2 ^ 32"
    and info: "mi_mmap info = [e]" "mi_mmap_length info = 24" "unat (mi_mmap_addr info) + 24 < 2 ^ 32"
  shows "\<exists>vm'. i686_create_initial p info vm = Some vm' \<and>
    linked (pm_pages (vm_pm vm'))
      (inserted_lists p (identitymap_limit vm) (first_page e) (Suc (last_page e) - first_page e) (\<lambda>_. [])) \<and>
    free_pages (pm_obj (vm_pm vm') p) = of_nat (length (filter (\<lambda>k. \<not> k < 256) [first_page e..<Suc (last_page e)])) \<and>
    total_pages (pm_obj (vm_pm vm') p) = of_nat (Suc (last_page e) - first_page e) \<and>
    pm_sub (pm_obj (vm_pm vm') p) = I686_sub \<lparr>start_address = identitymap_limit vm, last_address = identitymap_limit vm + of_nat (Suc (last_page e)) * 12\<rparr> \<and>
    pm_v (pm_obj (vm_pm vm') p) = pm_v (pm_obj (vm_pm vm) p) \<and>
    identitymap_limit vm' = identitymap_limit vm + of_nat (Suc (last_page e)) * 12 \<and>
    vm' = raised_limit (identitymap_limit vm + of_nat (Suc (last_page e)) * 12) (vm_pm vm') vm"
proof -
  let ?L = "identitymap_limit vm" and ?f = "first_page e" and ?g = "last_page e"
  let ?n = "Suc ?g - ?f"
  let ?pos = "?L + of_nat (Suc ?g) * 12"
  note ap = area_pages[OF e(4)]
  have gu: "unat (of_nat ?g :: u32) = ?g" "unat (of_nat ?f :: u32) = ?f" using ap(3,4) by (simp_all add: unat_of_nat)
  have "unat (of_nat (Suc ?g) :: u32) = Suc ?g" using ap(4) by (simp add: unat_of_nat del: of_nat_Suc)
  then have "unat (of_nat (Suc ?g) * 12 :: u32) = Suc ?g * 12" using ap(4) by (simp add: unat_word_ariths(2) del: of_nat_Suc)
  then have pos: "unat ?pos = unat ?L + Suc ?g * 12" using fits by (simp add: unat_word_ariths(1) del: of_nat_Suc)
  have "\<not> ?L \<le> 0" using lim by auto
  then have brk0: "i686_brk 0 vm = Some (?L, vm)" by (simp add: i686_brk_def Let_def word_gt_0)
  let ?pm1 = "upd_obj p (\<lambda>b. b\<lparr>pm_sub := I686_sub (i\<lparr>start_address := ?L\<rparr>)\<rparr>) (vm_pm vm)"
  let ?vm1 = "vm\<lparr>vm_pm := ?pm1\<rparr>"
  let ?fl = "\<lambda>k. if limit_pages ?L < k \<and> k \<le> limit_pages ?pos then identity_pte k else kernel_flatpt vm k"
  have brk: "i686_brk ?pos ?vm1 = Some (?L, ?vm1\<lparr>kernel_flatpt := ?fl, identitymap_limit := ?pos\<rparr>)"
    using i686_brk_ok[of ?vm1 ?pos] lim fits pos by (simp add: word_le_nat_alt del: of_nat_Suc cong: if_cong)
  have l1: "linked (pm_pages ?pm1) (\<lambda>_. [])" using l by (simp add: upd_obj_def)
  have n: "?f + ?n \<le> 2 ^ 20" "?f + ?n = Suc ?g" using ap(3,4) by simp_all
  let ?free = "of_nat (length (filter (\<lambda>k. \<not> k < 256) [?f..<Suc ?g])) :: u32"
  obtain pm' where pm': "insert_pages p ?L 4096 ?n (of_nat ?f) 0 ?pm1 = (0 + ?free, pm')"
    "pm_obj pm' = pm_obj ?pm1" "linked (pm_pages pm') (inserted_lists p ?L ?f ?n (\<lambda>_. []))"
    using insert_pages_ok[OF l1, of ?f ?n ?L p 0] n by (auto simp: members_def simp del: upt_Suc)
  have cnt: "of_nat ?g - of_nat ?f + 1 = (of_nat ?n :: u32)" using ap(3) by (simp add: of_nat_diff)
  have ex: "mi_mmap_addr info < mi_mmap_addr info + 24" "\<not> mi_mmap_addr info + 24 < mi_mmap_addr info + 24"
    using info(3) by (simp_all add: word_less_nat_alt unat_word_ariths(1))
  have ng: "\<not> of_nat ?g < (of_nat ?f :: u32)" using ap(3) gu by (simp add: word_less_nat_alt)
  have cn: "unat (of_nat ?g :: u32) - unat (of_nat ?f :: u32) + 1 = ?n" using ap(3) gu by simp
  have tp: "(of_nat ?g + 1) * 12 = (of_nat (Suc ?g) * 12 :: u32)" by (simp add: add.commute)
  let ?pm2 = "upd_obj p (\<lambda>b. b\<lparr>free_pages := ?free, total_pages := of_nat ?n\<rparr>) pm'"
  let ?i2 = "i\<lparr>start_address := ?L, last_address := ?pos\<rparr>"
  have u2: "upd_i686 p (\<lambda>i. i\<lparr>last_address := ?pos\<rparr>) ?pm2 = Some (upd_obj p (\<lambda>b. b\<lparr>pm_sub := I686_sub ?i2\<rparr>) ?pm2)"
    using upd_i686_ok[of ?pm2 p "i\<lparr>start_address := ?L\<rparr>" "\<lambda>i. i\<lparr>last_address := ?pos\<rparr>"] pm'(2) by (simp add: upd_obj_def)
  let ?vm2 = "?vm1\<lparr>kernel_flatpt := ?fl, identitymap_limit := ?pos, vm_pm := upd_obj p (\<lambda>b. b\<lparr>pm_sub := I686_sub ?i2\<rparr>) ?pm2\<rparr>"
  have ps: "physmem_page_size (vm_pm ?vm1) p = Some 4096"
    using sub(2) by (simp add: physmem_page_size_def upd_obj_def i686_physmem_page_size_def)
  let ?v = "?vm1\<lparr>kernel_flatpt := ?fl, identitymap_limit := ?pos\<rparr>"
  have vp: "vm_pm ?v = ?pm1" by simp
  have tp': "?L + (of_nat ?g + 1) * 12 = ?pos" by (simp only: tp)
  have ins: "insert_pages p ?L 4096 (unat (of_nat ?g :: u32) - unat (of_nat ?f :: u32) + 1) (of_nat ?f) 0 (vm_pm ?v) = (?free, pm')"
    unfolding cn vp pm'(1) by (simp del: of_nat_Suc)
  have u2': "upd_i686 p (\<lambda>i. i\<lparr>last_address := ?pos\<rparr>)
      (upd_obj p (\<lambda>b. b\<lparr>free_pages := ?free, total_pages := of_nat ?g - of_nat ?f + 1\<rparr>) pm') =
      Some (upd_obj p (\<lambda>b. b\<lparr>pm_sub := I686_sub ?i2\<rparr>) ?pm2)"
    unfolding cnt by (rule u2)
  have "create_initial_loop p ?L 4096 (mi_mmap_addr info + 24) (mi_mmap_addr info) [e] 0 0 0 ?vm1 =
      Some (?v\<lparr>vm_pm := upd_obj p (\<lambda>b. b\<lparr>pm_sub := I686_sub ?i2\<rparr>) ?pm2\<rparr>)"
    by (rule create_initial_one[OF e(1-3) ap(1,2) ng ex tp' brk ins u2'])
  then have "create_initial_loop p ?L 4096 (mi_mmap_addr info + 24) (mi_mmap_addr info) [e] 0 0 0 ?vm1 = Some ?vm2"
    by (simp del: of_nat_Suc create_initial_loop.simps)
  then have "i686_create_initial p info vm = Some ?vm2"
    using upd_i686_ok[OF sub(1)] ps info(1,2) brk0 by (simp add: i686_create_initial_def virtmem_brk_def)
  moreover have "i\<lparr>start_address := a, last_address := b\<rparr> = \<lparr>start_address = a, last_address = b\<rparr>" for a b by (cases i) simp
  ultimately show ?thesis using pm'(2,3) n(2) sub(2) by (simp add: upd_obj_def raised_limit_def del: of_nat_Suc upt_Suc)
qed

section \<open>Removing the pages of the kernel\<close>

lemma frame_number: "c < 2 ^ 20 \<Longrightarrow> of_nat c * 4096 div 4096 = (of_nat c :: u32)"
proof -
  assume c: "c < 2 ^ 20"
  then have u: "unat (of_nat c * 4096 :: u32) = c * 4096" "unat (of_nat c :: u32) = c"
    by (simp_all add: unat_word_ariths(2) unat_of_nat)
  then have "unat (of_nat c * 4096 div 4096 :: u32) = unat (of_nat c :: u32)" by (simp add: unat_div_distrib)
  then show ?thesis by (simp only: word_unat_eq_iff)
qed

lemma table_page_of: "c < 2 ^ 20 \<Longrightarrow> page_of table (of_nat c * 4096) = table_page table c"
  by (simp add: page_of_def table_page_def frame_number)

lemma addr_of_table_page: "c < 2 ^ 20 \<Longrightarrow> addr_of table (table_page table c) = of_nat c * 4096"
  by (simp add: table_page_of[symmetric] frame_number)

lemma list_remove_filter:
  assumes "linked q H" "x \<in> members H"
  shows "\<exists>q'. LIST_REMOVE x q = Some q' \<and> linked q' (\<lambda>h. filter (\<lambda>y. y \<noteq> x) (H h))"
proof -
  obtain h where "x \<in> set (H h)" using assms(2) by (auto simp: members_def)
  then obtain as bs where H: "H h = as @ x # bs" by (auto simp: in_set_conv_decomp)
  have d: "distinct (as @ x # bs)" using linked_distinct[OF assms(1), of h] H by simp
  have "x \<notin> set (H h')" if "h' \<noteq> h" for h' using linked_disjoint[OF assms(1) that] H by auto
  then have "H(h := as @ bs) = (\<lambda>h. filter (\<lambda>y. y \<noteq> x) (H h))"
  proof (intro ext)
    fix h'
    have "filter (\<lambda>y. y \<noteq> x) as = as" "filter (\<lambda>y. y \<noteq> x) bs = bs" using d by (auto simp: filter_id_conv)
    moreover have "h' \<noteq> h \<Longrightarrow> filter (\<lambda>y. y \<noteq> x) (H h') = H h'" using \<open>h' \<noteq> h \<Longrightarrow> x \<notin> set (H h')\<close> by (auto simp: filter_id_conv)
    ultimately show "(H(h := as @ bs)) h' = filter (\<lambda>y. y \<noteq> x) (H h')" by (simp add: H)
  qed
  then show ?thesis using LIST_REMOVE_linked[OF assms(1) H] by simp
qed

lemma prune_loop_ok:
  assumes "linked (pm_pages pm) H" "i686_conf pm p table" "\<And>k. c \<le> k \<Longrightarrow> k < c + n \<Longrightarrow> table_page table k \<in> members H"
    and "c + n \<le> 2 ^ 18"
  shows "\<exists>pm'. prune_loop p 4096 n (of_nat (786432 + c)) f pm = Some (f + of_nat n, pm') \<and> pm_obj pm' = pm_obj pm \<and>
    linked (pm_pages pm') (\<lambda>h. filter (\<lambda>x. x \<notin> table_page table ` {c..<c + n}) (H h))"
  using assms
proof (induction n arbitrary: c f pm H)
  case 0
  then show ?case by simp
next
  case (Suc n)
  let ?x = "table_page table c"
  let ?H = "\<lambda>h. filter (\<lambda>y. y \<noteq> ?x) (H h)"
  have c: "c < 2 ^ 20" using Suc.prems(4) by simp
  have "?x \<in> members H" using Suc.prems(3)[of c] by simp
  then obtain q where q: "LIST_REMOVE ?x (pm_pages pm) = Some q" "linked q ?H"
    using list_remove_filter[OF Suc.prems(1)] by blast
  have hs: "of_nat (786432 + c) - highstart div 4096 = (of_nat c :: u32)" by (simp add: highstart_def)
  have un: "prune_loop p 4096 (Suc n) (of_nat (786432 + c)) f pm =
      prune_loop p 4096 n (of_nat (786432 + Suc c)) (f + 1) (pm\<lparr>pm_pages := q\<rparr>)"
    unfolding prune_loop.simps hs Let_def i686_phys_to_page[OF Suc.prems(2)] table_page_of[OF c]
    by (simp add: q(1) ac_simps)
  have "i686_conf (pm\<lparr>pm_pages := q\<rparr>) p table" using Suc.prems(2) by (simp add: i686_conf_def as_i686_def)
  moreover have "table_page table k \<in> members ?H" if "Suc c \<le> k" "k < Suc c + n" for k
    using Suc.prems(3)[of k] that table_page_inject[of k c table] c Suc.prems(4) by (auto simp: members_def)
  moreover have "linked (pm_pages (pm\<lparr>pm_pages := q\<rparr>)) ?H" "Suc c + n \<le> 2 ^ 18" using q(2) Suc.prems(4) by simp_all
  ultimately obtain pm' where pm':
    "prune_loop p 4096 n (of_nat (786432 + Suc c)) (f + 1) (pm\<lparr>pm_pages := q\<rparr>) = Some (f + 1 + of_nat n, pm')"
    "pm_obj pm' = pm_obj (pm\<lparr>pm_pages := q\<rparr>)"
    "linked (pm_pages pm') (\<lambda>h. filter (\<lambda>x. x \<notin> table_page table ` {Suc c..<Suc c + n}) (?H h))"
    using Suc.IH[of "pm\<lparr>pm_pages := q\<rparr>" ?H "Suc c" "f + 1"] by blast
  have i: "{c..<c + Suc n} = insert c {Suc c..<Suc c + n}" by auto
  have "(\<lambda>h. filter (\<lambda>x. x \<notin> table_page table ` {Suc c..<Suc c + n}) (?H h)) =
      (\<lambda>h. filter (\<lambda>x. x \<notin> table_page table ` {c..<c + Suc n}) (H h))"
    unfolding i by (intro ext) (auto simp: intro!: filter_cong)
  then have "linked (pm_pages pm') (\<lambda>h. filter (\<lambda>x. x \<notin> table_page table ` {c..<c + Suc n}) (H h))" using pm'(3) by simp
  moreover have "prune_loop p 4096 (Suc n) (of_nat (786432 + c)) f pm = Some (f + of_nat (Suc n), pm')"
    unfolding un pm'(1) by (simp add: add.assoc)
  moreover have "pm_obj pm' = pm_obj pm" using pm'(2) by simp
  ultimately show ?case by blast
qed

lemma filter_upt_ge: "n \<le> m \<Longrightarrow> filter (\<lambda>k. \<not> k < n) [0..<m] = [n..<m]"
proof -
  assume "n \<le> m"
  then have u: "[0..<m] = [0..<n] @ [n..<m]" using upt_add_eq_append[of 0 n "m - n"] by simp
  show ?thesis unfolding u by simp
qed

text \<open>The lists of a machine with one area at address 0, without its first \<open>n\<close> pages.\<close>

lemma pruned_lists:
  assumes "256 \<le> n" "n \<le> m" "m \<le> 2 ^ 20"
  shows "(\<lambda>h. filter (\<lambda>x. x \<notin> table_page table ` {0..<n}) (inserted_lists p table 0 m (\<lambda>_. []) h)) =
    (\<lambda>_. [])(Freelist p := rev (map (table_page table) [n..<m]))" (is "?F = _")
proof -
  have mem: "table_page table k \<in> table_page table ` {0..<n} \<longleftrightarrow> k < n" if "k < m" for k
  proof
    assume "table_page table k \<in> table_page table ` {0..<n}"
    then obtain j where j: "j < n" "table_page table k = table_page table j" by auto
    then show "k < n" using table_page_inject[of k j table] that assms(2,3) by simp
  qed simp
  have f: "filter (\<lambda>x. x \<notin> table_page table ` {0..<n}) (map (table_page table) (filter P [0..<m])) =
      map (table_page table) (filter P (filter (\<lambda>k. \<not> k < n) [0..<m]))" for P
  proof -
    have "filter (\<lambda>k. table_page table k \<notin> table_page table ` {0..<n}) (filter P [0..<m]) = filter P (filter (\<lambda>k. \<not> k < n) [0..<m])"
      unfolding filter_filter using mem by (intro filter_cong) (simp_all, blast)
    then show ?thesis by (simp add: filter_map comp_def)
  qed
  have "filter (\<lambda>k. k < 256) [n..<m] = []" "filter (\<lambda>k. \<not> k < 256) [n..<m] = [n..<m]"
    using assms(1) by (auto simp: filter_empty_conv filter_id_conv)
  then have "?F (Bootlist p) = []" "?F (Freelist p) = rev (map (table_page table) [n..<m])"
    unfolding inserted_lists_def by (simp_all add: rev_filter[symmetric] f filter_upt_ge[OF assms(2)] del: filter_filter)
  then show ?thesis by (intro ext) (auto simp: inserted_lists_def)
qed

text \<open>\<^verbatim>\<open>i686_physmem_alloc\<close> on a machine with one usable area, from address 0.  \<open>fits\<close> leaves room for the page
  table, and \<open>cover\<close> says that the area holds the kernel, its page table and another megabyte.\<close>

lemma physmem_alloc_ok:
  assumes lim: "0xC0100000 \<le> unat (identitymap_limit vm)"
    and fits: "unat (identitymap_limit vm) + (last_page e + 1) * 12 \<le> 0xFFFFF000"
    and brk: "brk = identitymap_limit vm + of_nat (Suc (last_page e)) * 12"
    and cover: "limit_pages brk + 256 \<le> last_page e"
    and conf: "pm_sub (pm_obj (vm_pm vm) p) = I686_sub i" "pm_v (pm_obj (vm_pm vm) p) = i686_physmem_v"
    and l: "linked (pm_pages (vm_pm vm)) (\<lambda>_. [])"
    and e: "mm_base_addr_high e = 0" "mm_length_high e = 0" "mm_type e = 1" "mm_base_addr_low e = 0"
      "unat (mm_length_low e) + 4095 < 2 ^ 32"
    and info: "mi_mmap info = [e]" "mi_mmap_length info = 24" "unat (mi_mmap_addr info) + 24 < 2 ^ 32"
  obtains vm' where "i686_physmem_alloc p k info vm = Some (p, vm')" "i686_conf (vm_pm vm') p (identitymap_limit vm)"
    "linked (pm_pages (vm_pm vm'))
       ((\<lambda>_. [])(Freelist p := rev (map (table_page (identitymap_limit vm)) [Suc (limit_pages brk)..<Suc (last_page e)])))"
    "unat (free_pages (pm_obj (vm_pm vm') p)) + 256 = last_page e - limit_pages brk" "vm' = raised_limit brk (vm_pm vm') vm"
proof -
  let ?L = "identitymap_limit vm" and ?g = "last_page e" and ?n = "Suc (limit_pages brk)"
  let ?vm0 = "upd_pm (\<lambda>pm. pm\<lparr>pm_pages := LIST_INIT (Bootlist p) (LIST_INIT (Freelist p) (pm_pages pm))\<rparr>) vm"
  have f0: "first_page e = 0" using e(4) by (simp add: first_page_def)
  have "(\<lambda>_. [])(Freelist p := [], Bootlist p := []) = (\<lambda>_ :: physmem_head. [] :: page_ptr list)" by auto
  then have "linked (LIST_INIT (Bootlist p) (LIST_INIT (Freelist p) (pm_pages (vm_pm vm)))) (\<lambda>_. [])"
    using LIST_INIT_linked[OF LIST_INIT_linked[OF l, of "Freelist p"], of "Bootlist p"] by simp
  then have l0: "linked (pm_pages (vm_pm ?vm0)) (\<lambda>_. [])" by (simp add: upd_pm_def)
  have ex: "\<exists>vm'. i686_create_initial p info ?vm0 = Some vm' \<and>
    linked (pm_pages (vm_pm vm')) (inserted_lists p (identitymap_limit ?vm0) (first_page e) (Suc ?g - first_page e) (\<lambda>_. [])) \<and>
    free_pages (pm_obj (vm_pm vm') p) = of_nat (length (filter (\<lambda>k. \<not> k < 256) [first_page e..<Suc ?g])) \<and>
    total_pages (pm_obj (vm_pm vm') p) = of_nat (Suc ?g - first_page e) \<and>
    pm_sub (pm_obj (vm_pm vm') p) = I686_sub \<lparr>start_address = identitymap_limit ?vm0, last_address = identitymap_limit ?vm0 + of_nat (Suc ?g) * 12\<rparr> \<and>
    pm_v (pm_obj (vm_pm vm') p) = pm_v (pm_obj (vm_pm ?vm0) p) \<and>
    identitymap_limit vm' = identitymap_limit ?vm0 + of_nat (Suc ?g) * 12 \<and>
    vm' = raised_limit (identitymap_limit ?vm0 + of_nat (Suc ?g) * 12) (vm_pm vm') ?vm0"
    by (rule create_initial_area[where i = i]) (use assms l0 in \<open>simp_all add: upd_pm_def i686_physmem_v_def\<close>)
  obtain vm1 where c: "i686_create_initial p info ?vm0 = Some vm1"
    and lk: "linked (pm_pages (vm_pm vm1)) (inserted_lists p ?L 0 (Suc ?g) (\<lambda>_. []))"
    and fp: "free_pages (pm_obj (vm_pm vm1) p) = of_nat (length (filter (\<lambda>k. \<not> k < 256) [0..<Suc ?g]))"
    and sub: "pm_sub (pm_obj (vm_pm vm1) p) = I686_sub \<lparr>start_address = ?L, last_address = brk\<rparr>"
    and v: "pm_v (pm_obj (vm_pm vm1) p) = i686_physmem_v" and il: "identitymap_limit vm1 = brk"
    and rl: "vm1 = raised_limit brk (vm_pm vm1) vm"
    using ex conf(2) unfolding f0 brk by (auto simp: upd_pm_def raised_limit_def cong: if_cong)
  have ic: "i686_conf (vm_pm vm1) p ?L" using sub v by (simp add: i686_conf_def as_i686_def)
  have g: "Suc ?g \<le> 2 ^ 20" using area_pages(4)[of e] e(4,5) by simp
  have "unat (of_nat (Suc ?g) :: u32) = Suc ?g" using g by (simp add: unat_of_nat del: of_nat_Suc)
  then have "unat (of_nat (Suc ?g) * 12 :: u32) = Suc ?g * 12" using g by (simp add: unat_word_ariths(2) del: of_nat_Suc)
  then have b: "unat brk = unat ?L + Suc ?g * 12" using fits by (simp add: brk unat_word_ariths(1) del: of_nat_Suc)
  have hs: "highstart div 4096 = (of_nat 786432 :: u32)" "unat (highstart div 4096 :: u32) = 786432"
    by (simp_all add: highstart_def)
  have lp: "limit_pages brk < 262144" "(brk + 4095) div 4096 = of_nat (786432 + limit_pages brk)"
    using limit_page[of brk] b lim fits by simp_all
  then have ue: "unat ((brk + 4095) div 4096) = 786432 + limit_pages brk" by (simp add: unat_of_nat del: of_nat_add)
  have "256 * 4096 \<le> unat brk - 0xC0000000 + 4095" using b lim by simp
  then have n256: "256 \<le> limit_pages brk" unfolding limit_pages_def by (simp only: less_eq_div_iff_mult_less_eq)
  have cnt: "unat ((brk + 4095) div 4096) + 1 - unat (highstart div 4096 :: u32) = ?n" unfolding ue hs(2) by simp
  have "0 < unat brk" using b lim by simp
  then have "0 < brk" by (simp only: unat_gt_0 word_neq_0_conv)
  then have brk0: "virtmem_brk 0 vm1 = Some (brk, vm1)" by (simp add: virtmem_brk_def i686_brk_def il)
  have on: "table_page ?L k \<in> members (inserted_lists p ?L 0 (Suc ?g) (\<lambda>_. []))" if "0 \<le> k" "k < 0 + ?n" for k
  proof -
    have "k < Suc ?g" using that(2) cover by simp
    then have "table_page ?L k \<in> set (inserted_lists p ?L 0 (Suc ?g) (\<lambda>_. []) (if k < 256 then Bootlist p else Freelist p))"
      by (simp add: inserted_lists_def del: upt_Suc)
    then show ?thesis unfolding members_iff by blast
  qed
  obtain pm where pm: "prune_loop p 4096 ?n (of_nat (786432 + 0)) 0 (vm_pm vm1) = Some (0 + of_nat ?n, pm)" "pm_obj pm = pm_obj (vm_pm vm1)"
    "linked (pm_pages pm) (\<lambda>h. filter (\<lambda>x. x \<notin> table_page ?L ` {0..<0 + ?n}) (inserted_lists p ?L 0 (Suc ?g) (\<lambda>_. []) h))"
    using prune_loop_ok[where n = ?n and c = 0 and f = 0, OF lk ic on] lp(1) by auto
  have lf: "linked (pm_pages pm) ((\<lambda>_. [])(Freelist p := rev (map (table_page ?L) [?n..<Suc ?g])))"
    using pm(3) pruned_lists[of ?n "Suc ?g"] n256 cover g by (simp del: upt_Suc)
  let ?f = "of_nat (length (filter (\<lambda>k. \<not> k < 256) [0..<Suc ?g])) - of_nat ?n :: u32"
  let ?vm2 = "vm1\<lparr>vm_pm := upd_obj p (\<lambda>b. b\<lparr>free_pages := free_pages b - of_nat ?n\<rparr>) pm\<rparr>"
  have ps: "physmem_page_size (vm_pm vm1) p = Some 4096" using i686_conf_page_size[OF ic] .
  have "(4096 - 1 :: u32) = 4095" by simp
  then have "i686_prune_memory p vm1 = Some (of_nat ?n, ?vm2)"
    unfolding i686_prune_memory_def ps
    using brk0 pm(1) cnt hs(1) by (simp add: Let_def del: of_nat_Suc prune_loop.simps)
  then have r: "i686_physmem_alloc p k info vm = Some (p, upd_pm (upd_obj p (\<lambda>b. b\<lparr>pm_parent := k\<rparr>)) ?vm2)"
    using c by (simp add: i686_physmem_alloc_def)
  have len: "length (filter (\<lambda>k. \<not> k < 256) [0..<Suc ?g]) = Suc ?g - 256"
    using filter_upt_ge[of 256 "Suc ?g"] cover by (simp del: upt_Suc)
  have "unat ?f = Suc ?g - 256 - ?n"
    unfolding len using g cover by (simp add: unat_sub unat_of_nat word_le_nat_alt del: of_nat_Suc)
  then have f: "unat ?f + 256 = ?g - limit_pages brk" using cover by simp
  have rl_pm: "vm1\<lparr>vm_pm := x\<rparr> = raised_limit brk x vm" for x by (subst rl) (simp add: raised_limit_def)
  show thesis
    by (rule that[OF r])
       (use f ic lf pm(2) fp rl_pm in \<open>simp_all add: upd_pm_def upd_obj_def i686_conf_def as_i686_def del: upt_Suc of_nat_Suc\<close>)
qed

section \<open>The first thread\<close>

lemma thread_ctor_ok: "callback_ok i686_run (Some I686_init_thread_vfuncs)"
  by (simp add: callback_ok_def i686_run_def i686_init_thread_vfuncs_def callback_frame_def upd_thread_def upd_ext_def)

text \<open>The registers of a new thread.\<close>

definition entry_regs :: user_regs where
  "entry_regs = \<lparr>u_gs = 0x23, u_fs = 0x23, u_es = 0x23, u_ds = 0x23, u_edi = 0, u_esi = 0, u_ebp = 0, u_ebx = 0,
     u_edx = 0, u_ecx = 0, u_eax = 0, u_eip = 0x1000000, u_cs = 0x1B, u_eflags = 0, u_esp = 0, u_ss = 0x23\<rparr>"

definition entry_context :: i686_context where
  "entry_context = zero_context\<lparr>c_gs := 0x23, c_fs := 0x23, c_es := 0x23, c_ds := 0x23, c_cs := 0x1B,
     c_eflags := 0, c_ss := 0x23, c_eip := 0x1000000\<rparr>"

lemma entry_context_regs: "i686_userspace_return entry_context = entry_regs"
  by (simp add: i686_userspace_return_def entry_context_def zero_context_def entry_regs_def)

lemma upd_thread_same [simp]:
  "km_vm (upd_thread t f s) = km_vm s" "as_obj (km_ext (upd_thread t f s)) = as_obj (km_ext s)"
  "km_vm (upd_sched p g s) = km_vm s" "as_obj (km_ext (upd_sched p g s)) = as_obj (km_ext s)"
  "km_vm (insert_thread h t s) = km_vm s" "as_obj (km_ext (insert_thread h t s)) = as_obj (km_ext s)"
  "km_vm (snd (common_thread_init t a s)) = km_vm s" "as_obj (km_ext (snd (common_thread_init t a s))) = as_obj (km_ext s)"
  by (simp_all add: upd_thread_def upd_sched_def insert_thread_def upd_ext_def common_thread_init_def Let_def)

text \<open>\<^verbatim>\<open>scheduler_thread_alloc\<close> with memory.\<close>

lemma thread_alloc_ok:
  assumes ok: "cache_ok i686_run (thread_cache (km_ext s)) s F I"
    and ct: "kc_ctor (km_cache s (thread_cache (km_ext s))) = Some I686_init_thread_vfuncs"
    and v: "s_v (sched_obj (km_ext s) p) \<noteq> None"
    and mem: "kfree (km_vm s) \<noteq> {}" "local_page_alloc (km_vm s) \<noteq> Some ((PHYSMEM_ERR_OOM, None), km_vm s)"
  obtains t s1 where "scheduler_thread_alloc i686_run p s = Some ((SCHED_SUCCESS, t), s1)" "t \<noteq> 0" "t \<notin> I"
    "thread_obj (km_ext s1) = (thread_obj (km_ext s))(t := zero_thread\<lparr>t_v := Some I686_thread_vfuncs, t_ctx := entry_context\<rparr>)"
    "thread_links (km_ext s1) = thread_links (km_ext s)" "sched_obj (km_ext s1) = sched_obj (km_ext s)"
    "as_obj (km_ext s1) = as_obj (km_ext s)" "next_tid (km_ext s1) = next_tid (km_ext s)"
    "local_page_size (km_vm s1) = Some 4096" "card (kfree (km_vm s)) \<le> Suc (card (kfree (km_vm s1)))"
proof -
  obtain H where "cache_rep None (thread_cache (km_ext s)) s H F I" using ok by (auto simp: cache_ok_def)
  then show thesis
  proof (cases rule: alloc_cases[where run = i686_run])
    case (oom s')
    then show thesis using mem by blast
  next
    case (ok t s4 H' F')
    let ?s = "upd_thread t (\<lambda>b. b\<lparr>t_ctx := entry_context\<rparr>) (upd_cache (thread_cache (km_ext s)) (used_update (\<lambda>u. u + 1))
      (upd_thread t (\<lambda>_. zero_thread\<lparr>t_v := Some I686_thread_vfuncs\<rparr>) s4))"
    have "scheduler_thread_alloc i686_run p s = Some ((SCHED_SUCCESS, t), ?s)"
      using ok(1,6) ct v by (auto simp: scheduler_thread_alloc_def i686_thread_alloc_def i686_run_def
          i686_init_thread_vfuncs_def entry_context_def)
    moreover have "t \<notin> I" using ok(2,4) by blast
    moreover have "km_vm ?s = km_vm s4" "km_ext (upd_cache c f x) = km_ext x" for c f and x :: "'a sched_data_scheme kmem_state"
      by (simp_all add: upd_cache_def)
    ultimately show thesis
      using that[of t ?s] ok(6,11,12) pm_ready_page_size[OF ok(8)] by (simp add: upd_cache_def upd_thread_def upd_ext_def)
  qed
qed

text \<open>A thread that is in no list, initialised, made runnable, added and picked.\<close>

lemma run_new_thread:
  assumes l: "sched_lists p s H" and nl: "\<not> listed s t" and t: "t \<noteq> 0" "t_v (thread_obj (km_ext s) t) \<noteq> None"
    and v: "s_v (sched_obj (km_ext s) p) \<noteq> None" and a: "a \<noteq> 0"
  obtains s2 s4 s5 where "thread_init t a s = Some (THREAD_SUCCESS, s2)"
    "scheduler_thread_add p t (upd_thread t (\<lambda>b. b\<lparr>t_state := THREAD_RUNNABLE\<rparr>) s2) = Some (SCHED_SUCCESS, s4)"
    "scheduler_reschedule p s4 = Some (SCHED_SUCCESS, s5)" "sched_lists p s5 (H(Runnable p := t # H (Runnable p)))"
    "s_current (sched_obj (km_ext s5) p) = t" "s_v (sched_obj (km_ext s5) p) \<noteq> None"
    "t_state (thread_obj (km_ext s5) t) = THREAD_RUNNABLE" "t_space (thread_obj (km_ext s5) t) = a"
    "t_ctx (thread_obj (km_ext s5) t) = t_ctx (thread_obj (km_ext s) t)"
    "as_obj (km_ext s5) = as_obj (km_ext s)" "km_vm s5 = km_vm s"
proof -
  let ?s2 = "snd (common_thread_init t a s)"
  let ?s3 = "upd_thread t (\<lambda>b. b\<lparr>t_state := THREAD_RUNNABLE\<rparr>) ?s2"
  let ?s4 = "insert_thread (Runnable p) t ?s3"
  let ?H = "H(Runnable p := t # H (Runnable p))"
  have i: "thread_init t a s = Some (THREAD_SUCCESS, ?s2)"
    using t by (auto simp: thread_init_def common_thread_init_def Let_def)
  have l3: "sched_lists p ?s3 H"
    by (rule sched_lists_unlisted[OF l nl]) (simp_all add: common_thread_init_ext)
  have nl3: "\<not> listed ?s3 t" using nl by (simp add: listed_def common_thread_init_ext)
  have add: "scheduler_thread_add p t ?s3 = Some (SCHED_SUCCESS, ?s4)"
    using a t v by (auto simp: scheduler_thread_add_def common_scheduler_thread_add_def common_thread_init_ext)
  have l4: "sched_lists p ?s4 ?H"
    using a t by (intro sched_lists_insert[OF l3 nl3]) (simp_all add: common_thread_init_ext)
  obtain s5 where rs: "scheduler_reschedule p ?s4 = Some (SCHED_SUCCESS, s5)" "s5 = upd_sched p (\<lambda>b. b\<lparr>s_current := t\<rparr>) ?s4"
    using v LIST_FIRST_linked[of "thread_links (km_ext ?s4)" ?H "Runnable p"] l4
    by (auto simp: scheduler_reschedule_def common_scheduler_reschedule_def common_thread_init_ext sched_lists_def)
  show thesis
    by (rule that[OF i add rs(1) reschedule_lists(1)[OF l4 rs(1)]]) (use v in \<open>simp_all add: rs(2) common_thread_init_ext\<close>)
qed

text \<open>The scheduler's cache after \<^verbatim>\<open>i686_scheduler_init\<close>.\<close>

lemma scheduler_init_cache:
  assumes "slinked (km_links s) (\<lambda>_. [])" "pm_ready (km_vm s)" "bsp (km_ext s) \<noteq> 0" "fst (kmem_alloc s) \<noteq> 0"
  shows "cache_ok i686_run (thread_cache (km_ext (i686_scheduler_init p s))) (i686_scheduler_init p s) {} {}"
    "kc_ctor (km_cache (i686_scheduler_init p s) (thread_cache (km_ext (i686_scheduler_init p s)))) = Some I686_init_thread_vfuncs"
    "km_vm (i686_scheduler_init p s) = km_vm s" "as_obj (km_ext (i686_scheduler_init p s)) = as_obj (km_ext s)"
proof -
  let ?tc = "fst (kmem_alloc s)" and ?s' = "i686_scheduler_init p s"
  obtain s5 where s5: "?s' = snd (kmem_cache_init ?tc (bsp (km_ext s)) ''thread'' sizeof_i686_thread (Some I686_init_thread_vfuncs) None s5)"
    "km_links s5 = km_links s" "km_vm s5 = km_vm s" "thread_cache (km_ext s5) = ?tc" "as_obj (km_ext s5) = as_obj (km_ext s)"
    by (auto simp: i686_scheduler_init_def Let_def split_def upd_sched_def upd_ext_def kmem_alloc_def i686_kmem_cache_alloc_def)
  have init: "kmem_cache_init ?tc (bsp (km_ext s)) ''thread'' sizeof_i686_thread (Some I686_init_thread_vfuncs) None s5 = (KMEM_SUCCESS, ?s')"
    unfolding s5(1) by (simp add: common_kmem_cache_init_def Let_def MIN_CACHE_SIZE_def sizeof_i686_thread_def)
  have f: "kc_ctor (km_cache ?s' ?tc) = Some I686_init_thread_vfuncs" "kc_dtor (km_cache ?s' ?tc) = None"
    "thread_cache (km_ext ?s') = ?tc" "km_vm ?s' = km_vm s" "as_obj (km_ext ?s') = as_obj (km_ext s)"
    unfolding s5(1) using s5(3-5) by (simp_all add: common_kmem_cache_init_def Let_def upd_cache_def)
  have sl: "slinked (km_links s5) (\<lambda>_. [])" using assms(1) s5(2) by simp
  have "cache_rep None ?tc ?s' (\<lambda>_. []) {} {}"
    using cache_init_rep[OF init assms(4,3) _ _ sl] assms(2) s5(3)
    by (simp add: members_def sizeof_i686_thread_def fun_upd_idem)
  then show "cache_ok i686_run (thread_cache (km_ext ?s')) ?s' {} {}"
    using f(1-3) thread_ctor_ok by (auto simp: cache_ok_def callback_ok_def[of _ None])
  show "kc_ctor (km_cache ?s' (thread_cache (km_ext ?s'))) = Some I686_init_thread_vfuncs" using f(1,3) by simp
  show "km_vm ?s' = km_vm s" "as_obj (km_ext ?s') = as_obj (km_ext s)" by (fact f)+
qed

section \<open>The page tables of the loader\<close>

lemma loader_pte:
  assumes "k < 1024"
  shows "zero_pte\<lparr>pt_phys_addr := of_nat k, pt_present := True, pt_writable := True\<rparr> = identity_pte k"
proof -
  have "frame_of (of_nat k * 4096) = ucast (of_nat k :: u32)"
    using assms by (simp add: frame_of_def drop_bit_12 frame_number)
  moreover have "unat (ucast (of_nat k :: u32) :: 20 word) = unat (of_nat k :: 20 word)"
    using assms by (simp add: unsigned_ucast_eq unat_of_nat take_bit_nat_eq_self)
  then have "(ucast (of_nat k :: u32) :: 20 word) = of_nat k" by (simp only: word_unat_eq_iff)
  ultimately show ?thesis by (simp add: identity_pte_def i686_set_pte_def bittestl_def page_flag_defs zero_pte_def)
qed

section \<open>A concrete machine\<close>

text \<open>A machine of 32 megabytes, with the kernel's image up to \<open>0xC0380000\<close>.\<close>

definition example_area :: memory_map_t where
  "example_area = \<lparr>mm_size = 20, mm_base_addr_low = 0, mm_base_addr_high = 0, mm_length_low = 0x2000000,
     mm_length_high = 0, mm_type = 1\<rparr>"

definition example_info :: multiboot_info_t where
  "example_info = \<lparr>mi_flags = 0x44, mi_mem_lower = 640, mi_mem_upper = 31744, mi_boot_device = 0, mi_cmdline = 0x9100,
     mi_mods_count = 0, mi_mods_addr = 0, mi_mmap_length = 24, mi_mmap_addr = 0x9000, mi_mmap = [example_area]\<rparr>"

definition example_boot :: vm_state where
  "example_boot = example_vm
     \<lparr>identitymap_limit := 0xC0380000,
      vm_pm := (upd_obj 1 (\<lambda>b. b\<lparr>free_pages := 0\<rparr>) example_pool)\<lparr>pm_pages :=
        \<lparr>lh_first = (\<lambda>_. None), le_next = (\<lambda>_. None), le_prev = (\<lambda>_. None)\<rparr>\<rparr>\<rparr>"

text \<open>The invariant after \<^verbatim>\<open>i686_physmem_alloc\<close>, and what is listed.\<close>

lemma physmem_alloc_inv:
  assumes lim: "0xC0100000 \<le> unat (identitymap_limit vm)"
    and fits: "unat (identitymap_limit vm) + (last_page e + 1) * 12 \<le> 0xFFFFF000"
    and brk: "brk = identitymap_limit vm + of_nat (Suc (last_page e)) * 12"
    and cover: "limit_pages brk + 256 \<le> last_page e"
    and conf: "pm_sub (pm_obj (vm_pm vm) p) = I686_sub i" "pm_v (pm_obj (vm_pm vm) p) = i686_physmem_v"
    and l: "linked (pm_pages (vm_pm vm)) (\<lambda>_. [])"
    and e: "mm_base_addr_high e = 0" "mm_length_high e = 0" "mm_type e = 1" "mm_base_addr_low e = 0"
      "unat (mm_length_low e) + 4095 < 2 ^ 32"
    and info: "mi_mmap info = [e]" "mi_mmap_length info = 24" "unat (mi_mmap_addr info) + 24 < 2 ^ 32"
  obtains vm' H where "i686_physmem_alloc p k info vm = Some (p, vm')" "i686_conf (vm_pm vm') p (identitymap_limit vm)"
    "pm_inv (\<lambda>_. 256) {p} (identitymap_limit vm) (vm_pm vm') H" "\<forall>x. x \<noteq> p \<longrightarrow> H (Freelist x) = []"
    "addr_of (identitymap_limit vm) ` members H = (\<lambda>m. of_nat m * 4096) ` {limit_pages brk<..last_page e}"
    "unat (free_pages (pm_obj (vm_pm vm') p)) + 256 = last_page e - limit_pages brk" "vm' = raised_limit brk (vm_pm vm') vm"
proof -
  let ?L = "identitymap_limit vm" and ?g = "last_page e" and ?n = "Suc (limit_pages brk)"
  let ?H = "(\<lambda>_. [])(Freelist p := rev (map (table_page ?L) [?n..<Suc ?g])) :: physmem_head \<Rightarrow> page_ptr list"
  obtain vm' where r: "i686_physmem_alloc p k info vm = Some (p, vm')" "i686_conf (vm_pm vm') p ?L"
    and lk: "linked (pm_pages (vm_pm vm')) ?H"
    and fp: "unat (free_pages (pm_obj (vm_pm vm') p)) + 256 = ?g - limit_pages brk" and rl: "vm' = raised_limit brk (vm_pm vm') vm"
    by (rule physmem_alloc_ok[OF assms])
  have g: "?g < 2 ^ 20" using area_pages(4)[of e] e(4,5) by simp
  have m: "members ?H = table_page ?L ` {?n..<Suc ?g}" by (auto simp: members_def simp del: upt_Suc)
  have "members ?H \<subseteq> range (page_of ?L)"
    unfolding m using g by (auto simp: table_page_of[symmetric])
  moreover have "length (?H (Freelist p)) = unat (free_pages (pm_obj (vm_pm vm') p)) + 256"
    using fp by (simp del: upt_Suc)
  ultimately have inv: "pm_inv (\<lambda>_. 256) {p} ?L (vm_pm vm') ?H" using lk by (simp add: pm_inv_def)
  have "addr_of ?L ` members ?H = (\<lambda>m. of_nat m * 4096) ` {?n..<Suc ?g}"
    unfolding m image_image using g by (intro image_cong refl addr_of_table_page) simp
  also have "{?n..<Suc ?g} = {limit_pages brk<..?g}" by auto
  finally have ad: "addr_of ?L ` members ?H = (\<lambda>m. of_nat m * 4096) ` {limit_pages brk<..?g}" .
  show thesis by (rule that[OF r inv _ ad fp rl]) simp
qed

section \<open>Properties\<close>

text \<open>
  \<^verbatim>\<open>i686_physmem_alloc\<close>, on a machine with one usable area from address 0 that holds the kernel,
  the page table and another megabyte: it returns, and it establishes the invariant of the physical
  allocator (\<open>source_rep\<close>) with a counter that is 256 below the length of the free list.  No page from
  address 0 to the end of the page table is listed.  The pages listed go up to the one with number
  \<open>last_page\<close>, which begins at or behind the end of the area.
\<close>

theorem physmem_alloc_gives_pool:
  assumes "0xC0100000 \<le> unat (identitymap_limit vm)"
    and "unat (identitymap_limit vm) + (last_page e + 1) * 12 \<le> 0xFFFFF000"
    and "limit_pages (identitymap_limit vm + of_nat (Suc (last_page e)) * 12) + 256 \<le> last_page e"
    and "pm_sub (pm_obj (vm_pm vm) p) = I686_sub i" "pm_v (pm_obj (vm_pm vm) p) = i686_physmem_v"
    and "linked (pm_pages (vm_pm vm)) (\<lambda>_. [])"
    and "mm_base_addr_high e = 0" "mm_length_high e = 0" "mm_type e = 1" "mm_base_addr_low e = 0"
    and "unat (mm_length_low e) + 4095 < 2 ^ 32"
    and "mi_mmap info = [e]" "mi_mmap_length info = 24" "unat (mi_mmap_addr info) + 24 < 2 ^ 32"
  shows "\<exists>vm' A. i686_physmem_alloc p k info vm = Some (p, vm') \<and>
    source_rep (\<lambda>_. 256) p (identitymap_limit vm) (vm_pm vm') A
      ((\<lambda>m. of_nat m * 4096) ` {limit_pages (identitymap_limit vm + of_nat (Suc (last_page e)) * 12)<..last_page e}) \<and>
    source_avail p (vm_pm vm') + 256 =
      last_page e - limit_pages (identitymap_limit vm + of_nat (Suc (last_page e)) * 12) \<and>
    unat (mm_length_low e) \<le> last_page e * 4096"
proof -
  let ?L = "identitymap_limit vm" and ?g = "last_page e"
  obtain vm' H where r: "i686_physmem_alloc p k info vm = Some (p, vm')" "i686_conf (vm_pm vm') p ?L"
    "pm_inv (\<lambda>_. 256) {p} ?L (vm_pm vm') H" "\<forall>x. x \<noteq> p \<longrightarrow> H (Freelist x) = []"
    "addr_of ?L ` members H = (\<lambda>m. of_nat m * 4096) ` {limit_pages (?L + of_nat (Suc ?g) * 12)<..?g}"
    "unat (free_pages (pm_obj (vm_pm vm') p)) + 256 = ?g - limit_pages (?L + of_nat (Suc ?g) * 12)"
    "vm' = raised_limit (?L + of_nat (Suc ?g) * 12) (vm_pm vm') vm"
    by (rule physmem_alloc_inv[OF assms(1,2) refl assms(3-)])
  have "source_rep (\<lambda>_. 256) p ?L (vm_pm vm') (set (stock ?L (vm_pm vm') H p))
      ((\<lambda>m. of_nat m * 4096) ` {limit_pages (?L + of_nat (Suc ?g) * 12)<..?g})"
    using r(2,3) unfolding source_rep_def r(5)[symmetric] by blast
  moreover have "unat (mm_length_low e) \<le> ?g * 4096"
  proof -
    have "x \<le> (x + 4095) div 4096 * 4096" for x :: nat
      using div_mult_mod_eq[of "x + 4095" 4096] mod_less_divisor[of 4096 "x + 4095"] by linarith
    then show ?thesis using assms(10) by (simp add: last_page_def)
  qed
  ultimately show ?thesis using r(1,6) unfolding source_avail_def by blast
qed

theorem physmem_alloc_gives_pool_witness:
  "\<exists>vm' A. i686_physmem_alloc 1 0 example_info example_boot = Some (1, vm') \<and>
    source_rep (\<lambda>_. 256) 1 0xC0380000 (vm_pm vm') A ((\<lambda>m. of_nat m * 4096) ` {921<..8192}) \<and>
    source_avail 1 (vm_pm vm') = 7015"
proof -
  have g: "last_page example_area = 8192" by (simp add: last_page_def example_area_def)
  have n: "limit_pages (0xC0380000 + of_nat (Suc 8192) * 12) = 921" by (simp add: limit_pages_def)
  have l: "identitymap_limit example_boot = 0xC0380000" by (simp add: example_boot_def)
  have "linked (pm_pages (vm_pm example_boot)) (\<lambda>_. [])" by (simp add: example_boot_def linked_def)
  then show ?thesis
    using physmem_alloc_gives_pool[of example_boot example_area 1 "\<lparr>start_address = example_table, last_address = 0xC0400024\<rparr>" example_info 0]
    unfolding l g n
    by (simp add: example_boot_def example_area_def example_info_def upd_obj_def example_pool_def)
qed

text \<open>
  C29.  The loader's \<^verbatim>\<open>setup_tables\<close>: every address of the first four megabytes above \<^verbatim>\<open>highstart\<close> translates to
  itself less \<^verbatim>\<open>highstart\<close> and no other address of the kernel space translates; the entries for
  address 0 and for \<^verbatim>\<open>highstart\<close> name the same table, and \<^verbatim>\<open>cr3\<close> is the physical address of the kernel's directory.
\<close>

theorem loader_maps_first_4mb:
  assumes "highstart \<le> a"
  shows "kvirt_loc (setup_tables s) a = (if unat a < 0xC0400000 then Some (a - highstart) else None) \<and>
    pd_present (kernel_pd (setup_tables s) 0) \<and> pd_present (kernel_pd (setup_tables s) 768) \<and>
    pd_phys_addr (kernel_pd (setup_tables s) 0) = frame_of (sym_kernel_pts s - highstart) \<and>
    pd_phys_addr (kernel_pd (setup_tables s) 768) = frame_of (sym_kernel_pts s - highstart) \<and>
    cr3 (setup_tables s) = sym_kernel_pd s - highstart"
proof -
  have fl: "kernel_flatpt (setup_tables s) = (\<lambda>i. if i < 1024 then identity_pte i else if i < 262144 then zero_pte else kernel_flatpt s i)"
    by (auto simp: setup_tables_def Let_def enable_paging_def loader_pte[symmetric])
  have hi: "0xC0000000 \<le> unat a" using assms by (simp add: highstart_def word_le_nat_alt)
  have u: "unat (a - highstart) = unat a - 0xC0000000" using unat_sub[OF assms] by (simp add: highstart_def)
  have "kvirt_loc (setup_tables s) a = Some (a - highstart)" if "unat a < 0xC0400000"
    by (rule identity_translates_from[where m = 0 and n = 1023]) (use hi that fl in simp_all)
  moreover have "kvirt_loc (setup_tables s) a = None" if "\<not> unat a < 0xC0400000"
  proof -
    let ?k = "unat ((a - highstart) div 4096)"
    have k: "?k = (unat a - 0xC0000000) div 4096" by (simp add: unat_div_distrib u)
    have "1024 \<le> ?k" unfolding k using that by (simp add: less_eq_div_iff_mult_less_eq)
    moreover have "unat a < 2 ^ 32" using unsigned_less[of a, where ?'a = nat] by simp
    then have "?k < 262144" unfolding k by (simp add: div_less_iff_less_mult)
    ultimately have "kernel_flatpt (setup_tables s) ?k = zero_pte" by (simp add: fl)
    then show ?thesis by (simp add: kvirt_loc_def Let_def zero_pte_def)
  qed
  ultimately show ?thesis by (auto simp: setup_tables_def Let_def enable_paging_def)
qed

theorem loader_maps_first_4mb_witness:
  "kvirt_loc (setup_tables example_vm) 0xC0100004 = Some 0x100004 \<and> kvirt_loc (setup_tables example_vm) 0xC0400000 = None"
  using loader_maps_first_4mb[of "0xC0100004" example_vm] loader_maps_first_4mb[of "0xC0400000" example_vm]
  by (simp add: highstart_def)

text \<open>
  C26.  The end of \<^verbatim>\<open>i686_kmain\<close>, with memory for a thread and two free kernel pages for the windows after it: the
  processor enters user space at \<open>0x1000000\<close> with the user segments and no privileges in its flags;
  the thread that runs is the new one, which is runnable and belongs to the address space; the processor uses the directory
  of that space, whose part above \<^verbatim>\<open>highstart\<close> is the kernel's; and the invariant of the scheduler holds.
\<close>

theorem start_thread_enters_user:
  assumes "cache_ok i686_run (thread_cache (km_ext s)) s F I"
    and "kc_ctor (km_cache s (thread_cache (km_ext s))) = Some I686_init_thread_vfuncs"
    and "s_v (sched_obj (km_ext s) p) \<noteq> None" "sched_lists p s H" "members H \<subseteq> I"
    and "3 \<le> card (kfree (km_vm s))" "local_page_alloc (km_vm s) \<noteq> Some ((PHYSMEM_ERR_OOM, None), km_vm s)"
    and "a \<noteq> 0" "as_pd (as_obj (km_ext s) a) mod 4096 = 0"
  shows "\<exists>t s'. start_thread i686_run p a s = Some (entry_regs, s') \<and>
    s_current (sched_obj (km_ext s') p) = t \<and> t \<notin> I \<and> t_state (thread_obj (km_ext s') t) = THREAD_RUNNABLE \<and>
    t_space (thread_obj (km_ext s') t) = a \<and> cr3 (km_vm s') = as_pd (as_obj (km_ext s) a) \<and>
    (\<forall>va. highstart \<le> va \<longrightarrow> user_pde (pmem (km_vm s')) (as_pd (as_obj (km_ext s) a)) va =
       shared_pde (km_vm s') (va div 4194304 - 768)) \<and> sched_inv p s'"
proof -
  let ?pd = "as_pd (as_obj (km_ext s) a)"
  have "kfree (km_vm s) \<noteq> {}" using assms(6) by auto
  from thread_alloc_ok[OF assms(1-3) this assms(7)] obtain t s1 where
    al: "scheduler_thread_alloc i686_run p s = Some ((SCHED_SUCCESS, t), s1)" "t \<noteq> 0" "t \<notin> I"
      "thread_obj (km_ext s1) = (thread_obj (km_ext s))(t := zero_thread\<lparr>t_v := Some I686_thread_vfuncs, t_ctx := entry_context\<rparr>)"
      "thread_links (km_ext s1) = thread_links (km_ext s)" "sched_obj (km_ext s1) = sched_obj (km_ext s)"
      "as_obj (km_ext s1) = as_obj (km_ext s)" "next_tid (km_ext s1) = next_tid (km_ext s)"
      "local_page_size (km_vm s1) = Some 4096" "card (kfree (km_vm s)) \<le> Suc (card (kfree (km_vm s1)))"
    by blast
  have "linked (thread_links (km_ext s)) H" using assms(4) by (simp add: sched_lists_def)
  then have nl: "\<not> listed s t" using al(3) assms(5) linked_unique by (force simp: listed_def)
  have "t_v (thread_obj (km_ext s1) t) \<noteq> None" "s_v (sched_obj (km_ext s1) p) \<noteq> None" "\<not> listed s1 t"
    using al(4-6) assms(3) nl by (simp_all add: listed_def)
  moreover have "sched_lists p s1 H" by (rule sched_lists_unlisted[OF assms(4) nl]) (simp_all add: al(4-6))
  ultimately have "sched_lists p s1 H" "\<not> listed s1 t" "t_v (thread_obj (km_ext s1) t) \<noteq> None" "s_v (sched_obj (km_ext s1) p) \<noteq> None"
    by blast+
  from run_new_thread[OF this(1,2) al(2) this(3,4) assms(8)] obtain s2 s4 s5 where sc: "thread_init t a s1 = Some (THREAD_SUCCESS, s2)"
    "scheduler_thread_add p t (upd_thread t (\<lambda>b. b\<lparr>t_state := THREAD_RUNNABLE\<rparr>) s2) = Some (SCHED_SUCCESS, s4)"
    "scheduler_reschedule p s4 = Some (SCHED_SUCCESS, s5)" "sched_lists p s5 (H(Runnable p := t # H (Runnable p)))"
    and cur5: "s_current (sched_obj (km_ext s5) p) = t" "s_v (sched_obj (km_ext s5) p) \<noteq> None"
    "t_state (thread_obj (km_ext s5) t) = THREAD_RUNNABLE" "t_space (thread_obj (km_ext s5) t) = a"
    "t_ctx (thread_obj (km_ext s5) t) = t_ctx (thread_obj (km_ext s1) t)"
    "as_obj (km_ext s5) = as_obj (km_ext s1)" "km_vm s5 = km_vm s1" by metis
  have cur: "s_current (sched_obj (km_ext s5) p) = t" "s_v (sched_obj (km_ext s5) p) \<noteq> None"
    "t_state (thread_obj (km_ext s5) t) = THREAD_RUNNABLE" "t_space (thread_obj (km_ext s5) t) = a"
    "t_ctx (thread_obj (km_ext s5) t) = entry_context" "as_pd (as_obj (km_ext s5) a) = ?pd" "km_vm s5 = km_vm s1"
    using cur5 by (simp_all add: al(4,7))
  have "2 \<le> card (kfree (km_vm s1))" using al(10) assms(6) by simp
  from setup_kernelspace_ok[OF this al(9) assms(9)] obtain vm1 where vm1:
    "virtmem_user_setup_kernelspace ?pd (km_vm s1) = Some (VIRTMEM_SUCCESS, vm1)"
    "\<forall>va. user_pde (pmem vm1) ?pd va = (if highstart \<le> va then shared_pde (km_vm s1) (va div 4194304 - 768)
       else user_pde (pmem (km_vm s1)) ?pd va)" "sym_kernel_pts vm1 = sym_kernel_pts (km_vm s1)"
    by blast
  let ?s6 = "s5\<lparr>km_vm := vm1\<lparr>cr3 := ?pd\<rparr>\<rparr>"
  have "scheduler_resume p ?s6 = Some entry_regs"
    using cur(1,2,5) al(2) by (auto simp: scheduler_resume_def i686_scheduler_resume_def common_scheduler_get_current_thread_def
        entry_context_regs)
  then have "start_thread i686_run p a s = Some (entry_regs, ?s6)"
    using al(1) sc(1-3) vm1(1) cur(6,7) by (simp add: start_thread_def virtmem_set_context_def i686_set_context_def)
  moreover have "sched_lists p ?s6 (H(Runnable p := t # H (Runnable p)))" using sc(4) by (simp add: sched_lists_def)
  moreover have "shared_pde (vm1\<lparr>cr3 := ?pd\<rparr>) k = shared_pde (km_vm s1) k" for k by (simp add: shared_pde_def vm1(3))
  ultimately show ?thesis using cur al(3) vm1(2)
    by (intro exI[of _ t] exI[of _ ?s6]) (auto simp: sched_inv_def)
qed

theorem start_thread_enters_user_witness:
  "\<exists>t s'. start_thread i686_run 0xC0020100 0xC0100000 example_scheduler = Some (entry_regs, s') \<and>
    s_current (sched_obj (km_ext s') 0xC0020100) = t \<and> t_space (thread_obj (km_ext s') t) = 0xC0100000 \<and>
    cr3 (km_vm s') = 0x3000"
proof -
  have "pm_ready example_user_vm" using example_vm_pm_ready by (simp add: pm_ready_def example_user_vm_def)
  moreover have "slinked (km_links example_sched) (\<lambda>_. [])" "km_vm example_sched = example_user_vm" "bsp (km_ext example_sched) \<noteq> 0"
    "fst (kmem_alloc example_sched) \<noteq> 0" "as_pd (as_obj (km_ext example_sched) a) = 0x3000" for a
    by (simp_all add: example_sched_def slinked_def kmem_alloc_def i686_kmem_cache_alloc_def)
  ultimately have c: "cache_ok i686_run (thread_cache (km_ext example_scheduler)) example_scheduler {} {}"
    "kc_ctor (km_cache example_scheduler (thread_cache (km_ext example_scheduler))) = Some I686_init_thread_vfuncs"
    "km_vm example_scheduler = example_user_vm" "as_pd (as_obj (km_ext example_scheduler) a) = 0x3000" for a
    using scheduler_init_cache[of example_sched "0xC0020100"] by (simp_all add: example_scheduler_def)
  have "local_page_alloc example_user_vm \<noteq> Some ((PHYSMEM_ERR_OOM, None), example_user_vm)"
    using example_vm_has_memory(1) by (auto simp: local_page_alloc_def example_user_vm_def example_vm_def bind_eq_Some_conv)
  moreover have "members (\<lambda>_. []) \<subseteq> ({} :: virtaddr_t set)" by (simp add: members_def)
  moreover have "3 \<le> card (kfree example_user_vm)" by (simp add: example_user_vm_kfree)
  ultimately show ?thesis
    using start_thread_enters_user[OF c(1,2) _ example_scheduler_lists, of "0xC0100000"] c(3,4) example_scheduler_fields(1)
    by auto
qed

end
