(* ===== verification/Tailq.thy ===== *)
theory Tailq
  imports Queue
begin

text \<open>
  The rest of \<^verbatim>\<open>src/sys/include/queue.h\<close>: the insertions in the middle of a list, the loops, and the tail
  queues \<^verbatim>\<open>STAILQ\<close> (singly linked) and \<^verbatim>\<open>TAILQ\<close> (doubly linked), whose heads also hold the address of the
  last \<^verbatim>\<open>next\<close> cell.  The theory shows that they refine operations on lists, and that the loops end and visit the
  elements in order.  \<^verbatim>\<open>QUEUE_MACRO_DEBUG\<close> is not defined in the kernel's build, so that the checks and traces are
  empty.
\<close>

section \<open>Insertion into a list\<close>

definition LIST_INSERT_AFTER :: "'n \<Rightarrow> 'n \<Rightarrow> ('h, 'n) list_store \<Rightarrow> ('h, 'n) list_store" where
  "LIST_INSERT_AFTER x e q =
     (let q1 = q\<lparr>le_next := (le_next q)(e := LIST_NEXT x q)\<rparr>;
          q2 = (case LIST_NEXT e q1 of
                  None \<Rightarrow> q1
                | Some _ \<Rightarrow> (case LIST_NEXT x q1 of
                    None \<Rightarrow> q1
                  | Some n \<Rightarrow> q1\<lparr>le_prev := (le_prev q1)(n := Some (Next_cell e))\<rparr>));
          q3 = q2\<lparr>le_next := (le_next q2)(x := Some e)\<rparr>
      in q3\<lparr>le_prev := (le_prev q3)(e := Some (Next_cell x))\<rparr>)"

definition LIST_INSERT_BEFORE :: "'n \<Rightarrow> 'n \<Rightarrow> ('h, 'n) list_store \<Rightarrow> ('h, 'n) list_store option" where
  "LIST_INSERT_BEFORE x e q =
     (let q1 = q\<lparr>le_prev := (le_prev q)(e := le_prev q x)\<rparr>;
          q2 = q1\<lparr>le_next := (le_next q1)(e := Some x)\<rparr>
      in case le_prev q2 x of
           None \<Rightarrow> None
         | Some l \<Rightarrow> (let q3 = cell_write l (Some e) q2
                      in Some (q3\<lparr>le_prev := (le_prev q3)(x := Some (Next_cell e))\<rparr>)))"

text \<open>What the three insertions have in common: \<open>e\<close> goes to the cell \<open>l\<close>.\<close>

definition link_in :: "('h, 'n) link \<Rightarrow> 'n \<Rightarrow> ('h, 'n) list_store \<Rightarrow> ('h, 'n) list_store \<Rightarrow> bool" where
  "link_in l e q q' \<longleftrightarrow>
     (\<forall>k. cell_read q' k = (if k = l then Some e else if k = Next_cell e then cell_read q l else cell_read q k)) \<and>
     (\<forall>y. le_prev q' y = (if y = e then Some l else if cell_read q l = Some y then Some (Next_cell e) else le_prev q y))"

lemma chain_link:
  assumes "chain q l0 (as @ bs)" "distinct (as @ bs)" "e \<notin> set (as @ bs)"
    and "l0 \<notin> Next_cell ` set (as @ bs)" "l0 \<noteq> Next_cell e" "link_in (lastlink l0 as) e q q'"
  shows "chain q' l0 (as @ e # bs)"
  using assms
proof (induction as arbitrary: l0)
  case Nil
  then have li: "link_in l0 e q q'" by (simp add: lastlink_def)
  then have rd: "\<And>k. cell_read q' k = (if k = l0 then Some e else if k = Next_cell e then cell_read q l0 else cell_read q k)"
    and pv: "\<And>y. le_prev q' y = (if y = e then Some l0 else if cell_read q l0 = Some y then Some (Next_cell e) else le_prev q y)"
    unfolding link_in_def by blast+
  have nx: "le_next q' y = (if y = e then cell_read q l0 else le_next q y)" if "Next_cell y \<noteq> l0" for y
    using rd[of "Next_cell y"] that by auto
  show ?case
  proof (cases bs)
    case Nil
    then show ?thesis using Nil.prems(1,5) rd[of l0] pv[of e] nx[of e] by auto
  next
    case (Cons b bs')
    have c: "cell_read q l0 = Some b" "chain q (Next_cell b) bs'" using Nil.prems(1) Cons by simp_all
    have "chain q' (Next_cell b) bs' = chain q (Next_cell b) bs'"
    proof (rule chain_cong)
      show "cell_read q' (Next_cell b) = cell_read q (Next_cell b)" using Nil.prems(3,4) Cons nx[of b] by auto
      show "le_next q' x = le_next q x \<and> le_prev q' x = le_prev q x" if "x \<in> set bs'" for x
      proof -
        have "Next_cell x \<noteq> l0" using that Nil.prems(4) Cons by auto
        then show ?thesis using that Nil.prems(2,3) Cons nx[of x] pv[of x] c(1) by auto
      qed
    qed
    moreover have "le_prev q' b = Some (Next_cell e)" "le_prev q' e = Some l0" using pv c(1) Nil.prems(3) Cons by auto
    moreover have "le_next q' e = Some b" "cell_read q' l0 = Some e" using nx[of e] rd[of l0] Nil.prems(5) c(1) by auto
    ultimately show ?thesis using Cons c(2) by simp
  qed
next
  case (Cons a as)
  have ll: "lastlink l0 (a # as) = lastlink (Next_cell a) as" by (simp add: lastlink_def)
  have li: "link_in (lastlink (Next_cell a) as) e q q'" using Cons.prems(6) ll by simp
  have "l0 \<noteq> lastlink (Next_cell a) as" using Cons.prems(4) by (auto simp: lastlink_def)
  then have hd: "cell_read q' l0 = Some a" using Cons.prems(1,5) li by (simp add: link_in_def)
  have "cell_read q (lastlink (Next_cell a) as) \<noteq> Some a"
  proof (cases "as @ bs")
    case Nil
    then show ?thesis using Cons.prems(1) by (simp add: lastlink_def)
  next
    case (Cons c cs)
    show ?thesis
    proof (cases bs)
      case Nil
      then obtain as' z where "as = as' @ [z]" using Cons by (cases as rule: rev_cases) auto
      then show ?thesis using Cons.prems(1) Nil chain_middle[of q "Next_cell a" as' z "[]"] by (simp add: lastlink_def)
    next
      case (Cons b bs')
      then show ?thesis using Cons.prems(1,2) chain_middle[of q "Next_cell a" as b bs'] by auto
    qed
  qed
  moreover have "a \<noteq> e" using Cons.prems(3) by auto
  ultimately have "le_prev q' a = le_prev q a" using li by (simp add: link_in_def)
  moreover note hd
  moreover have "chain q' (Next_cell a) (as @ e # bs)"
    by (rule Cons.IH) (use Cons.prems li in auto)
  ultimately show ?case using Cons.prems(1) by simp
qed

lemma link_in_linked:
  assumes q: "linked q H" and e: "e \<notin> members H" and h: "H h = as @ bs" and l: "link_in (lastlink (Head_cell h) as) e q q'"
  shows "linked q' (H(h := as @ e # bs))"
  unfolding linked_def
proof
  fix h'
  let ?l = "lastlink (Head_cell h) as"
  have fresh: "e \<notin> set (H h'')" for h'' using e by (auto simp: members_iff)
  show "chain q' (Head_cell h') ((H(h := as @ e # bs)) h')"
  proof (cases "h' = h")
    case True
    have "chain q' (Head_cell h) (as @ e # bs)"
      by (rule chain_link[OF _ _ _ _ _ l])
        (use linked_chain[OF q, of h] linked_distinct[OF q, of h] fresh[of h] h in auto)
    with True show ?thesis by simp
  next
    case False
    have sep: "y \<notin> set (as @ bs)" if "y \<in> set (H h')" for y
      using that linked_disjoint[OF q False] h by auto
    have tgt: "cell_read q ?l \<noteq> Some y" if "y \<in> set (H h')" for y
    proof (cases bs)
      case Nil
      show ?thesis
      proof (cases as rule: rev_cases)
        case Nil
        then show ?thesis using linked_chain[OF q, of h] h \<open>bs = []\<close> by (simp add: lastlink_def)
      next
        case (snoc as' z)
        then show ?thesis using linked_chain[OF q, of h] h \<open>bs = []\<close> chain_middle[of q "Head_cell h" as' z "[]"]
          by (simp add: lastlink_def)
      qed
    next
      case (Cons b bs')
      then show ?thesis using linked_chain[OF q, of h] h chain_middle[of q "Head_cell h" as b bs'] sep[OF that] by auto
    qed
    have "chain q' (Head_cell h') (H h') = chain q (Head_cell h') (H h')"
    proof (rule chain_cong)
      show "cell_read q' (Head_cell h') = cell_read q (Head_cell h')"
        using l False by (auto simp: link_in_def lastlink_def simp del: cell_read.simps)
      fix y assume y: "y \<in> set (H h')"
      have "Next_cell y \<noteq> ?l" using sep[OF y] by (auto simp: lastlink_def split: if_splits)
      moreover have "y \<noteq> e" using fresh y by blast
      ultimately have "cell_read q' (Next_cell y) = cell_read q (Next_cell y)" using l by (simp add: link_in_def del: cell_read.simps)
      then show "le_next q' y = le_next q y \<and> le_prev q' y = le_prev q y"
        using l tgt[OF y] \<open>y \<noteq> e\<close> by (simp add: link_in_def)
    qed
    with False linked_chain[OF q] show ?thesis by simp
  qed
qed

lemma fresh_neq: "e \<notin> members H \<Longrightarrow> H h = as @ x # bs \<Longrightarrow> x \<noteq> e"
  by (metis in_set_conv_decomp members_iff)

lemma LIST_INSERT_AFTER_linked [list_laws]:
  assumes q: "linked q H" and e: "e \<notin> members H" and h: "H h = as @ x # bs"
  shows "linked (LIST_INSERT_AFTER x e q) (H(h := as @ x # e # bs))"
proof -
  have "x \<noteq> e" by (rule fresh_neq[OF e h])
  have "le_next q y \<noteq> Some e" if "y \<in> members H" for y
  proof -
    from that obtain h' where "y \<in> set (H h')" unfolding members_iff by blast
    then obtain us vs where H: "H h' = us @ y # vs" by (auto simp: in_set_conv_decomp)
    have "e \<notin> set (H h')" using e by (simp add: members_iff)
    then have "e \<notin> set vs" by (simp add: H)
    then show ?thesis using chain_middle[of q "Head_cell h'" us y vs] linked_chain[OF q, of h'] H by (cases vs) auto
  qed
  moreover have "x \<in> members H" unfolding members_iff by (rule exI[of _ h]) (simp add: h)
  ultimately have ne: "le_next q x \<noteq> Some e" by blast
  have "link_in (Next_cell x) e q (LIST_INSERT_AFTER x e q)"
    unfolding link_in_def
  proof (intro conjI allI)
    show "cell_read (LIST_INSERT_AFTER x e q) k =
        (if k = Next_cell x then Some e else if k = Next_cell e then cell_read q (Next_cell x) else cell_read q k)" for k
      using \<open>x \<noteq> e\<close> by (cases k) (auto simp: LIST_INSERT_AFTER_def LIST_NEXT_def Let_def split: option.splits)
    show "le_prev (LIST_INSERT_AFTER x e q) y =
        (if y = e then Some (Next_cell x) else if cell_read q (Next_cell x) = Some y then Some (Next_cell e) else le_prev q y)" for y
      using \<open>x \<noteq> e\<close> ne by (auto simp: LIST_INSERT_AFTER_def LIST_NEXT_def Let_def split: option.splits)
  qed
  then show ?thesis using link_in_linked[OF q e, of h "as @ [x]" bs] h by (simp add: lastlink_def)
qed

lemma LIST_INSERT_BEFORE_linked [list_laws]:
  assumes q: "linked q H" and e: "e \<notin> members H" and h: "H h = as @ x # bs"
  shows "\<exists>q'. LIST_INSERT_BEFORE x e q = Some q' \<and> linked q' (H(h := as @ e # x # bs))"
proof -
  let ?l = "lastlink (Head_cell h) as"
  have "x \<noteq> e" by (rule fresh_neq[OF e h])
  have mid: "cell_read q ?l = Some x" "le_prev q x = Some ?l"
    using chain_middle[of q "Head_cell h" as x bs] linked_chain[OF q, of h] h by auto
  have "e \<notin> set as" using e h by (metis UnCI members_iff set_append)
  then have le: "?l \<noteq> Next_cell e" by (auto simp: lastlink_def)
  obtain q' where q': "LIST_INSERT_BEFORE x e q = Some q'" using mid(2) \<open>x \<noteq> e\<close> by (auto simp: LIST_INSERT_BEFORE_def Let_def)
  have "link_in ?l e q q'"
    unfolding link_in_def
  proof (intro conjI allI)
    show "cell_read q' k = (if k = ?l then Some e else if k = Next_cell e then cell_read q ?l else cell_read q k)" for k
      using q' mid \<open>x \<noteq> e\<close> le by (cases ?l; cases k) (auto simp: LIST_INSERT_BEFORE_def Let_def)
    show "le_prev q' y = (if y = e then Some ?l else if cell_read q ?l = Some y then Some (Next_cell e) else le_prev q y)" for y
      using q' mid \<open>x \<noteq> e\<close> by (cases ?l) (auto simp: LIST_INSERT_BEFORE_def Let_def)
  qed
  then show ?thesis using link_in_linked[OF q e, of h as "x # bs"] h q' by auto
qed

section \<open>Tail queues\<close>

record ('h, 'n) tailq_store =
  tqh_first :: "'h \<Rightarrow> 'n option"
  tqh_last :: "'h \<Rightarrow> ('h, 'n) link option"
  tqe_next :: "'n \<Rightarrow> 'n option"
  tqe_prev :: "'n \<Rightarrow> ('h, 'n) link option"

fun tq_read :: "('h, 'n) tailq_store \<Rightarrow> ('h, 'n) link \<Rightarrow> 'n option" where
  "tq_read q (Head_cell h) = tqh_first q h"
| "tq_read q (Next_cell e) = tqe_next q e"

fun tq_write :: "('h, 'n) link \<Rightarrow> 'n option \<Rightarrow> ('h, 'n) tailq_store \<Rightarrow> ('h, 'n) tailq_store" where
  "tq_write (Head_cell h) v q = q\<lparr>tqh_first := (tqh_first q)(h := v)\<rparr>"
| "tq_write (Next_cell e) v q = q\<lparr>tqe_next := (tqe_next q)(e := v)\<rparr>"

text \<open>An entry has the layout of a head: \<^verbatim>\<open>TAILQ_LAST\<close> and \<^verbatim>\<open>TAILQ_PREV\<close> read the second word of either.\<close>

fun tq_second :: "('h, 'n) tailq_store \<Rightarrow> ('h, 'n) link \<Rightarrow> ('h, 'n) link option" where
  "tq_second q (Head_cell h) = tqh_last q h"
| "tq_second q (Next_cell e) = tqe_prev q e"

definition TAILQ_EMPTY :: "'h \<Rightarrow> ('h, 'n) tailq_store \<Rightarrow> bool" where
  "TAILQ_EMPTY h q \<longleftrightarrow> tqh_first q h = None"

definition TAILQ_FIRST :: "'h \<Rightarrow> ('h, 'n) tailq_store \<Rightarrow> 'n option" where
  "TAILQ_FIRST h q = tqh_first q h"

definition TAILQ_NEXT :: "'n \<Rightarrow> ('h, 'n) tailq_store \<Rightarrow> 'n option" where
  "TAILQ_NEXT e q = tqe_next q e"

definition TAILQ_LAST :: "'h \<Rightarrow> ('h, 'n) tailq_store \<Rightarrow> 'n option option" where
  "TAILQ_LAST h q = do { l \<leftarrow> tqh_last q h; l2 \<leftarrow> tq_second q l; Some (tq_read q l2) }"

definition TAILQ_PREV :: "'n \<Rightarrow> ('h, 'n) tailq_store \<Rightarrow> 'n option option" where
  "TAILQ_PREV e q = do { l \<leftarrow> tqe_prev q e; l2 \<leftarrow> tq_second q l; Some (tq_read q l2) }"

definition TAILQ_INIT :: "'h \<Rightarrow> ('h, 'n) tailq_store \<Rightarrow> ('h, 'n) tailq_store" where
  "TAILQ_INIT h q = (let q1 = q\<lparr>tqh_first := (tqh_first q)(h := None)\<rparr>
     in q1\<lparr>tqh_last := (tqh_last q1)(h := Some (Head_cell h))\<rparr>)"

definition TAILQ_INSERT_HEAD :: "'h \<Rightarrow> 'n \<Rightarrow> ('h, 'n) tailq_store \<Rightarrow> ('h, 'n) tailq_store" where
  "TAILQ_INSERT_HEAD h e q =
     (let q1 = q\<lparr>tqe_next := (tqe_next q)(e := TAILQ_FIRST h q)\<rparr>;
          q2 = (case TAILQ_FIRST h q1 of
                  None \<Rightarrow> q1\<lparr>tqh_last := (tqh_last q1)(h := Some (Next_cell e))\<rparr>
                | Some f \<Rightarrow> q1\<lparr>tqe_prev := (tqe_prev q1)(f := Some (Next_cell e))\<rparr>);
          q3 = q2\<lparr>tqh_first := (tqh_first q2)(h := Some e)\<rparr>
      in q3\<lparr>tqe_prev := (tqe_prev q3)(e := Some (Head_cell h))\<rparr>)"

definition TAILQ_INSERT_TAIL :: "'h \<Rightarrow> 'n \<Rightarrow> ('h, 'n) tailq_store \<Rightarrow> ('h, 'n) tailq_store option" where
  "TAILQ_INSERT_TAIL h e q =
     (let q1 = q\<lparr>tqe_next := (tqe_next q)(e := None)\<rparr>;
          q2 = q1\<lparr>tqe_prev := (tqe_prev q1)(e := tqh_last q1 h)\<rparr>
      in case tqh_last q2 h of
           None \<Rightarrow> None
         | Some l \<Rightarrow> (let q3 = tq_write l (Some e) q2
                      in Some (q3\<lparr>tqh_last := (tqh_last q3)(h := Some (Next_cell e))\<rparr>)))"

definition TAILQ_INSERT_AFTER :: "'h \<Rightarrow> 'n \<Rightarrow> 'n \<Rightarrow> ('h, 'n) tailq_store \<Rightarrow> ('h, 'n) tailq_store" where
  "TAILQ_INSERT_AFTER h x e q =
     (let q1 = q\<lparr>tqe_next := (tqe_next q)(e := TAILQ_NEXT x q)\<rparr>;
          q2 = (case TAILQ_NEXT e q1 of
                  None \<Rightarrow> q1\<lparr>tqh_last := (tqh_last q1)(h := Some (Next_cell e))\<rparr>
                | Some n \<Rightarrow> q1\<lparr>tqe_prev := (tqe_prev q1)(n := Some (Next_cell e))\<rparr>);
          q3 = q2\<lparr>tqe_next := (tqe_next q2)(x := Some e)\<rparr>
      in q3\<lparr>tqe_prev := (tqe_prev q3)(e := Some (Next_cell x))\<rparr>)"

definition TAILQ_INSERT_BEFORE :: "'n \<Rightarrow> 'n \<Rightarrow> ('h, 'n) tailq_store \<Rightarrow> ('h, 'n) tailq_store option" where
  "TAILQ_INSERT_BEFORE x e q =
     (let q1 = q\<lparr>tqe_prev := (tqe_prev q)(e := tqe_prev q x)\<rparr>;
          q2 = q1\<lparr>tqe_next := (tqe_next q1)(e := Some x)\<rparr>
      in case tqe_prev q2 x of
           None \<Rightarrow> None
         | Some l \<Rightarrow> (let q3 = tq_write l (Some e) q2
                      in Some (q3\<lparr>tqe_prev := (tqe_prev q3)(x := Some (Next_cell e))\<rparr>)))"

definition TAILQ_REMOVE :: "'h \<Rightarrow> 'n \<Rightarrow> ('h, 'n) tailq_store \<Rightarrow> ('h, 'n) tailq_store option" where
  "TAILQ_REMOVE h e q =
     (let q1 = (case TAILQ_NEXT e q of
                  None \<Rightarrow> q\<lparr>tqh_last := (tqh_last q)(h := tqe_prev q e)\<rparr>
                | Some n \<Rightarrow> q\<lparr>tqe_prev := (tqe_prev q)(n := tqe_prev q e)\<rparr>)
      in case tqe_prev q1 e of
           None \<Rightarrow> None
         | Some l \<Rightarrow> Some (tq_write l (TAILQ_NEXT e q1) q1))"

definition TAILQ_CONCAT :: "'h \<Rightarrow> 'h \<Rightarrow> ('h, 'n) tailq_store \<Rightarrow> ('h, 'n) tailq_store option" where
  "TAILQ_CONCAT h1 h2 q =
     (if \<not> TAILQ_EMPTY h2 q then do {
        l \<leftarrow> tqh_last q h1;
        let q1 = tq_write l (tqh_first q h2) q;
        f \<leftarrow> tqh_first q1 h2;
        let q2 = q1\<lparr>tqe_prev := (tqe_prev q1)(f := tqh_last q1 h1)\<rparr>;
        let q3 = q2\<lparr>tqh_last := (tqh_last q2)(h1 := tqh_last q2 h2)\<rparr>;
        Some (TAILQ_INIT h2 q3)
      }
      else Some q)"

text \<open>A tail queue is a list whose head knows the last cell.\<close>

definition as_list :: "('h, 'n) tailq_store \<Rightarrow> ('h, 'n) list_store" where
  "as_list q = \<lparr>lh_first = tqh_first q, le_next = tqe_next q, le_prev = tqe_prev q\<rparr>"

definition tlinked :: "('h, 'n) tailq_store \<Rightarrow> ('h \<Rightarrow> 'n list) \<Rightarrow> bool" where
  "tlinked q H \<longleftrightarrow> linked (as_list q) H \<and> (\<forall>h. tqh_last q h = Some (lastlink (Head_cell h) (H h)))"

lemma tlinkedD:
  assumes "tlinked q H"
  shows "linked (as_list q) H" "tqh_last q h = Some (lastlink (Head_cell h) (H h))"
  using assms by (auto simp: tlinked_def)

lemma tq_read_as_list [simp]: "cell_read (as_list q) l = tq_read q l"
  by (cases l) (simp_all add: as_list_def)

lemma as_list_write [simp]: "as_list (tq_write l v q) = cell_write l v (as_list q)"
  by (cases l) (simp_all add: as_list_def)

lemma tq_write_last [simp]: "tqh_last (tq_write l v q) = tqh_last q" "tqe_prev (tq_write l v q) = tqe_prev q"
  by (cases l; simp)+

lemma lastlink_append [simp]: "lastlink l (as @ x # bs) = lastlink (Next_cell x) bs"
  by (simp add: lastlink_def)

lemma lastlink_Nil [simp]: "lastlink l [] = l"
  by (simp add: lastlink_def)

lemma lastlink_Cons [simp]: "lastlink l (x # bs) = lastlink (Next_cell x) bs"
  by (simp add: lastlink_def)

lemma next_linked: "linked q H \<Longrightarrow> H h = as @ x # bs \<Longrightarrow> le_next q x = (case bs of [] \<Rightarrow> None | b # _ \<Rightarrow> Some b)"
  using chain_middle[of q "Head_cell h" as x bs] linked_chain[of q H h] by simp

lemma prev_linked: "linked q H \<Longrightarrow> H h = as @ x # bs \<Longrightarrow> le_prev q x = Some (lastlink (Head_cell h) as)"
  using chain_middle[of q "Head_cell h" as x bs] linked_chain[of q H h] by simp

text \<open>The tail queue operations do to the list what the list operations do.\<close>

lemma TAILQ_INIT_as_list: "as_list (TAILQ_INIT h q) = LIST_INIT h (as_list q)"
  by (simp add: TAILQ_INIT_def LIST_INIT_def as_list_def)

lemma TAILQ_INSERT_HEAD_as_list: "as_list (TAILQ_INSERT_HEAD h e q) = LIST_INSERT_HEAD h e (as_list q)"
  by (cases "tqh_first q h")
    (simp_all add: TAILQ_INSERT_HEAD_def LIST_INSERT_HEAD_def as_list_def TAILQ_FIRST_def LIST_FIRST_def)

lemma TAILQ_INSERT_AFTER_as_list:
  "x \<noteq> e \<Longrightarrow> as_list (TAILQ_INSERT_AFTER h x e q) = LIST_INSERT_AFTER x e (as_list q)"
  by (cases "tqe_next q x")
    (simp_all add: TAILQ_INSERT_AFTER_def LIST_INSERT_AFTER_def as_list_def TAILQ_NEXT_def LIST_NEXT_def)

lemma TAILQ_INSERT_BEFORE_as_list:
  "map_option as_list (TAILQ_INSERT_BEFORE x e q) = LIST_INSERT_BEFORE x e (as_list q)"
proof (cases "tqe_prev q x")
  case None
  then show ?thesis by (simp add: TAILQ_INSERT_BEFORE_def LIST_INSERT_BEFORE_def as_list_def Let_def)
next
  case (Some l)
  then show ?thesis
    by (cases l) (simp_all add: TAILQ_INSERT_BEFORE_def LIST_INSERT_BEFORE_def as_list_def Let_def)
qed

lemma TAILQ_REMOVE_as_list: "map_option as_list (TAILQ_REMOVE h e q) = LIST_REMOVE e (as_list q)"
proof (cases "tqe_prev q e")
  case None
  then show ?thesis
    by (cases "tqe_next q e") (auto simp: TAILQ_REMOVE_def LIST_REMOVE_def TAILQ_NEXT_def LIST_NEXT_def as_list_def)
next
  case (Some l)
  then show ?thesis
    by (cases l; cases "tqe_next q e")
      (simp_all add: TAILQ_REMOVE_def LIST_REMOVE_def TAILQ_NEXT_def LIST_NEXT_def as_list_def Let_def)
qed

lemma TAILQ_INIT_tlinked:
  assumes "tlinked q H"
  shows "tlinked (TAILQ_INIT h q) (H(h := []))"
  using LIST_INIT_linked[OF tlinkedD(1)[OF assms], of h] tlinkedD(2)[OF assms]
  by (auto simp: tlinked_def TAILQ_INIT_as_list) (auto simp: TAILQ_INIT_def)

lemma TAILQ_FIRST_tlinked: "tlinked q H \<Longrightarrow> TAILQ_FIRST h q = (case H h of [] \<Rightarrow> None | x # _ \<Rightarrow> Some x)"
  using LIST_FIRST_linked[OF tlinkedD(1), of q H h] by (simp add: TAILQ_FIRST_def LIST_FIRST_def as_list_def)

lemma TAILQ_EMPTY_tlinked: "tlinked q H \<Longrightarrow> TAILQ_EMPTY h q \<longleftrightarrow> H h = []"
  using TAILQ_FIRST_tlinked[of q H h] by (auto simp: TAILQ_EMPTY_def TAILQ_FIRST_def split: list.splits)

lemma TAILQ_INSERT_HEAD_tlinked:
  assumes "tlinked q H" "e \<notin> members H"
  shows "tlinked (TAILQ_INSERT_HEAD h e q) (H(h := e # H h))"
proof -
  have "tqh_last (TAILQ_INSERT_HEAD h e q) = (if H h = [] then (tqh_last q)(h := Some (Next_cell e)) else tqh_last q)"
    using TAILQ_FIRST_tlinked[OF assms(1), of h]
    by (auto simp: TAILQ_INSERT_HEAD_def TAILQ_FIRST_def Let_def split: list.splits)
  then show ?thesis
    using LIST_INSERT_HEAD_linked[OF tlinkedD(1)[OF assms(1)] assms(2), of h] tlinkedD(2)[OF assms(1)]
    by (auto simp: tlinked_def TAILQ_INSERT_HEAD_as_list lastlink_def)
qed

lemma TAILQ_INSERT_AFTER_tlinked:
  assumes "tlinked q H" "e \<notin> members H" "H h = as @ x # bs"
  shows "tlinked (TAILQ_INSERT_AFTER h x e q) (H(h := as @ x # e # bs))"
proof -
  have "x \<noteq> e" by (rule fresh_neq[OF assms(2,3)])
  have "tqe_next q x = (case bs of [] \<Rightarrow> None | b # _ \<Rightarrow> Some b)"
    using next_linked[OF tlinkedD(1)[OF assms(1)] assms(3)] by (simp add: as_list_def)
  then have "tqh_last (TAILQ_INSERT_AFTER h x e q) = (if bs = [] then (tqh_last q)(h := Some (Next_cell e)) else tqh_last q)"
    by (auto simp: TAILQ_INSERT_AFTER_def TAILQ_NEXT_def Let_def split: list.splits)
  then show ?thesis
    using LIST_INSERT_AFTER_linked[OF tlinkedD(1)[OF assms(1)] assms(2,3)] tlinkedD(2)[OF assms(1)] assms(3)
    by (auto simp: tlinked_def TAILQ_INSERT_AFTER_as_list[OF \<open>x \<noteq> e\<close>] lastlink_def)
qed

lemma TAILQ_INSERT_BEFORE_tlinked:
  assumes "tlinked q H" "e \<notin> members H" "H h = as @ x # bs"
  shows "\<exists>q'. TAILQ_INSERT_BEFORE x e q = Some q' \<and> tlinked q' (H(h := as @ e # x # bs))"
proof -
  obtain p where p: "LIST_INSERT_BEFORE x e (as_list q) = Some p" "linked p (H(h := as @ e # x # bs))"
    using LIST_INSERT_BEFORE_linked[OF tlinkedD(1)[OF assms(1)] assms(2,3)] by blast
  then obtain q' where q': "TAILQ_INSERT_BEFORE x e q = Some q'" "as_list q' = p"
    using TAILQ_INSERT_BEFORE_as_list[of x e q] by auto
  have "tqh_last q' = tqh_last q" using q'(1) by (auto simp: TAILQ_INSERT_BEFORE_def Let_def split: option.splits)
  then show ?thesis using q' p(2) tlinkedD(2)[OF assms(1)] assms(3) by (auto simp: tlinked_def)
qed

lemma TAILQ_REMOVE_tlinked:
  assumes "tlinked q H" "H h = as @ x # bs"
  shows "\<exists>q'. TAILQ_REMOVE h x q = Some q' \<and> tlinked q' (H(h := as @ bs))"
proof -
  note l = tlinkedD(1)[OF assms(1)]
  obtain p where p: "LIST_REMOVE x (as_list q) = Some p" "linked p (H(h := as @ bs))"
    using LIST_REMOVE_linked[OF l assms(2)] by blast
  then obtain q' where q': "TAILQ_REMOVE h x q = Some q'" "as_list q' = p"
    using TAILQ_REMOVE_as_list[of h x q] by auto
  have "tqe_next q x = (case bs of [] \<Rightarrow> None | b # _ \<Rightarrow> Some b)" "tqe_prev q x = Some (lastlink (Head_cell h) as)"
    using next_linked[OF l assms(2)] prev_linked[OF l assms(2)] by (simp_all add: as_list_def)
  then have "tqh_last q' = (if bs = [] then (tqh_last q)(h := Some (lastlink (Head_cell h) as)) else tqh_last q)"
    using q'(1) by (auto simp: TAILQ_REMOVE_def TAILQ_NEXT_def Let_def split: list.splits option.splits)
  then show ?thesis using q' p(2) tlinkedD(2)[OF assms(1)] assms(2)
    by (auto simp: tlinked_def lastlink_def)
qed

lemma chain_end: "chain q l xs \<Longrightarrow> cell_read q (lastlink l xs) = None"
  by (induction xs arbitrary: l) auto

lemma TAILQ_INSERT_TAIL_tlinked:
  assumes "tlinked q H" "e \<notin> members H"
  shows "\<exists>q'. TAILQ_INSERT_TAIL h e q = Some q' \<and> tlinked q' (H(h := H h @ [e]))"
proof -
  let ?l = "lastlink (Head_cell h) (H h)"
  have "e \<notin> set (H h)" using assms(2) by (simp add: members_iff)
  then have le: "?l \<noteq> Next_cell e" by (auto simp: lastlink_def)
  have none: "tq_read q ?l = None"
    using chain_end[OF linked_chain[OF tlinkedD(1)[OF assms(1)]], of h] by simp
  let ?q1 = "q\<lparr>tqe_next := (tqe_next q)(e := None), tqe_prev := (tqe_prev q)(e := Some ?l)\<rparr>"
  let ?q' = "(tq_write ?l (Some e) ?q1)\<lparr>tqh_last := (tqh_last q)(h := Some (Next_cell e))\<rparr>"
  have run: "TAILQ_INSERT_TAIL h e q = Some ?q'"
    using tlinkedD(2)[OF assms(1), of h] by (simp add: TAILQ_INSERT_TAIL_def Let_def)
  have al: "as_list ?q' = cell_write ?l (Some e) (as_list ?q1)"
    by (cases ?l) (simp_all add: as_list_def)
  have "link_in ?l e (as_list q) (as_list ?q')"
    unfolding link_in_def al
  proof (intro conjI allI)
    show "cell_read (cell_write ?l (Some e) (as_list ?q1)) k =
      (if k = ?l then Some e else if k = Next_cell e then cell_read (as_list q) ?l else cell_read (as_list q) k)" for k
      using none le by (cases ?l; cases k) (auto simp: as_list_def)
    show "le_prev (cell_write ?l (Some e) (as_list ?q1)) y =
      (if y = e then Some ?l else if cell_read (as_list q) ?l = Some y then Some (Next_cell e) else le_prev (as_list q) y)" for y
      using none by (cases ?l) (auto simp: as_list_def)
  qed
  then have "linked (as_list ?q') (H(h := H h @ [e]))"
    using link_in_linked[OF tlinkedD(1)[OF assms(1)] assms(2), of h "H h" "[]"] by simp
  then have "tlinked ?q' (H(h := H h @ [e]))" using tlinkedD(2)[OF assms(1)] by (simp add: tlinked_def)
  then show ?thesis using run by blast
qed

lemma TAILQ_LAST_tlinked:
  assumes "tlinked q H"
  shows "TAILQ_LAST h q = Some (if H h = [] then None else Some (last (H h)))"
proof (cases "H h" rule: rev_cases)
  case Nil
  then show ?thesis using tlinkedD(2)[OF assms, of h] linked_chain[OF tlinkedD(1)[OF assms], of h]
    by (simp add: TAILQ_LAST_def as_list_def)
next
  case (snoc xs x)
  note l = tlinkedD(1)[OF assms]
  have p: "tqe_prev q x = Some (lastlink (Head_cell h) xs)" using prev_linked[OF l, of h xs x "[]"] snoc by (simp add: as_list_def)
  have "tq_read q (lastlink (Head_cell h) xs) = Some x"
    using chain_middle[of "as_list q" "Head_cell h" xs x "[]"] linked_chain[OF l, of h] snoc by simp
  then show ?thesis using tlinkedD(2)[OF assms, of h] p snoc by (simp add: TAILQ_LAST_def)
qed

lemma TAILQ_PREV_tlinked:
  assumes "tlinked q H" "H h = as @ x # bs"
  shows "TAILQ_PREV x q = Some (if as = [] then None else Some (last as))"
proof -
  note l = tlinkedD(1)[OF assms(1)]
  have p: "tqe_prev q x = Some (lastlink (Head_cell h) as)" using prev_linked[OF l assms(2)] by (simp add: as_list_def)
  show ?thesis
  proof (cases as rule: rev_cases)
    case Nil
    have "tq_read q (lastlink (Head_cell h) (H h)) = None" using chain_end[OF linked_chain[OF l], of h] by simp
    then show ?thesis using p Nil tlinkedD(2)[OF assms(1), of h] by (simp add: TAILQ_PREV_def)
  next
    case (snoc as' a)
    have "tqe_prev q a = Some (lastlink (Head_cell h) as')"
      using prev_linked[OF l, of h as' a "x # bs"] assms(2) snoc by (simp add: as_list_def)
    moreover have "tq_read q (lastlink (Head_cell h) as') = Some a"
      using chain_middle[of "as_list q" "Head_cell h" as' a "x # bs"] linked_chain[OF l, of h] assms(2) snoc by simp
    ultimately show ?thesis using p snoc by (simp add: TAILQ_PREV_def)
  qed
qed

lemma chain_join:
  assumes "chain q l xs" "chain q l2 (y # ys)" "distinct (xs @ y # ys)" "l \<notin> Next_cell ` set (xs @ y # ys)"
    and "l2 \<noteq> l" "l2 \<notin> Next_cell ` set (xs @ y # ys)"
    and rd: "\<And>k. cell_read q' k = (if k = lastlink l xs then Some y else if k = l2 then None else cell_read q k)"
    and pv: "\<And>z. le_prev q' z = (if z = y then Some (lastlink l xs) else le_prev q z)"
  shows "chain q' l (xs @ y # ys)"
  using assms
proof (induction xs arbitrary: l)
  case Nil
  have nx: "le_next q' z = le_next q z" if "z \<in> set (y # ys)" for z
    using that Nil.prems(4,6) Nil.prems(7)[of "Next_cell z"] by auto
  have "chain q' (Next_cell y) ys = chain q (Next_cell y) ys"
    by (rule chain_cong) (use nx Nil.prems(3,8) in auto)
  then show ?case using Nil.prems(2,7,8) by simp
next
  case (Cons a xs)
  have "l \<noteq> lastlink (Next_cell a) xs" using Cons.prems(4) by (auto simp: lastlink_def)
  then have "cell_read q' l = Some a" using Cons.prems(1,5,7) by simp
  moreover have "le_prev q' a = Some l" using Cons.prems(1,3,8) by auto
  moreover have "chain q' (Next_cell a) (xs @ y # ys)"
    by (rule Cons.IH) (use Cons.prems in auto)
  ultimately show ?case by simp
qed

lemma TAILQ_CONCAT_tlinked:
  assumes "tlinked q H" "h1 \<noteq> h2"
  shows "\<exists>q'. TAILQ_CONCAT h1 h2 q = Some q' \<and> tlinked q' (H(h1 := H h1 @ H h2, h2 := []))"
proof (cases "H h2")
  case Nil
  then have "H(h1 := H h1 @ H h2, h2 := []) = H" by (auto simp: fun_eq_iff)
  moreover have "TAILQ_CONCAT h1 h2 q = Some q" using TAILQ_EMPTY_tlinked[OF assms(1)] Nil by (simp add: TAILQ_CONCAT_def)
  ultimately show ?thesis using assms(1) by simp
next
  case (Cons y ys)
  note l = tlinkedD(1)[OF assms(1)] and la = tlinkedD(2)[OF assms(1)]
  let ?l = "lastlink (Head_cell h1) (H h1)"
  have first: "tqh_first q h2 = Some y" using TAILQ_FIRST_tlinked[OF assms(1), of h2] Cons by (simp add: TAILQ_FIRST_def)
  have l2: "?l \<noteq> Head_cell h2" using assms(2) by (auto simp: lastlink_def)
  let ?q1 = "tq_write ?l (Some y) q"
  have f1: "tqh_first ?q1 h2 = Some y" using first l2 by (cases ?l) auto
  let ?q2 = "?q1\<lparr>tqe_prev := (tqe_prev q)(y := Some ?l)\<rparr>"
  let ?q3 = "?q2\<lparr>tqh_last := (tqh_last q)(h1 := tqh_last q h2)\<rparr>"
  let ?q' = "TAILQ_INIT h2 ?q3"
  have run: "TAILQ_CONCAT h1 h2 q = Some ?q'"
    using TAILQ_EMPTY_tlinked[OF assms(1), of h2] Cons la first f1 by (simp add: TAILQ_CONCAT_def Let_def)
  have rd: "cell_read (as_list ?q') k = (if k = ?l then Some y else if k = Head_cell h2 then None else cell_read (as_list q) k)" for k
    using l2 by (cases ?l; cases k) (auto simp: TAILQ_INIT_def as_list_def Let_def)
  have pv: "le_prev (as_list ?q') z = (if z = y then Some ?l else le_prev (as_list q) z)" for z
    by (cases ?l) (auto simp: TAILQ_INIT_def as_list_def Let_def)
  have dj: "set (H h) \<inter> set (H h') = {}" if "h \<noteq> h'" for h h' using linked_disjoint[OF l that] .
  have own: "chain (as_list ?q') (Head_cell h1) (H h1 @ y # ys)"
  proof (rule chain_join[OF linked_chain[OF l] _ _ _ _ _ rd pv])
    show "chain (as_list q) (Head_cell h2) (y # ys)" using linked_chain[OF l, of h2] Cons by simp
    show "distinct (H h1 @ y # ys)" using linked_distinct[OF l, of h1] linked_distinct[OF l, of h2] dj[OF assms(2)] Cons by auto
  qed (use assms(2) in auto)
  have "chain (as_list ?q') (Head_cell h) ((H(h1 := H h1 @ H h2, h2 := [])) h)" for h
  proof -
    consider "h = h2" | "h = h1" | "h \<noteq> h1" "h \<noteq> h2" by blast
    then show ?thesis
    proof cases
      case 1
      then show ?thesis using rd[of "Head_cell h2"] l2 by simp
    next
      case 2
      then show ?thesis using own Cons assms(2) by simp
    next
      case 3
      have "chain (as_list ?q') (Head_cell h) (H h) = chain (as_list q) (Head_cell h) (H h)"
      proof (rule chain_cong)
        have "Head_cell h \<noteq> ?l" using 3 by (auto simp: lastlink_def)
        then show "cell_read (as_list ?q') (Head_cell h) = cell_read (as_list q) (Head_cell h)" unfolding rd using 3 by simp
        fix x assume x: "x \<in> set (H h)"
        have "x \<notin> set (H h1)" "x \<noteq> y" using x dj[of h h1] dj[of h h2] 3 Cons by auto
        then have "Next_cell x \<noteq> ?l" by (auto simp: lastlink_def split: if_splits)
        then have "cell_read (as_list ?q') (Next_cell x) = cell_read (as_list q) (Next_cell x)" unfolding rd by simp
        then show "le_next (as_list ?q') x = le_next (as_list q) x \<and> le_prev (as_list ?q') x = le_prev (as_list q) x"
          using pv \<open>x \<noteq> y\<close> by (simp del: tq_read_as_list)
      qed
      then show ?thesis using linked_chain[OF l, of h] 3 by simp
    qed
  qed
  then have "linked (as_list ?q') (H(h1 := H h1 @ H h2, h2 := []))" by (simp add: linked_def)
  moreover have "tqh_last ?q' = (tqh_last q)(h1 := tqh_last q h2, h2 := Some (Head_cell h2))"
    by (simp add: TAILQ_INIT_def Let_def)
  ultimately have "tlinked ?q' (H(h1 := H h1 @ H h2, h2 := []))"
    using la Cons assms(2) by (auto simp: tlinked_def)
  then show ?thesis using run by blast
qed

section \<open>Sequences of operations\<close>

datatype ('h, 'n) queue_op =
    Init 'h
  | Insert_head 'h 'n
  | Insert_tail 'h 'n
  | Insert_after 'h 'n 'n
  | Insert_before 'n 'n
  | Remove 'h 'n
  | Concat 'h 'h

fun tailq_run :: "('h, 'n) queue_op \<Rightarrow> ('h, 'n) tailq_store \<Rightarrow> ('h, 'n) tailq_store option" where
  "tailq_run (Init h) q = Some (TAILQ_INIT h q)"
| "tailq_run (Insert_head h e) q = Some (TAILQ_INSERT_HEAD h e q)"
| "tailq_run (Insert_tail h e) q = TAILQ_INSERT_TAIL h e q"
| "tailq_run (Insert_after h x e) q = Some (TAILQ_INSERT_AFTER h x e q)"
| "tailq_run (Insert_before x e) q = TAILQ_INSERT_BEFORE x e q"
| "tailq_run (Remove h x) q = TAILQ_REMOVE h x q"
| "tailq_run (Concat h1 h2) q = TAILQ_CONCAT h1 h2 q"

text \<open>The specification: what may be asked for, and what the lists are afterwards.\<close>

primrec insert_after :: "'n \<Rightarrow> 'n \<Rightarrow> 'n list \<Rightarrow> 'n list" where
  "insert_after x e [] = []"
| "insert_after x e (y # ys) = (if y = x then y # e # ys else y # insert_after x e ys)"

primrec insert_before :: "'n \<Rightarrow> 'n \<Rightarrow> 'n list \<Rightarrow> 'n list" where
  "insert_before x e [] = []"
| "insert_before x e (y # ys) = (if y = x then e # y # ys else y # insert_before x e ys)"

fun spec_ok :: "('h, 'n) queue_op \<Rightarrow> ('h \<Rightarrow> 'n list) \<Rightarrow> bool" where
  "spec_ok (Init h) H \<longleftrightarrow> True"
| "spec_ok (Insert_head h e) H \<longleftrightarrow> e \<notin> members H"
| "spec_ok (Insert_tail h e) H \<longleftrightarrow> e \<notin> members H"
| "spec_ok (Insert_after h x e) H \<longleftrightarrow> e \<notin> members H \<and> x \<in> set (H h)"
| "spec_ok (Insert_before x e) H \<longleftrightarrow> e \<notin> members H \<and> x \<in> members H"
| "spec_ok (Remove h x) H \<longleftrightarrow> x \<in> set (H h)"
| "spec_ok (Concat h1 h2) H \<longleftrightarrow> h1 \<noteq> h2"

fun spec_run :: "('h, 'n) queue_op \<Rightarrow> ('h \<Rightarrow> 'n list) \<Rightarrow> 'h \<Rightarrow> 'n list" where
  "spec_run (Init h) H = H(h := [])"
| "spec_run (Insert_head h e) H = H(h := e # H h)"
| "spec_run (Insert_tail h e) H = H(h := H h @ [e])"
| "spec_run (Insert_after h x e) H = H(h := insert_after x e (H h))"
| "spec_run (Insert_before x e) H = (\<lambda>h. insert_before x e (H h))"
| "spec_run (Remove h x) H = H(h := remove1 x (H h))"
| "spec_run (Concat h1 h2) H = H(h1 := H h1 @ H h2, h2 := [])"

primrec run_ops :: "('o \<Rightarrow> 's \<Rightarrow> 's option) \<Rightarrow> 'o list \<Rightarrow> 's \<Rightarrow> 's option" where
  "run_ops f [] s = Some s"
| "run_ops f (x # xs) s = do { s1 \<leftarrow> f x s; run_ops f xs s1 }"

primrec specs_ok :: "('h, 'n) queue_op list \<Rightarrow> ('h \<Rightarrow> 'n list) \<Rightarrow> bool" where
  "specs_ok [] H \<longleftrightarrow> True"
| "specs_ok (x # xs) H \<longleftrightarrow> spec_ok x H \<and> specs_ok xs (spec_run x H)"

lemma insert_after_split: "x \<notin> set as \<Longrightarrow> insert_after x e (as @ x # bs) = as @ x # e # bs"
  by (induction as) auto

lemma insert_before_split: "x \<notin> set as \<Longrightarrow> insert_before x e (as @ x # bs) = as @ e # x # bs"
  by (induction as) auto

lemma insert_before_id: "x \<notin> set xs \<Longrightarrow> insert_before x e xs = xs"
  by (induction xs) auto

lemma remove1_split: "x \<notin> set as \<Longrightarrow> remove1 x (as @ x # bs) = as @ bs"
  by (induction as) auto

lemma run_ops_refine:
  assumes step: "\<And>x q H. rep q H \<Longrightarrow> ok x \<Longrightarrow> spec_ok x H \<Longrightarrow> \<exists>q'. f x q = Some q' \<and> rep q' (spec_run x H)"
    and "rep q H" "list_all ok xs" "specs_ok xs H"
  shows "\<exists>q'. run_ops f xs q = Some q' \<and> rep q' (fold spec_run xs H)"
  using assms(2-)
proof (induction xs arbitrary: q H)
  case Nil
  then show ?case by simp
next
  case (Cons x xs)
  from step[OF Cons.prems(1)] Cons.prems(2,3) obtain q1 where q1: "f x q = Some q1" "rep q1 (spec_run x H)" by auto
  from Cons.IH[OF q1(2)] Cons.prems(2,3) q1(1) show ?case by simp
qed

lemma tailq_run_refines:
  assumes t: "tlinked q H" and ok: "spec_ok x H"
  shows "\<exists>q'. tailq_run x q = Some q' \<and> tlinked q' (spec_run x H)"
proof -
  note l = tlinkedD(1)[OF t]
  have split: "\<exists>as bs. H h = as @ y # bs \<and> y \<notin> set as" if "y \<in> set (H h)" for h y
    using that by (meson split_list_first)
  show ?thesis
  proof (cases x)
    case (Init h)
    then show ?thesis using TAILQ_INIT_tlinked[OF t] by simp
  next
    case (Insert_head h e)
    then show ?thesis using TAILQ_INSERT_HEAD_tlinked[OF t] ok by simp
  next
    case (Insert_tail h e)
    then show ?thesis using TAILQ_INSERT_TAIL_tlinked[OF t] ok by simp
  next
    case (Insert_after h y e)
    then have "y \<in> set (H h)" using ok by simp
    then obtain as bs where s: "H h = as @ y # bs" "y \<notin> set as" using split by blast
    show ?thesis using TAILQ_INSERT_AFTER_tlinked[OF t _ s(1), of e] ok Insert_after s
      by (simp add: insert_after_split)
  next
    case (Insert_before y e)
    then obtain h where "y \<in> set (H h)" using ok by (auto simp: members_iff)
    then obtain as bs where s: "H h = as @ y # bs" "y \<notin> set as" using split by blast
    have "insert_before y e (H h') = H h'" if "h' \<noteq> h" for h'
      using linked_disjoint[OF l that] s by (intro insert_before_id) auto
    then have "spec_run x H = H(h := as @ e # y # bs)" using Insert_before s by (auto simp: insert_before_split)
    then show ?thesis using TAILQ_INSERT_BEFORE_tlinked[OF t _ s(1), of e] ok Insert_before by simp
  next
    case (Remove h y)
    then have "y \<in> set (H h)" using ok by simp
    then obtain as bs where s: "H h = as @ y # bs" "y \<notin> set as" using split by blast
    show ?thesis using TAILQ_REMOVE_tlinked[OF t s(1)] Remove s by (simp add: remove1_split)
  next
    case (Concat h1 h2)
    then show ?thesis using TAILQ_CONCAT_tlinked[OF t] ok by simp
  qed
qed

section \<open>Loops\<close>

text \<open>The loops over a queue: \<open>nxt\<close> reads the next element from the state, before the body in the safe variants and
  after it in the others.\<close>

partial_function (option) foreach ::
  "('n \<Rightarrow> 's \<Rightarrow> 'n option option) \<Rightarrow> ('n \<Rightarrow> 's \<Rightarrow> 's option) \<Rightarrow> 'n option \<Rightarrow> 's \<Rightarrow> 's option" where
  "foreach nxt body v s =
     (case v of None \<Rightarrow> Some s
      | Some e \<Rightarrow> do { s1 \<leftarrow> body e s; v1 \<leftarrow> nxt e s1; foreach nxt body v1 s1 })"

partial_function (option) foreach_safe ::
  "('n \<Rightarrow> 's \<Rightarrow> 'n option option) \<Rightarrow> ('n \<Rightarrow> 's \<Rightarrow> 's option) \<Rightarrow> 'n option \<Rightarrow> 's \<Rightarrow> 's option" where
  "foreach_safe nxt body v s =
     (case v of None \<Rightarrow> Some s
      | Some e \<Rightarrow> do { t \<leftarrow> nxt e s; s1 \<leftarrow> body e s; foreach_safe nxt body t s1 })"

text \<open>The states of the loops are pairs of the store and whatever else the body changes.\<close>

definition TAILQ_FOREACH ::
  "'h \<Rightarrow> ('n \<Rightarrow> ('h, 'n) tailq_store \<times> 'a \<Rightarrow> (('h, 'n) tailq_store \<times> 'a) option) \<Rightarrow>
   ('h, 'n) tailq_store \<times> 'a \<Rightarrow> (('h, 'n) tailq_store \<times> 'a) option" where
  "TAILQ_FOREACH h body s = foreach (\<lambda>e s. Some (TAILQ_NEXT e (fst s))) body (TAILQ_FIRST h (fst s)) s"

definition TAILQ_FOREACH_SAFE ::
  "'h \<Rightarrow> ('n \<Rightarrow> ('h, 'n) tailq_store \<times> 'a \<Rightarrow> (('h, 'n) tailq_store \<times> 'a) option) \<Rightarrow>
   ('h, 'n) tailq_store \<times> 'a \<Rightarrow> (('h, 'n) tailq_store \<times> 'a) option" where
  "TAILQ_FOREACH_SAFE h body s = foreach_safe (\<lambda>e s. Some (TAILQ_NEXT e (fst s))) body (TAILQ_FIRST h (fst s)) s"

definition TAILQ_FOREACH_REVERSE ::
  "'h \<Rightarrow> ('n \<Rightarrow> ('h, 'n) tailq_store \<times> 'a \<Rightarrow> (('h, 'n) tailq_store \<times> 'a) option) \<Rightarrow>
   ('h, 'n) tailq_store \<times> 'a \<Rightarrow> (('h, 'n) tailq_store \<times> 'a) option" where
  "TAILQ_FOREACH_REVERSE h body s = do {
     v \<leftarrow> TAILQ_LAST h (fst s);
     foreach (\<lambda>e s. TAILQ_PREV e (fst s)) body v s
   }"

definition TAILQ_FOREACH_REVERSE_SAFE ::
  "'h \<Rightarrow> ('n \<Rightarrow> ('h, 'n) tailq_store \<times> 'a \<Rightarrow> (('h, 'n) tailq_store \<times> 'a) option) \<Rightarrow>
   ('h, 'n) tailq_store \<times> 'a \<Rightarrow> (('h, 'n) tailq_store \<times> 'a) option" where
  "TAILQ_FOREACH_REVERSE_SAFE h body s = do {
     v \<leftarrow> TAILQ_LAST h (fst s);
     foreach_safe (\<lambda>e s. TAILQ_PREV e (fst s)) body v s
   }"

definition LIST_FOREACH ::
  "'h \<Rightarrow> ('n \<Rightarrow> ('h, 'n) list_store \<times> 'a \<Rightarrow> (('h, 'n) list_store \<times> 'a) option) \<Rightarrow>
   ('h, 'n) list_store \<times> 'a \<Rightarrow> (('h, 'n) list_store \<times> 'a) option" where
  "LIST_FOREACH h body s = foreach (\<lambda>e s. Some (LIST_NEXT e (fst s))) body (LIST_FIRST h (fst s)) s"

definition LIST_FOREACH_SAFE ::
  "'h \<Rightarrow> ('n \<Rightarrow> ('h, 'n) list_store \<times> 'a \<Rightarrow> (('h, 'n) list_store \<times> 'a) option) \<Rightarrow>
   ('h, 'n) list_store \<times> 'a \<Rightarrow> (('h, 'n) list_store \<times> 'a) option" where
  "LIST_FOREACH_SAFE h body s = foreach_safe (\<lambda>e s. Some (LIST_NEXT e (fst s))) body (LIST_FIRST h (fst s)) s"

text \<open>A loop whose body keeps the store runs over the elements in the order of \<open>path\<close>.\<close>

primrec path :: "('n \<Rightarrow> 'n option option) \<Rightarrow> 'n option \<Rightarrow> 'n list \<Rightarrow> bool" where
  "path nx v [] \<longleftrightarrow> v = None"
| "path nx v (x # xs) \<longleftrightarrow> v = Some x \<and> (\<exists>w. nx x = Some w \<and> path nx w xs)"

lemma foreach_path:
  assumes "path nx v xs" "\<And>e a. nxt e (q, a) = nx e"
  shows "foreach nxt (\<lambda>e (q, a). map_option (Pair q) (f e a)) v (q, a) = map_option (Pair q) (run_ops f xs a)"
    "foreach_safe nxt (\<lambda>e (q, a). map_option (Pair q) (f e a)) v (q, a) = map_option (Pair q) (run_ops f xs a)"
  using assms(1)
proof (induction xs arbitrary: v a)
  case Nil
  { case 1 then show ?case by (subst foreach.simps) simp }
  { case 2 then show ?case by (subst foreach_safe.simps) simp }
next
  case (Cons x xs)
  { case 1
    then obtain w where w: "v = Some x" "nx x = Some w" "path nx w xs" by auto
    show ?case
    proof (cases "f x a")
      case None
      then show ?thesis using w by (subst foreach.simps) simp
    next
      case (Some a1)
      then show ?thesis using w assms(2) Cons.IH(1)[OF w(3), of a1] by (subst foreach.simps) simp
    qed }
  { case 2
    then obtain w where w: "v = Some x" "nx x = Some w" "path nx w xs" by auto
    show ?case
    proof (cases "f x a")
      case None
      then show ?thesis using w assms(2) by (subst foreach_safe.simps) simp
    next
      case (Some a1)
      then show ?thesis using w assms(2) Cons.IH(2)[OF w(3), of a1] by (subst foreach_safe.simps) simp
    qed }
qed

lemma chain_path: "chain q l xs \<Longrightarrow> path (\<lambda>e. Some (le_next q e)) (cell_read q l) xs"
  by (induction xs arbitrary: l) (auto, metis cell_read.simps(2))

lemma tailq_path: "tlinked q H \<Longrightarrow> path (\<lambda>e. Some (TAILQ_NEXT e q)) (TAILQ_FIRST h q) (H h)"
  using chain_path[OF linked_chain[OF tlinkedD(1)], of q H h] by (simp add: TAILQ_FIRST_def TAILQ_NEXT_def[abs_def] as_list_def)

lemma tailq_path_back:
  assumes "tlinked q H"
  shows "H h = as @ bs \<Longrightarrow> path (\<lambda>e. TAILQ_PREV e q) (if as = [] then None else Some (last as)) (rev as)"
proof (induction as arbitrary: bs rule: rev_induct)
  case Nil
  then show ?case by simp
next
  case (snoc x as)
  then show ?case using TAILQ_PREV_tlinked[OF assms, of h as x bs] snoc.IH[of "x # bs"] by simp
qed

text \<open>A safe loop may remove the element it is at.\<close>

lemma tailq_remove_loop:
  assumes "tlinked q H" "H h = as @ bs"
  shows "\<exists>q'. foreach_safe (\<lambda>e s. Some (TAILQ_NEXT e (fst s)))
      (\<lambda>e (q, u). if P e then map_option (\<lambda>q'. (q', u)) (TAILQ_REMOVE h e q) else Some (q, u))
      (case bs of [] \<Rightarrow> None | b # _ \<Rightarrow> Some b) (q, u) = Some (q', u) \<and>
    tlinked q' (H(h := as @ filter (\<lambda>e. \<not> P e) bs))"
  using assms
proof (induction bs arbitrary: as q H)
  case Nil
  then have "H(h := as @ filter (\<lambda>e. \<not> P e) []) = H" by auto
  then show ?case using Nil by (subst foreach_safe.simps) simp
next
  case (Cons b bs)
  have nx: "TAILQ_NEXT b q = (case bs of [] \<Rightarrow> None | c # _ \<Rightarrow> Some c)"
    using next_linked[OF tlinkedD(1)[OF Cons.prems(1)] Cons.prems(2)] by (simp add: TAILQ_NEXT_def as_list_def)
  show ?case
  proof (cases "P b")
    case True
    obtain q1 where q1: "TAILQ_REMOVE h b q = Some q1" "tlinked q1 (H(h := as @ bs))"
      using TAILQ_REMOVE_tlinked[OF Cons.prems] by blast
    have same: "(H(h := as @ bs)) h = as @ bs" by simp
    note ih = Cons.IH[OF q1(2) same, unfolded fun_upd_upd]
    have "filter (\<lambda>e. \<not> P e) (b # bs) = filter (\<lambda>e. \<not> P e) bs" using True by simp
    then show ?thesis using ih q1(1) True nx by (subst foreach_safe.simps) (simp del: fun_upd_apply filter.simps)
  next
    case False
    have split: "H h = (as @ [b]) @ bs" using Cons.prems(2) by simp
    note ih = Cons.IH[OF Cons.prems(1) split]
    have "filter (\<lambda>e. \<not> P e) (b # bs) = b # filter (\<lambda>e. \<not> P e) bs" using False by simp
    then show ?thesis using ih False nx by (subst foreach_safe.simps) (simp del: fun_upd_apply filter.simps)
  qed
qed

lemma TAILQ_FOREACH_SAFE_removes:
  assumes "tlinked q H"
  shows "\<exists>q'. TAILQ_FOREACH_SAFE h
      (\<lambda>e (q, u). if P e then map_option (\<lambda>q'. (q', u)) (TAILQ_REMOVE h e q) else Some (q, u)) (q, u) = Some (q', u) \<and>
    tlinked q' (H(h := filter (\<lambda>e. \<not> P e) (H h)))"
  using tailq_remove_loop[OF assms, of h "[]" "H h" P u] TAILQ_FIRST_tlinked[OF assms, of h]
  by (simp add: TAILQ_FOREACH_SAFE_def)

section \<open>Singly linked lists: the rest\<close>

definition SLIST_INSERT_AFTER :: "'n \<Rightarrow> 'n \<Rightarrow> ('h, 'n) slist_store \<Rightarrow> ('h, 'n) slist_store" where
  "SLIST_INSERT_AFTER x e q =
     (let q1 = q\<lparr>sle_next := (sle_next q)(e := SLIST_NEXT x q)\<rparr>
      in q1\<lparr>sle_next := (sle_next q1)(x := Some e)\<rparr>)"

definition SLIST_REMOVE_AFTER :: "'n \<Rightarrow> ('h, 'n) slist_store \<Rightarrow> ('h, 'n) slist_store option" where
  "SLIST_REMOVE_AFTER e q = do {
     n \<leftarrow> SLIST_NEXT e q;
     Some (q\<lparr>sle_next := (sle_next q)(e := SLIST_NEXT n q)\<rparr>)
   }"

text \<open>The search for the predecessor; at the end of the list it reads through a null pointer.\<close>

partial_function (option) find_before :: "('n \<Rightarrow> 'n option) \<Rightarrow> 'n \<Rightarrow> 'n option \<Rightarrow> 'n option" where
  "find_before nx e cur =
     (case cur of None \<Rightarrow> None
      | Some c \<Rightarrow> if nx c \<noteq> Some e then find_before nx e (nx c) else Some c)"

definition SLIST_REMOVE :: "'h \<Rightarrow> 'n \<Rightarrow> ('h, 'n) slist_store \<Rightarrow> ('h, 'n) slist_store option" where
  "SLIST_REMOVE h e q =
     (if SLIST_FIRST h q = Some e then SLIST_REMOVE_HEAD h q
      else do {
        cur \<leftarrow> find_before (\<lambda>c. SLIST_NEXT c q) e (SLIST_FIRST h q);
        SLIST_REMOVE_AFTER cur q
      })"

definition SLIST_FOREACH ::
  "'h \<Rightarrow> ('n \<Rightarrow> ('h, 'n) slist_store \<times> 'a \<Rightarrow> (('h, 'n) slist_store \<times> 'a) option) \<Rightarrow>
   ('h, 'n) slist_store \<times> 'a \<Rightarrow> (('h, 'n) slist_store \<times> 'a) option" where
  "SLIST_FOREACH h body s = foreach (\<lambda>e s. Some (SLIST_NEXT e (fst s))) body (SLIST_FIRST h (fst s)) s"

definition SLIST_FOREACH_SAFE ::
  "'h \<Rightarrow> ('n \<Rightarrow> ('h, 'n) slist_store \<times> 'a \<Rightarrow> (('h, 'n) slist_store \<times> 'a) option) \<Rightarrow>
   ('h, 'n) slist_store \<times> 'a \<Rightarrow> (('h, 'n) slist_store \<times> 'a) option" where
  "SLIST_FOREACH_SAFE h body s = foreach_safe (\<lambda>e s. Some (SLIST_NEXT e (fst s))) body (SLIST_FIRST h (fst s)) s"

lemma schain_cong: "(\<And>x. x \<in> set xs \<Longrightarrow> nx' x = nx x) \<Longrightarrow> schain nx' p xs = schain nx p xs"
  by (induction xs arbitrary: p) auto

lemma schain_insert:
  assumes "schain nx p (as @ x # bs)" "distinct (as @ x # bs)" "e \<notin> set (as @ x # bs)"
  shows "schain (nx(e := nx x, x := Some e)) p (as @ x # e # bs)"
  using assms by (induction as arbitrary: p) auto

lemma schain_remove:
  assumes "schain nx p (as @ x # y # bs)" "distinct (as @ x # y # bs)"
  shows "nx x = Some y" "schain (nx(x := nx y)) p (as @ x # bs)"
  using assms by (induction as arbitrary: p) auto

lemma schain_next: "schain nx p (as @ x # bs) \<Longrightarrow> nx x = (case bs of [] \<Rightarrow> None | b # _ \<Rightarrow> Some b)"
  by (induction as arbitrary: p) (auto split: list.splits)

lemma schain_join:
  assumes "schain nx p (as @ [x])" "schain nx r (y # ys)" "distinct (as @ x # y # ys)"
  shows "schain (nx(x := Some y)) p (as @ x # y # ys)"
  using assms by (induction as arbitrary: p) auto

lemma slinked_updI:
  assumes "slinked q H" "schain (sle_next q') (slh_first q' h) xs" "distinct xs"
    and "\<And>h'. h' \<noteq> h \<Longrightarrow> set xs \<inter> set (H h') = {}" "\<And>h'. h' \<noteq> h \<Longrightarrow> slh_first q' h' = slh_first q h'"
    and "\<And>h' x. h' \<noteq> h \<Longrightarrow> x \<in> set (H h') \<Longrightarrow> sle_next q' x = sle_next q x"
  shows "slinked q' (H(h := xs))"
proof -
  have other: "schain (sle_next q') (slh_first q' h') (H h')" if "h' \<noteq> h" for h'
  proof -
    have "schain (sle_next q') (slh_first q h') (H h') = schain (sle_next q) (slh_first q h') (H h')"
      using assms(6)[OF that] by (rule schain_cong)
    then show ?thesis using slinkedD(1)[OF assms(1)] assms(5)[OF that] by simp
  qed
  have unique: "h1 = h2" if "x \<in> set ((H(h := xs)) h1)" "x \<in> set ((H(h := xs)) h2)" for h1 h2 x
  proof -
    have own: "h' = h" if "x \<in> set xs" "x \<in> set ((H(h := xs)) h')" for h'
      using that assms(4)[of h'] by (cases "h' = h") (simp, simp add: disjoint_iff)
    show ?thesis
    proof (cases "x \<in> set xs")
      case True
      then show ?thesis using own[OF True that(1)] own[OF True that(2)] by simp
    next
      case False
      then have "x \<in> set (H h1)" "x \<in> set (H h2)" using that by (simp_all split: if_splits)
      then show ?thesis by (rule slinkedD(3)[OF assms(1)])
    qed
  qed
  show ?thesis
    unfolding slinked_def
  proof (intro conjI allI impI)
    show "schain (sle_next q') (slh_first q' h') ((H(h := xs)) h')" for h'
      using assms(2) other[of h'] by (cases "h' = h") simp_all
    show "distinct ((H(h := xs)) h')" for h'
      using assms(3) slinkedD(2)[OF assms(1), of h'] by simp
    show "h1 = h2" if "x \<in> set ((H(h := xs)) h1)" "x \<in> set ((H(h := xs)) h2)" for h1 h2 x
      using that by (rule unique)
  qed
qed

lemma slinked_disjoint: "slinked q H \<Longrightarrow> h \<noteq> h' \<Longrightarrow> set (H h) \<inter> set (H h') = {}"
  using slinkedD(3)[of q H] by blast

lemma SLIST_INSERT_AFTER_slinked [list_laws]:
  assumes q: "slinked q H" and e: "e \<notin> members H" and h: "H h = as @ x # bs"
  shows "slinked (SLIST_INSERT_AFTER x e q) (H(h := as @ x # e # bs))"
proof (rule slinked_updI[OF q])
  have f: "e \<notin> set (H h')" for h' using e by (simp add: members_iff)
  have d: "distinct (as @ x # bs)" using slinkedD(2)[OF q, of h] h by simp
  have dj: "h' \<noteq> h \<Longrightarrow> set (as @ x # bs) \<inter> set (H h') = {}" for h' using slinked_disjoint[OF q, of h h'] h by auto
  have s: "sle_next (SLIST_INSERT_AFTER x e q) = (sle_next q)(e := sle_next q x, x := Some e)"
    "slh_first (SLIST_INSERT_AFTER x e q) = slh_first q"
    by (simp_all add: SLIST_INSERT_AFTER_def SLIST_NEXT_def Let_def)
  show "schain (sle_next (SLIST_INSERT_AFTER x e q)) (slh_first (SLIST_INSERT_AFTER x e q) h) (as @ x # e # bs)"
    unfolding s using schain_insert[of "sle_next q" _ as x bs e] slinkedD(1)[OF q, of h] d f[of h] h by simp
  show "distinct (as @ x # e # bs)" using d f[of h] h by auto
  show "h' \<noteq> h \<Longrightarrow> set (as @ x # e # bs) \<inter> set (H h') = {}" for h' using dj[of h'] f[of h'] by auto
  show "h' \<noteq> h \<Longrightarrow> y \<in> set (H h') \<Longrightarrow> sle_next (SLIST_INSERT_AFTER x e q) y = sle_next q y" for h' y
    unfolding s using dj[of h'] f[of h'] by auto
qed (simp add: SLIST_INSERT_AFTER_def Let_def)

lemma SLIST_REMOVE_AFTER_slinked [list_laws]:
  assumes q: "slinked q H" and h: "H h = as @ x # y # bs"
  shows "\<exists>q'. SLIST_REMOVE_AFTER x q = Some q' \<and> slinked q' (H(h := as @ x # bs))"
proof -
  let ?q' = "q\<lparr>sle_next := (sle_next q)(x := sle_next q y)\<rparr>"
  have d: "distinct (as @ x # y # bs)" using slinkedD(2)[OF q, of h] h by simp
  have dj: "h' \<noteq> h \<Longrightarrow> set (as @ x # y # bs) \<inter> set (H h') = {}" for h' using slinked_disjoint[OF q, of h h'] h by auto
  note rm = schain_remove[of "sle_next q" "slh_first q h" as x y bs]
  have "SLIST_REMOVE_AFTER x q = Some ?q'" using rm(1) slinkedD(1)[OF q, of h] h d
    by (simp add: SLIST_REMOVE_AFTER_def SLIST_NEXT_def)
  moreover have "slinked ?q' (H(h := as @ x # bs))"
  proof (rule slinked_updI[OF q])
    show "schain (sle_next ?q') (slh_first ?q' h) (as @ x # bs)" using rm(2) slinkedD(1)[OF q, of h] h d by simp
    show "h' \<noteq> h \<Longrightarrow> set (as @ x # bs) \<inter> set (H h') = {}" for h' using dj[of h'] by auto
    show "h' \<noteq> h \<Longrightarrow> z \<in> set (H h') \<Longrightarrow> sle_next ?q' z = sle_next q z" for h' z using dj[of h'] by auto
  qed (use d in auto)
  ultimately show ?thesis by blast
qed

lemma find_before_schain:
  assumes "schain nx p (as @ x # y # bs)" "distinct (as @ x # y # bs)"
  shows "find_before nx y p = Some x"
  using assms
proof (induction as arbitrary: p)
  case Nil
  then show ?case by (subst find_before.simps) simp
next
  case (Cons a as)
  then have "nx a \<noteq> Some y" by (cases as) auto
  with Cons show ?case by (subst find_before.simps) simp
qed

lemma SLIST_REMOVE_slinked [list_laws]:
  assumes q: "slinked q H" and h: "H h = as @ y # bs"
  shows "\<exists>q'. SLIST_REMOVE h y q = Some q' \<and> slinked q' (H(h := as @ bs))"
proof (cases as rule: rev_cases)
  case Nil
  then show ?thesis using SLIST_REMOVE_HEAD_slinked[OF q, of h y bs] SLIST_FIRST_slinked[OF q, of h] h
    by (simp add: SLIST_REMOVE_def)
next
  case (snoc as' x)
  have d: "distinct (as' @ x # y # bs)" using slinkedD(2)[OF q, of h] h snoc by simp
  have "find_before (sle_next q) y (slh_first q h) = Some x"
    using find_before_schain[of "sle_next q" "slh_first q h" as' x y bs] slinkedD(1)[OF q, of h] d h snoc by simp
  moreover have "SLIST_FIRST h q \<noteq> Some y" using SLIST_FIRST_slinked[OF q, of h] d h snoc by (cases as') auto
  ultimately show ?thesis using SLIST_REMOVE_AFTER_slinked[OF q, of h as' x y bs] h snoc
    by (simp add: SLIST_REMOVE_def SLIST_NEXT_def[abs_def] SLIST_FIRST_def)
qed

section \<open>Singly linked tail queues\<close>

record ('h, 'n) stailq_store =
  stqh_first :: "'h \<Rightarrow> 'n option"
  stqh_last :: "'h \<Rightarrow> ('h, 'n) link option"
  stqe_next :: "'n \<Rightarrow> 'n option"

fun stq_write :: "('h, 'n) link \<Rightarrow> 'n option \<Rightarrow> ('h, 'n) stailq_store \<Rightarrow> ('h, 'n) stailq_store" where
  "stq_write (Head_cell h) v q = q\<lparr>stqh_first := (stqh_first q)(h := v)\<rparr>"
| "stq_write (Next_cell e) v q = q\<lparr>stqe_next := (stqe_next q)(e := v)\<rparr>"

definition STAILQ_EMPTY :: "'h \<Rightarrow> ('h, 'n) stailq_store \<Rightarrow> bool" where
  "STAILQ_EMPTY h q \<longleftrightarrow> stqh_first q h = None"

definition STAILQ_FIRST :: "'h \<Rightarrow> ('h, 'n) stailq_store \<Rightarrow> 'n option" where
  "STAILQ_FIRST h q = stqh_first q h"

definition STAILQ_NEXT :: "'n \<Rightarrow> ('h, 'n) stailq_store \<Rightarrow> 'n option" where
  "STAILQ_NEXT e q = stqe_next q e"

definition STAILQ_INIT :: "'h \<Rightarrow> ('h, 'n) stailq_store \<Rightarrow> ('h, 'n) stailq_store" where
  "STAILQ_INIT h q = (let q1 = q\<lparr>stqh_first := (stqh_first q)(h := None)\<rparr>
     in q1\<lparr>stqh_last := (stqh_last q1)(h := Some (Head_cell h))\<rparr>)"

text \<open>The element whose \<^verbatim>\<open>next\<close> cell is the last cell; the cell of a head is not in an element.\<close>

definition STAILQ_LAST :: "'h \<Rightarrow> ('h, 'n) stailq_store \<Rightarrow> 'n option option" where
  "STAILQ_LAST h q =
     (if STAILQ_EMPTY h q then Some None
      else case stqh_last q h of Some (Next_cell e) \<Rightarrow> Some (Some e) | _ \<Rightarrow> None)"

definition STAILQ_INSERT_HEAD :: "'h \<Rightarrow> 'n \<Rightarrow> ('h, 'n) stailq_store \<Rightarrow> ('h, 'n) stailq_store" where
  "STAILQ_INSERT_HEAD h e q =
     (let q1 = q\<lparr>stqe_next := (stqe_next q)(e := STAILQ_FIRST h q)\<rparr>;
          q2 = (if STAILQ_NEXT e q1 = None then q1\<lparr>stqh_last := (stqh_last q1)(h := Some (Next_cell e))\<rparr> else q1)
      in q2\<lparr>stqh_first := (stqh_first q2)(h := Some e)\<rparr>)"

definition STAILQ_INSERT_TAIL :: "'h \<Rightarrow> 'n \<Rightarrow> ('h, 'n) stailq_store \<Rightarrow> ('h, 'n) stailq_store option" where
  "STAILQ_INSERT_TAIL h e q = do {
     let q1 = q\<lparr>stqe_next := (stqe_next q)(e := None)\<rparr>;
     l \<leftarrow> stqh_last q1 h;
     let q2 = stq_write l (Some e) q1;
     Some (q2\<lparr>stqh_last := (stqh_last q2)(h := Some (Next_cell e))\<rparr>)
   }"

definition STAILQ_INSERT_AFTER :: "'h \<Rightarrow> 'n \<Rightarrow> 'n \<Rightarrow> ('h, 'n) stailq_store \<Rightarrow> ('h, 'n) stailq_store" where
  "STAILQ_INSERT_AFTER h x e q =
     (let q1 = q\<lparr>stqe_next := (stqe_next q)(e := STAILQ_NEXT x q)\<rparr>;
          q2 = (if STAILQ_NEXT e q1 = None then q1\<lparr>stqh_last := (stqh_last q1)(h := Some (Next_cell e))\<rparr> else q1)
      in q2\<lparr>stqe_next := (stqe_next q2)(x := Some e)\<rparr>)"

definition STAILQ_REMOVE_HEAD :: "'h \<Rightarrow> ('h, 'n) stailq_store \<Rightarrow> ('h, 'n) stailq_store option" where
  "STAILQ_REMOVE_HEAD h q = do {
     f \<leftarrow> STAILQ_FIRST h q;
     let q1 = q\<lparr>stqh_first := (stqh_first q)(h := STAILQ_NEXT f q)\<rparr>;
     Some (if STAILQ_FIRST h q1 = None then q1\<lparr>stqh_last := (stqh_last q1)(h := Some (Head_cell h))\<rparr> else q1)
   }"

definition STAILQ_REMOVE_AFTER :: "'h \<Rightarrow> 'n \<Rightarrow> ('h, 'n) stailq_store \<Rightarrow> ('h, 'n) stailq_store option" where
  "STAILQ_REMOVE_AFTER h e q = do {
     n \<leftarrow> STAILQ_NEXT e q;
     let q1 = q\<lparr>stqe_next := (stqe_next q)(e := STAILQ_NEXT n q)\<rparr>;
     Some (if STAILQ_NEXT e q1 = None then q1\<lparr>stqh_last := (stqh_last q1)(h := Some (Next_cell e))\<rparr> else q1)
   }"

definition STAILQ_REMOVE :: "'h \<Rightarrow> 'n \<Rightarrow> ('h, 'n) stailq_store \<Rightarrow> ('h, 'n) stailq_store option" where
  "STAILQ_REMOVE h e q =
     (if STAILQ_FIRST h q = Some e then STAILQ_REMOVE_HEAD h q
      else do {
        cur \<leftarrow> find_before (\<lambda>c. STAILQ_NEXT c q) e (STAILQ_FIRST h q);
        STAILQ_REMOVE_AFTER h cur q
      })"

definition STAILQ_CONCAT :: "'h \<Rightarrow> 'h \<Rightarrow> ('h, 'n) stailq_store \<Rightarrow> ('h, 'n) stailq_store option" where
  "STAILQ_CONCAT h1 h2 q =
     (if \<not> STAILQ_EMPTY h2 q then do {
        l \<leftarrow> stqh_last q h1;
        let q1 = stq_write l (stqh_first q h2) q;
        let q2 = q1\<lparr>stqh_last := (stqh_last q1)(h1 := stqh_last q1 h2)\<rparr>;
        Some (STAILQ_INIT h2 q2)
      }
      else Some q)"

definition STAILQ_FOREACH ::
  "'h \<Rightarrow> ('n \<Rightarrow> ('h, 'n) stailq_store \<times> 'a \<Rightarrow> (('h, 'n) stailq_store \<times> 'a) option) \<Rightarrow>
   ('h, 'n) stailq_store \<times> 'a \<Rightarrow> (('h, 'n) stailq_store \<times> 'a) option" where
  "STAILQ_FOREACH h body s = foreach (\<lambda>e s. Some (STAILQ_NEXT e (fst s))) body (STAILQ_FIRST h (fst s)) s"

definition STAILQ_FOREACH_SAFE ::
  "'h \<Rightarrow> ('n \<Rightarrow> ('h, 'n) stailq_store \<times> 'a \<Rightarrow> (('h, 'n) stailq_store \<times> 'a) option) \<Rightarrow>
   ('h, 'n) stailq_store \<times> 'a \<Rightarrow> (('h, 'n) stailq_store \<times> 'a) option" where
  "STAILQ_FOREACH_SAFE h body s = foreach_safe (\<lambda>e s. Some (STAILQ_NEXT e (fst s))) body (STAILQ_FIRST h (fst s)) s"

definition as_slist :: "('h, 'n) stailq_store \<Rightarrow> ('h, 'n) slist_store" where
  "as_slist q = \<lparr>slh_first = stqh_first q, sle_next = stqe_next q\<rparr>"

definition stlinked :: "('h, 'n) stailq_store \<Rightarrow> ('h \<Rightarrow> 'n list) \<Rightarrow> bool" where
  "stlinked q H \<longleftrightarrow> slinked (as_slist q) H \<and> (\<forall>h. stqh_last q h = Some (lastlink (Head_cell h) (H h)))"

lemma stlinkedD:
  assumes "stlinked q H"
  shows "slinked (as_slist q) H" "stqh_last q h = Some (lastlink (Head_cell h) (H h))"
    "schain (stqe_next q) (stqh_first q h) (H h)"
  using assms slinkedD(1)[of "as_slist q" H h] by (auto simp: stlinked_def as_slist_def)

lemma STAILQ_FIRST_stlinked: "stlinked q H \<Longrightarrow> STAILQ_FIRST h q = (case H h of [] \<Rightarrow> None | x # _ \<Rightarrow> Some x)"
  using SLIST_FIRST_slinked[OF stlinkedD(1), of q H h] by (simp add: STAILQ_FIRST_def SLIST_FIRST_def as_slist_def)

lemma STAILQ_EMPTY_stlinked: "stlinked q H \<Longrightarrow> STAILQ_EMPTY h q \<longleftrightarrow> H h = []"
  using STAILQ_FIRST_stlinked[of q H h] by (auto simp: STAILQ_EMPTY_def STAILQ_FIRST_def split: list.splits)

lemma STAILQ_LAST_stlinked:
  assumes "stlinked q H"
  shows "STAILQ_LAST h q = Some (if H h = [] then None else Some (last (H h)))"
  using STAILQ_EMPTY_stlinked[OF assms, of h] stlinkedD(2)[OF assms, of h] by (simp add: STAILQ_LAST_def lastlink_def)

lemma STAILQ_INIT_stlinked:
  assumes "stlinked q H"
  shows "stlinked (STAILQ_INIT h q) (H(h := []))"
proof -
  have "as_slist (STAILQ_INIT h q) = SLIST_INIT h (as_slist q)"
    by (simp add: STAILQ_INIT_def SLIST_INIT_def as_slist_def)
  then show ?thesis using SLIST_INIT_slinked[OF stlinkedD(1)[OF assms], of h] stlinkedD(2)[OF assms]
    by (simp add: stlinked_def) (simp add: STAILQ_INIT_def)
qed

lemma STAILQ_INSERT_HEAD_stlinked:
  assumes "stlinked q H" "e \<notin> members H"
  shows "stlinked (STAILQ_INSERT_HEAD h e q) (H(h := e # H h))"
proof -
  have "as_slist (STAILQ_INSERT_HEAD h e q) = SLIST_INSERT_HEAD h e (as_slist q)"
    by (simp add: STAILQ_INSERT_HEAD_def SLIST_INSERT_HEAD_def as_slist_def STAILQ_FIRST_def SLIST_FIRST_def Let_def)
  moreover have "stqh_last (STAILQ_INSERT_HEAD h e q) = (if H h = [] then (stqh_last q)(h := Some (Next_cell e)) else stqh_last q)"
    using STAILQ_FIRST_stlinked[OF assms(1), of h]
    by (auto simp: STAILQ_INSERT_HEAD_def STAILQ_NEXT_def Let_def split: list.splits)
  ultimately show ?thesis
    using SLIST_INSERT_HEAD_slinked[OF stlinkedD(1)[OF assms(1)] assms(2), of h] stlinkedD(2)[OF assms(1)]
    by (simp add: stlinked_def lastlink_def)
qed

lemma STAILQ_INSERT_AFTER_stlinked:
  assumes "stlinked q H" "e \<notin> members H" "H h = as @ x # bs"
  shows "stlinked (STAILQ_INSERT_AFTER h x e q) (H(h := as @ x # e # bs))"
proof -
  have "as_slist (STAILQ_INSERT_AFTER h x e q) = SLIST_INSERT_AFTER x e (as_slist q)"
    by (simp add: STAILQ_INSERT_AFTER_def SLIST_INSERT_AFTER_def as_slist_def STAILQ_NEXT_def SLIST_NEXT_def Let_def)
  moreover have "stqe_next q x = (case bs of [] \<Rightarrow> None | b # _ \<Rightarrow> Some b)"
    using schain_next[of "stqe_next q" _ as x bs] stlinkedD(3)[OF assms(1), of h] assms(3) by simp
  then have "stqh_last (STAILQ_INSERT_AFTER h x e q) = (if bs = [] then (stqh_last q)(h := Some (Next_cell e)) else stqh_last q)"
    by (auto simp: STAILQ_INSERT_AFTER_def STAILQ_NEXT_def Let_def split: list.splits)
  ultimately show ?thesis
    using SLIST_INSERT_AFTER_slinked[OF stlinkedD(1)[OF assms(1)] assms(2,3)] stlinkedD(2)[OF assms(1)] assms(3)
    by (auto simp: stlinked_def lastlink_def)
qed

text \<open>At the end of a queue the last cell is that of the head or of the last element.\<close>

lemma STAILQ_INSERT_TAIL_stlinked:
  assumes "stlinked q H" "e \<notin> members H"
  shows "\<exists>q'. STAILQ_INSERT_TAIL h e q = Some q' \<and> stlinked q' (H(h := H h @ [e]))"
proof (cases "H h" rule: rev_cases)
  case Nil
  then have f: "stqh_first q h = None" using stlinkedD(3)[OF assms(1), of h] by simp
  have "STAILQ_INSERT_TAIL h e q = Some (STAILQ_INSERT_HEAD h e q)"
    using stlinkedD(2)[OF assms(1), of h] Nil f
    by (simp add: STAILQ_INSERT_TAIL_def STAILQ_INSERT_HEAD_def STAILQ_FIRST_def STAILQ_NEXT_def Let_def)
  then show ?thesis using STAILQ_INSERT_HEAD_stlinked[OF assms, of h] Nil by simp
next
  case (snoc as x)
  then have n: "stqe_next q x = None" using schain_next[of "stqe_next q" _ as x "[]"] stlinkedD(3)[OF assms(1), of h] by simp
  have "x \<noteq> e" using fresh_neq[OF assms(2), of h as x "[]"] snoc by simp
  have "STAILQ_INSERT_TAIL h e q = Some (STAILQ_INSERT_AFTER h x e q)"
    using stlinkedD(2)[OF assms(1), of h] snoc n
    by (simp add: STAILQ_INSERT_TAIL_def STAILQ_INSERT_AFTER_def STAILQ_NEXT_def Let_def)
  then show ?thesis using STAILQ_INSERT_AFTER_stlinked[OF assms, of h as x "[]"] snoc by simp
qed

lemma STAILQ_REMOVE_HEAD_stlinked:
  assumes "stlinked q H" "H h = x # xs"
  shows "\<exists>q'. STAILQ_REMOVE_HEAD h q = Some q' \<and> stlinked q' (H(h := xs))"
proof -
  obtain p where p: "SLIST_REMOVE_HEAD h (as_slist q) = Some p" "slinked p (H(h := xs))"
    using SLIST_REMOVE_HEAD_slinked[OF stlinkedD(1)[OF assms(1)] assms(2)] by blast
  have f: "stqh_first q h = Some x" "stqe_next q x = (case xs of [] \<Rightarrow> None | y # _ \<Rightarrow> Some y)"
    using stlinkedD(3)[OF assms(1), of h] assms(2) by (auto split: list.splits)
  let ?q1 = "q\<lparr>stqh_first := (stqh_first q)(h := stqe_next q x)\<rparr>"
  let ?q' = "if xs = [] then ?q1\<lparr>stqh_last := (stqh_last q)(h := Some (Head_cell h))\<rparr> else ?q1"
  have "STAILQ_REMOVE_HEAD h q = Some ?q'"
    using f by (auto simp: STAILQ_REMOVE_HEAD_def STAILQ_FIRST_def STAILQ_NEXT_def split: list.splits)
  moreover have "as_slist ?q' = p"
    using p(1) f by (auto simp: SLIST_REMOVE_HEAD_def SLIST_FIRST_def SLIST_NEXT_def as_slist_def)
  then have "stlinked ?q' (H(h := xs))" using p(2) stlinkedD(2)[OF assms(1)] assms(2) by (auto simp: stlinked_def lastlink_def)
  ultimately show ?thesis by blast
qed

lemma STAILQ_REMOVE_AFTER_stlinked:
  assumes "stlinked q H" "H h = as @ x # y # bs"
  shows "\<exists>q'. STAILQ_REMOVE_AFTER h x q = Some q' \<and> stlinked q' (H(h := as @ x # bs))"
proof -
  obtain p where p: "SLIST_REMOVE_AFTER x (as_slist q) = Some p" "slinked p (H(h := as @ x # bs))"
    using SLIST_REMOVE_AFTER_slinked[OF stlinkedD(1)[OF assms(1)] assms(2)] by blast
  have f: "stqe_next q x = Some y" "stqe_next q y = (case bs of [] \<Rightarrow> None | b # _ \<Rightarrow> Some b)"
    using schain_next[of "stqe_next q" _ as x "y # bs"] schain_next[of "stqe_next q" _ "as @ [x]" y bs]
      stlinkedD(3)[OF assms(1), of h] assms(2) by simp_all
  let ?q1 = "q\<lparr>stqe_next := (stqe_next q)(x := stqe_next q y)\<rparr>"
  let ?q' = "if bs = [] then ?q1\<lparr>stqh_last := (stqh_last q)(h := Some (Next_cell x))\<rparr> else ?q1"
  have "STAILQ_REMOVE_AFTER h x q = Some ?q'"
    using f by (auto simp: STAILQ_REMOVE_AFTER_def STAILQ_NEXT_def split: list.splits)
  moreover have "as_slist ?q' = p"
    using p(1) f by (auto simp: SLIST_REMOVE_AFTER_def SLIST_NEXT_def as_slist_def)
  then have "stlinked ?q' (H(h := as @ x # bs))" using p(2) stlinkedD(2)[OF assms(1)] assms(2)
    by (auto simp: stlinked_def lastlink_def)
  ultimately show ?thesis by blast
qed

lemma STAILQ_REMOVE_stlinked:
  assumes "stlinked q H" "H h = as @ y # bs"
  shows "\<exists>q'. STAILQ_REMOVE h y q = Some q' \<and> stlinked q' (H(h := as @ bs))"
proof (cases as rule: rev_cases)
  case Nil
  then show ?thesis using STAILQ_REMOVE_HEAD_stlinked[OF assms(1), of h y bs] STAILQ_FIRST_stlinked[OF assms(1), of h] assms(2)
    by (simp add: STAILQ_REMOVE_def)
next
  case (snoc as' x)
  have d: "distinct (as' @ x # y # bs)" using slinkedD(2)[OF stlinkedD(1)[OF assms(1)], of h] assms(2) snoc by simp
  have "find_before (stqe_next q) y (stqh_first q h) = Some x"
    using find_before_schain[of "stqe_next q" "stqh_first q h" as' x y bs] stlinkedD(3)[OF assms(1), of h] d assms(2) snoc by simp
  moreover have "STAILQ_FIRST h q \<noteq> Some y" using STAILQ_FIRST_stlinked[OF assms(1), of h] d assms(2) snoc by (cases as') auto
  ultimately show ?thesis using STAILQ_REMOVE_AFTER_stlinked[OF assms(1), of h as' x y bs] assms(2) snoc
    by (simp add: STAILQ_REMOVE_def STAILQ_NEXT_def[abs_def] STAILQ_FIRST_def)
qed

lemma STAILQ_CONCAT_stlinked:
  assumes "stlinked q H" "h1 \<noteq> h2"
  shows "\<exists>q'. STAILQ_CONCAT h1 h2 q = Some q' \<and> stlinked q' (H(h1 := H h1 @ H h2, h2 := []))"
proof (cases "H h2")
  case Nil
  then have "H(h1 := H h1 @ H h2, h2 := []) = H" by (auto simp: fun_eq_iff)
  moreover have "STAILQ_CONCAT h1 h2 q = Some q" using STAILQ_EMPTY_stlinked[OF assms(1)] Nil by (simp add: STAILQ_CONCAT_def)
  ultimately show ?thesis using assms(1) by simp
next
  case (Cons y ys)
  note s = stlinkedD(1)[OF assms(1)] and la = stlinkedD(2)[OF assms(1)] and sc = stlinkedD(3)[OF assms(1)]
  let ?l = "lastlink (Head_cell h1) (H h1)"
  let ?q1 = "stq_write ?l (Some y) q"
  let ?q2 = "?q1\<lparr>stqh_last := (stqh_last q)(h1 := stqh_last q h2)\<rparr>"
  let ?q' = "STAILQ_INIT h2 ?q2"
  have f: "stqh_first q h2 = Some y" using sc[of h2] Cons by simp
  have w: "stqh_last ?q1 = stqh_last q" by (cases ?l) simp_all
  have run: "STAILQ_CONCAT h1 h2 q = Some ?q'"
    using STAILQ_EMPTY_stlinked[OF assms(1), of h2] Cons la f w by (simp add: STAILQ_CONCAT_def)
  have d: "distinct (H h1 @ y # ys)"
    using slinkedD(2)[OF s, of h1] slinkedD(2)[OF s, of h2] slinked_disjoint[OF s assms(2)] Cons by auto
  let ?s1 = "as_slist ?q1"
  have "slinked (SLIST_INIT h2 (as_slist q)) (H(h2 := []))" by (rule SLIST_INIT_slinked[OF s])
  then have "slinked (as_slist ?q') ((H(h2 := []))(h1 := H h1 @ y # ys))"
  proof (rule slinked_updI)
    have q': "stqh_first ?q' = (stqh_first ?q1)(h2 := None)" "stqe_next ?q' = stqe_next ?q1"
      by (simp_all add: STAILQ_INIT_def Let_def)
    have "schain (stqe_next ?q1) (stqh_first ?q1 h1) (H h1 @ y # ys)"
    proof (cases "H h1" rule: rev_cases)
      case Nil
      then show ?thesis using sc[of h2] Cons by simp
    next
      case (snoc as x)
      then show ?thesis using schain_join[of "stqe_next q" "stqh_first q h1" as x "stqh_first q h2" y ys] sc[of h1] sc[of h2] Cons d
        by simp
    qed
    then show "schain (sle_next (as_slist ?q')) (slh_first (as_slist ?q') h1) (H h1 @ y # ys)"
      using q' assms(2) by (simp add: as_slist_def)
    show "distinct (H h1 @ y # ys)" by (rule d)
    show "set (H h1 @ y # ys) \<inter> set ((H(h2 := [])) h') = {}" if "h' \<noteq> h1" for h'
      using slinked_disjoint[OF s that] slinked_disjoint[OF s, of h' h2] Cons by (cases "h' = h2") auto
    show "slh_first (as_slist ?q') h' = slh_first (SLIST_INIT h2 (as_slist q)) h'" if "h' \<noteq> h1" for h'
      using that q'(1) by (cases "H h1 = []") (auto simp: as_slist_def SLIST_INIT_def lastlink_def)
    show "sle_next (as_slist ?q') x = sle_next (SLIST_INIT h2 (as_slist q)) x" if "h' \<noteq> h1" "x \<in> set ((H(h2 := [])) h')" for h' x
    proof -
      have "x \<notin> set (H h1)" using that slinked_disjoint[OF s that(1)] by (auto split: if_splits)
      then show ?thesis using q'(2) by (cases "H h1 = []") (auto simp: as_slist_def SLIST_INIT_def lastlink_def)
    qed
  qed
  moreover have "(H(h2 := []))(h1 := H h1 @ y # ys) = H(h1 := H h1 @ H h2, h2 := [])" using assms(2) Cons by (auto simp: fun_eq_iff)
  moreover have "stqh_last ?q' = (stqh_last q)(h1 := stqh_last q h2, h2 := Some (Head_cell h2))"
    by (simp add: STAILQ_INIT_def Let_def)
  ultimately have "stlinked ?q' (H(h1 := H h1 @ H h2, h2 := []))"
    using la Cons assms(2) by (auto simp: stlinked_def)
  then show ?thesis using run by blast
qed

text \<open>Singly linked tail queues have every operation but the insertion before an element.\<close>

fun stailq_run :: "('h, 'n) queue_op \<Rightarrow> ('h, 'n) stailq_store \<Rightarrow> ('h, 'n) stailq_store option" where
  "stailq_run (Init h) q = Some (STAILQ_INIT h q)"
| "stailq_run (Insert_head h e) q = Some (STAILQ_INSERT_HEAD h e q)"
| "stailq_run (Insert_tail h e) q = STAILQ_INSERT_TAIL h e q"
| "stailq_run (Insert_after h x e) q = Some (STAILQ_INSERT_AFTER h x e q)"
| "stailq_run (Insert_before x e) q = None"
| "stailq_run (Remove h x) q = STAILQ_REMOVE h x q"
| "stailq_run (Concat h1 h2) q = STAILQ_CONCAT h1 h2 q"

fun forward_op :: "('h, 'n) queue_op \<Rightarrow> bool" where
  "forward_op (Insert_before x e) \<longleftrightarrow> False"
| "forward_op _ \<longleftrightarrow> True"

lemma stailq_run_refines:
  assumes t: "stlinked q H" and f: "forward_op x" and ok: "spec_ok x H"
  shows "\<exists>q'. stailq_run x q = Some q' \<and> stlinked q' (spec_run x H)"
proof -
  have split: "\<exists>as bs. H h = as @ y # bs \<and> y \<notin> set as" if "y \<in> set (H h)" for h y
    using that by (meson split_list_first)
  show ?thesis
  proof (cases x)
    case (Init h)
    then show ?thesis using STAILQ_INIT_stlinked[OF t] by simp
  next
    case (Insert_head h e)
    then show ?thesis using STAILQ_INSERT_HEAD_stlinked[OF t] ok by simp
  next
    case (Insert_tail h e)
    then show ?thesis using STAILQ_INSERT_TAIL_stlinked[OF t] ok by simp
  next
    case (Insert_after h y e)
    then have "y \<in> set (H h)" using ok by simp
    then obtain as bs where s: "H h = as @ y # bs" "y \<notin> set as" using split by blast
    show ?thesis using STAILQ_INSERT_AFTER_stlinked[OF t _ s(1), of e] ok Insert_after s
      by (simp add: insert_after_split)
  next
    case (Insert_before y e)
    then show ?thesis using f by simp
  next
    case (Remove h y)
    then have "y \<in> set (H h)" using ok by simp
    then obtain as bs where s: "H h = as @ y # bs" "y \<notin> set as" using split by blast
    show ?thesis using STAILQ_REMOVE_stlinked[OF t s(1)] Remove s by (simp add: remove1_split)
  next
    case (Concat h1 h2)
    then show ?thesis using STAILQ_CONCAT_stlinked[OF t] ok by simp
  qed
qed

lemma schain_path: "schain nx p xs \<Longrightarrow> path (\<lambda>e. Some (nx e)) p xs"
  by (induction xs arbitrary: p) auto

lemma slist_path: "slinked q H \<Longrightarrow> path (\<lambda>e. Some (SLIST_NEXT e q)) (SLIST_FIRST h q) (H h)"
  using schain_path[OF slinkedD(1), of q H h] by (simp add: SLIST_FIRST_def SLIST_NEXT_def[abs_def])

lemma stailq_path: "stlinked q H \<Longrightarrow> path (\<lambda>e. Some (STAILQ_NEXT e q)) (STAILQ_FIRST h q) (H h)"
  using schain_path[OF stlinkedD(3), of q H h] by (simp add: STAILQ_FIRST_def STAILQ_NEXT_def[abs_def])

lemma list_path: "linked q H \<Longrightarrow> path (\<lambda>e. Some (LIST_NEXT e q)) (LIST_FIRST h q) (H h)"
  using chain_path[OF linked_chain, of q H h] by (simp add: LIST_FIRST_def LIST_NEXT_def[abs_def])

text \<open>Every loop ends, after it has run its body once for each element.\<close>

lemma loops_visit:
  "linked ql H \<Longrightarrow> LIST_FOREACH h (\<lambda>e (q, a). map_option (Pair q) (f e a)) (ql, a) = map_option (Pair ql) (run_ops f (H h) a)"
  "linked ql H \<Longrightarrow> LIST_FOREACH_SAFE h (\<lambda>e (q, a). map_option (Pair q) (f e a)) (ql, a) = map_option (Pair ql) (run_ops f (H h) a)"
  "slinked qs H \<Longrightarrow> SLIST_FOREACH h (\<lambda>e (q, a). map_option (Pair q) (f e a)) (qs, a) = map_option (Pair qs) (run_ops f (H h) a)"
  "slinked qs H \<Longrightarrow> SLIST_FOREACH_SAFE h (\<lambda>e (q, a). map_option (Pair q) (f e a)) (qs, a) = map_option (Pair qs) (run_ops f (H h) a)"
  "stlinked qt H \<Longrightarrow> STAILQ_FOREACH h (\<lambda>e (q, a). map_option (Pair q) (f e a)) (qt, a) = map_option (Pair qt) (run_ops f (H h) a)"
  "stlinked qt H \<Longrightarrow> STAILQ_FOREACH_SAFE h (\<lambda>e (q, a). map_option (Pair q) (f e a)) (qt, a) = map_option (Pair qt) (run_ops f (H h) a)"
  "tlinked q H \<Longrightarrow> TAILQ_FOREACH h (\<lambda>e (q, a). map_option (Pair q) (f e a)) (q, a) = map_option (Pair q) (run_ops f (H h) a)"
  "tlinked q H \<Longrightarrow> TAILQ_FOREACH_SAFE h (\<lambda>e (q, a). map_option (Pair q) (f e a)) (q, a) = map_option (Pair q) (run_ops f (H h) a)"
  by (simp_all add: LIST_FOREACH_def LIST_FOREACH_SAFE_def SLIST_FOREACH_def SLIST_FOREACH_SAFE_def
      STAILQ_FOREACH_def STAILQ_FOREACH_SAFE_def TAILQ_FOREACH_def TAILQ_FOREACH_SAFE_def
      foreach_path[OF list_path] foreach_path[OF slist_path] foreach_path[OF stailq_path] foreach_path[OF tailq_path])

lemma loops_visit_back:
  assumes "tlinked q H"
  shows "TAILQ_FOREACH_REVERSE h (\<lambda>e (q, a). map_option (Pair q) (f e a)) (q, a) = map_option (Pair q) (run_ops f (rev (H h)) a)"
    "TAILQ_FOREACH_REVERSE_SAFE h (\<lambda>e (q, a). map_option (Pair q) (f e a)) (q, a) = map_option (Pair q) (run_ops f (rev (H h)) a)"
proof -
  have p: "path (\<lambda>e. TAILQ_PREV e q) (if H h = [] then None else Some (last (H h))) (rev (H h))"
    using tailq_path_back[OF assms, of h "H h" "[]"] by simp
  have l: "TAILQ_LAST h q = Some (if H h = [] then None else Some (last (H h)))" by (rule TAILQ_LAST_tlinked[OF assms])
  show "TAILQ_FOREACH_REVERSE h (\<lambda>e (q, a). map_option (Pair q) (f e a)) (q, a) = map_option (Pair q) (run_ops f (rev (H h)) a)"
    using foreach_path(1)[OF p, where nxt = "\<lambda>e s. TAILQ_PREV e (fst s)" and q = q and f = f and a = a] l
    by (simp add: TAILQ_FOREACH_REVERSE_def)
  show "TAILQ_FOREACH_REVERSE_SAFE h (\<lambda>e (q, a). map_option (Pair q) (f e a)) (q, a) = map_option (Pair q) (run_ops f (rev (H h)) a)"
    using foreach_path(2)[OF p, where nxt = "\<lambda>e s. TAILQ_PREV e (fst s)" and q = q and f = f and a = a] l
    by (simp add: TAILQ_FOREACH_REVERSE_SAFE_def)
qed

section \<open>The interface of a queue\<close>

locale tail_lists = linked_lists +
  fixes insert_tail :: "'h \<Rightarrow> 'n \<Rightarrow> 's \<Rightarrow> 's option"
    and concat_lists :: "'h \<Rightarrow> 'h \<Rightarrow> 's \<Rightarrow> 's option"
  assumes insert_tail_rep: "rep q H \<Longrightarrow> e \<notin> members H \<Longrightarrow> \<exists>q'. insert_tail h e q = Some q' \<and> rep q' (H(h := H h @ [e]))"
    and concat_rep: "rep q H \<Longrightarrow> h1 \<noteq> h2 \<Longrightarrow> \<exists>q'. concat_lists h1 h2 q = Some q' \<and> rep q' (H(h1 := H h1 @ H h2, h2 := []))"
begin

lemma fill:
  assumes "rep q H" "distinct xs" "set xs \<inter> members H = {}"
  shows "\<exists>q'. run_ops (insert_tail h) xs q = Some q' \<and> rep q' (H(h := H h @ xs))"
  using assms
proof (induction xs arbitrary: q H)
  case Nil
  then show ?case by simp
next
  case (Cons x xs)
  then obtain q1 where q1: "insert_tail h x q = Some q1" "rep q1 (H(h := H h @ [x]))"
    using insert_tail_rep[of q H x h] by auto
  have "members (H(h := H h @ [x])) = insert x (members H)" by (auto simp: members_upd members_split[of H h])
  then have "set xs \<inter> members (H(h := H h @ [x])) = {}" using Cons.prems by auto
  moreover have "distinct xs" using Cons.prems(2) by simp
  ultimately obtain q' where q': "run_ops (insert_tail h) xs q1 = Some q'"
    "rep q' ((H(h := H h @ [x]))(h := (H(h := H h @ [x])) h @ xs))" using Cons.IH[OF q1(2)] by blast
  have "(H(h := H h @ [x]))(h := (H(h := H h @ [x])) h @ xs) = H(h := H h @ x # xs)" by simp
  from q'(2)[unfolded this] q'(1) q1(1) show ?case by (simp del: fun_upd_apply)
qed

lemma drain:
  assumes "rep q H" "H h = xs @ ys"
  shows "\<exists>q'. run_ops (\<lambda>x q. if first h q = Some x then pop h q else None) xs q = Some q' \<and> rep q' (H(h := ys))"
  using assms
proof (induction xs arbitrary: q H)
  case Nil
  then have "H(h := ys) = H" by auto
  then show ?case using Nil by simp
next
  case (Cons x xs)
  then obtain q1 where q1: "pop h q = Some q1" "rep q1 (H(h := xs @ ys))" using pop_rep[of q H h x "xs @ ys"] by auto
  have "first h q = Some x" using first_rep[OF Cons.prems(1), of h] Cons.prems(2) by simp
  moreover have "(H(h := xs @ ys)) h = xs @ ys" by simp
  note ih = Cons.IH[OF q1(2) this, unfolded fun_upd_upd]
  ultimately show ?case using ih q1(1) by simp
qed

text \<open>What is put in at the tail comes out at the head in the same order, after what was in the queue.\<close>

lemma fifo:
  assumes "rep q H" "distinct xs" "set xs \<inter> members H = {}"
  shows "\<exists>q'. (do { q1 \<leftarrow> run_ops (insert_tail h) xs q;
                    run_ops (\<lambda>x q. if first h q = Some x then pop h q else None) (H h @ xs) q1 }) = Some q' \<and>
    rep q' (H(h := []))"
proof -
  obtain q1 where q1: "run_ops (insert_tail h) xs q = Some q1" "rep q1 (H(h := H h @ xs))" using fill[OF assms] by blast
  have "(H(h := H h @ xs)) h = (H h @ xs) @ []" by simp
  note dr = drain[OF q1(2) this, unfolded fun_upd_upd]
  then show ?thesis using q1(1) by simp
qed

end

definition TAILQ_pop :: "'h \<Rightarrow> ('h, 'n) tailq_store \<Rightarrow> ('h, 'n) tailq_store option" where
  "TAILQ_pop h q = Option.bind (TAILQ_FIRST h q) (\<lambda>e. TAILQ_REMOVE h e q)"

lemma TAILQ_pop_tlinked: "tlinked q H \<Longrightarrow> H h = x # xs \<Longrightarrow> \<exists>q'. TAILQ_pop h q = Some q' \<and> tlinked q' (H(h := xs))"
  using TAILQ_REMOVE_tlinked[of q H h "[]" x xs] TAILQ_FIRST_tlinked[of q H h] by (simp add: TAILQ_pop_def)

interpretation tailq: tail_lists TAILQ_INSERT_HEAD TAILQ_pop TAILQ_FIRST TAILQ_EMPTY TAILQ_INIT tlinked
  TAILQ_INSERT_TAIL TAILQ_CONCAT
  by unfold_locales
    (simp_all add: TAILQ_FIRST_tlinked TAILQ_EMPTY_tlinked TAILQ_INIT_tlinked TAILQ_INSERT_HEAD_tlinked
      TAILQ_pop_tlinked TAILQ_INSERT_TAIL_tlinked TAILQ_CONCAT_tlinked linked_distinct[OF tlinkedD(1)]
      linked_same_head[OF tlinkedD(1)])

interpretation stailq: tail_lists STAILQ_INSERT_HEAD STAILQ_REMOVE_HEAD STAILQ_FIRST STAILQ_EMPTY STAILQ_INIT stlinked
  STAILQ_INSERT_TAIL STAILQ_CONCAT
  by unfold_locales
    (simp_all add: STAILQ_FIRST_stlinked STAILQ_EMPTY_stlinked STAILQ_INIT_stlinked STAILQ_INSERT_HEAD_stlinked
      STAILQ_REMOVE_HEAD_stlinked STAILQ_INSERT_TAIL_stlinked STAILQ_CONCAT_stlinked slinkedD(2)[OF stlinkedD(1)]
      slinkedD(3)[OF stlinkedD(1)])

section \<open>The properties of the queues\<close>

definition empty_tailq :: "(nat, nat) tailq_store" where
  "empty_tailq = \<lparr>tqh_first = \<lambda>h. None, tqh_last = \<lambda>h. Some (Head_cell h), tqe_next = \<lambda>e. None, tqe_prev = \<lambda>e. None\<rparr>"

definition empty_stailq :: "(nat, nat) stailq_store" where
  "empty_stailq = \<lparr>stqh_first = \<lambda>h. None, stqh_last = \<lambda>h. Some (Head_cell h), stqe_next = \<lambda>e. None\<rparr>"

lemma empty_tailq_linked: "tlinked empty_tailq (\<lambda>h. [])"
  by (simp add: tlinked_def linked_def empty_tailq_def as_list_def)

lemma empty_stailq_linked: "stlinked empty_stailq (\<lambda>h. [])"
  by (simp add: stlinked_def slinked_def empty_stailq_def as_slist_def)

definition example_ops :: "(nat, nat) queue_op list" where
  "example_ops = [Insert_head 0 10, Insert_tail 0 11, Insert_after 0 10 12, Insert_tail 1 13, Concat 0 1, Remove 0 12]"

lemma members_empty [simp]: "members (\<lambda>h. []) = {}"
  by (simp add: members_def)

lemma in_members_upd: "x \<in> members (H(h := ys)) \<longleftrightarrow> x \<in> set ys \<or> (\<exists>h'. h' \<noteq> h \<and> x \<in> set (H h'))"
  by (auto simp: members_upd)

lemma example_ops_ok: "specs_ok example_ops (\<lambda>h. [])"
  by (simp add: example_ops_def in_members_upd)

lemma tailq_ops_run:
  assumes "tlinked q H" and "specs_ok ops H"
  shows "\<exists>q'. run_ops tailq_run ops q = Some q' \<and> tlinked q' (fold spec_run ops H)"
proof (rule run_ops_refine[where ok = "\<lambda>x. True"])
  show "\<exists>q'. tailq_run x q = Some q' \<and> tlinked q' (spec_run x H)" if "tlinked q H" "True" "spec_ok x H" for x q H
    by (rule tailq_run_refines[OF that(1,3)])
qed (use assms in \<open>simp_all add: list_all_iff\<close>)

text \<open>
  C39. Any sequence of \<^verbatim>\<open>TAILQ\<close> operations that may be asked for (initialising a head, inserting at either end and on either
  side of an element, removing, concatenating) runs through and does to the links what the same sequence does to a family of lists.
\<close>

theorem tailq_refines_lists:
  assumes "tlinked q H" and "specs_ok ops H"
  shows "\<exists>q'. run_ops tailq_run ops q = Some q' \<and> tlinked q' (fold spec_run ops H)"
  by (rule tailq_ops_run[OF assms])

theorem tailq_refines_lists_witness:
  "\<exists>q'. run_ops tailq_run example_ops empty_tailq = Some q' \<and> tlinked q' ((\<lambda>h. [])(0 := [10, 11, 13], 1 := []))"
  using tailq_refines_lists[OF empty_tailq_linked example_ops_ok]
  by (simp add: example_ops_def fun_upd_twist)

text \<open>
  The same of the \<^verbatim>\<open>STAILQ\<close> operations, which have no insertion before an element and find the predecessor of an element
  to remove by a search that ends.
\<close>

theorem stailq_refines_lists:
  assumes "stlinked q H" and "list_all forward_op ops" and "specs_ok ops H"
  shows "\<exists>q'. run_ops stailq_run ops q = Some q' \<and> stlinked q' (fold spec_run ops H)"
  using run_ops_refine[OF stailq_run_refines assms] .

theorem stailq_refines_lists_witness:
  "\<exists>q'. run_ops stailq_run example_ops empty_stailq = Some q' \<and> stlinked q' ((\<lambda>h. [])(0 := [10, 11, 13], 1 := []))"
  using stailq_refines_lists[OF empty_stailq_linked _ example_ops_ok]
  by (simp add: example_ops_def fun_upd_twist)

text \<open>
  C40. The loops over a tail queue end: \<^verbatim>\<open>TAILQ_FOREACH\<close> runs its body once for each element in the order of the queue and
  \<^verbatim>\<open>TAILQ_FOREACH_REVERSE\<close> in the opposite order, and a body of \<^verbatim>\<open>TAILQ_FOREACH_SAFE\<close> that removes the
  elements it chooses leaves the others, in their order.
\<close>

theorem tailq_loops_end:
  assumes "tlinked q H"
  shows "TAILQ_FOREACH h (\<lambda>e (q, a). map_option (Pair q) (f e a)) (q, a) = map_option (Pair q) (run_ops f (H h) a) \<and>
    TAILQ_FOREACH_REVERSE h (\<lambda>e (q, a). map_option (Pair q) (f e a)) (q, a) = map_option (Pair q) (run_ops f (rev (H h)) a) \<and>
    (\<exists>q'. TAILQ_FOREACH_SAFE h
        (\<lambda>e (q, u). if P e then map_option (\<lambda>q'. (q', u)) (TAILQ_REMOVE h e q) else Some (q, u)) (q, u) = Some (q', u) \<and>
      tlinked q' (H(h := filter (\<lambda>e. \<not> P e) (H h))))"
  by (intro conjI loops_visit(7)[OF assms] loops_visit_back(1)[OF assms] TAILQ_FOREACH_SAFE_removes[OF assms])

theorem tailq_loops_end_witness:
  "\<exists>q. run_ops tailq_run example_ops empty_tailq = Some q \<and>
     map_option snd (TAILQ_FOREACH_REVERSE 0 (\<lambda>e (q, a). map_option (Pair q) (Some (e # a))) (q, [])) = Some [10, 11, 13]"
proof -
  obtain q where q: "run_ops tailq_run example_ops empty_tailq = Some q" "tlinked q (fold spec_run example_ops (\<lambda>h. []))"
    using tailq_ops_run[OF empty_tailq_linked example_ops_ok] by blast
  then show ?thesis
    using tailq_loops_end[OF q(2), where h = 0 and f = "\<lambda>e a. Some (e # a)" and a = "[]", THEN conjunct2, THEN conjunct1]
    by (simp add: example_ops_def option.map_comp o_def)
qed

text \<open>
  A tail queue is first in, first out: elements that are put in at the tail come out at the head in the same order, after
  those that were in the queue, and leave it empty.
\<close>

theorem tailq_fifo:
  assumes "tlinked q H" and "distinct xs" and "set xs \<inter> members H = {}"
  shows "\<exists>q'. (do { q1 \<leftarrow> run_ops (TAILQ_INSERT_TAIL h) xs q;
      run_ops (\<lambda>x q. if TAILQ_FIRST h q = Some x then TAILQ_pop h q else None) (H h @ xs) q1 }) = Some q' \<and>
    tlinked q' (H(h := []))"
  by (rule tailq.fifo[OF assms])

theorem tailq_fifo_witness:
  "\<exists>q'. (do { q1 \<leftarrow> run_ops (TAILQ_INSERT_TAIL 0) [5, 6] empty_tailq;
      run_ops (\<lambda>x q. if TAILQ_FIRST 0 q = Some x then TAILQ_pop 0 q else None) [5, 6] q1 }) = Some q' \<and>
    tlinked q' (\<lambda>h. [])"
  using tailq_fifo[OF empty_tailq_linked, of "[5, 6]" 0] by (simp add: fun_upd_idem)

end
