(* ===== verification/Format.thy ===== *)
theory Format
  imports Strings
begin

text \<open>
  Formatted output: \<^verbatim>\<open>k_snprintf_vaarg\<close> of \<^verbatim>\<open>src/sys/lib/strfuncs.c\<close> with the conversions for numbers
  and strings.  The theory says what text a format and its arguments stand for and shows that the function puts this
  text into the buffer when it fits.
\<close>

section \<open>The text of a format\<close>

text \<open>\<open>str\<close> gives the string at an address.\<close>

fun format_text :: "(u32 \<Rightarrow> u8 list) \<Rightarrow> u8 list \<Rightarrow> u32 list \<Rightarrow> u8 list" where
  "format_text str [] ap = []"
| "format_text str (c # fs) ap =
     (if c \<noteq> 0x25 then c # format_text str fs ap
      else case fs of [] \<Rightarrow> []
        | v # fs' \<Rightarrow> (case ap of [] \<Rightarrow> []
          | x # ap' \<Rightarrow> (if v = 0x73 then str x else itoa_text (if v = 0x78 then 0x78 else 0x64) x) @ format_text str fs' ap'))"

text \<open>Every conversion is one of \<open>%d\<close>, \<open>%u\<close>, \<open>%x\<close> and \<open>%s\<close> and has its argument; those of \<open>%s\<close> are in \<open>S\<close>.\<close>

fun format_ok :: "u32 set \<Rightarrow> u8 list \<Rightarrow> u32 list \<Rightarrow> bool" where
  "format_ok S [] ap \<longleftrightarrow> True"
| "format_ok S (c # fs) ap \<longleftrightarrow>
     (if c \<noteq> 0x25 then format_ok S fs ap
      else case fs of [] \<Rightarrow> False
        | v # fs' \<Rightarrow> (case ap of [] \<Rightarrow> False
          | x # ap' \<Rightarrow> (v \<in> {0x64, 0x75, 0x78} \<or> v = 0x73 \<and> x \<in> S) \<and> format_ok S fs' ap'))"

section \<open>Parts of a buffer\<close>

lemma buffer_drop:
  assumes "buffer loc s a cs" "j \<le> length cs"
  shows "buffer loc s (a + of_nat j) (drop j cs)"
proof -
  have "unat (a + of_nat j) = unat a + j" using assms by (simp add: buffer_def unat_word_ariths(1) unat_of_nat)
  then show ?thesis using assms by (auto simp: buffer_def add.assoc simp flip: of_nat_add)
qed

lemma buffer_apart:
  assumes "buffer loc s a ds" "set ds \<inter> set cs = {}" "n < length ds"
  shows "apart loc s cs a n"
  unfolding apart_def
proof (intro allI impI)
  fix i l assume "i \<le> n" "loc s (a + of_nat i) = Some l"
  then have "i < length ds" "l = ds ! i" using assms(1,3) by (simp_all add: buffer_def)
  then show "l \<notin> set cs" using assms(2) nth_mem by blast
qed

lemma apart_subset: "apart loc s cs p n \<Longrightarrow> set ds \<subseteq> set cs \<Longrightarrow> apart loc s ds p n"
  by (auto simp: apart_def)

text \<open>The text \<open>T\<close> is at the start of the buffer \<open>cs\<close>; the cells \<open>ds\<close> may have been used for numbers.\<close>

definition printed ::
  "('s \<Rightarrow> virtaddr_t \<Rightarrow> 'l option) \<Rightarrow> ('s \<Rightarrow> 'l \<Rightarrow> u8) \<Rightarrow> ('s \<Rightarrow> 'r) \<Rightarrow> 's \<Rightarrow> 's \<Rightarrow> 'l list \<Rightarrow> 'l list \<Rightarrow> u8 list \<Rightarrow> bool"
where
  "printed loc get rest s0 s cs ds T \<longleftrightarrow>
     updated loc get rest s0 s (cs @ ds) (map (get s) (cs @ ds)) \<and> take (length T) (map (get s) cs) = T"

context addressed_memory
begin

lemma updated_drop:
  assumes "updated loc get rest s s' (drop j cs) ys" "distinct cs"
  shows "updated loc get rest s s' cs (take j (map (get s) cs) @ ys)"
proof -
  have "l \<notin> set (drop j cs)" if "l \<in> set (take j cs)" for l
    using assms(2) that set_take_disj_set_drop_if_distinct[of cs j j] by auto
  then have "map (get s') (take j cs) = map (get s) (take j cs)" using assms(1) by (simp add: updated_def)
  moreover have "map (get s') (drop j cs) = ys" using assms(1) by (simp add: updated_def)
  ultimately have "map (get s') (take j cs @ drop j cs) = take j (map (get s) cs) @ ys" by (simp only: map_append take_map)
  then have "map (get s') cs = take j (map (get s) cs) @ ys" by simp
  then show ?thesis using assms(1) by (auto simp: updated_def dest: in_set_dropD)
qed

lemma printed_start: "printed loc get rest s s cs ds []"
  by (simp add: printed_def updated_def)

lemma printed_cstr:
  "printed loc get rest s0 s cs ds T \<Longrightarrow> cstr ld s0 p bs \<Longrightarrow> apart loc s0 (cs @ ds) p (length bs) \<Longrightarrow> cstr ld s p bs"
  by (rule cstr_apart) (auto simp: printed_def)

lemma printed_same:
  assumes "printed loc get rest s0 s cs ds T"
  shows "loc s = loc s0" "buffer loc s a es = buffer loc s0 a es" "apart loc s es p n = apart loc s0 es p n"
  using assms by (auto simp: printed_def updated_def buffer_def apart_def)

lemma printed_number:
  assumes "printed loc get rest s0 s cs ds T" "updated loc get rest s s' ds ys" "set ds \<inter> set cs = {}"
  shows "printed loc get rest s0 s' cs ds T"
proof -
  have m: "map (get s') cs = map (get s) cs" using assms(2,3) by (auto simp: updated_def)
  have u: "updated loc get rest s0 s' (cs @ ds) (map (get s') (cs @ ds))"
    using assms(1,2) by (simp add: printed_def updated_def)
  show ?thesis unfolding printed_def m using u assms(1) by (simp only: printed_def)
qed

lemma printed_text:
  assumes "printed loc get rest s0 s cs ds T" "updated loc get rest s s' cs (T @ xs @ zs)"
  shows "printed loc get rest s0 s' cs ds (T @ xs)"
  using assms by (auto simp: printed_def updated_def)

lemma printed_overwrite:
  assumes "printed loc get rest s0 s cs ds T" "updated loc get rest s s' cs (overwrite (length T) xs (map (get s) cs))"
  shows "printed loc get rest s0 s' cs ds (T @ xs)"
proof (rule printed_text[OF assms(1)])
  have "overwrite (length T) xs (map (get s) cs) = T @ xs @ drop (length T + length xs) (map (get s) cs)"
    using assms(1) by (simp add: overwrite_def printed_def)
  then show "updated loc get rest s s' cs (T @ xs @ drop (length T + length xs) (map (get s) cs))" using assms(2) by simp
qed

text \<open>A string is copied to the end of the text.\<close>

lemma printed_strlcpy:
  assumes p: "printed loc get rest s0 s cs ds T" and b: "buffer loc s0 a cs" "length cs = unat maxlen"
    and c: "cstr ld s q xs" "apart loc s0 cs q (length xs)" and len: "length T + length xs < length cs"
  shows "\<exists>s'. strlcpy ld st (a + of_nat (length T)) q (maxlen - of_nat (length T)) s = Some (of_nat (length xs), s') \<and>
    printed loc get rest s0 s' cs ds (T @ xs)"
proof -
  let ?j = "length T"
  have j: "unat (maxlen - of_nat ?j) = length cs - ?j"
  proof -
    have "unat (of_nat ?j :: u32) = ?j"
      using b(2) len unsigned_less[of maxlen, where ?'a = nat] by (simp add: unat_of_nat)
    then show ?thesis using b(2) len by (simp add: unat_sub word_le_nat_alt)
  qed
  have bj: "buffer loc s (a + of_nat ?j) (drop ?j cs)"
    using buffer_drop[of loc s a cs ?j] printed_same(2)[OF p] b(1) len by simp
  have ap: "apart loc s (drop ?j cs) q (length xs)"
    using apart_subset[OF c(2) set_drop_subset] printed_same(3)[OF p] by simp
  have "length (drop ?j cs) = unat (maxlen - of_nat ?j)" "maxlen - of_nat ?j \<noteq> 0" using j len by auto
  from strlcpy_ok[OF bj this c(1) ap] obtain s' where
    s': "strlcpy ld st (a + of_nat ?j) q (maxlen - of_nat ?j) s = Some (of_nat (length xs), s')"
    "updated loc get rest s s' (drop ?j cs) (overwrite 0 (take (unat (maxlen - of_nat ?j) - 1) xs @ [0]) (map (get s) (drop ?j cs)))"
    by blast
  have "take (unat (maxlen - of_nat ?j) - 1) xs = xs" using j len by simp
  then have ow: "overwrite 0 (take (unat (maxlen - of_nat ?j) - 1) xs @ [0]) (map (get s) (drop ?j cs)) =
      xs @ 0 # drop (length xs + 1) (map (get s) (drop ?j cs))"
    by (simp add: overwrite_def)
  have "distinct cs" using b(1) by (simp add: buffer_def)
  from updated_drop[OF s'(2)[unfolded ow] this] p have
    "updated loc get rest s s' cs (T @ xs @ 0 # drop (length xs + 1) (map (get s) (drop ?j cs)))"
    by (simp add: printed_def)
  from printed_text[OF p this] s'(1) show ?thesis by blast
qed

end

section \<open>The loop over the format\<close>

text \<open>The memory of a call: the output buffer, the local buffer for numbers and the strings that are read.\<close>

definition print_frame ::
  "('s \<Rightarrow> virtaddr_t \<Rightarrow> 'l option) \<Rightarrow> 's load8 \<Rightarrow> 's \<Rightarrow> virtaddr_t \<Rightarrow> 'l list \<Rightarrow> virtaddr_t \<Rightarrow> 'l list \<Rightarrow> u32 set \<Rightarrow> (u32 \<Rightarrow> u8 list) \<Rightarrow> bool"
where
  "print_frame loc ld s a cs buf ds S str \<longleftrightarrow>
     buffer loc s a cs \<and> buffer loc s buf ds \<and> length ds = 20 \<and> set cs \<inter> set ds = {} \<and>
     (\<forall>x\<in>S. cstr ld s x (str x) \<and> apart loc s (cs @ ds) x (length (str x)))"

context addressed_memory
begin

text \<open>One conversion.\<close>

lemma snprintf_conv_prints:
  assumes f: "print_frame loc ld s0 a cs buf ds S str" and m: "length cs = unat maxlen" and p: "printed loc get rest s0 s cs ds T"
    and v: "v \<in> {0x64, 0x75, 0x78} \<or> v = 0x73 \<and> x \<in> S"
    and xs: "xs = (if v = 0x73 then str x else itoa_text (if v = 0x78 then 0x78 else 0x64) x)"
    and len: "length T + length xs < length cs"
  shows "\<exists>s'. snprintf_conv ld st buf a maxlen (a + of_nat (length T)) v (x # ap) s =
      Some (a + of_nat (length T) + of_nat (length xs), ap, s') \<and> printed loc get rest s0 s' cs ds (T @ xs)"
proof (cases "v = 0x73")
  case True
  then have "x \<in> S" using v by auto
  then have c: "cstr ld s x xs" "apart loc s0 cs x (length xs)"
    using f True xs printed_cstr[OF p] by (auto simp: print_frame_def intro: apart_subset)
  have b: "buffer loc s0 a cs" using f by (simp add: print_frame_def)
  from printed_strlcpy[OF p b m c len] show ?thesis using True by (auto simp: snprintf_conv_def)
next
  case False
  let ?base = "if v = 0x78 then 0x78 else (0x64 :: u32)"
  have num: "v \<in> {0x64, 0x75, 0x78}" "xs = itoa_text ?base x" using v xs False by auto
  have b: "buffer loc s0 a cs" "buffer loc s buf ds" "length ds = 20" "set ds \<inter> set cs = {}" "buffer loc s0 buf ds"
    using f printed_same(2)[OF p] by (auto simp: print_frame_def)
  have base: "?base = 0x64 \<or> ?base = 0x78" by simp
  obtain s1 where s1: "itoa ld st buf ?base x s = Some s1"
    "updated loc get rest s s1 ds (overwrite 0 (xs @ [0]) (map (get s) ds))"
    using itoa_ok[OF b(2,3) base, of x] num(2) by auto
  have l: "length xs \<le> 11" using itoa_text_length[OF base, of x] num(2) by simp
  have p1: "printed loc get rest s0 s1 cs ds T" by (rule printed_number[OF p s1(2) b(4)])
  have "buffer loc s1 buf ds" using printed_same(2)[OF p1] b(5) by simp
  moreover have "map (get s1) ds = overwrite 0 (xs @ [0]) (map (get s) ds)" using s1(2) by (simp add: updated_def)
  ultimately have c: "cstr ld s1 buf xs"
    using buffer_cstr[of s1 buf ds xs "map (get s) ds"] l b(3) itoa_text_reads(2)[OF base, of x] num(2) by simp
  have ap: "apart loc s0 cs buf (length xs)" using buffer_apart[OF b(5,4)] l b(3) by simp
  from printed_strlcpy[OF p1 b(1) m c ap len] show ?thesis using s1(1) num(1) by (auto simp: snprintf_conv_def)
qed

lemma snprintf_loop_prints:
  assumes f: "print_frame loc ld s0 a cs buf ds S str" and m: "length cs = unat maxlen"
  shows "printed loc get rest s0 s cs ds T \<Longrightarrow> cstr ld s0 fmt fs \<Longrightarrow> apart loc s0 (cs @ ds) fmt (length fs) \<Longrightarrow>
    format_ok S fs ap \<Longrightarrow> length T + length (format_text str fs ap) < length cs \<Longrightarrow>
    \<exists>s'. snprintf_loop ld st buf a maxlen fmt (a + of_nat (length T)) ap s =
      Some (a + of_nat (length (T @ format_text str fs ap)), s') \<and> printed loc get rest s0 s' cs ds (T @ format_text str fs ap)"
proof (induction "length fs" arbitrary: fs fmt ap s T rule: less_induct)
  case less
  have c: "cstr ld s fmt fs" by (rule printed_cstr[OF less.prems(1,2,3)])
  have inside: "\<not> a + maxlen \<le> a + of_nat n" if "n < length cs" for n
  proof -
    have "unat (a + of_nat n) = unat a + n" "unat (a + maxlen) = unat a + length cs"
      using f that m by (simp_all add: print_frame_def buffer_def unat_word_ariths(1) unat_of_nat)
    then show ?thesis using that unfolding word_le_nat_alt by simp
  qed
  show ?case
  proof (cases fs)
    case Nil
    then show ?thesis using c less.prems(1) by (subst snprintf_loop.simps) simp
  next
    case (Cons v fs1)
    have rest_fmt: "cstr ld s0 (fmt + 1) fs1" "apart loc s0 (cs @ ds) (fmt + 1) (length fs1)"
      using less.prems(2,3) Cons apart_Suc[of loc s0 "cs @ ds" fmt "length fs1"] by simp_all
    show ?thesis
    proof (cases "v = 0x25")
      case False
      have j: "length T < length cs" "length (T @ [v]) < length cs" using less.prems(5) Cons False by simp_all
      have b: "buffer loc s a cs" using f printed_same(2)[OF less.prems(1)] by (simp add: print_frame_def)
      obtain s1 where s1: "st (a + of_nat (length T)) v s = Some s1"
        "updated loc get rest s s1 cs ((map (get s) cs)[length T := v])" by (rule buffer_write[OF b j(1)])
      have "(map (get s) cs)[length T := v] = overwrite (length T) [v] (map (get s) cs)"
        using j(1) overwrite_Cons[of "length T" "map (get s) cs" "[]" v] by simp
      then have p1: "printed loc get rest s0 s1 cs ds (T @ [v])" using printed_overwrite[OF less.prems(1)] s1(2) by simp
      have "length fs1 < length fs" "format_ok S fs1 ap" "length (T @ [v]) + length (format_text str fs1 ap) < length cs"
        using less.prems(4,5) Cons False by simp_all
      from less.hyps[OF this(1) p1 rest_fmt this(2,3)] obtain s' where s':
        "snprintf_loop ld st buf a maxlen (fmt + 1) (a + of_nat (length (T @ [v]))) ap s1 =
          Some (a + of_nat (length ((T @ [v]) @ format_text str fs1 ap)), s')"
        "printed loc get rest s0 s' cs ds ((T @ [v]) @ format_text str fs1 ap)" by blast
      have "snprintf_loop ld st buf a maxlen fmt (a + of_nat (length T)) ap s =
          snprintf_loop ld st buf a maxlen (fmt + 1) (a + of_nat (length (T @ [v]))) ap s1"
        using c Cons False s1(1) inside[OF j(2)] by (subst snprintf_loop.simps) (simp add: algebra_simps)
      then show ?thesis using s' Cons False by simp
    next
      case True
      obtain w fs2 x ap2 where d: "fs1 = w # fs2" "ap = x # ap2" "w \<in> {0x64, 0x75, 0x78} \<or> w = 0x73 \<and> x \<in> S" "format_ok S fs2 ap2"
        using less.prems(4) Cons True by (auto split: list.splits)
      define xs where "xs = (if w = 0x73 then str x else itoa_text (if w = 0x78 then 0x78 else 0x64) x)"
      have ft: "format_text str fs ap = xs @ format_text str fs2 ap2" using Cons True d(1,2) by (simp add: xs_def)
      have len: "length T + length xs < length cs" "length (T @ xs) + length (format_text str fs2 ap2) < length cs"
        using less.prems(5) ft by simp_all
      obtain s1 where s1: "snprintf_conv ld st buf a maxlen (a + of_nat (length T)) w (x # ap2) s =
          Some (a + of_nat (length T) + of_nat (length xs), ap2, s1)" "printed loc get rest s0 s1 cs ds (T @ xs)"
        using snprintf_conv_prints[OF f m less.prems(1) d(3) xs_def len(1)] by blast
      have r2: "cstr ld s0 (fmt + 2) fs2" "apart loc s0 (cs @ ds) (fmt + 2) (length fs2)"
        using rest_fmt d(1) apart_Suc[of loc s0 "cs @ ds" "fmt + 1" "length fs2"] by (simp_all add: add.assoc)
      have "length fs2 < length fs" using Cons d(1) by simp
      from less.hyps[OF this s1(2) r2 d(4) len(2)] obtain s' where s':
        "snprintf_loop ld st buf a maxlen (fmt + 2) (a + of_nat (length (T @ xs))) ap2 s1 =
          Some (a + of_nat (length ((T @ xs) @ format_text str fs2 ap2)), s')"
        "printed loc get rest s0 s' cs ds ((T @ xs) @ format_text str fs2 ap2)" by blast
      have "length (T @ xs) < length cs" using len by simp
      then have "snprintf_loop ld st buf a maxlen fmt (a + of_nat (length T)) ap s =
          snprintf_loop ld st buf a maxlen (fmt + 2) (a + of_nat (length (T @ xs))) ap2 s1"
        using c Cons True d(1,2) s1(1) inside[of "length (T @ xs)"] by (subst snprintf_loop.simps) (simp add: algebra_simps)
      then show ?thesis using s' ft by simp
    qed
  qed
qed

lemma format_text_nonzero:
  assumes "\<And>x. x \<in> S \<Longrightarrow> 0 \<notin> set (str x)"
    and "0 \<notin> set fs" "format_ok S fs ap"
  shows "0 \<notin> set (format_text str fs ap)"
  using assms
proof (induction S fs ap rule: format_ok.induct)
  case (2 S c fs ap)
  then show ?case using itoa_text_reads(2)[of "0x64"] itoa_text_reads(2)[of "0x78"]
    by (auto split: if_splits list.splits)
qed simp

lemma cstr_nonzero: "cstr ld s p bs \<Longrightarrow> 0 \<notin> set bs"
  by (induction bs arbitrary: p) auto

lemma k_snprintf_prints:
  assumes f: "print_frame loc ld s a cs buf ds S str" and m: "length cs = unat maxlen"
    and fmt: "cstr ld s fmt fs" "apart loc s (cs @ ds) fmt (length fs)" "format_ok S fs ap"
    and len: "length (format_text str fs ap) < length cs"
    and l0: "loc s (a - 1) = Some l0" "l0 \<notin> set cs"
  shows "\<exists>s'. k_snprintf_vaarg ld st buf a maxlen fmt ap s = Some s' \<and> cstr ld s' a (format_text str fs ap) \<and>
    loc s' = loc s \<and> rest s' = rest s \<and> get s' l0 = 0 \<and>
    (\<forall>l. l \<noteq> l0 \<longrightarrow> l \<notin> set cs \<longrightarrow> l \<notin> set ds \<longrightarrow> get s' l = get s l)"
proof -
  let ?T = "format_text str fs ap"
  have b: "buffer loc s a cs" using f by (simp add: print_frame_def)
  have z: "0 \<notin> set ?T"
    by (rule format_text_nonzero[OF _ cstr_nonzero[OF fmt(1)] fmt(3)])
      (use f cstr_nonzero in \<open>auto simp: print_frame_def\<close>)
  from snprintf_loop_prints[OF f m printed_start fmt] len obtain s1 where
    s1: "snprintf_loop ld st buf a maxlen fmt a ap s = Some (a + of_nat (length ?T), s1)" "printed loc get rest s s1 cs ds ?T" by auto
  have b1: "buffer loc s1 a cs" using printed_same(2)[OF s1(2)] b by simp
  obtain s2 where s2: "st (a + of_nat (length ?T)) 0 s1 = Some s2"
    "updated loc get rest s1 s2 cs ((map (get s1) cs)[length ?T := 0])" by (rule buffer_write[OF b1 len])
  have "(map (get s1) cs)[length ?T := 0] = overwrite (length ?T) [0] (map (get s1) cs)"
    using len overwrite_Cons[of "length ?T" "map (get s1) cs" "[]" 0] by simp
  then have p2: "printed loc get rest s s2 cs ds (?T @ [0])" using printed_overwrite[OF s1(2)] s2(2) by simp
  define s3 where "s3 = put l0 0 s2"
  have "loc s2 = loc s" using printed_same(1)[OF p2] .
  then have st3: "st (a - 1) 0 s2 = Some s3" using l0(1) by (simp add: st s3_def)
  have m3: "map (get s3) cs = map (get s2) cs" using l0(2) by (auto simp: s3_def get_put)
  have "unat (a + of_nat (length ?T)) = unat a + length ?T" "unat (a + maxlen) = unat a + length cs"
    using b m len by (simp_all add: buffer_def unat_word_ariths(1) unat_of_nat)
  then have "a + of_nat (length ?T) < a + maxlen" using len unfolding word_less_nat_alt by simp
  then have "k_snprintf_vaarg ld st buf a maxlen fmt ap s = Some s3" using s1(1) s2(1) st3 by (simp add: k_snprintf_vaarg_def)
  moreover have "loc s3 = loc s" "rest s3 = rest s" using p2 by (simp_all add: s3_def loc_put rest_put printed_def updated_def)
  moreover have "cstr ld s3 a ?T"
  proof (rule cstr_buffer[OF _ len _ z])
    show "buffer loc s3 a cs" using b \<open>loc s3 = loc s\<close> by (simp add: buffer_def)
    show "take (Suc (length ?T)) (map (get s3) cs) = ?T @ [0]" using p2 unfolding m3 by (simp add: printed_def)
  qed
  moreover have "get s3 l0 = 0" "\<And>l. l \<noteq> l0 \<Longrightarrow> l \<notin> set cs \<Longrightarrow> l \<notin> set ds \<Longrightarrow> get s3 l = get s l"
    using p2 by (simp_all add: s3_def get_put printed_def updated_def)
  ultimately show ?thesis by blast
qed

end

section \<open>Properties\<close>

lemma apart_append: "apart loc s (cs @ ds) p n \<longleftrightarrow> apart loc s cs p n \<and> apart loc s ds p n"
  by (auto simp: apart_def)

text \<open>The first of two windows holds the format \<open>%s=%d\<close> and, 16 bytes on, the string \<open>bc\<close>; the buffers are in the second.\<close>

definition example_format :: vm_state where
  "example_format = example_strings\<lparr>
     pmem := (\<lambda>_. 0)(0x5000 := 0x25, 0x5001 := 0x73, 0x5002 := 0x3D, 0x5003 := 0x25, 0x5004 := 0x64, 0x5010 := 0x62, 0x5011 := 0x63)\<rparr>"

lemma example_format_windows: "window example_format 0 5" "window example_format 1 6"
  using example_strings_windows by (simp_all add: window_def example_format_def)

lemma example_format_strings:
  "cstr vm_ld example_format 0xC0000000 [0x25, 0x73, 0x3D, 0x25, 0x64]" "cstr vm_ld example_format 0xC0000010 [0x62, 0x63]"
  by (simp_all add: vm_ld_def kvirt_loc_def highstart_def example_strings_def example_format_def frame_addr_def)

lemma example_format_frame:
  "print_frame kvirt_loc vm_ld example_format 0xC0001010 (map (\<lambda>i. 0x6010 + of_nat i) [0..<20])
     0xC0001080 (map (\<lambda>i. 0x6080 + of_nat i) [0..<20]) {0xC0000010} (\<lambda>x. [0x62, 0x63])"
proof -
  note w = example_format_windows
  have b: "buffer kvirt_loc example_format 0xC0001010 (map (\<lambda>i. 0x6010 + of_nat i) [0..<20])"
    "buffer kvirt_loc example_format 0xC0001080 (map (\<lambda>i. 0x6080 + of_nat i) [0..<20])"
    using window_buffer[OF w(2), of 16 20] window_buffer[OF w(2), of 128 20] by (simp_all add: kaddr_0_1[unfolded One_nat_def] frame_addr_def)
  have a: "apart kvirt_loc example_format (map (\<lambda>i. 0x6010 + of_nat i) [0..<20]) 0xC0000010 2"
    "apart kvirt_loc example_format (map (\<lambda>i. 0x6080 + of_nat i) [0..<20]) 0xC0000010 2"
    using window_apart[OF w(2,1), of 16 20 16 2] window_apart[OF w(2,1), of 128 20 16 2] by (simp_all add: kaddr_0_1[unfolded One_nat_def] frame_addr_def)
  have d: "set (map (\<lambda>i. 0x6010 + of_nat i :: u32) [0..<20]) \<inter> set (map (\<lambda>i. 0x6080 + of_nat i) [0..<20]) = {}"
    by (simp add: upt_rec)
  show ?thesis unfolding print_frame_def apart_append using b a d example_format_strings(2) by (simp add: numeral_2_eq_2)
qed



end
