(* ===== verification/Buddy.thy ===== *)
theory Buddy
  imports Prelude
begin

text \<open>
  The sizes of the map of the buddy allocator, \<^verbatim>\<open>src/sys/common/buddy.c\<close>.  The allocation functions of this
  file have no body yet.  The loop of \<^verbatim>\<open>buddy_levelstart\<close> increments its bound and not its counter; the theory shows
  that it ends all the same, when the bound wraps around, and with which result.
\<close>

record buddy_allocator =
  granularity :: int
  levels :: int
  page_size :: int
  map_addr :: virtaddr_t

text \<open>
  \<^verbatim>\<open>b->levels - level\<close> is unsigned.  A shift by 31 or more of the \<^verbatim>\<open>int\<close> 1 and a product that
  overflows have no result.
\<close>

definition buddy_levelsize :: "buddy_allocator \<Rightarrow> u32 \<Rightarrow> u32 option" where
  "buddy_levelsize b level = do {
     let n = (word_of_int (levels b) :: u32) - level;
     c_assert (n < 31);
     bytes \<leftarrow> c_int (2 ^ unat n * granularity b);
     pages \<leftarrow> c_div bytes (page_size b);
     size \<leftarrow> c_div pages 8;
     Some (word_of_int size)
   }"

partial_function (option) buddy_levelstart_loop :: "buddy_allocator \<Rightarrow> u32 \<Rightarrow> u32 \<Rightarrow> u32 \<Rightarrow> u32 option" where
  "buddy_levelstart_loop b level curlevel curtotal =
     (if curlevel < level then do {
        z \<leftarrow> buddy_levelsize b curlevel;
        buddy_levelstart_loop b (level + 1) curlevel (curtotal + z)
      }
      else Some curtotal)"

definition buddy_levelstart :: "buddy_allocator \<Rightarrow> u32 \<Rightarrow> u32 option" where
  "buddy_levelstart b level = buddy_levelstart_loop b level 0 0"

definition buddy_alloc :: "buddy_allocator \<Rightarrow> int \<Rightarrow> virtaddr_t" where
  "buddy_alloc b blocks = 0"

definition buddy_free :: "buddy_allocator \<Rightarrow> int \<Rightarrow> virtaddr_t \<Rightarrow> buddy_allocator" where
  "buddy_free b blocks addr = b"

definition buddy_sizerequired :: "buddy_allocator \<Rightarrow> u32 option" where
  "buddy_sizerequired b = buddy_levelstart b (word_of_int (levels b))"

text \<open>What the loop means to compute: the sizes of the levels before \<open>level\<close>.\<close>

primrec buddy_levelsizes :: "buddy_allocator \<Rightarrow> nat \<Rightarrow> u32 option" where
  "buddy_levelsizes b 0 = Some 0"
| "buddy_levelsizes b (Suc n) = do { t \<leftarrow> buddy_levelsizes b n; z \<leftarrow> buddy_levelsize b (of_nat n); Some (t + z) }"

lemma levelstart_loop_wraps:
  assumes z: "buddy_levelsize b 0 = Some z"
  shows "n = 2 ^ 32 - unat level \<Longrightarrow> level \<noteq> 0 \<Longrightarrow>
    buddy_levelstart_loop b level 0 t = Some (t - level * z)"
proof (induction n arbitrary: level t)
  case 0
  then show ?case using unsigned_less[of level, where ?'a = nat] by simp
next
  case (Suc n)
  have step: "buddy_levelstart_loop b level 0 t = buddy_levelstart_loop b (level + 1) 0 (t + z)"
    using z Suc.prems(2) by (subst buddy_levelstart_loop.simps) (simp add: word_gt_0)
  show ?case
  proof (cases "level + 1 = 0")
    case True
    then have "level = - 1" by (simp add: eq_neg_iff_add_eq_0)
    then show ?thesis using step True by (simp, subst buddy_levelstart_loop.simps) simp
  next
    case False
    then have "unat (level + 1) = unat level + 1" by (metis Suc_eq_plus1 add.commute unatSuc)
    then have "n = 2 ^ 32 - unat (level + 1)" using Suc.prems(1) by simp
    from Suc.IH[OF this False, of "t + z"] step show ?thesis by (simp add: algebra_simps)
  qed
qed

text \<open>
  The loop of \<^verbatim>\<open>buddy_levelstart\<close> ends when the size of the first level has a value: for a level other than the first its
  bound goes up until it wraps around to 0, after as many rounds as are left to \<open>2 ^ 32\<close>, and every round adds the size of
  level 0.
\<close>

theorem buddy_levelstart_ends:
  assumes "buddy_levelsize b 0 = Some z"
  shows "buddy_levelstart b level = Some (- level * z)"
proof (cases "level = 0")
  case True
  then show ?thesis by (simp add: buddy_levelstart_def) (subst buddy_levelstart_loop.simps, simp)
next
  case False
  then show ?thesis using levelstart_loop_wraps[OF assms refl False, of 0] by (simp add: buddy_levelstart_def)
qed

text \<open>
  Three levels over blocks and pages of 4096 bytes: the levels of the map take 1, 0 and 0 bytes, and the size that the code asks
  for is 4294967293.
\<close>

definition example_buddy :: buddy_allocator where
  "example_buddy = \<lparr>granularity = 4096, levels = 3, page_size = 4096, map_addr = 0\<rparr>"

lemma example_buddy_size:
  "buddy_levelsize example_buddy 0 = Some 1" "buddy_levelsize example_buddy 1 = Some 0" "buddy_levelsize example_buddy 2 = Some 0"
  by (simp_all add: buddy_levelsize_def example_buddy_def c_int_def c_div_def signed_divide_int_def)

lemma example_buddy_sizes: "buddy_levelsizes example_buddy 3 = Some 1"
  using example_buddy_size by (simp add: numeral_3_eq_3 numeral_2_eq_2)

theorem buddy_levelstart_ends_witness:
  "buddy_sizerequired example_buddy = Some 0xFFFFFFFD \<and> buddy_levelsizes example_buddy 3 = Some 1"
proof -
  have "levels example_buddy = 3" by (simp add: example_buddy_def)
  then show ?thesis using buddy_levelstart_ends[OF example_buddy_size(1), of 3] example_buddy_sizes
    by (simp add: buddy_sizerequired_def)
qed

end
