(* ===== verification/Console.thy ===== *)
theory Console
  imports Format
begin

text \<open>
  The output of the kernel: the text screen of \<^verbatim>\<open>src/sys/i686/bootvideo.c\<close>, the serial line of
  \<^verbatim>\<open>src/sys/i686/i686_tty.c\<close> and \<^verbatim>\<open>i686_io.h\<close>, and \<^verbatim>\<open>i686_debug\<close> of
  \<^verbatim>\<open>src/sys/i686/i686.c\<close>, which formats a message and gives it to one of them.  The screen is a map from
  the number of a cell to its 16 bits; it lies outside the memory that holds the strings.  The devices behind the ports
  are arguments: \<open>din\<close> and \<open>dout\<close> say what an access does to the device, and a log records the accesses.
\<close>

section \<open>The screen\<close>

definition COLS :: nat where "COLS = 80"
definition ROWS :: nat where "ROWS = 25"

record bootvideo =
  curX :: u16
  curY :: u16
  vmem :: "nat \<Rightarrow> u16"

text \<open>\<^verbatim>\<open>memset(vmem + from, 0, len)\<close>; a cell has two bytes.\<close>

definition clear_cells :: "nat \<Rightarrow> nat \<Rightarrow> (nat \<Rightarrow> u16) \<Rightarrow> nat \<Rightarrow> u16" where
  "clear_cells from len v = fold (\<lambda>i v. v(i := 0)) [from..<from + len div 2] v"

definition bootvideo_scroll :: "bootvideo \<Rightarrow> bootvideo" where
  "bootvideo_scroll b =
     (let b1 = (if COLS \<le> unat (curX b) then b\<lparr>curX := 0, curY := curY b + 1\<rparr> else b)
      in if ROWS \<le> unat (curY b1) then
           (let v = fold (\<lambda>i v. v(i := v (i + COLS))) [0..<(ROWS - 1) * COLS] (vmem b1)
            in b1\<lparr>vmem := clear_cells (COLS * (ROWS - 1)) (COLS * 2) v, curY := of_nat (ROWS - 1)\<rparr>)
         else b1)"

text \<open>\<^verbatim>\<open>char\<close> is signed: the conversion to 16 bits extends the sign.\<close>

definition glyph :: "u8 \<Rightarrow> u16" where
  "glyph c = scast c + 0x700"

definition bootvideo_putc :: "u8 \<Rightarrow> bootvideo \<Rightarrow> bootvideo" where
  "bootvideo_putc c b =
     bootvideo_scroll
       (if c = 0x0A then b\<lparr>curX := 0, curY := curY b + 1\<rparr>
        else b\<lparr>vmem := (vmem b)(unat (curY b) * COLS + unat (curX b) := glyph c), curX := curX b + 1\<rparr>)"

definition bootvideo_cls :: "bootvideo \<Rightarrow> bootvideo" where
  "bootvideo_cls b = b\<lparr>vmem := clear_cells 0 (ROWS * COLS * 2) (vmem b), curX := 0, curY := 0\<rparr>"

partial_function (option) bootvideo_puts_loop ::
  "'s load8 \<Rightarrow> virtaddr_t \<Rightarrow> 's \<Rightarrow> bootvideo \<Rightarrow> (virtaddr_t \<times> bootvideo) option" where
  "bootvideo_puts_loop ld p s b = do {
     c \<leftarrow> ld p s;
     if c \<noteq> 0 then bootvideo_puts_loop ld (p + 1) s (bootvideo_putc c b) else Some (p + 1, b)
   }"

definition bootvideo_puts :: "'s load8 \<Rightarrow> virtaddr_t \<Rightarrow> 's \<Rightarrow> bootvideo \<Rightarrow> (c_size_t \<times> bootvideo) option" where
  "bootvideo_puts ld str s b = do {
     (p, b1) \<leftarrow> bootvideo_puts_loop ld str s b;
     Some (p - str - 1, b1)
   }"

lemma bootvideo_puts_cstr:
  "cstr ld s p bs \<Longrightarrow> bootvideo_puts ld p s b = Some (of_nat (length bs), fold bootvideo_putc bs b)"
proof -
  have "cstr ld s p bs \<Longrightarrow> bootvideo_puts_loop ld p s b = Some (p + of_nat (length bs) + 1, fold bootvideo_putc bs b)" for p b
  proof (induction bs arbitrary: p b)
    case Nil
    then show ?case by (subst bootvideo_puts_loop.simps) simp
  next
    case (Cons c bs)
    then show ?case by (subst bootvideo_puts_loop.simps) (simp add: algebra_simps)
  qed
  then show "cstr ld s p bs \<Longrightarrow> ?thesis" by (simp add: bootvideo_puts_def)
qed

section \<open>What the screen shows\<close>

lemma shift_cells: "fold (\<lambda>i v. v(i := v (i + k))) [0..<n] v = (\<lambda>i. if i < n then v (i + k) else v i)"
proof (induction n)
  case (Suc n)
  then show ?case by (auto simp: fun_eq_iff less_Suc_eq)
qed simp

lemma clear_cells_eq: "clear_cells from len v = (\<lambda>i. if from \<le> i \<and> i < from + len div 2 then 0 else v i)"
proof -
  have "fold (\<lambda>i v. v(i := 0)) [from..<from + n] v = (\<lambda>i. if from \<le> i \<and> i < from + n then 0 else v i)" for n
    by (induction n) (auto simp: fun_eq_iff less_Suc_eq)
  then show ?thesis by (simp add: clear_cells_def)
qed

text \<open>The text is laid out in rows without a bound on their number; the last row is being written.\<close>

definition new_row :: "u8 list list \<Rightarrow> u8 list list" where
  "new_row R = R @ [[]]"

definition add_char :: "u8 \<Rightarrow> u8 list list \<Rightarrow> u8 list list" where
  "add_char c R = butlast R @ [last R @ [c]]"

definition put_char :: "u8 \<Rightarrow> u8 list list \<Rightarrow> u8 list list" where
  "put_char c R =
     (if c = 0x0A then new_row R
      else if length (last R) + 1 < COLS then add_char c R else new_row (add_char c R))"

text \<open>The screen shows the last 25 rows.\<close>

definition visible :: "'a list \<Rightarrow> 'a list" where
  "visible R = drop (length R - ROWS) R"

definition cell_of :: "u8 list list \<Rightarrow> nat \<Rightarrow> nat \<Rightarrow> u16" where
  "cell_of V r c = (if r < length V \<and> c < length (V ! r) then glyph (V ! r ! c) else 0)"

definition grid :: "bootvideo \<Rightarrow> u8 list list \<Rightarrow> bool" where
  "grid b V \<longleftrightarrow> V \<noteq> [] \<and> length V \<le> ROWS \<and> length (last V) \<le> COLS \<and>
     unat (curX b) = length (last V) \<and> Suc (unat (curY b)) = length V \<and>
     (\<forall>r<ROWS. \<forall>c<COLS. vmem b (r * COLS + c) = cell_of V r c)"

definition screen_shows :: "bootvideo \<Rightarrow> u8 list list \<Rightarrow> bool" where
  "screen_shows b R \<longleftrightarrow> R \<noteq> [] \<and> length (last R) < COLS \<and> grid b (visible R)"

lemma visible_ne: "R \<noteq> [] \<Longrightarrow> visible R \<noteq> [] \<and> last (visible R) = last R \<and> length (visible R) = min ROWS (length R)"
  by (cases R) (auto simp: visible_def ROWS_def last_drop)

lemma visible_new_row: "visible (new_row R) = (if length (visible R) < ROWS then visible R else tl (visible R)) @ [[]]"
proof (cases "length R < ROWS")
  case True
  then show ?thesis by (simp add: visible_def new_row_def ROWS_def)
next
  case False
  then have "length R - 24 = Suc (length R - 25)" by (simp add: ROWS_def)
  with False show ?thesis by (simp add: visible_def new_row_def ROWS_def drop_Suc tl_drop)
qed

lemma visible_add_char: "R \<noteq> [] \<Longrightarrow> visible (add_char c R) = add_char c (visible R)"
  by (cases R rule: rev_cases) (auto simp: visible_def add_char_def ROWS_def)

lemma cell_index: "r * COLS + c = r' * COLS + c' \<longleftrightarrow> r = r' \<and> c = c'" if "c < COLS" "c' < COLS" for r c r' c'
proof
  assume e: "r * COLS + c = r' * COLS + c'"
  have "(r * COLS + c) div COLS = r" "(r' * COLS + c') div COLS = r'" using that by simp_all
  then show "r = r' \<and> c = c'" using e by auto
qed simp

lemma cell_of_add_char:
  assumes "V \<noteq> []" "r < ROWS" "c < COLS"
  shows "cell_of (add_char ch V) r c =
    (if r * COLS + c = (length V - 1) * COLS + length (last V) \<and> length (last V) < COLS then glyph ch else cell_of V r c)"
proof (cases "length (last V) < COLS")
  case True
  have "cell_of (add_char ch V) r c = (if r = length V - 1 \<and> c = length (last V) then glyph ch else cell_of V r c)"
    using assms(1) by (cases V rule: rev_cases) (auto simp: cell_of_def add_char_def nth_append)
  then show ?thesis using cell_index[OF assms(3) True] True by simp
next
  case False
  then show ?thesis using assms
    by (cases V rule: rev_cases) (auto simp: cell_of_def add_char_def nth_append)
qed

lemma gridD: "grid b V \<Longrightarrow> r < ROWS \<Longrightarrow> c < COLS \<Longrightarrow> vmem b (r * COLS + c) = cell_of V r c"
  by (simp add: grid_def)

lemma grid_put:
  assumes g: "grid b V" and l: "length (last V) < COLS"
  shows "grid (b\<lparr>vmem := (vmem b)(unat (curY b) * COLS + unat (curX b) := glyph ch), curX := curX b + 1\<rparr>) (add_char ch V)"
proof -
  have V: "V \<noteq> []" and x: "unat (curX b) = length (last V)" and y: "unat (curY b) = length V - 1"
    using g by (auto simp: grid_def)
  have "unat (curX b + 1) = Suc (length (last V))" using x l by (simp add: unat_word_ariths(1) COLS_def)
  moreover have "length (add_char ch V) = length V" "last (add_char ch V) = last V @ [ch]" "add_char ch V \<noteq> []"
    using V by (simp_all add: add_char_def)
  ultimately show ?thesis using g l x y cell_of_add_char[OF V] by (auto simp: grid_def)
qed

lemma grid_scroll:
  assumes g: "grid b V"
  shows "grid (bootvideo_scroll (b\<lparr>curX := 0, curY := curY b + 1\<rparr>)) ((if length V < ROWS then V else tl V) @ [[]])"
proof -
  have len: "length V \<le> 25" "V \<noteq> []" and y: "unat (curY b) = length V - 1" using g by (auto simp: grid_def ROWS_def)
  have y1: "unat (curY b + 1) = length V" using len y by (simp add: unat_word_ariths(1))
  show ?thesis
  proof (cases "length V < ROWS")
    case True
    then have "bootvideo_scroll (b\<lparr>curX := 0, curY := curY b + 1\<rparr>) = b\<lparr>curX := 0, curY := curY b + 1\<rparr>"
      using y1 by (simp add: bootvideo_scroll_def COLS_def)
    moreover have "cell_of (V @ [[]]) r c = cell_of V r c" for r c by (auto simp: cell_of_def nth_append less_Suc_eq)
    ultimately show ?thesis using g True y1 by (simp add: grid_def)
  next
    case False
    then have L: "length V = 25" using len by (simp add: ROWS_def)
    let ?b = "bootvideo_scroll (b\<lparr>curX := 0, curY := curY b + 1\<rparr>)"
    have b: "curX ?b = 0" "curY ?b = 24"
      "vmem ?b = (\<lambda>i. if 1920 \<le> i \<and> i < 2000 then 0 else if i < 1920 then vmem b (i + 80) else vmem b i)"
      using L y1 by (simp_all add: bootvideo_scroll_def COLS_def ROWS_def shift_cells clear_cells_eq)
    have "vmem ?b (r * COLS + c) = cell_of (tl V @ [[]]) r c" if r: "r < ROWS" and c: "c < COLS" for r c
    proof (cases "r = 24")
      case True
      then show ?thesis using c b(3) L by (simp add: cell_of_def COLS_def nth_append)
    next
      case False
      then have r24: "r < 24" using r by (simp add: ROWS_def)
      have "r * 80 + c < 1920" using r24 c by (simp add: COLS_def)
      then have "vmem ?b (r * COLS + c) = vmem b (Suc r * COLS + c)" using b(3) by (simp add: COLS_def algebra_simps)
      also have "\<dots> = cell_of V (Suc r) c" using gridD[OF g _ c, of "Suc r"] r24 by (simp add: ROWS_def)
      also have "\<dots> = cell_of (tl V @ [[]]) r c" using L r24 by (simp add: cell_of_def nth_append nth_tl)
      finally show ?thesis .
    qed
    then show ?thesis using False L b by (simp add: grid_def ROWS_def)
  qed
qed

lemma scroll_id: "grid b V \<Longrightarrow> length (last V) < COLS \<Longrightarrow> bootvideo_scroll b = b"
  by (auto simp: grid_def bootvideo_scroll_def Let_def ROWS_def)

lemma scroll_wrap:
  "COLS \<le> unat (curX b) \<Longrightarrow> bootvideo_scroll b = bootvideo_scroll (b\<lparr>curX := 0, curY := curY b + 1\<rparr>)"
  by (simp add: bootvideo_scroll_def COLS_def)

lemma grid_new_row:
  assumes "R \<noteq> []" "grid b (visible R)"
  shows "screen_shows (bootvideo_scroll (b\<lparr>curX := 0, curY := curY b + 1\<rparr>)) (new_row R)"
  using grid_scroll[OF assms(2)] by (simp add: screen_shows_def visible_new_row) (simp add: new_row_def COLS_def)

lemma screen_shows_putc:
  assumes s: "screen_shows b R"
  shows "screen_shows (bootvideo_putc c b) (put_char c R)"
proof -
  have R: "R \<noteq> []" and l: "length (last R) < COLS" and g: "grid b (visible R)" using s by (auto simp: screen_shows_def)
  show ?thesis
  proof (cases "c = 0x0A")
    case True
    then show ?thesis using grid_new_row[OF R g] by (simp add: bootvideo_putc_def put_char_def)
  next
    case False
    define b1 where "b1 = b\<lparr>vmem := (vmem b)(unat (curY b) * COLS + unat (curX b) := glyph c), curX := curX b + 1\<rparr>"
    have R1: "add_char c R \<noteq> []" "last (add_char c R) = last R @ [c]" using R by (simp_all add: add_char_def)
    have g1: "grid b1 (visible (add_char c R))"
      unfolding b1_def visible_add_char[OF R] using grid_put[OF g] l visible_ne[OF R] by simp
    have p: "bootvideo_putc c b = bootvideo_scroll b1" using False by (simp add: bootvideo_putc_def b1_def)
    show ?thesis
    proof (cases "length (last R) + 1 < COLS")
      case True
      then have "bootvideo_scroll b1 = b1" using scroll_id[OF g1] visible_ne[OF R1(1)] R1(2) by simp
      then show ?thesis using g1 R1 True False p by (simp add: screen_shows_def put_char_def)
    next
      case full: False
      then have "COLS \<le> unat (curX b1)" using g1 visible_ne[OF R1(1)] R1(2) by (simp add: grid_def)
      then show ?thesis using grid_new_row[OF R1(1) g1] p scroll_wrap[of b1] full False by (simp add: put_char_def)
    qed
  qed
qed

lemma screen_shows_puts: "screen_shows b R \<Longrightarrow> screen_shows (fold bootvideo_putc bs b) (fold put_char bs R)"
  by (induction bs arbitrary: b R) (simp_all add: screen_shows_putc)

lemma screen_shows_cls: "screen_shows (bootvideo_cls b) [[]]"
proof -
  have "r * 80 + c < 2000" if "r < 25" "c < 80" for r c :: nat using that by simp
  then show ?thesis
    by (auto simp: screen_shows_def grid_def visible_def bootvideo_cls_def clear_cells_eq cell_of_def COLS_def ROWS_def)
qed

text \<open>Whatever the screen shows, the cursor stays on it and nothing is written past its end.\<close>

definition cursor_ok :: "bootvideo \<Rightarrow> bool" where
  "cursor_ok b \<longleftrightarrow> unat (curX b) < COLS \<and> unat (curY b) < ROWS"

lemma scroll_cursor:
  assumes "unat (curX b) \<le> COLS" "unat (curY b) + (if unat (curX b) = COLS then 1 else 0) \<le> ROWS"
  shows "cursor_ok (bootvideo_scroll b) \<and> (\<forall>i\<ge>ROWS * COLS. vmem (bootvideo_scroll b) i = vmem b i)"
proof -
  define b1 where "b1 = (if COLS \<le> unat (curX b) then b\<lparr>curX := 0, curY := curY b + 1\<rparr> else b)"
  have "unat (curY b + 1) = unat (curY b) + 1" if "unat (curX b) = COLS"
    using assms that by (simp add: unat_word_ariths(1) ROWS_def)
  then have b1: "unat (curX b1) < COLS" "unat (curY b1) \<le> ROWS" "vmem b1 = vmem b"
    using assms by (auto simp: b1_def COLS_def)
  let ?b = "b1\<lparr>vmem := clear_cells (COLS * (ROWS - 1)) (COLS * 2) (fold (\<lambda>i v. v(i := v (i + COLS))) [0..<(ROWS - 1) * COLS] (vmem b1)),
    curY := of_nat (ROWS - 1)\<rparr>"
  have s: "bootvideo_scroll b = (if ROWS \<le> unat (curY b1) then ?b else b1)"
    unfolding bootvideo_scroll_def Let_def b1_def by (rule refl)
  show ?thesis
  proof (cases "ROWS \<le> unat (curY b1)")
    case True
    then have "bootvideo_scroll b = ?b" using s by simp
    then show ?thesis using b1 by (simp add: cursor_ok_def shift_cells clear_cells_eq ROWS_def COLS_def)
  next
    case False
    then show ?thesis using s b1 by (simp add: cursor_ok_def)
  qed
qed

lemma putc_cursor:
  assumes "cursor_ok b"
  shows "cursor_ok (bootvideo_putc c b) \<and> (\<forall>i\<ge>ROWS * COLS. vmem (bootvideo_putc c b) i = vmem b i)"
proof (cases "c = 0x0A")
  case True
  have "unat (curY b + 1) = unat (curY b) + 1" using assms by (simp add: cursor_ok_def unat_word_ariths(1) ROWS_def)
  then show ?thesis using scroll_cursor[of "b\<lparr>curX := 0, curY := curY b + 1\<rparr>"] True assms
    by (simp add: bootvideo_putc_def cursor_ok_def COLS_def)
next
  case False
  let ?i = "unat (curY b) * COLS + unat (curX b)"
  have x: "unat (curX b + 1) = unat (curX b) + 1" using assms by (simp add: cursor_ok_def unat_word_ariths(1) COLS_def)
  have "unat (curY b) \<le> 24" "unat (curX b) < 80" using assms by (simp_all add: cursor_ok_def ROWS_def COLS_def)
  then have "?i < ROWS * COLS" unfolding ROWS_def COLS_def by linarith
  then show ?thesis using scroll_cursor[of "b\<lparr>vmem := (vmem b)(?i := glyph c), curX := curX b + 1\<rparr>"] False assms x
    by (simp add: bootvideo_putc_def cursor_ok_def)
qed

lemma puts_cursor:
  "cursor_ok b \<Longrightarrow> cursor_ok (fold bootvideo_putc bs b) \<and> (\<forall>i\<ge>ROWS * COLS. vmem (fold bootvideo_putc bs b) i = vmem b i)"
proof (induction bs arbitrary: b)
  case (Cons c bs)
  show ?case using Cons.IH[of "bootvideo_putc c b"] putc_cursor[OF Cons.prems, of c] by simp
qed simp

text \<open>The attribute of a character is grey on black only for the characters of ASCII.\<close>

lemma glyph_attribute: "drop_bit 8 (glyph c) = (if c < 0x80 then 7 else 6)"
proof -
  have b: "- 128 \<le> sint c" "sint c < 128" using sint_greater_eq[of c] sint_less[of c] by simp_all
  then have r: "0 \<le> sint c + 0x700" "sint c + 0x700 < 65536" by linarith+
  have "glyph c = word_of_int (sint c + 0x700)" unfolding glyph_def scast_eq by simp
  moreover have "drop_bit 8 (word_of_int (sint c + 0x700) :: u16) = word_of_int ((sint c + 0x700) div 256)"
  proof -
    have "uint (word_of_int (sint c + 0x700) :: u16) = sint c + 0x700"
      unfolding uint_word_of_int_eq using r by (intro take_bit_int_eq_self) simp_all
    then show ?thesis by (simp only: drop_bit_eq_div word_div_def) simp
  qed
  moreover have "(sint c + 0x700) div 256 = (if 0 \<le> sint c then 7 else 6)" using b by auto
  moreover have "0 \<le> sint c \<longleftrightarrow> c < 0x80"
  proof -
    have "unat c < 256" using unsigned_less[of c, where ?'a = nat] by simp
    moreover have "bit c 7 \<longleftrightarrow> odd (unat c div 2 ^ 7)" using bit_iff_odd[of "unat c" 7] by (simp add: bit_unsigned_iff)
    ultimately have "bit c 7 \<longleftrightarrow> 128 \<le> unat c"
      by (cases "unat c div 128 = 0"; cases "unat c div 128 = 1") auto
    then show ?thesis using bit_last_iff[of c] by (auto simp: word_less_nat_alt simp flip: not_less)
  qed
  ultimately show ?thesis by (simp split: if_splits)
qed

section \<open>Ports\<close>

datatype port_event = Out u16 u8 | In u16 u8

record 'd ports =
  device :: 'd
  port_log :: "port_event list"

type_synonym 'd dev_in = "u16 \<Rightarrow> 'd \<Rightarrow> u8 \<times> 'd"
type_synonym 'd dev_out = "u16 \<Rightarrow> u8 \<Rightarrow> 'd \<Rightarrow> 'd"

definition i686_outb :: "'d dev_out \<Rightarrow> u16 \<Rightarrow> u8 \<Rightarrow> 'd ports \<Rightarrow> 'd ports" where
  "i686_outb dout addr byte s = s\<lparr>device := dout addr byte (device s), port_log := port_log s @ [Out addr byte]\<rparr>"

definition i686_inb :: "'d dev_in \<Rightarrow> u16 \<Rightarrow> 'd ports \<Rightarrow> u8 \<times> 'd ports" where
  "i686_inb din addr s =
     (let (v, d) = din addr (device s) in (v, s\<lparr>device := d, port_log := port_log s @ [In addr v]\<rparr>))"

section \<open>The serial line\<close>

text \<open>\<^verbatim>\<open>tty_addrs[com]\<close>: there is one line.\<close>

definition tty_addrs :: "u16 list" where "tty_addrs = [0x3F8]"

definition tty_addr :: "int \<Rightarrow> u16 option" where
  "tty_addr com = (if 0 \<le> com \<and> nat com < length tty_addrs then Some (tty_addrs ! nat com) else None)"

definition i686_tty_init :: "'d dev_out \<Rightarrow> int \<Rightarrow> int \<Rightarrow> 'd ports \<Rightarrow> 'd ports option" where
  "i686_tty_init dout com baud s = do {
     a \<leftarrow> tty_addr com;
     let s1 = i686_outb dout (a + 1) 0x00 s;
     let s2 = i686_outb dout (a + 3) 0x80 s1;
     divisor \<leftarrow> c_div 115200 baud;
     let s3 = i686_outb dout (a + 0) (word_of_int divisor) s2;
     let s4 = i686_outb dout (a + 1) 0x00 s3;
     let s5 = i686_outb dout (a + 3) 0x03 s4;
     let s6 = i686_outb dout (a + 2) 0xC7 s5;
     Some (i686_outb dout (a + 4) 0x0B s6)
   }"

definition i686_tty_fifo_full :: "'d dev_in \<Rightarrow> int \<Rightarrow> 'd ports \<Rightarrow> (bool \<times> 'd ports) option" where
  "i686_tty_fifo_full din com s = do {
     a \<leftarrow> tty_addr com;
     let (v, s1) = i686_inb din (a + 5) s;
     Some (v AND 0x20 = 0, s1)
   }"

text \<open>\<^verbatim>\<open>while (i686_tty_fifo_full(com));\<close> does not end on a line that never becomes ready.\<close>

partial_function (option) tty_wait :: "'d dev_in \<Rightarrow> int \<Rightarrow> 'd ports \<Rightarrow> 'd ports option" where
  "tty_wait din com s = do {
     (full, s1) \<leftarrow> i686_tty_fifo_full din com s;
     if full then tty_wait din com s1 else Some s1
   }"

definition i686_tty_putchar :: "'d dev_in \<Rightarrow> 'd dev_out \<Rightarrow> int \<Rightarrow> u8 \<Rightarrow> 'd ports \<Rightarrow> 'd ports option" where
  "i686_tty_putchar din dout com c s = do {
     s1 \<leftarrow> tty_wait din com s;
     a \<leftarrow> tty_addr com;
     Some (i686_outb dout a c s1)
   }"

partial_function (option) i686_tty_puts ::
  "'d dev_in \<Rightarrow> 'd dev_out \<Rightarrow> int \<Rightarrow> 's load8 \<Rightarrow> virtaddr_t \<Rightarrow> 's \<Rightarrow> 'd ports \<Rightarrow> 'd ports option" where
  "i686_tty_puts din dout com ld p m s = do {
     c \<leftarrow> ld p m;
     if c \<noteq> 0 then do { s1 \<leftarrow> i686_tty_putchar din dout com c s; i686_tty_puts din dout com ld (p + 1) m s1 }
     else Some s
   }"

text \<open>What the line relies on: whatever happened before, polling its status ends.\<close>

definition poll :: "'d dev_in \<Rightarrow> 'd \<Rightarrow> 'd" where
  "poll din d = snd (din 0x3FD d)"

definition line_drains :: "'d dev_in \<Rightarrow> bool" where
  "line_drains din \<longleftrightarrow>
     (\<forall>d. \<exists>n. fst (din 0x3FD ((poll din ^^ n) d)) AND 0x20 \<noteq> 0)"

text \<open>The bytes sent, and that each is written right after the status said that the line can take it.\<close>

fun sent :: "port_event list \<Rightarrow> u8 list" where
  "sent [] = []"
| "sent (Out a b # es) = (if a = 0x3F8 then b # sent es else sent es)"
| "sent (In a v # es) = sent es"

fun paced :: "bool \<Rightarrow> port_event list \<Rightarrow> bool" where
  "paced r [] \<longleftrightarrow> True"
| "paced r (In a v # es) \<longleftrightarrow> paced (a = 0x3FD \<and> v AND 0x20 \<noteq> 0) es"
| "paced r (Out a b # es) \<longleftrightarrow> r \<and> paced False es"

fun ready_after :: "bool \<Rightarrow> port_event list \<Rightarrow> bool" where
  "ready_after r [] \<longleftrightarrow> r"
| "ready_after r (In a v # es) \<longleftrightarrow> ready_after (a = 0x3FD \<and> v AND 0x20 \<noteq> 0) es"
| "ready_after r (Out a b # es) \<longleftrightarrow> ready_after False es"

lemma sent_append [simp]: "sent (xs @ ys) = sent xs @ sent ys"
  by (induction xs rule: sent.induct) simp_all

lemma paced_append [simp]: "paced r (xs @ ys) \<longleftrightarrow> paced r xs \<and> paced (ready_after r xs) ys"
  by (induction r xs rule: paced.induct) simp_all

lemma tty_wait_ready:
  assumes "fst (din 0x3FD ((poll din ^^ n) (device s))) AND 0x20 \<noteq> 0"
  shows "\<exists>s' log. tty_wait din 0 s = Some s' \<and> port_log s' = port_log s @ log \<and> sent log = [] \<and>
    (\<forall>r. paced r log \<and> ready_after r log)"
  using assms
proof (induction n arbitrary: s)
  case 0
  obtain v d where v: "din 0x3FD (device s) = (v, d)" by force
  then have "tty_wait din 0 s = Some (s\<lparr>device := d, port_log := port_log s @ [In 0x3FD v]\<rparr>)"
    using 0 by (subst tty_wait.simps) (simp add: i686_tty_fifo_full_def tty_addr_def tty_addrs_def i686_inb_def)
  then show ?case using 0 v by (intro exI[of _ "s\<lparr>device := d, port_log := port_log s @ [In 0x3FD v]\<rparr>"] exI[of _ "[In 0x3FD v]"]) simp
next
  case (Suc n)
  obtain v d where v: "din 0x3FD (device s) = (v, d)" by force
  let ?s1 = "s\<lparr>device := d, port_log := port_log s @ [In 0x3FD v]\<rparr>"
  have un: "tty_wait din 0 s = (if v AND 0x20 = 0 then tty_wait din 0 ?s1 else Some ?s1)"
    using v by (subst tty_wait.simps) (simp add: i686_tty_fifo_full_def tty_addr_def tty_addrs_def i686_inb_def)
  show ?case
  proof (cases "v AND 0x20 = 0")
    case True
    have "fst (din 0x3FD ((poll din ^^ n) (device ?s1))) AND 0x20 \<noteq> 0"
      using Suc.prems v unfolding funpow_Suc_right o_apply by (simp add: poll_def)
    from Suc.IH[OF this] obtain s' log where s': "tty_wait din 0 ?s1 = Some s'" "port_log s' = port_log ?s1 @ log" "sent log = []"
      "\<forall>r. paced r log \<and> ready_after r log" by blast
    then show ?thesis using un True by (intro exI[of _ s'] exI[of _ "In 0x3FD v # log"]) simp
  next
    case False
    then show ?thesis using un by (intro exI[of _ ?s1] exI[of _ "[In 0x3FD v]"]) simp
  qed
qed

lemma i686_tty_puts_sends:
  assumes "line_drains din" "cstr ld m p bs"
  shows "\<exists>s' log. i686_tty_puts din dout 0 ld p m s = Some s' \<and> port_log s' = port_log s @ log \<and> sent log = bs \<and> paced r log"
  using assms(2)
proof (induction bs arbitrary: p s r)
  case Nil
  then show ?case by (subst i686_tty_puts.simps) simp
next
  case (Cons c bs)
  obtain n where "fst (din 0x3FD ((poll din ^^ n) (device s))) AND 0x20 \<noteq> 0"
    using assms(1) unfolding line_drains_def by blast
  from tty_wait_ready[of din n s, OF this] obtain s1 log1 where s1: "tty_wait din 0 s = Some s1" "port_log s1 = port_log s @ log1" "sent log1 = []"
    "\<forall>r. paced r log1 \<and> ready_after r log1" by blast
  let ?s2 = "i686_outb dout 0x3F8 c s1"
  have "cstr ld m (p + 1) bs" using Cons.prems by simp
  from Cons.IH[OF this] obtain s' log where s': "i686_tty_puts din dout 0 ld (p + 1) m ?s2 = Some s'"
    "port_log s' = port_log ?s2 @ log" "sent log = bs" "paced False log" by blast
  have "i686_tty_puts din dout 0 ld p m s = Some s'"
    using Cons.prems s1(1) s'(1) by (subst i686_tty_puts.simps) (simp add: i686_tty_putchar_def tty_addr_def tty_addrs_def)
  then show ?case using s' s1 by (intro exI[of _ s'] exI[of _ "log1 @ Out 0x3F8 c # log"]) (simp add: i686_outb_def)
qed

text \<open>\<^verbatim>\<open>i686_tty_init(0, 9600)\<close>: the bytes written, in their order.\<close>

lemma i686_tty_init_log:
  "map_option port_log (i686_tty_init dout 0 9600 s) =
     Some (port_log s @ [Out 0x3F9 0, Out 0x3FB 0x80, Out 0x3F8 12, Out 0x3F9 0, Out 0x3FB 3, Out 0x3FA 0xC7, Out 0x3FC 0x0B])"
  by (simp add: i686_tty_init_def tty_addr_def tty_addrs_def c_div_def signed_divide_int_def i686_outb_def)

section \<open>Debug messages\<close>

record 'd console =
  screen :: bootvideo
  ports :: "'d ports"
  use_serial :: bool

text \<open>\<open>buf\<close> is the local array of \<^verbatim>\<open>k_snprintf_vaarg\<close> and \<open>debugbuf\<close> the static one of \<^verbatim>\<open>i686.c\<close>.\<close>

definition i686_debug ::
  "'d dev_in \<Rightarrow> 'd dev_out \<Rightarrow> 's load8 \<Rightarrow> 's store8 \<Rightarrow> virtaddr_t \<Rightarrow> virtaddr_t \<Rightarrow> virtaddr_t \<Rightarrow> u32 list \<Rightarrow>
   's \<times> 'd console \<Rightarrow> ('s \<times> 'd console) option" where
  "i686_debug din dout ld st buf debugbuf fmt ap = (\<lambda>(m, k). do {
     m1 \<leftarrow> k_snprintf_vaarg ld st buf debugbuf 256 fmt ap m;
     if use_serial k then do {
       p \<leftarrow> i686_tty_puts din dout 0 ld debugbuf m1 (ports k);
       Some (m1, k\<lparr>ports := p\<rparr>)
     }
     else do {
       (_, v) \<leftarrow> bootvideo_puts ld debugbuf m1 (screen k);
       Some (m1, k\<lparr>screen := v\<rparr>)
     }
   })"

lemma i686_debug_prints:
  assumes "k_snprintf_vaarg ld st buf debugbuf 256 fmt ap m = Some m1" "cstr ld m1 debugbuf bs" "line_drains din"
  shows "\<exists>k'. i686_debug din dout ld st buf debugbuf fmt ap (m, k) = Some (m1, k') \<and> use_serial k' = use_serial k \<and>
    (if use_serial k then screen k' = screen k \<and> (\<exists>log. port_log (ports k') = port_log (ports k) @ log \<and> sent log = bs)
     else ports k' = ports k \<and> screen k' = fold bootvideo_putc bs (screen k))"
proof (cases "use_serial k")
  case True
  from i686_tty_puts_sends[OF assms(3,2), of dout "ports k" False] obtain p log where
    p: "i686_tty_puts din dout 0 ld debugbuf m1 (ports k) = Some p" "port_log p = port_log (ports k) @ log" "sent log = bs" by blast
  then show ?thesis using True assms(1) by (intro exI[of _ "k\<lparr>ports := p\<rparr>"]) (auto simp: i686_debug_def)
next
  case False
  then show ?thesis using assms(1) bootvideo_puts_cstr[OF assms(2), of "screen k"] by (simp add: i686_debug_def)
qed

text \<open>A message that fits into the buffer reaches the screen or the line.\<close>

lemma i686_debug_format:
  assumes f: "print_frame kvirt_loc vm_ld m debugbuf cs buf ds S str" and len: "length cs = 256"
    and fmt: "cstr vm_ld m fmt fs" "apart kvirt_loc m (cs @ ds) fmt (length fs)" "format_ok S fs ap"
    and fit: "length (format_text str fs ap) < 256" and l0: "kvirt_loc m (debugbuf - 1) = Some l0" "l0 \<notin> set cs"
    and dr: "line_drains din"
  obtains m1 k' where "i686_debug din dout vm_ld vm_st buf debugbuf fmt ap (m, k) = Some (m1, k')"
    "use_serial k' = use_serial k" "kvirt_loc m1 = kvirt_loc m"
    "\<forall>l. l \<noteq> l0 \<longrightarrow> l \<notin> set cs \<longrightarrow> l \<notin> set ds \<longrightarrow> pmem m1 l = pmem m l"
    "if use_serial k then screen k' = screen k \<and> (\<exists>log. port_log (ports k') = port_log (ports k) @ log \<and> sent log = format_text str fs ap)
     else ports k' = ports k \<and> screen k' = fold bootvideo_putc (format_text str fs ap) (screen k)"
proof -
  have "length cs = unat (256 :: u32)" using len by simp
  from kvm.k_snprintf_prints[OF f this fmt _ l0] fit len obtain m1 where
    m1: "k_snprintf_vaarg vm_ld vm_st buf debugbuf 256 fmt ap m = Some m1" "cstr vm_ld m1 debugbuf (format_text str fs ap)"
    "kvirt_loc m1 = kvirt_loc m" "\<forall>l. l \<noteq> l0 \<longrightarrow> l \<notin> set cs \<longrightarrow> l \<notin> set ds \<longrightarrow> pmem m1 l = pmem m l" by auto
  from i686_debug_prints[OF m1(1,2) dr, of dout k] show thesis using that m1(3,4) by blast
qed

section \<open>Properties\<close>

definition example_screen :: bootvideo where
  "example_screen = \<lparr>curX = 3, curY = 7, vmem = \<lambda>i. 0x1234\<rparr>"

lemma cells_apart:
  assumes "a + n \<le> b" "b + m < 2 ^ 32"
  shows "set (map (\<lambda>i. of_nat a + of_nat i :: u32) [0..<n]) \<inter> set (map (\<lambda>i. of_nat b + of_nat i) [0..<m]) = {}"
proof -
  have "of_nat a + of_nat i \<noteq> (of_nat b + of_nat j :: u32)" if "i < n" "j < m" for i j
  proof
    assume "of_nat a + of_nat i = (of_nat b + of_nat j :: u32)"
    then have "unat (of_nat (a + i) :: u32) = unat (of_nat (b + j) :: u32)" by simp
    then show False using assms that by (simp add: unat_of_nat del: of_nat_add)
  qed
  then show ?thesis by auto
qed

definition example_line :: "nat dev_in" where
  "example_line p d = (if p = 0x3FD then (if d = 0 then 0x20 else 0, if d = 0 then 2 else d - 1) else (0, d))"

lemma example_line_drains: "line_drains example_line"
  unfolding line_drains_def
proof
  fix d
  have "(poll example_line ^^ n) (k + n) = k" for n k
    by (induction n arbitrary: k) (simp_all add: funpow_Suc_right poll_def example_line_def del: funpow.simps(2))
  from this[of d 0] show "\<exists>n. fst (example_line 0x3FD ((poll example_line ^^ n) d)) AND 0x20 \<noteq> 0"
    by (intro exI[of _ d]) (simp add: example_line_def)
qed

text \<open>
  C37. The type of the screen state: whatever is printed, the cursor stays on the screen, that is in 80 columns and 25 rows, and
  no cell after the last is written.
\<close>

theorem cursor_stays_on_screen:
  assumes "cursor_ok b" and "cstr ld s p bs"
  shows "\<exists>b'. bootvideo_puts ld p s b = Some (of_nat (length bs), b') \<and> cursor_ok b' \<and>
    (\<forall>i\<ge>ROWS * COLS. vmem b' i = vmem b i)"
  using bootvideo_puts_cstr[OF assms(2), of b] puts_cursor[OF assms(1), of bs] by blast

theorem cursor_stays_on_screen_witness:
  "\<exists>b'. bootvideo_puts vm_ld 0xC0000000 example_strings example_screen = Some (3, b') \<and> cursor_ok b'"
proof -
  have "cursor_ok example_screen" by (simp add: cursor_ok_def example_screen_def COLS_def ROWS_def)
  moreover have "of_nat (length [0x61, 0x62, 0x63 :: u8]) = (3 :: u32)" by simp
  ultimately show ?thesis using cursor_stays_on_screen[OF _ example_strings_cstr(1)] by metis
qed

text \<open>
  C36. The screen shows the last 25 rows of the text printed since it was cleared: rows end at a newline or after 80 characters,
  \<^verbatim>\<open>bootvideo_puts\<close> returns the length of the string, and the scrolling keeps the rows in their order.
\<close>

theorem screen_shows_last_rows:
  assumes "screen_shows b R" and "cstr ld s p bs"
  shows "\<exists>b'. bootvideo_puts ld p s b = Some (of_nat (length bs), b') \<and> screen_shows b' (fold put_char bs R)"
  using bootvideo_puts_cstr[OF assms(2), of b] screen_shows_puts[OF assms(1), of bs] by blast

theorem screen_shows_last_rows_witness:
  "\<exists>b'. bootvideo_puts vm_ld 0xC0000000 example_strings (bootvideo_cls example_screen) = Some (3, b') \<and>
     screen_shows b' [[0x61, 0x62, 0x63]]"
  using screen_shows_last_rows[OF screen_shows_cls example_strings_cstr(1), of example_screen]
  by (simp add: put_char_def new_row_def add_char_def COLS_def numeral_3_eq_3)

text \<open>
  C38. \<^verbatim>\<open>i686_tty_puts\<close> on a line that becomes ready again and again returns, sends the bytes of the string in their
  order, and writes to a port only right after the status said that the line can take a byte.
\<close>

theorem tty_sends_when_ready:
  assumes "line_drains din" and "cstr ld m p bs"
  shows "\<exists>s' log. i686_tty_puts din dout 0 ld p m s = Some s' \<and> port_log s' = port_log s @ log \<and> sent log = bs \<and> paced False log"
  by (rule i686_tty_puts_sends[OF assms])

theorem tty_sends_when_ready_witness:
  "\<exists>s' log. i686_tty_puts example_line (\<lambda>a b d. d) 0 vm_ld 0xC0000000 example_strings \<lparr>device = 1, port_log = []\<rparr> = Some s' \<and>
     port_log s' = log \<and> sent log = [0x61, 0x62, 0x63] \<and> paced False log"
  using tty_sends_when_ready[OF example_line_drains example_strings_cstr(1), of "\<lambda>a b d. d" "\<lparr>device = 1, port_log = []\<rparr>"] by simp

text \<open>
  \<^verbatim>\<open>i686_debug\<close>: a message whose text fits into 255 bytes reaches the serial line when the command line asked for it and the
  screen otherwise, and the other device is not touched.
\<close>

theorem debug_reaches_console:
  assumes "print_frame kvirt_loc vm_ld m debugbuf cs buf ds S str" and "length cs = 256"
    and "cstr vm_ld m fmt fs" "apart kvirt_loc m (cs @ ds) fmt (length fs)" "format_ok S fs ap"
    and "length (format_text str fs ap) < 256" and "kvirt_loc m (debugbuf - 1) = Some l0" "l0 \<notin> set cs" and "line_drains din"
  shows "\<exists>m' k'. i686_debug din dout vm_ld vm_st buf debugbuf fmt ap (m, k) = Some (m', k') \<and>
    (if use_serial k then screen k' = screen k \<and> (\<exists>log. port_log (ports k') = port_log (ports k) @ log \<and> sent log = format_text str fs ap)
     else ports k' = ports k \<and> (\<forall>R. screen_shows (screen k) R \<longrightarrow> screen_shows (screen k') (fold put_char (format_text str fs ap) R)))"
proof -
  obtain m' k' where "i686_debug din dout vm_ld vm_st buf debugbuf fmt ap (m, k) = Some (m', k')"
    "if use_serial k then screen k' = screen k \<and> (\<exists>log. port_log (ports k') = port_log (ports k) @ log \<and> sent log = format_text str fs ap)
     else ports k' = ports k \<and> screen k' = fold bootvideo_putc (format_text str fs ap) (screen k)"
    by (rule i686_debug_format[OF assms, of dout k])
  then show ?thesis by (auto split: if_splits intro: screen_shows_puts)
qed

theorem debug_reaches_console_witness:
  "\<exists>m' k'. i686_debug example_line (\<lambda>a b d. d) vm_ld vm_st 0xC0001010 0xC0001100 0xC0000000 [0xC0000010, 0xFFFFFFF6]
       (example_format, \<lparr>screen = bootvideo_cls example_screen, ports = \<lparr>device = 1, port_log = []\<rparr>, use_serial = False\<rparr>) = Some (m', k') \<and>
     screen_shows (screen k') [[0x62, 0x63, 0x3D, 0x2D, 0x31, 0x30]]"
proof -
  let ?cs = "map (\<lambda>i. 0x6100 + of_nat i :: u32) [0..<256]" and ?ds = "map (\<lambda>i. 0x6010 + of_nat i :: u32) [0..<20]"
  let ?fs = "[0x25, 0x73, 0x3D, 0x25, 0x64 :: u8]" and ?ap = "[0xC0000010, 0xFFFFFFF6 :: u32]"
  let ?k = "\<lparr>screen = bootvideo_cls example_screen, ports = \<lparr>device = 1 :: nat, port_log = []\<rparr>, use_serial = False\<rparr>"
  note w = example_format_windows and kd = kaddr_0_1[unfolded One_nat_def]
  have b: "buffer kvirt_loc example_format 0xC0001100 ?cs" "buffer kvirt_loc example_format 0xC0001010 ?ds"
    using window_buffer[OF w(2), of 256 256] window_buffer[OF w(2), of 16 20] by (simp_all add: kd frame_addr_def)
  have a: "apart kvirt_loc example_format (?cs @ ?ds) 0xC0000010 2" "apart kvirt_loc example_format (?cs @ ?ds) 0xC0000000 5"
    unfolding apart_append
    using window_apart[OF w(2,1), of 256 256 16 2] window_apart[OF w(2,1), of 16 20 16 2]
      window_apart[OF w(2,1), of 256 256 0 5] window_apart[OF w(2,1), of 16 20 0 5] by (simp_all add: kd frame_addr_def)
  have d: "set ?cs \<inter> set ?ds = {}" using cells_apart[of 24592 20 24832 256] by (simp add: Int_commute)
  have f: "print_frame kvirt_loc vm_ld example_format 0xC0001100 ?cs 0xC0001010 ?ds {0xC0000010} (\<lambda>x. [0x62, 0x63])"
    unfolding print_frame_def
  proof (intro conjI ballI)
    have l2: "length [0x62, 0x63 :: u8] = 2" by simp
    show "length ?ds = 20" by simp
    show "cstr vm_ld example_format x [0x62, 0x63]" if "x \<in> {0xC0000010}" for x
      using that example_format_strings(2) by simp
    show "apart kvirt_loc example_format (?cs @ ?ds) x (length [0x62, 0x63 :: u8])" if "x \<in> {0xC0000010}" for x
    proof -
      have "x = 0xC0000010" using that by simp
      then show ?thesis unfolding l2 using a(1) by (simp only:)
    qed
  qed (rule b d)+
  have a5: "apart kvirt_loc example_format (?cs @ ?ds) 0xC0000000 (length ?fs)"
  proof -
    have "length ?fs = 5" by simp
    then show ?thesis using a(2) by (simp only:)
  qed
  have l: "kvirt_loc example_format (0xC0001100 - 1) = Some 0x60FF"
    by (simp add: kvirt_loc_def highstart_def example_strings_def example_format_def frame_addr_def)
  have n: "0x60FF \<notin> set ?cs" using cells_apart[of 24831 1 24832 256] by simp
  have t: "format_text (\<lambda>x. [0x62, 0x63]) ?fs ?ap = [0x62, 0x63, 0x3D, 0x2D, 0x31, 0x30]"
    by (simp add: itoa_text_def number_text_def nat_char_def ldigits.simps digit_char_def)
  have ok: "format_ok {0xC0000010} ?fs ?ap" and fit: "length (format_text (\<lambda>x. [0x62, 0x63]) ?fs ?ap) < 256" and c: "length ?cs = 256"
    unfolding t by simp_all
  have "fold put_char [0x62, 0x63, 0x3D, 0x2D, 0x31, 0x30] [[]] = [[0x62, 0x63, 0x3D, 0x2D, 0x31, 0x30]]"
    by (simp add: put_char_def new_row_def add_char_def COLS_def)
  then show ?thesis
    using debug_reaches_console[OF f c example_format_strings(1) a5 ok fit l n example_line_drains, where dout = "\<lambda>a b d. d" and k = ?k, unfolded t]
      screen_shows_cls[of example_screen] by fastforce
qed

end
