(* ===== verification/Kmain.thy ===== *)
theory Kmain
  imports Boot Console
begin

text \<open>
  The kernel's main function, \<^verbatim>\<open>i686_kmain\<close> of \<^verbatim>\<open>src/sys/i686/i686.c\<close>, with its messages, and the entry
  of exceptions, \<^verbatim>\<open>i686_int_entry\<close> and \<^verbatim>\<open>i686_pagefault\<close> of \<^verbatim>\<open>src/sys/i686/i686_cpu.c\<close>.  The
  state is that of the memory, the scheduler and the objects, of the processor and of the console.  Where the code stops in
  \<^verbatim>\<open>while (1);\<close> the result is the state in which it stops.
\<close>

section \<open>The machine\<close>

record ('z, 'd) machine =
  km :: "'z sched_state"
  proc :: i686_cpu
  con :: "'d console"

text \<open>
  The device of the serial line, the addresses of the local buffer of \<^verbatim>\<open>k_snprintf_vaarg\<close>, of \<^verbatim>\<open>debugbuf\<close>
  and of the string literals.
\<close>

record 'd kenv =
  e_in :: "'d dev_in"
  e_out :: "'d dev_out"
  e_buf :: virtaddr_t
  e_debugbuf :: virtaddr_t
  lit :: "string \<Rightarrow> virtaddr_t"

definition vm_of :: "('z, 'd) machine \<Rightarrow> vm_state" where
  "vm_of M = km_vm (km M)"

definition set_vm :: "vm_state \<Rightarrow> ('z, 'd) machine \<Rightarrow> ('z, 'd) machine" where
  "set_vm vm M = M\<lparr>km := (km M)\<lparr>km_vm := vm\<rparr>\<rparr>"

definition kdebug :: "'d kenv \<Rightarrow> string \<Rightarrow> u32 list \<Rightarrow> ('z, 'd) machine \<Rightarrow> ('z, 'd) machine option" where
  "kdebug env fmt ap M = do {
     (vm, k) \<leftarrow> i686_debug (e_in env) (e_out env) vm_ld vm_st (e_buf env) (e_debugbuf env) (lit env fmt) ap (vm_of M, con M);
     Some ((set_vm vm M)\<lparr>con := k\<rparr>)
   }"

abbreviation nl :: string where "nl \<equiv> [CHR 0x0A]"

section \<open>Exceptions\<close>

text \<open>\<open>cr2\<close> is the register that \<^verbatim>\<open>i686_pagefault_getaddr\<close> reads.\<close>

definition i686_pagefault :: "'d kenv \<Rightarrow> u32 \<Rightarrow> i686_context \<Rightarrow> ('z, 'd) machine \<Rightarrow> ('z, 'd) machine option" where
  "i686_pagefault env cr2 c M = do {
     let e = i686_pagefault_decode (c_err_code c);
     M1 \<leftarrow> kdebug env (''Page fault: P:%d  W:%d  U:%d  R:%d  IO:%d'' @ nl)
       [of_bool (pf_present e), of_bool (pf_write e), of_bool (pf_usermode e), of_bool (pf_reserved e), of_bool (pf_io e)] M;
     kdebug env (''            Target Address: %x,  EIP: %x'' @ nl) [cr2, c_eip c] M1
   }"

definition i686_int_entry :: "'d kenv \<Rightarrow> u32 \<Rightarrow> i686_context \<Rightarrow> ('z, 'd) machine \<Rightarrow> ('z, 'd) machine option" where
  "i686_int_entry env cr2 c M = do {
     M1 \<leftarrow> kdebug env (''Interrupt received: %d'' @ nl) [c_int_no c] M;
     if c_int_no c = of_nat (exception_number E_PF) then i686_pagefault env cr2 c M1 else Some M1
   }"

section \<open>The main function\<close>

text \<open>
  The boot loader's strings are below the first four megabytes, which the directory of the loader maps with the page table of the
  kernel's first four.
\<close>

definition boot_ld :: "vm_state load8" where
  "boot_ld a s =
     (if a < 0x400000
      then if pd_present (kernel_pd s 0) \<and> pd_phys_addr (kernel_pd s 0) = frame_of (sym_kernel_pts s - highstart)
           then vm_ld (a + highstart) s else None
      else vm_ld a s)"

definition MULTIBOOT_BOOTLOADER_MAGIC :: u32 where "MULTIBOOT_BOOTLOADER_MAGIC = 0x2BADB002"

text \<open>Up to the test of the boot loader's number; the result is whether to go on.\<close>

definition kmain_console :: "'d kenv \<Rightarrow> u32 \<Rightarrow> multiboot_info_t \<Rightarrow> ('z, 'd) machine \<Rightarrow> (bool \<times> ('z, 'd) machine) option" where
  "kmain_console env magic info M = do {
     let M1 = M\<lparr>con := (con M)\<lparr>screen := bootvideo_cls (screen (con M))\<rparr>\<rparr>;
     serial \<leftarrow> parse_cmdline boot_ld (lit env ''use_serial'') (mi_cmdline info) (vm_of M1);
     let M2 = (if serial then M1\<lparr>con := (con M1)\<lparr>use_serial := True\<rparr>\<rparr> else M1);
     M3 \<leftarrow> (if use_serial (con M2) then do {
              p \<leftarrow> i686_tty_init (e_out env) 0 9600 (ports (con M2));
              Some (M2\<lparr>con := (con M2)\<lparr>ports := p\<rparr>\<rparr>)
            }
            else Some M2);
     if magic \<noteq> MULTIBOOT_BOOTLOADER_MAGIC then do {
       M4 \<leftarrow> kdebug env (''Not booted from multiboot loader!'' @ nl) [] M3;
       Some (False, M4)
     }
     else do {
       M4 \<leftarrow> kdebug env (''mods_addr: %x'' @ nl @ ''mod_start: %x'' @ nl) [mi_mods_addr info, 0] M3;
       Some (True, M4)
     }
   }"

text \<open>
  The initialisations.  \<open>cpu\<close>, \<open>feeder\<close> and \<open>sched\<close> are the addresses of \<^verbatim>\<open>i686cpu\<close> and of its parts,
  \<open>phys\<close> that of the kernel's allocator and \<open>k\<close> that of \<^verbatim>\<open>i686_kernel\<close>; \<open>eax\<close> and \<open>handler\<close> are the
  arguments of \<^verbatim>\<open>i686_cpu_init\<close>.
\<close>

record kaddrs =
  a_kernel :: u32
  a_cpu :: cpu_ptr
  a_feeder :: physmem_ptr
  a_phys :: physmem_ptr
  a_sched :: sched_ptr
  a_testcpybuf :: virtaddr_t
  a_opcodes :: virtaddr_t

definition kmain_init ::
  "kaddrs \<Rightarrow> (u32 \<Rightarrow> u32) \<Rightarrow> (nat \<Rightarrow> u32) \<Rightarrow> multiboot_info_t \<Rightarrow> ('z, 'd) machine \<Rightarrow> ('z, 'd) machine option" where
  "kmain_init ka eax handler info M = do {
     let s1 = upd_ext (\<lambda>x. x\<lparr>bsp := a_cpu ka\<rparr>) (km M);
     vm1 \<leftarrow> i686_virtmem_init (km_vm s1);
     (phys, vm2) \<leftarrow> i686_physmem_alloc (a_phys ka) (a_kernel ka) info vm1;
     let s2 = kmem_init (s1\<lparr>km_vm := vm2\<rparr>);
     (s3, c) \<leftarrow> i686_cpu_init eax handler (a_feeder ka) phys (a_sched ka) (s2, proc M);
     Some (M\<lparr>km := s3, proc := c\<rparr>)
   }"

text \<open>The test of the memory: a page and an object of a cache, each written and printed.\<close>

definition kmain_test_memory ::
  "'d kenv \<Rightarrow> 'z sched_data_scheme kmem_run \<Rightarrow> ('z, 'd) machine \<Rightarrow> (virtaddr_t \<times> ('z, 'd) machine) option" where
  "kmain_test_memory env run M = do {
     ((e1, out), vm1) \<leftarrow> virtmem_kernel_alloc 1 (vm_of M);
     c_assert (e1 = VIRTMEM_SUCCESS);
     a \<leftarrow> out;
     ((e2, page), vm2) \<leftarrow> local_page_alloc vm1;
     c_assert (e2 = PHYSMEM_SUCCESS);
     p \<leftarrow> page;
     (_, vm3) \<leftarrow> virtmem_kernel_map_virt_to_phys p a vm2;
     M1 \<leftarrow> kdebug env (''Allocated address: %x(->%x)'' @ nl) [a, p] (set_vm vm3 M);
     (_, vm4) \<leftarrow> strcpy vm_ld vm_st a (lit env ''This shows the validity of this memory'') (vm_of M1);
     M2 \<leftarrow> kdebug env (''%x contains: %s'' @ nl) [a, a] (set_vm vm4 M1);
     let (c, s1) = kmem_alloc (km M2);
     let (_, s2) = kmem_cache_init c (bsp (km_ext s1)) ''test'' 128 None None s1;
     (t, s3) \<leftarrow> kmem_cache_alloc run c s2;
     M3 \<leftarrow> kdebug env (''cache at %x provided us with %x'' @ nl) [c, t] (M2\<lparr>km := s3\<rparr>);
     (_, vm5) \<leftarrow> strcpy vm_ld vm_st t (lit env ''This shows the validity of the slab allocation'') (vm_of M3);
     M4 \<leftarrow> kdebug env (''%x contains: %s'' @ nl) [t, t] (set_vm vm5 M3);
     Some (a, M4)
   }"

text \<open>An address space with one region, and the test of the copies; \<open>a0\<close> is the variable \<^verbatim>\<open>a\<close> of the function.\<close>

definition kmain_test_user ::
  "'d kenv \<Rightarrow> kaddrs \<Rightarrow> 'z sched_data_scheme kmem_run \<Rightarrow> virtaddr_t \<Rightarrow> ('z, 'd) machine \<Rightarrow> (as_ptr \<times> ('z, 'd) machine) option" where
  "kmain_test_user env ka run a0 M = do {
     let s1 = i686_address_space_init (bsp (km_ext (km M))) (km M);
     ((_, as), s2) \<leftarrow> address_space_alloc run s1;
     ((_, mr), s3) \<leftarrow> memory_region_alloc run s2;
     ((_, out), vm1) \<leftarrow> virtmem_kernel_alloc 1 (km_vm s3);
     let a = (case out of None \<Rightarrow> a0 | Some v \<Rightarrow> v);
     let pd = as_pd (as_obj (km_ext s3) as);
     (_, vm2) \<leftarrow> virtmem_kernel_map_virt_to_phys pd a vm1;
     (_, s4) \<leftarrow> address_space_init_region as mr 0x1000000 0x2000 (s3\<lparr>km_vm := vm2\<rparr>);
     (_, s5) \<leftarrow> memory_region_set_flags mr 1 1 s4;
     (_, s6) \<leftarrow> memory_region_map as mr 0 s5;
     let teststr = lit env ''This is a test string to be copied to userspace.'';
     vm3 \<leftarrow> vm_st (a_opcodes ka) 0xEB (km_vm s6);
     vm4 \<leftarrow> vm_st (a_opcodes ka + 1) 0xFE vm3;
     n \<leftarrow> strlen vm_ld teststr vm4;
     (_, vm5) \<leftarrow> virtmem_copy_kernel_to_user pd 0x1000FFC teststr (n + 1) vm4;
     (_, vm6) \<leftarrow> virtmem_copy_user_to_kernel (a_testcpybuf ka) pd 0x1000FFC (n + 1) vm5;
     M1 \<leftarrow> kdebug env (''testcpybuf contains '' @ [CHR 0x27] @ ''%s'' @ [CHR 0x27] @ nl) [a_testcpybuf ka] (M\<lparr>km := s6\<lparr>km_vm := vm6\<rparr>\<rparr>);
     (_, vm7) \<leftarrow> virtmem_copy_kernel_to_user pd 0x1000000 (a_opcodes ka) 2 (vm_of M1);
     Some (as, set_vm vm7 M1)
   }"

datatype kmain_end = Stopped | User user_regs

definition i686_kmain ::
  "'d kenv \<Rightarrow> kaddrs \<Rightarrow> (u32 \<Rightarrow> u32) \<Rightarrow> (nat \<Rightarrow> u32) \<Rightarrow> u32 \<Rightarrow> multiboot_info_t \<Rightarrow> ('z, 'd) machine \<Rightarrow>
   (kmain_end \<times> ('z, 'd) machine) option" where
  "i686_kmain env ka eax handler magic info M = do {
     (go, M1) \<leftarrow> kmain_console env magic info M;
     if \<not> go then Some (Stopped, M1)
     else do {
       M2 \<leftarrow> kmain_init ka eax handler info M1;
       M3 \<leftarrow> kdebug env (''Location GDT entry: %x'' @ nl) [sym_gdt (proc M2)] M2;
       (a, M4) \<leftarrow> kmain_test_memory env i686_run M3;
       (as, M5) \<leftarrow> kmain_test_user env ka i686_run a M4;
       (regs, s) \<leftarrow> start_thread i686_run (a_sched ka) as (km M5);
       Some (User regs, M5\<lparr>km := s\<rparr>)
     }
   }"

section \<open>Messages\<close>

definition c_bytes :: "string \<Rightarrow> u8 list" where
  "c_bytes t = map of_char t"

text \<open>The buffers of the messages are mapped; a literal is in memory and away from them.\<close>

definition console_ok :: "'d kenv \<Rightarrow> physaddr_t list \<Rightarrow> physaddr_t list \<Rightarrow> physaddr_t \<Rightarrow> vm_state \<Rightarrow> bool" where
  "console_ok env cs ds l0 vm \<longleftrightarrow>
     buffer kvirt_loc vm (e_debugbuf env) cs \<and> length cs = 256 \<and> buffer kvirt_loc vm (e_buf env) ds \<and> length ds = 20 \<and>
     set cs \<inter> set ds = {} \<and> kvirt_loc vm (e_debugbuf env - 1) = Some l0 \<and> l0 \<notin> set cs \<and> line_drains (e_in env)"

definition literal_ok :: "'d kenv \<Rightarrow> physaddr_t list \<Rightarrow> physaddr_t list \<Rightarrow> physaddr_t \<Rightarrow> vm_state \<Rightarrow> string \<Rightarrow> bool" where
  "literal_ok env cs ds l0 vm t \<longleftrightarrow>
     cstr vm_ld vm (lit env t) (c_bytes t) \<and> apart kvirt_loc vm (l0 # cs @ ds) (lit env t) (length t)"

text \<open>The text went to the device that is in use, and the other was not touched.\<close>

definition printed_on :: "'d console \<Rightarrow> 'd console \<Rightarrow> u8 list \<Rightarrow> bool" where
  "printed_on k k' T \<longleftrightarrow> use_serial k' = use_serial k \<and>
     (if use_serial k then screen k' = screen k \<and> (\<exists>log. port_log (ports k') = port_log (ports k) @ log \<and> sent log = T)
      else ports k' = ports k \<and> screen k' = fold bootvideo_putc T (screen k))"

lemma printed_on_trans:
  assumes "printed_on k k1 S" "printed_on k1 k2 T"
  shows "printed_on k k2 (S @ T)"
proof (cases "use_serial k")
  case True
  then obtain l1 l2 where l: "port_log (ports k1) = port_log (ports k) @ l1" "sent l1 = S"
    "port_log (ports k2) = port_log (ports k1) @ l2" "sent l2 = T"
    using assms by (auto simp: printed_on_def)
  then have "port_log (ports k2) = port_log (ports k) @ l1 @ l2 \<and> sent (l1 @ l2) = S @ T" by simp
  then have "\<exists>log. port_log (ports k2) = port_log (ports k) @ log \<and> sent log = S @ T" by blast
  then show ?thesis using assms True by (simp add: printed_on_def)
next
  case False
  then show ?thesis using assms by (simp add: printed_on_def)
qed

lemma format_text_length:
  "format_ok {} fs ap \<Longrightarrow> length (format_text str fs ap) \<le> length fs + 11 * length ap"
proof (induction str fs ap rule: format_text.induct)
  case (2 str c fs ap)
  show ?case
  proof (cases "c = 0x25")
    case True
    then obtain v fs' x ap' where d: "fs = v # fs'" "ap = x # ap'" "v \<in> {0x64, 0x75, 0x78}" "format_ok {} fs' ap'"
      using 2(3) by (auto split: list.splits)
    have "length (itoa_text (if v = 0x78 then 0x78 else 0x64) x) \<le> 11" by (rule itoa_text_length) simp
    moreover have "length (format_text str fs' ap') \<le> length fs' + 11 * length ap'" using 2(2)[OF _ d(1,2,4)] True by simp
    ultimately show ?thesis using True d by auto
  next
    case False
    then show ?thesis using 2(1,3) by simp
  qed
qed simp

lemma literal_kept:
  assumes "literal_ok env cs ds l0 vm t" "kvirt_loc vm' = kvirt_loc vm"
    and "\<And>l. l \<noteq> l0 \<Longrightarrow> l \<notin> set cs \<Longrightarrow> l \<notin> set ds \<Longrightarrow> pmem vm' l = pmem vm l"
  shows "literal_ok env cs ds l0 vm' t"
proof -
  let ?a = "lit env t"
  have ap: "apart kvirt_loc vm (l0 # cs @ ds) ?a (length t)" using assms(1) by (simp add: literal_ok_def)
  have same: "vm_ld (?a + of_nat i) vm' = vm_ld (?a + of_nat i) vm" if "i \<le> length t" for i
  proof (cases "kvirt_loc vm (?a + of_nat i)")
    case None
    then show ?thesis using assms(2) by (simp add: vm_ld_def)
  next
    case (Some l)
    then have "l \<notin> set (l0 # cs @ ds)" using ap that by (simp add: apart_def)
    then show ?thesis using Some assms(2) assms(3)[of l] by (simp add: vm_ld_def)
  qed
  have "length (c_bytes t) = length t" by (simp add: c_bytes_def)
  then have "cstr vm_ld vm' ?a (c_bytes t)" using assms(1) same unfolding literal_ok_def cstr_nth by simp
  moreover have "apart kvirt_loc vm' (l0 # cs @ ds) ?a (length t)" using ap assms(2) by (simp add: apart_def)
  ultimately show ?thesis by (simp add: literal_ok_def)
qed

lemma vm_of_set_vm [simp]: "vm_of (set_vm vm M) = vm" "con (set_vm vm M) = con M" "proc (set_vm vm M) = proc M"
  "vm_of (M\<lparr>con := k\<rparr>) = vm_of M"
  by (simp_all add: vm_of_def set_vm_def)

lemma kdebug_prints:
  assumes c: "console_ok env cs ds l0 (vm_of M)" and t: "literal_ok env cs ds l0 (vm_of M) fmt"
    and f: "format_ok {} (c_bytes fmt) ap" and len: "length fmt + 11 * length ap < 256"
  obtains M' where "kdebug env fmt ap M = Some M'" "printed_on (con M) (con M') (format_text (\<lambda>_. []) (c_bytes fmt) ap)"
    "console_ok env cs ds l0 (vm_of M')" "\<forall>t. literal_ok env cs ds l0 (vm_of M) t \<longrightarrow> literal_ok env cs ds l0 (vm_of M') t"
    "proc M' = proc M"
proof -
  let ?T = "format_text (\<lambda>_. []) (c_bytes fmt) ap"
  have fr: "print_frame kvirt_loc vm_ld (vm_of M) (e_debugbuf env) cs (e_buf env) ds {} (\<lambda>_. [])"
    using c by (simp add: console_ok_def print_frame_def)
  have c': "length cs = 256" "kvirt_loc (vm_of M) (e_debugbuf env - 1) = Some l0" "l0 \<notin> set cs" "line_drains (e_in env)"
    using c by (simp_all add: console_ok_def)
  have lt: "length (c_bytes fmt) = length fmt" by (simp add: c_bytes_def)
  have s: "cstr vm_ld (vm_of M) (lit env fmt) (c_bytes fmt)" "apart kvirt_loc (vm_of M) (cs @ ds) (lit env fmt) (length (c_bytes fmt))"
    using t lt by (auto simp: literal_ok_def apart_def)
  have fit: "length ?T < 256" using format_text_length[OF f, of "\<lambda>_. []"] len lt by linarith
  obtain vm k where d: "i686_debug (e_in env) (e_out env) vm_ld vm_st (e_buf env) (e_debugbuf env) (lit env fmt) ap (vm_of M, con M) = Some (vm, k)"
    "use_serial k = use_serial (con M)" "kvirt_loc vm = kvirt_loc (vm_of M)"
    "\<forall>l. l \<noteq> l0 \<longrightarrow> l \<notin> set cs \<longrightarrow> l \<notin> set ds \<longrightarrow> pmem vm l = pmem (vm_of M) l"
    "if use_serial (con M) then screen k = screen (con M) \<and> (\<exists>log. port_log (ports k) = port_log (ports (con M)) @ log \<and> sent log = ?T)
     else ports k = ports (con M) \<and> screen k = fold bootvideo_putc ?T (screen (con M))"
    by (rule i686_debug_format[OF fr c'(1) s f fit c'(2-4), of "e_out env" "con M"])
  let ?M = "(set_vm vm M)\<lparr>con := k\<rparr>"
  show thesis
  proof (rule that[of ?M])
    show "kdebug env fmt ap M = Some ?M" using d(1) by (simp add: kdebug_def)
    show "printed_on (con M) (con ?M) ?T" using d(2,5) by (simp add: printed_on_def)
    show "console_ok env cs ds l0 (vm_of ?M)" using c d(3) by (simp add: console_ok_def buffer_def)
    have "literal_ok env cs ds l0 (vm_of ?M) t" if "literal_ok env cs ds l0 (vm_of M) t" for t
      using literal_kept[OF that] d(3,4) by simp
    then show "\<forall>t. literal_ok env cs ds l0 (vm_of M) t \<longrightarrow> literal_ok env cs ds l0 (vm_of ?M) t" by blast
    show "proc ?M = proc M" by simp
  qed
qed

lemma format_ok_messages:
  "format_ok {} (c_bytes (''Interrupt received: %d'' @ nl)) [x]"
  "format_ok {} (c_bytes (''Page fault: P:%d  W:%d  U:%d  R:%d  IO:%d'' @ nl)) [x, y, z, v, w]"
  "format_ok {} (c_bytes (''            Target Address: %x,  EIP: %x'' @ nl)) [x, y]"
  "format_ok {} (c_bytes (''Not booted from multiboot loader!'' @ nl)) []"
  by (simp_all add: c_bytes_def)

text \<open>The messages of the exceptions.\<close>

lemma i686_int_entry_prints:
  assumes c: "console_ok env cs ds l0 (vm_of M)"
    and lits: "literal_ok env cs ds l0 (vm_of M) (''Interrupt received: %d'' @ nl)"
      "literal_ok env cs ds l0 (vm_of M) (''Page fault: P:%d  W:%d  U:%d  R:%d  IO:%d'' @ nl)"
      "literal_ok env cs ds l0 (vm_of M) (''            Target Address: %x,  EIP: %x'' @ nl)"
  shows "\<exists>M'. i686_int_entry env cr2 ctx M = Some M' \<and> proc M' = proc M \<and> printed_on (con M) (con M')
    (format_text (\<lambda>_. []) (c_bytes (''Interrupt received: %d'' @ nl)) [c_int_no ctx] @
     (if c_int_no ctx \<noteq> 14 then []
      else (let e = c_err_code ctx in
        format_text (\<lambda>_. []) (c_bytes (''Page fault: P:%d  W:%d  U:%d  R:%d  IO:%d'' @ nl))
          [of_bool (bit e 0), of_bool (bit e 1), of_bool (bit e 2), of_bool (bit e 3), of_bool (bit e 4)] @
        format_text (\<lambda>_. []) (c_bytes (''            Target Address: %x,  EIP: %x'' @ nl)) [cr2, c_eip ctx])))"
proof -
  have len: "length (''Interrupt received: %d'' @ nl) + 11 * length [x] < 256"
    "length (''Page fault: P:%d  W:%d  U:%d  R:%d  IO:%d'' @ nl) + 11 * length [x, y, z, v, w] < 256"
    "length (''            Target Address: %x,  EIP: %x'' @ nl) + 11 * length [x, y] < 256" for x y z v w :: u32
    by simp_all
  obtain M1 where m1: "kdebug env (''Interrupt received: %d'' @ nl) [c_int_no ctx] M = Some M1"
    "printed_on (con M) (con M1) (format_text (\<lambda>_. []) (c_bytes (''Interrupt received: %d'' @ nl)) [c_int_no ctx])"
    "console_ok env cs ds l0 (vm_of M1)" "\<forall>t. literal_ok env cs ds l0 (vm_of M) t \<longrightarrow> literal_ok env cs ds l0 (vm_of M1) t"
    "proc M1 = proc M"
    by (rule kdebug_prints[OF c lits(1) format_ok_messages(1)[of "c_int_no ctx"] len(1)])
  show ?thesis
  proof (cases "c_int_no ctx = 14")
    case False
    then show ?thesis using m1(1,2,5) by (simp add: i686_int_entry_def exception_number.simps)
  next
    case True
    let ?e = "i686_pagefault_decode (c_err_code ctx)"
    let ?a = "[of_bool (pf_present ?e), of_bool (pf_write ?e), of_bool (pf_usermode ?e), of_bool (pf_reserved ?e), of_bool (pf_io ?e)] :: u32 list"
    obtain M2 where m2: "kdebug env (''Page fault: P:%d  W:%d  U:%d  R:%d  IO:%d'' @ nl) ?a M1 = Some M2"
      "printed_on (con M1) (con M2) (format_text (\<lambda>_. []) (c_bytes (''Page fault: P:%d  W:%d  U:%d  R:%d  IO:%d'' @ nl)) ?a)"
      "console_ok env cs ds l0 (vm_of M2)" "\<forall>t. literal_ok env cs ds l0 (vm_of M1) t \<longrightarrow> literal_ok env cs ds l0 (vm_of M2) t"
      "proc M2 = proc M1"
      by (rule kdebug_prints[OF m1(3) m1(4)[rule_format, OF lits(2)] format_ok_messages(2) len(2)])
    obtain M3 where m3: "kdebug env (''            Target Address: %x,  EIP: %x'' @ nl) [cr2, c_eip ctx] M2 = Some M3"
      "printed_on (con M2) (con M3) (format_text (\<lambda>_. []) (c_bytes (''            Target Address: %x,  EIP: %x'' @ nl)) [cr2, c_eip ctx])"
      "proc M3 = proc M2"
      by (rule kdebug_prints[OF m2(3) m2(4)[rule_format, OF m1(4)[rule_format, OF lits(3)]] format_ok_messages(3) len(3)])
    have "i686_int_entry env cr2 ctx M = Some M3"
      using True m1(1) m2(1) m3(1) by (simp add: i686_int_entry_def i686_pagefault_def exception_number.simps Let_def)
    moreover note printed_on_trans[OF m1(2) printed_on_trans[OF m2(2) m3(2)]]
    ultimately show ?thesis using True m1(5) m2(5) m3(3) by (simp add: i686_pagefault_decode_def Let_def)
  qed
qed

text \<open>The test of the boot loader's number.\<close>

lemma parse_cmdline_finds:
  assumes "cstr ld s h cmd" "cstr ld s key k" "k \<noteq> []" "h \<noteq> 0" "unat h + length cmd < 2 ^ 32"
  shows "parse_cmdline ld key h s = Some (occurrence k cmd \<noteq> None)"
proof -
  have "h + of_nat i \<noteq> 0" if "occurrence k cmd = Some i" for i
  proof -
    have "i \<le> length cmd" using that by (auto simp: occurrence_def find_Some_iff)
    then have "unat (h + of_nat i) = unat h + i" using assms(5) by (simp add: unat_word_ariths(1) unat_of_nat)
    then show ?thesis using assms(4) by (metis add_is_0 unat_eq_zero unat_0)
  qed
  then show ?thesis using strstr_occurrence[OF assms(1-3)] by (auto simp: parse_cmdline_def split: option.splits)
qed

lemma kmain_console_refuses:
  assumes c: "console_ok env cs ds l0 (vm_of M)" and t: "literal_ok env cs ds l0 (vm_of M) (''Not booted from multiboot loader!'' @ nl)"
    and cmd: "cstr boot_ld (vm_of M) (mi_cmdline info) cmd" "mi_cmdline info \<noteq> 0" "unat (mi_cmdline info) + length cmd < 2 ^ 32"
    and key: "cstr boot_ld (vm_of M) (lit env ''use_serial'') (c_bytes ''use_serial'')"
    and u: "\<not> use_serial (con M)" and magic: "magic \<noteq> MULTIBOOT_BOOTLOADER_MAGIC"
  obtains M' where "kmain_console env magic info M = Some (False, M')" "proc M' = proc M"
    "if occurrence (c_bytes ''use_serial'') cmd \<noteq> None
     then \<exists>log. port_log (ports (con M')) = port_log (ports (con M)) @ log \<and> sent log = 12 # c_bytes (''Not booted from multiboot loader!'' @ nl)
     else screen_shows (screen (con M')) [c_bytes ''Not booted from multiboot loader!'', []] \<and> ports (con M') = ports (con M)"
proof -
  let ?msg = "''Not booted from multiboot loader!'' @ nl"
  obtain serial where serial: "serial = (occurrence (c_bytes ''use_serial'') cmd \<noteq> None)" by blast
  define M1 where "M1 = M\<lparr>con := (con M)\<lparr>screen := bootvideo_cls (screen (con M))\<rparr>\<rparr>"
  define M2 where "M2 = (if serial then M1\<lparr>con := (con M1)\<lparr>use_serial := True\<rparr>\<rparr> else M1)"
  obtain p where p: "i686_tty_init (e_out env) 0 9600 (ports (con M2)) = Some p" "port_log p = port_log (ports (con M)) @
      [Out 0x3F9 0, Out 0x3FB 0x80, Out 0x3F8 12, Out 0x3F9 0, Out 0x3FB 3, Out 0x3FA 0xC7, Out 0x3FC 0x0B]"
    using i686_tty_init_log[of "e_out env" "ports (con M2)"] by (auto simp: M2_def M1_def split: if_splits)
  define M3 where "M3 = (if serial then M2\<lparr>con := (con M2)\<lparr>ports := p\<rparr>\<rparr> else M2)"
  have vm: "vm_of M1 = vm_of M" "vm_of M3 = vm_of M" "proc M3 = proc M" by (simp_all add: M1_def M2_def M3_def vm_of_def)
  have ne: "c_bytes ''use_serial'' \<noteq> []" by (simp add: c_bytes_def)
  have cl: "parse_cmdline boot_ld (lit env ''use_serial'') (mi_cmdline info) (vm_of M) = Some serial"
    unfolding serial by (rule parse_cmdline_finds[OF cmd(1) key ne cmd(2,3)])
  have u3: "use_serial (con M3) = serial" "use_serial (con M2) = serial" using u by (simp_all add: M1_def M2_def M3_def)
  have len: "length ?msg + 11 * length ([] :: u32 list) < 256" by simp
  have ft: "format_text (\<lambda>_. []) (c_bytes ?msg) [] = c_bytes ?msg" by (simp add: c_bytes_def)
  obtain M4 where m4: "kdebug env ?msg [] M3 = Some M4" "printed_on (con M3) (con M4) (c_bytes ?msg)" "proc M4 = proc M3"
    by (rule kdebug_prints[OF c[folded vm(2)] t[folded vm(2)] format_ok_messages(4) len, unfolded ft])
  have run: "kmain_console env magic info M = Some (False, M4)"
    using cl m4(1) p(1) magic u3(2)
    by (cases serial) (simp_all add: kmain_console_def M1_def[symmetric] vm(1) M2_def M3_def Let_def)
  show thesis
  proof (rule that[OF run, folded serial])
    show "proc M4 = proc M" using m4(3) vm(3) by simp
    have rows: "fold put_char (c_bytes ?msg) [[]] = [c_bytes ''Not booted from multiboot loader!'', []]"
      by (simp add: c_bytes_def put_char_def new_row_def add_char_def COLS_def)
    show "if serial
     then \<exists>log. port_log (ports (con M4)) = port_log (ports (con M)) @ log \<and> sent log = 12 # c_bytes ?msg
     else screen_shows (screen (con M4)) [c_bytes ''Not booted from multiboot loader!'', []] \<and> ports (con M4) = ports (con M)"
    proof (cases serial)
      case True
      then obtain log where l: "port_log (ports (con M4)) = port_log (ports (con M3)) @ log" "sent log = c_bytes ?msg"
        using m4(2) u3(1) by (auto simp: printed_on_def)
      have "ports (con M3) = p" using True by (simp add: M3_def)
      then have "port_log (ports (con M4)) = port_log (ports (con M)) @
          ([Out 0x3F9 0, Out 0x3FB 0x80, Out 0x3F8 12, Out 0x3F9 0, Out 0x3FB 3, Out 0x3FA 0xC7, Out 0x3FC 0x0B] @ log)"
        using l(1) p(2) by simp
      moreover have "sent ([Out 0x3F9 0, Out 0x3FB 0x80, Out 0x3F8 12, Out 0x3F9 0, Out 0x3FB 3, Out 0x3FA 0xC7, Out 0x3FC 0x0B] @ log) =
          12 # c_bytes ?msg" using l(2) by simp
      ultimately show ?thesis using True by (simp only: if_True) blast
    next
      case False
      then have s: "screen (con M4) = fold bootvideo_putc (c_bytes ?msg) (screen (con M3))" "ports (con M4) = ports (con M3)"
        using m4(2) u3(1) by (auto simp: printed_on_def)
      have "screen (con M3) = bootvideo_cls (screen (con M))" "ports (con M3) = ports (con M)" using False by (auto simp: M3_def M2_def M1_def)
      then show ?thesis using False s screen_shows_puts[OF screen_shows_cls, of "c_bytes ?msg" "screen (con M)"] rows by simp
    qed
  qed
qed

section \<open>A concrete kernel\<close>

text \<open>The image of a list of literals, and the place of one in it.\<close>

definition image_of :: "string list \<Rightarrow> u8 list" where
  "image_of ts = concat (map (\<lambda>t. c_bytes t @ [0]) ts)"

primrec lit_at :: "string list \<Rightarrow> string \<Rightarrow> nat" where
  "lit_at [] t = 0"
| "lit_at (x # xs) t = (if x = t then 0 else Suc (length x) + lit_at xs t)"

lemma image_split:
  "t \<in> set ts \<Longrightarrow> \<exists>xs ys. image_of ts = xs @ c_bytes t @ 0 # ys \<and> length xs = lit_at ts t"
proof (induction ts)
  case (Cons x ts)
  show ?case
  proof (cases "x = t")
    case True
    then show ?thesis by (intro exI[of _ "[]"] exI[of _ "image_of ts"]) (simp add: image_of_def)
  next
    case False
    then obtain xs ys where "image_of ts = xs @ c_bytes t @ 0 # ys" "length xs = lit_at ts t" using Cons by auto
    then show ?thesis using False
      by (intro exI[of _ "c_bytes x @ 0 # xs"] exI[of _ ys]) (simp add: image_of_def c_bytes_def)
  qed
qed simp

text \<open>Two pages: the literals are in the first, from its start on, and the buffers of the console in the second.\<close>

definition example_env :: "string list \<Rightarrow> nat kenv" where
  "example_env ts = \<lparr>e_in = example_line, e_out = \<lambda>a b d. d, e_buf = 0xC0001010, e_debugbuf = 0xC0001100,
     lit = \<lambda>t. 0xC0000000 + of_nat (lit_at ts t)\<rparr>"

definition image_at :: "string list \<Rightarrow> 20 word \<Rightarrow> 20 word \<Rightarrow> vm_state \<Rightarrow> bool" where
  "image_at ts f g vm \<longleftrightarrow> window vm 0 f \<and> window vm 1 g \<and> f \<noteq> g \<and>
     (\<forall>k<length (image_of ts). pmem vm (frame_addr f + of_nat k) = image_of ts ! k)"

abbreviation page_cells :: "20 word \<Rightarrow> nat \<Rightarrow> nat \<Rightarrow> physaddr_t list" where
  "page_cells g off n \<equiv> map (\<lambda>i. frame_addr g + of_nat (off + i)) [0..<n]"

lemma page_cell_frame: "off + i < 4096 \<Longrightarrow> frame_of (frame_addr g + of_nat (off + i)) = g" "off + i < 4096 \<Longrightarrow> (frame_addr g + of_nat (off + i)) mod 4096 = of_nat (off + i)"
  using frame_byte_parts[of "of_nat (off + i)" g] by (simp_all add: word_less_nat_alt unat_of_nat del: of_nat_add)

lemma page_cells_apart:
  assumes "off + n \<le> off' \<or> off' + n' \<le> off" "off + n < 4096" "off' + n' < 4096"
  shows "set (page_cells g off n) \<inter> set (page_cells g off' n') = {}"
proof -
  have "off + i = off' + j" if e: "frame_addr g + of_nat (off + i) = frame_addr g + of_nat (off' + j)" and l: "i < n" "j < n'" for i j
  proof -
    have "(of_nat (off + i) :: u32) = of_nat (off' + j)" using e by (simp only: add_left_cancel)
    then have "unat (of_nat (off + i) :: u32) = unat (of_nat (off' + j) :: u32)" by (simp only:)
    then show ?thesis using assms(2,3) l by (simp add: unat_of_nat del: of_nat_add)
  qed
  then show ?thesis using assms(1) by (fastforce simp del: of_nat_add)
qed

lemma image_at_console:
  assumes w: "window vm 1 g"
  shows "console_ok (example_env ts) (page_cells g 256 256) (page_cells g 16 20) (frame_addr g + 255) vm"
  unfolding console_ok_def
proof (intro conjI)
  note kd = kaddr_0_1[unfolded One_nat_def]
  show "buffer kvirt_loc vm (e_debugbuf (example_env ts)) (page_cells g 256 256)"
    using window_buffer[OF w, of 256 256] by (simp add: kd example_env_def)
  show "buffer kvirt_loc vm (e_buf (example_env ts)) (page_cells g 16 20)"
    using window_buffer[OF w, of 16 20] by (simp add: kd example_env_def)
  show "set (page_cells g 256 256) \<inter> set (page_cells g 16 20) = {}" by (rule page_cells_apart) simp_all
  show "frame_addr g + 255 \<notin> set (page_cells g 256 256)" using page_cells_apart[of 255 1 256 256 g] by simp
  have "kvirt_loc vm (kaddr 1 + 0xFF) = Some (frame_addr g + 0xFF)" by (rule window_loc[OF w]) simp
  then show "kvirt_loc vm (e_debugbuf (example_env ts) - 1) = Some (frame_addr g + 255)"
    unfolding kaddr_0_1 by (simp add: example_env_def)
qed (simp_all add: example_env_def example_line_drains)

lemma image_at_cstr:
  assumes im: "image_at ts f g vm" and t: "t \<in> set ts" "0 \<notin> set (c_bytes t)" "length (image_of ts) < 4096"
  shows "cstr vm_ld vm (0xC0000000 + of_nat (lit_at ts t)) (c_bytes t)" "lit_at ts t + length t < 4096"
proof -
  have w: "window vm 0 f" using im by (simp add: image_at_def)
  obtain xs ys where s: "image_of ts = xs @ c_bytes t @ 0 # ys" "length xs = lit_at ts t" using image_split[OF t(1)] by blast
  have lt: "length (c_bytes t) = length t" by (simp add: c_bytes_def)
  show len: "lit_at ts t + length t < 4096" using s t(3) lt by simp
  have rd: "vm_ld (0xC0000000 + of_nat k) vm = Some (image_of ts ! k)" if "k < length (image_of ts)" for k
  proof -
    have k: "(of_nat k :: u32) < 4096" using that t(3) by (simp add: unat_of_nat word_less_nat_alt)
    have "kvirt_loc vm (0xC0000000 + of_nat k) = Some (frame_addr f + of_nat k)"
      using window_loc[OF w k] by (simp add: kaddr_0_1)
    then show ?thesis using that im by (simp add: vm_ld_def image_at_def)
  qed
  show "cstr vm_ld vm (0xC0000000 + of_nat (lit_at ts t)) (c_bytes t)"
    unfolding cstr_nth
  proof (intro conjI allI impI)
    fix i assume i: "i < length (c_bytes t)"
    have "image_of ts ! (lit_at ts t + i) = c_bytes t ! i" using s i by (simp add: nth_append flip: s(2))
    then show "vm_ld (0xC0000000 + of_nat (lit_at ts t) + of_nat i) vm = Some (c_bytes t ! i)"
      using rd[of "lit_at ts t + i"] s i by (simp add: add.assoc)
    show "c_bytes t ! i \<noteq> 0" using t(2) i nth_mem by metis
  next
    have "image_of ts ! (lit_at ts t + length (c_bytes t)) = 0" using s by (simp add: nth_append flip: s(2))
    then show "vm_ld (0xC0000000 + of_nat (lit_at ts t) + of_nat (length (c_bytes t))) vm = Some 0"
      using rd[of "lit_at ts t + length (c_bytes t)"] s by (simp add: add.assoc)
  qed
qed

lemma image_at_literal:
  assumes im: "image_at ts f g vm" and t: "t \<in> set ts" "0 \<notin> set (c_bytes t)" "length (image_of ts) < 4096"
  shows "literal_ok (example_env ts) (page_cells g 256 256) (page_cells g 16 20) (frame_addr g + 255) vm t"
proof -
  have w: "window vm 1 g" "window vm 0 f" "g \<noteq> f" using im by (auto simp: image_at_def)
  note len = image_at_cstr(2)[OF assms] and kd = kaddr_0_1[unfolded One_nat_def]
  have "apart kvirt_loc vm (page_cells g 256 256) (0xC0000000 + of_nat (lit_at ts t)) (length t)"
    "apart kvirt_loc vm (page_cells g 16 20) (0xC0000000 + of_nat (lit_at ts t)) (length t)"
    "apart kvirt_loc vm [frame_addr g + 255] (0xC0000000 + of_nat (lit_at ts t)) (length t)"
    using window_apart[OF w _ len, of 256 256] window_apart[OF w _ len, of 16 20] window_apart[OF w _ len, of 255 1]
    by (simp_all add: kd)
  then have "apart kvirt_loc vm ([frame_addr g + 255] @ page_cells g 256 256 @ page_cells g 16 20) (0xC0000000 + of_nat (lit_at ts t)) (length t)"
    by (simp only: apart_append)
  then show ?thesis using image_at_cstr(1)[OF assms] by (simp add: literal_ok_def example_env_def)
qed

text \<open>A concrete memory, with the literals at \<open>0x5000\<close>.\<close>

definition example_vm_with :: "string list \<Rightarrow> vm_state" where
  "example_vm_with ts = example_strings\<lparr>
     kernel_pd := (\<lambda>k. (word_to_pde 0)\<lparr>pd_present := True, pd_phys_addr := frame_of (sym_kernel_pts example_strings - highstart)\<rparr>),
     pmem := (\<lambda>a. if unat (a - 0x5000) < length (image_of ts) then image_of ts ! unat (a - 0x5000) else 0)\<rparr>"

abbreviation example_cs :: "physaddr_t list" where "example_cs \<equiv> page_cells 6 256 256"
abbreviation example_ds :: "physaddr_t list" where "example_ds \<equiv> page_cells 6 16 20"

lemma example_vm_with_image: "length (image_of ts) < 4096 \<Longrightarrow> image_at ts 5 6 (example_vm_with ts)"
  using example_strings_windows by (simp add: image_at_def window_def example_vm_with_def frame_addr_def unat_of_nat)

lemma example_console_ok: "console_ok (example_env ts) example_cs example_ds 0x60FF (example_vm_with ts)"
  using image_at_console[of "example_vm_with ts" 6 ts] example_strings_windows(2) by (simp add: window_def example_vm_with_def frame_addr_def)

lemmas example_cstr = image_at_cstr[OF example_vm_with_image]

lemma example_literal_ok:
  assumes "t \<in> set ts" "0 \<notin> set (c_bytes t)" "length (image_of ts) < 4096"
  shows "literal_ok (example_env ts) example_cs example_ds 0x60FF (example_vm_with ts) t"
  using image_at_literal[OF example_vm_with_image[OF assms(3)] assms] by (simp add: frame_addr_def)

lemma cstr_same:
  assumes "cstr ld s a bs" "\<And>i. i < 100 \<Longrightarrow> ld' (b + of_nat i) s = ld (a + of_nat i) s" "length bs < 100"
  shows "cstr ld' s b bs"
  using assms unfolding cstr_nth by simp

definition example_console :: "nat console" where
  "example_console = \<lparr>screen = bootvideo_cls example_screen, ports = \<lparr>device = 1, port_log = []\<rparr>, use_serial = False\<rparr>"

definition example_cpu :: i686_cpu where
  "example_cpu = \<lparr>cpu_gdt = \<lambda>_. null_descriptor, cpu_idt = \<lambda>_. zero_idt_entry, cpu_tss = \<lparr>tss_esp0 = 0, tss_ss0 = 0\<rparr>,
    cpu_gdtr = (0, 0), cpu_idtr = (0, 0), cpu_tr = 0, cpu_segments = (0, 0), sym_gdt = 0xC0212000, sym_idt = 0xC0212100,
    sym_tss = 0xC0212345, sym_stack = 0xC0213000\<rparr>"

definition example_machine :: "string list \<Rightarrow> (unit, nat) machine" where
  "example_machine ts = \<lparr>km = example_sched\<lparr>km_vm := example_vm_with ts\<rparr>, proc = example_cpu, con = example_console\<rparr>"

lemma example_machine_fields: "vm_of (example_machine ts) = example_vm_with ts" "con (example_machine ts) = example_console"
  by (simp_all add: example_machine_def vm_of_def)

definition exception_literals :: "string list" where
  "exception_literals = [''Interrupt received: %d'' @ nl, ''Page fault: P:%d  W:%d  U:%d  R:%d  IO:%d'' @ nl,
     ''            Target Address: %x,  EIP: %x'' @ nl]"

text \<open>The initialisations.\<close>

lemma i686_setup_idt_same:
  "sym_tss (i686_setup_idt handler c) = sym_tss c" "sym_stack (i686_setup_idt handler c) = sym_stack c"
  by (simp_all add: i686_setup_idt_def Let_def exceptions_def i686_cpu_set_idt_def)

lemma i686_setup_gdt_same:
  "sym_tss (i686_setup_gdt eax c) = sym_tss c" "sym_stack (i686_setup_gdt eax c) = sym_stack c"
  by (simp_all add: i686_setup_gdt_def Let_def i686_cpu_set_gdt_def i686_cpu_set_tr_def)

lemma i686_cpu_init_ok:
  assumes "sym_tss c \<noteq> 0" "c_srem (sym_stack c) 4 = 0"
  obtains c' where "i686_cpu_init eax handler feeder phys sched (s, c) =
      Some (i686_scheduler_init sched (s\<lparr>km_vm := (km_vm s)\<lparr>vm_pm := feeder_physmem_create feeder phys 1024 1024 (vm_pm (km_vm s)),
        localmem := feeder\<rparr>\<rparr>), c')"
    "cpu_tss c' = \<lparr>tss_esp0 = sym_stack c + sizeof_stack - 4, tss_ss0 = 0x10\<rparr>"
proof -
  have "sizeof_stack mod 4 = (0 :: u32)" by (simp add: sizeof_stack_def)
  then show thesis using that assms
    by (simp add: i686_cpu_init_def i686_cpu_set_tss_stack_def i686_setup_idt_same i686_setup_gdt_same Let_def)
qed

lemma kmem_init_same:
  "km_vm (i686_kmem_init s) = km_vm s" "km_links (i686_kmem_init s) = km_links s" "km_ext (i686_kmem_init s) = km_ext s"
  by (simp_all add: i686_kmem_init_def)

text \<open>
  The state after the initialisations: \<open>s\<close> is the memory before, \<open>pm\<close> the state of the two allocators, \<open>brk\<close> the end of the
  page table of physical memory.
\<close>

definition booted_vm :: "physmem_ptr \<Rightarrow> pm_state \<Rightarrow> virtaddr_t \<Rightarrow> vm_state \<Rightarrow> vm_state" where
  "booted_vm fd pm brk s = s
     \<lparr>kernel_pd := \<lambda>k. if 768 \<le> k \<and> k < 1024 then shared_pde s (of_nat k - 768) else kernel_pd s k,
      kernel_flatpt := \<lambda>k. if 1 \<le> k \<and> k \<le> limit_pages brk then identity_pte k else kernel_flatpt s k,
      identitymap_limit := brk, cr3 := sym_kernel_pd s - highstart, vm_pm := pm, localmem := fd\<rparr>"

definition init_kmem :: "kaddrs \<Rightarrow> vm_state \<Rightarrow> 'z sched_state \<Rightarrow> 'z sched_state" where
  "init_kmem ka vm s = (kmem_init (upd_ext (\<lambda>x. x\<lparr>bsp := a_cpu ka\<rparr>) s))\<lparr>km_vm := vm\<rparr>"

lemma init_kmem_fields:
  "km_vm (init_kmem ka vm s) = vm" "km_ext (init_kmem ka vm s) = (km_ext s)\<lparr>bsp := a_cpu ka\<rparr>" "km_links (init_kmem ka vm s) = km_links s"
  "fst (kmem_alloc (init_kmem ka vm s)) = sym_caches s" "next_free_cache (init_kmem ka vm s) = 0" "sym_caches (init_kmem ka vm s) = sym_caches s"
  by (simp_all add: init_kmem_def upd_ext_def i686_kmem_init_def i686_kmem_cache_alloc_def)

lemma kmain_init_steps:
  assumes "0xC0100000 \<le> unat (sym_ebss (vm_of M))"
    and "unat (sym_ebss (vm_of M)) + (last_page e + 1) * 12 \<le> 0xFFFFF000"
    and "limit_pages (sym_ebss (vm_of M) + of_nat (Suc (last_page e)) * 12) + 256 \<le> last_page e"
    and "pm_sub (pm_obj (vm_pm (vm_of M)) (a_phys ka)) = I686_sub i" "pm_v (pm_obj (vm_pm (vm_of M)) (a_phys ka)) = i686_physmem_v"
    and "linked (pm_pages (vm_pm (vm_of M))) (\<lambda>_. [])"
    and "mm_base_addr_high e = 0" "mm_length_high e = 0" "mm_type e = 1" "mm_base_addr_low e = 0"
    and "unat (mm_length_low e) + 4095 < 2 ^ 32"
    and "mi_mmap info = [e]" "mi_mmap_length info = 24" "unat (mi_mmap_addr info) + 24 < 2 ^ 32"
    and "a_feeder ka \<noteq> a_phys ka" "sym_tss (proc M) \<noteq> 0" "c_srem (sym_stack (proc M)) 4 = 0"
  defines "brk \<equiv> sym_ebss (vm_of M) + of_nat (Suc (last_page e)) * 12"
  obtains pm A c' where "kmain_init ka eax handler info M =
      Some (M\<lparr>km := i686_scheduler_init (a_sched ka) (init_kmem ka (booted_vm (a_feeder ka) pm brk (vm_of M)) (km M)), proc := c'\<rparr>)"
    "cpu_tss c' = \<lparr>tss_esp0 = sym_stack (proc M) + sizeof_stack - 4, tss_ss0 = 0x10\<rparr>"
    "feeder_set_rep (\<lambda>x. if x = a_phys ka then 256 else 0) (a_phys ka) (a_feeder ka) (sym_ebss (vm_of M)) 1024 1024 pm A
      ((\<lambda>m. of_nat m * 4096) ` {limit_pages brk<..last_page e})"
    "feeder_avail (a_phys ka) (a_feeder ka) pm + 256 = last_page e - limit_pages brk"
proof -
  note fact = that
  let ?L = "sym_ebss (vm_of M)" and ?fd = "a_feeder ka" and ?k = "\<lambda>x. if x = a_phys ka then 256 else 0 :: nat"
  have bounds: "0xC0000000 \<le> unat ?L" "unat ?L \<le> 0xFFFFF000" using assms(1,2) by simp_all
  note vi = virtmem_init_steps[OF bounds]
  obtain vm1 where vm1: "i686_virtmem_init (vm_of M) = Some vm1" "identitymap_limit vm1 = ?L" "vm_pm vm1 = vm_pm (vm_of M)"
    and e1: "vm1 = (vm_of M)\<lparr>kernel_pd := \<lambda>k. if 768 \<le> k \<and> k < 1024 then shared_pde (vm_of M) (of_nat k - 768) else kernel_pd (vm_of M) k,
     kernel_flatpt := \<lambda>k. if 1 \<le> k \<and> k \<le> limit_pages ?L then identity_pte k else kernel_flatpt (vm_of M) k,
     identitymap_limit := ?L, cr3 := sym_kernel_pd (vm_of M) - highstart\<rparr>"
    using vi by simp
  obtain vm2 H where vm2: "i686_physmem_alloc (a_phys ka) (a_kernel ka) info vm1 = Some (a_phys ka, vm2)"
    "i686_conf (vm_pm vm2) (a_phys ka) ?L" "pm_inv (\<lambda>_. 256) {a_phys ka} ?L (vm_pm vm2) H" "\<forall>x. x \<noteq> a_phys ka \<longrightarrow> H (Freelist x) = []"
    "addr_of ?L ` members H = (\<lambda>m. of_nat m * 4096) ` {limit_pages brk<..last_page e}"
    "unat (free_pages (pm_obj (vm_pm vm2) (a_phys ka))) + 256 = last_page e - limit_pages brk"
    "vm2 = raised_limit brk (vm_pm vm2) vm1"
    by (rule physmem_alloc_inv[where vm = vm1 and k = "a_kernel ka" and p = "a_phys ka", unfolded vm1(2,3), OF assms(1,2) brk_def[THEN meta_eq_to_obj_eq] assms(3)[folded brk_def] assms(4-14)])
  let ?pm = "feeder_physmem_create ?fd (a_phys ka) 1024 1024 (vm_pm vm2)"
  have "pm_inv ?k {a_phys ka} ?L (vm_pm vm2) H" using vm2(3) by (simp add: pm_inv_def)
  then have fr: "feeder_rep ?k (a_phys ka) ?fd ?L 1024 1024 ?pm H"
    by (rule feeder_create_rep[OF _ vm2(2) assms(15)]) (use vm2(4) assms(15) in simp_all)
  have "unat brk = unat ?L + Suc (last_page e) * 12"
  proof -
    have "Suc (last_page e) * 12 < 2 ^ 32" using assms(2) by simp
    then have "unat (of_nat (Suc (last_page e)) * 12 :: u32) = Suc (last_page e) * 12"
      by (simp add: unat_word_ariths(2) unat_of_nat mod_mult_left_eq del: of_nat_Suc)
    then show ?thesis using assms(2) by (simp add: brk_def unat_word_ariths(1) del: of_nat_Suc)
  qed
  then have lim: "limit_pages ?L \<le> limit_pages brk" by (simp add: limit_pages_def div_le_mono)
  have vm: "vm2\<lparr>vm_pm := ?pm, localmem := ?fd\<rparr> = booted_vm ?fd ?pm brk (vm_of M)"
  proof -
    have "(\<lambda>k. if limit_pages ?L < k \<and> k \<le> limit_pages brk then identity_pte k
        else if 1 \<le> k \<and> k \<le> limit_pages ?L then identity_pte k else kernel_flatpt (vm_of M) k) =
      (\<lambda>k. if 1 \<le> k \<and> k \<le> limit_pages brk then identity_pte k else kernel_flatpt (vm_of M) k)"
      using lim by (auto simp: fun_eq_iff)
    then show ?thesis by (subst vm2(7)) (simp add: raised_limit_def e1 booted_vm_def cong: if_cong)
  qed
  let ?s1 = "upd_ext (\<lambda>x. x\<lparr>bsp := a_cpu ka\<rparr>) (km M)"
  let ?s2 = "kmem_init (?s1\<lparr>km_vm := vm2\<rparr>)"
  obtain c' where c': "i686_cpu_init eax handler ?fd (a_phys ka) (a_sched ka) (?s2, proc M) =
      Some (i686_scheduler_init (a_sched ka) (?s2\<lparr>km_vm := vm2\<lparr>vm_pm := ?pm, localmem := ?fd\<rparr>\<rparr>), c')"
    "cpu_tss c' = \<lparr>tss_esp0 = sym_stack (proc M) + sizeof_stack - 4, tss_ss0 = 0x10\<rparr>"
    by (rule i686_cpu_init_ok[OF assms(16,17), of eax handler ?fd "a_phys ka" "a_sched ka" ?s2]) (simp add: kmem_init_same)
  have s3: "?s2\<lparr>km_vm := vm2\<lparr>vm_pm := ?pm, localmem := ?fd\<rparr>\<rparr> = init_kmem ka (booted_vm ?fd ?pm brk (vm_of M)) (km M)"
    unfolding vm init_kmem_def by (simp add: i686_kmem_init_def upd_ext_def)
  have run: "kmain_init ka eax handler info M =
      Some (M\<lparr>km := i686_scheduler_init (a_sched ka) (init_kmem ka (booted_vm ?fd ?pm brk (vm_of M)) (km M)), proc := c'\<rparr>)"
    using vm1(1) vm2(1) c'(1) unfolding s3 by (simp add: kmain_init_def vm_of_def upd_ext_def)
  have set: "feeder_set_rep ?k (a_phys ka) ?fd ?L 1024 1024 ?pm (set (stock ?L ?pm H ?fd) \<union> set (stock ?L ?pm H (a_phys ka)))
      ((\<lambda>m. of_nat m * 4096) ` {limit_pages brk<..last_page e})"
    using fr unfolding feeder_set_rep_def vm2(5)[symmetric] by blast
  have "feeder_avail (a_phys ka) ?fd ?pm = unat (free_pages (pm_obj (vm_pm vm2) (a_phys ka)))"
    using assms(15) by (simp add: feeder_avail_def feeder_physmem_create_def Let_def upd_obj_def)
  then show thesis using fact[OF run c'(2) set] vm2(6) by simp
qed

section \<open>Properties\<close>




definition kmain_literals :: "string list" where
  "kmain_literals = [''use_serial'', ''quiet'', ''Not booted from multiboot loader!'' @ nl]"

definition example_kaddrs :: kaddrs where
  "example_kaddrs = \<lparr>a_kernel = 0xC0010000, a_cpu = 0xC0011000, a_feeder = 2, a_phys = 1, a_sched = 0xC0020100,
     a_testcpybuf = 0xC0001800, a_opcodes = 0xC0001900\<rparr>"



definition example_boot_machine :: "(unit, nat) machine" where
  "example_boot_machine = (example_machine [])\<lparr>km := example_sched\<lparr>km_vm := example_boot\<lparr>sym_ebss := 0xC0380000\<rparr>\<rparr>\<rparr>"

lemma example_boot_machine_fields:
  "vm_of example_boot_machine = example_boot\<lparr>sym_ebss := 0xC0380000\<rparr>" "km example_boot_machine = example_sched\<lparr>km_vm := example_boot\<lparr>sym_ebss := 0xC0380000\<rparr>\<rparr>"
  "proc example_boot_machine = example_cpu"
  by (simp_all add: example_boot_machine_def example_machine_def vm_of_def)

end
