(* ===== verification/Supply.thy ===== *)
theory Supply
  imports Slab Strings
begin

text \<open>
  What the parts of the kernel may take for granted of each other when they run one after the other: a supply of physical pages that
  nobody uses, states that extend earlier ones, and the first object of a new cache with all that its allocation changes.
\<close>

section \<open>A supply of pages\<close>

text \<open>\<open>localmem\<close> has \<open>n\<close> pages to give, out of the set \<open>U\<close> of the frames that it may ever list.\<close>

definition pm_supply :: "physaddr_t set \<Rightarrow> nat \<Rightarrow> vm_state \<Rightarrow> bool" where
  "pm_supply U n vm \<longleftrightarrow>
     (\<exists>k start A. source_rep k (localmem vm) start (vm_pm vm) A U \<and> source_avail (localmem vm) (vm_pm vm) = n) \<or>
     (\<exists>k src start keep minf A. feeder_set_rep k src (localmem vm) start keep minf (vm_pm vm) A U \<and>
        feeder_avail src (localmem vm) (vm_pm vm) = n)"

lemma pm_supplyI:
  "source_rep k (localmem vm) start (vm_pm vm) A U \<Longrightarrow> source_avail (localmem vm) (vm_pm vm) = n \<Longrightarrow> pm_supply U n vm"
  "feeder_set_rep k src (localmem vm) start keep minf (vm_pm vm) A U \<Longrightarrow> feeder_avail src (localmem vm) (vm_pm vm) = n \<Longrightarrow>
     pm_supply U n vm"
  unfolding pm_supply_def by blast+

lemma pm_supply_ready: "pm_supply U n vm \<Longrightarrow> pm_ready vm"
  by (auto simp: pm_supply_def pm_ready_def)

lemma pm_supply_cong:
  "localmem vm' = localmem vm \<Longrightarrow> vm_pm vm' = vm_pm vm \<Longrightarrow> pm_supply U n vm' = pm_supply U n vm"
  by (simp add: pm_supply_def)

lemma pm_supply_alloc:
  assumes "pm_supply U (Suc n) vm"
  obtains a pm where "local_page_alloc vm = Some ((PHYSMEM_SUCCESS, Some a), vm\<lparr>vm_pm := pm\<rparr>)"
    "a \<in> U" "a mod 4096 = 0" "pm_supply (U - {a}) n (vm\<lparr>vm_pm := pm\<rparr>)"
proof -
  from assms consider (src) k start A where "source_rep k (localmem vm) start (vm_pm vm) A U"
      "source_avail (localmem vm) (vm_pm vm) = Suc n"
    | (fd) k src start keep minf A where "feeder_set_rep k src (localmem vm) start keep minf (vm_pm vm) A U"
      "feeder_avail src (localmem vm) (vm_pm vm) = Suc n"
    by (auto simp: pm_supply_def)
  then show thesis
  proof cases
    case src
    then obtain a pm where a: "physmem_page_alloc (localmem vm) 0 (vm_pm vm) = Some ((PHYSMEM_SUCCESS, Some a), pm)" "a \<in> A"
      "source_rep k (localmem vm) start pm (A - {a}) (U - {a})" "source_avail (localmem vm) pm = n"
      using source.alloc_ok[OF src(1), of 0] by auto
    have "pm_supply (U - {a}) n (vm\<lparr>vm_pm := pm\<rparr>)" using a(3,4) by (intro pm_supplyI(1)) simp_all
    then show thesis using that[of a pm] a(1,2) source.rep_sub[OF src(1)] source.rep_aligned[OF src(1)] by (auto simp: local_page_alloc_def)
  next
    case fd
    then obtain a pm where a: "physmem_page_alloc (localmem vm) 0 (vm_pm vm) = Some ((PHYSMEM_SUCCESS, Some a), pm)" "a \<in> A"
      "feeder_set_rep k src (localmem vm) start keep minf pm (A - {a}) (U - {a})" "feeder_avail src (localmem vm) pm = n"
      using feeder.alloc_ok[OF fd(1), of 0] by auto
    have "pm_supply (U - {a}) n (vm\<lparr>vm_pm := pm\<rparr>)" using a(3,4) by (intro pm_supplyI(2)) simp_all
    then show thesis using that[of a pm] a(1,2) feeder.rep_sub[OF fd(1)] feeder.rep_aligned[OF fd(1)] by (auto simp: local_page_alloc_def)
  qed
qed


section \<open>Extensions of a state\<close>

text \<open>Mapped kernel pages stay mapped where they are, and only the frames \<open>F\<close> are written.\<close>

definition vm_ext :: "20 word set \<Rightarrow> vm_state \<Rightarrow> vm_state \<Rightarrow> bool" where
  "vm_ext F vm vm' \<longleftrightarrow> keeps_mapped vm vm' \<and> same_outside F (pmem vm) (pmem vm') \<and> localmem vm' = localmem vm"

lemma vm_ext_refl [simp]: "vm_ext F vm vm"
  by (simp add: vm_ext_def keeps_mapped_def same_outside_def)

lemma vm_ext_trans: "vm_ext F vm vm1 \<Longrightarrow> vm_ext F vm1 vm2 \<Longrightarrow> vm_ext F vm vm2"
  unfolding vm_ext_def using keeps_mapped_trans same_outside_trans by metis

lemma vm_ext_mono: "vm_ext F vm vm' \<Longrightarrow> F \<subseteq> G \<Longrightarrow> vm_ext G vm vm'"
  unfolding vm_ext_def using same_outside_mono by blast

lemma vm_ext_pmem: "same_outside F (pmem vm) m \<Longrightarrow> vm_ext F vm (vm\<lparr>pmem := m\<rparr>)"
  by (simp add: vm_ext_def keeps_mapped_def)

lemma vm_ext_loc: "vm_ext F vm vm' \<Longrightarrow> kvirt_loc vm a = Some l \<Longrightarrow> kvirt_loc vm' a = Some l"
  unfolding vm_ext_def using keeps_mapped_loc by blast

lemma vm_ext_ld:
  assumes "vm_ext F vm vm'" "kvirt_loc vm a = Some l" "frame_of l \<notin> F"
  shows "vm_ld a vm' = vm_ld a vm"
  using assms vm_ext_loc[OF assms(1,2)] by (simp add: vm_ld_def vm_ext_def same_outside_def)

text \<open>A string in frames \<open>G\<close> is there still, if \<open>G\<close> was not written.\<close>

definition text_in :: "20 word set \<Rightarrow> vm_state \<Rightarrow> virtaddr_t \<Rightarrow> u8 list \<Rightarrow> bool" where
  "text_in G vm a bs \<longleftrightarrow> cstr vm_ld vm a bs \<and> (\<forall>i\<le>length bs. \<forall>l. kvirt_loc vm (a + of_nat i) = Some l \<longrightarrow> frame_of l \<in> G)"

lemma text_in_loc:
  assumes "text_in G vm a bs" "i \<le> length bs"
  obtains l where "kvirt_loc vm (a + of_nat i) = Some l" "frame_of l \<in> G"
proof -
  have "vm_ld (a + of_nat i) vm \<noteq> None"
    using assms unfolding text_in_def cstr_nth by (cases "i = length bs") auto
  then show thesis using that assms by (auto simp: vm_ld_def text_in_def)
qed

lemma text_in_ext:
  assumes t: "text_in G vm a bs" and e: "vm_ext F vm vm'" and d: "F \<inter> G = {}"
  shows "text_in G vm' a bs"
proof -
  have same: "vm_ld (a + of_nat i) vm' = vm_ld (a + of_nat i) vm \<and>
      (\<forall>l. kvirt_loc vm' (a + of_nat i) = Some l \<longrightarrow> frame_of l \<in> G)" if i: "i \<le> length bs" for i
  proof -
    obtain l where "kvirt_loc vm (a + of_nat i) = Some l" "frame_of l \<in> G" by (rule text_in_loc[OF t i])
    then show ?thesis using vm_ext_ld[OF e, of _ l] vm_ext_loc[OF e, of _ l] d by auto
  qed
  then have "cstr vm_ld vm' a bs" using t unfolding text_in_def cstr_nth by simp
  then show ?thesis using same by (simp add: text_in_def)
qed

section \<open>New pages\<close>

text \<open>What mapping a fresh page does; \<open>a\<close> is its frame and \<open>i\<close> the number of the kernel page.\<close>

definition new_page :: "nat \<Rightarrow> physaddr_t \<Rightarrow> vm_state \<Rightarrow> vm_state \<Rightarrow> bool" where
  "new_page i a vm vm' \<longleftrightarrow> i \<in> kfree vm \<and> (\<exists>pm. vm' = kmap_state i (frame_of a) (vm\<lparr>vm_pm := pm\<rparr>))"

lemma new_page_facts:
  assumes "new_page i a vm vm'"
  shows "window vm' i (frame_of a)" "kfree vm' = kfree vm - {i}" "vm_ext {} vm vm'" "pmem vm' = pmem vm" "i < 262144"
    "Suc (card (kfree vm')) = card (kfree vm)" "cr3 vm' = cr3 vm"
proof -
  obtain pm where i: "i \<in> kfree vm" and v: "vm' = kmap_state i (frame_of a) (vm\<lparr>vm_pm := pm\<rparr>)"
    using assms by (auto simp: new_page_def)
  show lt: "i < 262144" using i by (simp add: kfree_def)
  show "window vm' i (frame_of a)" unfolding v by (rule kmap_window[OF lt])
  show k: "kfree vm' = kfree vm - {i}" unfolding v kfree_kmap by (simp add: kfree_def)
  show "vm_ext {} vm vm'" using i by (auto simp: v vm_ext_def keeps_mapped_def kfree_def kmap_state_def same_outside_def)
  show "pmem vm' = pmem vm" "cr3 vm' = cr3 vm" by (simp_all add: v kmap_state_def)
  show "Suc (card (kfree vm')) = card (kfree vm)" unfolding k using card_Suc_Diff1[OF finite_kfree i] .
qed

lemma map_new_page:
  assumes s: "pm_supply U (Suc n) vm" and k: "kfree vm \<noteq> {}"
  obtains i a vm1 vm2 vm' where
    "virtmem_kernel_alloc 1 vm = Some ((VIRTMEM_SUCCESS, Some (kaddr i)), vm1)"
    "local_page_alloc vm1 = Some ((PHYSMEM_SUCCESS, Some a), vm2)"
    "virtmem_kernel_map_virt_to_phys a (kaddr i) vm2 = Some (VIRTMEM_SUCCESS, vm')"
    "new_page i a vm vm'" "a \<in> U" "a mod 4096 = 0" "pm_supply (U - {a}) n vm'"
proof -
  obtain i where i: "i \<in> kfree vm" "i686_kernel_alloc 1 vm = Some ((VIRTMEM_SUCCESS, Some (kaddr i)), kalloc_state i vm)"
    by (rule i686_kernel_alloc_ok[OF k])
  have "pm_supply U (Suc n) (kalloc_state i vm)" using s pm_supply_cong[of "kalloc_state i vm" vm] by simp
  then obtain a pm where a: "local_page_alloc (kalloc_state i vm) = Some ((PHYSMEM_SUCCESS, Some a), (kalloc_state i vm)\<lparr>vm_pm := pm\<rparr>)"
    "a \<in> U" "a mod 4096 = 0" "pm_supply (U - {a}) n ((kalloc_state i vm)\<lparr>vm_pm := pm\<rparr>)"
    by (rule pm_supply_alloc)
  let ?vm2 = "(kalloc_state i vm)\<lparr>vm_pm := pm\<rparr>" and ?vm' = "kmap_state i (frame_of a) (vm\<lparr>vm_pm := pm\<rparr>)"
  have e: "kmap_state i (frame_of a) ?vm2 = ?vm'" by (simp add: kmap_state_def kalloc_state_def)
  have ps: "local_page_size ?vm2 = Some 4096" using pm_supply_ready[OF a(4)] by (rule pm_ready_page_size)
  have "i < 262144" "pt_present (kernel_flatpt ?vm2 i)" using i(1) by (simp_all add: kfree_def kalloc_state_def)
  from i686_kernel_map_ok[OF this ps, of a] have m: "virtmem_kernel_map_virt_to_phys a (kaddr i) ?vm2 = Some (VIRTMEM_SUCCESS, ?vm')"
    unfolding e by (simp add: virtmem_kernel_map_virt_to_phys_def)
  have "pm_supply (U - {a}) n ?vm'" using a(4) pm_supply_cong[of ?vm' ?vm2] by simp
  moreover have "new_page i a vm ?vm'" using i(1) by (auto simp: new_page_def)
  ultimately show thesis
    using that[of i "kalloc_state i vm" a ?vm2 ?vm'] i(2) a m by (simp add: virtmem_kernel_alloc_def)
qed

lemma strcpy_page:
  assumes w: "window vm i f" and t: "text_in G vm src bs" and G: "f \<notin> G" and n: "off + length bs + 1 < 4096"
  obtains m where "strcpy vm_ld vm_st (kaddr i + of_nat off) src vm = Some (of_nat (length bs), vm\<lparr>pmem := m\<rparr>)"
    "same_outside {f} (pmem vm) m" "text_in {f} (vm\<lparr>pmem := m\<rparr>) (kaddr i + of_nat off) bs"
proof -
  let ?a = "kaddr i + of_nat off"
  define cs where "cs = map (\<lambda>k. frame_addr f + of_nat (off + k)) [0..<Suc (length bs)]"
  have len: "length cs = Suc (length bs)" by (simp add: cs_def del: upt_Suc)
  have b: "buffer kvirt_loc vm ?a cs" unfolding cs_def by (rule window_buffer[OF w]) (use n in simp)
  have fo: "frame_of l = f" if l: "l \<in> set cs" for l
  proof -
    obtain k where "k < Suc (length bs)" "l = frame_addr f + of_nat (off + k)"
      using l by (auto simp: cs_def simp del: of_nat_add upt_Suc)
    moreover have "(of_nat (off + k) :: u32) < 4096" using calculation(1) n by (simp add: word_less_nat_alt unat_of_nat del: of_nat_add)
    ultimately show ?thesis using frame_byte_parts(1)[of "of_nat (off + k)" f] by (simp del: of_nat_add)
  qed
  have "apart kvirt_loc vm cs src (length bs)"
    unfolding apart_def using t G fo by (auto simp: text_in_def)
  then obtain s' where s': "strcpy vm_ld vm_st ?a src vm = Some (of_nat (length bs), s')"
    "updated kvirt_loc pmem (\<lambda>s. s\<lparr>pmem := \<lambda>_. 0\<rparr>) vm s' cs (overwrite 0 (bs @ [0]) (map (pmem vm) cs))"
    using kvm.strcpy_ok[OF b _ _ \<open>apart _ _ _ _ _\<close>] t len by (auto simp: text_in_def)
  note u = s'(2)[unfolded updated_def]
  have e: "s' = vm\<lparr>pmem := pmem s'\<rparr>" using u by (intro pmem_eqI) blast
  have o: "overwrite 0 (bs @ [0]) (map (pmem vm) cs) = bs @ [0]" using len by (simp add: overwrite_def)
  have "same_outside {f} (pmem vm) (pmem s')"
    using u fo by (auto simp: same_outside_def)
  moreover have "text_in {f} s' ?a bs"
  proof -
    have ld: "vm_ld (?a + of_nat k) s' = Some ((bs @ [0]) ! k)" "kvirt_loc s' (?a + of_nat k) = Some (cs ! k)" if "k \<le> length bs" for k
    proof -
      have c: "kvirt_loc s' (?a + of_nat k) = Some (cs ! k)"
        using b u that len by (simp add: buffer_def)
      have "pmem s' (cs ! k) = (bs @ [0]) ! k"
        using u that len unfolding o by (metis nth_map less_Suc_eq_le)
      then show "vm_ld (?a + of_nat k) s' = Some ((bs @ [0]) ! k)" "kvirt_loc s' (?a + of_nat k) = Some (cs ! k)"
        using c by (simp_all add: vm_ld_def)
    qed
    have "\<forall>k<length bs. bs ! k \<noteq> 0" using t by (simp add: text_in_def cstr_nth)
    then have "cstr vm_ld s' ?a bs" unfolding cstr_nth using ld(1) by (auto simp: nth_append)
    moreover have "frame_of l \<in> {f}" if "k \<le> length bs" "kvirt_loc s' (?a + of_nat k) = Some l" for k l
      using ld(2)[OF that(1)] that fo[of "cs ! k"] len by auto
    ultimately show ?thesis by (simp add: text_in_def)
  qed
  ultimately show thesis using that[of "pmem s'"] s'(1) e by simp
qed

section \<open>The first object of a cache\<close>

lemma memset_page:
  assumes w: "window vm i f" and n: "off + n \<le> 4096"
  obtains m where "memset vm_st (kaddr i + of_nat off) 0 (of_nat n) vm = Some (kaddr i + of_nat off, vm\<lparr>pmem := m\<rparr>)"
    "same_outside {f} (pmem vm) m" "\<And>k. k < n \<Longrightarrow> m (frame_addr f + of_nat (off + k)) = 0"
proof -
  let ?a = "kaddr i + of_nat off"
  have u: "unat (of_nat n :: u32) = n" using n by (simp add: unat_of_nat)
  have lt: "(of_nat (off + k) :: u32) < 4096" if "k < n" for k
    using n that by (simp add: word_less_nat_alt unat_of_nat del: of_nat_add)
  have loc: "kvirt_loc vm (?a + of_nat k) = Some (frame_addr f + of_nat (off + k))" if "k < n" for k
    using window_loc[OF w lt[OF that]] by (simp add: add.assoc)
  then have "\<And>k. k < n \<Longrightarrow> kvirt_loc vm (?a + of_nat k) \<noteq> None" by simp
  then obtain vm' where vm': "memset_loop vm_st n ?a 0 vm = Some vm'" "vm'\<lparr>pmem := \<lambda>_. 0\<rparr> = vm\<lparr>pmem := \<lambda>_. 0\<rparr>"
    "pmem vm' = (\<lambda>l. if \<exists>k<n. kvirt_loc vm (?a + of_nat k) = Some l then 0 else pmem vm l)"
    using kvm.memset_loop_ok[of n vm ?a 0] by blast
  have ms: "memset vm_st ?a 0 (of_nat n) vm = Some (?a, vm\<lparr>pmem := pmem vm'\<rparr>)"
    using vm'(1) pmem_eqI[OF vm'(2)] by (simp add: memset_def u)
  have "frame_of l = f" if "k < n" "kvirt_loc vm (?a + of_nat k) = Some l" for k l
    using loc[OF that(1)] that(2) frame_byte_parts(1)[OF lt[OF that(1)], of f] by simp
  then have "same_outside {f} (pmem vm) (pmem vm')"
    unfolding vm'(3) same_outside_def by auto
  moreover have "pmem vm' (frame_addr f + of_nat (off + k)) = 0" if "k < n" for k
    unfolding vm'(3) using loc[OF that] that by auto
  ultimately show thesis using that[OF ms] by blast
qed

lemma first_object:
  fixes s :: "'x kmem_state"
  assumes sl: "slinked (km_links s) H" and none: "H (Slabs_partial c) = []" "H (Slabs_empty c) = []"
    and pages: "\<forall>p\<in>members H. \<exists>k. p = kaddr k \<and> in_page (km_vm s) k"
    and cf: "c \<noteq> 0" "kc_cpu (km_cache s c) \<noteq> 0" "osz \<noteq> 0" "unat osz \<le> 4072" "objsize (km_cache s c) = osz"
    and two: "2 \<le> slab_elems (unat osz)"
    and sup: "pm_supply U (Suc n) (km_vm s)" and kf: "kfree (km_vm s) \<noteq> {}"
  obtains i a vm m s4 where
    "common_kmem_cache_alloc run c s = do {
       s5 \<leftarrow> (case kc_ctor (km_cache s c) of None \<Rightarrow> Some s4 | Some f \<Rightarrow> run f (slot osz i (slab_elems (unat osz))) s4);
       Some (slot osz i (slab_elems (unat osz)), upd_cache c (used_update (\<lambda>u. u + 1)) s5) }"
    "new_page i a (km_vm s) vm" "a \<in> U" "a mod 4096 = 0" "pm_supply (U - {a}) n vm"
    "km_vm s4 = vm\<lparr>pmem := m\<rparr>" "same_outside {frame_of a} (pmem vm) m" "km_ext s4 = km_ext s" "km_cache s4 = km_cache s"
    "next_free_cache s4 = next_free_cache s" "sym_caches s4 = sym_caches s"
    "slinked (km_links s4) (H(Slabs_partial c := [kaddr i]))"
proof -
  let ?N = "slab_elems (unat osz)" and ?vm = "km_vm s"
  obtain i a vm1 vm2 vm where p: "virtmem_kernel_alloc 1 ?vm = Some ((VIRTMEM_SUCCESS, Some (kaddr i)), vm1)"
    "local_page_alloc vm1 = Some ((PHYSMEM_SUCCESS, Some a), vm2)"
    "virtmem_kernel_map_virt_to_phys a (kaddr i) vm2 = Some (VIRTMEM_SUCCESS, vm)"
    and np: "new_page i a ?vm vm" and a: "a \<in> U" "a mod 4096 = 0" "pm_supply (U - {a}) n vm"
    by (rule map_new_page[OF sup kf])
  note nf = new_page_facts[OF np]
  let ?s1 = "upd_slab (kaddr i) (\<lambda>b. b\<lparr>n_pages := 1\<rparr>) (s\<lparr>km_vm := vm\<rparr>)"
  obtain b where b: "kmem_initialize_slab c (kaddr i) ?s1 = Some (?s1\<lparr>km_slab := (km_slab ?s1)(kaddr i := b)\<rparr>)"
    "new_slab osz i b"
    using kmem_initialize_slab_ok[of c ?s1 osz i] cf nf(5) pm_ready_page_size[OF pm_supply_ready[OF a(3)]]
    by (auto simp: upd_slab_def)
  have i: "i \<in> kfree ?vm" using np by (simp add: new_page_def)
  have fresh: "kaddr i \<notin> members H"
  proof
    assume "kaddr i \<in> members H"
    then obtain k where "kaddr i = kaddr k" "in_page ?vm k" using pages by blast
    then show False using kaddr_inject[OF nf(5)] i by (auto simp: in_page_def kfree_def)
  qed
  let ?q = "SLIST_INSERT_HEAD (Slabs_partial c) (kaddr i) (km_links s)"
  let ?s2 = "(s\<lparr>km_vm := vm\<rparr>)\<lparr>km_slab := (km_slab s)(kaddr i := b), km_links := ?q\<rparr>"
  note se = SLIST_EMPTY_slinked[OF sl] SLIST_FIRST_slinked[OF sl]
  have get: "cache_get_slab c s = Some (Some (kaddr i), ?s2)"
    using none p b(1) by (simp add: cache_get_slab_def se upd_slab_def)
  let ?ob = "slot osz i ?N" and ?off = "4096 - ?N * unat osz"
  have fl: "freelist b 0 = ?ob" "first_free b = 0" using b(2) two by (simp_all add: new_slab_def)
  have pos: "0 < unat osz" using cf(3) by (simp add: unat_gt_0)
  have N1: "1 \<le> ?N" using two by simp
  have fl1: "freelist b 1 \<noteq> 0"
  proof -
    have "freelist b 1 = slot osz i (?N - 1)" using b(2) two by (simp add: new_slab_def)
    moreover have "obj_ok osz vm (slot osz i (?N - 1))"
      unfolding obj_ok_def using nf(1) two by (intro exI[of _ i] exI[of _ "?N - 1"]) (auto simp: in_page_def window_def)
    ultimately show ?thesis using slot_nonzero[OF _ cf(3)] by metis
  qed
  have ob: "?ob = kaddr i + of_nat ?off" by (simp add: slot_def)
  have "obj_ok osz vm ?ob"
    unfolding obj_ok_def using nf(1) N1 by (intro exI[of _ i] exI[of _ ?N]) (auto simp: in_page_def window_def)
  then have nz: "?ob \<noteq> 0" using slot_nonzero[OF _ cf(3)] by blast
  have le: "?off + unat osz \<le> 4096" using slot_offset_bound(1)[OF pos order_refl N1] .
  obtain m where m: "memset vm_st ?ob 0 osz vm = Some (?ob, vm\<lparr>pmem := m\<rparr>)" "same_outside {frame_of a} (pmem vm) m"
    using memset_page[OF nf(1) le] unfolding ob by auto
  let ?s4 = "(upd_slab (kaddr i) (first_free_update Suc) ?s2)\<lparr>km_vm := vm\<lparr>pmem := m\<rparr>\<rparr>"
  have al: "common_kmem_cache_alloc run c s = do {
       s5 \<leftarrow> (case kc_ctor (km_cache s c) of None \<Rightarrow> Some ?s4 | Some f \<Rightarrow> run f ?ob ?s4);
       Some (?ob, upd_cache c (used_update (\<lambda>u. u + 1)) s5) }"
    using cf get fl fl1 nz m(1)
    by (simp add: common_kmem_cache_alloc_def upd_slab_def Let_def cong: option.case_cong)
  have "slinked ?q (H(Slabs_partial c := [kaddr i]))" using sl.insert_rep[OF sl fresh, of "Slabs_partial c"] none(1) by simp
  then show thesis
    by (intro that[OF al np a, of m]) (simp_all add: upd_slab_def m(2))
qed

end
