(* ===== verification/Selftest.thy ===== *)
theory Selftest
  imports Kmain Supply
begin

text \<open>
  The tests that \<^verbatim>\<open>i686_kmain\<close> runs before it enters user space: a page and an object of a cache are written and printed.
\<close>

section \<open>Messages between allocations\<close>

text \<open>
  The console and the literals \<open>Ls\<close> are in the frames \<open>G\<close>.
\<close>

definition image_ok ::
  "'d kenv \<Rightarrow> physaddr_t list \<Rightarrow> physaddr_t list \<Rightarrow> physaddr_t \<Rightarrow> string set \<Rightarrow> 20 word set \<Rightarrow> vm_state \<Rightarrow> bool" where
  "image_ok env cs ds l0 Ls G vm \<longleftrightarrow> console_ok env cs ds l0 vm \<and> frame_of ` (insert l0 (set cs \<union> set ds)) \<subseteq> G \<and>
     (\<forall>t\<in>Ls. literal_ok env cs ds l0 vm t \<and> text_in G vm (lit env t) (c_bytes t))"

lemma buffer_ext: "buffer kvirt_loc vm a cs \<Longrightarrow> vm_ext F vm vm' \<Longrightarrow> buffer kvirt_loc vm' a cs"
  by (auto simp: buffer_def intro: vm_ext_loc)

lemma apart_ext:
  assumes "apart kvirt_loc vm cs a (length bs)" "text_in G vm a bs" "vm_ext F vm vm'"
  shows "apart kvirt_loc vm' cs a (length bs)"
  unfolding apart_def
proof (intro allI impI)
  fix i l assume i: "i \<le> length bs" "kvirt_loc vm' (a + of_nat i) = Some l"
  obtain l' where "kvirt_loc vm (a + of_nat i) = Some l'" by (rule text_in_loc[OF assms(2) i(1)])
  moreover from this have "l' = l" using vm_ext_loc[OF assms(3)] i(2) by fastforce
  ultimately show "l \<notin> set cs" using assms(1) i(1) by (simp add: apart_def)
qed

lemma c_bytes_length [simp]: "length (c_bytes t) = length t"
  by (simp add: c_bytes_def)

lemma image_ok_ext:
  assumes i: "image_ok env cs ds l0 Ls G vm" and e: "vm_ext F vm vm'" and d: "F \<inter> G = {}"
  shows "image_ok env cs ds l0 Ls G vm'"
proof -
  have c: "console_ok env cs ds l0 vm" using i by (simp add: image_ok_def)
  then have "console_ok env cs ds l0 vm'"
    using buffer_ext[OF _ e] vm_ext_loc[OF e] by (auto simp: console_ok_def)
  moreover have "literal_ok env cs ds l0 vm' t \<and> text_in G vm' (lit env t) (c_bytes t)" if "t \<in> Ls" for t
  proof -
    have t: "literal_ok env cs ds l0 vm t" "text_in G vm (lit env t) (c_bytes t)" using i that by (simp_all add: image_ok_def)
    have t': "text_in G vm' (lit env t) (c_bytes t)" by (rule text_in_ext[OF t(2) e d])
    moreover have "apart kvirt_loc vm' (l0 # cs @ ds) (lit env t) (length (c_bytes t))"
      using t(1) by (intro apart_ext[OF _ t(2) e]) (simp add: literal_ok_def)
    ultimately show ?thesis by (simp add: literal_ok_def text_in_def)
  qed
  ultimately show ?thesis using i by (simp add: image_ok_def)
qed

text \<open>
  A message whose string arguments are in frames other than those of the console; it is printed, and nothing but the cells of the console
  changes in memory.
\<close>

lemma image_ok_pmem:
  assumes i: "image_ok env cs ds l0 Ls G vm" and m: "\<forall>l. l \<noteq> l0 \<longrightarrow> l \<notin> set cs \<longrightarrow> l \<notin> set ds \<longrightarrow> m l = pmem vm l"
  shows "image_ok env cs ds l0 Ls G (vm\<lparr>pmem := m\<rparr>)"
proof -
  have "literal_ok env cs ds l0 (vm\<lparr>pmem := m\<rparr>) t" if "literal_ok env cs ds l0 vm t" for t
    using literal_kept[OF that, of "vm\<lparr>pmem := m\<rparr>"] m by simp
  then show ?thesis using i by (auto simp: image_ok_def console_ok_def buffer_def text_in_def literal_ok_def)
qed

lemma kdebug_says:
  assumes i: "image_ok env cs ds l0 Ls G (vm_of M)" and t: "fmt \<in> Ls" and f: "format_ok S (c_bytes fmt) ap"
    and str: "\<forall>x\<in>S. text_in F (vm_of M) x (str x)" and d: "F \<inter> G = {}"
    and fit: "length (format_text str (c_bytes fmt) ap) < 256"
  obtains m k where "kdebug env fmt ap M = Some ((set_vm ((vm_of M)\<lparr>pmem := m\<rparr>) M)\<lparr>con := k\<rparr>)"
    "printed_on (con M) k (format_text str (c_bytes fmt) ap)" "same_outside G (pmem (vm_of M)) m"
    "image_ok env cs ds l0 Ls G ((vm_of M)\<lparr>pmem := m\<rparr>)"
proof -
  let ?vm = "vm_of M" and ?T = "format_text str (c_bytes fmt) ap"
  have c: "console_ok env cs ds l0 ?vm" "literal_ok env cs ds l0 ?vm fmt" "frame_of ` (insert l0 (set cs \<union> set ds)) \<subseteq> G"
    using i t by (simp_all add: image_ok_def)
  have "apart kvirt_loc ?vm (cs @ ds) x (length (str x))" if "x \<in> S" for x
    using str that d c(3) by (fastforce simp: apart_def text_in_def)
  then have fr: "print_frame kvirt_loc vm_ld ?vm (e_debugbuf env) cs (e_buf env) ds S str"
    using c(1) str by (simp add: console_ok_def print_frame_def text_in_def)
  have c': "length cs = unat (256 :: u32)" "kvirt_loc ?vm (e_debugbuf env - 1) = Some l0" "l0 \<notin> set cs" "line_drains (e_in env)"
    using c(1) by (simp_all add: console_ok_def)
  have s: "cstr vm_ld ?vm (lit env fmt) (c_bytes fmt)" "apart kvirt_loc ?vm (cs @ ds) (lit env fmt) (length (c_bytes fmt))"
    using c(2) by (auto simp: literal_ok_def apart_def)
  obtain vm1 where v: "k_snprintf_vaarg vm_ld vm_st (e_buf env) (e_debugbuf env) 256 (lit env fmt) ap ?vm = Some vm1"
    "cstr vm_ld vm1 (e_debugbuf env) ?T" "vm1\<lparr>pmem := \<lambda>_. 0\<rparr> = ?vm\<lparr>pmem := \<lambda>_. 0\<rparr>"
    "\<forall>l. l \<noteq> l0 \<longrightarrow> l \<notin> set cs \<longrightarrow> l \<notin> set ds \<longrightarrow> pmem vm1 l = pmem ?vm l"
    using kvm.k_snprintf_prints[OF fr c'(1) s f _ c'(2,3)] fit c'(1) by auto
  obtain k where k: "i686_debug (e_in env) (e_out env) vm_ld vm_st (e_buf env) (e_debugbuf env) (lit env fmt) ap (?vm, con M) = Some (vm1, k)"
    "printed_on (con M) k ?T"
    using i686_debug_prints[OF v(1,2) c'(4), of "e_out env" "con M"] by (auto simp: printed_on_def)
  have e: "vm1 = ?vm\<lparr>pmem := pmem vm1\<rparr>" by (rule pmem_eqI[OF v(3)])
  show thesis
  proof (rule that[OF _ k(2)])
    show "kdebug env fmt ap M = Some ((set_vm (?vm\<lparr>pmem := pmem vm1\<rparr>) M)\<lparr>con := k\<rparr>)"
      using k(1) by (simp add: kdebug_def flip: e)
    show "same_outside G (pmem ?vm) (pmem vm1)" using v(4) c(3) by (auto simp: same_outside_def image_subset_iff)
    show "image_ok env cs ds l0 Ls G (?vm\<lparr>pmem := pmem vm1\<rparr>)" by (rule image_ok_pmem[OF i v(4)])
  qed
qed

section \<open>The test of the memory\<close>

abbreviation memory_message :: string where "memory_message \<equiv> ''This shows the validity of this memory''"
abbreviation slab_message :: string where "slab_message \<equiv> ''This shows the validity of the slab allocation''"

definition memory_test_literals :: "string set" where
  "memory_test_literals = {''Allocated address: %x(->%x)'' @ nl, memory_message, ''%x contains: %s'' @ nl,
     ''cache at %x provided us with %x'' @ nl, slab_message}"

definition hex_text :: "u32 \<Rightarrow> u8 list" where
  "hex_text x = itoa_text 0x78 x"

text \<open>What the test prints.\<close>

definition memory_test_text :: "virtaddr_t \<Rightarrow> physaddr_t \<Rightarrow> cache_ptr \<Rightarrow> virtaddr_t \<Rightarrow> u8 list" where
  "memory_test_text a p c t =
     c_bytes ''Allocated address: '' @ hex_text a @ c_bytes ''(->'' @ hex_text p @ c_bytes ('')'' @ nl) @
     hex_text a @ c_bytes ('' contains: '' @ memory_message @ nl) @
     c_bytes ''cache at '' @ hex_text c @ c_bytes '' provided us with '' @ hex_text t @ c_bytes nl @
     hex_text t @ c_bytes ('' contains: '' @ slab_message @ nl)"

lemma hex_text_length: "length (hex_text x) \<le> 11"
  unfolding hex_text_def by (rule itoa_text_length) simp

lemma memory_test_formats:
  "format_text str (c_bytes (''Allocated address: %x(->%x)'' @ nl)) [a, p] =
     c_bytes ''Allocated address: '' @ hex_text a @ c_bytes ''(->'' @ hex_text p @ c_bytes ('')'' @ nl)"
  "format_text str (c_bytes (''%x contains: %s'' @ nl)) [a, a] = hex_text a @ c_bytes '' contains: '' @ str a @ c_bytes nl"
  "format_text str (c_bytes (''cache at %x provided us with %x'' @ nl)) [c, t] =
     c_bytes ''cache at '' @ hex_text c @ c_bytes '' provided us with '' @ hex_text t @ c_bytes nl"
  "format_ok S (c_bytes (''Allocated address: %x(->%x)'' @ nl)) [a, p]"
  "format_ok {a} (c_bytes (''%x contains: %s'' @ nl)) [a, a]"
  "format_ok S (c_bytes (''cache at %x provided us with %x'' @ nl)) [c, t]"
  by (simp_all add: c_bytes_def hex_text_def)

lemma c_bytes_append: "c_bytes (s @ t) = c_bytes s @ c_bytes t"
  by (simp add: c_bytes_def)

text \<open>A line that shows what is at \<open>a\<close>.\<close>

lemma kdebug_contains:
  assumes i: "image_ok env cs ds l0 Ls G (vm_of M)" and L: "(''%x contains: %s'' @ nl) \<in> Ls"
    and t: "text_in F (vm_of M) a (c_bytes s)" and d: "F \<inter> G = {}" and n: "length s < 200"
  obtains m k where "kdebug env (''%x contains: %s'' @ nl) [a, a] M = Some ((set_vm ((vm_of M)\<lparr>pmem := m\<rparr>) M)\<lparr>con := k\<rparr>)"
    "printed_on (con M) k (hex_text a @ c_bytes ('' contains: '' @ s @ nl))" "same_outside G (pmem (vm_of M)) m"
    "image_ok env cs ds l0 Ls G ((vm_of M)\<lparr>pmem := m\<rparr>)"
proof -
  note f = memory_test_formats(2)[of "\<lambda>_. c_bytes s" a]
  have l: "length (hex_text a @ c_bytes '' contains: '' @ c_bytes s @ c_bytes nl) < 256"
    using n hex_text_length[of a] by simp
  obtain m k where "kdebug env (''%x contains: %s'' @ nl) [a, a] M = Some ((set_vm ((vm_of M)\<lparr>pmem := m\<rparr>) M)\<lparr>con := k\<rparr>)"
    "printed_on (con M) k (hex_text a @ c_bytes '' contains: '' @ c_bytes s @ c_bytes nl)" "same_outside G (pmem (vm_of M)) m"
    "image_ok env cs ds l0 Ls G ((vm_of M)\<lparr>pmem := m\<rparr>)"
    by (rule kdebug_says[OF i L memory_test_formats(5)[of a], where str = "\<lambda>_. c_bytes s" and F = F, unfolded f, OF _ d l]) (use t in simp_all)
  then show thesis using that by (simp only: c_bytes_append)
qed

lemma set_vm_simps [simp]:
  "set_vm v (set_vm w M) = set_vm v M" "set_vm v (M\<lparr>con := k\<rparr>) = (set_vm v M)\<lparr>con := k\<rparr>"
  "km (set_vm v M) = (km M)\<lparr>km_vm := v\<rparr>" "set_vm (vm_of M) M = M"
  by (simp_all add: set_vm_def vm_of_def)

text \<open>The first part: a page.\<close>

lemma kdebug_says_free:
  assumes i: "image_ok env cs ds l0 Ls G (vm_of M)" and L: "fmt \<in> Ls" and f: "format_ok {} (c_bytes fmt) ap"
    and fit: "length (format_text (\<lambda>_. []) (c_bytes fmt) ap) < 256"
  obtains m k where "kdebug env fmt ap M = Some ((set_vm ((vm_of M)\<lparr>pmem := m\<rparr>) M)\<lparr>con := k\<rparr>)"
    "printed_on (con M) k (format_text (\<lambda>_. []) (c_bytes fmt) ap)" "same_outside G (pmem (vm_of M)) m"
    "image_ok env cs ds l0 Ls G ((vm_of M)\<lparr>pmem := m\<rparr>)"
  by (rule kdebug_says[OF i L f, where F = "{}" and str = "\<lambda>_. []"]) (use fit in simp_all)

lemma page_test:
  assumes i: "image_ok env cs ds l0 Ls G (vm_of M)" and L: "memory_test_literals \<subseteq> Ls"
    and s: "pm_supply U (Suc n) (vm_of M)" and k: "kfree (vm_of M) \<noteq> {}" and d: "frame_of ` U \<inter> G = {}"
  obtains i p vm1 vm2 vm3 vm5 M1 M2 where
    "virtmem_kernel_alloc 1 (vm_of M) = Some ((VIRTMEM_SUCCESS, Some (kaddr i)), vm1)"
    "local_page_alloc vm1 = Some ((PHYSMEM_SUCCESS, Some p), vm2)"
    "virtmem_kernel_map_virt_to_phys p (kaddr i) vm2 = Some (VIRTMEM_SUCCESS, vm3)"
    "kdebug env (''Allocated address: %x(->%x)'' @ nl) [kaddr i, p] (set_vm vm3 M) = Some M1"
    "strcpy vm_ld vm_st (kaddr i) (lit env memory_message) (vm_of M1) = Some (of_nat (length memory_message), vm5)"
    "kdebug env (''%x contains: %s'' @ nl) [kaddr i, kaddr i] (set_vm vm5 M1) = Some M2"
    "M2 = (set_vm (vm_of M2) M)\<lparr>con := con M2\<rparr>" "p \<in> U" "p mod 4096 = 0" "pm_supply (U - {p}) n (vm_of M2)" "image_ok env cs ds l0 Ls G (vm_of M2)"
    "kfree (vm_of M2) = kfree (vm_of M) - {i}" "i \<in> kfree (vm_of M)" "vm_ext (insert (frame_of p) G) (vm_of M) (vm_of M2)"
    "text_in {frame_of p} (vm_of M2) (kaddr i) (c_bytes memory_message)" "kvirt_loc (vm_of M2) (kaddr i) = Some p"
    "sym_kernel_pts (vm_of M2) = sym_kernel_pts (vm_of M)"
    "printed_on (con M) (con M2) (c_bytes ''Allocated address: '' @ hex_text (kaddr i) @ c_bytes ''(->'' @ hex_text p @ c_bytes ('')'' @ nl) @
     hex_text (kaddr i) @ c_bytes ('' contains: '' @ memory_message @ nl))"
proof -
  have lits: "''Allocated address: %x(->%x)'' @ nl \<in> Ls" "memory_message \<in> Ls" "''%x contains: %s'' @ nl \<in> Ls"
    using L by (auto simp: memory_test_literals_def)
  obtain i p vm1 vm2 vm3 where a: "virtmem_kernel_alloc 1 (vm_of M) = Some ((VIRTMEM_SUCCESS, Some (kaddr i)), vm1)"
    "local_page_alloc vm1 = Some ((PHYSMEM_SUCCESS, Some p), vm2)"
    "virtmem_kernel_map_virt_to_phys p (kaddr i) vm2 = Some (VIRTMEM_SUCCESS, vm3)"
    and np: "new_page i p (vm_of M) vm3" and p: "p \<in> U" "p mod 4096 = 0" "pm_supply (U - {p}) n vm3"
    by (rule map_new_page[OF s k])
  note nf = new_page_facts[OF np]
  have fG: "frame_of p \<notin> G" "{frame_of p} \<inter> G = {}" using d p(1) by auto
  have i3: "image_ok env cs ds l0 Ls G (vm_of (set_vm vm3 M))" using image_ok_ext[OF i nf(3)] by simp
  have "length (c_bytes ''Allocated address: '' @ hex_text (kaddr i) @ c_bytes ''(->'' @ hex_text p @ c_bytes ('')'' @ nl)) < 256"
    using hex_text_length[of "kaddr i"] hex_text_length[of p] by simp
  note fit = this[folded memory_test_formats(1)[of "\<lambda>_. []"]]
  obtain m1 k1 where d1: "kdebug env (''Allocated address: %x(->%x)'' @ nl) [kaddr i, p] (set_vm vm3 M) =
      Some ((set_vm (vm3\<lparr>pmem := m1\<rparr>) M)\<lparr>con := k1\<rparr>)"
    "printed_on (con M) k1 (c_bytes ''Allocated address: '' @ hex_text (kaddr i) @ c_bytes ''(->'' @ hex_text p @ c_bytes ('')'' @ nl))"
    "same_outside G (pmem vm3) m1" "image_ok env cs ds l0 Ls G (vm3\<lparr>pmem := m1\<rparr>)"
    by (rule kdebug_says_free[OF i3 lits(1) memory_test_formats(4) fit, unfolded memory_test_formats(1)]) simp
  let ?vm4 = "vm3\<lparr>pmem := m1\<rparr>"
  have w: "window ?vm4 i (frame_of p)" using nf(1) by simp
  have "text_in G ?vm4 (lit env memory_message) (c_bytes memory_message)" using d1(4) lits(2) by (simp add: image_ok_def)
  from strcpy_page[OF w this fG(1), of 0] obtain m2 where
    c: "strcpy vm_ld vm_st (kaddr i) (lit env memory_message) ?vm4 = Some (of_nat (length memory_message), ?vm4\<lparr>pmem := m2\<rparr>)"
    "same_outside {frame_of p} m1 m2" "text_in {frame_of p} (?vm4\<lparr>pmem := m2\<rparr>) (kaddr i) (c_bytes memory_message)"
    by auto
  let ?vm5 = "vm3\<lparr>pmem := m2\<rparr>" and ?M1 = "(set_vm (vm3\<lparr>pmem := m1\<rparr>) M)\<lparr>con := k1\<rparr>"
  have e4: "?vm4\<lparr>pmem := m2\<rparr> = ?vm5" by simp
  have "vm_ext {frame_of p} ?vm4 ?vm5" using c(2) vm_ext_pmem[of "{frame_of p}" ?vm4 m2] by simp
  then have i5: "image_ok env cs ds l0 Ls G (vm_of (set_vm ?vm5 ?M1))" using image_ok_ext[OF d1(4) _ fG(2)] by simp
  have t5: "text_in {frame_of p} (vm_of (set_vm ?vm5 ?M1)) (kaddr i) (c_bytes memory_message)" using c(3) by simp
  obtain m3 k2 where d2: "kdebug env (''%x contains: %s'' @ nl) [kaddr i, kaddr i] (set_vm ?vm5 ?M1) =
      Some ((set_vm (vm3\<lparr>pmem := m3\<rparr>) M)\<lparr>con := k2\<rparr>)"
    "printed_on k1 k2 (hex_text (kaddr i) @ c_bytes ('' contains: '' @ memory_message @ nl))"
    "same_outside G m2 m3" "image_ok env cs ds l0 Ls G (vm3\<lparr>pmem := m3\<rparr>)"
    by (rule kdebug_contains[OF i5 lits(3) t5 fG(2)]) (simp_all del: append.simps)
  let ?vm = "vm3\<lparr>pmem := m3\<rparr>" and ?M2 = "(set_vm (vm3\<lparr>pmem := m3\<rparr>) M)\<lparr>con := k2\<rparr>"
  have sup: "pm_supply (U - {p}) n ?vm" using p(3) pm_supply_cong[of ?vm vm3] by simp
  have kp: "sym_kernel_pts vm3 = sym_kernel_pts (vm_of M)" using np by (auto simp: new_page_def)
  have all: "same_outside (insert (frame_of p) G) (pmem vm3) m3"
    using d1(3) c(2) d2(3) by (simp add: same_outside_def)
  then have ext: "vm_ext (insert (frame_of p) G) (vm_of M) ?vm"
    using vm_ext_trans[OF vm_ext_mono[OF nf(3)] vm_ext_pmem[of "insert (frame_of p) G" vm3 m3]] by simp
  have "vm_ext G ?vm5 ?vm" using vm_ext_pmem[of G ?vm5 m3] d2(3) by simp
  then have tx: "text_in {frame_of p} ?vm (kaddr i) (c_bytes memory_message)"
    using text_in_ext[OF t5, of G ?vm] fG(2) by (simp add: Int_commute)
  have loc: "kvirt_loc ?vm (kaddr i) = Some p"
    using window_loc[of ?vm i "frame_of p" 0] nf(1) frame_addr_frame_of_aligned[OF p(2)] by simp
  have pr: "printed_on (con M) k2 ((c_bytes ''Allocated address: '' @ hex_text (kaddr i) @ c_bytes ''(->'' @ hex_text p @ c_bytes ('')'' @ nl)) @
     hex_text (kaddr i) @ c_bytes ('' contains: '' @ memory_message @ nl))"
    by (rule printed_on_trans[OF d1(2) d2(2)])
  show thesis
    by (rule that[OF a, of ?M1 ?vm5 ?M2])
      (use d1(1) c(1) d2 p(1,2) sup nf(2) np ext tx loc pr kp in \<open>simp_all add: new_page_def kfree_def append_assoc\<close>)
qed

text \<open>The lists of slabs, whose elements are mapped pages.\<close>

definition slabs_ok :: "'x kmem_state \<Rightarrow> (slab_head \<Rightarrow> slab_ptr list) \<Rightarrow> bool" where
  "slabs_ok s H \<longleftrightarrow> slinked (km_links s) H \<and> (\<forall>p\<in>members H. \<exists>k. p = kaddr k \<and> in_page (km_vm s) k)"

lemma slabs_ok_ext:
  assumes "slabs_ok s H" "vm_ext F (km_vm s) (km_vm s')" "km_links s' = km_links s"
  shows "slabs_ok s' H"
proof -
  have "in_page (km_vm s') k" if "in_page (km_vm s) k" for k
    using that assms(2) by (auto simp: in_page_def vm_ext_def keeps_mapped_def)
  then show ?thesis using assms(1,3) by (fastforce simp: slabs_ok_def)
qed

text \<open>A new cache and its first object.\<close>

lemma new_cache_object:
  fixes s :: "'x kmem_state"
  assumes sl: "slabs_ok s H" and c: "c = fst (kmem_alloc s)" "c \<noteq> 0" and cpu: "cpu \<noteq> 0" and sz: "osz \<noteq> 0" "unat osz \<le> 4072"
    "2 \<le> slab_elems (unat osz)" and sup: "pm_supply U (Suc n) (km_vm s)" and kf: "kfree (km_vm s) \<noteq> {}"
  obtains i a vm m s4 where
    "kmem_cache_alloc run c (snd (kmem_cache_init c cpu name osz ctor dtor (snd (kmem_alloc s)))) = do {
       s5 \<leftarrow> (case ctor of None \<Rightarrow> Some s4 | Some f \<Rightarrow> run f (slot osz i (slab_elems (unat osz))) s4);
       Some (slot osz i (slab_elems (unat osz)), upd_cache c (used_update (\<lambda>u. u + 1)) s5) }"
    "new_page i a (km_vm s) vm" "a \<in> U" "a mod 4096 = 0" "pm_supply (U - {a}) n vm"
    "km_vm s4 = vm\<lparr>pmem := m\<rparr>" "same_outside {frame_of a} (pmem vm) m" "km_ext s4 = km_ext s"
    "next_free_cache s4 = next_free_cache s + 1" "sym_caches s4 = sym_caches s" "\<forall>c'. c' \<noteq> c \<longrightarrow> km_cache s4 c' = km_cache s c'"
    "slabs_ok s4 (H(Slabs_empty c := [], Slabs_full c := [], Slabs_partial c := [kaddr i]))"
proof -
  let ?s1 = "snd (kmem_alloc s)" let ?s2 = "snd (kmem_cache_init c cpu name osz ctor dtor ?s1)"
  let ?H = "H(Slabs_empty c := [], Slabs_full c := [], Slabs_partial c := [])"
  have nz: "\<not> osz < MIN_CACHE_SIZE" using sz(1) by (simp add: MIN_CACHE_SIZE_def word_less_1)
  have s1: "km_vm ?s1 = km_vm s" "km_links ?s1 = km_links s" "km_ext ?s1 = km_ext s" "km_cache ?s1 = km_cache s" "sym_caches ?s1 = sym_caches s"
    "next_free_cache ?s1 = next_free_cache s + 1"
    by (simp_all add: i686_kmem_cache_alloc_def)
  have s2: "km_links ?s2 = SLIST_INIT (Slabs_partial c) (SLIST_INIT (Slabs_full c) (SLIST_INIT (Slabs_empty c) (km_links s)))"
    "km_vm ?s2 = km_vm s" "km_ext ?s2 = km_ext s" "sym_caches ?s2 = sym_caches s" "next_free_cache ?s2 = next_free_cache s + 1"
    "objsize (km_cache ?s2 c) = osz" "kc_cpu (km_cache ?s2 c) = cpu" "kc_ctor (km_cache ?s2 c) = ctor" "\<forall>c'. c' \<noteq> c \<longrightarrow> km_cache ?s2 c' = km_cache s c'"
    using nz s1 by (simp_all add: common_kmem_cache_init_def Let_def upd_cache_def)
  have l: "slinked (km_links ?s2) ?H" unfolding s2(1) using sl by (intro sl.init_rep) (simp add: slabs_ok_def)
  have "members ?H \<subseteq> members H" by (auto simp: members_iff split: if_splits)
  then have pages: "\<forall>p\<in>members ?H. \<exists>k. p = kaddr k \<and> in_page (km_vm ?s2) k" using sl unfolding s2(2) slabs_ok_def by blast
  have none: "?H (Slabs_partial c) = []" "?H (Slabs_empty c) = []" by simp_all
  have cf: "kc_cpu (km_cache ?s2 c) \<noteq> 0" "objsize (km_cache ?s2 c) = osz" using cpu s2(6,7) by simp_all
  have sup': "pm_supply U (Suc n) (km_vm ?s2)" and kf': "kfree (km_vm ?s2) \<noteq> {}" unfolding s2(2) by (fact sup kf)+
  obtain i a vm m s4 where al: "common_kmem_cache_alloc run c ?s2 = do {
       s5 \<leftarrow> (case kc_ctor (km_cache ?s2 c) of None \<Rightarrow> Some s4 | Some f \<Rightarrow> run f (slot osz i (slab_elems (unat osz))) s4);
       Some (slot osz i (slab_elems (unat osz)), upd_cache c (used_update (\<lambda>u. u + 1)) s5) }"
    and np: "new_page i a (km_vm ?s2) vm" and a: "a \<in> U" "a mod 4096 = 0" "pm_supply (U - {a}) n vm"
    and s4: "km_vm s4 = vm\<lparr>pmem := m\<rparr>" "same_outside {frame_of a} (pmem vm) m" "km_ext s4 = km_ext ?s2" "km_cache s4 = km_cache ?s2"
    "next_free_cache s4 = next_free_cache ?s2" "sym_caches s4 = sym_caches ?s2" "slinked (km_links s4) (?H(Slabs_partial c := [kaddr i]))"
    by (rule first_object[OF l none pages c(2) cf(1) sz(1,2) cf(2) sz(3) sup' kf'])
  have np': "new_page i a (km_vm s) vm" using np unfolding s2(2) .
  note nf = new_page_facts[OF np']
  have "in_page (km_vm s4) i" using nf(1) by (simp add: s4(1) in_page_def window_def)
  moreover have "in_page (km_vm s4) k" if "in_page (km_vm s) k" for k
    using that nf(3) by (auto simp: s4(1) in_page_def vm_ext_def keeps_mapped_def)
  moreover have "\<exists>k. p = kaddr k \<and> in_page (km_vm s) k" if "p \<in> members H" for p using sl that by (simp add: slabs_ok_def)
  moreover have "members (H(Slabs_empty c := [], Slabs_full c := [], Slabs_partial c := [kaddr i])) \<subseteq> insert (kaddr i) (members H)"
    by (auto simp: members_iff split: if_splits)
  ultimately have "slabs_ok s4 (H(Slabs_empty c := [], Slabs_full c := [], Slabs_partial c := [kaddr i]))"
    using s4(7) unfolding slabs_ok_def by (simp only: fun_upd_upd) blast
  moreover have "kmem_cache_alloc run c ?s2 = do {
       s5 \<leftarrow> (case ctor of None \<Rightarrow> Some s4 | Some f \<Rightarrow> run f (slot osz i (slab_elems (unat osz))) s4);
       Some (slot osz i (slab_elems (unat osz)), upd_cache c (used_update (\<lambda>u. u + 1)) s5) }"
    using al unfolding s2(8) by simp
  ultimately show thesis
    using that[OF _ np' a s4(1,2)] s4(3-6) s2(3-5,9) by simp
qed

lemma elems_128: "slab_elems (unat (128 :: u32)) = 30"
  by (simp add: slab_elems_def)

lemma slot_128: "slot 128 i 30 = kaddr i + of_nat 256"
  by (simp add: slot_def)

lemma slab_test:
  fixes M :: "('z, 'd) machine"
  assumes i: "image_ok env cs ds l0 Ls G (vm_of M)" and L: "memory_test_literals \<subseteq> Ls"
    and s: "pm_supply U (Suc n) (vm_of M)" and k: "kfree (vm_of M) \<noteq> {}" and d: "frame_of ` U \<inter> G = {}"
    and sl: "slabs_ok (km M) H" and c: "c = fst (kmem_alloc (km M))" "c \<noteq> 0" and cpu: "bsp (km_ext (km M)) \<noteq> 0"
  obtains t q j s3 M3 vm5 M4 where
    "kmem_cache_alloc run c (snd (kmem_cache_init c (bsp (km_ext (km M))) ''test'' 128 None None (snd (kmem_alloc (km M))))) = Some (t, s3)"
    "kdebug env (''cache at %x provided us with %x'' @ nl) [c, t] (M\<lparr>km := s3\<rparr>) = Some M3"
    "strcpy vm_ld vm_st t (lit env slab_message) (vm_of M3) = Some (of_nat (length slab_message), vm5)"
    "kdebug env (''%x contains: %s'' @ nl) [t, t] (set_vm vm5 M3) = Some M4"
    "M4 = M\<lparr>km := km M4, con := con M4\<rparr>" "km_ext (km M4) = km_ext (km M)" "next_free_cache (km M4) = next_free_cache (km M) + 1"
    "sym_caches (km M4) = sym_caches (km M)" "\<forall>c'. c' \<noteq> c \<longrightarrow> km_cache (km M4) c' = km_cache (km M) c'"
    "slabs_ok (km M4) (H(Slabs_empty c := [], Slabs_full c := [], Slabs_partial c := [kaddr j]))"
    "q \<in> U" "q mod 4096 = 0" "pm_supply (U - {q}) n (vm_of M4)" "image_ok env cs ds l0 Ls G (vm_of M4)"
    "kfree (vm_of M4) = kfree (vm_of M) - {j}" "j \<in> kfree (vm_of M)" "vm_ext (insert (frame_of q) G) (vm_of M) (vm_of M4)"
    "text_in {frame_of q} (vm_of M4) t (c_bytes slab_message)" "sym_kernel_pts (vm_of M4) = sym_kernel_pts (vm_of M)"
    "printed_on (con M) (con M4) (c_bytes ''cache at '' @ hex_text c @ c_bytes '' provided us with '' @ hex_text t @ c_bytes nl @
     hex_text t @ c_bytes ('' contains: '' @ slab_message @ nl))"
proof -
  have lits: "''cache at %x provided us with %x'' @ nl \<in> Ls" "slab_message \<in> Ls" "''%x contains: %s'' @ nl \<in> Ls"
    using L by (auto simp: memory_test_literals_def)
  have sz: "(128 :: u32) \<noteq> 0" "unat (128 :: u32) \<le> 4072" "2 \<le> slab_elems (unat (128 :: u32))" by (simp_all add: slab_elems_def)
  have s': "pm_supply U (Suc n) (km_vm (km M))" and k': "kfree (km_vm (km M)) \<noteq> {}" using s k by (simp_all add: vm_of_def)
  obtain j q vm m s4 where al: "kmem_cache_alloc run c (snd (kmem_cache_init c (bsp (km_ext (km M))) ''test'' 128 None None (snd (kmem_alloc (km M))))) =
      do { s5 \<leftarrow> (case None of None \<Rightarrow> Some s4 | Some f \<Rightarrow> run f (slot 128 j (slab_elems (unat (128 :: u32)))) s4);
           Some (slot 128 j (slab_elems (unat (128 :: u32))), upd_cache c (used_update (\<lambda>u. u + 1)) s5) }"
    and np: "new_page j q (km_vm (km M)) vm" and q: "q \<in> U" "q mod 4096 = 0" "pm_supply (U - {q}) n vm"
    and s4: "km_vm s4 = vm\<lparr>pmem := m\<rparr>" "same_outside {frame_of q} (pmem vm) m" "km_ext s4 = km_ext (km M)"
    "next_free_cache s4 = next_free_cache (km M) + 1" "sym_caches s4 = sym_caches (km M)"
    "\<forall>c'. c' \<noteq> c \<longrightarrow> km_cache s4 c' = km_cache (km M) c'"
    "slabs_ok s4 (H(Slabs_empty c := [], Slabs_full c := [], Slabs_partial c := [kaddr j]))"
    by (rule new_cache_object[OF sl c cpu sz s' k', where run = run and name = "''test''" and ctor = None and dtor = None])
  let ?t = "kaddr j + of_nat 256" and ?s3 = "upd_cache c (used_update (\<lambda>u. u + 1)) s4"
  let ?M2 = "M\<lparr>km := ?s3\<rparr>"
  have al': "kmem_cache_alloc run c (snd (kmem_cache_init c (bsp (km_ext (km M))) ''test'' 128 None None (snd (kmem_alloc (km M))))) = Some (?t, ?s3)"
    unfolding al elems_128 slot_128 by simp
  have v3: "vm_of ?M2 = vm\<lparr>pmem := m\<rparr>" by (simp add: vm_of_def upd_cache_def s4(1))
  note nf = new_page_facts[OF np[folded vm_of_def]]
  have fG: "frame_of q \<notin> G" "{frame_of q} \<inter> G = {}" using d q(1) by auto
  have e3: "vm_ext {frame_of q} (vm_of M) (vm\<lparr>pmem := m\<rparr>)"
    using vm_ext_trans[OF vm_ext_mono[OF nf(3)] vm_ext_pmem[OF s4(2)]] by simp
  have i3: "image_ok env cs ds l0 Ls G (vm_of ?M2)" unfolding v3 by (rule image_ok_ext[OF i e3 fG(2)])
  have "length (c_bytes ''cache at '' @ hex_text c @ c_bytes '' provided us with '' @ hex_text ?t @ c_bytes nl) < 256"
    using hex_text_length[of c] hex_text_length[of ?t] by simp
  note fit = this[folded memory_test_formats(3)[of "\<lambda>_. []"]]
  obtain m1 k1 where d1: "kdebug env (''cache at %x provided us with %x'' @ nl) [c, ?t] ?M2 = Some ((set_vm (vm\<lparr>pmem := m1\<rparr>) ?M2)\<lparr>con := k1\<rparr>)"
    "printed_on (con M) k1 (c_bytes ''cache at '' @ hex_text c @ c_bytes '' provided us with '' @ hex_text ?t @ c_bytes nl)"
    "same_outside G m m1" "image_ok env cs ds l0 Ls G (vm\<lparr>pmem := m1\<rparr>)"
    by (rule kdebug_says_free[OF i3 lits(1) memory_test_formats(6) fit, unfolded memory_test_formats(3) v3]) simp
  let ?vm4 = "vm\<lparr>pmem := m1\<rparr>" and ?M3 = "(set_vm (vm\<lparr>pmem := m1\<rparr>) ?M2)\<lparr>con := k1\<rparr>"
  have w: "window ?vm4 j (frame_of q)" using nf(1) by simp
  have "text_in G ?vm4 (lit env slab_message) (c_bytes slab_message)" using d1(4) lits(2) by (simp add: image_ok_def)
  from strcpy_page[OF w this fG(1), of 256] obtain m2 where
    c': "strcpy vm_ld vm_st ?t (lit env slab_message) ?vm4 = Some (of_nat (length slab_message), ?vm4\<lparr>pmem := m2\<rparr>)"
    "same_outside {frame_of q} m1 m2" "text_in {frame_of q} (?vm4\<lparr>pmem := m2\<rparr>) ?t (c_bytes slab_message)"
    by auto
  let ?vm5 = "vm\<lparr>pmem := m2\<rparr>"
  have "vm_ext {frame_of q} ?vm4 ?vm5" using c'(2) vm_ext_pmem[of "{frame_of q}" ?vm4 m2] by simp
  then have i5: "image_ok env cs ds l0 Ls G (vm_of (set_vm ?vm5 ?M3))" using image_ok_ext[OF d1(4) _ fG(2)] by simp
  have t5: "text_in {frame_of q} (vm_of (set_vm ?vm5 ?M3)) ?t (c_bytes slab_message)" using c'(3) by simp
  obtain m3 k2 where d2: "kdebug env (''%x contains: %s'' @ nl) [?t, ?t] (set_vm ?vm5 ?M3) = Some ((set_vm (vm\<lparr>pmem := m3\<rparr>) ?M2)\<lparr>con := k2\<rparr>)"
    "printed_on k1 k2 (hex_text ?t @ c_bytes ('' contains: '' @ slab_message @ nl))"
    "same_outside G m2 m3" "image_ok env cs ds l0 Ls G (vm\<lparr>pmem := m3\<rparr>)"
    by (rule kdebug_contains[OF i5 lits(3) t5 fG(2)]) (simp_all del: append.simps)
  let ?vm = "vm\<lparr>pmem := m3\<rparr>" and ?M4 = "(set_vm (vm\<lparr>pmem := m3\<rparr>) ?M2)\<lparr>con := k2\<rparr>"
  have sup: "pm_supply (U - {q}) n ?vm" using q(3) pm_supply_cong[of ?vm vm] by simp
  have kp: "sym_kernel_pts vm = sym_kernel_pts (vm_of M)" using np by (auto simp: new_page_def vm_of_def)
  have all: "same_outside (insert (frame_of q) G) m m3" using d1(3) c'(2) d2(3) by (simp add: same_outside_def)
  have em: "vm_ext (insert (frame_of q) G) (vm\<lparr>pmem := m\<rparr>) ?vm"
    using vm_ext_pmem[of "insert (frame_of q) G" "vm\<lparr>pmem := m\<rparr>" m3] all by simp
  have ext: "vm_ext (insert (frame_of q) G) (vm_of M) ?vm"
    by (rule vm_ext_trans[OF vm_ext_mono[OF e3] em]) simp
  have "vm_ext G ?vm5 ?vm" using vm_ext_pmem[of G ?vm5 m3] d2(3) by simp
  then have tx: "text_in {frame_of q} ?vm ?t (c_bytes slab_message)"
    using text_in_ext[OF t5, of G ?vm] fG(2) by (simp add: Int_commute)
  have so: "slabs_ok (km ?M4) (H(Slabs_empty c := [], Slabs_full c := [], Slabs_partial c := [kaddr j]))"
    by (rule slabs_ok_ext[OF s4(7), of "insert (frame_of q) G"]) (use em s4(1) in \<open>simp_all add: upd_cache_def\<close>)
  have kf: "kfree ?vm = kfree (vm_of M) - {j}" "j \<in> kfree (vm_of M)"
    using nf(2) np[folded vm_of_def] by (simp_all add: new_page_def kfree_def[of ?vm] kfree_def[of vm])
  have pr: "printed_on (con M) k2 ((c_bytes ''cache at '' @ hex_text c @ c_bytes '' provided us with '' @ hex_text ?t @ c_bytes nl) @
     hex_text ?t @ c_bytes ('' contains: '' @ slab_message @ nl))"
    by (rule printed_on_trans[OF d1(2) d2(2)])
  show thesis
    by (rule that[OF al', of ?M3 ?vm5 ?M4])
      (use d1(1) c'(1) d2 q(1,2) sup kf ext tx so pr kp s4(3-6) in \<open>simp_all add: append_assoc upd_cache_def\<close>)
qed

text \<open>The two parts one after the other.\<close>

lemma kmain_test_memory_ok:
  fixes M :: "('z, 'd) machine"
  assumes i: "image_ok env cs ds l0 Ls G (vm_of M)" and L: "memory_test_literals \<subseteq> Ls"
    and s: "pm_supply U (Suc (Suc n)) (vm_of M)" and k: "2 \<le> card (kfree (vm_of M))" and d: "frame_of ` U \<inter> G = {}"
    and sl: "slabs_ok (km M) H" and c: "c = fst (kmem_alloc (km M))" "c \<noteq> 0" and cpu: "bsp (km_ext (km M)) \<noteq> 0"
  obtains a p t q j M' where "kmain_test_memory env run M = Some (a, M')"
    "M' = M\<lparr>km := km M', con := con M'\<rparr>" "km_ext (km M') = km_ext (km M)" "next_free_cache (km M') = next_free_cache (km M) + 1"
    "sym_caches (km M') = sym_caches (km M)" "\<forall>c'. c' \<noteq> c \<longrightarrow> km_cache (km M') c' = km_cache (km M) c'"
    "slabs_ok (km M') (H(Slabs_empty c := [], Slabs_full c := [], Slabs_partial c := [kaddr j]))"
    "p \<in> U" "q \<in> U" "p \<noteq> q" "pm_supply (U - {p, q}) n (vm_of M')" "image_ok env cs ds l0 Ls G (vm_of M')"
    "card (kfree (vm_of M)) = card (kfree (vm_of M')) + 2" "vm_ext (frame_of ` {p, q} \<union> G) (vm_of M) (vm_of M')"
    "kvirt_loc (vm_of M') a = Some p" "text_in {frame_of p} (vm_of M') a (c_bytes memory_message)"
    "text_in {frame_of q} (vm_of M') t (c_bytes slab_message)" "sym_kernel_pts (vm_of M') = sym_kernel_pts (vm_of M)"
    "printed_on (con M) (con M') (memory_test_text a p c t)"
proof -
  have kn: "kfree (vm_of M) \<noteq> {}" using k by auto
  obtain i p vm1 vm2 vm3 vm5 M1 M2 where
    a: "virtmem_kernel_alloc 1 (vm_of M) = Some ((VIRTMEM_SUCCESS, Some (kaddr i)), vm1)"
      "local_page_alloc vm1 = Some ((PHYSMEM_SUCCESS, Some p), vm2)"
      "virtmem_kernel_map_virt_to_phys p (kaddr i) vm2 = Some (VIRTMEM_SUCCESS, vm3)"
      "kdebug env (''Allocated address: %x(->%x)'' @ nl) [kaddr i, p] (set_vm vm3 M) = Some M1"
      "strcpy vm_ld vm_st (kaddr i) (lit env memory_message) (vm_of M1) = Some (of_nat (length memory_message), vm5)"
      "kdebug env (''%x contains: %s'' @ nl) [kaddr i, kaddr i] (set_vm vm5 M1) = Some M2"
    and M2: "M2 = (set_vm (vm_of M2) M)\<lparr>con := con M2\<rparr>" and p: "p \<in> U" "p mod 4096 = 0" "pm_supply (U - {p}) (Suc n) (vm_of M2)"
    and i2: "image_ok env cs ds l0 Ls G (vm_of M2)" and kf: "kfree (vm_of M2) = kfree (vm_of M) - {i}" "i \<in> kfree (vm_of M)"
    and e: "vm_ext (insert (frame_of p) G) (vm_of M) (vm_of M2)"
    and tx: "text_in {frame_of p} (vm_of M2) (kaddr i) (c_bytes memory_message)" "kvirt_loc (vm_of M2) (kaddr i) = Some p"
    and kp: "sym_kernel_pts (vm_of M2) = sym_kernel_pts (vm_of M)"
    and pr: "printed_on (con M) (con M2) (c_bytes ''Allocated address: '' @ hex_text (kaddr i) @ c_bytes ''(->'' @ hex_text p @ c_bytes ('')'' @ nl) @
     hex_text (kaddr i) @ c_bytes ('' contains: '' @ memory_message @ nl))"
    by (rule page_test[OF i L s kn d])
  have ca: "card (kfree (vm_of M)) = Suc (card (kfree (vm_of M2)))" unfolding kf(1) using card_Suc_Diff1[OF finite_kfree kf(2)] by simp
  then have kn2: "kfree (vm_of M2) \<noteq> {}" using k by auto
  have km2: "km M2 = (km M)\<lparr>km_vm := vm_of M2\<rparr>" by (subst M2) simp
  have d2: "frame_of ` (U - {p}) \<inter> G = {}" using d by blast
  have sl2: "slabs_ok (km M2) H" by (rule slabs_ok_ext[OF sl e[unfolded vm_of_def]]) (simp add: km2)
  have al: "fst (kmem_alloc (km M2)) = c" "snd (kmem_alloc (km M2)) = (snd (kmem_alloc (km M)))\<lparr>km_vm := vm_of M2\<rparr>" "km_ext (km M2) = km_ext (km M)"
    by (simp_all add: km2 c(1) i686_kmem_cache_alloc_def)
  have c2: "c = fst (kmem_alloc (km M2))" and cpu2: "bsp (km_ext (km M2)) \<noteq> 0" using al(1,3) cpu by simp_all
  obtain t q j s3 M3 vm5' M4 where
    b: "kmem_cache_alloc run c (snd (kmem_cache_init c (bsp (km_ext (km M2))) ''test'' 128 None None (snd (kmem_alloc (km M2))))) = Some (t, s3)"
      "kdebug env (''cache at %x provided us with %x'' @ nl) [c, t] (M2\<lparr>km := s3\<rparr>) = Some M3"
      "strcpy vm_ld vm_st t (lit env slab_message) (vm_of M3) = Some (of_nat (length slab_message), vm5')"
      "kdebug env (''%x contains: %s'' @ nl) [t, t] (set_vm vm5' M3) = Some M4"
    and M4: "M4 = M2\<lparr>km := km M4, con := con M4\<rparr>" "km_ext (km M4) = km_ext (km M2)" "next_free_cache (km M4) = next_free_cache (km M2) + 1"
      "sym_caches (km M4) = sym_caches (km M2)" "\<forall>c'. c' \<noteq> c \<longrightarrow> km_cache (km M4) c' = km_cache (km M2) c'"
      "slabs_ok (km M4) (H(Slabs_empty c := [], Slabs_full c := [], Slabs_partial c := [kaddr j]))"
    and q: "q \<in> U - {p}" "q mod 4096 = 0" "pm_supply (U - {p} - {q}) n (vm_of M4)" and i4: "image_ok env cs ds l0 Ls G (vm_of M4)"
    and kf4: "kfree (vm_of M4) = kfree (vm_of M2) - {j}" "j \<in> kfree (vm_of M2)"
    and e4: "vm_ext (insert (frame_of q) G) (vm_of M2) (vm_of M4)"
    and tx4: "text_in {frame_of q} (vm_of M4) t (c_bytes slab_message)" "sym_kernel_pts (vm_of M4) = sym_kernel_pts (vm_of M2)"
    and pr4: "printed_on (con M2) (con M4) (c_bytes ''cache at '' @ hex_text c @ c_bytes '' provided us with '' @ hex_text t @ c_bytes nl @
     hex_text t @ c_bytes ('' contains: '' @ slab_message @ nl))"
    by (rule slab_test[OF i2 L p(3) kn2 d2 sl2 c2 c(2) cpu2])
  have run: "kmain_test_memory env run M = Some (kaddr i, M4)"
  proof -
    have "km_ext (snd (i686_kmem_cache_alloc s)) = km_ext s" for s :: "'z sched_state" by (simp add: i686_kmem_cache_alloc_def)
    then show ?thesis using a b unfolding kmain_test_memory_def by (simp add: Let_def case_prod_unfold flip: al(1))
  qed
  have con2: "proc M2 = proc M" "M2\<lparr>km := x, con := y\<rparr> = M\<lparr>km := x, con := y\<rparr>" for x y by (subst M2, simp add: set_vm_def)+
  have ca4: "card (kfree (vm_of M2)) = Suc (card (kfree (vm_of M4)))" unfolding kf4(1) using card_Suc_Diff1[OF finite_kfree kf4(2)] by simp
  have "frame_of q \<noteq> frame_of p"
    using frame_addr_frame_of_aligned[OF p(2)] frame_addr_frame_of_aligned[OF q(2)] q(1) by auto
  then have G: "{frame_of p} \<inter> G = {}" "frame_of q \<noteq> frame_of p" using d p(1) by auto
  show thesis
  proof (rule that[OF run])
    show "M4 = M\<lparr>km := km M4, con := con M4\<rparr>" by (rule trans[OF M4(1) con2(2)])
    show "km_ext (km M4) = km_ext (km M)" "next_free_cache (km M4) = next_free_cache (km M) + 1" "sym_caches (km M4) = sym_caches (km M)"
      "\<forall>c'. c' \<noteq> c \<longrightarrow> km_cache (km M4) c' = km_cache (km M) c'" using M4(2-5) by (simp_all add: km2)
    show "slabs_ok (km M4) (H(Slabs_empty c := [], Slabs_full c := [], Slabs_partial c := [kaddr j]))" by (rule M4(6))
    show "p \<in> U" "q \<in> U" "p \<noteq> q" using p(1) q(1) by auto
    show "pm_supply (U - {p, q}) n (vm_of M4)" using q(3) unfolding Diff_insert2[of U p "{q}"] .
    show "image_ok env cs ds l0 Ls G (vm_of M4)" by (rule i4)
    show "card (kfree (vm_of M)) = card (kfree (vm_of M4)) + 2" using ca ca4 by simp
    show "vm_ext (frame_of ` {p, q} \<union> G) (vm_of M) (vm_of M4)"
      by (rule vm_ext_trans[OF vm_ext_mono[OF e] vm_ext_mono[OF e4]]) auto
    show "kvirt_loc (vm_of M4) (kaddr i) = Some p" by (rule vm_ext_loc[OF e4 tx(2)])
    show "text_in {frame_of p} (vm_of M4) (kaddr i) (c_bytes memory_message)" by (rule text_in_ext[OF tx(1) e4]) (use G in auto)
    show "text_in {frame_of q} (vm_of M4) t (c_bytes slab_message)" by (rule tx4(1))
    show "sym_kernel_pts (vm_of M4) = sym_kernel_pts (vm_of M)" using tx4(2) kp by simp
    show "printed_on (con M) (con M4) (memory_test_text (kaddr i) p c t)"
      using printed_on_trans[OF pr pr4] unfolding memory_test_text_def append_assoc .
  qed
qed

section \<open>Properties\<close>

text \<open>
  C28.  The test of the memory in \<^verbatim>\<open>i686_kmain\<close> returns wherever the console and the literals are mapped, two frames and two
  kernel pages are free: it maps one of the free frames, takes an object from a new cache that gets the other one, writes its two
  messages, where they can be read afterwards, and prints the four lines with the addresses and with the messages as memory has them.
  The frames it used are no longer in supply, nothing else in memory changes but the buffers of the console, and every page that was
  mapped is mapped where it was.
\<close>

theorem kmain_test_memory_passes:
  fixes M :: "('z, 'd) machine"
  assumes "image_ok env cs ds l0 Ls G (vm_of M)" "memory_test_literals \<subseteq> Ls"
    and "pm_supply U (Suc (Suc n)) (vm_of M)" "2 \<le> card (kfree (vm_of M))" "frame_of ` U \<inter> G = {}"
    and "slabs_ok (km M) H" "fst (kmem_alloc (km M)) \<noteq> 0" "bsp (km_ext (km M)) \<noteq> 0"
  shows "\<exists>a p t q M'. kmain_test_memory env run M = Some (a, M') \<and>
    printed_on (con M) (con M') (memory_test_text a p (fst (kmem_alloc (km M))) t) \<and>
    p \<in> U \<and> q \<in> U \<and> p \<noteq> q \<and> pm_supply (U - {p, q}) n (vm_of M') \<and> kvirt_loc (vm_of M') a = Some p \<and>
    text_in {frame_of p} (vm_of M') a (c_bytes memory_message) \<and> text_in {frame_of q} (vm_of M') t (c_bytes slab_message) \<and>
    vm_ext (frame_of ` {p, q} \<union> G) (vm_of M) (vm_of M') \<and> proc M' = proc M"
proof (rule kmain_test_memory_ok[OF assms(1-6) refl assms(7,8), where run = run])
  fix a p t q j M'
  assume r: "kmain_test_memory env run M = Some (a, M')" "M' = M\<lparr>km := km M', con := con M'\<rparr>" "p \<in> U" "q \<in> U" "p \<noteq> q"
    "pm_supply (U - {p, q}) n (vm_of M')" "vm_ext (frame_of ` {p, q} \<union> G) (vm_of M) (vm_of M')"
    "kvirt_loc (vm_of M') a = Some p" "text_in {frame_of p} (vm_of M') a (c_bytes memory_message)"
    "text_in {frame_of q} (vm_of M') t (c_bytes slab_message)" "sym_kernel_pts (vm_of M') = sym_kernel_pts (vm_of M)"
    "printed_on (con M) (con M') (memory_test_text a p (fst (kmem_alloc (km M))) t)"
  moreover have "proc M' = proc M" by (subst r(2)) simp
  ultimately show ?thesis by blast
qed

definition memory_literals :: "string list" where
  "memory_literals = [''Allocated address: %x(->%x)'' @ nl, memory_message, ''%x contains: %s'' @ nl,
     ''cache at %x provided us with %x'' @ nl, slab_message]"

lemma image_at_text_in:
  assumes im: "image_at ts f g vm" and t: "t \<in> set ts" "0 \<notin> set (c_bytes t)" "length (image_of ts) < 4096"
  shows "text_in {f, g} vm (lit (example_env ts) t) (c_bytes t)"
proof -
  have w: "window vm 0 f" using im by (simp add: image_at_def)
  have l: "kvirt_loc vm (lit (example_env ts) t + of_nat i) = Some (frame_addr f + of_nat (lit_at ts t + i))"
    "frame_of (frame_addr f + of_nat (lit_at ts t + i)) = f" if "i \<le> length t" for i
  proof -
    have k: "(of_nat (lit_at ts t + i) :: u32) < 4096" using that image_at_cstr(2)[OF assms] by (simp add: word_less_nat_alt unat_of_nat del: of_nat_add)
    show "kvirt_loc vm (lit (example_env ts) t + of_nat i) = Some (frame_addr f + of_nat (lit_at ts t + i))"
      using window_loc[OF w k] by (simp add: kaddr_0_1 example_env_def add.assoc)
    show "frame_of (frame_addr f + of_nat (lit_at ts t + i)) = f" using frame_byte_parts(1)[OF k] .
  qed
  then show ?thesis using image_at_cstr(1)[OF assms] by (auto simp: text_in_def example_env_def)
qed

lemma image_at_image_ok:
  assumes im: "image_at ts f g vm" and t: "\<forall>t\<in>set ts. 0 \<notin> set (c_bytes t)" "length (image_of ts) < 4096"
  shows "image_ok (example_env ts) (page_cells g 256 256) (page_cells g 16 20) (frame_addr g + 255) (set ts) {f, g} vm"
proof -
  have w: "window vm 1 g" using im by (simp add: image_at_def)
  have "frame_of (frame_addr g + 255) = g" using page_cell_frame(1)[of 255 0 g] by simp
  moreover have "frame_of ` (set (page_cells g 256 256) \<union> set (page_cells g 16 20)) \<subseteq> {g}"
    using page_cell_frame(1)[of 256 _ g] page_cell_frame(1)[of 16 _ g] by (auto simp del: of_nat_add)
  ultimately show ?thesis
    unfolding image_ok_def using image_at_console[OF w] image_at_literal[OF im _ _ t(2)] image_at_text_in[OF im _ _ t(2)] t(1) by blast
qed

lemma example_image_ok:
  assumes "\<forall>t\<in>set ts. 0 \<notin> set (c_bytes t)" "length (image_of ts) < 4096"
  shows "image_ok (example_env ts) example_cs example_ds 0x60FF (set ts) {5, 6} (example_vm_with ts)"
  using image_at_image_ok[OF example_vm_with_image[OF assms(2)] assms] by (simp add: frame_addr_def)

lemma example_vm_with_supply: "pm_supply {0x1000, 0x2000} 2 (example_vm_with ts)"
proof -
  have f: "localmem (example_vm_with ts) = 1" "vm_pm (example_vm_with ts) = example_pool"
    by (simp_all add: example_vm_with_def example_strings_def example_vm_def)
  have "source_avail 1 example_pool = 2" by (simp add: source_avail_def example_pool_def)
  then show ?thesis using pm_supplyI(1)[of _ "example_vm_with ts"] example_pool_source unfolding f by blast
qed

lemma example_vm_with_kfree: "kfree (example_vm_with ts) = {2..<262144}"
  by (auto simp: kfree_def example_vm_with_def example_strings_def)

theorem kmain_test_memory_passes_witness:
  "\<exists>a p t M'. kmain_test_memory (example_env memory_literals) no_callbacks (example_machine memory_literals) = Some (a, M') \<and>
    printed_on example_console (con M') (memory_test_text a p 0xC0010000 t) \<and> p \<in> {0x1000, 0x2000} \<and>
    cstr vm_ld (vm_of M') a (c_bytes memory_message)"
proof -
  let ?ts = memory_literals
  have z: "\<forall>t\<in>set ?ts. 0 \<notin> set (c_bytes t)" by (simp add: memory_literals_def c_bytes_def)
  have len: "length (image_of ?ts) < 4096" by (simp add: memory_literals_def image_of_def c_bytes_def)
  have L: "memory_test_literals \<subseteq> set ?ts" by (simp add: memory_test_literals_def memory_literals_def)
  have k: "2 \<le> card (kfree (example_vm_with ?ts))" by (simp add: example_vm_with_kfree)
  have d: "frame_of ` {0x1000, 0x2000} \<inter> {5, 6} = {}" by (simp add: frame_of_def drop_bit_12)
  have s: "slabs_ok (km (example_machine ?ts)) (\<lambda>_. [])" "fst (kmem_alloc (km (example_machine ?ts))) = 0xC0010000"
    "bsp (km_ext (km (example_machine ?ts))) \<noteq> 0"
    by (simp_all add: slabs_ok_def slinked_def members_def example_machine_def example_sched_def i686_kmem_cache_alloc_def)
  have c: "fst (kmem_alloc (km (example_machine ?ts))) \<noteq> 0" by (simp only: s(2)) simp
  note p = kmain_test_memory_passes[of "example_env ?ts" example_cs example_ds "0x60FF" "set ?ts" "{5, 6}" "example_machine ?ts" "{0x1000, 0x2000}" 0
      "\<lambda>_. []" no_callbacks, unfolded example_machine_fields(1), OF example_image_ok[OF z len] L _ k d s(1) c s(3)]
  show ?thesis using p example_vm_with_supply[of ?ts] unfolding s(2) example_machine_fields text_in_def numeral_2_eq_2 by blast
qed

end
