(* ===== verification/Regions.thy ===== *)
theory Regions
  imports Address_Space Supply
begin

text \<open>
  Regions whose pages come from the allocator: what \<^verbatim>\<open>memory_region_map\<close> of \<^verbatim>\<open>src/sys/common/address_space.c\<close> does without a physical
  address, down to the page tables that it adds.
\<close>

section \<open>Frames of an address space\<close>

lemma pm_supply_aligned: "pm_supply U n vm \<Longrightarrow> a \<in> U \<Longrightarrow> a mod 4096 = 0"
proof -
  assume "pm_supply U n vm" and a: "a \<in> U"
  then consider k start A where "source_rep k (localmem vm) start (vm_pm vm) A U"
    | k src start keep minf A where "feeder_set_rep k src (localmem vm) start keep minf (vm_pm vm) A U"
    unfolding pm_supply_def by blast
  then obtain start X where u: "U = addr_of start ` X"
  proof cases
    case 1
    then show thesis using that unfolding source_rep_def by blast
  next
    case 2
    then show thesis using that unfolding feeder_set_rep_def by blast
  qed
  from a obtain x where "a = addr_of start x" unfolding u by blast
  then show ?thesis unfolding addr_of_def by (simp only: page_multiple_mod)
qed

lemma frame_of_inj:
  assumes "a mod 4096 = (0 :: u32)" "b mod 4096 = 0" "frame_of a = frame_of b"
  shows "a = b"
  using frame_addr_frame_of_aligned[OF assms(1)] frame_addr_frame_of_aligned[OF assms(2)] unfolding assms(3) by (rule box_equals[OF refl])

lemma pm_supply_frame:
  assumes "pm_supply U n vm" "a \<in> U" "V \<subseteq> U - {a}"
  shows "frame_of a \<notin> frame_of ` V"
  using frame_of_inj[OF pm_supply_aligned[OF assms(1,2)] pm_supply_aligned[OF assms(1)]] assms(3) by blast

text \<open>A directory and its page tables are in frames that the allocator does not have.\<close>

definition space_ok :: "physaddr_t \<Rightarrow> physaddr_t set \<Rightarrow> vm_state \<Rightarrow> bool" where
  "space_ok pd U s \<longleftrightarrow> wf_pd (pmem s) pd \<and> insert (frame_of pd) (tables (pmem s) pd) \<inter> frame_of ` U = {}"

text \<open>What an operation may do to an address space: page tables are added, from the pages of \<open>V\<close>, and the others stay.\<close>

definition space_grows :: "physaddr_t \<Rightarrow> physaddr_t set \<Rightarrow> vm_state \<Rightarrow> vm_state \<Rightarrow> bool" where
  "space_grows pd V s s' \<longleftrightarrow>
     (\<forall>va. pd_present (user_pde (pmem s) pd va) \<longrightarrow> user_pde (pmem s') pd va = user_pde (pmem s) pd va) \<and>
     (\<forall>va. user_pde (pmem s') pd va = user_pde (pmem s) pd va \<or> user_pde (pmem s') pd va \<in> table_pde ` frame_of ` V) \<and>
     tables (pmem s') pd \<subseteq> tables (pmem s) pd \<union> frame_of ` V \<and>
     vm_ext (insert (frame_of pd) (tables (pmem s) pd \<union> frame_of ` V)) s s'"

lemma space_grows_trans:
  assumes "space_grows pd V s s1" "space_grows pd W s1 s2" "V \<subseteq> X" "W \<subseteq> X"
  shows "space_grows pd X s s2"
proof -
  let ?F = "insert (frame_of pd) (tables (pmem s) pd \<union> frame_of ` X)"
  have t: "tables (pmem s1) pd \<subseteq> tables (pmem s) pd \<union> frame_of ` V" "tables (pmem s2) pd \<subseteq> tables (pmem s1) pd \<union> frame_of ` W"
    using assms(1,2) by (simp_all add: space_grows_def)
  have i: "frame_of ` V \<subseteq> frame_of ` X" "frame_of ` W \<subseteq> frame_of ` X" using assms(3,4) by (simp_all add: image_mono)
  have "insert (frame_of pd) (tables (pmem s) pd \<union> frame_of ` V) \<subseteq> ?F" "insert (frame_of pd) (tables (pmem s1) pd \<union> frame_of ` W) \<subseteq> ?F"
    using t i by blast+
  then have "vm_ext ?F s s1" "vm_ext ?F s1 s2" using assms(1,2) vm_ext_mono unfolding space_grows_def by metis+
  then have "vm_ext ?F s s2" by (rule vm_ext_trans)
  moreover have "tables (pmem s2) pd \<subseteq> tables (pmem s) pd \<union> frame_of ` X" using t i by blast
  moreover have "\<forall>va. pd_present (user_pde (pmem s) pd va) \<longrightarrow> user_pde (pmem s2) pd va = user_pde (pmem s) pd va"
    using assms(1,2) by (simp add: space_grows_def)
  moreover have "user_pde (pmem s2) pd va = user_pde (pmem s) pd va \<or> user_pde (pmem s2) pd va \<in> table_pde ` frame_of ` X" for va
    using assms(1,2) i unfolding space_grows_def by (metis image_mono subsetD)
  ultimately show ?thesis by (simp add: space_grows_def)
qed

lemma space_okD:
  assumes "space_ok pd U s"
  shows "wf_pd (pmem s) pd" "pd mod 4096 = 0" "a \<in> U \<Longrightarrow> frame_of a \<noteq> frame_of pd" "a \<in> U \<Longrightarrow> frame_of a \<notin> tables (pmem s) pd"
proof -
  show wf: "wf_pd (pmem s) pd" using assms by (simp add: space_ok_def)
  show "pd mod 4096 = 0" by (rule wf_pdD(1)[OF wf])
  show "frame_of a \<noteq> frame_of pd" "frame_of a \<notin> tables (pmem s) pd" if "a \<in> U"
    using assms imageI[OF that, of frame_of] by (auto simp: space_ok_def)
qed

lemma space_ok_mono: "space_ok pd U s \<Longrightarrow> V \<subseteq> U \<Longrightarrow> space_ok pd V s"
  by (auto simp: space_ok_def)

text \<open>Looking a page up, with the table that this may add.\<close>

lemma get_page_supply:
  assumes sp: "space_ok pd U s" and sup: "pm_supply U (Suc n) s" and k: "3 \<le> card (kfree s)" and va: "va div 4096 \<noteq> 0"
  obtains s' U' n' where
    "virtmem_user_get_page pd va s = Some ((VIRTMEM_SUCCESS, Some (frame_addr (pt_phys_addr (user_pte (pmem s) pd va)))), s')"
    "user_pte (pmem s') pd = user_pte (pmem s) pd" "pd_present (user_pde (pmem s') pd va)"
    "U' \<subseteq> U" "pm_supply U' n' s'" "n \<le> n'" "space_ok pd U' s'" "space_grows pd (U - U') s s'"
    "card (kfree s) \<le> card (kfree s') + 3"
proof -
  let ?p = "frame_addr (pt_phys_addr (user_pte (pmem s) pd va))"
  note fact = that
  note wf = space_okD(1,2)[OF sp]
  have r: "walk_ready s pd va" using wf(2) va k pm_supply_ready[OF sup] by (simp add: walk_ready_def pm_ready_page_size)
  have out: "virtmem_user_get_page pd va s = i686_user_get_page pd va s" by simp
  have fin: thesis
    if g: "i686_user_get_page pd va s = Some ((VIRTMEM_SUCCESS, Some ?p), s')" and u: "updates_page pd va (\<lambda>e. e) s s'"
      and st: "vm_step s pm m s'" and q: "pm_supply U' n' s'" "n \<le> n'" "U' \<subseteq> U"
      and e: "\<forall>v. user_pde m pd v = user_pde (pmem s) pd v \<or> \<not> pd_present (user_pde (pmem s) pd v) \<and> user_pde m pd v \<in> table_pde ` frame_of ` (U - U')"
    for s' pm m U' n'
  proof -
    have m: "pmem s' = m" using st by (simp add: vm_step_def)
    have t: "tables m pd \<subseteq> tables (pmem s) pd \<union> frame_of ` (U - U')" 
    proof
      fix x assume "x \<in> tables m pd"
      then obtain v where v: "x = pd_phys_addr (user_pde m pd v)" "pd_present (user_pde m pd v)" by (auto simp: tables_def)
      from e have "user_pde m pd v = user_pde (pmem s) pd v \<or> x \<in> frame_of ` (U - U')" unfolding v(1) by (auto simp: table_pde_def)
      then show "x \<in> tables (pmem s) pd \<union> frame_of ` (U - U')"
      proof
        assume "user_pde m pd v = user_pde (pmem s) pd v"
        then show ?thesis using v by (auto simp: tables_def)
      qed simp
    qed
    have d: "frame_of ` (U - U') \<inter> frame_of ` U' = {}"
      using frame_of_inj[OF pm_supply_aligned[OF sup] pm_supply_aligned[OF sup]] q(3) by blast
    have "insert (frame_of pd) (tables (pmem s) pd) \<inter> frame_of ` U' = {}" using sp image_mono[OF q(3), of frame_of] unfolding space_ok_def by blast
    then have "insert (frame_of pd) (tables m pd) \<inter> frame_of ` U' = {}" using t d by blast
    then have "space_ok pd U' s'" using u by (simp add: space_ok_def m updates_page_def)
    moreover have "insert (frame_of pd) (tables m pd) \<subseteq> insert (frame_of pd) (tables (pmem s) pd \<union> frame_of ` (U - U'))" using t by blast
    then have "vm_ext (insert (frame_of pd) (tables (pmem s) pd \<union> frame_of ` (U - U'))) s s'"
      using u same_outside_mono[of "insert (frame_of pd) (tables m pd)"] unfolding vm_ext_def updates_page_def m by blast
    then have "space_grows pd (U - U') s s'" using e t unfolding space_grows_def m by auto
    moreover have "user_pte (pmem s') pd = user_pte (pmem s) pd"
    proof
      fix v
      have "user_pte (pmem s') pd v = (if v div 4096 = va div 4096 then user_pte (pmem s) pd va else user_pte (pmem s) pd v)"
        using u by (simp add: updates_page_def)
      then show "user_pte (pmem s') pd v = user_pte (pmem s) pd v" using user_pte_same_page(2) by metis
    qed
    ultimately show thesis using fact[of s' U' n'] g out q u by (simp add: updates_page_def)
  qed
  show thesis
  proof (cases "pd_present (user_pde (pmem s) pd va)")
    case True
    then have w: "walk_to s pd va (pd_phys_addr (user_pde (pmem s) pd va)) (pmem s) (vm_pm s)" by (simp add: walk_to_def)
    have c: "can_walk s pd va" using r wf True by (simp add: can_walk_def)
    obtain s' where s': "i686_user_get_page pd va s = Some ((VIRTMEM_SUCCESS, Some ?p), s')" "updates_page pd va (\<lambda>e. e) s s'"
      using get_page_reads[OF c] by blast
    then have st: "vm_step s (vm_pm s) (pmem s) s'" using get_page_mem[OF r w] by auto
    then have "pm_supply U (Suc n) s'" using sup pm_supply_cong[of s' s] by (simp add: vm_step_def)
    from fin[OF s' st this] show thesis by simp
  next
    case False
    obtain a pm where a: "local_page_alloc s = Some ((PHYSMEM_SUCCESS, Some a), s\<lparr>vm_pm := pm\<rparr>)" "a \<in> U"
      "pm_supply (U - {a}) n (s\<lparr>vm_pm := pm\<rparr>)" by (rule pm_supply_alloc[OF sup]) 
    have al: "physmem_page_alloc (localmem s) 0 (vm_pm s) = Some ((PHYSMEM_SUCCESS, Some a), pm)"
      using a(1) by (auto simp: local_page_alloc_def bind_eq_Some_conv) (metis vm_state.select_convs(1) vm_state.update_convs(1) vm_state.surjective)
    have ps: "physmem_page_size pm (localmem s) = Some 4096"
      using pm_ready_page_size[OF pm_supply_ready[OF a(3)]] by (simp add: local_page_size_def)
    have fresh: "frame_of a \<notin> insert (frame_of pd) (tables (pmem s) pd)" using space_okD(3,4)[OF sp a(2)] by blast
    define m where "m = store32 (pd_slot pd va) (pde_to_word (table_pde (frame_of a))) (zero_frame (frame_of a) (pmem s))"
    have w: "walk_to s pd va (frame_of a) m pm" using False al ps by (simp add: walk_to_def m_def)
    have c: "can_walk s pd va" using r wf al ps fresh by (auto simp: can_walk_def)
    obtain s' where s': "i686_user_get_page pd va s = Some ((VIRTMEM_SUCCESS, Some ?p), s')" "updates_page pd va (\<lambda>e. e) s s'"
      using get_page_reads[OF c] by blast
    then have st: "vm_step s pm m s'" using get_page_mem[OF r w] by auto
    then have "pm_supply (U - {a}) n s'" using a(3) pm_supply_cong[of s' "s\<lparr>vm_pm := pm\<rparr>"] by (simp add: vm_step_def)
    moreover have "user_pde m pd v = user_pde (pmem s) pd v \<or> \<not> pd_present (user_pde (pmem s) pd v) \<and>
        user_pde m pd v \<in> table_pde ` frame_of ` (U - (U - {a}))" for v
    proof (cases "v div 4194304 = va div 4194304")
      case True
      then have "user_pde (pmem s) pd v = user_pde (pmem s) pd va" by (simp add: user_pde_def pd_slot_def)
      then show ?thesis using new_table_refines(1)[OF wf(1) False fresh m_def, of v] True False a(2) by (simp add: table_pde_def)
    next
      case False': False
      then show ?thesis using new_table_refines(1)[OF wf(1) False fresh m_def, of v] by simp
    qed
    ultimately show thesis using fin[OF s' st, of "U - {a}" n] by blast
  qed
qed

section \<open>Allocating the pages of a region\<close>

text \<open>The map of a region whose pages are the frames of a list.\<close>

definition alloc_map :: "virtaddr_t \<Rightarrow> physaddr_t list \<Rightarrow> u32 \<Rightarrow> (virtaddr_t \<Rightarrow> i686_pte) \<Rightarrow> virtaddr_t \<Rightarrow> i686_pte" where
  "alloc_map va P flags e va' =
     (if unat va \<le> unat va' \<and> unat va' < unat va + length P * 4096
      then mapped_pte (P ! ((unat va' - unat va) div 4096)) flags (e va') else e va')"

lemma alloc_map_step:
  assumes al: "unat va mod 4096 = 0" and nx: "unat (va + 4096) = unat va + 4096"
  shows "alloc_map va (q # P) flags e va' =
    alloc_map (va + 4096) P flags (\<lambda>x. if unat x div 4096 = unat va div 4096 then mapped_pte q flags (e x) else e x) va'"
proof -
  let ?u = "unat va" and ?x = "unat va'"
  have d: "?u = ?u div 4096 * 4096" using al by (metis add_0_right div_mult_mod_eq)
  consider (below) "?x < ?u" | (first) "?u \<le> ?x" "?x < ?u + 4096" | (above) "?u + 4096 \<le> ?x" by linarith
  then show ?thesis
  proof cases
    case below
    then have "?x div 4096 \<noteq> ?u div 4096" using d by (metis div_mult_mod_eq leD le_add1)
    then show ?thesis using below by (simp add: alloc_map_def nx)
  next
    case first
    have "?x = ?u div 4096 * 4096 + (?x - ?u)" "?x - ?u < 4096" using first d by linarith+
    then have "?x div 4096 = ?u div 4096" using page_parts(1)[of "?x - ?u" "?u div 4096"] by simp
    moreover have "(?x - ?u) div 4096 = 0" using first by simp
    ultimately show ?thesis using first by (simp add: alloc_map_def nx)
  next
    case above
    have "?u div 4096 + 1 \<le> ?x div 4096" using div_le_mono[OF above, of 4096] by simp
    moreover have "(?x - ?u) div 4096 = Suc ((?x - (?u + 4096)) div 4096)"
      using above div_add_self2[of 4096 "?x - (?u + 4096)"] by simp
    ultimately show ?thesis using above by (simp add: alloc_map_def nx)
  qed
qed

lemma alloc_map_Nil: "alloc_map va [] flags e = e"
  by (rule ext) (auto simp: alloc_map_def)

text \<open>One page of a region without pages: it gets a new frame.\<close>

lemma allocate_page:
  assumes sp: "space_ok pd U s" and sup: "pm_supply U (Suc (Suc n)) s" and k: "9 \<le> card (kfree s)" and va: "va div 4096 \<noteq> 0"
  obtains s1 q s2 s3 s4 U' n' where
    "virtmem_user_get_page pd va s = Some ((VIRTMEM_SUCCESS, Some (frame_addr (pt_phys_addr (user_pte (pmem s) pd va)))), s1)"
    "local_page_alloc s1 = Some ((PHYSMEM_SUCCESS, Some q), s2)"
    "virtmem_user_map_page pd va q s2 = Some (VIRTMEM_SUCCESS, s3)" "virtmem_user_set_page_flags pd va flags s3 = Some (VIRTMEM_SUCCESS, s4)"
    "q \<in> U - U'" "q mod 4096 = 0" "frame_of q \<notin> tables (pmem s4) pd" "U' \<subseteq> U" "pm_supply U' n' s4" "n \<le> n'" "space_ok pd U' s4"
    "space_grows pd (U - U') s s4" "pd_present (user_pde (pmem s4) pd va)" "local_page_size s4 = Some 4096"
    "user_pte (pmem s4) pd = (\<lambda>x. if unat x div 4096 = unat va div 4096 then mapped_pte q flags (user_pte (pmem s) pd x) else user_pte (pmem s) pd x)"
    "card (kfree s) \<le> card (kfree s4) + 9"
proof -
  note fact = that
  have k3: "3 \<le> card (kfree s)" using k by simp
  obtain s1 U1 n1 where g: "virtmem_user_get_page pd va s = Some ((VIRTMEM_SUCCESS, Some (frame_addr (pt_phys_addr (user_pte (pmem s) pd va)))), s1)"
    "user_pte (pmem s1) pd = user_pte (pmem s) pd" "pd_present (user_pde (pmem s1) pd va)"
    "U1 \<subseteq> U" "pm_supply U1 n1 s1" "Suc n \<le> n1" "space_ok pd U1 s1" "space_grows pd (U - U1) s s1" "card (kfree s) \<le> card (kfree s1) + 3"
    by (rule get_page_supply[OF sp sup k3 va])
  then obtain n2 where n2: "n1 = Suc n2" "n \<le> n2" by (cases n1) auto
  obtain q pm where q: "local_page_alloc s1 = Some ((PHYSMEM_SUCCESS, Some q), s1\<lparr>vm_pm := pm\<rparr>)" "q \<in> U1" "q mod 4096 = 0"
    "pm_supply (U1 - {q}) n2 (s1\<lparr>vm_pm := pm\<rparr>)" by (rule pm_supply_alloc[OF g(5)[unfolded n2(1)]])
  let ?s2 = "s1\<lparr>vm_pm := pm\<rparr>"
  have kf: "kfree ?s2 = kfree s1" by (simp add: kfree_def)
  have ps: "local_page_size ?s2 = Some 4096" using pm_ready_page_size[OF pm_supply_ready[OF q(4)]] .
  have c: "can_walk ?s2 pd va" using space_okD(1,2)[OF g(7)] va ps k g(3,9) by (simp add: can_walk_def walk_ready_def kf)
  have p: "pd_present (user_pde (pmem ?s2) pd va)" "6 \<le> card (kfree ?s2)" using g(3,9) k by (simp_all add: kf)
  obtain s3 s4 where m: "virtmem_user_map_page pd va q ?s2 = Some (VIRTMEM_SUCCESS, s3)"
    "virtmem_user_set_page_flags pd va flags s3 = Some (VIRTMEM_SUCCESS, s4)" "same_tables pd ?s2 s4" "wf_pd (pmem s4) pd"
    "\<And>va'. user_pte (pmem s4) pd va' =
      (if unat va' div 4096 = unat va div 4096 then mapped_pte q flags (user_pte (pmem ?s2) pd va') else user_pte (pmem ?s2) pd va')"
    "local_page_size s4 = Some 4096" "card (kfree ?s2) \<le> card (kfree s4) + 6" "keeps_mapped ?s2 s4" "localmem s4 = localmem ?s2"
    "same_outside (insert (frame_of pd) (tables (pmem ?s2) pd)) (pmem ?s2) (pmem s4)"
    by (rule map_and_flag[OF c p, of q flags]) blast
  have t: "user_pde (pmem s4) pd = user_pde (pmem s1) pd" "vm_pm s4 = pm" using m(3) by (simp_all add: same_tables_def)
  then have tb: "tables (pmem s4) pd = tables (pmem s1) pd" by (simp add: tables_def)
  have "keeps_mapped s1 s4" using m(8) by (simp add: keeps_mapped_def)
  then have "space_grows pd (U - (U1 - {q})) s1 s4" using m(9,10) t tb by (auto simp: space_grows_def vm_ext_def intro: same_outside_mono)
  then have gr: "space_grows pd (U - (U1 - {q})) s s4" by - (rule space_grows_trans[OF g(8)], assumption, auto)
  have "space_ok pd (U1 - {q}) s4" using space_ok_mono[OF g(7), of "U1 - {q}"] m(4) unfolding space_ok_def tb by blast
  moreover have "pm_supply (U1 - {q}) n2 s4" using q(4) pm_supply_cong[of s4 ?s2] m(9) t(2) by simp
  moreover have "frame_of q \<notin> tables (pmem s4) pd" unfolding tb by (rule space_okD(4)[OF g(7) q(2)])
  moreover have "user_pte (pmem s4) pd = (\<lambda>x. if unat x div 4096 = unat va div 4096 then mapped_pte q flags (user_pte (pmem s) pd x) else user_pte (pmem s) pd x)"
    using m(5) g(2) by (auto simp: fun_eq_iff)
  moreover have "q \<in> U - (U1 - {q})" "U1 - {q} \<subseteq> U" using q(2) g(4) by auto
  ultimately show thesis using g(1,3) q(1,3) m(1,2,6,7) n2(2) gr t(1) g(9) kf
    by (intro fact[of s1 q ?s2 s3 s4 "U1 - {q}" n2]) simp_all
qed

text \<open>What allocating the pages \<open>P\<close> out of \<open>U\<close> leaves, \<open>U'\<close> being left of \<open>U\<close>.\<close>

definition pages_taken :: "physaddr_t \<Rightarrow> physaddr_t list \<Rightarrow> physaddr_t set \<Rightarrow> physaddr_t set \<Rightarrow> vm_state \<Rightarrow> bool" where
  "pages_taken pd P U U' s' \<longleftrightarrow> distinct P \<and> set P \<subseteq> U - U' \<and> (\<forall>q\<in>set P. q mod 4096 = 0) \<and> frame_of ` set P \<inter> tables (pmem s') pd = {}"

definition unmapped_region :: "virtaddr_t \<Rightarrow> nat \<Rightarrow> (virtaddr_t \<Rightarrow> i686_pte) \<Rightarrow> bool" where
  "unmapped_region va n e \<longleftrightarrow>
     unat va mod 4096 = 0 \<and> 4096 \<le> unat va \<and> unat va + n * 4096 < 2 ^ 32 \<and>
     (\<forall>x. unat va \<le> unat x \<and> unat x < unat va + n * 4096 \<longrightarrow> pt_phys_addr (e x) = 0)"

lemma unmapped_region_step:
  assumes "unmapped_region va (Suc n) e"
  shows "va div 4096 \<noteq> 0" "unat (va + 4096) = unat va + 4096" "pt_phys_addr (e va) = 0"
    "unmapped_region (va + 4096) n (\<lambda>x. if unat x div 4096 = unat va div 4096 then f x else e x)"
proof -
  have "unat va div 4096 \<noteq> 0" using assms by (simp add: unmapped_region_def div_greater_zero_iff)
  then have "unat (va div 4096) \<noteq> 0" by (simp add: unat_div_distrib)
  then show "va div 4096 \<noteq> 0" by (metis unsigned_0)
  show nx: "unat (va + 4096) = unat va + 4096" using assms by (simp add: unmapped_region_def unat_word_ariths(1))
  show "pt_phys_addr (e va) = 0" using assms by (simp add: unmapped_region_def)
  have "unat x div 4096 \<noteq> unat va div 4096" if "unat va + 4096 \<le> unat x" for x :: u32
    using div_le_mono[OF that, of 4096] by simp
  then show "unmapped_region (va + 4096) n (\<lambda>x. if unat x div 4096 = unat va div 4096 then f x else e x)"
    using assms by (auto simp: unmapped_region_def nx)
qed

lemma map_allocate_loop_ok:
  assumes "space_ok pd U s" "pm_supply U k s" "2 * n \<le> k" "9 * n \<le> card (kfree s)" "local_page_size s = Some 4096"
    and "unmapped_region va n (user_pte (pmem s) pd)"
  obtains s' P U' k' where "map_allocate_loop n pd va 4096 flags p0 s = Some (AS_SUCCESS, s')"
    "length P = n" "U' \<subseteq> U" "pages_taken pd P U U' s'" "pm_supply U' k' s'" "k \<le> k' + 2 * n" "space_ok pd U' s'" "space_grows pd (U - U') s s'"
    "user_pte (pmem s') pd = alloc_map va P flags (user_pte (pmem s) pd)"
    "\<forall>x. unat va \<le> unat x \<and> unat x < unat va + n * 4096 \<longrightarrow> pd_present (user_pde (pmem s') pd x)"
    "card (kfree s) \<le> card (kfree s') + 9 * n" "local_page_size s' = Some 4096"
  using assms
proof (induction n arbitrary: va s U k p0 thesis)
  case 0
  show ?case
    by (rule "0.prems"(1)[of s "[]" U k]) (use "0.prems"(2-) in \<open>auto simp: pages_taken_def space_grows_def alloc_map_Nil\<close>)
next
  case (Suc n)
  note fact = Suc.prems(1)
  note st = unmapped_region_step[OF Suc.prems(7)]
  obtain k0 where k0: "k = Suc (Suc k0)" "2 * n \<le> k0" using Suc.prems(4) by (cases k; cases "k - 1") auto
  have kf: "9 \<le> card (kfree s)" using Suc.prems(5) by simp
  obtain s1 q s2 s3 s4 U1 k1 where it:
    "virtmem_user_get_page pd va s = Some ((VIRTMEM_SUCCESS, Some (frame_addr (pt_phys_addr (user_pte (pmem s) pd va)))), s1)"
    "local_page_alloc s1 = Some ((PHYSMEM_SUCCESS, Some q), s2)"
    "virtmem_user_map_page pd va q s2 = Some (VIRTMEM_SUCCESS, s3)" "virtmem_user_set_page_flags pd va flags s3 = Some (VIRTMEM_SUCCESS, s4)"
    and q: "q \<in> U - U1" "q mod 4096 = 0" "frame_of q \<notin> tables (pmem s4) pd" and U1: "U1 \<subseteq> U" "pm_supply U1 k1 s4" "k0 \<le> k1" "space_ok pd U1 s4"
    and gr: "space_grows pd (U - U1) s s4" and pr: "pd_present (user_pde (pmem s4) pd va)" and ps: "local_page_size s4 = Some 4096"
    and pte: "user_pte (pmem s4) pd = (\<lambda>x. if unat x div 4096 = unat va div 4096 then mapped_pte q flags (user_pte (pmem s) pd x) else user_pte (pmem s) pd x)"
    and c4: "card (kfree s) \<le> card (kfree s4) + 9"
    by (rule allocate_page[OF Suc.prems(2) Suc.prems(3)[unfolded k0(1)] kf st(1), of flags])
  have n1: "2 * n \<le> k1" and n2: "9 * n \<le> card (kfree s4)" using k0(2) U1(3) c4 Suc.prems(5) by simp_all
  have um: "unmapped_region (va + 4096) n (user_pte (pmem s4) pd)" unfolding pte by (rule st(4))
  obtain s' P U' k' where r: "map_allocate_loop n pd (va + 4096) 4096 flags (Some q) s4 = Some (AS_SUCCESS, s')"
    "length P = n" "U' \<subseteq> U1" "pages_taken pd P U1 U' s'" "pm_supply U' k' s'" "k1 \<le> k' + 2 * n" "space_ok pd U' s'" "space_grows pd (U1 - U') s4 s'"
    "user_pte (pmem s') pd = alloc_map (va + 4096) P flags (user_pte (pmem s4) pd)"
    "\<forall>x. unat (va + 4096) \<le> unat x \<and> unat x < unat (va + 4096) + n * 4096 \<longrightarrow> pd_present (user_pde (pmem s') pd x)"
    "card (kfree s4) \<le> card (kfree s') + 9 * n" "local_page_size s' = Some 4096"
    by (rule Suc.IH[OF _ U1(4,2) n1 n2 ps um])
  have z: "frame_addr (pt_phys_addr (user_pte (pmem s) pd va)) = 0" unfolding st(3) by (simp add: frame_addr_def)
  have run: "map_allocate_loop (Suc n) pd va 4096 flags p0 s = Some (AS_SUCCESS, s')"
    using it(1)[unfolded z] it(2-4) r(1) by (simp del: virtmem_dispatch)
  have V: "U - U1 \<subseteq> U - U'" "U1 - U' \<subseteq> U - U'" using r(3) U1(1) by auto
  have g': "space_grows pd (U - U') s s'" by (rule space_grows_trans[OF gr r(8) V])
  have "frame_of q \<notin> frame_of ` U1" using pm_supply_frame[OF Suc.prems(3), of q U1] q(1) U1(1) by blast
  then have fq: "frame_of q \<notin> tables (pmem s') pd" using q(3) r(8) by (auto simp: space_grows_def)
  have dq: "q \<notin> set P" using r(4) q(1) by (auto simp: pages_taken_def)
  have pt: "pages_taken pd (q # P) U U' s'" using r(3,4) q(1,2) U1(1) fq dq by (auto simp: pages_taken_def)
  have mp: "user_pte (pmem s') pd = alloc_map va (q # P) flags (user_pte (pmem s) pd)"
    unfolding r(9) pte by (rule ext, rule alloc_map_step[symmetric]) (use st(2) Suc.prems(7) in \<open>auto simp: unmapped_region_def\<close>)
  have "pd_present (user_pde (pmem s') pd x)" if x: "unat va \<le> unat x" "unat x < unat va + Suc n * 4096" for x
  proof (cases "unat va + 4096 \<le> unat x")
    case True
    then show ?thesis using r(10) x st(2) by simp
  next
    case False
    have "unat va = unat va div 4096 * 4096" using Suc.prems(7) by (metis add_0_right div_mult_mod_eq unmapped_region_def)
    then have "unat x div 4096 = unat va div 4096" using x(1) False by (intro div_nat_eqI) auto
    then have "x div 4096 = va div 4096" by (simp only: same_page_unat)
    then have "user_pde (pmem s4) pd x = user_pde (pmem s4) pd va" by (rule user_pte_same_page(1))
    then show ?thesis using pr r(8) by (simp add: space_grows_def)
  qed
  then show ?case
    using fact[of s' "q # P" U' k'] run r(2,3,5,6,7,11,12) U1(1,3) k0 pt g' mp c4 by auto
qed

text \<open>\<^verbatim>\<open>memory_region_map\<close> without a physical address.\<close>

lemma region_map_allocate:
  fixes s :: "'y as_state"
  assumes a: "a \<noteq> 0" "as_v (as_obj (km_ext s) a) \<noteq> None" and g: "good_region (mr_obj (km_ext s) m)"
    and sp: "space_ok (as_pd (as_obj (km_ext s) a)) U (km_vm s)" and sup: "pm_supply U k (km_vm s)"
    and n: "n = unat (mr_length (mr_obj (km_ext s) m)) div 4096" "2 * n \<le> k" "9 * n \<le> card (kfree (km_vm s))"
    and um: "unmapped_region (mr_start (mr_obj (km_ext s) m)) n (user_pte (pmem (km_vm s)) (as_pd (as_obj (km_ext s) a)))"
  defines "pd \<equiv> as_pd (as_obj (km_ext s) a)" and "r \<equiv> mr_obj (km_ext s) m"
  obtains vm' P U' k' where "memory_region_map a m 0 s = Some (AS_SUCCESS, s\<lparr>km_vm := vm'\<rparr>)"
    "length P = n" "U' \<subseteq> U" "pages_taken pd P U U' vm'" "pm_supply U' k' vm'" "k \<le> k' + 2 * n" "space_ok pd U' vm'"
    "space_grows pd (U - U') (km_vm s) vm'" "user_pte (pmem vm') pd = (\<lambda>va.
       if unat va \<in> extent r
       then (user_pte (pmem (km_vm s)) pd va)\<lparr>pt_phys_addr := frame_of (P ! ((unat va - unat (mr_start r)) div 4096)),
         pt_writable := mr_writable r, pt_user := True, pt_present := True\<rparr>
       else user_pte (pmem (km_vm s)) pd va)"
    "\<forall>va. unat va \<in> extent r \<longrightarrow> pd_present (user_pde (pmem vm') pd va)"
    "card (kfree (km_vm s)) \<le> card (kfree vm') + 9 * n"
proof -
  note fact = that
  have ps: "local_page_size (km_vm s) = Some 4096" by (rule pm_ready_page_size[OF pm_supply_ready[OF sup]])
  have gr: "unat (mr_start r) mod 4096 = 0" "unat (mr_length r) mod 4096 = 0" using g by (simp_all add: good_region_def r_def)
  then have al: "mr_start r mod 4096 = 0" "mr_length r mod 4096 = 0"
    by (simp_all only: word_unat_eq_iff unat_mod_distrib) simp_all
  have nw: "unat (mr_length r div 4096) = n" by (simp add: unat_div_distrib n(1) r_def)
  have len: "n * 4096 = unat (mr_length r)" using gr(2) div_mult_mod_eq[of "unat (mr_length r)" 4096] by (simp add: n(1) r_def)
  have fl: "bittestl (region_page_flags r) VIRTMEM_PAGE_WRITABLE = mr_writable r"
    "bittestl (region_page_flags r) VIRTMEM_PAGE_READABLE"
    by (simp_all add: bittestl_def region_page_flags_def page_flag_defs)
  obtain vm P U' k' where vm: "map_allocate_loop n pd (mr_start r) 4096 (region_page_flags r) None (km_vm s) = Some (AS_SUCCESS, vm)"
    "length P = n" "U' \<subseteq> U" "pages_taken pd P U U' vm" "pm_supply U' k' vm" "k \<le> k' + 2 * n" "space_ok pd U' vm" "space_grows pd (U - U') (km_vm s) vm"
    "user_pte (pmem vm) pd = alloc_map (mr_start r) P (region_page_flags r) (user_pte (pmem (km_vm s)) pd)"
    "\<forall>x. unat (mr_start r) \<le> unat x \<and> unat x < unat (mr_start r) + n * 4096 \<longrightarrow> pd_present (user_pde (pmem vm) pd x)"
    "card (kfree (km_vm s)) \<le> card (kfree vm) + 9 * n"
    by (rule map_allocate_loop_ok[OF sp sup n(2,3) ps um, folded pd_def r_def, of "region_page_flags r" None])
  have "memory_region_map a m 0 s = Some (AS_SUCCESS, s\<lparr>km_vm := vm\<rparr>)"
    using a ps al vm(1) nw
    by (auto simp: memory_region_map_def common_memory_region_map_def memory_region_map_allocate_def Let_def r_def pd_def)
  moreover have "alloc_map (mr_start r) P (region_page_flags r) e = (\<lambda>va. if unat va \<in> extent r
      then (e va)\<lparr>pt_phys_addr := frame_of (P ! ((unat va - unat (mr_start r)) div 4096)),
           pt_writable := mr_writable r, pt_user := True, pt_present := True\<rparr> else e va)" for e
    by (simp add: alloc_map_def mapped_pte_def extent_def vm(2) len fl fun_eq_iff)
  moreover have "\<forall>va. unat va \<in> extent r \<longrightarrow> pd_present (user_pde (pmem vm) pd va)"
    using vm(10) by (simp add: extent_def len)
  ultimately show thesis using vm(2-9,11) by (intro fact[of vm P U' k']) simp_all
qed

section \<open>Properties\<close>

text \<open>
  C17.  \<^verbatim>\<open>memory_region_map\<close> without a physical address gives every page of the region a frame of its own: the frames come from
  the allocator, are distinct, and hold neither the directory nor a page table; their pages are present, open to the user and writable
  as the region says.  All other entries, the page tables there were and the kernel's mappings stay; at most two frames a page are used, one of them
  for a page table, and nothing is written outside the directory, the page tables and the frames used.
\<close>

theorem memory_region_map_allocates:
  assumes "a \<noteq> 0" "as_v (as_obj (km_ext s) a) \<noteq> None" and "good_region (mr_obj (km_ext s) m)"
    and "space_ok (as_pd (as_obj (km_ext s) a)) U (km_vm s)" and "pm_supply U k (km_vm s)"
    and "n = unat (mr_length (mr_obj (km_ext s) m)) div 4096" "2 * n \<le> k" "9 * n \<le> card (kfree (km_vm s))"
    and "unmapped_region (mr_start (mr_obj (km_ext s) m)) n (user_pte (pmem (km_vm s)) (as_pd (as_obj (km_ext s) a)))"
  defines "pd \<equiv> as_pd (as_obj (km_ext s) a)" and "r \<equiv> mr_obj (km_ext s) m"
  shows "\<exists>s' P U' k'. memory_region_map a m 0 s = Some (AS_SUCCESS, s') \<and> km_ext s' = km_ext s \<and>
    length P = n \<and> pages_taken pd P U U' (km_vm s') \<and> pm_supply U' k' (km_vm s') \<and> k \<le> k' + 2 * n \<and> space_ok pd U' (km_vm s') \<and>
    space_grows pd (U - U') (km_vm s) (km_vm s') \<and>
    (\<forall>va. user_pte (pmem (km_vm s')) pd va =
       (if unat va \<in> extent r
        then (user_pte (pmem (km_vm s)) pd va)\<lparr>pt_phys_addr := frame_of (P ! ((unat va - unat (mr_start r)) div 4096)),
          pt_writable := mr_writable r, pt_user := True, pt_present := True\<rparr>
        else user_pte (pmem (km_vm s)) pd va))"
proof -
  obtain vm' P U' k' where r: "memory_region_map a m 0 s = Some (AS_SUCCESS, s\<lparr>km_vm := vm'\<rparr>)"
    "length P = n" "U' \<subseteq> U" "pages_taken pd P U U' vm'" "pm_supply U' k' vm'" "k \<le> k' + 2 * n" "space_ok pd U' vm'"
    "space_grows pd (U - U') (km_vm s) vm'" "user_pte (pmem vm') pd = (\<lambda>va.
       if unat va \<in> extent r
       then (user_pte (pmem (km_vm s)) pd va)\<lparr>pt_phys_addr := frame_of (P ! ((unat va - unat (mr_start r)) div 4096)),
         pt_writable := mr_writable r, pt_user := True, pt_present := True\<rparr>
       else user_pte (pmem (km_vm s)) pd va)"
    by (rule region_map_allocate[OF assms(1-9)]) (simp_all only: pd_def r_def)
  then show ?thesis by (intro exI[of _ "s\<lparr>km_vm := vm'\<rparr>"] exI[of _ P] exI[of _ U'] exI[of _ k']) simp
qed

theorem memory_region_map_allocates_witness:
  "\<exists>s' p. memory_region_map 0xC0100000 0xC0100100 0 (example_placed\<lparr>km_vm := example_vm\<rparr>) = Some (AS_SUCCESS, s') \<and>
     p \<in> {0x1000, 0x2000} \<and> pt_phys_addr (user_pte (pmem (km_vm s')) 0x3000 0x1000000) = frame_of p \<and>
     pt_writable (user_pte (pmem (km_vm s')) 0x3000 0x1000000)"
proof -
  let ?s = "example_placed\<lparr>km_vm := example_vm\<rparr>"
  have o: "as_obj (km_ext example_placed) 0xC0100000 = \<lparr>as_v = Some I686_as_vfuncs, as_pd = 0x3000\<rparr>"
    "mr_obj (km_ext example_placed) 0xC0100100 =
      zero_region\<lparr>mr_v := Some I686_mr_vfuncs, mr_start := 0x1000000, mr_length := 4096, mr_writable := True\<rparr>"
    by (simp_all add: example_placed_def upd_mr_def upd_ext_def example_as_fields)
  have p: "user_pte (pmem example_vm) 0x3000 = (\<lambda>_. word_to_pte 0)" using example_vm_pd(3) by (simp add: user_pte_def fun_eq_iff)
  have "pt_phys_addr (word_to_pte 0) = 0" by (simp add: word_to_pte_def)
  then have u: "unmapped_region 0x1000000 1 (user_pte (pmem example_vm) 0x3000)" unfolding p by (simp add: unmapped_region_def)
  have sp: "space_ok 0x3000 {0x1000, 0x2000} example_vm"
    using example_vm_pd by (simp add: space_ok_def frame_of_def drop_bit_12)
  have f: "localmem example_vm = 1" "vm_pm example_vm = example_pool" by (simp_all add: example_vm_def)
  have "source_avail 1 example_pool = 2" by (simp add: source_avail_def example_pool_def)
  then have sup: "pm_supply {0x1000, 0x2000} 2 example_vm"
    using pm_supplyI(1)[of _ example_vm] example_pool_source unfolding f by blast
  have k: "9 \<le> card (kfree example_vm)" by (simp add: example_vm_kfree)
  have h: "(0xC0100000 :: u32) \<noteq> 0" "as_v (as_obj (km_ext ?s) 0xC0100000) \<noteq> None" "good_region (mr_obj (km_ext ?s) 0xC0100100)"
    "space_ok (as_pd (as_obj (km_ext ?s) 0xC0100000)) {0x1000, 0x2000} (km_vm ?s)" "pm_supply {0x1000, 0x2000} 2 (km_vm ?s)"
    "1 = unat (mr_length (mr_obj (km_ext ?s) 0xC0100100)) div 4096" "2 * 1 \<le> (2 :: nat)" "9 * 1 \<le> card (kfree (km_vm ?s))"
    "unmapped_region (mr_start (mr_obj (km_ext ?s) 0xC0100100)) 1 (user_pte (pmem (km_vm ?s)) (as_pd (as_obj (km_ext ?s) 0xC0100000)))"
    using o u sp sup k by (simp_all add: good_region_def)
  have x: "unat (0x1000000 :: u32) \<in> extent (mr_obj (km_ext ?s) 0xC0100100)" by (simp add: o extent_def)
  from memory_region_map_allocates[OF h] obtain s' P U' where r: "memory_region_map 0xC0100000 0xC0100100 0 ?s = Some (AS_SUCCESS, s')"
    "length P = 1" "pages_taken 0x3000 P {0x1000, 0x2000} U' (km_vm s')"
    "user_pte (pmem (km_vm s')) 0x3000 0x1000000 = (user_pte (pmem example_vm) 0x3000 0x1000000)\<lparr>pt_phys_addr := frame_of (P ! 0),
       pt_writable := True, pt_user := True, pt_present := True\<rparr>"
    using x by (auto simp: o)
  then have "P ! 0 \<in> set P" "set P \<subseteq> {0x1000, 0x2000}" by (auto simp: pages_taken_def)
  then have "P ! 0 \<in> {0x1000, 0x2000}" by blast
  then show ?thesis using r(1,4) by (intro exI[of _ s'] exI[of _ "P ! 0"]) simp
qed

end
