(* ===== verification/Spaces.thy ===== *)
theory Spaces
  imports Regions Kernelspace Selftest
begin

text \<open>
  A new address space: \<^verbatim>\<open>address_space_alloc\<close> of \<^verbatim>\<open>src/sys/common/address_space.c\<close> with the constructor of
  \<^verbatim>\<open>src/sys/i686/i686_address_space.c\<close>, and the first objects of the two caches.
\<close>

section \<open>The constructor\<close>

lemma first_slot_nz:
  assumes "new_page i a vm vm'" "osz \<noteq> 0" "1 \<le> slab_elems (unat osz)"
  shows "slot osz i (slab_elems (unat osz)) \<noteq> 0"
proof -
  have "obj_ok osz vm' (slot osz i (slab_elems (unat osz)))"
    unfolding obj_ok_def using new_page_facts(1)[OF assms(1)] assms(3)
    by (intro exI[of _ i] exI[of _ "slab_elems (unat osz)"]) (auto simp: in_page_def window_def)
  then show ?thesis using slot_nonzero[OF _ assms(2)] by blast
qed

definition zero_in :: "(physaddr_t \<Rightarrow> u8) \<Rightarrow> 20 word \<Rightarrow> bool" where
  "zero_in m f \<longleftrightarrow> (\<forall>k<4096. m (frame_addr f + of_nat k) = 0)"

lemma zero_in_load32:
  assumes z: "zero_in m f" and k: "unat (k :: u32) < 1024"
  shows "load32 m (frame_addr f + 4 * k) = 0"
proof -
  have "m (frame_addr f + 4 * k + j) = 0" if "j < 4" for j
  proof -
    have "unat (4 * k + j) < 4096" using slot_offset(3)[OF k that] by (simp add: word_less_nat_alt)
    then have "m (frame_addr f + of_nat (unat (4 * k + j))) = 0" using z unfolding zero_in_def by blast
    then show ?thesis by (simp add: add.assoc)
  qed
  from this[of 0] this[of 1] this[of 2] this[of 3] show ?thesis by (simp add: load32_def)
qed

lemma zero_in_directory: "zero_in m (frame_of pd) \<Longrightarrow> pd mod 4096 = 0 \<Longrightarrow> user_pde m pd va = word_to_pde 0"
  using zero_in_load32[OF _ unat_pd_index[of va]] by (simp add: user_pde_def pd_slot_frame[symmetric])

lemma address_space_ctor_ok:
  assumes sup: "pm_supply U (Suc n) (km_vm s)" and kf: "kfree (km_vm s) \<noteq> {}"
  obtains p vm where "i686_address_space_ctor a s = Some (upd_as a (\<lambda>_. \<lparr>as_v = Some I686_as_vfuncs, as_pd = p\<rparr>) (s\<lparr>km_vm := vm\<rparr>))"
    "p \<in> U" "p mod 4096 = 0" "pm_supply (U - {p}) n vm" "vm_ext {frame_of p} (km_vm s) vm" "zero_in (pmem vm) (frame_of p)"
    "Suc (card (kfree vm)) = card (kfree (km_vm s))" "sym_kernel_pts vm = sym_kernel_pts (km_vm s)"
proof -
  let ?vm = "km_vm s"
  obtain p pm where p: "local_page_alloc ?vm = Some ((PHYSMEM_SUCCESS, Some p), ?vm\<lparr>vm_pm := pm\<rparr>)" "p \<in> U" "p mod 4096 = 0"
    "pm_supply (U - {p}) n (?vm\<lparr>vm_pm := pm\<rparr>)" by (rule pm_supply_alloc[OF sup])
  let ?vm1 = "?vm\<lparr>vm_pm := pm\<rparr>"
  have kf1: "kfree ?vm1 = kfree ?vm" by (simp add: kfree_def)
  obtain i where i: "i \<in> kfree ?vm1" "i686_kernel_alloc 1 ?vm1 = Some ((VIRTMEM_SUCCESS, Some (kaddr i)), kalloc_state i ?vm1)"
    using i686_kernel_alloc_ok[of ?vm1] kf kf1 by metis
  let ?vm3 = "kmap_state i (frame_of p) (kalloc_state i ?vm1)"
  have lt: "i < 262144" "pt_present (kernel_flatpt (kalloc_state i ?vm1) i)" using i(1) by (simp_all add: kfree_def kalloc_state_def)
  have ps: "local_page_size (kalloc_state i ?vm1) = Some 4096"
    using pm_ready_page_size[OF pm_supply_ready[OF p(4)]] by simp
  note mp = i686_kernel_map_ok[OF lt ps, of p]
  have w: "window ?vm3 i (frame_of p)" by (rule kmap_window[OF lt(1)])
  obtain m where m: "memset vm_st (kaddr i) 0 4096 ?vm3 = Some (kaddr i, ?vm3\<lparr>pmem := m\<rparr>)"
    "same_outside {frame_of p} (pmem ?vm3) m" "\<And>k. k < 4096 \<Longrightarrow> m (frame_addr (frame_of p) + of_nat k) = 0"
    using memset_page[OF w, of 0 4096] by auto
  let ?vm' = "?vm3\<lparr>pmem := m\<rparr>"
  have e: "s\<lparr>km_vm := ?vm', km_ext := x\<rparr> = s\<lparr>km_ext := x, km_vm := ?vm'\<rparr>" for x by simp
  have "i686_address_space_ctor a s = Some (upd_as a (\<lambda>_. \<lparr>as_v = Some I686_as_vfuncs, as_pd = p\<rparr>) (s\<lparr>km_vm := ?vm'\<rparr>))"
    using p(1) i(2) mp m(1) ps
    by (simp add: i686_address_space_ctor_def upd_as_def upd_ext_def zero_space_def i686_kernel_free_def)
  moreover have "pm_supply (U - {p}) n ?vm'" using p(4) pm_supply_cong[of ?vm' ?vm1] by simp
  moreover have "vm_ext {frame_of p} ?vm ?vm'"
    using i(1) m(2) by (auto simp: vm_ext_def keeps_mapped_def kfree_def kmap_state_def kalloc_state_def)
  moreover have "Suc (card (kfree ?vm')) = card (kfree ?vm)"
  proof -
    have "kfree ?vm' = kfree ?vm - {i}" by (auto simp: kfree_def kmap_state_def kalloc_state_def)
    then show ?thesis using card_Suc_Diff1[OF finite_kfree i(1)] unfolding kf1 by simp
  qed
  ultimately show thesis using that[of p ?vm'] p(2,3) m(3) by (simp add: zero_in_def)
qed

section \<open>The kernel's part of a directory\<close>

definition kernel_tables :: "vm_state \<Rightarrow> 20 word set" where
  "kernel_tables vm = (\<lambda>k. frame_of (sym_kernel_pts vm - highstart + of_nat k * 4096)) ` {..<256}"

lemma frame_addr_add: "frame_addr (f + g) = frame_addr f + frame_addr g"
proof -
  have "unat (frame_addr (f + g)) = (unat f + unat g) mod 2 ^ 20 * 4096"
    unfolding unat_frame_addr by (simp add: unat_word_ariths(1))
  also have "\<dots> = (unat f * 4096 + unat g * 4096) mod 2 ^ 32"
    using mult_mod_left[of "unat f + unat g" "2 ^ 20" 4096] by (simp add: distrib_right)
  also have "\<dots> = unat (frame_addr f + frame_addr g)" by (simp add: unat_word_ariths(1) unat_frame_addr)
  finally show ?thesis by (simp only: word_unat_eq_iff)
qed

lemma frame_addr_of_nat: "frame_addr (of_nat k) = of_nat k * 4096"
proof -
  have "unat (frame_addr (of_nat k)) = (k mod 2 ^ 20) * 4096" unfolding unat_frame_addr by (simp add: unat_of_nat)
  also have "\<dots> = (k * 4096) mod 2 ^ 32" using mult_mod_left[of k "2 ^ 20" 4096] by simp
  also have "\<dots> = unat (of_nat (k * 4096) :: u32)" by (simp only: unat_of_nat) simp
  finally show ?thesis by (simp only: word_unat_eq_iff of_nat_mult of_nat_numeral)
qed

lemma frame_of_add: "frame_of (a + of_nat k * 4096) = frame_of a + of_nat k"
proof -
  have "a mod 4096 < 4096" by (simp add: word_less_nat_alt unat_mod_distrib)
  have "a + of_nat k * 4096 = frame_addr (frame_of a) + frame_addr (of_nat k) + a mod 4096"
    using addr_split[of a] unfolding frame_addr_of_nat by (simp add: algebra_simps)
  then have "a + of_nat k * 4096 = frame_addr (frame_of a + of_nat k) + a mod 4096" by (simp only: frame_addr_add)
  then show ?thesis using frame_byte_parts(1)[OF \<open>a mod 4096 < 4096\<close>, of "frame_of a + of_nat k"] by (simp only:)
qed

lemma shared_pde_parts: "pd_present (shared_pde s k)" "pd_phys_addr (shared_pde s k) = frame_of (sym_kernel_pts s - highstart + k * 4096)"
  by (simp_all add: shared_pde_def i686_set_pde_def bittestl_def page_flag_defs algebra_simps)

lemma kernel_pd_index:
  assumes "highstart \<le> va"
  obtains k where "k < 256" "va div 4194304 - 768 = of_nat k"
proof -
  let ?d = "va div 4194304 :: u32"
  have "768 \<le> unat ?d" using assms by (simp add: highstart_def word_le_nat_alt unat_div_distrib less_eq_div_iff_mult_less_eq)
  then have "unat (?d - 768) < 256" using unat_pd_index[of va] by (simp add: unat_sub word_le_nat_alt)
  then show thesis using that[of "unat (?d - 768)"] by simp
qed

text \<open>A directory that has nothing but the kernel's tables.\<close>

definition kernel_only :: "vm_state \<Rightarrow> physaddr_t \<Rightarrow> bool" where
  "kernel_only s pd \<longleftrightarrow>
     (\<forall>va. user_pde (pmem s) pd va = (if highstart \<le> va then shared_pde s (va div 4194304 - 768) else word_to_pde 0))"

lemma kernel_only_wf:
  assumes o: "kernel_only s pd" and pd: "pd mod 4096 = 0" "frame_of pd \<notin> kernel_tables s"
  shows "tables (pmem s) pd \<subseteq> kernel_tables s" "wf_pd (pmem s) pd" "va < highstart \<Longrightarrow> user_pte (pmem s) pd va = word_to_pte 0"
proof -
  have pr: "pd_present (user_pde (pmem s) pd va) \<Longrightarrow> \<exists>k<256. va div 4194304 = of_nat k + 768 \<and>
      pd_phys_addr (user_pde (pmem s) pd va) = frame_of (sym_kernel_pts s - highstart) + of_nat k" for va
  proof -
    assume p: "pd_present (user_pde (pmem s) pd va)"
    then have h: "highstart \<le> va" using o by (auto simp: kernel_only_def split: if_splits)
    then obtain k where "k < 256" "va div 4194304 - 768 = of_nat k" by (rule kernel_pd_index)
    then show ?thesis using o h by (intro exI[of _ k]) (simp add: kernel_only_def shared_pde_parts frame_of_add diff_eq_eq)
  qed
  show t: "tables (pmem s) pd \<subseteq> kernel_tables s"
    using pr by (fastforce simp: tables_def kernel_tables_def frame_of_add)
  have "va div 4194304 = va' div 4194304" if w: "pd_present (user_pde (pmem s) pd va)" "pd_present (user_pde (pmem s) pd va')"
    "pd_phys_addr (user_pde (pmem s) pd va) = pd_phys_addr (user_pde (pmem s) pd va')" for va va'
  proof -
    obtain k l where k: "k < 256" "va div 4194304 = of_nat k + 768" "l < 256" "va' div 4194304 = of_nat l + 768"
      "(of_nat k :: 20 word) = of_nat l" using pr[OF w(1)] pr[OF w(2)] w(3) by auto
    from k(5) have "k mod 2 ^ 20 = l mod 2 ^ 20" by (simp add: word_unat_eq_iff unat_of_nat)
    then show ?thesis using k by simp
  qed
  then show "wf_pd (pmem s) pd" using pd t unfolding wf_pd_def by blast
  show "user_pte (pmem s) pd va = word_to_pte 0" if "va < highstart"
    using o that by (simp add: kernel_only_def user_pte_def)
qed

section \<open>The first address space\<close>

text \<open>A cache without slabs, whose objects have size \<open>osz\<close> and constructor \<open>f\<close>.\<close>

definition fresh_cache :: "'x kmem_state \<Rightarrow> (slab_head \<Rightarrow> slab_ptr list) \<Rightarrow> cache_ptr \<Rightarrow> c_size_t \<Rightarrow> kmem_cache_fn option \<Rightarrow> bool" where
  "fresh_cache s H c osz f \<longleftrightarrow> c \<noteq> 0 \<and> H (Slabs_partial c) = [] \<and> H (Slabs_empty c) = [] \<and> kc_cpu (km_cache s c) \<noteq> 0 \<and>
     objsize (km_cache s c) = osz \<and> kc_ctor (km_cache s c) = f"

text \<open>What the allocation of a first object leaves of the other caches.\<close>

definition other_caches :: "cache_ptr \<Rightarrow> 'x kmem_state \<Rightarrow> 'x kmem_state \<Rightarrow> bool" where
  "other_caches c s s' \<longleftrightarrow> next_free_cache s' = next_free_cache s \<and> sym_caches s' = sym_caches s \<and> (\<forall>c'. c' \<noteq> c \<longrightarrow> km_cache s' c' = km_cache s c')"

lemma fresh_cache_other:
  assumes "fresh_cache s H c' osz f" "other_caches c s s'" "c' \<noteq> c"
  shows "fresh_cache s' (H(Slabs_partial c := xs)) c' osz f"
  using assms by (auto simp: fresh_cache_def other_caches_def)

lemma first_object_slabs:
  fixes s :: "'x kmem_state"
  assumes sl: "slabs_ok s H" and c: "fresh_cache s H c osz f" and sz: "osz \<noteq> 0" "unat osz \<le> 4072" "2 \<le> slab_elems (unat osz)"
    and sup: "pm_supply U (Suc n) (km_vm s)" and kf: "kfree (km_vm s) \<noteq> {}"
  obtains i q s4 where
    "kmem_cache_alloc run c s = do {
       s5 \<leftarrow> (case f of None \<Rightarrow> Some s4 | Some g \<Rightarrow> run g (slot osz i (slab_elems (unat osz))) s4);
       Some (slot osz i (slab_elems (unat osz)), upd_cache c (used_update (\<lambda>u. u + 1)) s5) }"
    "slot osz i (slab_elems (unat osz)) \<noteq> 0" "q \<in> U" "q mod 4096 = 0" "pm_supply (U - {q}) n (km_vm s4)" "km_ext s4 = km_ext s"
    "vm_ext {frame_of q} (km_vm s) (km_vm s4)" "Suc (card (kfree (km_vm s4))) = card (kfree (km_vm s))" "sym_kernel_pts (km_vm s4) = sym_kernel_pts (km_vm s)"
    "other_caches c s s4" "slabs_ok s4 (H(Slabs_partial c := [kaddr i]))"
proof -
  note fact = that
  have sl': "slinked (km_links s) H" and pages: "\<forall>p\<in>members H. \<exists>k. p = kaddr k \<and> in_page (km_vm s) k" using sl by (simp_all add: slabs_ok_def)
  have cf: "c \<noteq> 0" "kc_cpu (km_cache s c) \<noteq> 0" "objsize (km_cache s c) = osz" "H (Slabs_partial c) = []" "H (Slabs_empty c) = []" "kc_ctor (km_cache s c) = f"
    using c by (simp_all add: fresh_cache_def)
  obtain i q vm m s4 where al: "common_kmem_cache_alloc run c s = do {
       s5 \<leftarrow> (case kc_ctor (km_cache s c) of None \<Rightarrow> Some s4 | Some f \<Rightarrow> run f (slot osz i (slab_elems (unat osz))) s4);
       Some (slot osz i (slab_elems (unat osz)), upd_cache c (used_update (\<lambda>u. u + 1)) s5) }"
    and np: "new_page i q (km_vm s) vm" and q: "q \<in> U" "q mod 4096 = 0" "pm_supply (U - {q}) n vm"
    and s4: "km_vm s4 = vm\<lparr>pmem := m\<rparr>" "same_outside {frame_of q} (pmem vm) m" "km_ext s4 = km_ext s" "km_cache s4 = km_cache s"
    "next_free_cache s4 = next_free_cache s" "sym_caches s4 = sym_caches s" "slinked (km_links s4) (H(Slabs_partial c := [kaddr i]))"
    by (rule first_object[OF sl' cf(4,5) pages cf(1,2) sz(1,2) cf(3) sz(3) sup kf])
  note nf = new_page_facts[OF np]
  have e: "vm_ext {frame_of q} (km_vm s) (km_vm s4)"
    by (rule vm_ext_trans[OF vm_ext_mono[OF nf(3)]]) (simp_all add: s4(1,2) vm_ext_pmem)
  have "in_page (km_vm s4) k" if "in_page (km_vm s) k" for k
    using that e by (auto simp: in_page_def vm_ext_def keeps_mapped_def)
  moreover have "in_page (km_vm s4) i" using nf(1) by (simp add: s4(1) in_page_def window_def)
  moreover have "members (H(Slabs_partial c := [kaddr i])) \<subseteq> insert (kaddr i) (members H)" by (auto simp: members_iff split: if_splits)
  ultimately have "\<forall>p\<in>members (H(Slabs_partial c := [kaddr i])). \<exists>k. p = kaddr k \<and> in_page (km_vm s4) k"
    using pages by blast
  then have sl4: "slabs_ok s4 (H(Slabs_partial c := [kaddr i]))" using s4(7) by (simp add: slabs_ok_def)
  have nz: "slot osz i (slab_elems (unat osz)) \<noteq> 0" by (rule first_slot_nz[OF np sz(1)]) (use sz(3) in simp)
  have sup4: "pm_supply (U - {q}) n (km_vm s4)" using q(3) pm_supply_cong[of "km_vm s4" vm] by (simp add: s4(1))
  have kp: "sym_kernel_pts (km_vm s4) = sym_kernel_pts (km_vm s)" using np by (auto simp: s4(1) new_page_def)
  have kc: "Suc (card (kfree (km_vm s4))) = card (kfree (km_vm s))" using nf(6) by (simp add: s4(1) kfree_def)
  show thesis
    by (rule fact[OF _ nz q(1,2) sup4 s4(3) e kc kp _ sl4]) (use al cf(6) s4(4-6) in \<open>simp_all add: other_caches_def kmem_cache_alloc_def\<close>)
qed

lemma elems_28: "slab_elems (unat sizeof_address_space) = 127"
  by (simp add: slab_elems_def sizeof_address_space_def)

lemma address_space_alloc_ok:
  fixes s :: "'y as_state"
  assumes c: "c = as_cache (km_ext s)" and sl: "slabs_ok s H" and fc: "fresh_cache s H c sizeof_address_space (Some I686_address_space_ctor)"
    and run: "run I686_address_space_ctor = i686_address_space_ctor"
    and sup: "pm_supply U (Suc (Suc n)) (km_vm s)" and kf: "4 \<le> card (kfree (km_vm s))"
    and K: "kernel_tables (km_vm s) \<inter> frame_of ` U = {}"
  obtains a p q i s' where "address_space_alloc run s = Some ((AS_SUCCESS, a), s')" "a \<noteq> 0"
    "km_ext s' = (km_ext s)\<lparr>as_obj := (as_obj (km_ext s))(a := \<lparr>as_v = Some I686_as_vfuncs, as_pd = p\<rparr>),
       as_regions := LIST_INIT a (as_regions (km_ext s))\<rparr>"
    "p \<in> U" "q \<in> U" "p \<noteq> q" "p mod 4096 = 0" "pm_supply (U - {p, q}) n (km_vm s')" "space_ok p (U - {p, q}) (km_vm s')"
    "kernel_only (km_vm s') p" "vm_ext (frame_of ` {p, q}) (km_vm s) (km_vm s')"
    "card (kfree (km_vm s)) = card (kfree (km_vm s')) + 4" "sym_kernel_pts (km_vm s') = sym_kernel_pts (km_vm s)"
    "other_caches c s s'" "slabs_ok s' (H(Slabs_partial c := [kaddr i]))"
proof -
  note fact = that
  have sz: "sizeof_address_space \<noteq> 0" "unat sizeof_address_space \<le> 4072" "2 \<le> slab_elems (unat sizeof_address_space)"
    by (simp_all add: elems_28) (simp_all add: sizeof_address_space_def)
  have kn: "kfree (km_vm s) \<noteq> {}" using kf by auto
  let ?a = "\<lambda>i. slot sizeof_address_space i (slab_elems (unat sizeof_address_space))"
  obtain i q s4 where al: "kmem_cache_alloc run c s = do {
       s5 \<leftarrow> (case Some I686_address_space_ctor of None \<Rightarrow> Some s4 | Some g \<Rightarrow> run g (?a i) s4); Some (?a i, upd_cache c (used_update (\<lambda>u. u + 1)) s5) }"
    and nz: "?a i \<noteq> 0" and q: "q \<in> U" "q mod 4096 = 0" "pm_supply (U - {q}) (Suc n) (km_vm s4)" and s4: "km_ext s4 = km_ext s"
    "vm_ext {frame_of q} (km_vm s) (km_vm s4)" "Suc (card (kfree (km_vm s4))) = card (kfree (km_vm s))" "sym_kernel_pts (km_vm s4) = sym_kernel_pts (km_vm s)"
    "other_caches c s s4" "slabs_ok s4 (H(Slabs_partial c := [kaddr i]))"
    by (rule first_object_slabs[OF sl fc sz sup kn])
  define a where "a = ?a i"
  have kf4: "kfree (km_vm s4) \<noteq> {}" using kf s4(3) by auto
  obtain p vm where ct: "i686_address_space_ctor a s4 = Some (upd_as a (\<lambda>_. \<lparr>as_v = Some I686_as_vfuncs, as_pd = p\<rparr>) (s4\<lparr>km_vm := vm\<rparr>))"
    and p: "p \<in> U - {q}" "p mod 4096 = 0" "pm_supply (U - {q} - {p}) n vm" and vm: "vm_ext {frame_of p} (km_vm s4) vm" "zero_in (pmem vm) (frame_of p)"
    "Suc (card (kfree vm)) = card (kfree (km_vm s4))" "sym_kernel_pts vm = sym_kernel_pts (km_vm s4)"
    by (rule address_space_ctor_ok[OF q(3) kf4])
  have k2: "2 \<le> card (kfree vm)" using kf s4(3) vm(3) by simp
  obtain vm' where su: "virtmem_user_setup_kernelspace p vm = Some (VIRTMEM_SUCCESS, vm')"
    "\<forall>va. user_pde (pmem vm') p va = (if highstart \<le> va then shared_pde vm (va div 4194304 - 768) else user_pde (pmem vm) p va)"
    "same_outside {frame_of p} (pmem vm) (pmem vm')" "keeps_mapped vm vm'" "card (kfree vm') = card (kfree vm) - 2" "sym_kernel_pts vm' = sym_kernel_pts vm"
    "vm_pm vm' = vm_pm vm" "localmem vm' = localmem vm"
    using setup_kernelspace_ok[OF k2 pm_ready_page_size[OF pm_supply_ready[OF p(3)]] p(2)] by blast
  let ?s' = "(upd_ext (\<lambda>x. x\<lparr>as_regions := LIST_INIT a (as_regions x)\<rparr>)
     (upd_cache c (used_update (\<lambda>u. u + 1)) (upd_as a (\<lambda>_. \<lparr>as_v = Some I686_as_vfuncs, as_pd = p\<rparr>) (s4\<lparr>km_vm := vm\<rparr>))))\<lparr>km_vm := vm'\<rparr>"
  have r: "address_space_alloc run s = Some ((AS_SUCCESS, a), ?s')"
    using al run ct nz su(1) by (simp add: address_space_alloc_def c[symmetric] a_def upd_cache_def upd_as_def upd_ext_def)
  have U: "U - {q} - {p} = U - {p, q}" by auto
  have sh: "shared_pde vm' k = shared_pde vm k" for k by (simp add: shared_pde_def su(6))
  have ko: "kernel_only vm' p" using su(2) zero_in_directory[OF vm(2) p(2)] by (simp add: kernel_only_def sh)
  have kt: "kernel_tables vm' = kernel_tables (km_vm s)" by (simp add: kernel_tables_def su(6) vm(4) s4(4))
  have "frame_of p \<notin> kernel_tables vm'" using K p(1) unfolding kt by auto
  note wf = kernel_only_wf[OF ko p(2) this]
  have "frame_of p \<notin> frame_of ` (U - {p, q})" by (rule pm_supply_frame[OF sup]) (use p(1) in auto)
  then have sp: "space_ok p (U - {p, q}) vm'" using wf(1,2) K unfolding space_ok_def kt by blast
  have sup': "pm_supply (U - {p, q}) n vm'" using p(3) pm_supply_cong[of vm' vm] su(7,8) unfolding U by simp
  have e: "vm_ext (frame_of ` {p, q}) (km_vm s) vm'"
  proof (rule vm_ext_trans[OF vm_ext_mono[OF s4(2)] vm_ext_trans[OF vm_ext_mono[OF vm(1)]]])
    show "vm_ext (frame_of ` {p, q}) vm vm'" using su(3,4,8) by (auto simp: vm_ext_def intro: same_outside_mono)
  qed auto
  have e4: "vm_ext (frame_of ` {p, q}) (km_vm s4) vm'"
  proof (rule vm_ext_trans[OF vm_ext_mono[OF vm(1)]])
    show "vm_ext (frame_of ` {p, q}) vm vm'" using su(3,4,8) by (auto simp: vm_ext_def intro: same_outside_mono)
  qed auto
  have sl': "slabs_ok ?s' (H(Slabs_partial c := [kaddr i]))"
    by (rule slabs_ok_ext[OF s4(6), where F = "frame_of ` {p, q}"]) (use e4 in \<open>simp_all add: upd_ext_def upd_cache_def upd_as_def\<close>)
  have oc: "other_caches c s ?s'" using s4(5) by (simp add: other_caches_def upd_ext_def upd_cache_def upd_as_def)
  have ce: "card (kfree (km_vm s)) = card (kfree vm') + 4" using s4(3) vm(3) su(5) kf by simp
  show thesis
  proof (rule fact[OF r _ _ _ q(1) _ p(2)])
    show "a \<noteq> 0" using nz by (simp add: a_def)
    show "km_ext ?s' = (km_ext s)\<lparr>as_obj := (as_obj (km_ext s))(a := \<lparr>as_v = Some I686_as_vfuncs, as_pd = p\<rparr>),
       as_regions := LIST_INIT a (as_regions (km_ext s))\<rparr>" by (simp add: upd_ext_def upd_cache_def upd_as_def s4(1))
    show "p \<in> U" "p \<noteq> q" using p(1) by auto
    show "other_caches c s ?s'" by (rule oc)
    show "slabs_ok ?s' (H(Slabs_partial c := [kaddr i]))" by (rule sl')
  qed (use sup' sp ko e ce su(6) vm(4) s4(4) in simp_all)
qed

section \<open>The two caches\<close>

text \<open>The lists of slabs after the initialisation of a cache.\<close>

definition no_slabs :: "cache_ptr \<Rightarrow> (slab_head \<Rightarrow> slab_ptr list) \<Rightarrow> slab_head \<Rightarrow> slab_ptr list" where
  "no_slabs c H = H(Slabs_empty c := [], Slabs_full c := [], Slabs_partial c := [])"

lemma cache_init_fresh:
  fixes name :: string and ctor dtor :: "kmem_cache_fn option" and s :: "'x kmem_state"
  assumes sl: "slabs_ok s H" and nz: "c \<noteq> 0" "cpu \<noteq> 0" "osz \<noteq> 0"
  defines "s' \<equiv> snd (kmem_cache_init c cpu name osz ctor dtor s)"
  shows "slabs_ok s' (no_slabs c H)" "fresh_cache s' (no_slabs c H) c osz ctor" "other_caches c s s'" "km_vm s' = km_vm s" "km_ext s' = km_ext s"
proof -
  have k: "\<not> osz < MIN_CACHE_SIZE" using nz(3) by (simp add: MIN_CACHE_SIZE_def word_less_1)
  have s': "km_links s' = SLIST_INIT (Slabs_partial c) (SLIST_INIT (Slabs_full c) (SLIST_INIT (Slabs_empty c) (km_links s)))"
    and v: "km_vm s' = km_vm s" and o: "other_caches c s s'" and e: "km_ext s' = km_ext s"
    and f: "objsize (km_cache s' c) = osz" "kc_cpu (km_cache s' c) = cpu" "kc_ctor (km_cache s' c) = ctor"
    using k by (simp_all add: s'_def common_kmem_cache_init_def Let_def upd_cache_def other_caches_def)
  have "slinked (km_links s') (no_slabs c H)" unfolding s' no_slabs_def using sl by (intro sl.init_rep) (simp add: slabs_ok_def)
  moreover have "members (no_slabs c H) \<subseteq> members H" by (auto simp: no_slabs_def members_iff split: if_splits)
  ultimately show "slabs_ok s' (no_slabs c H)" using sl unfolding slabs_ok_def v by blast
  show "fresh_cache s' (no_slabs c H) c osz ctor" using nz f by (simp add: fresh_cache_def no_slabs_def)
  show "other_caches c s s'" "km_vm s' = km_vm s" "km_ext s' = km_ext s" by (fact o v e)+
qed

lemma fresh_cache_no_slabs: "fresh_cache s H c' osz f \<Longrightarrow> other_caches c s s' \<Longrightarrow> c' \<noteq> c \<Longrightarrow> fresh_cache s' (no_slabs c H) c' osz f"
  by (simp add: fresh_cache_def other_caches_def no_slabs_def)

lemma slabs_ok_same: "slabs_ok s H \<Longrightarrow> km_links s' = km_links s \<Longrightarrow> km_vm s' = km_vm s \<Longrightarrow> slabs_ok s' H"
  by (simp add: slabs_ok_def)

text \<open>The pointers that the next calls of \<^verbatim>\<open>kmem_alloc\<close> give.\<close>

definition next_cache :: "'x kmem_state \<Rightarrow> nat \<Rightarrow> cache_ptr" where
  "next_cache s k = sym_caches s + (next_free_cache s + of_nat k) * sizeof_kmem_cache"

lemma kmem_alloc_next: "fst (kmem_alloc s) = next_cache s 0" by (simp add: next_cache_def i686_kmem_cache_alloc_def)

lemma next_cache_inj: "k < 2 ^ 20 \<Longrightarrow> l < 2 ^ 20 \<Longrightarrow> next_cache s k = next_cache s l \<Longrightarrow> k = l"
proof -
  assume k: "k < 2 ^ 20" "l < 2 ^ 20" and e: "next_cache s k = next_cache s l"
  then have "(of_nat (k * 68) :: u32) = of_nat (l * 68)" by (simp add: next_cache_def sizeof_kmem_cache_def algebra_simps)
  then have "unat (of_nat (k * 68) :: u32) = unat (of_nat (l * 68) :: u32)" by (rule arg_cong)
  then show "k = l" using k by (simp add: unat_of_nat del: of_nat_mult)
qed

lemma address_space_init_fresh:
  fixes s :: "'y as_state"
  assumes sl: "slabs_ok s H" and nz: "next_cache s 0 \<noteq> 0" "next_cache s 1 \<noteq> 0" "cpu \<noteq> 0"
  defines "s' \<equiv> i686_address_space_init cpu s" and "ac \<equiv> next_cache s 0" and "mc \<equiv> next_cache s 1"
  shows "km_ext s' = (km_ext s)\<lparr>as_cache := ac, mr_cache := mc\<rparr>" "km_vm s' = km_vm s" "slabs_ok s' (no_slabs mc (no_slabs ac H))"
    "fresh_cache s' (no_slabs mc (no_slabs ac H)) ac sizeof_address_space (Some I686_address_space_ctor)"
    "fresh_cache s' (no_slabs mc (no_slabs ac H)) mc sizeof_memory_region (Some I686_memory_region_ctor)"
    "next_free_cache s' = next_free_cache s + 2" "sym_caches s' = sym_caches s" "\<forall>c. c \<noteq> ac \<longrightarrow> c \<noteq> mc \<longrightarrow> km_cache s' c = km_cache s c"
proof -
  define s4 where "s4 = s\<lparr>next_free_cache := next_free_cache s + 2, km_ext := (km_ext s)\<lparr>as_cache := ac, mr_cache := mc\<rparr>\<rparr>"
  define s5 where "s5 = snd (kmem_cache_init ac cpu ''address_space'' sizeof_address_space (Some I686_address_space_ctor) (Some I686_address_space_dtor) s4)"
  have s': "s' = snd (kmem_cache_init mc cpu ''memory_region'' sizeof_memory_region (Some I686_memory_region_ctor) None s5)"
    unfolding s'_def s5_def s4_def ac_def mc_def
    by (simp add: i686_address_space_init_def address_space_init_def Let_def split_def i686_kmem_cache_alloc_def upd_ext_def next_cache_def add.assoc)
  have ne: "ac \<noteq> mc" 
  proof
    assume "ac = mc"
    then have "next_cache s 0 = next_cache s 1" unfolding ac_def mc_def .
    from next_cache_inj[OF _ _ this] show False by simp
  qed
  have n: "ac \<noteq> 0" "mc \<noteq> 0" "sizeof_address_space \<noteq> 0" "sizeof_memory_region \<noteq> 0"
    using nz(1,2) unfolding ac_def mc_def by (simp_all only: sizeof_address_space_def sizeof_memory_region_def) simp_all
  have "slabs_ok s4 H" by (rule slabs_ok_same[OF sl]) (simp_all add: s4_def)
  note i5 = cache_init_fresh[OF this n(1) nz(3) n(3), where name = "''address_space''" and ctor = "Some I686_address_space_ctor" and dtor = "Some I686_address_space_dtor",
      folded s5_def]
  note i6 = cache_init_fresh[OF i5(1) n(2) nz(3) n(4), where name = "''memory_region''" and ctor = "Some I686_memory_region_ctor" and dtor = None, folded s']
  show "km_ext s' = (km_ext s)\<lparr>as_cache := ac, mr_cache := mc\<rparr>" "km_vm s' = km_vm s" using i5(4,5) i6(4,5) by (simp_all add: s4_def)
  show "slabs_ok s' (no_slabs mc (no_slabs ac H))" by (rule i6(1))
  show "fresh_cache s' (no_slabs mc (no_slabs ac H)) mc sizeof_memory_region (Some I686_memory_region_ctor)" by (rule i6(2))
  show "fresh_cache s' (no_slabs mc (no_slabs ac H)) ac sizeof_address_space (Some I686_address_space_ctor)"
    by (rule fresh_cache_no_slabs[OF i5(2) i6(3) ne])
  show "next_free_cache s' = next_free_cache s + 2" "sym_caches s' = sym_caches s" "\<forall>c. c \<noteq> ac \<longrightarrow> c \<noteq> mc \<longrightarrow> km_cache s' c = km_cache s c"
    using i5(3) i6(3) by (simp_all add: other_caches_def s4_def)
qed

section \<open>The first region\<close>

lemma elems_40: "slab_elems (unat sizeof_memory_region) = 92"
  by (simp add: slab_elems_def sizeof_memory_region_def)

lemma memory_region_alloc_ok:
  fixes s :: "'y as_state"
  assumes c: "c = mr_cache (km_ext s)" and sl: "slabs_ok s H" and fc: "fresh_cache s H c sizeof_memory_region (Some I686_memory_region_ctor)"
    and run: "run I686_memory_region_ctor = i686_memory_region_ctor"
    and sup: "pm_supply U (Suc n) (km_vm s)" and kf: "kfree (km_vm s) \<noteq> {}"
  obtains mr q i s' where "memory_region_alloc run s = Some ((AS_SUCCESS, mr), s')" "mr \<noteq> 0"
    "km_ext s' = (km_ext s)\<lparr>mr_obj := (mr_obj (km_ext s))(mr := zero_region\<lparr>mr_v := Some I686_mr_vfuncs\<rparr>)\<rparr>"
    "q \<in> U" "q mod 4096 = 0" "pm_supply (U - {q}) n (km_vm s')" "vm_ext {frame_of q} (km_vm s) (km_vm s')"
    "Suc (card (kfree (km_vm s'))) = card (kfree (km_vm s))" "sym_kernel_pts (km_vm s') = sym_kernel_pts (km_vm s)"
    "other_caches c s s'" "slabs_ok s' (H(Slabs_partial c := [kaddr i]))"
proof -
  note fact = that
  have sz: "sizeof_memory_region \<noteq> 0" "unat sizeof_memory_region \<le> 4072" "2 \<le> slab_elems (unat sizeof_memory_region)"
    by (simp_all add: elems_40) (simp_all add: sizeof_memory_region_def)
  let ?a = "\<lambda>i. slot sizeof_memory_region i (slab_elems (unat sizeof_memory_region))"
  obtain i q s4 where al: "kmem_cache_alloc run c s = do {
       s5 \<leftarrow> (case Some I686_memory_region_ctor of None \<Rightarrow> Some s4 | Some g \<Rightarrow> run g (?a i) s4); Some (?a i, upd_cache c (used_update (\<lambda>u. u + 1)) s5) }"
    and nz: "?a i \<noteq> 0" and q: "q \<in> U" "q mod 4096 = 0" "pm_supply (U - {q}) n (km_vm s4)" and s4: "km_ext s4 = km_ext s"
    "vm_ext {frame_of q} (km_vm s) (km_vm s4)" "Suc (card (kfree (km_vm s4))) = card (kfree (km_vm s))" "sym_kernel_pts (km_vm s4) = sym_kernel_pts (km_vm s)"
    "other_caches c s s4" "slabs_ok s4 (H(Slabs_partial c := [kaddr i]))"
    by (rule first_object_slabs[OF sl fc sz sup kf])
  let ?s' = "upd_cache c (used_update (\<lambda>u. u + 1)) (upd_mr (?a i) (\<lambda>_. zero_region\<lparr>mr_v := Some I686_mr_vfuncs\<rparr>) s4)"
  have v: "km_vm ?s' = km_vm s4" "km_links ?s' = km_links s4" by (simp_all add: upd_cache_def upd_mr_def upd_ext_def)
  have r: "memory_region_alloc run s = Some ((AS_SUCCESS, ?a i), ?s')"
    using al run by (simp add: memory_region_alloc_def c[symmetric] i686_memory_region_ctor_def)
  show thesis
  proof (rule fact[OF r nz _ q(1,2)])
    show "km_ext ?s' = (km_ext s)\<lparr>mr_obj := (mr_obj (km_ext s))(?a i := zero_region\<lparr>mr_v := Some I686_mr_vfuncs\<rparr>)\<rparr>"
      by (simp add: upd_cache_def upd_mr_def upd_ext_def s4(1))
    show "other_caches c s ?s'" using s4(5) by (simp add: other_caches_def upd_cache_def upd_mr_def upd_ext_def)
    show "slabs_ok ?s' (H(Slabs_partial c := [kaddr i]))" by (rule slabs_ok_same[OF s4(6) v(2,1)])
  qed (use q(3) s4(2-4) in \<open>simp_all add: v\<close>)
qed

section \<open>The address space of the test\<close>

text \<open>An address space is not touched by what happens in other frames.\<close>

lemma space_ok_ext:
  assumes sp: "space_ok pd U s" and e: "vm_ext F s s'" and d: "F \<inter> insert (frame_of pd) (tables (pmem s) pd) = {}"
  shows "space_ok pd U s'" "user_pde (pmem s') pd = user_pde (pmem s) pd" "user_pte (pmem s') pd = user_pte (pmem s) pd"
    "tables (pmem s') pd = tables (pmem s) pd"
proof -
  have o: "same_outside F (pmem s) (pmem s')" using e by (simp add: vm_ext_def)
  show d': "user_pde (pmem s') pd = user_pde (pmem s) pd"
    by (rule ext, rule user_pde_outside[OF o _ space_okD(2)[OF sp]]) (use d in auto)
  then show t: "tables (pmem s') pd = tables (pmem s) pd" by (simp add: tables_def)
  show "user_pte (pmem s') pd = user_pte (pmem s) pd"
    by (rule ext, rule user_pte_outside[OF o _ space_okD(2)[OF sp]]) (use d in auto)
  show "space_ok pd U s'" using sp unfolding space_ok_def t wf_pd_def d' .
qed

definition test_region :: memory_region where
  "test_region = \<lparr>mr_start = 0x1000000, mr_length = 0x2000, mr_v = Some I686_mr_vfuncs, mr_writable = True, mr_executable = True, mr_copy_on_write = False\<rparr>"

lemma placed_test: "placed 0x1000000 0x2000 (zero_region\<lparr>mr_v := Some I686_mr_vfuncs\<rparr>) = test_region\<lparr>mr_writable := False, mr_executable := False\<rparr>"
  using c_srem_low[of "0x1000000"] by (simp add: placed_def test_region_def zero_region_def)

lemma user_space_made:
  fixes s :: "'z sched_state"
  assumes sl: "slabs_ok s H" and nz: "next_cache s 0 \<noteq> 0" "next_cache s 1 \<noteq> 0" and cpu: "bsp (km_ext s) \<noteq> 0"
    and sup: "pm_supply U (Suc (Suc (Suc n))) (km_vm s)" and kf: "6 \<le> card (kfree (km_vm s))"
    and K: "kernel_tables (km_vm s) \<inter> frame_of ` U = {}" and rl: "linked (as_regions (km_ext s)) (\<lambda>_. [])"
  defines "ac \<equiv> next_cache s 0" and "mc \<equiv> next_cache s 1"
  obtains as mr pd U' i j k s2 s3 vm1 vm2 s4 s5 ao mo ar where
    "address_space_alloc i686_run (i686_address_space_init (bsp (km_ext s)) s) = Some ((AS_SUCCESS, as), s2)"
    "memory_region_alloc i686_run s2 = Some ((AS_SUCCESS, mr), s3)" "as_pd (as_obj (km_ext s3) as) = pd"
    "virtmem_kernel_alloc 1 (km_vm s3) = Some ((VIRTMEM_SUCCESS, Some (kaddr k)), vm1)"
    "virtmem_kernel_map_virt_to_phys pd (kaddr k) vm1 = Some (VIRTMEM_SUCCESS, vm2)"
    "address_space_init_region as mr 0x1000000 0x2000 (s3\<lparr>km_vm := vm2\<rparr>) = Some (AS_SUCCESS, s4)"
    "memory_region_set_flags mr 1 1 s4 = Some (AS_SUCCESS, s5)"
    "as \<noteq> 0" "as_obj (km_ext s5) as = \<lparr>as_v = Some I686_as_vfuncs, as_pd = pd\<rparr>" "mr_obj (km_ext s5) mr = test_region"
    "km_ext s5 = (km_ext s)\<lparr>as_cache := ac, mr_cache := mc, as_obj := ao, mr_obj := mo, as_regions := ar\<rparr>"
    "U' \<subseteq> U" "pm_supply U' n (km_vm s5)" "space_ok pd U' (km_vm s5)" "kernel_only (km_vm s5) pd" "pd \<in> U" "pd mod 4096 = 0"
    "vm_ext (frame_of ` U) (km_vm s) (km_vm s5)" "sym_kernel_pts (km_vm s5) = sym_kernel_pts (km_vm s)"
    "card (kfree (km_vm s)) = card (kfree (km_vm s5)) + 6"
    "slabs_ok s5 ((no_slabs mc (no_slabs ac H))(Slabs_partial ac := [kaddr i], Slabs_partial mc := [kaddr j]))"
    "\<forall>c. c \<noteq> ac \<longrightarrow> c \<noteq> mc \<longrightarrow> km_cache s5 c = km_cache s c"
proof -
  note fact = that
  let ?s1 = "i686_address_space_init (bsp (km_ext s)) s" and ?H1 = "no_slabs mc (no_slabs ac H)"
  have run: "i686_run I686_address_space_ctor = i686_address_space_ctor" "i686_run I686_memory_region_ctor = i686_memory_region_ctor"
    by (simp_all add: i686_run_def)
  have ne: "ac \<noteq> mc"
  proof
    assume "ac = mc"
    then have "next_cache s 0 = next_cache s 1" unfolding ac_def mc_def .
    from next_cache_inj[OF _ _ this] show False by simp
  qed
  note i = address_space_init_fresh[OF sl nz cpu, folded ac_def mc_def]
  have ca: "as_cache (km_ext ?s1) = ac" by (simp add: i(1))
  have sup1: "pm_supply U (Suc (Suc (Suc n))) (km_vm ?s1)" and k1: "4 \<le> card (kfree (km_vm ?s1))" and K1: "kernel_tables (km_vm ?s1) \<inter> frame_of ` U = {}"
    unfolding i(2) using sup kf K by simp_all
  obtain as pd q ki s2 where a: "address_space_alloc i686_run ?s1 = Some ((AS_SUCCESS, as), s2)" "as \<noteq> 0"
    and x2: "km_ext s2 = (km_ext ?s1)\<lparr>as_obj := (as_obj (km_ext ?s1))(as := \<lparr>as_v = Some I686_as_vfuncs, as_pd = pd\<rparr>),
       as_regions := LIST_INIT as (as_regions (km_ext ?s1))\<rparr>"
    and p: "pd \<in> U" "q \<in> U" "pd \<noteq> q" "pd mod 4096 = 0" "pm_supply (U - {pd, q}) (Suc n) (km_vm s2)" "space_ok pd (U - {pd, q}) (km_vm s2)"
    "kernel_only (km_vm s2) pd" "vm_ext (frame_of ` {pd, q}) (km_vm ?s1) (km_vm s2)" "card (kfree (km_vm ?s1)) = card (kfree (km_vm s2)) + 4"
    "sym_kernel_pts (km_vm s2) = sym_kernel_pts (km_vm ?s1)" and o2: "other_caches ac ?s1 s2" and sl2: "slabs_ok s2 (?H1(Slabs_partial ac := [kaddr ki]))"
    by (rule address_space_alloc_ok[where s = ?s1 and run = i686_run, OF ca[symmetric] i(3,4) run(1) sup1 k1 K1])
  have cm: "mr_cache (km_ext s2) = mc" by (simp add: x2 i(1))
  have f2: "fresh_cache s2 (?H1(Slabs_partial ac := [kaddr ki])) mc sizeof_memory_region (Some I686_memory_region_ctor)"
    by (rule fresh_cache_other[OF i(5) o2 ne[symmetric]])
  have k2: "kfree (km_vm s2) \<noteq> {}" using p(9) kf unfolding i(2) by auto
  obtain mr r kj s3 where m: "memory_region_alloc i686_run s2 = Some ((AS_SUCCESS, mr), s3)" "mr \<noteq> 0"
    and x3: "km_ext s3 = (km_ext s2)\<lparr>mr_obj := (mr_obj (km_ext s2))(mr := zero_region\<lparr>mr_v := Some I686_mr_vfuncs\<rparr>)\<rparr>"
    and r: "r \<in> U - {pd, q}" "r mod 4096 = 0" "pm_supply (U - {pd, q} - {r}) n (km_vm s3)" "vm_ext {frame_of r} (km_vm s2) (km_vm s3)"
    "Suc (card (kfree (km_vm s3))) = card (kfree (km_vm s2))" "sym_kernel_pts (km_vm s3) = sym_kernel_pts (km_vm s2)"
    and o3: "other_caches mc s2 s3" and sl3: "slabs_ok s3 (?H1(Slabs_partial ac := [kaddr ki], Slabs_partial mc := [kaddr kj]))"
    by (rule memory_region_alloc_ok[where s = s2 and run = i686_run, OF cm[symmetric] sl2 f2 run(2) p(5) k2])
  have "kfree (km_vm s3) \<noteq> {}" using p(9) r(5) kf unfolding i(2) by auto
  then obtain k where k: "k \<in> kfree (km_vm s3)" "i686_kernel_alloc 1 (km_vm s3) = Some ((VIRTMEM_SUCCESS, Some (kaddr k)), kalloc_state k (km_vm s3))"
    by (rule i686_kernel_alloc_ok)
  let ?vm1 = "kalloc_state k (km_vm s3)"
  let ?vm2 = "kmap_state k (frame_of pd) ?vm1"
  have ps: "local_page_size ?vm1 = Some 4096" using pm_ready_page_size[OF pm_supply_ready[OF r(3)]] by simp
  have lt: "k < 262144" "pt_present (kernel_flatpt ?vm1 k)" using k(1) by (simp_all add: kfree_def kalloc_state_def)
  note mp = i686_kernel_map_ok[OF lt ps, of pd]
  have v2: "vm_ext {} (km_vm s3) ?vm2" "pmem ?vm2 = pmem (km_vm s3)" "sym_kernel_pts ?vm2 = sym_kernel_pts (km_vm s3)"
    using k(1) by (auto simp: vm_ext_def keeps_mapped_def kfree_def kmap_state_def kalloc_state_def same_outside_def)
  have "kfree ?vm2 = kfree (km_vm s3) - {k}" by (auto simp: kfree_def kmap_state_def kalloc_state_def)
  then have c2: "Suc (card (kfree ?vm2)) = card (kfree (km_vm s3))" using card_Suc_Diff1[OF finite_kfree k(1)] by simp
  let ?S = "s3\<lparr>km_vm := ?vm2\<rparr>"
  have X: "km_ext ?S = (km_ext s)\<lparr>as_cache := ac, mr_cache := mc, as_obj := (as_obj (km_ext s))(as := \<lparr>as_v = Some I686_as_vfuncs, as_pd = pd\<rparr>),
      mr_obj := (mr_obj (km_ext s))(mr := zero_region\<lparr>mr_v := Some I686_mr_vfuncs\<rparr>), as_regions := LIST_INIT as (as_regions (km_ext s))\<rparr>"
    by (simp add: x3 x2 i(1))
  have inv: "spaces_inv ?S (\<lambda>_. [])" using dl.init_rep[OF rl, of as] unfolding spaces_inv_def X by (simp add: fun_upd_idem)
  have good: "good_region (placed 0x1000000 0x2000 (mr_obj (km_ext ?S) mr))" by (simp add: X placed_test good_region_def test_region_def)
  have av: "as_v (as_obj (km_ext ?S) as) \<noteq> None" "mr_v (mr_obj (km_ext ?S) mr) \<noteq> None" "local_page_size (km_vm ?S) = Some 4096"
    using ps by (simp_all add: X)
  let ?S1 = "upd_ext (\<lambda>x. x\<lparr>as_regions := LIST_INSERT_HEAD as mr (as_regions x)\<rparr>) (upd_mr mr (placed 0x1000000 0x2000) ?S)"
  have ir: "address_space_init_region as mr 0x1000000 0x2000 ?S = Some (AS_SUCCESS, ?S1)"
    using init_region_steps(1)[OF inv _ m(2) av(2) a(2) av(1,3) _ good] by (simp add: members_def)
  let ?S5 = "snd (common_memory_region_set_flags mr 1 1 ?S1)"
  have mv: "mr_v (mr_obj (km_ext ?S1) mr) = Some I686_mr_vfuncs" by (simp add: upd_mr_def upd_ext_def X placed_def)
  have sf: "memory_region_set_flags mr 1 1 ?S1 = Some (AS_SUCCESS, ?S5)"
    using m(2) by (simp add: memory_region_set_flags_def common_memory_region_set_flags_def mv)
  have S5: "?S5 = ?S\<lparr>km_ext := (km_ext ?S)\<lparr>mr_obj := (mr_obj (km_ext s))(mr := test_region), as_regions := LIST_INSERT_HEAD as mr (LIST_INIT as (as_regions (km_ext s)))\<rparr>\<rparr>"
    using m(2) by (simp add: common_memory_region_set_flags_def upd_mr_def upd_ext_def X placed_test) (simp add: test_region_def)
  have e3: "vm_ext (frame_of ` U) (km_vm s) (km_vm s3)"
    by (rule vm_ext_trans[OF vm_ext_mono[OF p(8)[unfolded i(2)]] vm_ext_mono[OF r(4)]]) (use p(1,2) r(1) in auto)
  have fr: "frame_of r \<notin> insert (frame_of pd) (tables (pmem (km_vm s2)) pd)" using space_okD(3,4)[OF p(6) r(1)] by blast
  then have "{frame_of r} \<inter> insert (frame_of pd) (tables (pmem (km_vm s2)) pd) = {}" by blast
  note so3 = space_ok_ext[OF p(6) r(4) this]
  have so2: "space_ok pd (U - {pd, q}) ?vm2" using so3(1) by (simp add: space_ok_def)
  have ko: "kernel_only ?vm2 pd"
    using p(7) so3(2) r(6) v2(2,3) by (simp add: kernel_only_def shared_pde_def)
  have sup5: "pm_supply (U - {pd, q} - {r}) n ?vm2" using r(3) pm_supply_cong[of ?vm2 "km_vm s3"] by simp
  have kc: "\<forall>c. c \<noteq> ac \<longrightarrow> c \<noteq> mc \<longrightarrow> km_cache ?S5 c = km_cache s c"
    using i(8) o2 o3 unfolding S5 by (simp add: other_caches_def)
  have sl5: "slabs_ok ?S5 (?H1(Slabs_partial ac := [kaddr ki], Slabs_partial mc := [kaddr kj]))"
    by (rule slabs_ok_ext[OF sl3, where F = "{}"]) (use v2(1) in \<open>simp_all add: S5\<close>)
  have a5: "as_obj (km_ext ?S5) as = \<lparr>as_v = Some I686_as_vfuncs, as_pd = pd\<rparr>" "mr_obj (km_ext ?S5) mr = test_region" by (simp_all add: S5 X)
  have x5: "km_ext ?S5 = (km_ext s)\<lparr>as_cache := ac, mr_cache := mc, as_obj := (as_obj (km_ext s))(as := \<lparr>as_v = Some I686_as_vfuncs, as_pd = pd\<rparr>),
      mr_obj := (mr_obj (km_ext s))(mr := test_region), as_regions := LIST_INSERT_HEAD as mr (LIST_INIT as (as_regions (km_ext s)))\<rparr>"
    by (simp add: S5 X)
  have vm5: "km_vm ?S5 = ?vm2" by (simp add: S5)
  show thesis
  proof (rule fact[OF a(1) m(1) _ _ _ ir sf a(2) a5 x5, unfolded vm5])
    show "as_pd (as_obj (km_ext s3) as) = pd" by (simp add: x3 x2)
    show "virtmem_kernel_alloc 1 (km_vm s3) = Some ((VIRTMEM_SUCCESS, Some (kaddr k)), ?vm1)" using k(2) by simp
    show "virtmem_kernel_map_virt_to_phys pd (kaddr k) ?vm1 = Some (VIRTMEM_SUCCESS, ?vm2)" using mp by simp
    show "U - {pd, q} - {r} \<subseteq> U" by auto
    show "pm_supply (U - {pd, q} - {r}) n ?vm2" by (rule sup5)
    show "space_ok pd (U - {pd, q} - {r}) ?vm2" by (rule space_ok_mono[OF so2]) auto
    show "kernel_only ?vm2 pd" by (rule ko)
    show "vm_ext (frame_of ` U) (km_vm s) ?vm2" by (rule vm_ext_trans[OF e3 vm_ext_mono[OF v2(1)]]) simp
    show "slabs_ok ?S5 (?H1(Slabs_partial ac := [kaddr ki], Slabs_partial mc := [kaddr kj]))" by (rule sl5)
    show "card (kfree (km_vm s)) = card (kfree ?vm2) + 6" using p(9) r(5) c2 unfolding i(2) by simp
    show "sym_kernel_pts ?vm2 = sym_kernel_pts (km_vm s)" using p(10) r(6) v2(3) unfolding i(2) by simp
  qed (use p(1,4) kc in simp_all)
qed

end
