(* ===== verification/Fixed.thy ===== *)
theory Fixed
  imports Address_Space
begin

text \<open>
  What mapping and copying leave alone, whatever their result: the allocator in use, the static page directory, the limit of the
  image, the register with the directory and the addresses that the linker chose.
\<close>

definition fixed_part :: "vm_state \<Rightarrow> physmem_ptr \<times> (nat \<Rightarrow> i686_pde) \<times> virtaddr_t \<times> physaddr_t \<times> virtaddr_t \<times> virtaddr_t \<times> virtaddr_t" where
  "fixed_part s = (localmem s, kernel_pd s, identitymap_limit s, cr3 s, sym_kernel_pts s, sym_kernel_pd s, sym_ebss s)"

lemma fixed_part_update [simp]:
  "fixed_part (s\<lparr>vm_pm := x\<rparr>) = fixed_part s" "fixed_part (s\<lparr>kernel_flatpt := t\<rparr>) = fixed_part s" "fixed_part (s\<lparr>pmem := m\<rparr>) = fixed_part s"
  by (simp_all add: fixed_part_def)

named_theorems fixed \<open>operations that keep the fixed part\<close>

lemma flatpt_write_fixed [fixed]: "flatpt_write i p s = Some s' \<Longrightarrow> fixed_part s' = fixed_part s"
  by (auto simp: flatpt_write_def split: if_splits)

lemma vm_st_fixed [fixed]: "vm_st a v s = Some s' \<Longrightarrow> fixed_part s' = fixed_part s"
  by (auto simp: vm_st_def)

lemma vm_st32_fixed [fixed]: "vm_st32 a v s = Some s' \<Longrightarrow> fixed_part s' = fixed_part s"
  by (auto simp: vm_st32_def)

lemma modify_fixed [fixed]:
  "pte_modify a f s = Some s' \<Longrightarrow> fixed_part s' = fixed_part s" "pde_modify a g s = Some s' \<Longrightarrow> fixed_part s' = fixed_part s"
  by (auto simp: pte_modify_def pde_modify_def bind_eq_Some_conv fixed)

lemma local_page_alloc_fixed [fixed]: "local_page_alloc s = Some (r, s') \<Longrightarrow> fixed_part s' = fixed_part s"
  by (auto simp: local_page_alloc_def bind_eq_Some_conv)

lemma memset_fixed [fixed]: "memset vm_st d c n s = Some (r, s') \<Longrightarrow> fixed_part s' = fixed_part s"
proof -
  have "memset_loop vm_st k d c s = Some s' \<Longrightarrow> fixed_part s' = fixed_part s" for k d c s
    by (induction k arbitrary: d s) (auto simp: bind_eq_Some_conv dest: vm_st_fixed)
  then show "memset vm_st d c n s = Some (r, s') \<Longrightarrow> fixed_part s' = fixed_part s" by (auto simp: memset_def bind_eq_Some_conv)
qed

lemma memcpy_fixed [fixed]: "memcpy vm_ld vm_st d a n s = Some (r, s') \<Longrightarrow> fixed_part s' = fixed_part s"
proof -
  have "memcpy_loop vm_ld vm_st k d a s = Some s' \<Longrightarrow> fixed_part s' = fixed_part s" for k d a s
    by (induction k arbitrary: d a s) (auto simp: bind_eq_Some_conv dest: vm_st_fixed)
  then show "memcpy vm_ld vm_st d a n s = Some (r, s') \<Longrightarrow> fixed_part s' = fixed_part s" by (auto simp: memcpy_def bind_eq_Some_conv)
qed

lemma kernel_alloc_fixed [fixed]: "i686_kernel_alloc n s = Some (r, s') \<Longrightarrow> fixed_part s' = fixed_part s"
  by (auto simp: i686_kernel_alloc_def bind_eq_Some_conv split: option.splits if_splits dest: fixed)

lemma kernel_map_fixed [fixed]: "i686_kernel_map_virt_to_phys p a s = Some (r, s') \<Longrightarrow> fixed_part s' = fixed_part s"
  by (auto simp: i686_kernel_map_virt_to_phys_def bind_eq_Some_conv split: if_splits dest: fixed)

lemma initialize_pde_fixed [fixed]: "i686_initialize_pde pde s = Some (r, s') \<Longrightarrow> fixed_part s' = fixed_part s"
  by (auto simp: i686_initialize_pde_def i686_kernel_free_def bind_eq_Some_conv split: if_splits dest!: fixed)

lemma pagewalk_init_fixed [fixed]: "i686_pagewalk_init pd s = Some (r, s') \<Longrightarrow> fixed_part s' = fixed_part s"
  by (auto simp: i686_pagewalk_init_def i686_kernel_free_def bind_eq_Some_conv split: if_splits dest!: fixed)

lemma pagewalk_done_fixed [simp]: "i686_pagewalk_done c s = s"
  by (simp add: i686_pagewalk_done_def i686_kernel_free_def)

lemma pagewalk_fixed [fixed]: "i686_pagewalk c a s = Some (l, c', s') \<Longrightarrow> fixed_part s' = fixed_part s"
  by (auto simp: i686_pagewalk_def Let_def bind_eq_Some_conv split: if_splits dest!: fixed)

lemma user_get_page_fixed [fixed]: "i686_user_get_page pd a s = Some (r, s') \<Longrightarrow> fixed_part s' = fixed_part s"
  by (auto simp: i686_user_get_page_def bind_eq_Some_conv split: option.splits dest!: fixed)

lemma user_map_page_fixed [fixed]: "i686_user_map_page pd a p s = Some (r, s') \<Longrightarrow> fixed_part s' = fixed_part s"
  by (auto simp: i686_user_map_page_def bind_eq_Some_conv split: option.splits dest!: fixed)

lemma user_set_page_flags_fixed [fixed]: "i686_user_set_page_flags pd a f s = Some (r, s') \<Longrightarrow> fixed_part s' = fixed_part s"
  by (auto simp: i686_user_set_page_flags_def bind_eq_Some_conv dest!: fixed)

text \<open>The loops of the copies are partial functions; what holds for every result follows from their fixed point.\<close>

lemma copy_partial_fixed [fixed]:
  "copy_partial_page_from_user d a w n s = Some (r, s') \<Longrightarrow> fixed_part s' = fixed_part s"
  "copy_partial_page_to_user d a w n s = Some (r, s') \<Longrightarrow> fixed_part s' = fixed_part s"
  by (auto simp: copy_partial_page_from_user_def copy_partial_page_to_user_def Let_def bind_eq_Some_conv dest!: fixed)

lemma copy_from_user_loop_fixed [fixed]: "copy_from_user_loop c w d a n p s = Some s' \<Longrightarrow> fixed_part s' = fixed_part s"
proof (erule copy_from_user_loop.raw_induct[where P = "\<lambda>_ _ _ _ _ _ s s'. fixed_part s' = fixed_part s", rotated], goal_cases)
  case (1 loop c w d a n p s r)
  note IH = 1(1)
  show ?case
  proof (cases "n > 0")
    case True
    then obtain x1 s1 q s2 k s3 v w' e where "i686_user_get_page c a s = Some (x1, s1)" "i686_kernel_map_virt_to_phys q w' s1 = Some (e, s2)"
      "copy_partial_page_from_user d a w' n s2 = Some (k, s3)" and l: "loop c w (d + k) (a + k) (n - k) v s3 = Some r"
      using 1(2) by (auto simp: Let_def bind_eq_Some_conv)
    then show ?thesis using IH[OF l] by (auto dest!: fixed)
  qed (use 1(2) in simp)
qed

lemma copy_to_user_loop_fixed [fixed]: "copy_to_user_loop c w d a n p s = Some s' \<Longrightarrow> fixed_part s' = fixed_part s"
proof (erule copy_to_user_loop.raw_induct[where P = "\<lambda>_ _ _ _ _ _ s s'. fixed_part s' = fixed_part s", rotated], goal_cases)
  case (1 loop c w d a n p s r)
  note IH = 1(1)
  show ?case
  proof (cases "n > 0")
    case True
    then obtain x1 s1 q s2 k s3 v w' e where "i686_user_get_page c d s = Some (x1, s1)" "i686_kernel_map_virt_to_phys q w' s1 = Some (e, s2)"
      "copy_partial_page_to_user d a w' n s2 = Some (k, s3)" and l: "loop c w (d + k) (a + k) (n - k) v s3 = Some r"
      using 1(2) by (auto simp: Let_def bind_eq_Some_conv)
    then show ?thesis using IH[OF l] by (auto dest!: fixed)
  qed (use 1(2) in simp)
qed

lemma virtmem_copy_fixed [fixed]:
  "virtmem_copy_kernel_to_user c d a n s = Some (r, s') \<Longrightarrow> fixed_part s' = fixed_part s"
  "virtmem_copy_user_to_kernel b c a n s = Some (r, s') \<Longrightarrow> fixed_part s' = fixed_part s"
  by (auto simp: virtmem_copy_kernel_to_user_def virtmem_copy_user_to_kernel_def common_virtmem_copy_kernel_to_user_def
      common_virtmem_copy_user_to_kernel_def copy_alt_user_from_kernel_def copy_alt_user_to_kernel_def Let_def i686_kernel_free_def
      bind_eq_Some_conv split: option.splits dest!: fixed)

lemma map_loops_fixed [fixed]:
  "map_exact_loop k pd a p z f s = Some s' \<Longrightarrow> fixed_part s' = fixed_part s"
  "map_allocate_loop k pd a z f q s = Some (r, s') \<Longrightarrow> fixed_part s' = fixed_part s"
proof -
  show "map_exact_loop k pd a p z f s = Some s' \<Longrightarrow> fixed_part s' = fixed_part s"
    by (induction k arbitrary: a p s) (auto simp: bind_eq_Some_conv dest!: fixed)
  show "map_allocate_loop k pd a z f q s = Some (r, s') \<Longrightarrow> fixed_part s' = fixed_part s"
    by (induction k arbitrary: a q s) (auto simp: Let_def bind_eq_Some_conv split: if_splits option.splits dest!: fixed)
qed

lemma memory_region_map_fixed [fixed]: "memory_region_map a m p s = Some (r, s') \<Longrightarrow> fixed_part (km_vm s') = fixed_part (km_vm s)"
  by (auto simp: memory_region_map_def common_memory_region_map_def memory_region_map_allocate_def memory_region_map_exact_def Let_def
      bind_eq_Some_conv split: if_splits option.splits dest!: fixed)

end
