(* ===== verification/Usertest.thy ===== *)
theory Usertest
  imports Spaces Fixed
begin

text \<open>
  The second test of \<^verbatim>\<open>i686_kmain\<close>: two pages of a new address space are mapped, written and read through the copies between
  address spaces.  \<open>test_region_maps\<close> is for the mapping, \<open>user_copies\<close> for the copies and \<open>kmain_test_user_ok\<close> for the whole.
\<close>

section \<open>The pages of the test\<close>

text \<open>The 8192 bytes from \<open>0x1000000\<close> on are the frames \<open>f\<close> and \<open>g\<close>, for the user to read and write.\<close>

definition two_pages :: "(physaddr_t \<Rightarrow> u8) \<Rightarrow> physaddr_t \<Rightarrow> 20 word \<Rightarrow> 20 word \<Rightarrow> bool" where
  "two_pages m pd f g \<longleftrightarrow> (\<forall>x. 0x1000000 \<le> unat x \<and> unat x < 0x1002000 \<longrightarrow>
     pd_present (user_pde m pd x) \<and> pd_user (user_pde m pd x) \<and> pd_writable (user_pde m pd x) \<and>
     pt_present (user_pte m pd x) \<and> pt_user (user_pte m pd x) \<and> pt_writable (user_pte m pd x) \<and>
     pt_phys_addr (user_pte m pd x) = (if unat x < 0x1001000 then f else g))"

lemma test_region_maps:
  fixes s :: "'y as_state"
  assumes as: "as \<noteq> 0" "as_obj (km_ext s) as = \<lparr>as_v = Some I686_as_vfuncs, as_pd = pd\<rparr>" and mr: "mr_obj (km_ext s) mr = test_region"
    and sp: "space_ok pd U (km_vm s)" and sup: "pm_supply U k (km_vm s)" "4 \<le> k" and kf: "18 \<le> card (kfree (km_vm s))"
    and ko: "kernel_only (km_vm s) pd" "frame_of pd \<notin> kernel_tables (km_vm s)"
  obtains vm' f g U' k' where "memory_region_map as mr 0 s = Some (AS_SUCCESS, s\<lparr>km_vm := vm'\<rparr>)"
    "U' \<subseteq> U" "pm_supply U' k' vm'" "k \<le> k' + 4" "space_ok pd U' vm'" "two_pages (pmem vm') pd f g" "f \<noteq> g"
    "{f, g} \<subseteq> frame_of ` (U - U')" "{f, g} \<inter> insert (frame_of pd) (tables (pmem vm') pd) = {}"
    "tables (pmem vm') pd \<subseteq> kernel_tables (km_vm s) \<union> frame_of ` (U - U')"
    "vm_ext (insert (frame_of pd) (kernel_tables (km_vm s) \<union> frame_of ` (U - U'))) (km_vm s) vm'"
    "card (kfree (km_vm s)) \<le> card (kfree vm') + 18" "\<forall>va. highstart \<le> va \<longrightarrow> user_pde (pmem vm') pd va = shared_pde (km_vm s) (va div 4194304 - 768)"
proof -
  note fact = that
  note wf = kernel_only_wf[OF ko(1) space_okD(2)[OF sp] ko(2)]
  let ?e = "user_pte (pmem (km_vm s)) pd"
  have low: "x < highstart" if "unat x < 0x1002000" for x :: u32 using that by (simp add: highstart_def word_less_nat_alt)
  have z: "pt_phys_addr (word_to_pte 0) = 0" by (simp add: word_to_pte_def)
  have um: "unmapped_region 0x1000000 2 ?e" using wf(3)[OF low] by (simp add: unmapped_region_def z)
  have o: "as_pd (as_obj (km_ext s) as) = pd" "as_v (as_obj (km_ext s) as) \<noteq> None" using as(2) by simp_all
  have r: "mr_start (mr_obj (km_ext s) mr) = 0x1000000" "unat (mr_length (mr_obj (km_ext s) mr)) = 0x2000" "mr_writable (mr_obj (km_ext s) mr)"
    "good_region (mr_obj (km_ext s) mr)" by (simp_all add: mr test_region_def good_region_def)
  have x: "unat va \<in> extent (mr_obj (km_ext s) mr) \<longleftrightarrow> 0x1000000 \<le> unat va \<and> unat va < 0x1002000" for va :: u32 by (simp add: extent_def r(1,2))
  have n: "2 = unat (mr_length (mr_obj (km_ext s) mr)) div 4096" "2 * 2 \<le> k" "9 * 2 \<le> card (kfree (km_vm s))" using sup(2) kf by (simp_all add: r(2))
  obtain vm' P U' k' where m: "memory_region_map as mr 0 s = Some (AS_SUCCESS, s\<lparr>km_vm := vm'\<rparr>)"
    "length P = 2" "U' \<subseteq> U" "pages_taken pd P U U' vm'" "pm_supply U' k' vm'" "k \<le> k' + 2 * 2" "space_ok pd U' vm'" "space_grows pd (U - U') (km_vm s) vm'"
    and e: "user_pte (pmem vm') pd = (\<lambda>va. if unat va \<in> extent (mr_obj (km_ext s) mr)
       then (?e va)\<lparr>pt_phys_addr := frame_of (P ! ((unat va - unat (mr_start (mr_obj (km_ext s) mr))) div 4096)),
         pt_writable := mr_writable (mr_obj (km_ext s) mr), pt_user := True, pt_present := True\<rparr>
       else ?e va)"
    and pr: "\<forall>va. unat va \<in> extent (mr_obj (km_ext s) mr) \<longrightarrow> pd_present (user_pde (pmem vm') pd va)"
    and c: "card (kfree (km_vm s)) \<le> card (kfree vm') + 9 * 2"
    by (rule region_map_allocate[of as s mr U k 2, unfolded o(1), OF as(1) o(2) r(4) sp sup(1) n um[folded r(1)]])
  obtain a b where P: "P = [a, b]" using m(2) by (auto simp: numeral_2_eq_2 length_Suc_conv)
  have ab: "a \<noteq> b" "a \<in> U - U'" "b \<in> U - U'" "a mod 4096 = 0" "b mod 4096 = 0" "frame_of a \<notin> tables (pmem vm') pd" "frame_of b \<notin> tables (pmem vm') pd"
    using m(4) by (auto simp: pages_taken_def P)
  have tp: "two_pages (pmem vm') pd (frame_of a) (frame_of b)"
    unfolding two_pages_def
  proof (intro allI impI)
    fix va :: u32 assume va: "0x1000000 \<le> unat va \<and> unat va < 0x1002000"
    have "(unat va - 0x1000000) div 4096 = (if unat va < 0x1001000 then 0 else 1)" using va by (auto intro!: div_nat_eqI)
    then have ph: "frame_of (P ! ((unat va - 0x1000000) div 4096)) = (if unat va < 0x1001000 then frame_of a else frame_of b)" by (simp add: P)
    have p: "pd_present (user_pde (pmem vm') pd va)" using pr va x by blast
    have "user_pde (pmem (km_vm s)) pd va = word_to_pde 0" using ko(1) low[of va] va by (simp add: kernel_only_def)
    moreover have "user_pde (pmem vm') pd va = user_pde (pmem (km_vm s)) pd va \<or> user_pde (pmem vm') pd va \<in> table_pde ` frame_of ` (U - U')"
      using m(8) by (simp add: space_grows_def)
    ultimately have "pd_user (user_pde (pmem vm') pd va)" "pd_writable (user_pde (pmem vm') pd va)" using p by (auto simp: table_pde_def)
    then show "pd_present (user_pde (pmem vm') pd va) \<and> pd_user (user_pde (pmem vm') pd va) \<and> pd_writable (user_pde (pmem vm') pd va) \<and>
      pt_present (user_pte (pmem vm') pd va) \<and> pt_user (user_pte (pmem vm') pd va) \<and> pt_writable (user_pte (pmem vm') pd va) \<and>
      pt_phys_addr (user_pte (pmem vm') pd va) = (if unat va < 0x1001000 then frame_of a else frame_of b)"
      using p va x[of va] ph by (simp add: e r(1,3))
  qed
  have fr: "frame_of a \<noteq> frame_of pd" "frame_of b \<noteq> frame_of pd" using space_okD(3)[OF sp] ab(2,3) by auto
  have tb: "tables (pmem vm') pd \<subseteq> kernel_tables (km_vm s) \<union> frame_of ` (U - U')" using m(8) wf(1) unfolding space_grows_def by blast
  have ext: "vm_ext (insert (frame_of pd) (kernel_tables (km_vm s) \<union> frame_of ` (U - U'))) (km_vm s) vm'"
    by (rule vm_ext_mono[where F = "insert (frame_of pd) (tables (pmem (km_vm s)) pd \<union> frame_of ` (U - U'))"])
      (use m(8) wf(1) in \<open>auto simp: space_grows_def\<close>)
  have "user_pde (pmem vm') pd va = shared_pde (km_vm s) (va div 4194304 - 768)" if "highstart \<le> va" for va
    using m(8) ko(1) that by (simp add: space_grows_def kernel_only_def shared_pde_parts)
  then show thesis using fact[OF m(1,3,5) _ m(7) tp _ _ _ tb ext] m(6) c fr ab frame_of_inj[OF ab(4,5)] by auto
qed

text \<open>The cells of the test string in user space: four on the first page, the others on the second.\<close>

lemma two_pages_loc:
  assumes "two_pages m pd f g" "0x1000000 \<le> unat x" "unat x < 0x1002000"
  shows "user_loc m pd x = frame_addr (if unat x < 0x1001000 then f else g) + x mod 4096"
  using assms by (simp add: two_pages_def user_loc_def)

lemma two_pages_cell_frame:
  assumes "two_pages m pd f g" "0x1000000 \<le> unat x" "unat x < 0x1002000"
  shows "frame_of (user_loc m pd x) = (if unat x < 0x1001000 then f else g)"
proof -
  have "x mod 4096 < 4096" by (simp add: word_less_nat_alt unat_mod_distrib)
  then show ?thesis unfolding two_pages_loc[OF assms] by (rule frame_byte_parts(1))
qed

lemma two_pages_inj:
  assumes t: "two_pages m pd f g" "f \<noteq> g" and x: "0x1000000 \<le> unat x" "unat x < 0x1002000" and y: "0x1000000 \<le> unat y" "unat y < 0x1002000"
    and e: "user_loc m pd x = user_loc m pd y"
  shows "x = y"
proof -
  have lt: "z mod 4096 < 4096" for z :: u32 by (simp add: word_less_nat_alt unat_mod_distrib)
  have "frame_of (user_loc m pd x) = frame_of (user_loc m pd y)" by (simp only: e)
  then have p: "unat x < 0x1001000 \<longleftrightarrow> unat y < 0x1001000"
    using two_pages_cell_frame[OF t(1) x] two_pages_cell_frame[OF t(1) y] t(2) by (simp split: if_splits)
  have "user_loc m pd x mod 4096 = user_loc m pd y mod 4096" by (simp only: e)
  then have "x mod 4096 = y mod 4096"
    unfolding two_pages_loc[OF t(1) x] two_pages_loc[OF t(1) y] by (simp only: frame_byte_parts(2)[OF lt])
  then have "unat (x mod 4096) = unat (y mod 4096)" by (simp only:)
  then have "unat x mod 4096 = unat y mod 4096" by (simp add: unat_mod_distrib)
  moreover have "unat x div 4096 = unat y div 4096"
  proof (cases "unat x < 0x1001000")
    case True
    then have "unat x div 4096 = 0x1000" "unat y div 4096 = 0x1000" using x y p by (auto intro!: div_nat_eqI)
    then show ?thesis by simp
  next
    case False
    then have "unat x div 4096 = 0x1001" "unat y div 4096 = 0x1001" using x y p by (auto intro!: div_nat_eqI)
    then show ?thesis by simp
  qed
  ultimately have "unat x = unat y" by (metis div_mult_mod_eq)
  then show ?thesis by (simp only: word_unat_eq_iff)
qed

section \<open>The copies of the test\<close>

abbreviation user_message :: string where "user_message \<equiv> ''This is a test string to be copied to userspace.''"

text \<open>The two local arrays of \<^verbatim>\<open>i686_kmain\<close>: the cells \<open>bl\<close> of the buffer and the two cells of the instruction, in the frames \<open>B\<close>.\<close>

definition test_buffers :: "kaddrs \<Rightarrow> (nat \<Rightarrow> physaddr_t) \<Rightarrow> (nat \<Rightarrow> physaddr_t) \<Rightarrow> 20 word set \<Rightarrow> vm_state \<Rightarrow> bool" where
  "test_buffers ka bl ol B vm \<longleftrightarrow>
     (\<forall>i<49. kvirt_loc vm (a_testcpybuf ka + of_nat i) = Some (bl i) \<and> frame_of (bl i) \<in> B) \<and> inj_on bl {..<49} \<and>
     (\<forall>i<2. kvirt_loc vm (a_opcodes ka + of_nat i) = Some (ol i) \<and> frame_of (ol i) \<in> B \<and> ol i \<notin> bl ` {..<49}) \<and> ol 0 \<noteq> ol 1"

lemma test_buffers_ext: "test_buffers ka bl ol B vm \<Longrightarrow> vm_ext F vm vm' \<Longrightarrow> test_buffers ka bl ol B vm'"
  by (simp add: test_buffers_def vm_ext_loc)

lemma copied_outside: "copied n dl sl m m' \<Longrightarrow> frame_of ` dl ` {..<n} \<subseteq> F \<Longrightarrow> same_outside F m m'"
  by (fastforce simp: copied_def same_outside_def)

text \<open>A space with the two pages, with all its tables away from the frames \<open>I\<close> of the kernel.\<close>

definition pages_ok :: "physaddr_t \<Rightarrow> 20 word \<Rightarrow> 20 word \<Rightarrow> 20 word set \<Rightarrow> vm_state \<Rightarrow> bool" where
  "pages_ok pd f g I vm \<longleftrightarrow> wf_pd (pmem vm) pd \<and> two_pages (pmem vm) pd f g \<and> f \<noteq> g \<and>
     insert (frame_of pd) (tables (pmem vm) pd) \<inter> ({f, g} \<union> I) = {} \<and> {f, g} \<inter> I = {} \<and> local_page_size vm = Some 4096"

lemma pages_ok_ext:
  assumes p: "pages_ok pd f g I vm" and o: "same_outside F (pmem vm) (pmem vm')" "F \<subseteq> {f, g} \<union> I" and ps: "local_page_size vm' = Some 4096"
  shows "pages_ok pd f g I vm'" "user_pde (pmem vm') pd = user_pde (pmem vm) pd" "user_pte (pmem vm') pd = user_pte (pmem vm) pd"
proof -
  have wf: "wf_pd (pmem vm) pd" and d: "F \<inter> insert (frame_of pd) (tables (pmem vm) pd) = {}" using p o(2) by (auto simp: pages_ok_def)
  show d': "user_pde (pmem vm') pd = user_pde (pmem vm) pd"
    by (rule ext, rule user_pde_outside[OF o(1) _ wf_pdD(1)[OF wf]]) (use d in auto)
  show e: "user_pte (pmem vm') pd = user_pte (pmem vm) pd"
    by (rule ext, rule user_pte_outside[OF o(1) _ wf_pdD(1)[OF wf]]) (use d in auto)
  have u: "wf_pd (pmem vm') pd = wf_pd (pmem vm) pd" "tables (pmem vm') pd = tables (pmem vm) pd" "two_pages (pmem vm') pd = two_pages (pmem vm) pd"
    by (simp_all only: wf_pd_def tables_def two_pages_def[abs_def] d' e)
  show "pages_ok pd f g I vm'" unfolding pages_ok_def u using p[unfolded pages_ok_def] ps by iprover
qed

text \<open>A range of the two pages: what the copies need of it.\<close>

lemma pages_range:
  assumes p: "pages_ok pd f g I vm" and r: "0x1000000 \<le> unat va" "unat va + n \<le> 0x1002000"
  shows "\<forall>i<n. (va + of_nat i) div 4096 \<noteq> 0 \<and> pd_present (user_pde (pmem vm) pd (va + of_nat i))"
    "\<forall>i<n. frame_of (user_cells vm pd va i) \<in> {f, g}" "inj_on (user_cells vm pd va) {..<n}" "off_tables vm pd n (user_cells vm pd va)"
proof -
  have t: "two_pages (pmem vm) pd f g" "f \<noteq> g" using p by (simp_all add: pages_ok_def)
  have b: "0x1000000 \<le> unat (va + of_nat i)" "unat (va + of_nat i) < 0x1002000" "unat (va + of_nat i) = unat va + i" if "i < n" for i
  proof -
    have "unat (va + of_nat i) = unat va + i" using that r by (simp add: unat_word_ariths(1) unat_of_nat)
    then show "0x1000000 \<le> unat (va + of_nat i)" "unat (va + of_nat i) < 0x1002000" "unat (va + of_nat i) = unat va + i" using that r by simp_all
  qed
  have "x div 4096 \<noteq> 0" if "0x1000000 \<le> unat x" for x :: u32
  proof -
    have "unat (x div 4096) \<noteq> 0" using that by (simp add: unat_div_distrib)
    then show ?thesis by (metis unsigned_0)
  qed
  then show "\<forall>i<n. (va + of_nat i) div 4096 \<noteq> 0 \<and> pd_present (user_pde (pmem vm) pd (va + of_nat i))"
    using t(1) b by (simp add: two_pages_def)
  show fr: "\<forall>i<n. frame_of (user_cells vm pd va i) \<in> {f, g}" using two_pages_cell_frame[OF t(1) b(1,2)] by (simp add: user_cells_def)
  show "inj_on (user_cells vm pd va) {..<n}"
  proof (rule inj_onI)
    fix i j assume i: "i \<in> {..<n}" "j \<in> {..<n}" and e: "user_cells vm pd va i = user_cells vm pd va j"
    then have "va + of_nat i = va + of_nat j" using two_pages_inj[OF t b(1,2) b(1,2)] by (simp add: user_cells_def)
    then have "unat (va + of_nat i) = unat (va + of_nat j)" by (simp only:)
    then show "i = j" using b(3) i by simp
  qed
  show "off_tables vm pd n (user_cells vm pd va)" using fr p by (fastforce simp: off_tables_def pages_ok_def)
qed

text \<open>A copy to the pages from cells outside, and one from the pages.\<close>

lemma copy_to_pages:
  assumes p: "pages_ok pd f g I vm" and r: "0x1000000 \<le> unat va" "unat va + n \<le> 0x1002000" and kl: "\<forall>i<n. kvirt_loc vm (ka + of_nat i) = Some (kl i) \<and> frame_of (kl i) \<in> I"
    and k: "3 * iterations va n < card (kfree vm)"
  obtains vm' where "virtmem_copy_kernel_to_user pd va ka (of_nat n) vm = Some (VIRTMEM_SUCCESS, vm')"
    "\<forall>i<n. pmem vm' (user_cells vm pd va i) = pmem vm (kl i)" "vm_ext {f, g} vm vm'" "pages_ok pd f g I vm'" "user_cells vm' pd = user_cells vm pd"
    "user_pde (pmem vm') pd = user_pde (pmem vm) pd" "vm_pm vm' = vm_pm vm" "card (kfree vm) \<le> card (kfree vm') + 3 * iterations va n + 1"
    "\<forall>l. l \<notin> user_cells vm pd va ` {..<n} \<longrightarrow> pmem vm' l = pmem vm l"
proof -
  note q = pages_range[OF p r]
  have n: "n < 2 ^ 31" using r by simp
  have sane: "copy_sane pd va ka n kl vm" using p q(1) kl k n by (simp add: copy_sane_def pages_ok_def)
  have "user_cells vm pd va i \<noteq> kl j" if "i < n" "j < n" for i j
  proof -
    have "frame_of (user_cells vm pd va i) \<in> {f, g}" "frame_of (kl j) \<in> I" using q(2) kl that by blast+
    then show ?thesis using p by (auto simp: pages_ok_def)
  qed
  then have "Usercopy.apart n (user_cells vm pd va) kl" using q(3) by (simp add: Usercopy.apart_def)
  from copy_to_user_whole[OF sane this q(4)] obtain vm' where c: "virtmem_copy_kernel_to_user pd va ka (of_nat n) vm = Some (VIRTMEM_SUCCESS, vm')"
    "copied n (user_cells vm pd va) kl (pmem vm) (pmem vm')" "keeps_mapped vm vm'" "card (kfree vm) \<le> card (kfree vm') + 3 * iterations va n + 1"
    "vm_pm vm' = vm_pm vm" "localmem vm' = localmem vm" by blast
  have so: "same_outside {f, g} (pmem vm) (pmem vm')" by (rule copied_outside[OF c(2)]) (use q(2) in auto)
  have ps: "local_page_size vm' = Some 4096" using p c(5,6) by (simp add: pages_ok_def local_page_size_def)
  note ok = pages_ok_ext[OF p so _ ps]
  show thesis
    by (rule that[OF c(1)]) (use c so ok in \<open>simp_all add: copied_def vm_ext_def user_cells_def[abs_def] user_loc_def[abs_def]\<close>)
qed

lemma copy_from_pages:
  assumes p: "pages_ok pd f g I vm" and r: "0x1000000 \<le> unat va" "unat va + n \<le> 0x1002000" and kl: "\<forall>i<n. kvirt_loc vm (ka + of_nat i) = Some (kl i) \<and> frame_of (kl i) \<in> B"
    and inj: "inj_on kl {..<n}" and B: "B \<subseteq> I" and k: "3 * iterations va n < card (kfree vm)"
  obtains vm' where "virtmem_copy_user_to_kernel ka pd va (of_nat n) vm = Some (VIRTMEM_SUCCESS, vm')"
    "\<forall>i<n. pmem vm' (kl i) = pmem vm (user_cells vm pd va i)" "vm_ext B vm vm'" "pages_ok pd f g I vm'" "user_cells vm' pd = user_cells vm pd"
    "user_pde (pmem vm') pd = user_pde (pmem vm) pd" "vm_pm vm' = vm_pm vm" "card (kfree vm) \<le> card (kfree vm') + 3 * iterations va n + 1"
    "\<forall>l. l \<notin> kl ` {..<n} \<longrightarrow> pmem vm' l = pmem vm l"
proof -
  note q = pages_range[OF p r]
  have n: "n < 2 ^ 31" using r by simp
  have sane: "copy_sane pd va ka n kl vm" using p q(1) kl k n by (simp add: copy_sane_def pages_ok_def)
  have "kl j \<noteq> user_cells vm pd va i" if "i < n" "j < n" for i j
  proof -
    have "frame_of (user_cells vm pd va i) \<in> {f, g}" "frame_of (kl j) \<in> I" using q(2) kl B that by blast+
    then show ?thesis using p by (auto simp: pages_ok_def)
  qed
  then have ap: "Usercopy.apart n kl (user_cells vm pd va)" using inj by (simp add: Usercopy.apart_def)
  have "off_tables vm pd n kl" using kl B p by (fastforce simp: off_tables_def pages_ok_def)
  from copy_from_user_whole[OF sane ap this] obtain vm' where c: "virtmem_copy_user_to_kernel ka pd va (of_nat n) vm = Some (VIRTMEM_SUCCESS, vm')"
    "copied n kl (user_cells vm pd va) (pmem vm) (pmem vm')" "keeps_mapped vm vm'" "card (kfree vm) \<le> card (kfree vm') + 3 * iterations va n + 1"
    "vm_pm vm' = vm_pm vm" "localmem vm' = localmem vm" by blast
  have so: "same_outside B (pmem vm) (pmem vm')" by (rule copied_outside[OF c(2)]) (use kl in auto)
  have ps: "local_page_size vm' = Some 4096" using p c(5,6) by (simp add: pages_ok_def local_page_size_def)
  have "B \<subseteq> {f, g} \<union> I" using B by auto
  note ok = pages_ok_ext[OF p so this ps]
  show thesis
    by (rule that[OF c(1)]) (use c so ok in \<open>simp_all add: copied_def vm_ext_def user_cells_def[abs_def] user_loc_def[abs_def]\<close>)
qed

text \<open>The instruction is stored, and the string goes to user space and back.\<close>

lemma message_cells: "text_in G vm t bs \<Longrightarrow> \<exists>tl. \<forall>i<Suc (length bs). kvirt_loc vm (t + of_nat i) = Some (tl i) \<and> frame_of (tl i) \<in> G \<and> pmem vm (tl i) = (bs @ [0]) ! i"
proof -
  assume t: "text_in G vm t bs"
  have "\<exists>l. kvirt_loc vm (t + of_nat i) = Some l \<and> frame_of l \<in> G \<and> pmem vm l = (bs @ [0]) ! i" if "i < Suc (length bs)" for i
  proof -
    have i: "i \<le> length bs" using that by simp
    obtain l where l: "kvirt_loc vm (t + of_nat i) = Some l" "frame_of l \<in> G" by (rule text_in_loc[OF t i])
    have "vm_ld (t + of_nat i) vm = Some ((bs @ [0]) ! i)"
      using t i unfolding text_in_def cstr_nth by (cases "i = length bs") (auto simp: nth_append)
    then show ?thesis using l by (auto simp: vm_ld_def)
  qed
  then show ?thesis by (intro exI[of _ "\<lambda>i. SOME l. kvirt_loc vm (t + of_nat i) = Some l \<and> frame_of l \<in> G \<and> pmem vm l = (bs @ [0]) ! i"] allI impI)
    (rule someI_ex, blast)
qed

lemma text_inI:
  assumes "\<forall>i<Suc (length bs). kvirt_loc vm (a + of_nat i) = Some (al i) \<and> frame_of (al i) \<in> B \<and> pmem vm (al i) = (bs @ [0]) ! i" "0 \<notin> set bs"
  shows "text_in B vm a bs"
proof -
  have "vm_ld (a + of_nat i) vm = Some ((bs @ [0]) ! i)" if "i < Suc (length bs)" for i using assms(1) that by (simp add: vm_ld_def)
  from this[of "length bs"] this show ?thesis using assms unfolding text_in_def cstr_nth
    by (auto simp: nth_append less_Suc_eq_le[symmetric] in_set_conv_nth)
qed

lemma user_message_bytes: "length (c_bytes user_message) = 48" "0 \<notin> set (c_bytes user_message)"
  by (simp_all add: c_bytes_def)

lemma iterations_test: "iterations 0x1000FFC 49 = 2" "iterations 0x1000000 2 = 1"
  by (simp_all add: iterations_def)

lemma user_string_roundtrip:
  assumes t: "text_in G vm (lit env user_message) (c_bytes user_message)" and b: "test_buffers ka bl ol B vm" and p: "pages_ok pd f g (G \<union> B) vm"
    and d: "B \<inter> G = {}" and k: "14 \<le> card (kfree vm)"
  obtains vm3 vm4 vm5 vm6 where "vm_st (a_opcodes ka) 0xEB vm = Some vm3" "vm_st (a_opcodes ka + 1) 0xFE vm3 = Some vm4"
    "strlen vm_ld (lit env user_message) vm4 = Some 48"
    "virtmem_copy_kernel_to_user pd 0x1000FFC (lit env user_message) 49 vm4 = Some (VIRTMEM_SUCCESS, vm5)"
    "virtmem_copy_user_to_kernel (a_testcpybuf ka) pd 0x1000FFC 49 vm5 = Some (VIRTMEM_SUCCESS, vm6)"
    "text_in B vm6 (a_testcpybuf ka) (c_bytes user_message)" "pmem vm6 (ol 0) = 0xEB" "pmem vm6 (ol 1) = 0xFE"
    "vm_ext ({f, g} \<union> B) vm vm6" "pages_ok pd f g (G \<union> B) vm6" "user_cells vm6 pd = user_cells vm pd" "user_pde (pmem vm6) pd = user_pde (pmem vm) pd"
    "vm_pm vm6 = vm_pm vm" "card (kfree vm) \<le> card (kfree vm6) + 14" "\<forall>i<49. pmem vm6 (user_cells vm6 pd 0x1000FFC i) = (c_bytes user_message @ [0]) ! i"
proof -
  note fact = that
  have o: "kvirt_loc vm (a_opcodes ka) = Some (ol 0)" "kvirt_loc vm (a_opcodes ka + 1) = Some (ol 1)" "frame_of (ol 0) \<in> B" "frame_of (ol 1) \<in> B"
    "ol 0 \<notin> bl ` {..<49}" "ol 1 \<notin> bl ` {..<49}" "ol 0 \<noteq> ol 1"
    using b spec[of "\<lambda>i. i < 2 \<longrightarrow> kvirt_loc vm (a_opcodes ka + of_nat i) = Some (ol i) \<and> frame_of (ol i) \<in> B \<and> ol i \<notin> bl ` {..<49}" 0]
      spec[of "\<lambda>i. i < 2 \<longrightarrow> kvirt_loc vm (a_opcodes ka + of_nat i) = Some (ol i) \<and> frame_of (ol i) \<in> B \<and> ol i \<notin> bl ` {..<49}" 1]
    by (simp_all add: test_buffers_def)
  let ?vm3 = "vm\<lparr>pmem := (pmem vm)(ol 0 := 0xEB)\<rparr>"
  let ?vm4 = "vm\<lparr>pmem := (pmem vm)(ol 0 := 0xEB, ol 1 := 0xFE)\<rparr>"
  have st: "vm_st (a_opcodes ka) 0xEB vm = Some ?vm3" "vm_st (a_opcodes ka + 1) 0xFE ?vm3 = Some ?vm4" using o(1,2) by (simp_all add: vm_st_def)
  have so4: "same_outside B (pmem vm) (pmem ?vm4)" using o(3,4) by (auto simp: same_outside_def)
  have e4: "vm_ext B vm ?vm4" using vm_ext_pmem[OF so4] by simp
  have t4: "text_in G ?vm4 (lit env user_message) (c_bytes user_message)" by (rule text_in_ext[OF t e4 d])
  have sl: "strlen vm_ld (lit env user_message) ?vm4 = Some 48"
    using strlen_cstr[of vm_ld ?vm4 "lit env user_message" "c_bytes user_message"] t4 unfolding text_in_def user_message_bytes(1) by simp
  have B1: "B \<subseteq> {f, g} \<union> (G \<union> B)" by auto
  have ps: "local_page_size ?vm4 = Some 4096" using p by (simp add: pages_ok_def local_page_size_def)
  note p4 = pages_ok_ext[OF p so4 B1 ps]
  obtain tl where tl: "\<forall>i<49. kvirt_loc ?vm4 (lit env user_message + of_nat i) = Some (tl i) \<and> frame_of (tl i) \<in> G \<and> pmem ?vm4 (tl i) = (c_bytes user_message @ [0]) ! i"
    using message_cells[OF t4] unfolding user_message_bytes(1) by auto
  have tl': "\<forall>i<49. kvirt_loc ?vm4 (lit env user_message + of_nat i) = Some (tl i) \<and> frame_of (tl i) \<in> G \<union> B" using tl by blast
  have r: "0x1000000 \<le> unat (0x1000FFC :: u32)" "unat (0x1000FFC :: u32) + 49 \<le> 0x1002000" by simp_all
  have kf4: "kfree ?vm4 = kfree vm" by (simp add: kfree_def)
  have k4: "3 * iterations 0x1000FFC 49 < card (kfree ?vm4)" unfolding iterations_test kf4 using k by simp
  obtain vm5 where c5: "virtmem_copy_kernel_to_user pd 0x1000FFC (lit env user_message) (of_nat 49) ?vm4 = Some (VIRTMEM_SUCCESS, vm5)"
    "\<forall>i<49. pmem vm5 (user_cells ?vm4 pd 0x1000FFC i) = pmem ?vm4 (tl i)" "vm_ext {f, g} ?vm4 vm5" "pages_ok pd f g (G \<union> B) vm5"
    "user_cells vm5 pd = user_cells ?vm4 pd" "user_pde (pmem vm5) pd = user_pde (pmem ?vm4) pd" "vm_pm vm5 = vm_pm ?vm4"
    "card (kfree ?vm4) \<le> card (kfree vm5) + 3 * iterations 0x1000FFC 49 + 1" "\<forall>l. l \<notin> user_cells ?vm4 pd 0x1000FFC ` {..<49} \<longrightarrow> pmem vm5 l = pmem ?vm4 l"
    by (rule copy_to_pages[OF p4(1) r tl' k4])
  have b5: "test_buffers ka bl ol B vm5" by (rule test_buffers_ext[OF test_buffers_ext[OF b e4] c5(3)])
  then have bl5: "\<forall>i<49. kvirt_loc vm5 (a_testcpybuf ka + of_nat i) = Some (bl i) \<and> frame_of (bl i) \<in> B" "inj_on bl {..<49}" by (simp_all add: test_buffers_def)
  have k5: "3 * iterations 0x1000FFC 49 < card (kfree vm5)" using k c5(8) unfolding iterations_test kf4 by simp
  have BI: "B \<subseteq> G \<union> B" by auto
  obtain vm6 where c6: "virtmem_copy_user_to_kernel (a_testcpybuf ka) pd 0x1000FFC (of_nat 49) vm5 = Some (VIRTMEM_SUCCESS, vm6)"
    "\<forall>i<49. pmem vm6 (bl i) = pmem vm5 (user_cells vm5 pd 0x1000FFC i)" "vm_ext B vm5 vm6" "pages_ok pd f g (G \<union> B) vm6"
    "user_cells vm6 pd = user_cells vm5 pd" "user_pde (pmem vm6) pd = user_pde (pmem vm5) pd" "vm_pm vm6 = vm_pm vm5"
    "card (kfree vm5) \<le> card (kfree vm6) + 3 * iterations 0x1000FFC 49 + 1" "\<forall>l. l \<notin> bl ` {..<49} \<longrightarrow> pmem vm6 l = pmem vm5 l"
    by (rule copy_from_pages[OF c5(4) r bl5 BI k5])
  have cells: "user_cells vm6 pd = user_cells vm pd" unfolding c6(5) c5(5) using p4(2,3) by (simp add: user_cells_def[abs_def] user_loc_def[abs_def])
  have fg: "frame_of (user_cells ?vm4 pd 0x1000FFC i) \<in> {f, g}" if "i < 49" for i using pages_range(2)[OF p4(1) r] that by blast
  have ub: "user_cells ?vm4 pd 0x1000FFC i \<notin> bl ` {..<49}" if "i < 49" for i
  proof
    assume "user_cells ?vm4 pd 0x1000FFC i \<in> bl ` {..<49}"
    then have "frame_of (user_cells ?vm4 pd 0x1000FFC i) \<in> B" using bl5(1) by auto
    then show False using fg[OF that] p by (auto simp: pages_ok_def)
  qed
  have ou: "ol j \<notin> user_cells ?vm4 pd 0x1000FFC ` {..<49}" if "frame_of (ol j) \<in> B" for j
  proof
    assume "ol j \<in> user_cells ?vm4 pd 0x1000FFC ` {..<49}"
    then obtain i where "i < 49" "ol j = user_cells ?vm4 pd 0x1000FFC i" by auto
    then have "frame_of (ol j) \<in> {f, g}" using fg[of i] by simp
    then show False using that p by (auto simp: pages_ok_def)
  qed
  have "text_in B vm6 (a_testcpybuf ka) (c_bytes user_message)"
    by (rule text_inI[where al = bl], unfold user_message_bytes(1))
      (use bl5(1) vm_ext_loc[OF c6(3)] c6(2) c5(2,5) tl user_message_bytes(2) in auto)
  moreover have "pmem vm6 (ol 0) = 0xEB" "pmem vm6 (ol 1) = 0xFE" using c6(9) c5(9) o ou by simp_all
  moreover have "vm_ext ({f, g} \<union> B) vm vm6"
    by (rule vm_ext_trans[OF vm_ext_mono[OF e4] vm_ext_trans[OF vm_ext_mono[OF c5(3)] vm_ext_mono[OF c6(3)]]]) auto
  moreover have "\<forall>i<49. pmem vm6 (user_cells vm6 pd 0x1000FFC i) = (c_bytes user_message @ [0]) ! i"
    unfolding c6(5) c5(5) using c6(9) ub c5(2) tl by simp
  moreover have "user_pde (pmem vm6) pd = user_pde (pmem vm) pd" "vm_pm vm6 = vm_pm vm" unfolding c6(6,7) c5(6,7) p4(2) by simp_all
  moreover have "card (kfree vm) \<le> card (kfree vm6) + 14" using c5(8) c6(8) unfolding iterations_test kf4 by simp
  ultimately show thesis using fact[OF st sl, of vm5 vm6] c5(1) c6(1,4) cells by simp
qed

definition user_test_literals :: "string set" where
  "user_test_literals = {user_message, ''testcpybuf contains '' @ [CHR 0x27] @ ''%s'' @ [CHR 0x27] @ nl}"

text \<open>What the test prints.\<close>

definition user_test_text :: "u8 list" where
  "user_test_text = c_bytes (''testcpybuf contains '' @ [CHR 0x27] @ user_message @ [CHR 0x27] @ nl)"

lemma user_test_format:
  "format_text str (c_bytes (''testcpybuf contains '' @ [CHR 0x27] @ ''%s'' @ [CHR 0x27] @ nl)) [a] =
     c_bytes (''testcpybuf contains '' @ [CHR 0x27]) @ str a @ c_bytes ([CHR 0x27] @ nl)"
  "format_ok {a} (c_bytes (''testcpybuf contains '' @ [CHR 0x27] @ ''%s'' @ [CHR 0x27] @ nl)) [a]"
  by (simp_all add: c_bytes_def)

lemma user_test_says:
  assumes i: "image_ok env cs ds l0 Ls G (vm_of M)" and L: "user_test_literals \<subseteq> Ls"
    and t: "text_in B (vm_of M) a (c_bytes user_message)" and d: "B \<inter> G = {}"
  obtains m k where "kdebug env (''testcpybuf contains '' @ [CHR 0x27] @ ''%s'' @ [CHR 0x27] @ nl) [a] M = Some ((set_vm ((vm_of M)\<lparr>pmem := m\<rparr>) M)\<lparr>con := k\<rparr>)"
    "printed_on (con M) k user_test_text" "same_outside G (pmem (vm_of M)) m" "image_ok env cs ds l0 Ls G ((vm_of M)\<lparr>pmem := m\<rparr>)"
proof -
  note fact = that
  have lit: "''testcpybuf contains '' @ [CHR 0x27] @ ''%s'' @ [CHR 0x27] @ nl \<in> Ls" using L by (simp add: user_test_literals_def)
  have f: "format_text (\<lambda>_. c_bytes user_message) (c_bytes (''testcpybuf contains '' @ [CHR 0x27] @ ''%s'' @ [CHR 0x27] @ nl)) [a] = user_test_text"
    unfolding user_test_format user_test_text_def by (simp only: c_bytes_append append_assoc)
  have n: "length user_test_text < 256" by (simp add: user_test_text_def)
  show thesis
    by (rule kdebug_says[OF i lit user_test_format(2)[of a], where str = "\<lambda>_. c_bytes user_message" and F = B, unfolded f, OF _ d n])
      (use t in simp, rule fact)
qed

lemma user_copies:
  assumes i: "image_ok env cs ds l0 Ls G (vm_of M)" and L: "user_test_literals \<subseteq> Ls"
    and b: "test_buffers ka bl ol B (vm_of M)" and p: "pages_ok pd f g (G \<union> B) (vm_of M)"
    and d: "B \<inter> G = {}" and k: "18 \<le> card (kfree (vm_of M))"
  obtains vm3 vm4 vm5 vm6 M1 vm8 where "vm_st (a_opcodes ka) 0xEB (vm_of M) = Some vm3" "vm_st (a_opcodes ka + 1) 0xFE vm3 = Some vm4"
    "strlen vm_ld (lit env user_message) vm4 = Some 48"
    "virtmem_copy_kernel_to_user pd 0x1000FFC (lit env user_message) 49 vm4 = Some (VIRTMEM_SUCCESS, vm5)"
    "virtmem_copy_user_to_kernel (a_testcpybuf ka) pd 0x1000FFC 49 vm5 = Some (VIRTMEM_SUCCESS, vm6)"
    "kdebug env (''testcpybuf contains '' @ [CHR 0x27] @ ''%s'' @ [CHR 0x27] @ nl) [a_testcpybuf ka] (set_vm vm6 M) = Some M1"
    "M1 = (set_vm (vm_of M1) M)\<lparr>con := con M1\<rparr>"
    "virtmem_copy_kernel_to_user pd 0x1000000 (a_opcodes ka) 2 (vm_of M1) = Some (VIRTMEM_SUCCESS, vm8)"
    "printed_on (con M) (con M1) user_test_text" "image_ok env cs ds l0 Ls G vm8" "vm_ext ({f, g} \<union> G \<union> B) (vm_of M) vm8" "pages_ok pd f g (G \<union> B) vm8"
    "user_pde (pmem vm8) pd = user_pde (pmem (vm_of M)) pd" "vm_pm vm8 = vm_pm (vm_of M)" "card (kfree (vm_of M)) \<le> card (kfree vm8) + 18"
    "pmem vm8 (user_loc (pmem vm8) pd 0x1000000) = 0xEB" "pmem vm8 (user_loc (pmem vm8) pd 0x1000001) = 0xFE"
    "\<forall>i<49. pmem vm8 (user_loc (pmem vm8) pd (0x1000FFC + of_nat i)) = (c_bytes user_message @ [0]) ! i" "fixed_part vm8 = fixed_part (vm_of M)"
proof -
  note fact = that
  have t: "text_in G (vm_of M) (lit env user_message) (c_bytes user_message)" using i L by (simp add: image_ok_def user_test_literals_def)
  have k14: "14 \<le> card (kfree (vm_of M))" using k by simp
  obtain vm3 vm4 vm5 vm6 where s: "vm_st (a_opcodes ka) 0xEB (vm_of M) = Some vm3" "vm_st (a_opcodes ka + 1) 0xFE vm3 = Some vm4"
    "strlen vm_ld (lit env user_message) vm4 = Some 48"
    "virtmem_copy_kernel_to_user pd 0x1000FFC (lit env user_message) 49 vm4 = Some (VIRTMEM_SUCCESS, vm5)"
    "virtmem_copy_user_to_kernel (a_testcpybuf ka) pd 0x1000FFC 49 vm5 = Some (VIRTMEM_SUCCESS, vm6)"
    and t6: "text_in B vm6 (a_testcpybuf ka) (c_bytes user_message)" "pmem vm6 (ol 0) = 0xEB" "pmem vm6 (ol 1) = 0xFE"
    and e6: "vm_ext ({f, g} \<union> B) (vm_of M) vm6" and p6: "pages_ok pd f g (G \<union> B) vm6"
    and u6: "user_cells vm6 pd = user_cells (vm_of M) pd" "user_pde (pmem vm6) pd = user_pde (pmem (vm_of M)) pd" "vm_pm vm6 = vm_pm (vm_of M)"
    and c6: "card (kfree (vm_of M)) \<le> card (kfree vm6) + 14" and m6: "\<forall>i<49. pmem vm6 (user_cells vm6 pd 0x1000FFC i) = (c_bytes user_message @ [0]) ! i"
    by (rule user_string_roundtrip[OF t b p d k14])
  have "({f, g} \<union> B) \<inter> G = {}" using p d by (auto simp: pages_ok_def)
  then have i6: "image_ok env cs ds l0 Ls G (vm_of (set_vm vm6 M))" using image_ok_ext[OF i e6] by simp
  have t6': "text_in B (vm_of (set_vm vm6 M)) (a_testcpybuf ka) (c_bytes user_message)" using t6(1) by simp
  obtain m k where d1: "kdebug env (''testcpybuf contains '' @ [CHR 0x27] @ ''%s'' @ [CHR 0x27] @ nl) [a_testcpybuf ka] (set_vm vm6 M) =
      Some ((set_vm ((vm_of (set_vm vm6 M))\<lparr>pmem := m\<rparr>) (set_vm vm6 M))\<lparr>con := k\<rparr>)"
    "printed_on (con (set_vm vm6 M)) k user_test_text" "same_outside G (pmem (vm_of (set_vm vm6 M))) m" "image_ok env cs ds l0 Ls G ((vm_of (set_vm vm6 M))\<lparr>pmem := m\<rparr>)"
    by (rule user_test_says[OF i6 L t6' d])
  let ?vm7 = "vm6\<lparr>pmem := m\<rparr>" let ?M1 = "(set_vm ?vm7 M)\<lparr>con := k\<rparr>"
  have so: "same_outside G (pmem vm6) (pmem ?vm7)" using d1(3) by simp
  have e7: "vm_ext G vm6 ?vm7" using vm_ext_pmem[OF so] by simp
  have "local_page_size ?vm7 = Some 4096" using p6 by (simp add: pages_ok_def local_page_size_def)
  from pages_ok_ext[OF p6 so _ this] have p7: "pages_ok pd f g (G \<union> B) ?vm7" "user_pde (pmem ?vm7) pd = user_pde (pmem vm6) pd"
    "user_pte (pmem ?vm7) pd = user_pte (pmem vm6) pd" by auto
  have b7: "test_buffers ka bl ol B ?vm7" by (rule test_buffers_ext[OF test_buffers_ext[OF b e6] e7])
  then have ol: "\<forall>i<2. kvirt_loc ?vm7 (a_opcodes ka + of_nat i) = Some (ol i) \<and> frame_of (ol i) \<in> G \<union> B" "frame_of (ol 0) \<in> B" "frame_of (ol 1) \<in> B"
    unfolding test_buffers_def by auto
  have r: "0x1000000 \<le> unat (0x1000000 :: u32)" "unat (0x1000000 :: u32) + 2 \<le> 0x1002000" by simp_all
  have k7: "3 * iterations 0x1000000 2 < card (kfree ?vm7)" unfolding iterations_test using k c6 by (simp add: kfree_def)
  obtain vm8 where c8: "virtmem_copy_kernel_to_user pd 0x1000000 (a_opcodes ka) (of_nat 2) ?vm7 = Some (VIRTMEM_SUCCESS, vm8)"
    "\<forall>i<2. pmem vm8 (user_cells ?vm7 pd 0x1000000 i) = pmem ?vm7 (ol i)" "vm_ext {f, g} ?vm7 vm8" "pages_ok pd f g (G \<union> B) vm8"
    "user_cells vm8 pd = user_cells ?vm7 pd" "user_pde (pmem vm8) pd = user_pde (pmem ?vm7) pd" "vm_pm vm8 = vm_pm ?vm7"
    "card (kfree ?vm7) \<le> card (kfree vm8) + 3 * iterations 0x1000000 2 + 1" "\<forall>l. l \<notin> user_cells ?vm7 pd 0x1000000 ` {..<2} \<longrightarrow> pmem vm8 l = pmem ?vm7 l"
    by (rule copy_to_pages[OF p7(1) r ol(1) k7])
  have G: "frame_of (ol 0) \<notin> G" "frame_of (ol 1) \<notin> G" using ol(2,3) d by auto
  have o7: "m (ol 0) = 0xEB" "m (ol 1) = 0xFE" using so G t6(2,3) by (simp_all add: same_outside_def)
  have cells: "user_cells vm8 pd = user_cells vm6 pd" unfolding c8(5) using p7(2,3) by (simp add: user_cells_def[abs_def] user_loc_def[abs_def])
  have two: "two_pages (pmem ?vm7) pd f g" "f \<noteq> g" using p7(1) by (simp_all add: pages_ok_def)
  have r7: "0x1000000 \<le> unat (0x1000FFC :: u32)" "unat (0x1000FFC :: u32) + 49 \<le> 0x1002000" by simp_all
  have keep: "pmem vm8 (user_cells vm8 pd 0x1000FFC i) = (c_bytes user_message @ [0]) ! i" if ii: "i < 49" for i
  proof -
    have u: "unat (0x1000FFC + of_nat i :: u32) = 0x1000FFC + i" using ii by (simp add: unat_word_ariths(1) unat_of_nat)
    have "user_cells ?vm7 pd 0x1000FFC i \<noteq> user_cells ?vm7 pd 0x1000000 j" if j: "j < 2" for j
    proof
      have v: "unat (0x1000000 + of_nat j :: u32) = 0x1000000 + j" using j by (simp add: unat_word_ariths(1) unat_of_nat)
      assume "user_cells ?vm7 pd 0x1000FFC i = user_cells ?vm7 pd 0x1000000 j"
      then have "0x1000FFC + of_nat i = (0x1000000 + of_nat j :: u32)"
        unfolding user_cells_def by (rule two_pages_inj[OF two, rotated -1]) (use u v ii j in simp_all)
      then have "unat (0x1000FFC + of_nat i :: u32) = unat (0x1000000 + of_nat j :: u32)" by (simp only:)
      then show False unfolding u v using j by simp
    qed
    then have "user_cells ?vm7 pd 0x1000FFC i \<notin> user_cells ?vm7 pd 0x1000000 ` {..<2}" by auto
    then have "pmem vm8 (user_cells vm8 pd 0x1000FFC i) = m (user_cells ?vm7 pd 0x1000FFC i)" using c8(9) unfolding c8(5) by simp
    moreover have "frame_of (user_cells ?vm7 pd 0x1000FFC i) \<in> {f, g}" using pages_range(2)[OF p7(1) r7] ii by blast
    moreover have "{f, g} \<inter> G = {}" using p7(1) by (auto simp: pages_ok_def)
    ultimately have "pmem vm8 (user_cells vm8 pd 0x1000FFC i) = pmem vm6 (user_cells ?vm7 pd 0x1000FFC i)" using so by (auto simp: same_outside_def)
    then show ?thesis using m6 ii cells c8(5) by simp
  qed
  have op: "pmem vm8 (user_loc (pmem vm8) pd 0x1000000) = 0xEB" "pmem vm8 (user_loc (pmem vm8) pd 0x1000001) = 0xFE"
    using c8(2)[rule_format, of 0] c8(2)[rule_format, of 1] o7 unfolding c8(5)[symmetric] by (simp_all add: user_cells_def)
  have e8: "vm_ext ({f, g} \<union> G \<union> B) (vm_of M) vm8"
    by (rule vm_ext_trans[OF vm_ext_mono[OF e6] vm_ext_trans[OF vm_ext_mono[OF e7] vm_ext_mono[OF c8(3)]]]) auto
  have "{f, g} \<inter> G = {}" using p7(1) by (auto simp: pages_ok_def)
  then have i8: "image_ok env cs ds l0 Ls G vm8" using image_ok_ext[OF _ c8(3)] d1(4) by simp
  have c: "card (kfree (vm_of M)) \<le> card (kfree vm8) + 18" using c6 c8(8) unfolding iterations_test by (simp add: kfree_def)
  have u8: "user_pde (pmem vm8) pd = user_pde (pmem (vm_of M)) pd" "vm_pm vm8 = vm_pm (vm_of M)" using c8(6,7) p7(2) u6(2,3) by simp_all
  have m8: "\<forall>i<49. pmem vm8 (user_loc (pmem vm8) pd (0x1000FFC + of_nat i)) = (c_bytes user_message @ [0]) ! i"
    using keep by (simp add: user_cells_def)
  have d1': "kdebug env (''testcpybuf contains '' @ [CHR 0x27] @ ''%s'' @ [CHR 0x27] @ nl) [a_testcpybuf ka] (set_vm vm6 M) = Some ?M1"
    using d1(1) by (simp only: set_vm_simps vm_of_set_vm)
  have fx: "fixed_part vm8 = fixed_part (vm_of M)"
    using vm_st_fixed[OF s(1)] vm_st_fixed[OF s(2)] virtmem_copy_fixed(1)[OF s(4)] virtmem_copy_fixed(2)[OF s(5)] virtmem_copy_fixed(1)[OF c8(1)] by simp
  show thesis
  proof (rule fact[OF s d1' _ _ _ i8 e8 c8(4) u8 c op m8 fx])
    show "virtmem_copy_kernel_to_user pd 0x1000000 (a_opcodes ka) 2 (vm_of ?M1) = Some (VIRTMEM_SUCCESS, vm8)" using c8(1) by simp
    show "printed_on (con M) (con ?M1) user_test_text" using d1(2) by simp
  qed simp
qed

text \<open>What the test needs: the memory of the kernel's image, which is away from the supply, and the lists.\<close>

definition user_test_ready ::
  "'d kenv \<Rightarrow> kaddrs \<Rightarrow> physaddr_t list \<Rightarrow> physaddr_t list \<Rightarrow> physaddr_t \<Rightarrow> string set \<Rightarrow> 20 word set \<Rightarrow> (nat \<Rightarrow> physaddr_t) \<Rightarrow> (nat \<Rightarrow> physaddr_t) \<Rightarrow>
   20 word set \<Rightarrow> (slab_head \<Rightarrow> slab_ptr list) \<Rightarrow> physaddr_t set \<Rightarrow> nat \<Rightarrow> ('z, 'd) machine \<Rightarrow> bool" where
  "user_test_ready env ka cs ds l0 Ls G bl ol B H U n M \<longleftrightarrow>
     image_ok env cs ds l0 Ls G (vm_of M) \<and> user_test_literals \<subseteq> Ls \<and> test_buffers ka bl ol B (vm_of M) \<and>
     B \<inter> G = {} \<and> frame_of ` U \<inter> (G \<union> B) = {} \<and> kernel_tables (vm_of M) \<inter> (frame_of ` U \<union> G \<union> B) = {} \<and>
     slabs_ok (km M) H \<and> next_cache (km M) 0 \<noteq> 0 \<and> next_cache (km M) 1 \<noteq> 0 \<and> bsp (km_ext (km M)) \<noteq> 0 \<and>
     linked (as_regions (km_ext (km M))) (\<lambda>_. []) \<and> pm_supply U (7 + n) (vm_of M) \<and> 42 \<le> card (kfree (vm_of M))"

lemma kmain_test_user_ok:
  fixes M :: "('z, 'd) machine"
  assumes R: "user_test_ready env ka cs ds l0 Ls G bl ol B H U n M"
  defines "ac \<equiv> next_cache (km M) 0" and "mc \<equiv> next_cache (km M) 1"
  obtains as M' pd f g U' k' ao mo ar i j where "kmain_test_user env ka i686_run a0 M = Some (as, M')" "M' = M\<lparr>km := km M', con := con M'\<rparr>"
    "printed_on (con M) (con M') user_test_text" "as \<noteq> 0" "as_obj (km_ext (km M')) as = \<lparr>as_v = Some I686_as_vfuncs, as_pd = pd\<rparr>" "pd mod 4096 = 0" "pd \<in> U"
    "space_ok pd U' (vm_of M')" "U' \<subseteq> U" "pm_supply U' k' (vm_of M')" "n \<le> k'" "two_pages (pmem (vm_of M')) pd f g"
    "{f, g} \<subseteq> frame_of ` (U - U')" "{f, g} \<inter> insert (frame_of pd) (tables (pmem (vm_of M')) pd) = {}" "f \<noteq> g"
    "pmem (vm_of M') (user_loc (pmem (vm_of M')) pd 0x1000000) = 0xEB" "pmem (vm_of M') (user_loc (pmem (vm_of M')) pd 0x1000001) = 0xFE"
    "\<forall>i<49. pmem (vm_of M') (user_loc (pmem (vm_of M')) pd (0x1000FFC + of_nat i)) = (c_bytes user_message @ [0]) ! i"
    "\<forall>va. highstart \<le> va \<longrightarrow> user_pde (pmem (vm_of M')) pd va = shared_pde (vm_of M) (va div 4194304 - 768)"
    "image_ok env cs ds l0 Ls G (vm_of M')" "vm_ext (frame_of ` U \<union> kernel_tables (vm_of M) \<union> G \<union> B) (vm_of M) (vm_of M')" "card (kfree (vm_of M)) \<le> card (kfree (vm_of M')) + 42"
    "km_ext (km M') = (km_ext (km M))\<lparr>as_cache := ac, mr_cache := mc, as_obj := ao, mr_obj := mo, as_regions := ar\<rparr>"
    "slabs_ok (km M') ((no_slabs mc (no_slabs ac H))(Slabs_partial ac := [kaddr i], Slabs_partial mc := [kaddr j]))"
    "\<forall>c. c \<noteq> ac \<longrightarrow> c \<noteq> mc \<longrightarrow> km_cache (km M') c = km_cache (km M) c" "sym_kernel_pts (vm_of M') = sym_kernel_pts (vm_of M)"
proof -
  note fact = that
  let ?s = "km M"
  have h: "image_ok env cs ds l0 Ls G (vm_of M)" "user_test_literals \<subseteq> Ls" "test_buffers ka bl ol B (vm_of M)"
     "B \<inter> G = {}" "frame_of ` U \<inter> (G \<union> B) = {}" "kernel_tables (km_vm ?s) \<inter> (frame_of ` U \<union> G \<union> B) = {}"
     "slabs_ok ?s H" "next_cache ?s 0 \<noteq> 0" "next_cache ?s 1 \<noteq> 0" "bsp (km_ext ?s) \<noteq> 0" "linked (as_regions (km_ext ?s)) (\<lambda>_. [])"
     "pm_supply U (Suc (Suc (Suc (4 + n)))) (km_vm ?s)" "42 \<le> card (kfree (km_vm ?s))"
    using R by (simp_all add: user_test_ready_def vm_of_def)
  have k6: "6 \<le> card (kfree (km_vm ?s))" and K: "kernel_tables (km_vm ?s) \<inter> frame_of ` U = {}" using h(6,13) by auto
  obtain as mr pd U1 i j k s2 s3 vm1 vm2 s4 s5 ao mo ar where
    mk: "address_space_alloc i686_run (i686_address_space_init (bsp (km_ext ?s)) ?s) = Some ((AS_SUCCESS, as), s2)"
    "memory_region_alloc i686_run s2 = Some ((AS_SUCCESS, mr), s3)" "as_pd (as_obj (km_ext s3) as) = pd"
    "virtmem_kernel_alloc 1 (km_vm s3) = Some ((VIRTMEM_SUCCESS, Some (kaddr k)), vm1)"
    "virtmem_kernel_map_virt_to_phys pd (kaddr k) vm1 = Some (VIRTMEM_SUCCESS, vm2)"
    "address_space_init_region as mr 0x1000000 0x2000 (s3\<lparr>km_vm := vm2\<rparr>) = Some (AS_SUCCESS, s4)"
    "memory_region_set_flags mr 1 1 s4 = Some (AS_SUCCESS, s5)"
    and as: "as \<noteq> 0" "as_obj (km_ext s5) as = \<lparr>as_v = Some I686_as_vfuncs, as_pd = pd\<rparr>" "mr_obj (km_ext s5) mr = test_region"
    and x5: "km_ext s5 = (km_ext ?s)\<lparr>as_cache := ac, mr_cache := mc, as_obj := ao, mr_obj := mo, as_regions := ar\<rparr>"
    and U1: "U1 \<subseteq> U" "pm_supply U1 (4 + n) (km_vm s5)" "space_ok pd U1 (km_vm s5)" "kernel_only (km_vm s5) pd" "pd \<in> U" "pd mod 4096 = 0"
    and e5: "vm_ext (frame_of ` U) (km_vm ?s) (km_vm s5)" "sym_kernel_pts (km_vm s5) = sym_kernel_pts (km_vm ?s)"
    "card (kfree (km_vm ?s)) = card (kfree (km_vm s5)) + 6"
    and sl5: "slabs_ok s5 ((no_slabs mc (no_slabs ac H))(Slabs_partial ac := [kaddr i], Slabs_partial mc := [kaddr j]))"
    and c5: "\<forall>c. c \<noteq> ac \<longrightarrow> c \<noteq> mc \<longrightarrow> km_cache s5 c = km_cache ?s c"
    by (rule user_space_made[OF h(7-10,12) k6 K h(11), folded ac_def mc_def])
  have K5: "kernel_tables (km_vm s5) = kernel_tables (km_vm ?s)" by (simp add: kernel_tables_def e5(2))
  have pdk: "frame_of pd \<notin> kernel_tables (km_vm s5)" using K U1(5) unfolding K5 by blast
  have k18: "18 \<le> card (kfree (km_vm s5))" and n4: "4 \<le> 4 + n" using e5(3) h(13) by simp_all
  obtain vm' f g U' k' where rm: "memory_region_map as mr 0 s5 = Some (AS_SUCCESS, s5\<lparr>km_vm := vm'\<rparr>)"
    and U': "U' \<subseteq> U1" "pm_supply U' k' vm'" "4 + n \<le> k' + 4" "space_ok pd U' vm'" "two_pages (pmem vm') pd f g" "f \<noteq> g"
    "{f, g} \<subseteq> frame_of ` (U1 - U')" "{f, g} \<inter> insert (frame_of pd) (tables (pmem vm') pd) = {}"
    "tables (pmem vm') pd \<subseteq> kernel_tables (km_vm s5) \<union> frame_of ` (U1 - U')"
    and e6: "vm_ext (insert (frame_of pd) (kernel_tables (km_vm s5) \<union> frame_of ` (U1 - U'))) (km_vm s5) vm'"
    "card (kfree (km_vm s5)) \<le> card (kfree vm') + 18" "\<forall>va. highstart \<le> va \<longrightarrow> user_pde (pmem vm') pd va = shared_pde (km_vm s5) (va div 4194304 - 768)"
    by (rule test_region_maps[OF as(1,2,3) U1(3,2) n4 k18 U1(4) pdk])
  let ?F6 = "frame_of ` U \<union> kernel_tables (km_vm ?s)"
  have e06: "vm_ext ?F6 (vm_of M) vm'"
    unfolding vm_of_def
    by (rule vm_ext_trans[OF vm_ext_mono[OF e5(1)] vm_ext_mono[OF e6(1)]]) (use U1(1,5) in \<open>auto simp: K5\<close>)
  have GB: "?F6 \<inter> (G \<union> B) = {}" using h(5,6) by blast
  have fgU: "{f, g} \<subseteq> frame_of ` U" using U'(7) U1(1) by blast
  have tI: "insert (frame_of pd) (tables (pmem vm') pd) \<subseteq> ?F6" using U'(9) U1(1,5) unfolding K5 by blast
  define N where "N = set_vm vm' (M\<lparr>km := s5\<rparr>)"
  have N: "vm_of N = vm'" "con N = con M" by (simp_all add: N_def vm_of_def set_vm_def)
  have "?F6 \<inter> G = {}" using GB by blast
  then have iN: "image_ok env cs ds l0 Ls G (vm_of N)" unfolding N by (rule image_ok_ext[OF h(1) e06])
  have bN: "test_buffers ka bl ol B (vm_of N)" unfolding N by (rule test_buffers_ext[OF h(3) e06])
  have "local_page_size vm' = Some 4096" by (rule pm_ready_page_size[OF pm_supply_ready[OF U'(2)]])
  moreover have "insert (frame_of pd) (tables (pmem vm') pd) \<inter> ({f, g} \<union> (G \<union> B)) = {}" using U'(8) tI GB by blast
  moreover have "{f, g} \<inter> (G \<union> B) = {}" using fgU h(5) by blast
  ultimately have pN: "pages_ok pd f g (G \<union> B) (vm_of N)" unfolding N pages_ok_def using U'(4-6) by (simp add: space_ok_def)
  have kN: "18 \<le> card (kfree (vm_of N))" unfolding N using e5(3) e6(2) h(13) by simp
  obtain vm3 vm4 vm5 vm6 M1 vm8 where cp: "vm_st (a_opcodes ka) 0xEB (vm_of N) = Some vm3" "vm_st (a_opcodes ka + 1) 0xFE vm3 = Some vm4"
    "strlen vm_ld (lit env user_message) vm4 = Some 48"
    "virtmem_copy_kernel_to_user pd 0x1000FFC (lit env user_message) 49 vm4 = Some (VIRTMEM_SUCCESS, vm5)"
    "virtmem_copy_user_to_kernel (a_testcpybuf ka) pd 0x1000FFC 49 vm5 = Some (VIRTMEM_SUCCESS, vm6)"
    "kdebug env (''testcpybuf contains '' @ [CHR 0x27] @ ''%s'' @ [CHR 0x27] @ nl) [a_testcpybuf ka] (set_vm vm6 N) = Some M1"
    and M1: "M1 = (set_vm (vm_of M1) N)\<lparr>con := con M1\<rparr>"
    and c8: "virtmem_copy_kernel_to_user pd 0x1000000 (a_opcodes ka) 2 (vm_of M1) = Some (VIRTMEM_SUCCESS, vm8)"
    and v8: "printed_on (con N) (con M1) user_test_text" "image_ok env cs ds l0 Ls G vm8" "vm_ext ({f, g} \<union> G \<union> B) (vm_of N) vm8" "pages_ok pd f g (G \<union> B) vm8"
    "user_pde (pmem vm8) pd = user_pde (pmem (vm_of N)) pd" "vm_pm vm8 = vm_pm (vm_of N)" "card (kfree (vm_of N)) \<le> card (kfree vm8) + 18"
    "pmem vm8 (user_loc (pmem vm8) pd 0x1000000) = 0xEB" "pmem vm8 (user_loc (pmem vm8) pd 0x1000001) = 0xFE"
    "\<forall>i<49. pmem vm8 (user_loc (pmem vm8) pd (0x1000FFC + of_nat i)) = (c_bytes user_message @ [0]) ! i" "fixed_part vm8 = fixed_part (vm_of N)"
    by (rule user_copies[OF iN h(2) bN pN h(4) kN])
  let ?M' = "set_vm vm8 M1"
  have sv: "set_vm vm6 N = M\<lparr>km := s5\<lparr>km_vm := vm6\<rparr>\<rparr>" by (simp add: N_def set_vm_def)
  have run: "kmain_test_user env ka i686_run a0 M = Some (as, ?M')"
  proof -
    have pd: "as_pd (as_obj (km_ext s3) as) = pd" by (rule mk(3))
    have n: "(48 :: u32) + 1 = 49" by simp
    have v: "km_vm (s5\<lparr>km_vm := vm'\<rparr>) = vm_of N" "s5\<lparr>km_vm := vm', km_vm := vm6\<rparr> = s5\<lparr>km_vm := vm6\<rparr>" by (simp_all add: N)
    show ?thesis
      unfolding kmain_test_user_def Let_def mk(1) mk(2) bind.bind_lunit prod.case pd mk(4) option.case mk(5) mk(6) mk(7) rm v cp(1-3) n cp(4,5) cp(6)[unfolded sv] c8 ..
  qed
  have M': "?M' = M\<lparr>km := s5\<lparr>km_vm := vm8\<rparr>, con := con M1\<rparr>" by (subst M1) (simp add: N_def set_vm_def)
  have vM': "vm_of ?M' = vm8" "con ?M' = con M1" "km_ext (km ?M') = km_ext s5" "km_links (km ?M') = km_links s5" "km_vm (km ?M') = vm8"
    "km_cache (km ?M') = km_cache s5" by (simp_all add: M' vm_of_def)
  have e8: "vm_ext ({f, g} \<union> G \<union> B) vm' vm8" using v8(3) unfolding N .
  have "({f, g} \<union> G \<union> B) \<inter> insert (frame_of pd) (tables (pmem vm') pd) = {}" using U'(8) tI GB by blast
  note sp8 = space_ok_ext[OF U'(4) e8 this]
  have sl8: "slabs_ok (km ?M') ((no_slabs mc (no_slabs ac H))(Slabs_partial ac := [kaddr i], Slabs_partial mc := [kaddr j]))"
    by (rule slabs_ok_ext[OF sl5, where F = "insert (frame_of pd) (kernel_tables (km_vm s5) \<union> frame_of ` (U1 - U')) \<union> ({f, g} \<union> G \<union> B)"])
      (unfold vM', rule vm_ext_trans[OF vm_ext_mono[OF e6(1)] vm_ext_mono[OF e8]], auto)
  have fx: "fixed_part vm8 = fixed_part (km_vm s5)" using v8(11) memory_region_map_fixed[OF rm] unfolding N by simp
  have lm: "localmem vm8 = localmem vm'" using e8 by (simp add: vm_ext_def)
  show thesis
  proof (rule fact[OF run, where pd = pd and U' = U' and k' = k' and f = f and g = g and ao = ao and mo = mo and ar = ar and i = i and j = j, unfolded vM'])
    show "?M' = M\<lparr>km := km ?M', con := con M1\<rparr>" by (simp add: M')
    show "printed_on (con M) (con M1) user_test_text" using v8(1) unfolding N .
    show "as_obj (km_ext s5) as = \<lparr>as_v = Some I686_as_vfuncs, as_pd = pd\<rparr>" by (rule as(2))
    show "U' \<subseteq> U" using U'(1) U1(1) by blast
    show "pm_supply U' k' vm8" using U'(2) pm_supply_cong[OF lm v8(6)[unfolded N]] by simp
    show "n \<le> k'" using U'(3) by simp
    show "two_pages (pmem vm8) pd f g" using v8(4) by (simp add: pages_ok_def)
    show "{f, g} \<subseteq> frame_of ` (U - U')" using U'(7) U1(1) by blast
    show "{f, g} \<inter> insert (frame_of pd) (tables (pmem vm8) pd) = {}" unfolding sp8(4) by (rule U'(8))
    show "f \<noteq> g" by (rule U'(6))
    show "\<forall>va. highstart \<le> va \<longrightarrow> user_pde (pmem vm8) pd va = shared_pde (vm_of M) (va div 4194304 - 768)"
      using e6(3) sp8(2) by (simp add: shared_pde_def e5(2) vm_of_def)
    show "vm_ext (frame_of ` U \<union> kernel_tables (vm_of M) \<union> G \<union> B) (vm_of M) vm8"
      by (rule vm_ext_trans[OF vm_ext_mono[OF e06] vm_ext_mono[OF e8]]) (use fgU in \<open>auto simp: vm_of_def\<close>)
    show "sym_kernel_pts vm8 = sym_kernel_pts (vm_of M)" using fx e5(2) by (simp add: fixed_part_def vm_of_def)
    show "card (kfree (vm_of M)) \<le> card (kfree vm8) + 42" using e5(3) e6(2) v8(7) unfolding N by (simp add: vm_of_def)
  qed (use as(1) U1(5,6) sp8(1) v8 x5 sl8 c5 in \<open>simp_all add: vM'\<close>)
qed

end
