(* ===== verification/Stacksmash.thy ===== *)
theory Stacksmash
  imports Cmem
begin

text \<open>
  \<^verbatim>\<open>src/sys/i686/stacksmash.c\<close>: the value that compiled code puts between its local arrays and its return address, and what it
  calls when the value has changed.
\<close>

text \<open>The four bytes of \<^verbatim>\<open>__stack_chk_guard\<close>, and the variable before anything is stored.\<close>

definition stack_chk_guard :: "nat \<Rightarrow> u8" where
  "stack_chk_guard = (\<lambda>_. 0)"

definition stack_chk_guard_setup :: "(nat \<Rightarrow> u8) \<Rightarrow> nat \<Rightarrow> u8" where
  "stack_chk_guard_setup p = p(0 := 0, 1 := 0, 2 := 0x0A, 3 := 133)"

text \<open>The loop of \<^verbatim>\<open>__stack_chk_fail\<close> over the memory of the screen.\<close>

partial_function (option) stack_chk_fail_loop :: "(u32 \<Rightarrow> u8) \<Rightarrow> (u32 \<Rightarrow> u8) option" where
  "stack_chk_fail_loop m = stack_chk_fail_loop (m(0xB8000 := m 0xB8000 + 1))"

definition stack_chk_fail :: "(u32 \<Rightarrow> u8) \<Rightarrow> (u32 \<Rightarrow> u8) option" where
  "stack_chk_fail m = stack_chk_fail_loop (m(0xB8001 := 7))"

text \<open>\<^verbatim>\<open>noreturn\<close> is true, and a string that is copied over the guard changes it: the guard has the bytes at which the string functions
  and line input stop, so that no copied text can contain it.\<close>

lemma stack_chk_fail_never_returns: "stack_chk_fail m = None"
proof -
  have "False" if "stack_chk_fail_loop m = Some m'" for m m'
    using that by (rule stack_chk_fail_loop.raw_induct[where P = "\<lambda>_ _. False", rotated]) blast
  then show ?thesis by (cases "stack_chk_fail_loop (m(0xB8001 := 7))") (auto simp: stack_chk_fail_def)
qed

lemma guard_stops_text:
  assumes "c_text \<noteq> []" "0 \<notin> set c_text" "length c_text \<le> 4"
  shows "map (stack_chk_guard_setup p) [0..<length c_text] \<noteq> c_text"
proof
  assume m: "map (stack_chk_guard_setup p) [0..<length c_text] = c_text"
  have "map (stack_chk_guard_setup p) [0..<length c_text] ! 0 = 0" using assms(1) by (simp add: stack_chk_guard_setup_def)
  then show False using m assms(1,2) nth_mem[of 0 c_text] by simp
qed

end
