(* ===== verification/Loader.thy ===== *)
theory Loader
  imports Kmain
begin

text \<open>
  What runs before the kernel: the header by which a boot loader knows the kernel (\<^verbatim>\<open>src/sys/i686/loader/headers.c\<close> with
  \<^verbatim>\<open>src/sys/include/multiboot.h\<close>), and the entry in \<^verbatim>\<open>src/sys/i686/loader/loader.c\<close>, which loads its own
  segments, switches to the page tables and calls \<^verbatim>\<open>i686_kmain\<close>.  The page tables themselves are in theory \<open>Boot\<close>.
\<close>

section \<open>The multiboot header\<close>

text \<open>The build is for ELF.\<close>

definition MULTIBOOT_HEADER_MAGIC :: u32 where "MULTIBOOT_HEADER_MAGIC = 0x1BADB002"
definition MULTIBOOT_HEADER_FLAGS :: u32 where "MULTIBOOT_HEADER_FLAGS = 0x00000003"

record multiboot_header_t =
  mh_magic :: u32
  mh_flags :: u32
  mh_checksum :: u32
  mh_header_addr :: u32
  mh_load_addr :: u32
  mh_load_end_addr :: u32
  mh_bss_end_addr :: u32
  mh_entry_addr :: u32

definition multiboot_header :: multiboot_header_t where
  "multiboot_header = \<lparr>mh_magic = MULTIBOOT_HEADER_MAGIC, mh_flags = MULTIBOOT_HEADER_FLAGS,
     mh_checksum = - (MULTIBOOT_HEADER_MAGIC + MULTIBOOT_HEADER_FLAGS), mh_header_addr = 0, mh_load_addr = 0, mh_load_end_addr = 0,
     mh_bss_end_addr = 0, mh_entry_addr = 0\<rparr>"

text \<open>The three words that a boot loader adds up.\<close>

lemma multiboot_header_accepted: "mh_magic multiboot_header + mh_flags multiboot_header + mh_checksum multiboot_header = 0"
  by (simp add: multiboot_header_def)

section \<open>The entry\<close>

text \<open>
  The data of the loader: its descriptor table and the stack pointer, and the addresses of the table and of \<^verbatim>\<open>t_stack\<close>.  The
  registers that the table is loaded to are those of the processor.
\<close>

record loader =
  l_gdt :: "nat \<Rightarrow> i686_gdt_entry"
  l_esp :: u32
  sym_l_gdt :: u32
  sym_t_stack :: u32

definition loader_cpu_set_gdt :: "nat \<Rightarrow> loader \<Rightarrow> i686_cpu \<Rightarrow> i686_cpu" where
  "loader_cpu_set_gdt len l c = c\<lparr>cpu_gdtr := (of_nat (len * sizeof_gdt_entry), sym_l_gdt l), cpu_segments := (0x08, 0x10)\<rparr>"

definition setup_gdt :: "loader \<Rightarrow> i686_cpu \<Rightarrow> loader \<times> i686_cpu" where
  "setup_gdt l c =
     (let l1 = l\<lparr>l_gdt := (l_gdt l)(0 := null_descriptor, 1 := flat_descriptor 0xA 0, 2 := flat_descriptor 0x2 0)\<rparr>
      in (l1, loader_cpu_set_gdt 3 l1 c))"

text \<open>The assembly at the entry, before it jumps to \<^verbatim>\<open>loader_main\<close>.\<close>

definition loader_start :: "loader \<Rightarrow> loader" where
  "loader_start l = l\<lparr>l_esp := sym_t_stack l + 1024 - 4\<rparr>"

text \<open>
  \<open>magic\<close> is the content of \<^verbatim>\<open>eax\<close> at the entry and \<open>info\<close> what \<^verbatim>\<open>ebx\<close> points to.  The stack of calls and of local
  variables is the compiler's; its pointer is what the assembly makes of it.
\<close>

definition loader_main ::
  "'d kenv \<Rightarrow> kaddrs \<Rightarrow> (u32 \<Rightarrow> u32) \<Rightarrow> (nat \<Rightarrow> u32) \<Rightarrow> u32 \<Rightarrow> multiboot_info_t \<Rightarrow> loader \<Rightarrow> ('z, 'd) machine \<Rightarrow>
   (kmain_end \<times> loader \<times> ('z, 'd) machine) option" where
  "loader_main env ka eax handler magic info l M = do {
     let (l1, c) = setup_gdt l (proc M);
     let M1 = set_vm (setup_tables (vm_of M)) (M\<lparr>proc := c\<rparr>);
     let l2 = l1\<lparr>l_esp := l_esp l1 + highstart\<rparr>;
     (r, M2) \<leftarrow> i686_kmain env ka eax handler magic info M1;
     Some (r, l2, M2)
   }"

section \<open>What the loader has set up\<close>

lemma setup_tables_frame:
  "pmem (setup_tables s) = pmem s" "localmem (setup_tables s) = localmem s" "vm_pm (setup_tables s) = vm_pm s"
  "sym_kernel_pts (setup_tables s) = sym_kernel_pts s" "sym_kernel_pd (setup_tables s) = sym_kernel_pd s" "sym_ebss (setup_tables s) = sym_ebss s"
  "identitymap_limit (setup_tables s) = identitymap_limit s"
  by (simp_all add: setup_tables_def Let_def enable_paging_def)

lemma setup_tables_ptes:
  "k < 262144 \<Longrightarrow> kernel_flatpt (setup_tables s) k = (if k < 1024 then identity_pte k else zero_pte)"
  using loader_pte[of k] by (simp add: setup_tables_def Let_def enable_paging_def)

lemma setup_tables_low:
  "pd_present (kernel_pd (setup_tables s) 0)" "pd_phys_addr (kernel_pd (setup_tables s) 0) = frame_of (sym_kernel_pts s - highstart)"
  by (simp_all add: setup_tables_def Let_def enable_paging_def)

lemma setup_gdt_steps:
  "setup_gdt l c = (l', c') \<Longrightarrow> l_esp l' = l_esp l \<and> c' = c\<lparr>cpu_gdtr := (24, sym_l_gdt l), cpu_segments := (0x08, 0x10)\<rparr>"
  by (auto simp: setup_gdt_def Let_def loader_cpu_set_gdt_def sizeof_gdt_entry_def)

end
