(* ===== verification/Bringup.thy ===== *)
theory Bringup
  imports Usertest Loader
begin

text \<open>
  The whole way from the entry of the loader to the first instruction in user space: the parts of the other theories one after the
  other.
\<close>

section \<open>The first thread\<close>

lemma elems_108: "slab_elems (unat sizeof_i686_thread) = 36"
  by (simp add: slab_elems_def sizeof_i686_thread_def)

text \<open>The thread is the first object of its cache.\<close>

lemma thread_alloc_fresh:
  fixes s :: "'z sched_state"
  assumes sl: "slabs_ok s H" and fc: "fresh_cache s H (thread_cache (km_ext s)) sizeof_i686_thread (Some I686_init_thread_vfuncs)"
    and v: "s_v (sched_obj (km_ext s) p) \<noteq> None" and sup: "pm_supply U (Suc n) (km_vm s)" and kf: "kfree (km_vm s) \<noteq> {}"
  obtains t q s1 where "scheduler_thread_alloc i686_run p s = Some ((SCHED_SUCCESS, t), s1)" "t \<noteq> 0"
    "km_ext s1 = (km_ext s)\<lparr>thread_obj := (thread_obj (km_ext s))(t := zero_thread\<lparr>t_v := Some I686_thread_vfuncs, t_ctx := entry_context\<rparr>)\<rparr>"
    "q \<in> U" "pm_supply (U - {q}) n (km_vm s1)" "vm_ext {frame_of q} (km_vm s) (km_vm s1)"
    "Suc (card (kfree (km_vm s1))) = card (kfree (km_vm s))" "sym_kernel_pts (km_vm s1) = sym_kernel_pts (km_vm s)"
proof -
  note fact = that
  let ?c = "thread_cache (km_ext s)"
  have sz: "sizeof_i686_thread \<noteq> 0" "unat sizeof_i686_thread \<le> 4072" "2 \<le> slab_elems (unat sizeof_i686_thread)"
    by (simp_all add: elems_108) (simp_all add: sizeof_i686_thread_def)
  let ?a = "\<lambda>i. slot sizeof_i686_thread i (slab_elems (unat sizeof_i686_thread))"
  obtain i q s4 where al: "kmem_cache_alloc i686_run ?c s = do {
       s5 \<leftarrow> (case Some I686_init_thread_vfuncs of None \<Rightarrow> Some s4 | Some g \<Rightarrow> i686_run g (?a i) s4); Some (?a i, upd_cache ?c (used_update (\<lambda>u. u + 1)) s5) }"
    and nz: "?a i \<noteq> 0" and q: "q \<in> U" "q mod 4096 = 0" "pm_supply (U - {q}) n (km_vm s4)" and s4: "km_ext s4 = km_ext s"
    "vm_ext {frame_of q} (km_vm s) (km_vm s4)" "Suc (card (kfree (km_vm s4))) = card (kfree (km_vm s))" "sym_kernel_pts (km_vm s4) = sym_kernel_pts (km_vm s)"
    "other_caches ?c s s4" "slabs_ok s4 (H(Slabs_partial ?c := [kaddr i]))"
    by (rule first_object_slabs[OF sl fc sz sup kf])
  let ?t = "?a i"
  let ?s = "upd_thread ?t (\<lambda>b. b\<lparr>t_ctx := entry_context\<rparr>) (upd_cache ?c (used_update (\<lambda>u. u + 1))
      (upd_thread ?t (\<lambda>_. zero_thread\<lparr>t_v := Some I686_thread_vfuncs\<rparr>) s4))"
  have run: "scheduler_thread_alloc i686_run p s = Some ((SCHED_SUCCESS, ?t), ?s)"
    using al nz v by (auto simp: scheduler_thread_alloc_def i686_thread_alloc_def i686_run_def i686_init_thread_vfuncs_def entry_context_def)
  have v4: "km_vm ?s = km_vm s4" by (simp add: upd_cache_def)
  show thesis
  proof (rule fact[OF run nz _ q(1), unfolded v4])
    show "km_ext ?s = (km_ext s)\<lparr>thread_obj := (thread_obj (km_ext s))(?t := zero_thread\<lparr>t_v := Some I686_thread_vfuncs, t_ctx := entry_context\<rparr>)\<rparr>"
      by (simp add: upd_cache_def upd_thread_def upd_ext_def s4(1))
  qed (fact q(3) s4(2-4))+
qed

text \<open>The end of \<^verbatim>\<open>i686_kmain\<close>: what it writes is a page for the thread and the directory of its space.\<close>

lemma start_thread_ok:
  fixes s :: "'z sched_state"
  assumes sl: "slabs_ok s H" and fc: "fresh_cache s H (thread_cache (km_ext s)) sizeof_i686_thread (Some I686_init_thread_vfuncs)"
    and v: "s_v (sched_obj (km_ext s) p) \<noteq> None" and l: "sched_lists p s (\<lambda>_. [])" and sup: "pm_supply U (Suc n) (km_vm s)"
    and kf: "3 \<le> card (kfree (km_vm s))" and a: "a \<noteq> 0" "as_pd (as_obj (km_ext s) a) = pd" "pd mod 4096 = 0"
  obtains t q s' where "start_thread i686_run p a s = Some (entry_regs, s')" "s_current (sched_obj (km_ext s') p) = t" "t \<noteq> 0"
    "t_state (thread_obj (km_ext s') t) = THREAD_RUNNABLE" "t_space (thread_obj (km_ext s') t) = a" "sched_lists p s' ((\<lambda>_. [])(Runnable p := [t]))"
    "cr3 (km_vm s') = pd" "q \<in> U" "vm_ext {frame_of q, frame_of pd} (km_vm s) (km_vm s')" "as_obj (km_ext s') = as_obj (km_ext s)"
    "sym_kernel_pts (km_vm s') = sym_kernel_pts (km_vm s)"
    "\<forall>va. highstart \<le> va \<longrightarrow> user_pde (pmem (km_vm s')) pd va = shared_pde (km_vm s) (va div 4194304 - 768)"
    "frame_of q \<noteq> frame_of pd \<longrightarrow> (\<forall>va<highstart. user_pde (pmem (km_vm s')) pd va = user_pde (pmem (km_vm s)) pd va)"
proof -
  note fact = that
  have kn: "kfree (km_vm s) \<noteq> {}" using kf by auto
  obtain t q s1 where al: "scheduler_thread_alloc i686_run p s = Some ((SCHED_SUCCESS, t), s1)" and t: "t \<noteq> 0"
    and x1: "km_ext s1 = (km_ext s)\<lparr>thread_obj := (thread_obj (km_ext s))(t := zero_thread\<lparr>t_v := Some I686_thread_vfuncs, t_ctx := entry_context\<rparr>)\<rparr>"
    and q: "q \<in> U" "pm_supply (U - {q}) n (km_vm s1)" "vm_ext {frame_of q} (km_vm s) (km_vm s1)"
    "Suc (card (kfree (km_vm s1))) = card (kfree (km_vm s))" "sym_kernel_pts (km_vm s1) = sym_kernel_pts (km_vm s)"
    by (rule thread_alloc_fresh[OF sl fc v sup kn])
  have nl: "\<not> listed s t" using l linked_unique by (fastforce simp: listed_def sched_lists_def members_def)
  have l1: "sched_lists p s1 (\<lambda>_. [])" by (rule sched_lists_unlisted[OF l nl]) (simp_all add: x1)
  have h1: "\<not> listed s1 t" "t_v (thread_obj (km_ext s1) t) \<noteq> None" "s_v (sched_obj (km_ext s1) p) \<noteq> None" using nl v by (simp_all add: x1 listed_def)
  obtain s2 s4 s5 where sc: "thread_init t a s1 = Some (THREAD_SUCCESS, s2)"
    "scheduler_thread_add p t (upd_thread t (\<lambda>b. b\<lparr>t_state := THREAD_RUNNABLE\<rparr>) s2) = Some (SCHED_SUCCESS, s4)"
    "scheduler_reschedule p s4 = Some (SCHED_SUCCESS, s5)" "sched_lists p s5 ((\<lambda>_. [])(Runnable p := t # []))"
    and cur: "s_current (sched_obj (km_ext s5) p) = t" "s_v (sched_obj (km_ext s5) p) \<noteq> None"
    "t_state (thread_obj (km_ext s5) t) = THREAD_RUNNABLE" "t_space (thread_obj (km_ext s5) t) = a"
    "t_ctx (thread_obj (km_ext s5) t) = t_ctx (thread_obj (km_ext s1) t)" "as_obj (km_ext s5) = as_obj (km_ext s1)" "km_vm s5 = km_vm s1"
    by (rule run_new_thread[OF l1 h1(1) t h1(2,3) a(1)])
  have k2: "2 \<le> card (kfree (km_vm s1))" using q(4) kf by simp
  have ps: "local_page_size (km_vm s1) = Some 4096" by (rule pm_ready_page_size[OF pm_supply_ready[OF q(2)]])
  from setup_kernelspace_ok[OF k2 ps a(3)] obtain vm1 where vm1:
    "virtmem_user_setup_kernelspace pd (km_vm s1) = Some (VIRTMEM_SUCCESS, vm1)"
    "\<forall>va. user_pde (pmem vm1) pd va = (if highstart \<le> va then shared_pde (km_vm s1) (va div 4194304 - 768) else user_pde (pmem (km_vm s1)) pd va)"
    "same_outside {frame_of pd} (pmem (km_vm s1)) (pmem vm1)" "keeps_mapped (km_vm s1) vm1" "sym_kernel_pts vm1 = sym_kernel_pts (km_vm s1)"
    "localmem vm1 = localmem (km_vm s1)"
    by blast
  let ?s6 = "s5\<lparr>km_vm := vm1\<lparr>cr3 := pd\<rparr>\<rparr>"
  have ctx: "t_ctx (thread_obj (km_ext s1) t) = entry_context" by (simp add: x1)
  have pd: "as_pd (as_obj (km_ext s5) a) = pd" using a(2) by (simp add: cur(6) x1)
  have "scheduler_resume p ?s6 = Some entry_regs"
    using cur(1,2,5) t ctx by (auto simp: scheduler_resume_def i686_scheduler_resume_def common_scheduler_get_current_thread_def entry_context_regs)
  then have run: "start_thread i686_run p a s = Some (entry_regs, ?s6)"
    using al sc(1-3) vm1(1) cur(7) pd by (simp add: start_thread_def virtmem_set_context_def i686_set_context_def)
  have "vm_ext {frame_of pd} (km_vm s1) (vm1\<lparr>cr3 := pd\<rparr>)" using vm1(3,4,6) by (simp add: vm_ext_def keeps_mapped_def)
  then have e: "vm_ext {frame_of q, frame_of pd} (km_vm s) (vm1\<lparr>cr3 := pd\<rparr>)"
    by (intro vm_ext_trans[OF vm_ext_mono[OF q(3)] vm_ext_mono]) auto
  have sh: "shared_pde (km_vm s1) k = shared_pde (km_vm s) k" for k by (simp add: shared_pde_def q(5))
  show thesis
  proof (rule fact[OF run])
    show "sched_lists p ?s6 ((\<lambda>_. [])(Runnable p := [t]))" using sc(4) by (simp add: sched_lists_def)
    show "\<forall>va. highstart \<le> va \<longrightarrow> user_pde (pmem (km_vm ?s6)) pd va = shared_pde (km_vm s) (va div 4194304 - 768)"
      using vm1(2) by (simp add: sh)
    have "user_pde (pmem (km_vm s1)) pd va = user_pde (pmem (km_vm s)) pd va" if "frame_of q \<noteq> frame_of pd" for va
      using that user_pde_outside[of "{frame_of q}" "pmem (km_vm s)" "pmem (km_vm s1)" pd va] q(3) a(3) by (simp add: vm_ext_def)
    then show "frame_of q \<noteq> frame_of pd \<longrightarrow> (\<forall>va<highstart. user_pde (pmem (km_vm ?s6)) pd va = user_pde (pmem (km_vm s)) pd va)"
      using vm1(2) by (simp flip: linorder_not_le)
  qed (use cur t e q(1,5) vm1(5) in \<open>simp_all add: x1\<close>)
qed

section \<open>After the initialisations\<close>

text \<open>What the console and the literals need does not depend on which allocator the processor uses.\<close>

lemma localmem_loc [simp]: "kvirt_loc (vm\<lparr>localmem := x\<rparr>) = kvirt_loc vm"
  by (simp add: kvirt_loc_def fun_eq_iff)

lemma localmem_ld [simp]: "vm_ld a (vm\<lparr>localmem := x\<rparr>) = vm_ld a vm"
  by (simp add: vm_ld_def)

lemma localmem_cstr [simp]: "cstr vm_ld (vm\<lparr>localmem := x\<rparr>) a bs = cstr vm_ld vm a bs"
  by (induction bs arbitrary: a) simp_all

lemma image_ok_localmem: "image_ok env cs ds l0 Ls G (vm\<lparr>localmem := x\<rparr>) = image_ok env cs ds l0 Ls G vm"
  by (simp add: image_ok_def console_ok_def literal_ok_def buffer_def apart_def text_in_def)

lemma test_buffers_localmem: "test_buffers ka bl ol B (vm\<lparr>localmem := x\<rparr>) = test_buffers ka bl ol B vm"
  by (simp add: test_buffers_def)

text \<open>The kernel's pages that are mapped are mapped one to one from \<open>highstart\<close> on, and \<open>booted_vm\<close> maps more of them.\<close>

definition identity_mapped :: "vm_state \<Rightarrow> bool" where
  "identity_mapped vm \<longleftrightarrow> (\<forall>k<262144. pt_present (kernel_flatpt vm k) \<longrightarrow> k < 1024 \<and> kernel_flatpt vm k = identity_pte k)"

lemma booted_vm_ext:
  assumes i: "identity_mapped vm" and b: "limit_pages brk < 262144"
  shows "vm_ext {} (vm\<lparr>localmem := fd\<rparr>) (booted_vm fd pm brk vm)"
  using assms by (auto simp: vm_ext_def keeps_mapped_def same_outside_def booted_vm_def identity_mapped_def)

lemma booted_vm_image:
  assumes "identity_mapped vm" "limit_pages brk < 262144"
  shows "image_ok env cs ds l0 Ls G vm \<Longrightarrow> image_ok env cs ds l0 Ls G (booted_vm fd pm brk vm)"
    "test_buffers ka bl ol B vm \<Longrightarrow> test_buffers ka bl ol B (booted_vm fd pm brk vm)"
  using image_ok_ext[OF _ booted_vm_ext[OF assms], unfolded image_ok_localmem] test_buffers_ext[OF _ booted_vm_ext[OF assms], unfolded test_buffers_localmem]
  by blast+

lemma booted_vm_kfree:
  assumes i: "identity_mapped vm" and b: "limit_pages brk \<le> 262080"
  shows "63 \<le> card (kfree (booted_vm fd pm brk vm))"
proof -
  have "{262081..<262144} \<subseteq> kfree (booted_vm fd pm brk vm)"
    using assms by (auto simp: kfree_def booted_vm_def identity_mapped_def)
  then have "card {262081..<262144 :: nat} \<le> card (kfree (booted_vm fd pm brk vm))" by (rule card_mono[OF finite_kfree])
  then show ?thesis by simp
qed

text \<open>The scheduler with its cache.\<close>

lemma scheduler_init_fresh:
  fixes s :: "'z sched_state" and p :: sched_ptr
  assumes sl: "slabs_ok s (\<lambda>_. [])" and nz: "next_cache s 0 \<noteq> 0" "bsp (km_ext s) \<noteq> 0"
  defines "s' \<equiv> i686_scheduler_init p s"
  shows "km_vm s' = km_vm s" "slabs_ok s' (\<lambda>_. [])"
    "fresh_cache s' (\<lambda>_. []) (next_cache s 0) sizeof_i686_thread (Some I686_init_thread_vfuncs)"
    "next_free_cache s' = next_free_cache s + 1" "sym_caches s' = sym_caches s" "thread_cache (km_ext s') = next_cache s 0"
    "bsp (km_ext s') = bsp (km_ext s)" "as_regions (km_ext s') = as_regions (km_ext s)"
proof -
  let ?tc = "next_cache s 0"
  obtain s5 where s5: "s' = snd (kmem_cache_init ?tc (bsp (km_ext s)) ''thread'' sizeof_i686_thread (Some I686_init_thread_vfuncs) None s5)"
    "km_links s5 = km_links s" "km_vm s5 = km_vm s" "thread_cache (km_ext s5) = ?tc" "bsp (km_ext s5) = bsp (km_ext s)"
    "as_regions (km_ext s5) = as_regions (km_ext s)" "next_free_cache s5 = next_free_cache s + 1" "sym_caches s5 = sym_caches s"
    unfolding s'_def kmem_alloc_next[symmetric]
    by (auto simp: i686_scheduler_init_def Let_def split_def upd_sched_def upd_ext_def kmem_alloc_def i686_kmem_cache_alloc_def)
  have "slabs_ok s5 (\<lambda>_. [])" by (rule slabs_ok_same[OF sl s5(2,3)])
  moreover have "sizeof_i686_thread \<noteq> 0" by (simp add: sizeof_i686_thread_def)
  moreover have "no_slabs ?tc (\<lambda>_. []) = (\<lambda>_. [])" by (simp add: no_slabs_def fun_upd_idem)
  ultimately have c: "slabs_ok s' (\<lambda>_. [])" "fresh_cache s' (\<lambda>_. []) ?tc sizeof_i686_thread (Some I686_init_thread_vfuncs)"
    "other_caches ?tc s5 s'" "km_vm s' = km_vm s5" "km_ext s' = km_ext s5"
    unfolding s5(1) using cache_init_fresh[of s5 "\<lambda>_. []" ?tc "bsp (km_ext s)" sizeof_i686_thread "''thread''" "Some I686_init_thread_vfuncs" None] nz by simp_all
  show "slabs_ok s' (\<lambda>_. [])" "fresh_cache s' (\<lambda>_. []) ?tc sizeof_i686_thread (Some I686_init_thread_vfuncs)" by (fact c(1,2))+
  show "km_vm s' = km_vm s" "next_free_cache s' = next_free_cache s + 1" "sym_caches s' = sym_caches s" "thread_cache (km_ext s') = ?tc"
    "bsp (km_ext s') = bsp (km_ext s)" "as_regions (km_ext s') = as_regions (km_ext s)"
    using c(3-5) s5(3-8) by (simp_all add: other_caches_def)
qed

text \<open>The conditions: the memory map, the places of the image and of the frames \<open>I\<close> of console, literals and buffers, and the static data.\<close>

definition one_area :: "multiboot_info_t \<Rightarrow> memory_map_t \<Rightarrow> bool" where
  "one_area info e \<longleftrightarrow> mi_mmap info = [e] \<and> mi_mmap_length info = 24 \<and> unat (mi_mmap_addr info) + 24 < 2 ^ 32 \<and>
     mm_base_addr_high e = 0 \<and> mm_length_high e = 0 \<and> mm_type e = 1 \<and> mm_base_addr_low e = 0 \<and> unat (mm_length_low e) + 4095 < 2 ^ 32"

definition table_end :: "memory_map_t \<Rightarrow> vm_state \<Rightarrow> virtaddr_t" where
  "table_end e vm = sym_ebss vm + of_nat (Suc (last_page e)) * 12"

definition memory_ok :: "memory_map_t \<Rightarrow> 20 word set \<Rightarrow> vm_state \<Rightarrow> bool" where
  "memory_ok e I vm \<longleftrightarrow> 0xC0100000 \<le> unat (sym_ebss vm) \<and> unat (sym_ebss vm) + (last_page e + 1) * 12 \<le> 0xFFFC0000 \<and>
     limit_pages (table_end e vm) + 266 \<le> last_page e \<and>
     0xC0000000 \<le> unat (sym_kernel_pts vm) \<and> unat (sym_kernel_pts vm) + 0x100000 \<le> unat (sym_ebss vm) \<and>
     (\<forall>f\<in>I. unat f \<le> limit_pages (table_end e vm)) \<and> kernel_tables vm \<inter> I = {}"

definition static_data_ok :: "kaddrs \<Rightarrow> ('z, 'd) machine \<Rightarrow> bool" where
  "static_data_ok ka M \<longleftrightarrow> (\<exists>i. pm_sub (pm_obj (vm_pm (vm_of M)) (a_phys ka)) = I686_sub i) \<and>
     pm_v (pm_obj (vm_pm (vm_of M)) (a_phys ka)) = i686_physmem_v \<and> linked (pm_pages (vm_pm (vm_of M))) (\<lambda>_. []) \<and>
     a_feeder ka \<noteq> a_phys ka \<and> a_cpu ka \<noteq> 0 \<and> sym_tss (proc M) \<noteq> 0 \<and> c_srem (sym_stack (proc M)) 4 = 0 \<and>
     linked (thread_links (km_ext (km M))) (\<lambda>_. []) \<and> linked (as_regions (km_ext (km M))) (\<lambda>_. []) \<and> slinked (km_links (km M)) (\<lambda>_. []) \<and>
     (\<forall>k<4. sym_caches (km M) + of_nat k * sizeof_kmem_cache \<noteq> 0)"

text \<open>The frames that the allocators have.\<close>

definition free_frames :: "memory_map_t \<Rightarrow> vm_state \<Rightarrow> physaddr_t set" where
  "free_frames e vm = (\<lambda>m. of_nat m * 4096) ` {limit_pages (table_end e vm)<..last_page e}"

lemma unat_table_end:
  assumes "unat (sym_ebss vm) + (last_page e + 1) * 12 \<le> 0xFFFC0000"
  shows "unat (table_end e vm) = unat (sym_ebss vm) + Suc (last_page e) * 12"
proof -
  have "Suc (last_page e) * 12 < 2 ^ 32" using assms by simp
  then have "unat (of_nat (Suc (last_page e)) * 12 :: u32) = Suc (last_page e) * 12"
    by (simp add: unat_word_ariths(2) unat_of_nat mod_mult_left_eq del: of_nat_Suc)
  then show ?thesis using assms by (simp add: table_end_def unat_word_ariths(1) del: of_nat_Suc)
qed

lemma memory_ok_limit:
  assumes m: "memory_ok e I vm"
  shows "limit_pages (table_end e vm) \<le> 262080" "unat (sym_ebss vm) \<le> unat (table_end e vm)"
proof -
  have u: "unat (table_end e vm) = unat (sym_ebss vm) + Suc (last_page e) * 12" "unat (sym_ebss vm) + Suc (last_page e) * 12 \<le> 0xFFFC0000"
    using m unat_table_end[of vm e] by (simp_all add: memory_ok_def)
  then show "unat (sym_ebss vm) \<le> unat (table_end e vm)" by simp
  have "limit_pages (table_end e vm) \<le> (0x3FFC0000 + 4095) div 4096" unfolding limit_pages_def using u by (intro div_le_mono) simp
  then show "limit_pages (table_end e vm) \<le> 262080" by simp
qed

lemma free_frames_apart:
  assumes m: "memory_ok e I vm" and e: "mm_base_addr_low e = 0" "unat (mm_length_low e) + 4095 < 2 ^ 32"
  shows "frame_of ` free_frames e vm \<inter> I = {}" "kernel_tables vm \<inter> frame_of ` free_frames e vm = {}"
proof -
  have g: "last_page e < 2 ^ 20" using area_pages(4)[of e] e by simp
  have fu: "unat (frame_of (of_nat k * 4096)) = k" if "k \<le> last_page e" for k
  proof -
    have k: "k < 2 ^ 20" using that g by simp
    then have "frame_of (of_nat k * 4096) = ucast (of_nat k :: u32)" by (simp add: frame_of_def drop_bit_12 frame_number)
    then show ?thesis using k by (simp add: unsigned_ucast_eq unat_of_nat take_bit_nat_eq_self)
  qed
  have U: "\<exists>k. limit_pages (table_end e vm) < k \<and> unat f = k" if "f \<in> frame_of ` free_frames e vm" for f
    using that fu by (auto simp: free_frames_def)
  then show "frame_of ` free_frames e vm \<inter> I = {}" using m by (fastforce simp: memory_ok_def)
  have "unat f \<le> limit_pages (table_end e vm)" if f: "f \<in> kernel_tables vm" for f
  proof -
    obtain k where k: "k < 256" "f = frame_of (sym_kernel_pts vm - highstart + of_nat k * 4096)" using f by (auto simp: kernel_tables_def)
    have b: "0xC0000000 \<le> unat (sym_kernel_pts vm)" "unat (sym_kernel_pts vm) + 0x100000 \<le> unat (sym_ebss vm)" using m by (simp_all add: memory_ok_def)
    have "highstart \<le> sym_kernel_pts vm" using b(1) by (simp add: word_le_nat_alt highstart_def)
    then have d: "unat (sym_kernel_pts vm - highstart) = unat (sym_kernel_pts vm) - 0xC0000000" by (simp add: unat_sub highstart_def)
    have "unat (of_nat k * 4096 :: u32) = k * 4096" using k(1) by (simp add: unat_word_ariths(2) unat_of_nat)
    moreover have "unat (sym_ebss vm) < 2 ^ 32" by (rule order_less_le_trans[OF unsigned_less]) simp
    ultimately have u: "unat (sym_kernel_pts vm - highstart + of_nat k * 4096) = unat (sym_kernel_pts vm) - 0xC0000000 + k * 4096"
      using b k(1) by (simp add: unat_word_ariths(1) d)
    have "unat f \<le> unat (sym_kernel_pts vm - highstart + of_nat k * 4096) div 4096"
      unfolding k(2) frame_of_def by (simp add: drop_bit_12 unsigned_ucast_eq unat_div_distrib take_bit_nat_less_eq_self)
    also have "\<dots> \<le> (unat (table_end e vm) - 0xC0000000 + 4095) div 4096"
      unfolding u using b k(1) memory_ok_limit(2)[OF m] by (intro div_le_mono) simp
    finally show ?thesis by (simp add: limit_pages_def)
  qed
  then show "kernel_tables vm \<inter> frame_of ` free_frames e vm = {}" using U by fastforce
qed

lemma kmain_init_state:
  fixes M :: "('z, 'd) machine"
  assumes a: "one_area info e" and m: "memory_ok e (G \<union> B) (vm_of M)" and d: "static_data_ok ka M" and id: "identity_mapped (vm_of M)"
    and i: "image_ok env cs ds l0 Ls G (vm_of M)" and b: "test_buffers ka bl ol B (vm_of M)"
  defines "U \<equiv> free_frames e (vm_of M)"
  obtains M' n where "kmain_init ka eax handler info M = Some M'" "con M' = con M"
    "cpu_tss (proc M') = \<lparr>tss_esp0 = sym_stack (proc M) + sizeof_stack - 4, tss_ss0 = 0x10\<rparr>"
    "image_ok env cs ds l0 Ls G (vm_of M')" "test_buffers ka bl ol B (vm_of M')" "pmem (vm_of M') = pmem (vm_of M)"
    "sym_kernel_pts (vm_of M') = sym_kernel_pts (vm_of M)" "pm_supply U (10 + n) (vm_of M')" "63 \<le> card (kfree (vm_of M'))"
    "slabs_ok (km M') (\<lambda>_. [])" "fresh_cache (km M') (\<lambda>_. []) (sym_caches (km M)) sizeof_i686_thread (Some I686_init_thread_vfuncs)"
    "next_free_cache (km M') = 1" "sym_caches (km M') = sym_caches (km M)" "thread_cache (km_ext (km M')) = sym_caches (km M)"
    "bsp (km_ext (km M')) = a_cpu ka" "linked (as_regions (km_ext (km M'))) (\<lambda>_. [])" "sched_lists (a_sched ka) (km M') (\<lambda>_. [])"
    "s_v (sched_obj (km_ext (km M')) (a_sched ka)) \<noteq> None"
proof -
  note fact = that
  let ?brk = "table_end e (vm_of M)" and ?L = "sym_ebss (vm_of M)"
  obtain i' where ps: "pm_sub (pm_obj (vm_pm (vm_of M)) (a_phys ka)) = I686_sub i'" using d by (auto simp: static_data_ok_def)
  have h: "0xC0100000 \<le> unat ?L" "unat ?L + (last_page e + 1) * 12 \<le> 0xFFFFF000"
    "limit_pages (?L + of_nat (Suc (last_page e)) * 12) + 256 \<le> last_page e" "limit_pages ?brk + 266 \<le> last_page e"
    using m by (simp_all add: memory_ok_def table_end_def)
  have d': "pm_v (pm_obj (vm_pm (vm_of M)) (a_phys ka)) = i686_physmem_v" "linked (pm_pages (vm_pm (vm_of M))) (\<lambda>_. [])"
    "a_feeder ka \<noteq> a_phys ka" "sym_tss (proc M) \<noteq> 0" "c_srem (sym_stack (proc M)) 4 = 0" "a_cpu ka \<noteq> 0" "linked (thread_links (km_ext (km M))) (\<lambda>_. [])"
    "linked (as_regions (km_ext (km M))) (\<lambda>_. [])" "slinked (km_links (km M)) (\<lambda>_. [])" "sym_caches (km M) \<noteq> 0"
    using d by (simp_all add: static_data_ok_def) (auto dest: spec[of _ "0 :: nat"])
  have a': "mm_base_addr_high e = 0" "mm_length_high e = 0" "mm_type e = 1" "mm_base_addr_low e = 0" "unat (mm_length_low e) + 4095 < 2 ^ 32"
    "mi_mmap info = [e]" "mi_mmap_length info = 24" "unat (mi_mmap_addr info) + 24 < 2 ^ 32"
    using a by (simp_all add: one_area_def)
  let ?vm = "\<lambda>pm. booted_vm (a_feeder ka) pm ?brk (vm_of M)"
  let ?s = "\<lambda>pm. init_kmem ka (?vm pm) (km M)"
  obtain pm A c' where r: "kmain_init ka eax handler info M = Some (M\<lparr>km := i686_scheduler_init (a_sched ka) (?s pm), proc := c'\<rparr>)"
    "cpu_tss c' = \<lparr>tss_esp0 = sym_stack (proc M) + sizeof_stack - 4, tss_ss0 = 0x10\<rparr>"
    "feeder_set_rep (\<lambda>x. if x = a_phys ka then 256 else 0) (a_phys ka) (a_feeder ka) ?L 1024 1024 pm A U"
    "feeder_avail (a_phys ka) (a_feeder ka) pm + 256 = last_page e - limit_pages ?brk"
    by (rule kmain_init_steps[where handler = handler and eax = eax, OF h(1-3) ps d'(1,2) a' d'(3-5), folded table_end_def, folded free_frames_def, folded U_def])
  let ?N = "i686_scheduler_init (a_sched ka) (?s pm)" and ?M = "M\<lparr>km := i686_scheduler_init (a_sched ka) (?s pm), proc := c'\<rparr>"
  note k = init_kmem_fields[of ka "?vm pm" "km M"]
  have sl: "slabs_ok (?s pm) (\<lambda>_. [])" using d'(9) by (simp add: slabs_ok_def k members_def)
  have nc: "next_cache (?s pm) 0 = sym_caches (km M)" by (simp add: next_cache_def k)
  have nz: "next_cache (?s pm) 0 \<noteq> 0" "bsp (km_ext (?s pm)) \<noteq> 0" unfolding nc k using d'(6,10) by simp_all
  note si = scheduler_init_fresh[OF sl nz, where p = "a_sched ka"]
  have vm: "vm_of ?M = ?vm pm" unfolding vm_of_def[of ?M] by (simp add: si(1) k)
  have lim: "limit_pages ?brk \<le> 262080" "limit_pages ?brk < 262144" using memory_ok_limit(1)[OF m] by simp_all
  have f: "localmem (?vm pm) = a_feeder ka" "vm_pm (?vm pm) = pm" "pmem (?vm pm) = pmem (vm_of M)" "sym_kernel_pts (?vm pm) = sym_kernel_pts (vm_of M)"
    by (simp_all add: booted_vm_def)
  have n: "feeder_avail (a_phys ka) (a_feeder ka) pm = 10 + (feeder_avail (a_phys ka) (a_feeder ka) pm - 10)" using r(4) h(4) by simp
  have sup: "pm_supply U (10 + (feeder_avail (a_phys ka) (a_feeder ka) pm - 10)) (?vm pm)"
    using pm_supplyI(2)[of _ _ "?vm pm", unfolded f, OF r(3) n] .
  have l: "sched_lists (a_sched ka) ?N (\<lambda>_. [])"
    using i686_scheduler_init_lists[of "?s pm" "\<lambda>_. []" "a_sched ka"] d'(7) by (simp add: k fun_upd_idem)
  show thesis
  proof (rule fact[OF r(1), unfolded vm f])
    show "image_ok env cs ds l0 Ls G (?vm pm)" by (rule booted_vm_image(1)[OF id lim(2) i])
    show "test_buffers ka bl ol B (?vm pm)" by (rule booted_vm_image(2)[OF id lim(2) b])
    show "63 \<le> card (kfree (?vm pm))" by (rule booted_vm_kfree[OF id lim(1)])
    show "pm_supply U (10 + (feeder_avail (a_phys ka) (a_feeder ka) pm - 10)) (?vm pm)" by (rule sup)
  qed (use r(2) si(2-8) l d'(8) in \<open>simp_all add: k nc i686_scheduler_init_ext\<close>)
qed

section \<open>The console\<close>

abbreviation mods_format :: string where "mods_format \<equiv> ''mods_addr: %x'' @ nl @ ''mod_start: %x'' @ nl"
abbreviation gdt_format :: string where "gdt_format \<equiv> ''Location GDT entry: %x'' @ nl"

definition boot_literals :: "string set" where
  "boot_literals = {mods_format, gdt_format} \<union> memory_test_literals \<union> user_test_literals"

definition mods_text :: "u32 \<Rightarrow> u8 list" where
  "mods_text x = c_bytes ''mods_addr: '' @ hex_text x @ c_bytes (nl @ ''mod_start: '') @ hex_text 0 @ c_bytes nl"

definition gdt_text :: "u32 \<Rightarrow> u8 list" where
  "gdt_text x = c_bytes ''Location GDT entry: '' @ hex_text x @ c_bytes nl"

lemma boot_formats:
  "format_text str (c_bytes mods_format) [x, 0] = mods_text x" "format_text str (c_bytes gdt_format) [x] = gdt_text x"
  "format_ok S (c_bytes mods_format) [x, y]" "format_ok S (c_bytes gdt_format) [x]"
  by (simp_all add: c_bytes_def hex_text_def mods_text_def gdt_text_def)

lemma boot_texts_fit: "length (mods_text x) < 256" "length (gdt_text x) < 256"
  using hex_text_length[of x] hex_text_length[of 0] by (simp_all add: mods_text_def gdt_text_def)

text \<open>From the start of \<^verbatim>\<open>i686_kmain\<close>, \<open>T\<close> was printed: on the serial line after the divisor 12 of 9600 baud, or on the cleared screen.\<close>

definition boot_printed :: "bool \<Rightarrow> 'd console \<Rightarrow> 'd console \<Rightarrow> u8 list \<Rightarrow> bool" where
  "boot_printed serial k k' T \<longleftrightarrow> use_serial k' = serial \<and>
     (if serial then \<exists>log. port_log (ports k') = port_log (ports k) @ log \<and> sent log = 12 # T
      else screen k' = fold bootvideo_putc T (bootvideo_cls (screen k)) \<and> ports k' = ports k)"

lemma boot_printed_trans: "boot_printed b k k1 T \<Longrightarrow> printed_on k1 k2 T' \<Longrightarrow> boot_printed b k k2 (T @ T')"
  by (cases b) (auto simp: boot_printed_def printed_on_def sent_append)

lemma kmain_console_accepts:
  fixes M :: "('z, 'd) machine"
  assumes i: "image_ok env cs ds l0 Ls G (vm_of M)" and L: "boot_literals \<subseteq> Ls"
    and cmd: "cstr boot_ld (vm_of M) (mi_cmdline info) cmd" "mi_cmdline info \<noteq> 0" "unat (mi_cmdline info) + length cmd < 2 ^ 32"
    and key: "cstr boot_ld (vm_of M) (lit env ''use_serial'') (c_bytes ''use_serial'')"
    and u: "\<not> use_serial (con M)"
  obtains m k where "kmain_console env MULTIBOOT_BOOTLOADER_MAGIC info M = Some (True, (set_vm ((vm_of M)\<lparr>pmem := m\<rparr>) M)\<lparr>con := k\<rparr>)"
    "boot_printed (occurrence (c_bytes ''use_serial'') cmd \<noteq> None) (con M) k (mods_text (mi_mods_addr info))"
    "same_outside G (pmem (vm_of M)) m" "image_ok env cs ds l0 Ls G ((vm_of M)\<lparr>pmem := m\<rparr>)"
proof -
  note fact = that
  obtain serial where serial: "serial = (occurrence (c_bytes ''use_serial'') cmd \<noteq> None)" by blast
  define M1 where "M1 = M\<lparr>con := (con M)\<lparr>screen := bootvideo_cls (screen (con M))\<rparr>\<rparr>"
  define M2 where "M2 = (if serial then M1\<lparr>con := (con M1)\<lparr>use_serial := True\<rparr>\<rparr> else M1)"
  obtain p where p: "i686_tty_init (e_out env) 0 9600 (ports (con M2)) = Some p" "port_log p = port_log (ports (con M)) @
      [Out 0x3F9 0, Out 0x3FB 0x80, Out 0x3F8 12, Out 0x3F9 0, Out 0x3FB 3, Out 0x3FA 0xC7, Out 0x3FC 0x0B]"
    using i686_tty_init_log[of "e_out env" "ports (con M2)"] by (auto simp: M2_def M1_def split: if_splits)
  define M3 where "M3 = (if serial then M2\<lparr>con := (con M2)\<lparr>ports := p\<rparr>\<rparr> else M2)"
  have vm: "vm_of M1 = vm_of M" "vm_of M3 = vm_of M" "M3 = M\<lparr>con := con M3\<rparr>" by (simp_all add: M1_def M2_def M3_def vm_of_def)
  have ne: "c_bytes ''use_serial'' \<noteq> []" by (simp add: c_bytes_def)
  have cl: "parse_cmdline boot_ld (lit env ''use_serial'') (mi_cmdline info) (vm_of M) = Some serial"
    unfolding serial by (rule parse_cmdline_finds[OF cmd(1) key ne cmd(2,3)])
  have u2: "use_serial (con M2) = serial" using u by (simp add: M1_def M2_def)
  have bp: "boot_printed serial (con M) (con M3) []"
    using u p(2) by (cases serial) (simp_all add: boot_printed_def M3_def M2_def M1_def)
  have lit: "mods_format \<in> Ls" using L by (auto simp: boot_literals_def)
  have i3: "image_ok env cs ds l0 Ls G (vm_of M3)" unfolding vm(2) by (rule i)
  obtain m k where d: "kdebug env mods_format [mi_mods_addr info, 0] M3 = Some ((set_vm ((vm_of M3)\<lparr>pmem := m\<rparr>) M3)\<lparr>con := k\<rparr>)"
    "printed_on (con M3) k (mods_text (mi_mods_addr info))" "same_outside G (pmem (vm_of M3)) m" "image_ok env cs ds l0 Ls G ((vm_of M3)\<lparr>pmem := m\<rparr>)"
    by (rule kdebug_says_free[OF i3 lit boot_formats(3)[of "{}" "mi_mods_addr info" 0], unfolded boot_formats(1), OF boot_texts_fit(1)])
  have M4: "(set_vm ((vm_of M3)\<lparr>pmem := m\<rparr>) M3)\<lparr>con := k\<rparr> = (set_vm ((vm_of M)\<lparr>pmem := m\<rparr>) M)\<lparr>con := k\<rparr>"
    unfolding vm(2) by (subst vm(3)) (simp add: set_vm_def)
  have run: "kmain_console env MULTIBOOT_BOOTLOADER_MAGIC info M = Some (True, (set_vm ((vm_of M)\<lparr>pmem := m\<rparr>) M)\<lparr>con := k\<rparr>)"
    using cl d(1)[unfolded M4] p(1) u2
    by (cases serial) (simp_all add: kmain_console_def M1_def[symmetric] vm(1) M2_def M3_def Let_def)
  show thesis
    using fact[OF run] boot_printed_trans[OF bp d(2)] d(3,4) unfolding serial vm(2) by simp
qed

section \<open>Up to the tests\<close>

definition tests_ready ::
  "'d kenv \<Rightarrow> kaddrs \<Rightarrow> physaddr_t list \<Rightarrow> physaddr_t list \<Rightarrow> physaddr_t \<Rightarrow> string set \<Rightarrow> 20 word set \<Rightarrow> (nat \<Rightarrow> physaddr_t) \<Rightarrow> (nat \<Rightarrow> physaddr_t) \<Rightarrow>
   20 word set \<Rightarrow> physaddr_t set \<Rightarrow> nat \<Rightarrow> ('z, 'd) machine \<Rightarrow> bool" where
  "tests_ready env ka cs ds l0 Ls G bl ol B U n M \<longleftrightarrow>
     image_ok env cs ds l0 Ls G (vm_of M) \<and> boot_literals \<subseteq> Ls \<and> test_buffers ka bl ol B (vm_of M) \<and>
     B \<inter> G = {} \<and> frame_of ` U \<inter> (G \<union> B) = {} \<and> kernel_tables (vm_of M) \<inter> (frame_of ` U \<union> G \<union> B) = {} \<and>
     pm_supply U (10 + n) (vm_of M) \<and> 63 \<le> card (kfree (vm_of M)) \<and> slabs_ok (km M) (\<lambda>_. []) \<and>
     fresh_cache (km M) (\<lambda>_. []) (sym_caches (km M)) sizeof_i686_thread (Some I686_init_thread_vfuncs) \<and>
     thread_cache (km_ext (km M)) = sym_caches (km M) \<and> next_free_cache (km M) = 1 \<and>
     (\<forall>k<4. sym_caches (km M) + of_nat k * sizeof_kmem_cache \<noteq> 0) \<and> bsp (km_ext (km M)) \<noteq> 0 \<and>
     linked (as_regions (km_ext (km M))) (\<lambda>_. []) \<and> sched_lists (a_sched ka) (km M) (\<lambda>_. []) \<and> s_v (sched_obj (km_ext (km M)) (a_sched ka)) \<noteq> None"

text \<open>The conditions of the start, without those for the page tables.\<close>

definition boot_ready ::
  "'d kenv \<Rightarrow> kaddrs \<Rightarrow> multiboot_info_t \<Rightarrow> memory_map_t \<Rightarrow> u8 list \<Rightarrow> physaddr_t list \<Rightarrow> physaddr_t list \<Rightarrow> physaddr_t \<Rightarrow> string set \<Rightarrow> 20 word set \<Rightarrow>
   (nat \<Rightarrow> physaddr_t) \<Rightarrow> (nat \<Rightarrow> physaddr_t) \<Rightarrow> 20 word set \<Rightarrow> ('z, 'd) machine \<Rightarrow> bool" where
  "boot_ready env ka info e cmd cs ds l0 Ls G bl ol B M \<longleftrightarrow>
     one_area info e \<and> memory_ok e (G \<union> B) (vm_of M) \<and> static_data_ok ka M \<and> image_ok env cs ds l0 Ls G (vm_of M) \<and> boot_literals \<subseteq> Ls \<and>
     test_buffers ka bl ol B (vm_of M) \<and> B \<inter> G = {} \<and>
     cstr boot_ld (vm_of M) (mi_cmdline info) cmd \<and> mi_cmdline info \<noteq> 0 \<and> unat (mi_cmdline info) + length cmd < 2 ^ 32 \<and>
     cstr boot_ld (vm_of M) (lit env ''use_serial'') (c_bytes ''use_serial'') \<and> \<not> use_serial (con M)"

lemma kmain_front:
  fixes M :: "('z, 'd) machine"
  assumes R: "boot_ready env ka info e cmd cs ds l0 Ls G bl ol B M" and id: "identity_mapped (vm_of M)"
  obtains M1 M2 M3 n where "kmain_console env MULTIBOOT_BOOTLOADER_MAGIC info M = Some (True, M1)" "kmain_init ka eax handler info M1 = Some M2"
    "kdebug env gdt_format [sym_gdt (proc M2)] M2 = Some M3" "tests_ready env ka cs ds l0 Ls G bl ol B (free_frames e (vm_of M)) n M3"
    "cpu_tss (proc M3) = \<lparr>tss_esp0 = sym_stack (proc M) + sizeof_stack - 4, tss_ss0 = 0x10\<rparr>" "sym_kernel_pts (vm_of M3) = sym_kernel_pts (vm_of M)"
    "boot_printed (occurrence (c_bytes ''use_serial'') cmd \<noteq> None) (con M) (con M3) (mods_text (mi_mods_addr info) @ gdt_text (sym_gdt (proc M3)))"
proof -
  note fact = that
  have h: "one_area info e" "memory_ok e (G \<union> B) (vm_of M)" "static_data_ok ka M" "image_ok env cs ds l0 Ls G (vm_of M)" "boot_literals \<subseteq> Ls"
     "test_buffers ka bl ol B (vm_of M)" "B \<inter> G = {}"
     "cstr boot_ld (vm_of M) (mi_cmdline info) cmd" "mi_cmdline info \<noteq> 0" "unat (mi_cmdline info) + length cmd < 2 ^ 32"
     "cstr boot_ld (vm_of M) (lit env ''use_serial'') (c_bytes ''use_serial'')" "\<not> use_serial (con M)"
    using R by (simp_all add: boot_ready_def)
  have lit: "gdt_format \<in> Ls" using h(5) by (auto simp: boot_literals_def)
  obtain m k where c: "kmain_console env MULTIBOOT_BOOTLOADER_MAGIC info M = Some (True, (set_vm ((vm_of M)\<lparr>pmem := m\<rparr>) M)\<lparr>con := k\<rparr>)"
    "boot_printed (occurrence (c_bytes ''use_serial'') cmd \<noteq> None) (con M) k (mods_text (mi_mods_addr info))"
    "same_outside G (pmem (vm_of M)) m" "image_ok env cs ds l0 Ls G ((vm_of M)\<lparr>pmem := m\<rparr>)"
    by (rule kmain_console_accepts[OF h(4,5,8-12)])
  let ?M1 = "(set_vm ((vm_of M)\<lparr>pmem := m\<rparr>) M)\<lparr>con := k\<rparr>"
  have v1: "vm_of ?M1 = (vm_of M)\<lparr>pmem := m\<rparr>" "km ?M1 = (km M)\<lparr>km_vm := (vm_of M)\<lparr>pmem := m\<rparr>\<rparr>" "proc ?M1 = proc M" "con ?M1 = k" by simp_all
  have m1: "memory_ok e (G \<union> B) (vm_of ?M1)" using h(2) by (simp add: v1 memory_ok_def table_end_def kernel_tables_def)
  have d1: "static_data_ok ka ?M1" using h(3) unfolding static_data_ok_def v1 by simp
  have id1: "identity_mapped (vm_of ?M1)" using id by (simp add: v1 identity_mapped_def)
  have i1: "image_ok env cs ds l0 Ls G (vm_of ?M1)" unfolding v1 by (rule c(4))
  have b1: "test_buffers ka bl ol B (vm_of ?M1)" unfolding v1 by (rule test_buffers_ext[OF h(6) vm_ext_pmem[OF c(3)]])
  have U: "free_frames e (vm_of ?M1) = free_frames e (vm_of M)" by (simp add: v1 free_frames_def table_end_def)
  let ?U = "free_frames e (vm_of M)"
  obtain M2 n where M2: "kmain_init ka eax handler info ?M1 = Some M2" "con M2 = con ?M1"
    "cpu_tss (proc M2) = \<lparr>tss_esp0 = sym_stack (proc ?M1) + sizeof_stack - 4, tss_ss0 = 0x10\<rparr>"
    and s2: "image_ok env cs ds l0 Ls G (vm_of M2)" "test_buffers ka bl ol B (vm_of M2)" "pmem (vm_of M2) = pmem (vm_of ?M1)"
    "sym_kernel_pts (vm_of M2) = sym_kernel_pts (vm_of ?M1)" "pm_supply ?U (10 + n) (vm_of M2)" "63 \<le> card (kfree (vm_of M2))"
    and k2: "slabs_ok (km M2) (\<lambda>_. [])" "fresh_cache (km M2) (\<lambda>_. []) (sym_caches (km ?M1)) sizeof_i686_thread (Some I686_init_thread_vfuncs)"
    "next_free_cache (km M2) = 1" "sym_caches (km M2) = sym_caches (km ?M1)" "thread_cache (km_ext (km M2)) = sym_caches (km ?M1)"
    "bsp (km_ext (km M2)) = a_cpu ka" "linked (as_regions (km_ext (km M2))) (\<lambda>_. [])" "sched_lists (a_sched ka) (km M2) (\<lambda>_. [])"
    "s_v (sched_obj (km_ext (km M2)) (a_sched ka)) \<noteq> None"
    by (rule kmain_init_state[OF h(1) m1 d1 id1 i1 b1, where handler = handler and eax = eax, unfolded U])
  obtain m3 k3 where g: "kdebug env gdt_format [sym_gdt (proc M2)] M2 = Some ((set_vm ((vm_of M2)\<lparr>pmem := m3\<rparr>) M2)\<lparr>con := k3\<rparr>)"
    "printed_on (con M2) k3 (gdt_text (sym_gdt (proc M2)))" "same_outside G (pmem (vm_of M2)) m3" "image_ok env cs ds l0 Ls G ((vm_of M2)\<lparr>pmem := m3\<rparr>)"
    by (rule kdebug_says_free[OF s2(1) lit boot_formats(4)[of "{}" "sym_gdt (proc M2)"], unfolded boot_formats(2), OF boot_texts_fit(2)])
  let ?M3 = "(set_vm ((vm_of M2)\<lparr>pmem := m3\<rparr>) M2)\<lparr>con := k3\<rparr>"
  have v3: "vm_of ?M3 = (vm_of M2)\<lparr>pmem := m3\<rparr>" "km ?M3 = (km M2)\<lparr>km_vm := (vm_of M2)\<lparr>pmem := m3\<rparr>\<rparr>" "proc ?M3 = proc M2" "con ?M3 = k3" by simp_all
  have e3: "vm_ext G (vm_of M2) ((vm_of M2)\<lparr>pmem := m3\<rparr>)" by (rule vm_ext_pmem[OF g(3)])
  have sl3: "slabs_ok (km ?M3) (\<lambda>_. [])" by (rule slabs_ok_ext[OF k2(1), where F = G]) (use e3 in \<open>simp_all add: vm_of_def\<close>)
  have fr: "frame_of ` ?U \<inter> (G \<union> B) = {}" "kernel_tables (vm_of M) \<inter> frame_of ` ?U = {}" "kernel_tables (vm_of M) \<inter> (G \<union> B) = {}"
    using free_frames_apart[OF h(2)] h(1,2) by (simp_all add: one_area_def memory_ok_def)
  have sk: "sym_kernel_pts (vm_of ?M3) = sym_kernel_pts (vm_of M)" using s2(4) by simp
  then have kt: "kernel_tables (vm_of ?M3) = kernel_tables (vm_of M)" by (simp add: kernel_tables_def)
  have sc: "sym_caches (km ?M3) = sym_caches (km M)" "\<forall>k<4. sym_caches (km M) + of_nat k * sizeof_kmem_cache \<noteq> 0" "a_cpu ka \<noteq> 0"
    using k2(4) h(3) by (simp_all add: static_data_ok_def)
  have kf: "kfree ((vm_of M2)\<lparr>pmem := m3\<rparr>) = kfree (vm_of M2)" by (simp add: kfree_def)
  have "pm_supply ?U (10 + n) ((vm_of M2)\<lparr>pmem := m3\<rparr>)" using s2(5) pm_supply_cong[of "(vm_of M2)\<lparr>pmem := m3\<rparr>" "vm_of M2"] by simp
  moreover have "test_buffers ka bl ol B ((vm_of M2)\<lparr>pmem := m3\<rparr>)" by (rule test_buffers_ext[OF s2(2) e3])
  moreover have "kernel_tables (vm_of M) \<inter> (frame_of ` ?U \<union> G \<union> B) = {}" using fr(2,3) by blast
  moreover have "fresh_cache (km ?M3) (\<lambda>_. []) (sym_caches (km M)) sizeof_i686_thread (Some I686_init_thread_vfuncs)"
    using k2(2) by (simp add: fresh_cache_def)
  ultimately have "tests_ready env ka cs ds l0 Ls G bl ol B ?U n ?M3"
    unfolding tests_ready_def kt sc(1) unfolding v3 using g(4) h(5,7) fr(1) s2(6) kf sl3[unfolded v3] k2 sc by (simp add: sched_lists_def)
  then show thesis
    using fact[OF c(1) M2(1) g(1), of n] M2(3) sk boot_printed_trans[OF c(2) g(2)[unfolded M2(2) v1(4)]] by simp
qed

section \<open>The tests\<close>

text \<open>The four caches are at different places of the array.\<close>

lemma cache_index_inj:
  fixes s :: "'x kmem_state"
  assumes "sym_caches s + of_nat k * sizeof_kmem_cache = sym_caches s + of_nat l * sizeof_kmem_cache" "k < 2 ^ 20" "l < 2 ^ 20"
  shows "k = l"
  using next_cache_inj[of k l "s\<lparr>next_free_cache := 0\<rparr>"] assms by (simp add: next_cache_def)

lemma kmain_tests:
  fixes M :: "('z, 'd) machine"
  assumes R: "tests_ready env ka cs ds l0 Ls G bl ol B U n M"
  obtains a p q c ob M1 as M2 H pd f g U' k where "kmain_test_memory env i686_run M = Some (a, M1)" "kmain_test_user env ka i686_run a M1 = Some (as, M2)"
    "printed_on (con M) (con M2) (memory_test_text a p c ob @ user_test_text)" "proc M2 = proc M"
    "slabs_ok (km M2) H" "fresh_cache (km M2) H (thread_cache (km_ext (km M2))) sizeof_i686_thread (Some I686_init_thread_vfuncs)"
    "s_v (sched_obj (km_ext (km M2)) (a_sched ka)) \<noteq> None" "sched_lists (a_sched ka) (km M2) (\<lambda>_. [])"
    "U' \<subseteq> U" "pm_supply U' (Suc k) (vm_of M2)" "3 \<le> card (kfree (vm_of M2))" "as \<noteq> 0"
    "as_obj (km_ext (km M2)) as = \<lparr>as_v = Some I686_as_vfuncs, as_pd = pd\<rparr>" "pd mod 4096 = 0" "pd \<in> U" "space_ok pd U' (vm_of M2)"
    "two_pages (pmem (vm_of M2)) pd f g" "{f, g} \<subseteq> frame_of ` (U - U')" "{f, g} \<inter> insert (frame_of pd) (tables (pmem (vm_of M2)) pd) = {}" "f \<noteq> g"
    "pmem (vm_of M2) (user_loc (pmem (vm_of M2)) pd 0x1000000) = 0xEB" "pmem (vm_of M2) (user_loc (pmem (vm_of M2)) pd 0x1000001) = 0xFE"
    "\<forall>i<49. pmem (vm_of M2) (user_loc (pmem (vm_of M2)) pd (0x1000FFC + of_nat i)) = (c_bytes user_message @ [0]) ! i"
    "\<forall>va. highstart \<le> va \<longrightarrow> user_pde (pmem (vm_of M2)) pd va = shared_pde (vm_of M) (va div 4194304 - 768)"
    "sym_kernel_pts (vm_of M2) = sym_kernel_pts (vm_of M)"
proof -
  note fact = that
  have h: "image_ok env cs ds l0 Ls G (vm_of M)" "boot_literals \<subseteq> Ls" "test_buffers ka bl ol B (vm_of M)"
     "B \<inter> G = {}" "frame_of ` U \<inter> (G \<union> B) = {}" "kernel_tables (vm_of M) \<inter> (frame_of ` U \<union> G \<union> B) = {}"
     "pm_supply U (Suc (Suc (8 + n))) (vm_of M)" "63 \<le> card (kfree (vm_of M))" "slabs_ok (km M) (\<lambda>_. [])"
     "fresh_cache (km M) (\<lambda>_. []) (sym_caches (km M)) sizeof_i686_thread (Some I686_init_thread_vfuncs)"
     "thread_cache (km_ext (km M)) = sym_caches (km M)" "next_free_cache (km M) = 1"
     "\<forall>k<4. sym_caches (km M) + of_nat k * sizeof_kmem_cache \<noteq> 0" "bsp (km_ext (km M)) \<noteq> 0"
     "linked (as_regions (km_ext (km M))) (\<lambda>_. [])" "sched_lists (a_sched ka) (km M) (\<lambda>_. [])" "s_v (sched_obj (km_ext (km M)) (a_sched ka)) \<noteq> None"
    using R by (simp_all add: tests_ready_def)
  let ?ix = "\<lambda>k :: nat. sym_caches (km M) + of_nat k * sizeof_kmem_cache"
  have L: "memory_test_literals \<subseteq> Ls" "user_test_literals \<subseteq> Ls" using h(2) by (simp_all add: boot_literals_def)
  have k2: "2 \<le> card (kfree (vm_of M))" and d: "frame_of ` U \<inter> G = {}" using h(5,8) by auto
  have c0: "fst (kmem_alloc (km M)) = ?ix 1" unfolding kmem_alloc_next next_cache_def h(12) by simp
  have c1: "?ix 1 = fst (kmem_alloc (km M))" by (rule c0[symmetric])
  have cz: "?ix 1 \<noteq> 0" by (rule h(13)[rule_format]) simp
  obtain a p ob q j M1 where m: "kmain_test_memory env i686_run M = Some (a, M1)" "M1 = M\<lparr>km := km M1, con := con M1\<rparr>" "km_ext (km M1) = km_ext (km M)"
    "next_free_cache (km M1) = next_free_cache (km M) + 1" "sym_caches (km M1) = sym_caches (km M)" "\<forall>c'. c' \<noteq> ?ix 1 \<longrightarrow> km_cache (km M1) c' = km_cache (km M) c'"
    "slabs_ok (km M1) ((\<lambda>_. [])(Slabs_empty (?ix 1) := [], Slabs_full (?ix 1) := [], Slabs_partial (?ix 1) := [kaddr j]))"
    "p \<in> U" "q \<in> U" "p \<noteq> q" "pm_supply (U - {p, q}) (8 + n) (vm_of M1)" "image_ok env cs ds l0 Ls G (vm_of M1)"
    "card (kfree (vm_of M)) = card (kfree (vm_of M1)) + 2" "vm_ext (frame_of ` {p, q} \<union> G) (vm_of M) (vm_of M1)"
    "kvirt_loc (vm_of M1) a = Some p" "text_in {frame_of p} (vm_of M1) a (c_bytes memory_message)"
    "text_in {frame_of q} (vm_of M1) ob (c_bytes slab_message)" "sym_kernel_pts (vm_of M1) = sym_kernel_pts (vm_of M)"
    "printed_on (con M) (con M1) (memory_test_text a p (?ix 1) ob)"
    by (rule kmain_test_memory_ok[OF h(1) L(1) h(7) k2 d h(9) c1 cz h(14), where run = i686_run])
  let ?H = "(\<lambda>_. [])(Slabs_empty (?ix 1) := [], Slabs_full (?ix 1) := [], Slabs_partial (?ix 1) := [kaddr j])"
  let ?U = "U - {p, q}"
  have nc: "next_cache (km M1) 0 = ?ix 2" "next_cache (km M1) 1 = ?ix 3" unfolding next_cache_def m(4,5) h(12) by simp_all
  have ncz: "?ix 2 \<noteq> 0" "?ix 3 \<noteq> 0" by (rule h(13)[rule_format]; simp)+
  have kt: "kernel_tables (vm_of M1) = kernel_tables (vm_of M)" by (simp add: kernel_tables_def m(18))
  have b1: "test_buffers ka bl ol B (vm_of M1)" by (rule test_buffers_ext[OF h(3) m(14)])
  have s1: "pm_supply ?U (7 + Suc n) (vm_of M1)" using m(11) by simp
  have fr: "frame_of ` ?U \<inter> (G \<union> B) = {}" "kernel_tables (vm_of M) \<inter> (frame_of ` ?U \<union> G \<union> B) = {}" using h(5,6) by blast+
  have "42 \<le> card (kfree (vm_of M1))" using h(8) m(13) by simp
  then have R1: "user_test_ready env ka cs ds l0 Ls G bl ol B ?H ?U (Suc n) M1"
    unfolding user_test_ready_def nc kt m(3) using m(12) L(2) b1 h(4) fr m(7) ncz h(14,15) s1 by blast
  obtain as M2 pd f g U' k' ao mo ar i j' where u: "kmain_test_user env ka i686_run a M1 = Some (as, M2)" "M2 = M1\<lparr>km := km M2, con := con M2\<rparr>"
    "printed_on (con M1) (con M2) user_test_text" "as \<noteq> 0" "as_obj (km_ext (km M2)) as = \<lparr>as_v = Some I686_as_vfuncs, as_pd = pd\<rparr>" "pd mod 4096 = 0" "pd \<in> ?U"
    "space_ok pd U' (vm_of M2)" "U' \<subseteq> ?U" "pm_supply U' k' (vm_of M2)" "Suc n \<le> k'" "two_pages (pmem (vm_of M2)) pd f g"
    "{f, g} \<subseteq> frame_of ` (?U - U')" "{f, g} \<inter> insert (frame_of pd) (tables (pmem (vm_of M2)) pd) = {}" "f \<noteq> g"
    "pmem (vm_of M2) (user_loc (pmem (vm_of M2)) pd 0x1000000) = 0xEB" "pmem (vm_of M2) (user_loc (pmem (vm_of M2)) pd 0x1000001) = 0xFE"
    "\<forall>i<49. pmem (vm_of M2) (user_loc (pmem (vm_of M2)) pd (0x1000FFC + of_nat i)) = (c_bytes user_message @ [0]) ! i"
    "\<forall>va. highstart \<le> va \<longrightarrow> user_pde (pmem (vm_of M2)) pd va = shared_pde (vm_of M1) (va div 4194304 - 768)"
    "image_ok env cs ds l0 Ls G (vm_of M2)" "vm_ext (frame_of ` ?U \<union> kernel_tables (vm_of M1) \<union> G \<union> B) (vm_of M1) (vm_of M2)"
    "card (kfree (vm_of M1)) \<le> card (kfree (vm_of M2)) + 42"
    "km_ext (km M2) = (km_ext (km M1))\<lparr>as_cache := ?ix 2, mr_cache := ?ix 3, as_obj := ao, mr_obj := mo, as_regions := ar\<rparr>"
    "slabs_ok (km M2) ((no_slabs (?ix 3) (no_slabs (?ix 2) ?H))(Slabs_partial (?ix 2) := [kaddr i], Slabs_partial (?ix 3) := [kaddr j']))"
    "\<forall>c. c \<noteq> ?ix 2 \<longrightarrow> c \<noteq> ?ix 3 \<longrightarrow> km_cache (km M2) c = km_cache (km M1) c"
    "sym_kernel_pts (vm_of M2) = sym_kernel_pts (vm_of M1)"
    by (rule kmain_test_user_ok[OF R1, unfolded nc, where ?a0.0 = a])
  have ne: "sym_caches (km M) \<noteq> ?ix l" if "l \<in> {1, 2, 3}" for l using cache_index_inj[of "km M" 0 l] that by auto
  have tc: "km_cache (km M2) (sym_caches (km M)) = km_cache (km M) (sym_caches (km M))"
    using u(25) m(6) ne[of 1] ne[of 2] ne[of 3] by simp
  let ?H2 = "(no_slabs (?ix 3) (no_slabs (?ix 2) ?H))(Slabs_partial (?ix 2) := [kaddr i], Slabs_partial (?ix 3) := [kaddr j'])"
  have hl: "?H2 (Slabs_partial (sym_caches (km M))) = []" "?H2 (Slabs_empty (sym_caches (km M))) = []"
    using ne[of 1] ne[of 2] ne[of 3] by (simp_all add: no_slabs_def)
  have th: "thread_cache (km_ext (km M2)) = sym_caches (km M)" "sched_obj (km_ext (km M2)) = sched_obj (km_ext (km M))"
    "thread_links (km_ext (km M2)) = thread_links (km_ext (km M))" "thread_obj (km_ext (km M2)) = thread_obj (km_ext (km M))"
    "next_tid (km_ext (km M2)) = next_tid (km_ext (km M))"
    unfolding u(23) m(3) using h(11) by simp_all
  have fc: "fresh_cache (km M2) ?H2 (thread_cache (km_ext (km M2))) sizeof_i686_thread (Some I686_init_thread_vfuncs)"
    using h(10) hl unfolding fresh_cache_def th(1) tc by blast
  have nl: "sched_lists (a_sched ka) (km M2) (\<lambda>_. [])" using h(16) unfolding sched_lists_def th by (simp add: members_def)
  obtain k where k: "k' = Suc k" using u(11) by (cases k') auto
  have pr: "proc M2 = proc M" using u(2) m(2) by (metis machine.select_convs(2) machine.surjective machine.update_convs(1,3))
  show thesis
    by (rule fact[OF m(1) u(1) printed_on_trans[OF m(19) u(3)] pr u(24) fc _ nl _ u(10)[unfolded k] _ u(4-6) _ u(8,12) _ u(14-18)])
      (use h(17) th(2) u(7,9,13,19,22,26) m(13) h(8) m(18) in \<open>auto simp: shared_pde_def\<close>)
qed

section \<open>To the user's first instruction\<close>

lemma user_pte_same_pde:
  assumes "same_outside F m m'" "user_pde m' pd va = user_pde m pd va" "tables m pd \<inter> F = {}"
  shows "user_pte m' pd va = user_pte m pd va"
proof (cases "pd_present (user_pde m pd va)")
  case True
  then have "pd_phys_addr (user_pde m pd va) \<notin> F" using assms(3) by (auto simp: tables_def)
  from load32_same_outside[OF assms(1) this unat_pt_index[of va]] show ?thesis
    by (simp add: user_pte_def pt_slot_def assms(2))
qed (simp add: user_pte_def assms(2))

text \<open>
  The test program: the two pages at \<open>0x1000000\<close> are the user's, the first two bytes are an instruction that jumps to itself, and the
  string of the test is at \<open>0x1000FFC\<close>, on both pages.
\<close>

definition test_program :: "(physaddr_t \<Rightarrow> u8) \<Rightarrow> physaddr_t \<Rightarrow> bool" where
  "test_program m pd \<longleftrightarrow> (\<exists>f g. f \<noteq> g \<and> two_pages m pd f g) \<and> m (user_loc m pd 0x1000000) = 0xEB \<and> m (user_loc m pd 0x1000001) = 0xFE \<and>
     (\<forall>i<49. m (user_loc m pd (0x1000FFC + of_nat i)) = (c_bytes user_message @ [0]) ! i)"

lemma test_program_same:
  assumes o: "same_outside F m m'" and d: "\<forall>va<highstart. user_pde m' pd va = user_pde m pd va" and tb: "tables m pd \<inter> F = {}"
    and t: "two_pages m pd f g" "f \<noteq> g" "{f, g} \<inter> F = {}" and p: "test_program m pd"
  shows "test_program m' pd"
proof -
  have low: "x < highstart" if "unat x < 0x1002000" for x :: u32 using that by (simp add: highstart_def word_less_nat_alt)
  have d': "user_pde m' pd x = user_pde m pd x" "user_pte m' pd x = user_pte m pd x" if "unat x < 0x1002000" for x
    using d low[OF that] user_pte_same_pde[OF o _ tb] by blast+
  have l: "user_loc m' pd x = user_loc m pd x" if "unat x < 0x1002000" for x using d'[OF that] by (simp add: user_loc_def)
  have tp: "two_pages m' pd f g" using t(1) d' by (simp add: two_pages_def)
  have s: "m' (user_loc m' pd x) = m (user_loc m pd x)" if x: "0x1000000 \<le> unat x" "unat x < 0x1002000" for x
  proof -
    have "frame_of (user_loc m pd x) \<notin> F" using two_pages_cell_frame[OF t(1) x] t(3) by auto
    then show ?thesis using o l[OF x(2)] by (simp add: same_outside_def)
  qed
  have i: "m' (user_loc m' pd (0x1000FFC + of_nat i)) = m (user_loc m pd (0x1000FFC + of_nat i))" if "i < 49" for i
    by (rule s) (use that in \<open>simp_all add: unat_word_ariths(1) unat_of_nat\<close>)
  have "m' (user_loc m' pd 0x1000000) = m (user_loc m pd 0x1000000)" "m' (user_loc m' pd 0x1000001) = m (user_loc m pd 0x1000001)"
    by (rule s; simp)+
  then show ?thesis unfolding test_program_def using p i tp t(2) by (auto simp: test_program_def)
qed

text \<open>What holds when the processor leaves the kernel; \<open>vm0\<close> is the memory at the start, whose image has the tables of the kernel.\<close>

definition in_user_space :: "sched_ptr \<Rightarrow> vm_state \<Rightarrow> ('z, 'd) machine \<Rightarrow> bool" where
  "in_user_space p vm0 M \<longleftrightarrow>
     (let x = km_ext (km M); t = s_current (sched_obj x p); pd = as_pd (as_obj x (t_space (thread_obj x t))) in
      t \<noteq> 0 \<and> t_state (thread_obj x t) = THREAD_RUNNABLE \<and> sched_lists p (km M) ((\<lambda>_. [])(Runnable p := [t])) \<and>
      cr3 (vm_of M) = pd \<and> test_program (pmem (vm_of M)) pd \<and>
      (\<forall>va. highstart \<le> va \<longrightarrow> user_pde (pmem (vm_of M)) pd va = shared_pde vm0 (va div 4194304 - 768)))"

lemma free_frames_inj: "inj_on frame_of (free_frames e vm)"
proof (rule inj_onI)
  fix x y assume x: "x \<in> free_frames e vm" "y \<in> free_frames e vm" and f: "frame_of x = frame_of y"
  have "z mod 4096 = 0" if "z \<in> free_frames e vm" for z
    using that by (auto simp: free_frames_def word_unat_eq_iff unat_mod_distrib unat_word_ariths(2) mod_mod_cancel)
  then have "frame_addr (frame_of x) = x" "frame_addr (frame_of y) = y" using x by (simp_all add: frame_addr_frame_of_aligned)
  then show "x = y" using f by metis
qed

lemma kmain_boots:
  fixes M :: "('z, 'd) machine"
  assumes R: "boot_ready env ka info e cmd cs ds l0 Ls G bl ol B M" and id: "identity_mapped (vm_of M)"
  obtains M' a p c ob where "i686_kmain env ka eax handler MULTIBOOT_BOOTLOADER_MAGIC info M = Some (User entry_regs, M')"
    "boot_printed (occurrence (c_bytes ''use_serial'') cmd \<noteq> None) (con M) (con M')
       (mods_text (mi_mods_addr info) @ gdt_text (sym_gdt (proc M')) @ memory_test_text a p c ob @ user_test_text)"
    "in_user_space (a_sched ka) (vm_of M) M'" "cpu_tss (proc M') = \<lparr>tss_esp0 = sym_stack (proc M) + sizeof_stack - 4, tss_ss0 = 0x10\<rparr>"
proof -
  note fact = that
  obtain M1 M2 M3 n where m: "kmain_console env MULTIBOOT_BOOTLOADER_MAGIC info M = Some (True, M1)" "kmain_init ka eax handler info M1 = Some M2"
    "kdebug env gdt_format [sym_gdt (proc M2)] M2 = Some M3" "tests_ready env ka cs ds l0 Ls G bl ol B (free_frames e (vm_of M)) n M3"
    "cpu_tss (proc M3) = \<lparr>tss_esp0 = sym_stack (proc M) + sizeof_stack - 4, tss_ss0 = 0x10\<rparr>" "sym_kernel_pts (vm_of M3) = sym_kernel_pts (vm_of M)"
    "boot_printed (occurrence (c_bytes ''use_serial'') cmd \<noteq> None) (con M) (con M3) (mods_text (mi_mods_addr info) @ gdt_text (sym_gdt (proc M3)))"
    by (rule kmain_front[OF R id])
  let ?U = "free_frames e (vm_of M)"
  obtain a p q c ob M4 as M5 H pd f g U' k where t: "kmain_test_memory env i686_run M3 = Some (a, M4)" "kmain_test_user env ka i686_run a M4 = Some (as, M5)"
    "printed_on (con M3) (con M5) (memory_test_text a p c ob @ user_test_text)" "proc M5 = proc M3"
    and s: "slabs_ok (km M5) H" "fresh_cache (km M5) H (thread_cache (km_ext (km M5))) sizeof_i686_thread (Some I686_init_thread_vfuncs)"
    "s_v (sched_obj (km_ext (km M5)) (a_sched ka)) \<noteq> None" "sched_lists (a_sched ka) (km M5) (\<lambda>_. [])"
    "U' \<subseteq> ?U" "pm_supply U' (Suc k) (vm_of M5)" "3 \<le> card (kfree (vm_of M5))" "as \<noteq> 0"
    and o: "as_obj (km_ext (km M5)) as = \<lparr>as_v = Some I686_as_vfuncs, as_pd = pd\<rparr>" "pd mod 4096 = 0" "pd \<in> ?U" "space_ok pd U' (vm_of M5)"
    and pg: "two_pages (pmem (vm_of M5)) pd f g" "{f, g} \<subseteq> frame_of ` (?U - U')" "{f, g} \<inter> insert (frame_of pd) (tables (pmem (vm_of M5)) pd) = {}" "f \<noteq> g"
    "pmem (vm_of M5) (user_loc (pmem (vm_of M5)) pd 0x1000000) = 0xEB" "pmem (vm_of M5) (user_loc (pmem (vm_of M5)) pd 0x1000001) = 0xFE"
    "\<forall>i<49. pmem (vm_of M5) (user_loc (pmem (vm_of M5)) pd (0x1000FFC + of_nat i)) = (c_bytes user_message @ [0]) ! i"
    "\<forall>va. highstart \<le> va \<longrightarrow> user_pde (pmem (vm_of M5)) pd va = shared_pde (vm_of M3) (va div 4194304 - 768)"
    "sym_kernel_pts (vm_of M5) = sym_kernel_pts (vm_of M3)"
    by (rule kmain_tests[OF m(4)])
  have k3: "3 \<le> card (kfree (km_vm (km M5)))" and su: "pm_supply U' (Suc k) (km_vm (km M5))" using s(6,7) by (simp_all add: vm_of_def)
  have opd: "as_pd (as_obj (km_ext (km M5)) as) = pd" by (simp add: o(1))
  obtain t' q' s' where st: "start_thread i686_run (a_sched ka) as (km M5) = Some (entry_regs, s')" "s_current (sched_obj (km_ext s') (a_sched ka)) = t'" "t' \<noteq> 0"
    "t_state (thread_obj (km_ext s') t') = THREAD_RUNNABLE" "t_space (thread_obj (km_ext s') t') = as"
    "sched_lists (a_sched ka) s' ((\<lambda>_. [])(Runnable (a_sched ka) := [t']))"
    "cr3 (km_vm s') = pd" "q' \<in> U'" "vm_ext {frame_of q', frame_of pd} (km_vm (km M5)) (km_vm s')" "as_obj (km_ext s') = as_obj (km_ext (km M5))"
    "sym_kernel_pts (km_vm s') = sym_kernel_pts (km_vm (km M5))"
    "\<forall>va. highstart \<le> va \<longrightarrow> user_pde (pmem (km_vm s')) pd va = shared_pde (km_vm (km M5)) (va div 4194304 - 768)"
    "frame_of q' \<noteq> frame_of pd \<longrightarrow> (\<forall>va<highstart. user_pde (pmem (km_vm s')) pd va = user_pde (pmem (km_vm (km M5))) pd va)"
    by (rule start_thread_ok[OF s(1-4) su k3 s(8) opd o(2)])
  let ?M' = "M5\<lparr>km := s'\<rparr>" and ?m = "pmem (vm_of M5)" and ?F = "{frame_of q', frame_of pd}"
  have sp: "frame_of pd \<notin> frame_of ` U'" "tables ?m pd \<inter> frame_of ` U' = {}" "frame_of pd \<notin> tables ?m pd"
    using o(4) wf_pdD(2)[of ?m pd] by (auto simp: space_ok_def)
  have q'U: "frame_of q' \<in> frame_of ` U'" using st(8) by (rule imageI)
  then have q': "frame_of q' \<noteq> frame_of pd" using sp(1) by metis
  have tb: "tables ?m pd \<inter> ?F = {}" using sp(2,3) q'U by blast
  have inj: "inj_on frame_of ?U" by (rule free_frames_inj)
  have fg: "{f, g} \<inter> ?F = {}"
  proof -
    have "frame_of q' \<notin> frame_of ` (?U - U')" using inj st(8) s(5) by (auto dest: inj_onD)
    then show ?thesis using pg(2,3) by auto
  qed
  have so: "same_outside ?F ?m (pmem (km_vm s'))" using st(9) by (simp add: vm_ext_def vm_of_def)
  have tp: "test_program ?m pd" unfolding test_program_def using pg(1,4-7) by blast
  have pr: "test_program (pmem (km_vm s')) pd"
    by (rule test_program_same[OF so _ tb pg(1,4) fg tp]) (use st(13)[rule_format, OF q'] in \<open>simp add: vm_of_def\<close>)
  have run: "i686_kmain env ka eax handler MULTIBOOT_BOOTLOADER_MAGIC info M = Some (User entry_regs, ?M')"
    using m(1-3) t(1,2) st(1) by (simp add: i686_kmain_def)
  have v: "vm_of ?M' = km_vm s'" by (simp add: vm_of_def)
  show thesis
  proof (rule fact[OF run, of a p c ob])
    show "boot_printed (occurrence (c_bytes ''use_serial'') cmd \<noteq> None) (con M) (con ?M')
       (mods_text (mi_mods_addr info) @ gdt_text (sym_gdt (proc ?M')) @ memory_test_text a p c ob @ user_test_text)"
      using boot_printed_trans[OF m(7) t(3)] t(4) by simp
    show "in_user_space (a_sched ka) (vm_of M) ?M'"
      unfolding in_user_space_def v using st(2-7,10-12) o(1) pr m(6) pg(9) by (simp add: shared_pde_def vm_of_def)
    show "cpu_tss (proc ?M') = \<lparr>tss_esp0 = sym_stack (proc M) + sizeof_stack - 4, tss_ss0 = 0x10\<rparr>" using m(5) t(4) by simp
  qed
qed

text \<open>The tables of the loader.\<close>

lemma setup_tables_identity: "identity_mapped (setup_tables vm)"
  by (auto simp: identity_mapped_def setup_tables_ptes zero_pte_def)

lemma boot_ready_proc:
  assumes "boot_ready env ka info e cmd cs ds l0 Ls G bl ol B M" "sym_tss c = sym_tss (proc M)" "sym_stack c = sym_stack (proc M)"
  shows "boot_ready env ka info e cmd cs ds l0 Ls G bl ol B (M\<lparr>proc := c\<rparr>)"
  using assms by (simp add: boot_ready_def static_data_ok_def vm_of_def)

section \<open>A concrete machine\<close>

text \<open>A machine of 32 megabytes with the literals at address 0, the buffers of the console on the page after them and the arrays on the third.\<close>

definition boot_texts :: "string list" where
  "boot_texts = [''use_serial'', ''quiet'', mods_format, gdt_format] @ memory_literals @
     [user_message, ''testcpybuf contains '' @ [CHR 0x27] @ ''%s'' @ [CHR 0x27] @ nl]"

definition bringup_machine :: "(unit, nat) machine" where
  "bringup_machine = \<lparr>km = example_sched\<lparr>km_vm := example_boot\<lparr>sym_ebss := 0xC0380000,
       pmem := (\<lambda>a. if unat a < length (image_of boot_texts) then image_of boot_texts ! unat a else 0)\<rparr>\<rparr>,
     proc = example_cpu, con = example_console\<rparr>"

definition bringup_kaddrs :: kaddrs where
  "bringup_kaddrs = example_kaddrs\<lparr>a_testcpybuf := 0xC0002000, a_opcodes := 0xC0002100\<rparr>"

definition bringup_info :: multiboot_info_t where
  "bringup_info = example_info\<lparr>mi_cmdline := 11\<rparr>"

definition example_loader :: loader where
  "example_loader = \<lparr>l_gdt = \<lambda>_. null_descriptor, l_esp = 0, sym_l_gdt = 0x101000, sym_t_stack = 0x102000\<rparr>"

abbreviation bringup_vm :: vm_state where "bringup_vm \<equiv> setup_tables (vm_of bringup_machine)"

lemma boot_texts_length: "length (image_of boot_texts) < 4096"
  by (simp add: boot_texts_def memory_literals_def image_of_def c_bytes_def)

lemma boot_texts_nonzero: "\<forall>t\<in>set boot_texts. 0 \<notin> set (c_bytes t)"
  by (simp add: boot_texts_def memory_literals_def c_bytes_def)

lemma boot_texts_all: "boot_literals \<subseteq> set boot_texts" "''use_serial'' \<in> set boot_texts" "''quiet'' \<in> set boot_texts"
  by (simp_all add: boot_texts_def memory_literals_def boot_literals_def memory_test_literals_def user_test_literals_def)

lemma bringup_windows: "k < 1024 \<Longrightarrow> window bringup_vm k (of_nat k)"
proof -
  assume k: "k < 1024"
  have "pt_phys_addr (identity_pte k) = of_nat k" using loader_pte[OF k] by (metis i686_pte.select_convs(11) i686_pte.update_convs(1,2,11) i686_pte.surjective)
  then show ?thesis using k by (simp add: window_def setup_tables_ptes identity_pte_fields)
qed

lemma bringup_image: "image_at boot_texts 0 1 bringup_vm"
proof -
  have "pmem bringup_vm (frame_addr 0 + of_nat k) = image_of boot_texts ! k" if "k < length (image_of boot_texts)" for k
    using that boot_texts_length by (simp add: setup_tables_frame bringup_machine_def vm_of_def frame_addr_def unat_of_nat)
  then show ?thesis using bringup_windows[of 0] bringup_windows[of 1] by (simp add: image_at_def)
qed

lemma bringup_buffers: "test_buffers bringup_kaddrs (\<lambda>i. frame_addr 2 + of_nat (0 + i)) (\<lambda>i. frame_addr 2 + of_nat (256 + i)) {2} bringup_vm"
proof -
  have w: "window bringup_vm 2 2" using bringup_windows[of 2] by simp
  have k: "kaddr 2 = 0xC0002000" by (simp add: kaddr_def pg_size_def highstart_def)
  have lt: "(of_nat (off + i) :: u32) < 4096" if "off + i < 4096" for off i using that by (simp add: word_less_nat_alt unat_of_nat del: of_nat_add)
  have l: "kvirt_loc bringup_vm (0xC0002000 + of_nat (off + i)) = Some (frame_addr 2 + of_nat (off + i))" if "off + i < 4096" for off i
    using window_loc[OF w lt[OF that]] unfolding k .
  have c: "set (page_cells 2 0 49) \<inter> set (page_cells 2 256 2) = {}" by (rule page_cells_apart) simp_all
  have inj: "inj_on (\<lambda>i. frame_addr 2 + of_nat (0 + i)) {..<49}"
  proof (rule inj_onI)
    fix i j assume ij: "i \<in> {..<49}" "j \<in> {..<49}" and "frame_addr 2 + of_nat (0 + i) = frame_addr 2 + of_nat (0 + j)"
    then have "unat (of_nat i :: u32) = unat (of_nat j :: u32)" by simp
    then show "i = j" using ij by (simp add: unat_of_nat)
  qed
  have b: "kvirt_loc bringup_vm (a_testcpybuf bringup_kaddrs + of_nat i) = Some (frame_addr 2 + of_nat (0 + i)) \<and>
      frame_of (frame_addr 2 + of_nat (0 + i)) \<in> {2}" if "i < 49" for i
    using l[of 0 i] page_cell_frame(1)[of 0 i 2] that by (simp add: bringup_kaddrs_def)
  have o: "kvirt_loc bringup_vm (a_opcodes bringup_kaddrs + of_nat i) = Some (frame_addr 2 + of_nat (256 + i)) \<and>
      frame_of (frame_addr 2 + of_nat (256 + i)) \<in> {2} \<and> frame_addr 2 + of_nat (256 + i) \<notin> (\<lambda>i. frame_addr 2 + of_nat (0 + i)) ` {..<49}" if "i < 2" for i
  proof -
    have "frame_addr 2 + of_nat (256 + i) \<in> set (page_cells 2 256 2)" using that by (simp del: of_nat_add)
    then have "frame_addr 2 + of_nat (256 + i) \<notin> set (page_cells 2 0 49)" using c by blast
    moreover have "set (page_cells 2 0 49) = (\<lambda>i. frame_addr 2 + of_nat (0 + i)) ` {..<49}" by (simp only: set_map set_upt atLeast0LessThan)
    moreover have "a_opcodes bringup_kaddrs + of_nat i = (0xC0002000 + of_nat (256 + i) :: u32)" by (simp add: bringup_kaddrs_def)
    ultimately show ?thesis using l[of 256 i] page_cell_frame(1)[of 256 i 2] that by (simp del: of_nat_add)
  qed
  show ?thesis unfolding test_buffers_def using b o inj by (simp add: frame_addr_def)
qed

lemma bringup_memory: "one_area bringup_info example_area" "memory_ok example_area ({0, 1} \<union> {2}) (vm_of (set_vm bringup_vm bringup_machine))"
proof -
  show "one_area bringup_info example_area" by (simp add: one_area_def bringup_info_def example_info_def example_area_def)
  have g: "last_page example_area = 8192" by (simp add: last_page_def example_area_def)
  have s: "sym_ebss bringup_vm = 0xC0380000" "sym_kernel_pts bringup_vm = 0xC0200000"
    by (simp_all add: setup_tables_frame bringup_machine_def vm_of_def example_boot_def example_vm_def)
  have n: "limit_pages (table_end example_area bringup_vm) = 921" by (simp add: table_end_def g s limit_pages_def)
  have "frame_of (0x200000 + of_nat k * 4096) \<notin> {0, 1, 2}" if "k < 256" for k
  proof -
    have u: "unat (0x200000 + of_nat k * 4096 :: u32) = 0x200000 + k * 4096" using that by (simp add: unat_word_ariths unat_of_nat)
    have "unat (frame_of (0x200000 + of_nat k * 4096)) = 512 + k"
      using that by (simp add: frame_of_def drop_bit_12 unsigned_ucast_eq unat_div_distrib u take_bit_nat_eq_self)
    then show ?thesis by auto
  qed
  then have "kernel_tables bringup_vm \<inter> {0, 1, 2} = {}" by (auto simp: kernel_tables_def s highstart_def)
  then show "memory_ok example_area ({0, 1} \<union> {2}) (vm_of (set_vm bringup_vm bringup_machine))"
    by (simp add: memory_ok_def g s n)
qed

lemma bringup_static: "static_data_ok bringup_kaddrs (set_vm bringup_vm bringup_machine)"
proof -
  have "sym_caches (km bringup_machine) + of_nat k * sizeof_kmem_cache \<noteq> 0" if "k < 4" for k
  proof -
    have "unat (0xC0010000 + of_nat k * 68 :: u32) = 0xC0010000 + k * 68" using that by (simp add: unat_word_ariths unat_of_nat)
    then have "unat (0xC0010000 + of_nat k * 68 :: u32) \<noteq> 0" by simp
    then have "(0xC0010000 + of_nat k * 68 :: u32) \<noteq> 0" by (metis unsigned_0)
    then show ?thesis by (simp add: bringup_machine_def example_sched_def sizeof_kmem_cache_def)
  qed
  then show ?thesis
    by (simp add: static_data_ok_def setup_tables_frame bringup_kaddrs_def example_kaddrs_def)
      (simp add: bringup_machine_def vm_of_def example_boot_def upd_obj_def example_pool_def example_sched_def example_cpu_def linked_def slinked_def c_srem_def)
qed

lemma bringup_cmdline:
  "cstr boot_ld bringup_vm (mi_cmdline bringup_info) (c_bytes ''quiet'')"
  "cstr boot_ld bringup_vm (lit (example_env boot_texts) ''use_serial'') (c_bytes ''use_serial'')"
proof -
  have at: "lit_at boot_texts ''quiet'' = 11" "lit_at boot_texts ''use_serial'' = 0" by (simp_all add: boot_texts_def)
  have b: "boot_ld (11 + of_nat i) bringup_vm = vm_ld (0xC000000B + of_nat i) bringup_vm"
    "boot_ld (0xC0000000 + of_nat i) bringup_vm = vm_ld (0xC0000000 + of_nat i) bringup_vm" if "i < 100" for i
  proof -
    have "unat (11 + of_nat i :: u32) = 11 + i" "unat (0xC0000000 + of_nat i :: u32) = 0xC0000000 + i" using that by (simp_all add: unat_word_ariths(1) unat_of_nat)
    then have "(11 + of_nat i :: u32) < 0x400000" "\<not> (0xC0000000 + of_nat i :: u32) < 0x400000" using that by (simp_all add: word_less_nat_alt)
    moreover have "11 + of_nat i + highstart = 0xC000000B + (of_nat i :: u32)" by (simp add: highstart_def)
    ultimately show "boot_ld (11 + of_nat i) bringup_vm = vm_ld (0xC000000B + of_nat i) bringup_vm"
      "boot_ld (0xC0000000 + of_nat i) bringup_vm = vm_ld (0xC0000000 + of_nat i) bringup_vm"
      unfolding boot_ld_def setup_tables_frame by (simp_all only: if_True if_False simp_thms setup_tables_low)
  qed
  note c = image_at_cstr(1)[OF bringup_image _ bspec[OF boot_texts_nonzero] boot_texts_length]
  have q: "cstr vm_ld bringup_vm 0xC000000B (c_bytes ''quiet'')" using c[OF boot_texts_all(3,3)] at(1) by simp
  have u: "cstr vm_ld bringup_vm 0xC0000000 (c_bytes ''use_serial'')" using c[OF boot_texts_all(2,2)] at(2) by simp
  show "cstr boot_ld bringup_vm (mi_cmdline bringup_info) (c_bytes ''quiet'')"
    using cstr_same[where ld = vm_ld and ld' = boot_ld and s = bringup_vm and b = 11, OF q b(1)] by (simp add: bringup_info_def c_bytes_def)
  show "cstr boot_ld bringup_vm (lit (example_env boot_texts) ''use_serial'') (c_bytes ''use_serial'')"
    using cstr_same[where ld = vm_ld and ld' = boot_ld and s = bringup_vm and b = "0xC0000000", OF u b(2)] at(2) by (simp add: example_env_def c_bytes_def)
qed

section \<open>Properties\<close>



end
